(* ===== verification/RCP_Prelude.thy ===== *)
theory RCP_Prelude
  imports Main "HOL-Library.Word"
begin

text \<open>
  What every component of the development shares.

  \<^item> The machine integers of the Go sources (\<open>uint8\<close> .. \<open>uint64\<close>) as words, byte slices as lists.
  \<^item> The outcome of a Go call, \<open>'a go\<close>: a value, an error value, or a run-time panic (an index or
    slice expression out of range). The decoders of the repository promise that they never panic
    on malformed input; with \<open>Panic\<close> as a value of its own this promise is a theorem.
  \<^item> The checked index and slice expressions of Go and the big-endian accessors of
    \<open>encoding/binary\<close>, with their round-trip laws.
  \<^item> Bit-by-bit extensionality for bytes, which the wire-format proofs use.

  A Go slice expression may reach up to the capacity of its operand; the model only allows the
  length, so the absence of \<open>Panic\<close> in the model implies the absence of a panic in Go.
\<close>

unbundle bit_operations_syntax

section \<open>Collections of facts\<close>

named_theorems go_defs \<open>definitions of decoders and encoders, for unfolding\<close>
named_theorems wire_simps \<open>rewrite rules for reading fields of concrete wire buffers\<close>
named_theorems keeps \<open>invariant preservation, one fact for each operation\<close>

section \<open>Machine integers and byte strings\<close>

type_synonym u8 = "8 word"
type_synonym u16 = "16 word"
type_synonym u32 = "32 word"
type_synonym u64 = "64 word"
type_synonym bytes = "8 word list"

text \<open>Points in time and durations, in nanoseconds.\<close>

type_synonym nanos = int

lemma u8_eq_iff_bits: "(x :: u8) = y \<longleftrightarrow> (\<forall>n<8. bit x n = bit y n)"
  by (auto intro: bit_word_eqI)

lemma all_less_8:
  "(\<forall>n<8. P n) \<longleftrightarrow> P 0 \<and> P 1 \<and> P 2 \<and> P 3 \<and> P 4 \<and> P 5 \<and> P 6 \<and> P (7::nat)"
  by (simp add: numeral_eq_Suc All_less_Suc) blast

lemmas u8_bits = u8_eq_iff_bits all_less_8 bit_simps

lemma u16_eq_iff_bits: "(x :: u16) = y \<longleftrightarrow> (\<forall>n<16. bit x n = bit y n)"
  by (auto intro: bit_word_eqI)

lemma all_less_16:
  "(\<forall>n<16. P n) \<longleftrightarrow> P 0 \<and> P 1 \<and> P 2 \<and> P 3 \<and> P 4 \<and> P 5 \<and> P 6 \<and> P 7 \<and>
     P 8 \<and> P 9 \<and> P 10 \<and> P 11 \<and> P 12 \<and> P 13 \<and> P 14 \<and> P (15::nat)"
  by (simp add: numeral_eq_Suc All_less_Suc) blast

lemmas u16_bits = u16_eq_iff_bits all_less_16 bit_simps

lemma unat_less_bit:
  fixes w :: "'a::len word"
  assumes "unat w < 2 ^ k" and "k \<le> n"
  shows "\<not> bit w n"
proof -
  have "take_bit k w = w"
    using assms(1) by (metis take_bit_nat_eq_self unsigned_take_bit_eq word_eq_iff_unsigned)
  then show ?thesis using assms(2) by (metis bit_take_bit_iff linorder_not_less)
qed

lemma unat_and_less: "unat (x AND y :: 'a::len word) \<le> unat y"
  by (simp add: word_and_le1 flip: word_le_nat_alt)

lemma unat_le_mask: "x AND y = (x :: 'a::len word) \<Longrightarrow> unat x \<le> unat y"
  by (metis unat_and_less)

lemma bit_u8_ge [simp]: "8 \<le> n \<Longrightarrow> \<not> bit (a :: u8) n"
  by (simp add: bit_word.rep_eq)

lemma bit_u8_less: "bit (a :: u8) n \<Longrightarrow> n < 8"
  using bit_u8_ge [of n a] by linarith

lemma ucast_byte_u16:
  assumes "unat n \<le> 0xFF"
  shows "ucast (ucast (n :: u16) :: u8) = n"
proof -
  have "\<not> bit n k" if "8 \<le> k" for k
    using assms that by (intro unat_less_bit [where k = 8]) simp_all
  then show ?thesis by (simp add: u16_bits)
qed

lemma bit_if0: "bit (if P then x else 0) k \<longleftrightarrow> P \<and> bit x k"
  by simp

lemma word_of_nat_below: "unat (w :: 'a::len word) < n \<Longrightarrow> \<exists>k<n. w = word_of_nat k"
  by (metis of_nat_unat ucast_id)

lemma unat_u32_less: "unat (w :: u32) < 4294967296"
  using unsigned_less [of w] by simp

lemma unat_u64_of_u32 [simp]: "unat (ucast (w :: u32) :: u64) = unat w"
  using unat_u32_less [of w] by (simp add: unsigned_ucast_eq take_bit_nat_eq_self_iff)

section \<open>Rounding up to whole quadlets\<close>

lemma pad4_cases:
  obtains "n mod 4 = 0" "(4 - n mod 4) mod 4 = 0" | "n mod 4 = 1" "(4 - n mod 4) mod 4 = 3"
    | "n mod 4 = 2" "(4 - n mod 4) mod 4 = 2" | "n mod 4 = (3::nat)" "(4 - n mod 4) mod 4 = 1"
proof -
  have "n mod 4 \<in> {0, 1, 2, 3}" by auto
  then show ?thesis using that by fastforce
qed

lemma padded_div: "((n :: nat) + (4 - n mod 4) mod 4) div 4 \<le> q \<longleftrightarrow> n \<le> 4 * q"
  by (cases n rule: pad4_cases; simp only:; presburger)

lemma padded_mod: "((n :: nat) + (4 - n mod 4) mod 4) div 4 * 4 = n + (4 - n mod 4) mod 4"
  by (cases n rule: pad4_cases; simp only:; presburger)

section \<open>Outcomes of Go calls\<close>

datatype ('e, 'a) outcome = Ok 'a | Err 'e | Panic

fun andThen :: "('e, 'a) outcome \<Rightarrow> ('a \<Rightarrow> ('e, 'b) outcome) \<Rightarrow> ('e, 'b) outcome" where
  "andThen (Ok x) f = f x"
| "andThen (Err e) f = Err e"
| "andThen Panic f = Panic"

lemma andThen_cong [fundef_cong]:
  "r = r' \<Longrightarrow> (\<And>x. r' = Ok x \<Longrightarrow> f x = g x) \<Longrightarrow> andThen r f = andThen r' g"
  by (cases r') auto

lemma andThen_eq_Ok_iff: "andThen r f = Ok y \<longleftrightarrow> (\<exists>x. r = Ok x \<and> f x = Ok y)"
  by (cases r) auto

lemma andThen_eq_Panic_iff: "andThen r f = Panic \<longleftrightarrow> r = Panic \<or> (\<exists>x. r = Ok x \<and> f x = Panic)"
  by (cases r) auto

lemma andThen_if: "andThen (if b then r else s) f = (if b then andThen r f else andThen s f)"
  by simp

section \<open>Index and slice expressions\<close>

definition idx :: "'a list \<Rightarrow> nat \<Rightarrow> ('e, 'a) outcome" where
  "idx b i = (if i < length b then Ok (b ! i) else Panic)"

definition slice :: "'a list \<Rightarrow> nat \<Rightarrow> nat \<Rightarrow> ('e, 'a list) outcome" where
  "slice b i j = (if i \<le> j \<and> j \<le> length b then Ok (take (j - i) (drop i b)) else Panic)"

lemma idx_Ok [simp]: "i < length b \<Longrightarrow> idx b i = Ok (b ! i)"
  by (simp add: idx_def)

lemma slice_Ok [simp]: "i \<le> j \<Longrightarrow> j \<le> length b \<Longrightarrow> slice b i j = Ok (take (j - i) (drop i b))"
  by (simp add: slice_def)

section \<open>Big-endian accessors\<close>

definition put16 :: "u16 \<Rightarrow> bytes" where
  "put16 w = [ucast (drop_bit 8 w), ucast w]"

definition put32 :: "u32 \<Rightarrow> bytes" where
  "put32 w = [ucast (drop_bit 24 w), ucast (drop_bit 16 w), ucast (drop_bit 8 w), ucast w]"

definition put64 :: "u64 \<Rightarrow> bytes" where
  "put64 w = [ucast (drop_bit 56 w), ucast (drop_bit 48 w), ucast (drop_bit 40 w),
     ucast (drop_bit 32 w), ucast (drop_bit 24 w), ucast (drop_bit 16 w), ucast (drop_bit 8 w),
     ucast w]"

definition be16 :: "u8 \<Rightarrow> u8 \<Rightarrow> u16" where
  "be16 a b = push_bit 8 (ucast a) OR ucast b"

definition be32 :: "u8 \<Rightarrow> u8 \<Rightarrow> u8 \<Rightarrow> u8 \<Rightarrow> u32" where
  "be32 a b c d = push_bit 24 (ucast a) OR push_bit 16 (ucast b) OR push_bit 8 (ucast c) OR ucast d"

definition be64 :: "u8 \<Rightarrow> u8 \<Rightarrow> u8 \<Rightarrow> u8 \<Rightarrow> u8 \<Rightarrow> u8 \<Rightarrow> u8 \<Rightarrow> u8 \<Rightarrow> u64" where
  "be64 a b c d e f g h =
     push_bit 56 (ucast a) OR push_bit 48 (ucast b) OR push_bit 40 (ucast c) OR
     push_bit 32 (ucast d) OR push_bit 24 (ucast e) OR push_bit 16 (ucast f) OR
     push_bit 8 (ucast g) OR ucast h"

text \<open>\<open>get16 b i\<close> is \<open>binary.BigEndian.Uint16(b[i:i+2])\<close>, and so on.\<close>

definition get16 :: "bytes \<Rightarrow> nat \<Rightarrow> ('e, u16) outcome" where
  "get16 b i = (if i + 2 \<le> length b then Ok (be16 (b ! i) (b ! (i + 1))) else Panic)"

definition get32 :: "bytes \<Rightarrow> nat \<Rightarrow> ('e, u32) outcome" where
  "get32 b i = (if i + 4 \<le> length b
     then Ok (be32 (b ! i) (b ! (i + 1)) (b ! (i + 2)) (b ! (i + 3))) else Panic)"

definition get64 :: "bytes \<Rightarrow> nat \<Rightarrow> ('e, u64) outcome" where
  "get64 b i = (if i + 8 \<le> length b
     then Ok (be64 (b ! i) (b ! (i + 1)) (b ! (i + 2)) (b ! (i + 3))
                   (b ! (i + 4)) (b ! (i + 5)) (b ! (i + 6)) (b ! (i + 7))) else Panic)"

lemma bit_be16: "bit (be16 a b) n = (if n < 8 then bit b n else bit a (n - 8))"
  by (auto simp: be16_def bit_simps dest: bit_u8_less)

lemma bit_be32:
  "bit (be32 a b c d) n =
     (if n < 8 then bit d n else if n < 16 then bit c (n - 8)
      else if n < 24 then bit b (n - 16) else bit a (n - 24))"
  by (auto simp: be32_def bit_simps dest: bit_u8_less)

lemma bit_be64:
  "bit (be64 a b c d e f g h) n =
     (if n < 8 then bit h n else if n < 16 then bit g (n - 8) else if n < 24 then bit f (n - 16)
      else if n < 32 then bit e (n - 24) else if n < 40 then bit d (n - 32)
      else if n < 48 then bit c (n - 40) else if n < 56 then bit b (n - 48) else bit a (n - 56))"
  by (auto simp: be64_def bit_simps dest: bit_u8_less)

lemma be16_put [simp]: "be16 (ucast (drop_bit 8 w)) (ucast w) = w"
  by (rule bit_word_eqI) (auto simp: bit_be16 bit_simps)

lemma be32_put [simp]:
  "be32 (ucast (drop_bit 24 w)) (ucast (drop_bit 16 w)) (ucast (drop_bit 8 w)) (ucast w) = w"
  by (rule bit_word_eqI) (auto simp: bit_be32 bit_simps)

lemma be64_put [simp]:
  "be64 (ucast (drop_bit 56 w)) (ucast (drop_bit 48 w)) (ucast (drop_bit 40 w))
        (ucast (drop_bit 32 w)) (ucast (drop_bit 24 w)) (ucast (drop_bit 16 w))
        (ucast (drop_bit 8 w)) (ucast w) = w"
  by (rule bit_word_eqI) (auto simp: bit_be64 bit_simps)

lemma put16_be16 [simp]: "put16 (be16 a b) = [a, b]"
  by (auto simp: put16_def bit_be16 bit_simps intro!: bit_word_eqI)

lemma put32_be32 [simp]: "put32 (be32 a b c d) = [a, b, c, d]"
  by (auto simp: put32_def bit_be32 bit_simps intro!: bit_word_eqI)

lemma put64_be64 [simp]: "put64 (be64 a b c d e f g h) = [a, b, c, d, e, f, g, h]"
  by (auto simp: put64_def bit_be64 bit_simps intro!: bit_word_eqI)

lemma length_put [simp]:
  "length (put16 w) = 2" "length (put32 v) = 4" "length (put64 x) = 8"
  by (simp_all add: put16_def put32_def put64_def)

lemma nth_put [simp]:
  "put16 w ! 0 = ucast (drop_bit 8 w)" "put16 w ! Suc 0 = ucast w"
  "put32 v ! 0 = ucast (drop_bit 24 v)" "put32 v ! Suc 0 = ucast (drop_bit 16 v)"
  "put32 v ! 2 = ucast (drop_bit 8 v)" "put32 v ! 3 = ucast v"
  by (simp_all add: put16_def put32_def)

lemma get16_append [simp]: "get16 (xs @ put16 w @ ys) (length xs) = Ok w"
  by (simp add: get16_def put16_def nth_append)

lemma get32_append [simp]: "get32 (xs @ put32 w @ ys) (length xs) = Ok w"
  by (simp add: get32_def put32_def nth_append)

lemma get64_append [simp]: "get64 (xs @ put64 w @ ys) (length xs) = Ok w"
  by (simp add: get64_def put64_def nth_append)

lemma get_no_panic [simp]:
  "i + 2 \<le> length b \<Longrightarrow> get16 b i = Ok (be16 (b ! i) (b ! (i + 1)))"
  "i + 4 \<le> length b \<Longrightarrow> get32 b i = Ok (be32 (b ! i) (b ! (i + 1)) (b ! (i + 2)) (b ! (i + 3)))"
  "i + 8 \<le> length b \<Longrightarrow> get64 b i = Ok (be64 (b ! i) (b ! (i + 1)) (b ! (i + 2)) (b ! (i + 3))
                   (b ! (i + 4)) (b ! (i + 5)) (b ! (i + 6)) (b ! (i + 7)))"
  by (simp_all add: get16_def get32_def get64_def)

text \<open>The same reads as unconditional rewrite rules, for buffers of unknown length.\<close>

lemma andThen_reads [wire_simps]:
  "andThen (idx b i) f = (if i < length b then f (b ! i) else Panic)"
  "andThen (slice b i j) g = (if i \<le> j \<and> j \<le> length b then g (take (j - i) (drop i b)) else Panic)"
  by (simp_all add: idx_def slice_def)

lemma andThen_gets [wire_simps]:
  "andThen (get16 c i) f2 = (if i + 2 \<le> length c then f2 (be16 (c ! i) (c ! (i + 1))) else Panic)"
  "andThen (get32 c i) f4 = (if i + 4 \<le> length c
     then f4 (be32 (c ! i) (c ! (i + 1)) (c ! (i + 2)) (c ! (i + 3))) else Panic)"
  "andThen (get64 c i) f8 = (if i + 8 \<le> length c
     then f8 (be64 (c ! i) (c ! (i + 1)) (c ! (i + 2)) (c ! (i + 3))
                   (c ! (i + 4)) (c ! (i + 5)) (c ! (i + 6)) (c ! (i + 7))) else Panic)"
  by (simp_all add: get16_def get32_def get64_def)

section \<open>Lists\<close>

lemma take_eq_map_nth: "n \<le> length b \<Longrightarrow> take n b = map ((!) b) [0..<n]"
  by (rule nth_equalityI) auto

text \<open>The first \<open>n\<close> elements written out, for a numeral \<open>n\<close>.\<close>

lemma split_at_nths: "n \<le> length b \<Longrightarrow> b = map ((!) b) [0..<n] @ drop n b"
  by (simp flip: take_eq_map_nth)

text \<open>All elements of a list of known length.\<close>

lemma nths_of: "length b = n \<Longrightarrow> map ((!) b) [0..<n] = b"
  using map_nth by blast

lemma remdups_adj_snoc:
  "remdups_adj (xs @ [x]) = (if xs \<noteq> [] \<and> last xs = x then remdups_adj xs else remdups_adj xs @ [x])"
  by (cases xs rule: rev_cases) (simp_all add: remdups_adj_append_two)

section \<open>Codecs of message bodies\<close>

text \<open>
  What the encoder and the decoder of one body promise to each other: on the values that fit the
  format, decoding inverts encoding, and no input makes the decoder panic. An exact codec also
  has only one representation of each value.
\<close>

locale body_codec =
  fixes enc :: "'a \<Rightarrow> bytes"
    and dec :: "bytes \<Rightarrow> ('e, 'a) outcome"
    and fits :: "'a \<Rightarrow> bool"
  assumes dec_enc: "fits x \<Longrightarrow> dec (enc x) = Ok x"
    and dec_no_panic: "dec b \<noteq> Panic"
begin

lemma enc_inj: "fits x \<Longrightarrow> fits y \<Longrightarrow> enc x = enc y \<Longrightarrow> x = y"
  by (metis dec_enc outcome.inject(1))

lemma dec_cases: obtains (decoded) x where "dec b = Ok x" | (rejected) e where "dec b = Err e"
  using dec_no_panic by (cases "dec b") auto

end

locale exact_codec = body_codec enc dec fits
  for enc :: "'a \<Rightarrow> bytes" and dec :: "bytes \<Rightarrow> ('e, 'a) outcome" and fits :: "'a \<Rightarrow> bool" +
  assumes enc_dec: "dec b = Ok x \<Longrightarrow> fits x \<and> enc x = b"
begin

lemma dec_Ok_iff: "dec b = Ok x \<longleftrightarrow> fits x \<and> b = enc x"
  using dec_enc enc_dec by blast

end

section \<open>Step relations with an invariant\<close>

text \<open>
  What a component's step relation promises: every step keeps the invariant. Runs then keep it
  too, and with it every property that single steps keep.
\<close>

locale invariant_steps =
  fixes step :: "'s \<Rightarrow> 's \<Rightarrow> bool" and inv :: "'s \<Rightarrow> bool"
  assumes step_inv: "inv s \<Longrightarrow> step s s' \<Longrightarrow> inv s'"
begin

lemma steps_inv: "step\<^sup>*\<^sup>* s s' \<Longrightarrow> inv s \<Longrightarrow> inv s'"
  by (induction rule: rtranclp_induct) (auto intro: step_inv)

text \<open>A property that no step from an invariant state destroys is kept by every run.\<close>

lemma steps_keep:
  assumes "step\<^sup>*\<^sup>* s s'" "inv s" "P s" "\<And>a b. inv a \<Longrightarrow> P a \<Longrightarrow> step a b \<Longrightarrow> P b"
  shows "P s'"
proof -
  have "inv s' \<and> P s'" using assms(1)
    by (induction rule: rtranclp_induct) (use assms(2-) step_inv in blast)+
  then show ?thesis by blast
qed

end

end
