(* ===== verification/RCP_Errors.thy ===== *)
theory RCP_Errors
  imports RCP_Prelude
begin

text \<open>
  The error values of the Go packages: one datatype for each package's \<open>errors.go\<close>, with the
  package's sentinels as constructors (a suffix tells apart sentinels that several packages
  declare under one name), and \<open>rcp_error\<close>, the values of type \<open>error\<close> the modelled code returns:
  a sentinel, or a sentinel wrapped by \<open>fmt.Errorf\<close> with the verb \<open>%w\<close> and further detail.
  \<open>errors_is\<close> is \<open>errors.Is\<close> of the standard library on these values.
\<close>

datatype avtp_error =
    ErrShortHeader
  | ErrUnsupportedVersion
  | ErrUnknownSubtype
  | ErrReservedBitsSet
  | ErrDataLengthOverflow

datatype acf_error =
    ErrShortMessage
  | ErrUnknownMessageKind
  | ErrLengthOverflow
  | ErrEVTOverflow
  | ErrTransactionNumOverflow
  | ErrByteBusIDOverflow
  | ErrReadSizeOverflow
  | ErrTrailingBytes_acf
  | ErrFrameLengthMismatch
  | ErrEVTReserved
  | ErrEVTMissingPayload
  | ErrEVTUnknownClass
  | ErrShortConfigRequest

datatype request_error =
    ErrShortBuffer_request
  | ErrTrailingBytes_request
  | ErrInvalidKind
  | ErrWrongKind
  | ErrInvalidCompareOp
  | ErrInvalidSegmentCount
  | ErrNotExtended
  | ErrUnknownTicket
  | ErrPending
  | ErrChainedSegmentFailed
  | ErrTicketCancelled
  | ErrSafeStateNotConfigured
  | ErrPurgedByWatchdog

datatype fragment_error =
    ErrInvalidMaxSegmentBody
  | ErrAlreadyFragmented
  | ErrTooManySegments
  | ErrOutOfOrderSegment
  | ErrDuplicateSegment
  | ErrHeaderMismatch
  | ErrSequenceComplete
  | ErrUnknownSequence
  | ErrIncomplete
  | ErrAwaitingSegments

datatype regmap_error =
    ErrRegisterLocked
  | ErrGeneralBlockReadOnly
  | ErrPinMapInvalid
  | ErrQueueConfigInvalid
  | ErrReservedAddress_regmap
  | ErrDuplicateEndpoint_regmap
  | ErrUnknownEndpoint_regmap
  | ErrNotRootClient
  | ErrRootAlreadyClaimed
  | ErrAccessDenied
  | ErrShortBuffer_regmap
  | ErrUnknownEndpointType
  | ErrUnsupportedRegisterMapVersion
  | ErrBadMagic
  | ErrTrailingBytes_regmap

datatype lifecycle_error =
    ErrLifecycleOutOfOrder
  | ErrFunctionalBlockIncomplete
  | ErrDemotionNotAuthorized

datatype discovery_error =
    ErrDiscoveryRequiresUntimedHeader
  | ErrDiscoveryRequestIsACFGBB
  | ErrConfigurationClaimed
  | ErrNotConfigurationClaimant

datatype e2e_error =
    ErrShortSafePoint
  | ErrCRCMismatch
  | ErrSequenceViolation

datatype udp_error =
    ErrClosed
  | ErrTimeout
  | ErrAlreadyExists
  | ErrNotFound
  | ErrUnknownEndpoint_udp
  | ErrDuplicateEndpoint_udp
  | ErrReservedAddress_udp
  | ErrRequestMustReadOrWrite_udp
  | ErrWrongEndpoint_udp
  | ErrShortBuffer_udp

datatype gpio_error =
    ErrShortBuffer_gpio
  | ErrTrailingBytes_gpio
  | ErrPinCountOutOfRange
  | ErrWrongEndpoint_gpio
  | ErrRequestMustReadOrWrite_gpio

datatype pwm_error =
    ErrShortBuffer_pwm
  | ErrTrailingBytes_pwm
  | ErrInvalidRole
  | ErrActiveExceedsPeriod
  | ErrWrongEndpoint_pwm
  | ErrNotConfigured_pwm
  | ErrRequestMustReadOrWrite_pwm
  | ErrWriteNotSupportedForInput
  | ErrSignalLost

datatype spi_error =
    ErrShortBuffer_spi
  | ErrTrailingBytes_spi
  | ErrInvalidChannel
  | ErrZeroClock
  | ErrInvalidMode_spi
  | ErrWrongEndpoint_spi
  | ErrRequestMustWrite_spi
  | ErrChannelNotConfigured_spi

datatype i2c_error =
    ErrShortBuffer_i2c
  | ErrTrailingBytes_i2c
  | ErrInvalidSpeed
  | ErrWrongEndpoint_i2c
  | ErrRequestMustWrite_i2c
  | ErrBusNotConfigured_i2c

datatype uart_error =
    ErrShortBuffer_uart
  | ErrTrailingBytes_uart
  | ErrZeroBaudRate
  | ErrInvalidDataBits
  | ErrInvalidParity
  | ErrInvalidStopBits
  | ErrWrongEndpoint_uart
  | ErrUARTNotConfigured
  | ErrReadRequestNotPayloadLess
  | ErrRequestMustReadOrWrite_uart

datatype adc_error =
    ErrShortBuffer_adc
  | ErrTrailingBytes_adc
  | ErrInvalidResolution
  | ErrInvalidSampleCount
  | ErrInvalidCombineMode
  | ErrInvalidTriggerMode
  | ErrWrongEndpoint_adc
  | ErrChannelNotConfigured_adc
  | ErrRequestMustReadOrWrite_adc

datatype lin_error =
    ErrShortBuffer_lin
  | ErrTrailingBytes_lin
  | ErrInvalidBaudRate
  | ErrWrongEndpoint_lin
  | ErrRequestMustWrite_lin
  | ErrBusNotConfigured_lin

datatype can_error =
    ErrShortBuffer_can
  | ErrTrailingBytes_can
  | ErrInvalidBitrate
  | ErrInvalidFormat
  | ErrIDOutOfRange
  | ErrPayloadTooLarge
  | ErrBitRateSwitchNotSupported
  | ErrXLHeaderNotSupported
  | ErrWrongEndpoint_can
  | ErrNotConfigured_can
  | ErrRequestMustReadOrWrite_can
  | ErrNoFrameReceived

datatype mdio_error =
    ErrShortBuffer_mdio
  | ErrTrailingBytes_mdio
  | ErrInvalidMode_mdio
  | ErrDevAddrOutOfRange
  | ErrWrongEndpoint_mdio
  | ErrNotConfigured_mdio
  | ErrRequestMustReadOrWrite_mdio

datatype iseled_error =
    ErrShortBuffer_iseled
  | ErrTrailingBytes_iseled
  | ErrCRCMismatch_iseled
  | ErrInvalidDeviceCount
  | ErrWrongEndpoint_iseled
  | ErrRequestMustWrite_iseled
  | ErrChainNotConfigured
  | ErrDeviceAddressOutOfRange

datatype wakeup_error =
    ErrShortBuffer_wakeup
  | ErrTrailingBytes_wakeup
  | ErrInvalidHandshakeInterval
  | ErrInvalidHandshakeRepeatCount
  | ErrWrongEndpoint_wakeup
  | ErrNotConfigured_wakeup
  | ErrRequestMustReadOrWrite_wakeup
  | ErrInvalidPowerState
  | ErrCannotRequestUnpowered

text \<open>The sentinels of the packages above the transport, each package with its own type.\<close>

datatype l2_error = ErrL2UnsupportedPlatform | ErrShortFrame_l2 | ErrUnexpectedEtherType | ErrClosed_l2

datatype linbr_error = ErrChecksumMismatch_linbr | ErrFrameTooShort_linbr | ErrDataTooLong_linbr | ErrTransfer_linbr bytes

datatype canbr_error = ErrNotAResponse

datatype udsbr_error = ErrNegativeResponse | ErrPDUTooShort | ErrClosed_udsbr

datatype doipbr_error = ErrInvalidHeader | ErrUnsupportedPayload | EOF_doipbr | ErrUnexpectedEOF_doipbr

datatype someip_error = ErrMalformedFrame | ErrClosed_someip

datatype firmware_error =
    ErrImageEmpty
  | ErrImageTooLarge
  | ErrCRCMismatch_firmware
  | ErrEndpointRejected
  | ErrUpdateInProgress
  | ErrPayloadTooShort_firmware

datatype federation_error = ErrAlreadyOwned | ErrNotOwned

datatype zonegroup_error = ErrNoMembers | ErrNilMember nat

datatype authz_error = ErrDenied

datatype proxy_error = ErrClosed_proxy

datatype mock_error = ErrClosed_mock | ErrWrongEndpoint_mock | ErrDropped_mock | ErrAlreadyExists_mock | ErrNotFound_mock

datatype loan_error = ErrNegativeSize_loan

datatype faultinject_error = ErrInjectedDrop

datatype dyndata_error =
    ErrAlreadyRegistered_dyndata
  | ErrSchemaNotFound
  | ErrFieldTypeMismatch
  | ErrUnknownField
  | ErrMissingField

datatype root_error = ErrClosed_rcp | ErrNotConnected_rcp | ErrTimeout_rcp | ErrPayloadTooLarge_rcp | ErrNotFound_rcp

datatype bridge_error =
    BL2 l2_error
  | BLinbr linbr_error
  | BCanbr canbr_error
  | BUdsbr udsbr_error
  | BDoipbr doipbr_error
  | BSomeip someip_error
  | BFirmware firmware_error
  | BFederation federation_error
  | BZonegroup zonegroup_error
  | BAuthz authz_error
  | BProxy proxy_error
  | BMock mock_error
  | BLoan loan_error
  | BFault faultinject_error
  | BDyndata dyndata_error
  | BRoot root_error

text \<open>
  What \<open>fmt.Errorf\<close> adds to the sentinel it wraps is a \<open>detail\<close>; \<open>EExternal\<close> stands for the errors of
  the transports, which are supplied from outside.
\<close>

datatype rcp_error =
    EAvtp avtp_error
  | EAcf acf_error
  | ERequest request_error
  | EFragment fragment_error
  | ERegmap regmap_error
  | ELifecycle lifecycle_error
  | EDiscovery discovery_error
  | EE2e e2e_error
  | EUdp udp_error
  | EGpio gpio_error
  | EPwm pwm_error
  | ESpi spi_error
  | EI2c i2c_error
  | EUart uart_error
  | EAdc adc_error
  | ELin lin_error
  | ECan can_error
  | EMdio mdio_error
  | EIseled iseled_error
  | EWakeup wakeup_error
  | EBridge bridge_error
  | EExternal nat
  | EWrap rcp_error detail
and detail =
    DText rcp_error
  | DGot u32
  | DTicket u64
  | DSequence u32 u32

type_synonym 'a go = "(rcp_error, 'a) outcome"

fun errors_is :: "rcp_error \<Rightarrow> rcp_error \<Rightarrow> bool" where
  "errors_is (EWrap e d) target = (EWrap e d = target \<or> errors_is e target)"
| "errors_is e target = (e = target)"

lemma errors_is_refl [simp]: "errors_is e e"
  by (cases e) auto

text \<open>
  A Go function whose results are only \<open>error\<close> returns \<open>Ok ()\<close> for \<open>nil\<close>.
\<close>

end
