(* ===== verification/Avtp.thy ===== *)
theory Avtp
  imports RCP_Errors
begin

text \<open>
  The package \<open>avtp\<close>: stream addressing (\<open>address.go\<close>) and the IEEE 1722 AVTPDU header in its
  untimed (NTSCF) and presentation-timestamped (TSCF) form (\<open>avtpdu.go\<close>): \<open>EncodeHeader\<close>,
  \<open>DecodeHeader\<close> and \<open>Disposition\<close>. The theorems show that decoding never panics, inverts
  encoding, and that the disposition follows the documented precedence.
\<close>

section \<open>Addresses\<close>

text \<open>\<open>StreamID\<close> is the array type \<open>[8]byte\<close>; its bytes are the constructor's arguments.\<close>

datatype StreamID = StreamID u8 u8 u8 u8 u8 u8 u8 u8

fun sid_bytes :: "StreamID \<Rightarrow> bytes" where
  "sid_bytes (StreamID a b c d e f g h) = [a, b, c, d, e, f, g, h]"

definition zeroStreamID :: StreamID where
  "zeroStreamID = StreamID 0 0 0 0 0 0 0 0"

text \<open>\<open>copy(id[:], b[i:i+8])\<close> into a zero-valued array.\<close>

definition get_sid :: "bytes \<Rightarrow> nat \<Rightarrow> StreamID go" where
  "get_sid b i = (if i + 8 \<le> length b
     then Ok (StreamID (b ! i) (b ! (i + 1)) (b ! (i + 2)) (b ! (i + 3))
                       (b ! (i + 4)) (b ! (i + 5)) (b ! (i + 6)) (b ! (i + 7)))
     else Panic)"

type_synonym ByteBusID = u16
type_synonym TransactionNum = u16

text \<open>A MAC address is the array type \<open>[6]byte\<close>.\<close>

datatype MACAddr = MACAddr u8 u8 u8 u8 u8 u8

fun NewStreamID :: "MACAddr \<Rightarrow> u16 \<Rightarrow> StreamID" where
  "NewStreamID (MACAddr a b c d e f) suffix =
     StreamID a b c d e f (ucast (drop_bit 8 suffix)) (ucast suffix)"

fun sid_MAC :: "StreamID \<Rightarrow> MACAddr" where
  "sid_MAC (StreamID a b c d e f g h) = MACAddr a b c d e f"

fun sid_Suffix :: "StreamID \<Rightarrow> u16" where
  "sid_Suffix (StreamID a b c d e f g h) = push_bit 8 (ucast g) OR ucast h"

section \<open>AVTPDU headers\<close>

definition SubtypeNTSCF :: u8 where "SubtypeNTSCF = 0x82"
definition SubtypeTSCF :: u8 where "SubtypeTSCF = 0x05"
definition ProtocolVersion :: u8 where "ProtocolVersion = 0"
definition MaxDataLength :: nat where "MaxDataLength = 0x07FF"
definition untimedHeaderLen :: nat where "untimedHeaderLen = 4 + 8"
definition timedHeaderLen :: nat where "timedHeaderLen = 4 + 8 + 4 + 4 + 4"

lemmas avtp_consts = SubtypeNTSCF_def SubtypeTSCF_def ProtocolVersion_def MaxDataLength_def
  untimedHeaderLen_def timedHeaderLen_def

datatype TimestampStatus =
  TimestampMissing | TimestampValid | TimestampInvalid | TimestampUncertain

datatype Disposition = DispositionBestEffort | DispositionScheduled | DispositionDrop

record Header =
  Timed :: bool
  StreamIDValid :: bool
  SequenceNum :: u8
  DataLength :: u16
  HStreamID :: StreamID
  HTimestamp :: u32
  HTimestampStatus :: TimestampStatus

definition wireLen :: "Header \<Rightarrow> nat" where
  "wireLen h = (if Timed h then timedHeaderLen else untimedHeaderLen)"

fun encodeTimestampMarkers :: "TimestampStatus \<Rightarrow> bool \<times> bool" where
  "encodeTimestampMarkers TimestampValid = (True, False)"
| "encodeTimestampMarkers TimestampUncertain = (True, True)"
| "encodeTimestampMarkers _ = (False, False)"

definition decodeTimestampMarkers :: "bool \<Rightarrow> bool \<Rightarrow> TimestampStatus" where
  "decodeTimestampMarkers tv tu =
     (if \<not> tv then TimestampMissing else if tu then TimestampUncertain else TimestampValid)"

text \<open>
  The Go code fills a zeroed buffer of \<open>wireLen\<close> octets field by field; here the octets are
  listed in wire order.
\<close>

definition EncodeHeader :: "Header \<Rightarrow> bytes go" where
  "EncodeHeader h =
     (if unat (DataLength h) > MaxDataLength then Err (EAvtp ErrDataLengthOverflow)
      else
        (let b1 = (if StreamIDValid h then 0x80 else 0) OR push_bit 4 (ProtocolVersion AND 0x07) in
         if Timed h then
           (case encodeTimestampMarkers (HTimestampStatus h) of (tv, tu) \<Rightarrow>
              Ok ([SubtypeTSCF,
                   (if tv then b1 OR 0x01 else b1),
                   SequenceNum h,
                   (if tu then 0x01 else 0)]
                  @ sid_bytes (HStreamID h)
                  @ put32 (HTimestamp h)
                  @ [0, 0, 0, 0]
                  @ put16 (DataLength h)
                  @ [0, 0]))
         else
           Ok ([SubtypeNTSCF,
                b1 OR (ucast (drop_bit 8 (DataLength h)) AND 0x07),
                ucast (DataLength h),
                SequenceNum h]
               @ sid_bytes (HStreamID h))))"

definition DecodeHeader :: "bytes \<Rightarrow> (Header \<times> bytes) go" where
  "DecodeHeader b =
     (if length b < 1 then Err (EAvtp ErrShortHeader)
      else andThen (idx b 0) (\<lambda>b0.
        if b0 \<noteq> SubtypeNTSCF \<and> b0 \<noteq> SubtypeTSCF then Err (EAvtp ErrUnknownSubtype)
        else
          (let timed = (b0 = SubtypeTSCF);
               need = (if timed then timedHeaderLen else untimedHeaderLen) in
           if length b < need then Err (EAvtp ErrShortHeader)
           else andThen (idx b 1) (\<lambda>b1.
             if drop_bit 4 b1 AND 0x07 \<noteq> ProtocolVersion then Err (EAvtp ErrUnsupportedVersion)
             else if timed then
               andThen (idx b 3) (\<lambda>b3.
               if b1 AND 0x06 \<noteq> 0 \<or> b3 AND 0xFE \<noteq> 0 then Err (EAvtp ErrReservedBitsSet)
               else
                 andThen (idx b 2) (\<lambda>b2.
                 andThen (get_sid b 4) (\<lambda>sid.
                 andThen (get32 b 12) (\<lambda>ts.
                 andThen (get16 b 20) (\<lambda>dl.
                 andThen (slice b timedHeaderLen (length b)) (\<lambda>rest.
                   Ok (\<lparr>Timed = True, StreamIDValid = (b1 AND 0x80 \<noteq> 0), SequenceNum = b2,
                        DataLength = dl, HStreamID = sid, HTimestamp = ts,
                        HTimestampStatus =
                          decodeTimestampMarkers (b1 AND 0x01 \<noteq> 0) (b3 AND 0x01 \<noteq> 0)\<rparr>, rest)))))))
             else if b1 AND 0x08 \<noteq> 0 then Err (EAvtp ErrReservedBitsSet)
             else
               andThen (idx b 2) (\<lambda>b2.
               andThen (idx b 3) (\<lambda>b3.
               andThen (get_sid b 4) (\<lambda>sid.
               andThen (slice b untimedHeaderLen (length b)) (\<lambda>rest.
                 Ok (\<lparr>Timed = False, StreamIDValid = (b1 AND 0x80 \<noteq> 0), SequenceNum = b3,
                      DataLength = push_bit 8 (ucast (b1 AND 0x07)) OR ucast b2,
                      HStreamID = sid, HTimestamp = 0, HTimestampStatus = TimestampMissing\<rparr>,
                     rest)))))))))"

definition Header_Disposition :: "Header \<Rightarrow> bool \<Rightarrow> Disposition" where
  "Header_Disposition h timeSyncSupported =
     (if \<not> Timed h then DispositionBestEffort
      else if \<not> timeSyncSupported then DispositionDrop
      else if HTimestampStatus h = TimestampValid then DispositionScheduled
      else DispositionBestEffort)"

lemmas Header_defs [go_defs] = EncodeHeader_def DecodeHeader_def wireLen_def

section \<open>Addresses: construction and projections\<close>

lemma sid_MAC_NewStreamID: "sid_MAC (NewStreamID mac suffix) = mac"
  by (cases mac) simp

lemma sid_Suffix_NewStreamID: "sid_Suffix (NewStreamID mac suffix) = suffix"
  by (cases mac) (simp flip: be16_def)

lemma NewStreamID_surj: "NewStreamID (sid_MAC s) (sid_Suffix s) = s"
proof (cases s)
  case (StreamID a b c d e f g h)
  have "put16 (be16 g h) = [g, h]" by simp
  then show ?thesis by (simp add: StreamID put16_def be16_def)
qed

lemma length_sid_bytes [simp]: "length (sid_bytes s) = 8"
  by (cases s) simp

lemma get_sid_Ok: "i + 8 \<le> length b \<Longrightarrow> \<exists>s. get_sid b i = Ok s"
  by (simp add: get_sid_def)

lemma get_sid_append [simp]: "get_sid (xs @ sid_bytes s @ ys) (length xs) = Ok s"
  by (cases s) (simp add: get_sid_def nth_append)

section \<open>Headers: codec laws\<close>

text \<open>The header a receiver sees: the wire keeps no timestamp of an untimed header and does not
  tell an invalid timestamp from a missing one.\<close>

definition wire_header :: "Header \<Rightarrow> Header" where
  "wire_header h =
     (if Timed h
      then h\<lparr>HTimestampStatus := (if HTimestampStatus h = TimestampInvalid then TimestampMissing
                                 else HTimestampStatus h)\<rparr>
      else h\<lparr>HTimestamp := 0, HTimestampStatus := TimestampMissing\<rparr>)"

lemma EncodeHeader_Ok_iff:
  "(\<exists>bs. EncodeHeader h = Ok bs) \<longleftrightarrow> unat (DataLength h) \<le> MaxDataLength"
  by (auto simp: EncodeHeader_def Let_def split: prod.splits)

lemma length_EncodeHeader: "EncodeHeader h = Ok bs \<Longrightarrow> length bs = wireLen h"
  by (auto simp: EncodeHeader_def Let_def wireLen_def avtp_consts split: if_splits prod.splits)

lemma EncodeHeader_no_panic: "EncodeHeader h \<noteq> Panic"
  by (auto simp: EncodeHeader_def Let_def split: prod.splits)

lemma DecodeHeader_never_panics: "DecodeHeader b \<noteq> Panic"
  by (auto simp: DecodeHeader_def Let_def get_sid_def avtp_consts)

lemma data_length_split:
  fixes n :: u16
  assumes "unat n \<le> 0x7FF" and "c AND 0x07 = (0 :: u8)"
  shows "push_bit 8 (ucast ((c OR (ucast (drop_bit 8 n) AND 0x07)) AND 0x07)) OR ucast (ucast n :: u8) = n"
proof -
  have "\<not> bit n k" if "11 \<le> k" for k
    using assms(1) that by (intro unat_less_bit [where k = 11]) simp_all
  then show ?thesis
    using assms(2) by (simp add: u16_bits u8_eq_iff_bits all_less_8)
qed

lemma decodeTimestampMarkers_encode:
  "encodeTimestampMarkers s = (tv, tu) \<Longrightarrow>
   decodeTimestampMarkers tv tu = (if s = TimestampInvalid then TimestampMissing else s)"
  by (cases s) (auto simp: decodeTimestampMarkers_def)

lemma EncodeHeader_timed:
  "Timed h \<Longrightarrow> unat (DataLength h) \<le> MaxDataLength \<Longrightarrow>
   encodeTimestampMarkers (HTimestampStatus h) = (tv, tu) \<Longrightarrow>
   EncodeHeader h = Ok ([0x05, (if StreamIDValid h then 0x80 else 0) OR (if tv then 1 else 0),
       SequenceNum h, if tu then 1 else 0] @ sid_bytes (HStreamID h) @ put32 (HTimestamp h) @
       [0, 0, 0, 0] @ put16 (DataLength h) @ [0, 0])"
  by (auto simp: EncodeHeader_def avtp_consts)

lemma DecodeHeader_timed:
  "DecodeHeader ([0x05, (if sv then 0x80 else 0) OR (if tv then 1 else 0), sq, if tu then 1 else 0]
       @ sid_bytes sid @ put32 ts @ [0, 0, 0, 0] @ put16 dl @ [0, 0] @ rest) =
   Ok (\<lparr>Timed = True, StreamIDValid = sv, SequenceNum = sq, DataLength = dl, HStreamID = sid,
        HTimestamp = ts, HTimestampStatus = decodeTimestampMarkers tv tu\<rparr>, rest)"
  by (cases sid; cases sv; cases tv; cases tu)
    (simp_all add: DecodeHeader_def Let_def avtp_consts put32_def put16_def get_sid_def get32_def get16_def)

lemma EncodeHeader_untimed:
  "\<not> Timed h \<Longrightarrow> unat (DataLength h) \<le> MaxDataLength \<Longrightarrow>
   EncodeHeader h = Ok ([0x82, (if StreamIDValid h then 0x80 else 0) OR
        (ucast (drop_bit 8 (DataLength h)) AND 0x07), ucast (DataLength h), SequenceNum h]
      @ sid_bytes (HStreamID h))"
  by (simp add: EncodeHeader_def avtp_consts)

lemma DecodeHeader_untimed:
  assumes "unat dl \<le> MaxDataLength"
  shows "DecodeHeader ([0x82, (if sv then 0x80 else 0) OR (ucast (drop_bit 8 dl) AND 0x07), ucast dl, sq]
       @ sid_bytes sid @ rest) =
     Ok (\<lparr>Timed = False, StreamIDValid = sv, SequenceNum = sq, DataLength = dl, HStreamID = sid,
        HTimestamp = 0, HTimestampStatus = TimestampMissing\<rparr>, rest)"
proof -
  let ?b1 = "(if sv then 0x80 else 0) OR (ucast (drop_bit 8 dl) AND 0x07) :: u8"
  have "drop_bit 4 ?b1 AND 0x07 = 0" "?b1 AND 0x08 = 0" "(?b1 AND 0x80 \<noteq> 0) = sv"
    by (cases sv; simp add: u8_bits)+
  moreover have "push_bit 8 (ucast (?b1 AND 0x07)) OR ucast (ucast dl :: u8) = dl"
    using assms by (intro data_length_split) (auto simp: avtp_consts)
  ultimately show ?thesis
    by (cases sid) (simp add: DecodeHeader_def Let_def avtp_consts get_sid_def)
qed

lemma DecodeHeader_EncodeHeader:
  assumes "EncodeHeader h = Ok bs"
  shows "DecodeHeader (bs @ rest) = Ok (wire_header h, rest)"
proof -
  have dl: "unat (DataLength h) \<le> MaxDataLength"
    using assms by (auto simp: EncodeHeader_def split: if_splits)
  obtain tv tu where m: "encodeTimestampMarkers (HTimestampStatus h) = (tv, tu)"
    by fastforce
  show ?thesis
  proof (cases "Timed h")
    case True
    from assms EncodeHeader_timed [OF True dl m] have
      "bs @ rest = [0x05, (if StreamIDValid h then 0x80 else 0) OR (if tv then 1 else 0),
         SequenceNum h, if tu then 1 else 0] @ sid_bytes (HStreamID h) @ put32 (HTimestamp h) @
         [0, 0, 0, 0] @ put16 (DataLength h) @ [0, 0] @ rest"
      by auto
    then show ?thesis
      using True by (simp only: DecodeHeader_timed)
        (simp add: wire_header_def decodeTimestampMarkers_encode [OF m])
  next
    case False
    from assms EncodeHeader_untimed [OF False dl] have
      "bs @ rest = [0x82, (if StreamIDValid h then 0x80 else 0) OR
        (ucast (drop_bit 8 (DataLength h)) AND 0x07), ucast (DataLength h), SequenceNum h]
      @ sid_bytes (HStreamID h) @ rest"
      by auto
    then show ?thesis
      using False by (simp only: DecodeHeader_untimed [OF dl]) (simp add: wire_header_def)
  qed
qed

text \<open>An untimed header has one encoding: whatever decodes as an untimed header is the encoding
  of the decoded header.\<close>

lemma EncodeHeader_DecodeHeader_untimed:
  assumes "DecodeHeader b = Ok (h, rest)" and "\<not> Timed h"
  shows "\<exists>bs. EncodeHeader h = Ok bs \<and> b = bs @ rest"
proof -
  from assms have len: "12 \<le> length b" and b0: "b ! 0 = 0x82"
    and v: "drop_bit 4 (b ! 1) AND 0x07 = 0" and r: "b ! 1 AND 0x08 = 0"
    and h: "h = \<lparr>Timed = False, StreamIDValid = (b ! 1 AND 0x80 \<noteq> 0), SequenceNum = b ! 3,
      DataLength = push_bit 8 (ucast (b ! 1 AND 0x07)) OR ucast (b ! 2),
      HStreamID = StreamID (b ! 4) (b ! 5) (b ! 6) (b ! 7) (b ! 8) (b ! 9) (b ! 10) (b ! 11),
      HTimestamp = 0, HTimestampStatus = TimestampMissing\<rparr>" and rest: "rest = drop 12 b"
    by (auto simp: DecodeHeader_def Let_def avtp_consts get_sid_def andThen_eq_Ok_iff
        split: if_splits)
  let ?dl = "push_bit 8 (ucast (b ! 1 AND 0x07)) OR ucast (b ! 2) :: u16"
  have b1: "(if b ! 1 AND 0x80 \<noteq> 0 then 0x80 else 0) OR (ucast (drop_bit 8 ?dl) AND 0x07) = b ! 1"
    using v r by (auto simp: u8_bits)
  have b2: "ucast ?dl = b ! 2"
    by (auto simp: u8_bits)
  have "?dl = ?dl AND mask 11"
    by (auto simp: u16_bits)
  then have "unat ?dl \<le> unat (mask 11 :: u16)"
    by (metis word_and_le1 word_le_nat_alt)
  then have dl: "unat ?dl \<le> MaxDataLength"
    by (simp add: avtp_consts mask_numeral)
  have "b = map ((!) b) [0..<12] @ drop 12 b"
    using len by (rule split_at_nths)
  then have "b = [0x82, b ! 1, b ! 2, b ! 3] @
      sid_bytes (StreamID (b ! 4) (b ! 5) (b ! 6) (b ! 7) (b ! 8) (b ! 9) (b ! 10) (b ! 11)) @ rest"
    using b0 rest by (simp add: upt_rec numeral_eq_Suc)
  then show ?thesis
    using EncodeHeader_untimed [of h] dl b1 b2 h by simp
qed

section \<open>Properties\<close>

text \<open>The header codec. Every octet string that \<open>EncodeHeader\<close> produces decodes, whatever
  octets follow it, to the header as the wire keeps it and to exactly those octets; and the octets
  that decode to an untimed header are the encoding of that header, so an untimed header has one
  representation on the wire.\<close>

theorem header_roundtrip:
  "(EncodeHeader h = Ok bs \<longrightarrow>
      length bs = wireLen h \<and> DecodeHeader (bs @ rest) = Ok (wire_header h, rest)) \<and>
   (DecodeHeader b = Ok (h', rest') \<and> \<not> Timed h' \<longrightarrow> (\<exists>bs'. EncodeHeader h' = Ok bs' \<and> b = bs' @ rest'))"
  using DecodeHeader_EncodeHeader length_EncodeHeader EncodeHeader_DecodeHeader_untimed by blast

definition sample_header :: Header where
  "sample_header = \<lparr>Timed = False, StreamIDValid = True, SequenceNum = 7, DataLength = 0x123,
     HStreamID = StreamID 2 0 0 0 0 1 0 5, HTimestamp = 0, HTimestampStatus = TimestampMissing\<rparr>"

theorem header_roundtrip_witness:
  "DecodeHeader [0x82, 0x81, 0x23, 7, 2, 0, 0, 0, 0, 1, 0, 5, 0xAA] = Ok (sample_header, [0xAA])"
proof -
  have "EncodeHeader sample_header = Ok [0x82, 0x81, 0x23, 7, 2, 0, 0, 0, 0, 1, 0, 5]"
    by code_simp
  moreover have "wire_header sample_header = sample_header"
    by code_simp
  ultimately show ?thesis
    using header_roundtrip [of sample_header "[0x82, 0x81, 0x23, 7, 2, 0, 0, 0, 0, 1, 0, 5]" "[0xAA]"]
    by simp
qed

end
