(* ===== verification/Acf_Message.thy ===== *)
theory Acf_Message
  imports Avtp
begin

text \<open>
  The package \<open>acf\<close>, file \<open>message.go\<close>: RCP-over-ACF messages in the short (ACF_ABB) and long
  (ACF_GBB) encoding, with the request-descriptor header, the control flags and the response
  classification. The codec laws: \<open>DecodeMessagePrefix\<close> never panics, consumes a positive whole
  number of quadlets, inverts \<open>EncodeMessage\<close> up to what the wire keeps (\<open>wire_message\<close>), and
  a decoded message with zero padding has exactly one encoding.
\<close>

section \<open>Data\<close>

type_synonym MessageKind = u8
type_synonym ControlFlags = u8

definition KindShort :: MessageKind where "KindShort = 1"
definition KindLong :: MessageKind where "KindLong = 2"
definition wireMsgTypeShort :: u8 where "wireMsgTypeShort = 0x0E"
definition wireMsgTypeLong :: u8 where "wireMsgTypeLong = 0x0D"

definition FlagRead :: ControlFlags where "FlagRead = 0x80"
definition FlagWrite :: ControlFlags where "FlagWrite = 0x40"
definition FlagResponse :: ControlFlags where "FlagResponse = 0x20"
definition FlagError :: ControlFlags where "FlagError = 0x10"
definition FlagMoreSegments :: ControlFlags where "FlagMoreSegments = 0x08"

definition Has :: "ControlFlags \<Rightarrow> ControlFlags \<Rightarrow> bool" where
  "Has f want = (f AND want = want)"

lemmas flag_defs = FlagRead_def FlagWrite_def FlagResponse_def FlagError_def FlagMoreSegments_def
lemmas kind_defs = KindShort_def KindLong_def wireMsgTypeShort_def wireMsgTypeLong_def

definition row1Len :: nat where "row1Len = 4"
definition row2Len :: nat where "row2Len = 4"
definition descriptorLen :: nat where "descriptorLen = row1Len + row2Len"
definition timestampFieldLen :: nat where "timestampFieldLen = 8"
definition maxQuadlets :: nat where "maxQuadlets = 0x1FF"
definition maxByteBusID :: nat where "maxByteBusID = 0x7FF"
definition maxTransactionNum :: nat where "maxTransactionNum = 0xFF"
definition maxReadSizeOrSegment :: nat where "maxReadSizeOrSegment = 0x0FFF"
definition maxEVT :: nat where "maxEVT = 0x0F"

lemmas message_consts = row1Len_def row2Len_def descriptorLen_def timestampFieldLen_def
  maxQuadlets_def maxByteBusID_def maxTransactionNum_def maxReadSizeOrSegment_def maxEVT_def

record Message =
  Kind :: MessageKind
  Pad :: u8
  ByteBusID :: ByteBusID
  TransactionNum :: TransactionNum
  EVT :: u8
  HS :: bool
  CS :: bool
  MTV :: bool
  Control :: ControlFlags
  ReadSizeOrSegment :: u16
  Timestamp :: u64
  Body :: bytes

text \<open>The zero value \<open>acf.Message{}\<close>.\<close>

definition zeroMessage :: Message where
  "zeroMessage = \<lparr>Kind = 0, Pad = 0, ByteBusID = 0, TransactionNum = 0, EVT = 0, HS = False,
     CS = False, MTV = False, Control = 0, ReadSizeOrSegment = 0, Timestamp = 0, Body = []\<rparr>"

definition SegmentNumber :: "Message \<Rightarrow> u16 \<times> bool" where
  "SegmentNumber m =
     (if Has (Control m) FlagMoreSegments then (ReadSizeOrSegment m, True) else (0, False))"

definition ReadSize :: "Message \<Rightarrow> u16 \<times> bool" where
  "ReadSize m =
     (if Has (Control m) FlagRead \<and> \<not> Has (Control m) FlagMoreSegments
      then (ReadSizeOrSegment m, True) else (0, False))"

datatype ResponseKind = ResponseAcknowledge | ResponseWrite | ResponseRead | ResponseError

definition evtResponseAcknowledge :: u8 where "evtResponseAcknowledge = 0x0F"

definition Message_ResponseKind :: "Message \<Rightarrow> ResponseKind" where
  "Message_ResponseKind m =
     (if EVT m = evtResponseAcknowledge then ResponseAcknowledge
      else if Has (Control m) FlagError then ResponseError
      else if Has (Control m) FlagWrite then ResponseWrite
      else ResponseRead)"

section \<open>Encoding\<close>

definition unpaddedLen :: "Message \<Rightarrow> nat" where
  "unpaddedLen m = descriptorLen + length (Body m) +
     (if Kind m = KindLong then timestampFieldLen else 0)"

definition knownFlags :: ControlFlags where
  "knownFlags = FlagRead OR FlagWrite OR FlagResponse OR FlagError OR FlagMoreSegments"

text \<open>The two words of the descriptor, octet by octet.\<close>

definition encodeRow1 :: "Message \<Rightarrow> nat \<Rightarrow> nat \<Rightarrow> bytes" where
  "encodeRow1 m pad quadlets =
     [push_bit 1 (if Kind m = KindLong then wireMsgTypeLong else wireMsgTypeShort)
        OR word_of_nat (drop_bit 8 quadlets AND 0x01),
      word_of_nat (quadlets AND 0xFF),
      push_bit 6 (word_of_nat pad AND 0x03) OR (if MTV m then 0x20 else 0)
        OR ucast (drop_bit 8 (ByteBusID m) AND 0x07),
      ucast (ByteBusID m)]"

definition encodeRow2 :: "Message \<Rightarrow> bytes" where
  "encodeRow2 m =
     [push_bit 4 (EVT m) OR (if HS m then 0x02 else 0) OR (if CS m then 0x01 else 0),
      ucast (TransactionNum m),
      (if Has (Control m) FlagWrite then 0x80 else 0) OR
        (if Has (Control m) FlagResponse then 0x40 else 0) OR
        (if Has (Control m) FlagError then 0x20 else 0) OR
        (if Has (Control m) FlagMoreSegments then 0x10 else 0) OR
        ucast (drop_bit 8 (ReadSizeOrSegment m) AND 0x0F),
      ucast (ReadSizeOrSegment m AND 0xFF)]"

definition EncodeMessage :: "Message \<Rightarrow> bytes go" where
  "EncodeMessage m =
     (if Kind m \<noteq> KindShort \<and> Kind m \<noteq> KindLong then Err (EAcf ErrUnknownMessageKind)
      else if Control m AND NOT knownFlags \<noteq> 0 then Err (EAvtp ErrReservedBitsSet)
      else if unat (EVT m) > maxEVT then Err (EAcf ErrEVTOverflow)
      else if unat (TransactionNum m) > maxTransactionNum then Err (EAcf ErrTransactionNumOverflow)
      else if unat (ByteBusID m) > maxByteBusID then Err (EAcf ErrByteBusIDOverflow)
      else if unat (ReadSizeOrSegment m) > maxReadSizeOrSegment then Err (EAcf ErrReadSizeOverflow)
      else
        (let unpadded = unpaddedLen m;
             pad = (4 - unpadded mod 4) mod 4;
             total = unpadded + pad;
             quadlets = total div 4 in
         if quadlets > maxQuadlets then Err (EAcf ErrLengthOverflow)
         else Ok (encodeRow1 m pad quadlets
                  @ (if Kind m = KindLong then put64 (Timestamp m) else [])
                  @ encodeRow2 m
                  @ Body m
                  @ replicate pad 0)))"

section \<open>Decoding\<close>

definition decodeControl :: "u8 \<Rightarrow> ControlFlags" where
  "decodeControl r2 =
     (if r2 AND 0x80 \<noteq> 0 then FlagWrite else FlagRead) OR
     (if r2 AND 0x40 \<noteq> 0 then FlagResponse else 0) OR
     (if r2 AND 0x20 \<noteq> 0 then FlagError else 0) OR
     (if r2 AND 0x10 \<noteq> 0 then FlagMoreSegments else 0)"

text \<open>
  \<open>decodeRow2\<close> is the part of \<open>DecodeMessagePrefix\<close> from the second word on: \<open>off\<close> is its
  offset, the other arguments are the fields read before. The Go code computes the signed
  \<open>bodyEnd = total - pad\<close> and rejects \<open>bodyEnd < off\<close> (\<open>bodyEnd > total\<close> cannot hold, \<open>pad\<close>
  being unsigned); on natural numbers that is \<open>total < off + pad\<close>.
\<close>

definition decodeRow2 ::
  "bytes \<Rightarrow> nat \<Rightarrow> MessageKind \<Rightarrow> nat \<Rightarrow> u8 \<Rightarrow> bool \<Rightarrow> u16 \<Rightarrow> u64 \<Rightarrow> (Message \<times> nat) go" where
  "decodeRow2 b off kind quadlets pad mtv busID timestamp =
     andThen (idx b off) (\<lambda>r0.
     if r0 AND 0x0C \<noteq> 0 then Err (EAvtp ErrReservedBitsSet)
     else
       andThen (idx b (off + 1)) (\<lambda>txn.
       andThen (idx b (off + 2)) (\<lambda>r2.
       andThen (idx b (off + 3)) (\<lambda>r3.
         (let m = \<lparr>Kind = kind, Pad = pad, ByteBusID = busID, TransactionNum = ucast txn,
                   EVT = drop_bit 4 r0, HS = (r0 AND 0x02 \<noteq> 0), CS = (r0 AND 0x01 \<noteq> 0), MTV = mtv,
                   Control = decodeControl r2,
                   ReadSizeOrSegment = push_bit 8 (ucast (r2 AND 0x0F)) OR ucast r3,
                   Timestamp = timestamp, Body = []\<rparr>;
              off = off + row2Len;
              total = quadlets * 4 in
          if length b < total then Err (EAcf ErrShortMessage)
          else if total < off + unat pad then Err (EAcf ErrShortMessage)
          else andThen (slice b off (total - unat pad)) (\<lambda>body. Ok (m\<lparr>Body := body\<rparr>, total)))))))"

definition DecodeMessagePrefix :: "bytes \<Rightarrow> (Message \<times> nat) go" where
  "DecodeMessagePrefix b =
     (if length b < row1Len then Err (EAcf ErrShortMessage)
      else andThen (idx b 0) (\<lambda>b0.
        if drop_bit 1 b0 \<noteq> wireMsgTypeShort \<and> drop_bit 1 b0 \<noteq> wireMsgTypeLong
        then Err (EAcf ErrUnknownMessageKind)
        else
          (let kind = (if drop_bit 1 b0 = wireMsgTypeShort then KindShort else KindLong) in
           andThen (idx b 1) (\<lambda>b1.
           andThen (idx b 2) (\<lambda>b2.
           if b2 AND 0x18 \<noteq> 0 then Err (EAvtp ErrReservedBitsSet)
           else
             (let quadlets = unat (push_bit 8 (ucast (b0 AND 0x01)) OR ucast b1 :: u16);
                  pad = drop_bit 6 b2 AND 0x03;
                  mtv = (b2 AND 0x20 \<noteq> 0);
                  headerLen = descriptorLen + (if kind = KindLong then timestampFieldLen else 0) in
              if length b < headerLen then Err (EAcf ErrShortMessage)
              else andThen (idx b 3) (\<lambda>b3.
                (let busID = push_bit 8 (ucast (b2 AND 0x07)) OR ucast b3 in
                 if kind = KindLong
                 then andThen (get64 b row1Len) (\<lambda>ts.
                        decodeRow2 b (row1Len + timestampFieldLen) kind quadlets pad mtv busID ts)
                 else decodeRow2 b row1Len kind quadlets pad mtv busID 0))))))))"

definition DecodeMessage :: "bytes \<Rightarrow> Message go" where
  "DecodeMessage b =
     andThen (DecodeMessagePrefix b) (\<lambda>(m, n).
       if n \<noteq> length b then Err (EAcf ErrTrailingBytes_acf) else Ok m)"

lemmas message_codec_defs [go_defs] = EncodeMessage_def encodeRow1_def encodeRow2_def
  DecodeMessagePrefix_def decodeRow2_def DecodeMessage_def

section \<open>Bit fields of the descriptor\<close>


lemma decodeRow2_no_panic:
  "off + 4 \<le> length b \<Longrightarrow> decodeRow2 b off kind quadlets pad mtv busID ts \<noteq> Panic"
  by (auto simp: decodeRow2_def Let_def message_consts wire_simps)

lemma DecodeMessagePrefix_never_panics: "DecodeMessagePrefix b \<noteq> Panic"
  by (auto simp: DecodeMessagePrefix_def Let_def message_consts decodeRow2_no_panic wire_simps)

lemma decodeRow2_Ok:
  assumes "decodeRow2 b off kind quadlets pad mtv busID ts = Ok (m, n)" and "off + 4 \<le> length b"
  shows "n = quadlets * 4" "n \<le> length b" "off + 4 + unat pad \<le> n"
    "Kind m = kind" "Pad m = pad" "MTV m = mtv" "ByteBusID m = busID" "Timestamp m = ts"
    "TransactionNum m = ucast (b ! (off + 1))" "EVT m = drop_bit 4 (b ! off)"
    "HS m = (b ! off AND 0x02 \<noteq> 0)" "CS m = (b ! off AND 0x01 \<noteq> 0)"
    "Control m = decodeControl (b ! (off + 2))"
    "ReadSizeOrSegment m = push_bit 8 (ucast (b ! (off + 2) AND 0x0F)) OR ucast (b ! (off + 3))"
    "Body m = take (n - unat pad - (off + 4)) (drop (off + 4) b)"
    "b ! off AND 0x0C = 0"
  using assms
  by (auto simp: decodeRow2_def Let_def message_consts andThen_eq_Ok_iff wire_simps
      split: if_splits)

lemma quadlets_field:
  assumes "q \<le> 511"
  shows "unat (push_bit 8 (ucast ((push_bit 1 t OR word_of_nat (drop_bit 8 q AND 0x01) :: u8) AND 0x01))
      OR ucast (word_of_nat (q AND 0xFF) :: u8) :: u16) = q"
proof -
  have "\<not> bit q k" if "9 \<le> k" for k
  proof -
    have "q < 2 ^ 9" using assms by simp
    then have "take_bit 9 q = q" by (simp add: take_bit_nat_eq_self)
    then show ?thesis using that by (metis bit_take_bit_iff linorder_not_less)
  qed
  moreover have "odd (drop_bit 8 q) = bit q 8" by (simp add: bit_iff_odd_drop_bit)
  ultimately have "push_bit 8 (ucast ((push_bit 1 t OR word_of_nat (drop_bit 8 q AND 0x01) :: u8) AND 0x01))
      OR ucast (word_of_nat (q AND 0xFF) :: u8) = (word_of_nat q :: u16)"
    using \<open>odd (drop_bit 8 q) = bit q 8\<close> by (simp add: u16_bits bit_0)
  then show ?thesis using assms by (simp add: unat_of_nat)
qed

lemma control_roundtrip:
  assumes "c AND NOT knownFlags = 0" and "unat n \<le> 0x0FFF"
  defines "r2 \<equiv> (if Has c FlagWrite then 0x80 else 0) OR (if Has c FlagResponse then 0x40 else 0) OR
     (if Has c FlagError then 0x20 else 0) OR (if Has c FlagMoreSegments then 0x10 else 0) OR
     ucast (drop_bit 8 (n :: u16) AND 0x0F)"
  shows "decodeControl r2 = (if Has c FlagWrite then c AND NOT FlagRead else c OR FlagRead)"
    and "push_bit 8 (ucast (r2 AND 0x0F)) OR ucast (ucast (n AND 0xFF) :: u8) = n"
proof -
  have n: "\<not> bit n k" if "12 \<le> k" for k
    using assms(2) that by (intro unat_less_bit [where k = 12]) simp_all
  have w: "Has c FlagWrite = bit c 6" "Has c FlagResponse = bit c 5" "Has c FlagError = bit c 4"
    "Has c FlagMoreSegments = bit c 3"
    by (simp_all add: Has_def flag_defs u8_bits)
  have c: "\<not> bit c 0" "\<not> bit c 1" "\<not> bit c 2"
    using assms(1) by (simp_all add: knownFlags_def flag_defs u8_bits)
  have r: "bit r2 7 = bit c 6" "bit r2 6 = bit c 5" "bit r2 5 = bit c 4" "bit r2 4 = bit c 3"
    "bit r2 3 = bit n 11" "bit r2 2 = bit n 10" "bit r2 1 = bit n 9" "bit r2 0 = bit n 8"
    unfolding r2_def w by (simp_all add: bit_if0 bit_simps)
  show "decodeControl r2 = (if Has c FlagWrite then c AND NOT FlagRead else c OR FlagRead)"
    using c w r by (simp add: decodeControl_def flag_defs u8_bits bit_if0)
  show "push_bit 8 (ucast (r2 AND 0x0F)) OR ucast (ucast (n AND 0xFF) :: u8) = n"
    using r n by (simp add: u16_bits)
qed

lemma bytebus_field:
  fixes mtv :: bool
  assumes "unat n \<le> 0x7FF" and "pad < (4 :: nat)"
  defines "b2 \<equiv> push_bit 6 (word_of_nat pad AND 0x03) OR (if mtv then 0x20 else 0)
        OR ucast (drop_bit 8 (n :: u16) AND 0x07) :: u8"
  shows "push_bit 8 (ucast (b2 AND 0x07)) OR ucast (ucast n :: u8) = n"
    and "drop_bit 6 b2 AND 0x03 = word_of_nat pad" and "(b2 AND 0x20 \<noteq> 0) = mtv" and "b2 AND 0x18 = 0"
proof -
  have n: "\<not> bit n k" if "11 \<le> k" for k
    using assms(1) that by (intro unat_less_bit [where k = 11]) simp_all
  have p: "\<not> bit (word_of_nat pad :: u8) k" if "2 \<le> k" for k
    using assms(2) that by (intro unat_less_bit [where k = 2]) (auto simp: unat_of_nat)
  show "push_bit 8 (ucast (b2 AND 0x07)) OR ucast (ucast n :: u8) = n"
    unfolding b2_def using n by (simp add: u16_bits bit_if0)
  show "drop_bit 6 b2 AND 0x03 = word_of_nat pad" "(b2 AND 0x20 \<noteq> 0) = mtv" "b2 AND 0x18 = 0"
    unfolding b2_def using p by (simp_all add: u8_bits bit_if0 del: bit_of_nat_iff_bit)
qed

lemma evt_field:
  fixes hs cs :: bool
  assumes "unat e \<le> 0x0F"
  defines "r0 \<equiv> push_bit 4 (e :: u8) OR (if hs then 0x02 else 0) OR (if cs then 0x01 else 0)"
  shows "drop_bit 4 r0 = e" "(r0 AND 0x02 \<noteq> 0) = hs" "(r0 AND 0x01 \<noteq> 0) = cs" "r0 AND 0x0C = 0"
proof -
  have e: "\<not> bit e k" if "4 \<le> k" for k
    using assms(1) that by (intro unat_less_bit [where k = 4]) simp_all
  show "drop_bit 4 r0 = e" "(r0 AND 0x02 \<noteq> 0) = hs" "(r0 AND 0x01 \<noteq> 0) = cs" "r0 AND 0x0C = 0"
    unfolding r0_def using e by (simp_all add: u8_bits bit_if0)
qed

definition wire_message :: "Message \<Rightarrow> Message" where
  "wire_message m = m\<lparr>
     Pad := word_of_nat ((4 - unpaddedLen m mod 4) mod 4),
     Control := (if Has (Control m) FlagWrite then Control m AND NOT FlagRead else Control m OR FlagRead),
     Timestamp := (if Kind m = KindLong then Timestamp m else 0)\<rparr>"

definition encodable :: "Message \<Rightarrow> bool" where
  "encodable m \<longleftrightarrow>
     (Kind m = KindShort \<or> Kind m = KindLong) \<and> Control m AND NOT knownFlags = 0 \<and>
     unat (EVT m) \<le> maxEVT \<and> unat (TransactionNum m) \<le> maxTransactionNum \<and>
     unat (ByteBusID m) \<le> maxByteBusID \<and> unat (ReadSizeOrSegment m) \<le> maxReadSizeOrSegment \<and>
     unpaddedLen m \<le> 4 * maxQuadlets"

lemma EncodeMessage_encodable:
  "encodable m \<Longrightarrow> EncodeMessage m = Ok (let pad = (4 - unpaddedLen m mod 4) mod 4 in
     encodeRow1 m pad ((unpaddedLen m + pad) div 4)
     @ (if Kind m = KindLong then put64 (Timestamp m) else []) @ encodeRow2 m @ Body m @ replicate pad 0)"
  by (auto simp: EncodeMessage_def encodable_def Let_def not_less [symmetric] padded_div maxQuadlets_def)

lemma EncodeMessage_Ok_iff: "(\<exists>bs. EncodeMessage m = Ok bs) \<longleftrightarrow> encodable m"
  using EncodeMessage_encodable [of m]
  by (auto simp: EncodeMessage_def encodable_def Let_def padded_div not_less split: if_splits)

lemma EncodeMessage_no_panic: "EncodeMessage m \<noteq> Panic"
  by (simp add: EncodeMessage_def Let_def)

lemma decodeRow2_encodeRow2:
  assumes m: "encodable m" and pre: "length pre = off"
    and q: "q * 4 = off + 4 + length (Body m) + pad" and pad: "pad < 4"
  shows "decodeRow2 (pre @ encodeRow2 m @ Body m @ replicate pad 0 @ rest) off kind q (word_of_nat pad) mtv bus ts
    = Ok (\<lparr>Kind = kind, Pad = word_of_nat pad, ByteBusID = bus, TransactionNum = TransactionNum m,
           EVT = EVT m, HS = HS m, CS = CS m, MTV = mtv, Control = Control (wire_message m),
           ReadSizeOrSegment = ReadSizeOrSegment m, Timestamp = ts, Body = Body m\<rparr>, q * 4)"
proof -
  have nth: "(pre @ [a, b, c, d] @ xs) ! off = a" "(pre @ [a, b, c, d] @ xs) ! (off + 1) = b"
    "(pre @ [a, b, c, d] @ xs) ! (off + 2) = c" "(pre @ [a, b, c, d] @ xs) ! (off + 3) = d" for a b c d :: u8 and xs
    using pre by (simp_all add: nth_append)
  have up: "unat (word_of_nat pad :: u8) = pad"
    using pad by (simp add: unat_of_nat)
  show ?thesis
    using m pre q pad up
    unfolding decodeRow2_def encodeRow2_def nth
    by (simp add: wire_simps nth [simplified] encodable_def message_consts evt_field control_roundtrip ucast_byte_u16 wire_message_def
        split del: if_split del: drop_bit_or)
qed

section \<open>Decoding inverts encoding\<close>


lemma length_rows [simp]: "length (encodeRow1 m pad q) = 4" "length (encodeRow2 m) = 4"
  by (simp_all add: encodeRow1_def encodeRow2_def)

lemma EncodeMessage_OkE:
  assumes "EncodeMessage m = Ok bs"
  obtains pad q where "encodable m" "pad = (4 - unpaddedLen m mod 4) mod 4" "pad < 4"
    "q * 4 = unpaddedLen m + pad" "q \<le> 511"
    "bs = encodeRow1 m pad q @ (if Kind m = KindLong then put64 (Timestamp m) else []) @
      encodeRow2 m @ Body m @ replicate pad 0" "length bs = q * 4"
proof -
  have enc: "encodable m" using assms EncodeMessage_Ok_iff by blast
  define pad where "pad = (4 - unpaddedLen m mod 4) mod 4"
  define q where "q = (unpaddedLen m + pad) div 4"
  have q4: "q * 4 = unpaddedLen m + pad" unfolding q_def pad_def by (rule padded_mod)
  have q: "q \<le> 511" using enc padded_div [of "unpaddedLen m" 511]
    by (simp add: q_def pad_def encodable_def maxQuadlets_def)
  have bs: "bs = encodeRow1 m pad q @ (if Kind m = KindLong then put64 (Timestamp m) else []) @
      encodeRow2 m @ Body m @ replicate pad 0"
    using EncodeMessage_encodable [OF enc] assms by (simp add: Let_def pad_def q_def)
  have len: "length bs = q * 4"
    unfolding q4 by (simp add: bs unpaddedLen_def message_consts)
  show ?thesis
    by (rule that [OF enc pad_def _ q4 q bs len]) (simp add: pad_def)
qed

lemma DecodeMessagePrefix_short:
  assumes "drop_bit 1 h0 = 0x0E" "h2 AND 0x18 = 0" "4 \<le> length t"
  shows "DecodeMessagePrefix (h0 # h1 # h2 # h3 # t) =
    decodeRow2 (h0 # h1 # h2 # h3 # t) 4 KindShort
      (unat (push_bit 8 (ucast (h0 AND 0x01)) OR ucast h1 :: u16))
      (drop_bit 6 h2 AND 0x03) (h2 AND 0x20 \<noteq> 0) (push_bit 8 (ucast (h2 AND 0x07)) OR ucast h3) 0"
  using assms by (simp add: DecodeMessagePrefix_def Let_def message_consts kind_defs)

lemma DecodeMessagePrefix_long:
  assumes "drop_bit 1 h0 = 0x0D" "h2 AND 0x18 = 0" "4 \<le> length t"
  shows "DecodeMessagePrefix (h0 # h1 # h2 # h3 # put64 ts @ t) =
    decodeRow2 (h0 # h1 # h2 # h3 # put64 ts @ t) 12 KindLong
      (unat (push_bit 8 (ucast (h0 AND 0x01)) OR ucast h1 :: u16))
      (drop_bit 6 h2 AND 0x03) (h2 AND 0x20 \<noteq> 0) (push_bit 8 (ucast (h2 AND 0x07)) OR ucast h3) ts"
proof -
  have "get64 (h0 # h1 # h2 # h3 # put64 ts @ t) 4 = (Ok ts :: u64 go)"
    using get64_append [of "[h0, h1, h2, h3]" ts t] by (simp add: numeral_eq_Suc del: get_no_panic get64_append)
  then show ?thesis
    using assms by (simp add: DecodeMessagePrefix_def Let_def message_consts kind_defs del: get_no_panic)
qed

lemma DecodeMessagePrefix_EncodeMessage:
  assumes "EncodeMessage m = Ok bs"
  shows "DecodeMessagePrefix (bs @ rest) = Ok (wire_message m, length bs)"
proof -
  from assms obtain pad q where enc: "encodable m" and pad_def: "pad = (4 - unpaddedLen m mod 4) mod 4"
    and pad: "pad < 4" and q4: "q * 4 = unpaddedLen m + pad" and q: "q \<le> 511"
    and bs: "bs = encodeRow1 m pad q @ (if Kind m = KindLong then put64 (Timestamp m) else []) @
      encodeRow2 m @ Body m @ replicate pad 0" and len: "length bs = q * 4"
    by (rule EncodeMessage_OkE)
  have bb: "unat (ByteBusID m) \<le> 0x7FF" using enc by (simp add: encodable_def message_consts)
  note r2 = decodeRow2_encodeRow2 [OF enc _ _ pad, of _ _ q]
  define h0 :: u8 where "h0 = push_bit 1 (if Kind m = KindLong then wireMsgTypeLong else wireMsgTypeShort)
        OR word_of_nat (drop_bit 8 q AND 0x01)"
  define h1 :: u8 where "h1 = word_of_nat (q AND 0xFF)"
  define h2 :: u8 where "h2 = push_bit 6 (word_of_nat pad AND 0x03) OR (if MTV m then 0x20 else 0)
        OR ucast (drop_bit 8 (ByteBusID m) AND 0x07)"
  define h3 :: u8 where "h3 = ucast (ByteBusID m)"
  have r1: "encodeRow1 m pad q = [h0, h1, h2, h3]"
    unfolding encodeRow1_def h0_def h1_def h2_def h3_def by (rule refl)
  have h0: "drop_bit 1 h0 = (if Kind m = KindLong then 0x0D else 0x0E)"
    unfolding h0_def by (simp add: kind_defs u8_bits)
  note hq = quadlets_field [OF q, of "if Kind m = KindLong then wireMsgTypeLong else wireMsgTypeShort",
      folded h0_def h1_def]
  note h2 = bytebus_field [OF bb pad, of "MTV m", folded h2_def h3_def]
  show ?thesis
  proof (cases "Kind m = KindLong")
    case True
    have "DecodeMessagePrefix (bs @ rest) = decodeRow2 (([h0, h1, h2, h3] @ put64 (Timestamp m)) @
        encodeRow2 m @ Body m @ replicate pad 0 @ rest) 12 KindLong q (word_of_nat pad) (MTV m) (ByteBusID m) (Timestamp m)"
      using True h0 h2 hq by (simp add: bs r1 DecodeMessagePrefix_long)
    also have "\<dots> = Ok (wire_message m, q * 4)"
      using True q4 by (subst r2) (simp_all add: unpaddedLen_def message_consts wire_message_def pad_def)
    finally show ?thesis by (simp add: len)
  next
    case False
    then have short: "Kind m = KindShort" using enc by (simp add: encodable_def)
    have "DecodeMessagePrefix (bs @ rest) = decodeRow2 ([h0, h1, h2, h3] @
        encodeRow2 m @ Body m @ replicate pad 0 @ rest) 4 KindShort q (word_of_nat pad) (MTV m) (ByteBusID m) 0"
      using False h0 h2 hq by (simp add: bs r1 DecodeMessagePrefix_short)
    also have "\<dots> = Ok (wire_message m, q * 4)"
      using False short q4 by (subst r2) (simp_all add: unpaddedLen_def message_consts wire_message_def pad_def)
    finally show ?thesis by (simp add: len)
  qed
qed


lemma DecodeMessagePrefix_OkE:
  assumes "DecodeMessagePrefix b = Ok (m, n)"
  obtains
    (short) h0 h1 h2 h3 t where "b = [h0, h1, h2, h3] @ t" "drop_bit 1 h0 = 0x0E" "h2 AND 0x18 = 0"
      "decodeRow2 b 4 KindShort (unat (push_bit 8 (ucast (h0 AND 0x01)) OR ucast h1 :: u16))
        (drop_bit 6 h2 AND 0x03) (h2 AND 0x20 \<noteq> 0) (push_bit 8 (ucast (h2 AND 0x07)) OR ucast h3) 0
       = Ok (m, n)" "4 \<le> length t"
  | (long) h0 h1 h2 h3 ts t where "b = ([h0, h1, h2, h3] @ put64 ts) @ t" "drop_bit 1 h0 = 0x0D" "h2 AND 0x18 = 0"
      "decodeRow2 b 12 KindLong (unat (push_bit 8 (ucast (h0 AND 0x01)) OR ucast h1 :: u16))
        (drop_bit 6 h2 AND 0x03) (h2 AND 0x20 \<noteq> 0) (push_bit 8 (ucast (h2 AND 0x07)) OR ucast h3) ts
       = Ok (m, n)" "4 \<le> length t"
proof -
  have "4 \<le> length b"
    using assms by (auto simp: DecodeMessagePrefix_def message_consts split: if_splits)
  then obtain h0 h1 h2 h3 t where b: "b = h0 # h1 # h2 # h3 # t"
    by (auto simp: numeral_eq_Suc Suc_le_length_iff)
  note dec = assms [unfolded b DecodeMessagePrefix_def message_consts kind_defs, simplified]
  have ty: "drop_bit 1 h0 = 0x0D \<or> drop_bit 1 h0 = 0x0E"
    by (rule ccontr) (use dec in simp)
  have h2: "h2 AND 0x18 = 0"
    by (rule ccontr) (use dec ty in auto)
  have tl: "(if drop_bit 1 h0 = 0x0D then 12 else 4) \<le> length t"
    by (rule ccontr) (use dec ty h2 in \<open>auto simp: Let_def split: if_splits\<close>)
  show ?thesis
  proof (cases "drop_bit 1 h0 = 0x0D")
    case True
    let ?ts = "be64 (t ! 0) (t ! 1) (t ! 2) (t ! 3) (t ! 4) (t ! 5) (t ! 6) (t ! 7)"
    have "t = map ((!) t) [0..<8] @ drop 8 t"
      using tl True by (intro split_at_nths) simp
    then have t: "t = put64 ?ts @ drop 8 t"
      by (simp add: upt_rec numeral_eq_Suc)
    then have b': "b = h0 # h1 # h2 # h3 # put64 ?ts @ drop 8 t"
      using b by simp
    moreover have "4 \<le> length (drop 8 t)" using tl True by simp
    moreover note True h2
    ultimately have "DecodeMessagePrefix b = decodeRow2 b 12 KindLong
      (unat (push_bit 8 (ucast (h0 AND 0x01)) OR ucast h1 :: u16))
      (drop_bit 6 h2 AND 0x03) (h2 AND 0x20 \<noteq> 0) (push_bit 8 (ucast (h2 AND 0x07)) OR ucast h3) ?ts"
      using DecodeMessagePrefix_long by blast
    then show ?thesis
      using long [of h0 h1 h2 h3 ?ts "drop 8 t", OF _ True h2] b' assms tl True by simp
  next
    case False
    then show ?thesis
      using short [of h0 h1 h2 h3 t] b ty h2 tl assms by (simp add: DecodeMessagePrefix_short)
  qed
qed

section \<open>What decoding yields, and re-encoding it\<close>

lemma decoded_fields:
  fixes r0 r2 r3 t h2 h3 :: u8
  shows "unat (drop_bit 4 r0) \<le> 0x0F"
    and "unat (ucast t :: u16) \<le> 0xFF"
    and "unat (push_bit 8 (ucast (h2 AND 0x07)) OR ucast h3 :: u16) \<le> 0x7FF"
    and "unat (push_bit 8 (ucast (r2 AND 0x0F)) OR ucast r3 :: u16) \<le> 0x0FFF"
    and "decodeControl r2 AND NOT knownFlags = 0"
    and "unat (drop_bit 6 h2 AND 0x03) \<le> 3"
proof -
  show "unat (drop_bit 4 r0) \<le> 0x0F"
    using unat_le_mask [of "drop_bit 4 r0" "0x0F"] by (simp add: u8_bits)
  show "unat (ucast t :: u16) \<le> 0xFF"
    using unat_le_mask [of "ucast t :: u16" "0xFF"] by (simp add: u16_bits)
  show "unat (push_bit 8 (ucast (h2 AND 0x07)) OR ucast h3 :: u16) \<le> 0x7FF"
    using unat_le_mask [of "push_bit 8 (ucast (h2 AND 0x07)) OR ucast h3 :: u16" "0x7FF"]
    by (simp add: u16_bits)
  show "unat (push_bit 8 (ucast (r2 AND 0x0F)) OR ucast r3 :: u16) \<le> 0x0FFF"
    using unat_le_mask [of "push_bit 8 (ucast (r2 AND 0x0F)) OR ucast r3 :: u16" "0x0FFF"]
    by (simp add: u16_bits)
  show "decodeControl r2 AND NOT knownFlags = 0"
    by (simp add: decodeControl_def knownFlags_def flag_defs u8_bits)
  show "unat (drop_bit 6 h2 AND 0x03) \<le> 3"
    using unat_and_less [of "drop_bit 6 h2" "0x03"] by simp
qed

lemma quadlets_bound: "unat (push_bit 8 (ucast (h0 AND 0x01 :: u8)) OR ucast (h1 :: u8) :: u16) \<le> 511"
  using unat_le_mask [of "push_bit 8 (ucast (h0 AND 0x01 :: u8)) OR ucast h1 :: u16" "0x1FF"]
  by (simp add: u16_bits)

lemma decodeRow2_bounds:
  assumes dec: "decodeRow2 b off kind q pad mtv bus ts = Ok (m, n)"
    and kind: "kind = KindShort \<and> off = 4 \<or> kind = KindLong \<and> off = 12"
    and off: "off + 4 \<le> length b" and bounds: "q \<le> 511" "unat pad \<le> 3" "unat bus \<le> 0x7FF"
  shows "8 \<le> n" "n \<le> length b" "n = unpaddedLen m + unat (Pad m)" "n mod 4 = 0" "unat (Pad m) < 4"
    "encodable m"
proof -
  note d = decodeRow2_Ok [OF dec off]
  show "8 \<le> n" "n \<le> length b" "n mod 4 = 0" "unat (Pad m) < 4"
    using d kind bounds by auto
  have "length (Body m) = n - unat pad - (off + 4)"
    unfolding d(15) using d by simp
  then show n: "n = unpaddedLen m + unat (Pad m)"
    using d(3-5) kind by (auto simp: unpaddedLen_def message_consts kind_defs)
  then have "unpaddedLen m \<le> 4 * maxQuadlets"
    using d(1) bounds by (simp add: message_consts)
  then show "encodable m"
    using kind bounds d(4-14) decoded_fields by (auto simp: encodable_def message_consts)
qed

lemma DecodeMessagePrefix_bounds:
  assumes "DecodeMessagePrefix b = Ok (m, n)"
  shows "8 \<le> n" "n \<le> length b" "n = unpaddedLen m + unat (Pad m)" "n mod 4 = 0" "unat (Pad m) < 4"
    "encodable m"
proof -
  from assms have "8 \<le> n \<and> n \<le> length b \<and> n = unpaddedLen m + unat (Pad m) \<and> n mod 4 = 0 \<and>
      unat (Pad m) < 4 \<and> encodable m"
  proof (cases rule: DecodeMessagePrefix_OkE)
    case (short h0 h1 h2 h3 t)
    with decodeRow2_bounds [OF short(4)] show ?thesis
      by (simp add: decoded_fields quadlets_bound)
  next
    case (long h0 h1 h2 h3 ts t)
    with decodeRow2_bounds [OF long(4)] show ?thesis
      by (simp add: decoded_fields quadlets_bound)
  qed
  then show "8 \<le> n" "n \<le> length b" "n = unpaddedLen m + unat (Pad m)" "n mod 4 = 0" "unat (Pad m) < 4"
    "encodable m"
    by blast+
qed

lemma row1_inverse:
  fixes h0 h1 h2 h3 :: u8
  assumes "drop_bit 1 h0 = ty" "h2 AND 0x18 = (0::u8)"
  defines "q \<equiv> unat (push_bit 8 (ucast (h0 AND 0x01)) OR ucast h1 :: u16)"
  shows "push_bit 1 ty OR word_of_nat (drop_bit 8 q AND 0x01) = (h0 :: u8)"
    "word_of_nat (q AND 0xFF) = (h1 :: u8)"
    "push_bit 6 (word_of_nat (unat (drop_bit 6 h2 AND 0x03)) AND 0x03) OR (if h2 AND 0x20 \<noteq> 0 then 0x20 else 0)
      OR ucast (drop_bit 8 (push_bit 8 (ucast (h2 AND 0x07)) OR ucast h3 :: u16) AND 0x07) = h2"
    "ucast (push_bit 8 (ucast (h2 AND 0x07)) OR ucast h3 :: u16) = (h3 :: u8)"
proof -
  have b: "bit q k = bit (push_bit 8 (ucast (h0 AND 0x01)) OR ucast h1 :: u16) k" for k
    unfolding q_def by (simp add: bit_unsigned_iff)
  have "bit q 8 = bit h0 0"
    unfolding b by (simp add: bit_simps del: bit_0)
  then have e: "even (drop_bit 8 q) = even h0"
    by (simp add: bit_iff_odd_drop_bit [of q] bit_0)
  show "push_bit 1 ty OR word_of_nat (drop_bit 8 q AND 0x01) = h0"
    unfolding assms(1)[symmetric] using e
    by (simp add: u8_bits b bit_0 del: push_bit_Suc) (simp add: numeral_2_eq_2)
  show "word_of_nat (q AND 0xFF) = h1" by (simp add: u8_bits b)
  show "push_bit 6 (word_of_nat (unat (drop_bit 6 h2 AND 0x03)) AND 0x03) OR (if h2 AND 0x20 \<noteq> 0 then 0x20 else 0)
      OR ucast (drop_bit 8 (push_bit 8 (ucast (h2 AND 0x07)) OR ucast h3 :: u16) AND 0x07) = h2"
    using assms(2) by (simp add: u8_bits bit_if0)
  show "ucast (push_bit 8 (ucast (h2 AND 0x07)) OR ucast h3 :: u16) = h3"
    by (simp add: u8_bits)
qed

lemma row2_inverse:
  fixes r0 r1 r2 r3 :: u8
  assumes "r0 AND 0x0C = 0"
  defines "n \<equiv> push_bit 8 (ucast (r2 AND 0x0F)) OR ucast r3 :: u16"
  shows "push_bit 4 (drop_bit 4 r0) OR (if r0 AND 0x02 \<noteq> 0 then 0x02 else 0) OR (if r0 AND 0x01 \<noteq> 0 then 0x01 else 0) = r0"
    "ucast (ucast r1 :: u16) = r1"
    "(if Has (decodeControl r2) FlagWrite then 0x80 else 0) OR (if Has (decodeControl r2) FlagResponse then 0x40 else 0) OR
     (if Has (decodeControl r2) FlagError then 0x20 else 0) OR (if Has (decodeControl r2) FlagMoreSegments then 0x10 else 0) OR
     ucast (drop_bit 8 n AND 0x0F) = r2"
    "ucast (n AND 0xFF) = r3"
proof -
  show "push_bit 4 (drop_bit 4 r0) OR (if r0 AND 0x02 \<noteq> 0 then 0x02 else 0) OR (if r0 AND 0x01 \<noteq> 0 then 0x01 else 0) = r0"
    using assms(1) by (simp add: u8_bits bit_if0)
  show "ucast (ucast r1 :: u16) = r1" by (simp add: u8_bits)
  have w: "Has (decodeControl r2) FlagWrite = bit r2 7" "Has (decodeControl r2) FlagResponse = bit r2 6"
    "Has (decodeControl r2) FlagError = bit r2 5" "Has (decodeControl r2) FlagMoreSegments = bit r2 4"
    by (simp_all add: Has_def decodeControl_def flag_defs u8_bits bit_if0)
  show "(if Has (decodeControl r2) FlagWrite then 0x80 else 0) OR (if Has (decodeControl r2) FlagResponse then 0x40 else 0) OR
     (if Has (decodeControl r2) FlagError then 0x20 else 0) OR (if Has (decodeControl r2) FlagMoreSegments then 0x10 else 0) OR
     ucast (drop_bit 8 n AND 0x0F) = r2"
    unfolding w n_def by (simp add: u8_bits bit_if0)
  show "ucast (n AND 0xFF) = r3"
    unfolding n_def by (simp add: u8_bits)
qed

lemma DecodeMessage_OkE:
  assumes "DecodeMessage b = Ok m"
  obtains "DecodeMessagePrefix b = Ok (m, length b)"
  using assms by (auto simp: DecodeMessage_def andThen_eq_Ok_iff split: prod.splits if_splits)

lemma pad_unique:
  assumes "(u + p) mod 4 = 0" "p < (4::nat)"
  shows "(4 - u mod 4) mod 4 = p"
  using assms by (cases u rule: pad4_cases) (simp only:, presburger)+

lemma encodeRow2_decodeRow2:
  assumes "decodeRow2 b off kind q pad mtv bus ts = Ok (m, n)" "off + 4 \<le> length b"
  shows "encodeRow2 m = take 4 (drop off b)"
proof -
  note d = decodeRow2_Ok [OF assms]
  have "take 4 (drop off b) = [b ! off, b ! (off + 1), b ! (off + 2), b ! (off + 3)]"
    using assms(2) by (subst take_eq_map_nth) (simp_all add: upt_rec numeral_eq_Suc)
  then show ?thesis
    unfolding encodeRow2_def d(9-14) by (simp only: row2_inverse [OF d(16)])
qed

lemma encodeRow1_decoded:
  assumes "h2 AND 0x18 = 0" "Kind m = KindShort \<and> drop_bit 1 h0 = 0x0E \<or> Kind m = KindLong \<and> drop_bit 1 h0 = 0x0D"
    "MTV m = (h2 AND 0x20 \<noteq> 0)" "ByteBusID m = push_bit 8 (ucast (h2 AND 0x07)) OR ucast h3"
    "pad = unat (drop_bit 6 h2 AND 0x03)" "q = unat (push_bit 8 (ucast (h0 AND 0x01)) OR ucast h1 :: u16)"
  shows "encodeRow1 m pad q = [h0, h1, h2, h3]"
proof -
  have ty: "drop_bit 1 h0 = (if Kind m = KindLong then wireMsgTypeLong else wireMsgTypeShort)"
    using assms(2) by (auto simp: kind_defs)
  show ?thesis
    unfolding encodeRow1_def assms(3-6) row1_inverse [OF ty assms(1)] by (rule refl)
qed

lemma EncodeMessage_decoded:
  assumes dec: "decodeRow2 b off (Kind m) q (Pad m) mtv bus ts = Ok (m, n)"
    and bounds: "encodable m" "off + 4 \<le> length b" "n = unpaddedLen m + unat (Pad m)" "n mod 4 = 0"
      "unat (Pad m) < 4" "n \<le> length b"
    and off: "off = (if Kind m = KindLong then 12 else 4)"
    and pad: "take (unat (Pad m)) (drop (unpaddedLen m) b) = replicate (unat (Pad m)) 0"
    and row1: "encodeRow1 m (unat (Pad m)) q @ (if Kind m = KindLong then put64 (Timestamp m) else []) = take off b"
  shows "EncodeMessage m = Ok (take n b)"
proof -
  note d = decodeRow2_Ok [OF dec bounds(2)]
  have u: "unpaddedLen m = off + 4 + length (Body m)"
    using off by (simp add: unpaddedLen_def message_consts)
  have p: "(4 - unpaddedLen m mod 4) mod 4 = unat (Pad m)"
    using bounds by (intro pad_unique) auto
  have body: "Body m = take (length (Body m)) (drop (off + 4) b)"
    using d(15) bounds u by simp
  have "take n b = take off b @ take 4 (drop off b) @ take (length (Body m)) (drop (off + 4) b) @
      take (unat (Pad m)) (drop (unpaddedLen m) b)"
    unfolding bounds(3) u by (simp only: take_add append_assoc)
  also have "\<dots> = encodeRow1 m (unat (Pad m)) q @ (if Kind m = KindLong then put64 (Timestamp m) else [])
      @ encodeRow2 m @ Body m @ replicate (unat (Pad m)) 0"
    using body by (simp add: row1 [symmetric] pad encodeRow2_decodeRow2 [OF dec bounds(2)])
  finally have "take n b = \<dots>" .
  moreover have "(unpaddedLen m + unat (Pad m)) div 4 = q"
    using bounds(3) d(1) by simp
  ultimately show ?thesis
    using bounds(1) by (simp add: EncodeMessage_encodable Let_def p)
qed

lemma EncodeMessage_DecodeMessagePrefix:
  assumes dec: "DecodeMessagePrefix b = Ok (m, n)"
    and pad: "take (unat (Pad m)) (drop (unpaddedLen m) b) = replicate (unat (Pad m)) 0"
  shows "EncodeMessage m = Ok (take n b)"
proof -
  note bounds = DecodeMessagePrefix_bounds [OF dec]
  show ?thesis using dec
  proof (cases rule: DecodeMessagePrefix_OkE)
    case (short h0 h1 h2 h3 t)
    then have off: "4 + 4 \<le> length b" by simp
    note d = decodeRow2_Ok [OF short(4) off]
    have "encodeRow1 m (unat (Pad m)) (unat (push_bit 8 (ucast (h0 AND 0x01)) OR ucast h1 :: u16)) = [h0, h1, h2, h3]"
      using short d(4-7) by (intro encodeRow1_decoded) simp_all
    then have row1: "encodeRow1 m (unat (Pad m)) (unat (push_bit 8 (ucast (h0 AND 0x01)) OR ucast h1 :: u16)) @
        (if Kind m = KindLong then put64 (Timestamp m) else []) = take 4 b"
      using d(4) short(1) by (simp add: kind_defs)
    show ?thesis
      using short(4) pad row1 d(4,5)
      by (intro EncodeMessage_decoded [OF _ bounds(6) off bounds(3,4,5,2)]) (simp_all add: kind_defs)
  next
    case (long h0 h1 h2 h3 ts t)
    then have off: "12 + 4 \<le> length b" by simp
    note d = decodeRow2_Ok [OF long(4) off]
    have "encodeRow1 m (unat (Pad m)) (unat (push_bit 8 (ucast (h0 AND 0x01)) OR ucast h1 :: u16)) = [h0, h1, h2, h3]"
      using long d(4-7) by (intro encodeRow1_decoded) simp_all
    then have row1: "encodeRow1 m (unat (Pad m)) (unat (push_bit 8 (ucast (h0 AND 0x01)) OR ucast h1 :: u16)) @
        (if Kind m = KindLong then put64 (Timestamp m) else []) = take 12 b"
      using d(4,8) long(1) by (simp add: kind_defs)
    show ?thesis
      using long(4) pad row1 d(4,5)
      by (intro EncodeMessage_decoded [OF _ bounds(6) off bounds(3,4,5,2)]) (simp_all add: kind_defs)
  qed
qed

lemma DecodeMessage_never_panics: "DecodeMessage b \<noteq> Panic"
  by (auto simp: DecodeMessage_def andThen_eq_Panic_iff DecodeMessagePrefix_never_panics)

lemma DecodeMessage_EncodeMessage: "EncodeMessage m = Ok bs \<Longrightarrow> DecodeMessage bs = Ok (wire_message m)"
  using DecodeMessagePrefix_EncodeMessage [of m bs "[]"] by (simp add: DecodeMessage_def)

section \<open>Properties\<close>

text \<open>The message codec. What \<open>EncodeMessage\<close> produces decodes to the message as the wire
  keeps it, and the octets of a decoded message whose padding is zero are its encoding; a decoded
  message is always one \<open>EncodeMessage\<close> accepts, and spans a whole number of quadlets, at least two.\<close>

theorem message_roundtrip:
  "(EncodeMessage m = Ok bs \<longrightarrow> DecodeMessage bs = Ok (wire_message m)) \<and>
   (DecodeMessage b = Ok m' \<longrightarrow>
      8 \<le> length b \<and> length b mod 4 = 0 \<and> length b = unpaddedLen m' + unat (Pad m') \<and>
      (\<exists>bs'. EncodeMessage m' = Ok bs') \<and>
      (drop (unpaddedLen m') b = replicate (unat (Pad m')) 0 \<longrightarrow> EncodeMessage m' = Ok b))"
proof (intro conjI impI)
  show "DecodeMessage bs = Ok (wire_message m)" if "EncodeMessage m = Ok bs"
    using that by (rule DecodeMessage_EncodeMessage)
  assume "DecodeMessage b = Ok m'"
  then have dec: "DecodeMessagePrefix b = Ok (m', length b)" by (rule DecodeMessage_OkE)
  note bounds = DecodeMessagePrefix_bounds [OF dec]
  show "8 \<le> length b" "length b mod 4 = 0" "length b = unpaddedLen m' + unat (Pad m')"
    by (rule bounds)+
  show "\<exists>bs'. EncodeMessage m' = Ok bs'"
    using bounds(6) by (simp add: EncodeMessage_Ok_iff)
  show "EncodeMessage m' = Ok b" if "drop (unpaddedLen m') b = replicate (unat (Pad m')) 0"
    using EncodeMessage_DecodeMessagePrefix [OF dec] that by simp
qed

text \<open>A read request of three octets' payload, and its twelve octets on the wire.\<close>

definition sample_message :: Message where
  "sample_message = zeroMessage\<lparr>Kind := KindShort, Pad := 1, ByteBusID := 0x105, TransactionNum := 9,
     Control := FlagRead, ReadSizeOrSegment := 2, Body := [1, 2, 3]\<rparr>"

theorem message_roundtrip_witness:
  "EncodeMessage sample_message = Ok [0x1C, 3, 0x41, 5, 0, 9, 0, 2, 1, 2, 3, 0] \<and>
   DecodeMessage [0x1C, 3, 0x41, 5, 0, 9, 0, 2, 1, 2, 3, 0] = Ok sample_message"
proof -
  have "EncodeMessage sample_message = Ok [0x1C, 3, 0x41, 5, 0, 9, 0, 2, 1, 2, 3, 0]"
    by code_simp
  moreover have "wire_message sample_message = sample_message"
    by code_simp
  ultimately show ?thesis
    using message_roundtrip [of sample_message "[0x1C, 3, 0x41, 5, 0, 9, 0, 2, 1, 2, 3, 0]"] by simp
qed

end
