(* ===== verification/Acf_Frame.thy ===== *)
theory Acf_Frame
  imports Acf_Message
begin

text \<open>
  The package \<open>acf\<close>, file \<open>frame.go\<close>: an AVTPDU header followed by any number of messages.
  The loop of \<open>DecodeFrame\<close> reads one message after the other off the payload. What it relies on
  is a prefix codec (the locale \<open>prefix_codec\<close>): a decoder that consumes a positive part of its
  input and inverts the encoder whatever follows. \<open>EncodeMessage\<close> and \<open>DecodeMessagePrefix\<close>
  are such a codec, so the loop ends and frames round-trip.
\<close>

section \<open>Frames\<close>

record Frame =
  FHeader :: Header
  FMessages :: "Message list"

text \<open>The loop of \<open>EncodeFrame\<close>: the payload.\<close>

fun encodeMessages :: "Message list \<Rightarrow> bytes go" where
  "encodeMessages [] = Ok []"
| "encodeMessages (msg # msgs) =
     andThen (EncodeMessage msg) (\<lambda>msgBytes.
     andThen (encodeMessages msgs) (\<lambda>payload. Ok (msgBytes @ payload)))"

definition EncodeFrame :: "Header \<Rightarrow> Message list \<Rightarrow> bytes go" where
  "EncodeFrame hdr msgs =
     andThen (encodeMessages msgs) (\<lambda>payload.
     if length payload > MaxDataLength then Err (EAvtp ErrDataLengthOverflow)
     else andThen (EncodeHeader (hdr\<lparr>DataLength := word_of_nat (length payload)\<rparr>)) (\<lambda>hdrBytes.
       Ok (hdrBytes @ payload)))"

text \<open>The loop of \<open>DecodeFrame\<close>; its termination needs that a decoded message is not empty.\<close>

function decodeMessages :: "bytes \<Rightarrow> Message list go" where
  "decodeMessages rest =
     (if length rest > 0
      then andThen (DecodeMessagePrefix rest) (\<lambda>r.
           andThen (slice rest (snd r) (length rest)) (\<lambda>rest'.
           andThen (decodeMessages rest') (\<lambda>msgs. Ok (fst r # msgs))))
      else Ok [])"
  by pat_completeness auto

termination
proof (relation "measure length")
  fix rest x rest'
  assume "DecodeMessagePrefix rest = Ok x" "slice rest (snd x) (length rest) = (Ok rest' :: bytes go)"
    and "0 < length rest"
  moreover have "8 \<le> snd x" "snd x \<le> length rest"
    using DecodeMessagePrefix_bounds [of rest "fst x" "snd x"] calculation(1) by simp_all
  ultimately have "rest' = drop (snd x) rest" "8 \<le> snd x"
    by simp_all
  then show "(rest', rest) \<in> measure length"
    using \<open>0 < length rest\<close> by auto
qed simp

declare decodeMessages.simps [simp del]

definition DecodeFrame :: "bytes \<Rightarrow> Frame go" where
  "DecodeFrame b =
     andThen (DecodeHeader b) (\<lambda>(hdr, rest).
     if length rest \<noteq> unat (DataLength hdr) then Err (EAcf ErrFrameLengthMismatch)
     else andThen (decodeMessages rest) (\<lambda>msgs. Ok \<lparr>FHeader = hdr, FMessages = msgs\<rparr>))"

lemmas frame_defs [go_defs] = EncodeFrame_def DecodeFrame_def

section \<open>Prefix codecs\<close>

locale prefix_codec =
  fixes enc :: "'m \<Rightarrow> ('e, bytes) outcome"
    and dec :: "bytes \<Rightarrow> ('e, 'm \<times> nat) outcome"
    and canon :: "'m \<Rightarrow> 'm"
  assumes dec_enc: "enc m = Ok bs \<Longrightarrow> dec (bs @ rest) = Ok (canon m, length bs)"
    and dec_length: "dec b = Ok (m, n) \<Longrightarrow> 0 < n \<and> n \<le> length b"
    and dec_no_panic: "dec b \<noteq> Panic"
    and enc_no_panic: "enc m \<noteq> Panic"
begin

lemma enc_nonempty: "enc m = Ok bs \<Longrightarrow> 0 < length bs"
  using dec_enc [of m bs "[]"] dec_length by fastforce

lemma enc_prefix_free:
  assumes "enc m = Ok bs" "enc m' = Ok bs'" "bs @ rest = bs' @ rest'"
  shows "bs = bs' \<and> canon m = canon m'"
  using dec_enc [OF assms(1), of rest] dec_enc [OF assms(2), of rest'] assms(3)
  by (auto simp: append_eq_append_conv)

end

text \<open>A sequence of messages, encoded and decoded one after the other.\<close>

locale codec_stream = prefix_codec enc dec canon
  for enc :: "'m \<Rightarrow> ('e, bytes) outcome"
    and dec :: "bytes \<Rightarrow> ('e, 'm \<times> nat) outcome"
    and canon :: "'m \<Rightarrow> 'm" +
  fixes encs :: "'m list \<Rightarrow> ('e, bytes) outcome"
    and decs :: "bytes \<Rightarrow> ('e, 'm list) outcome"
  assumes encs_Nil: "encs [] = Ok []"
    and encs_Cons: "encs (m # ms) =
      andThen (enc m) (\<lambda>bs. andThen (encs ms) (\<lambda>pl. Ok (bs @ pl)))"
    and decs_step: "decs b = (if length b > 0
      then andThen (dec b) (\<lambda>r. andThen (slice b (snd r) (length b)) (\<lambda>b'.
           andThen (decs b') (\<lambda>ms. Ok (fst r # ms))))
      else Ok [])"
begin

lemma decs_Nil: "decs [] = Ok []"
  by (simp add: decs_step)

lemma decs_Ok:
  assumes "dec b = Ok (m, n)"
  shows "decs b = andThen (decs (drop n b)) (\<lambda>ms. Ok (m # ms))"
  using dec_length [OF assms] assms by (subst decs_step) auto

lemma decs_encs: "encs ms = Ok pl \<Longrightarrow> decs pl = Ok (map canon ms)"
proof (induction ms arbitrary: pl)
  case Nil
  then show ?case by (simp add: encs_Nil decs_Nil)
next
  case (Cons m ms)
  then obtain bs pl' where "enc m = Ok bs" "encs ms = Ok pl'" "pl = bs @ pl'"
    by (auto simp: encs_Cons andThen_eq_Ok_iff)
  moreover from this Cons.IH have "decs pl' = Ok (map canon ms)" by simp
  ultimately show ?case
    by (simp add: decs_Ok [OF dec_enc])
qed

lemma decs_no_panic: "decs b \<noteq> Panic"
proof (induction b rule: length_induct)
  case (1 b)
  show ?case
  proof (cases "dec b")
    case (Ok r)
    obtain m n where r: "r = (m, n)" by fastforce
    from Ok dec_length [of b m n] have "0 < n" "n \<le> length b" by (simp_all add: r)
    then have "decs (drop n b) \<noteq> Panic" if "b \<noteq> []"
      using that by (intro 1 [rule_format]) simp
    then show ?thesis
      using Ok by (cases "b = []") (auto simp: decs_Nil decs_Ok r andThen_eq_Panic_iff)
  qed (auto simp: decs_step [of b] dec_no_panic)
qed

lemma encs_no_panic: "encs ms \<noteq> Panic"
  by (induction ms) (auto simp: encs_Nil encs_Cons andThen_eq_Panic_iff enc_no_panic)

end

interpretation acf_codec: prefix_codec EncodeMessage DecodeMessagePrefix wire_message
proof
  show "DecodeMessagePrefix (bs @ rest) = Ok (wire_message m, length bs)"
    if "EncodeMessage m = Ok bs" for m bs rest
    using that by (rule DecodeMessagePrefix_EncodeMessage)
  show "0 < n \<and> n \<le> length b" if "DecodeMessagePrefix b = Ok (m, n)" for b m n
    using DecodeMessagePrefix_bounds(1,2) [OF that] by simp
qed (rule DecodeMessagePrefix_never_panics EncodeMessage_no_panic)+

interpretation acf_stream:
  codec_stream EncodeMessage DecodeMessagePrefix wire_message encodeMessages decodeMessages
proof
  show "decodeMessages b = (if length b > 0
      then andThen (DecodeMessagePrefix b) (\<lambda>r. andThen (slice b (snd r) (length b)) (\<lambda>b'.
           andThen (decodeMessages b') (\<lambda>ms. Ok (fst r # ms))))
      else Ok [])" for b
    by (rule decodeMessages.simps)
qed simp_all

section \<open>Frames: codec laws\<close>

text \<open>The header a receiver of the frame sees: the sender's header with the length of the payload.\<close>

definition frame_header :: "Header \<Rightarrow> nat \<Rightarrow> Header" where
  "frame_header hdr n = wire_header (hdr\<lparr>DataLength := word_of_nat n\<rparr>)"

lemma DataLength_wire_header [simp]: "DataLength (wire_header h) = DataLength h"
  by (simp add: wire_header_def)

lemma DecodeFrame_EncodeFrame:
  assumes "EncodeFrame hdr msgs = Ok b"
  shows "wireLen hdr \<le> length b \<and> length b - wireLen hdr \<le> MaxDataLength \<and>
    DecodeFrame b = Ok \<lparr>FHeader = frame_header hdr (length b - wireLen hdr), FMessages = map wire_message msgs\<rparr>"
proof -
  from assms obtain payload hb where pl: "encodeMessages msgs = Ok payload"
    and len: "length payload \<le> MaxDataLength"
    and hb: "EncodeHeader (hdr\<lparr>DataLength := word_of_nat (length payload)\<rparr>) = Ok hb"
    and b: "b = hb @ payload"
    by (auto simp: EncodeFrame_def andThen_eq_Ok_iff split: if_splits)
  have "unat (word_of_nat (length payload) :: u16) = length payload"
    using len by (simp add: unat_of_nat MaxDataLength_def)
  then have "DecodeFrame b = Ok \<lparr>FHeader = frame_header hdr (length payload), FMessages = map wire_message msgs\<rparr>"
    by (simp add: DecodeFrame_def b DecodeHeader_EncodeHeader [OF hb] acf_stream.decs_encs [OF pl]
        frame_header_def)
  moreover have "length b = wireLen hdr + length payload"
    using length_EncodeHeader [OF hb] by (simp add: b wireLen_def)
  ultimately show ?thesis using len by simp
qed

lemma DecodeFrame_never_panics: "DecodeFrame b \<noteq> Panic"
  by (auto simp: DecodeFrame_def andThen_eq_Panic_iff DecodeHeader_never_panics acf_stream.decs_no_panic)

section \<open>Properties\<close>

text \<open>C1: frames round-trip. Decoding an encoded frame yields every message, in order and as the
  wire keeps it, under the sender's header with the payload's true length.\<close>

theorem frame_roundtrip:
  assumes "EncodeFrame hdr msgs = Ok b"
  shows "wireLen hdr \<le> length b \<and> length b - wireLen hdr \<le> MaxDataLength \<and>
    DecodeFrame b = Ok \<lparr>FHeader = frame_header hdr (length b - wireLen hdr), FMessages = map wire_message msgs\<rparr>"
  using assms by (rule DecodeFrame_EncodeFrame)

definition sample_frame :: bytes where
  "sample_frame = [0x82, 0x80, 24, 7, 2, 0, 0, 0, 0, 1, 0, 5,
     0x1C, 3, 0x41, 5, 0, 9, 0, 2, 1, 2, 3, 0, 0x1C, 3, 0x41, 5, 0, 9, 0, 2, 1, 2, 3, 0]"

theorem frame_roundtrip_witness:
  "DecodeFrame sample_frame =
     Ok \<lparr>FHeader = sample_header\<lparr>DataLength := 24\<rparr>, FMessages = [sample_message, sample_message]\<rparr>"
proof -
  have "EncodeFrame sample_header [sample_message, sample_message] = Ok sample_frame"
    by code_simp
  moreover have "wire_message sample_message = sample_message"
    "frame_header sample_header 24 = sample_header\<lparr>DataLength := 24\<rparr>"
    "length sample_frame - wireLen sample_header = 24"
    by code_simp+
  ultimately show ?thesis
    using frame_roundtrip [of sample_header "[sample_message, sample_message]" sample_frame] by simp
qed

text \<open>C11: no input makes the decoders index out of range: for every octet string each of
  \<open>DecodeHeader\<close>, \<open>DecodeMessagePrefix\<close>, \<open>DecodeMessage\<close> and \<open>DecodeFrame\<close> returns a value or an
  error.\<close>

theorem decoders_never_panic:
  "DecodeHeader b \<noteq> Panic \<and> DecodeMessagePrefix b \<noteq> Panic \<and> DecodeMessage b \<noteq> Panic \<and>
   DecodeFrame b \<noteq> Panic"
  by (simp add: DecodeHeader_never_panics DecodeMessagePrefix_never_panics
      DecodeMessage_never_panics DecodeFrame_never_panics)

end
