(* ===== verification/Acf_Evt.thy ===== *)
theory Acf_Evt
  imports Acf_Message
begin

text \<open>
  The package \<open>acf\<close>, file \<open>evt.go\<close>: the interpretation of the \<open>evt\<close> field of a request. The
  three rows of the specification's table are the values of \<open>EVTClass\<close>; \<open>ClassifyEVT\<close> decides
  what a selector means in a row, \<open>ApplyEVTWriteOp\<close> combines a payload with the interface's
  present state, and the configuration request body carries a register address and data.
\<close>

section \<open>Selectors, classes, dispositions\<close>

definition EVTAckRequestBit :: u8 where "EVTAckRequestBit = 0x08"
definition EVTSelectorMask :: u8 where "EVTSelectorMask = 0x07"

type_synonym EVTSelector = u8
type_synonym EVTClass = u8
type_synonym EVTWriteOp = u8

definition EVTSelector_Valid :: "EVTSelector \<Rightarrow> bool" where
  "EVTSelector_Valid s = (s < 8)"

definition Message_EVTSelector :: "Message \<Rightarrow> EVTSelector" where
  "Message_EVTSelector m = EVT m AND EVTSelectorMask"

definition Message_EVTAckRequested :: "Message \<Rightarrow> bool" where
  "Message_EVTAckRequested m = (EVT m AND EVTAckRequestBit \<noteq> 0)"

definition EVTClassChannelSelect :: EVTClass where "EVTClassChannelSelect = 0"
definition EVTClassConfigOnly :: EVTClass where "EVTClassConfigOnly = 1"
definition EVTClassArithmetic :: EVTClass where "EVTClassArithmetic = 2"

definition EVTClass_Valid :: "EVTClass \<Rightarrow> bool" where
  "EVTClass_Valid c = (c < 3)"

datatype EVTAction = EVTActionInterface | EVTActionConfigure

definition EVTWriteSet :: EVTWriteOp where "EVTWriteSet = 0"
definition EVTWriteOr :: EVTWriteOp where "EVTWriteOr = 1"
definition EVTWriteAnd :: EVTWriteOp where "EVTWriteAnd = 2"
definition EVTWriteXor :: EVTWriteOp where "EVTWriteXor = 3"
definition EVTWriteAddSaturating :: EVTWriteOp where "EVTWriteAddSaturating = 5"
definition EVTWriteSubSaturating :: EVTWriteOp where "EVTWriteSubSaturating = 6"

lemmas evt_consts = EVTAckRequestBit_def EVTSelectorMask_def EVTClassChannelSelect_def
  EVTClassConfigOnly_def EVTClassArithmetic_def EVTWriteSet_def EVTWriteOr_def EVTWriteAnd_def
  EVTWriteXor_def EVTWriteAddSaturating_def EVTWriteSubSaturating_def

definition EVTWriteOp_Valid :: "EVTWriteOp \<Rightarrow> bool" where
  "EVTWriteOp_Valid op \<longleftrightarrow> op \<in> {EVTWriteSet, EVTWriteOr, EVTWriteAnd, EVTWriteXor,
     EVTWriteAddSaturating, EVTWriteSubSaturating}"

record EVTDisposition =
  Action :: EVTAction
  Channel :: u8
  WriteOp :: EVTWriteOp

definition ClassifyEVT :: "EVTClass \<Rightarrow> u8 \<Rightarrow> EVTDisposition go" where
  "ClassifyEVT cls evt =
     (let sel = evt AND EVTSelectorMask in
      if sel = 7 then
        (if \<not> EVTClass_Valid cls then Err (EAcf ErrEVTUnknownClass)
         else Ok \<lparr>Action = EVTActionConfigure, Channel = 0, WriteOp = 0\<rparr>)
      else if cls = EVTClassChannelSelect then
        (if sel = 6 then Err (EAcf ErrEVTReserved)
         else Ok \<lparr>Action = EVTActionInterface, Channel = sel, WriteOp = 0\<rparr>)
      else if cls = EVTClassConfigOnly then
        (if sel \<noteq> 0 then Err (EAcf ErrEVTReserved)
         else Ok \<lparr>Action = EVTActionInterface, Channel = 0, WriteOp = 0\<rparr>)
      else if cls = EVTClassArithmetic then
        (if sel = 4 then Err (EAcf ErrEVTReserved)
         else if \<not> EVTWriteOp_Valid sel then Err (EAcf ErrEVTReserved)
         else Ok \<lparr>Action = EVTActionInterface, Channel = 0, WriteOp = sel\<rparr>)
      else Err (EAcf ErrEVTUnknownClass))"

definition CheckEVTPayloadPresence :: "u8 \<Rightarrow> nat \<Rightarrow> unit go" where
  "CheckEVTPayloadPresence evt payloadLen =
     (if evt AND EVTSelectorMask \<noteq> 0 \<and> payloadLen = 0 then Err (EAcf ErrEVTMissingPayload) else Ok ())"

definition Message_EVTDisposition :: "Message \<Rightarrow> EVTClass \<Rightarrow> EVTDisposition go" where
  "Message_EVTDisposition m cls =
     andThen (CheckEVTPayloadPresence (EVT m) (length (Body m))) (\<lambda>_. ClassifyEVT cls (EVT m))"

section \<open>Write operations\<close>

text \<open>The sum is taken in 64 bits, as the code does.\<close>

definition ApplyEVTWriteOp :: "EVTWriteOp \<Rightarrow> u32 \<Rightarrow> u32 \<Rightarrow> u32 \<Rightarrow> u32 go" where
  "ApplyEVTWriteOp op payload current saturateAt =
     (if op = EVTWriteSet then Ok payload
      else if op = EVTWriteOr then Ok (payload OR current)
      else if op = EVTWriteAnd then Ok (payload AND current)
      else if op = EVTWriteXor then Ok (payload XOR current)
      else if op = EVTWriteAddSaturating then
        (let sum = (ucast payload + ucast current :: u64) in
         if sum > ucast saturateAt then Ok saturateAt else Ok (ucast sum))
      else if op = EVTWriteSubSaturating then
        (if payload \<le> current then Ok 0
         else (let diff = payload - current in if diff > saturateAt then Ok saturateAt else Ok diff))
      else Err (EAcf ErrEVTReserved))"

section \<open>Configuration request bodies\<close>

definition EVTConfigStartAddrLen :: nat where "EVTConfigStartAddrLen = 2"

definition EncodeConfigRequestBody :: "u16 \<Rightarrow> bytes \<Rightarrow> bytes" where
  "EncodeConfigRequestBody startAddr data = put16 startAddr @ data"

definition DecodeConfigRequestBody :: "bytes \<Rightarrow> (u16 \<times> bytes) go" where
  "DecodeConfigRequestBody b =
     (if length b < EVTConfigStartAddrLen then Err (EAcf ErrShortConfigRequest)
      else andThen (get16 b 0) (\<lambda>a.
           andThen (slice b EVTConfigStartAddrLen (length b)) (\<lambda>d. Ok (a, d))))"

lemmas evt_defs [go_defs] = ClassifyEVT_def CheckEVTPayloadPresence_def Message_EVTDisposition_def
  ApplyEVTWriteOp_def EncodeConfigRequestBody_def DecodeConfigRequestBody_def

section \<open>Laws\<close>

lemma selector_less_8: "unat (evt AND EVTSelectorMask) < 8"
proof -
  have "unat (evt AND EVTSelectorMask) \<le> unat EVTSelectorMask"
    by (simp add: word_and_le1 flip: word_le_nat_alt)
  then show ?thesis by (simp add: evt_consts)
qed

lemma selector_cases:
  fixes evt :: u8
  obtains "evt AND EVTSelectorMask = 0" | "evt AND EVTSelectorMask = 1" | "evt AND EVTSelectorMask = 2"
    | "evt AND EVTSelectorMask = 3" | "evt AND EVTSelectorMask = 4" | "evt AND EVTSelectorMask = 5"
    | "evt AND EVTSelectorMask = 6" | "evt AND EVTSelectorMask = 7"
proof -
  obtain k where k: "evt AND EVTSelectorMask = word_of_nat k" "k < 8"
    using word_of_nat_below [OF selector_less_8 [of evt]] by blast
  from k(2) have "k \<in> {0, 1, 2, 3, 4, 5, 6, 7}" by auto
  then show ?thesis using that k(1) by auto
qed

lemma Message_EVTSelector_Valid: "EVTSelector_Valid (Message_EVTSelector m)"
  using selector_less_8 [of "EVT m"]
  by (simp add: EVTSelector_Valid_def Message_EVTSelector_def word_less_nat_alt)

lemma ClassifyEVT_no_panic: "ClassifyEVT cls evt \<noteq> Panic"
  by (simp add: ClassifyEVT_def Let_def)

lemma ClassifyEVT_configure_iff:
  "(\<exists>d. ClassifyEVT cls evt = Ok d \<and> Action d = EVTActionConfigure) \<longleftrightarrow>
     EVTClass_Valid cls \<and> evt AND EVTSelectorMask = 7"
  by (auto simp: ClassifyEVT_def Let_def)

text \<open>A row accepts exactly the selectors that its table does not reserve.\<close>

lemma ClassifyEVT_Ok_iff:
  "(\<exists>d. ClassifyEVT cls evt = Ok d) \<longleftrightarrow>
     (cls = EVTClassChannelSelect \<and> evt AND EVTSelectorMask \<noteq> 6) \<or>
     (cls = EVTClassConfigOnly \<and> evt AND EVTSelectorMask \<in> {0, 7}) \<or>
     (cls = EVTClassArithmetic \<and> evt AND EVTSelectorMask \<noteq> 4)"
proof -
  have "EVTClass_Valid cls \<longleftrightarrow> cls = EVTClassChannelSelect \<or> cls = EVTClassConfigOnly \<or> cls = EVTClassArithmetic"
  proof
    assume "EVTClass_Valid cls"
    then have "unat cls < 3" by (simp add: EVTClass_Valid_def word_less_nat_alt)
    then obtain k where k: "cls = word_of_nat k" "k < 3"
      using word_of_nat_below by blast
    from k(2) have "k \<in> {0, 1, 2}" by auto
    with k(1) show "cls = EVTClassChannelSelect \<or> cls = EVTClassConfigOnly \<or> cls = EVTClassArithmetic"
      by (auto simp: evt_consts)
  qed (auto simp: EVTClass_Valid_def evt_consts)
  then show ?thesis
    by (cases evt rule: selector_cases)
      (auto simp: ClassifyEVT_def Let_def EVTWriteOp_Valid_def evt_consts)
qed

lemma ClassifyEVT_Channel:
  "ClassifyEVT EVTClassChannelSelect evt = Ok d \<Longrightarrow> Channel d \<le> 5"
  by (cases evt rule: selector_cases) (auto simp: ClassifyEVT_def Let_def evt_consts split: if_splits)

lemma ClassifyEVT_WriteOp:
  "ClassifyEVT EVTClassArithmetic evt = Ok d \<Longrightarrow> EVTWriteOp_Valid (WriteOp d)"
  by (cases evt rule: selector_cases)
    (auto simp: ClassifyEVT_def Let_def evt_consts EVTWriteOp_Valid_def split: if_splits)

lemma disposition_arithmetic:
  assumes "Message_EVTDisposition m EVTClassArithmetic = Ok d"
  shows "Action d = EVTActionConfigure \<longleftrightarrow> Message_EVTSelector m = 7"
    "Message_EVTSelector m \<noteq> 7 \<Longrightarrow> WriteOp d = Message_EVTSelector m \<and> EVTWriteOp_Valid (WriteOp d)"
proof -
  have c: "ClassifyEVT EVTClassArithmetic (EVT m) = Ok d"
    using assms by (auto simp: Message_EVTDisposition_def andThen_eq_Ok_iff)
  then show "Action d = EVTActionConfigure \<longleftrightarrow> Message_EVTSelector m = 7"
    by (auto simp: ClassifyEVT_def Let_def Message_EVTSelector_def split: if_splits)
  show "WriteOp d = Message_EVTSelector m \<and> EVTWriteOp_Valid (WriteOp d)" if "Message_EVTSelector m \<noteq> 7"
    using c that ClassifyEVT_WriteOp [OF c]
    by (auto simp: ClassifyEVT_def Let_def Message_EVTSelector_def evt_consts split: if_splits)
qed

lemma disposition_no_panic: "Message_EVTDisposition m c \<noteq> Panic"
  by (simp add: Message_EVTDisposition_def CheckEVTPayloadPresence_def ClassifyEVT_no_panic andThen_eq_Panic_iff)

lemma disposition_channel:
  assumes "Message_EVTDisposition m EVTClassChannelSelect = Ok d"
  shows "Action d = EVTActionConfigure \<longleftrightarrow> Message_EVTSelector m = 7"
    "Message_EVTSelector m \<noteq> 7 \<Longrightarrow> Channel d = Message_EVTSelector m \<and> Channel d \<le> 5"
proof -
  have c: "ClassifyEVT EVTClassChannelSelect (EVT m) = Ok d"
    using assms by (auto simp: Message_EVTDisposition_def andThen_eq_Ok_iff)
  then show "Action d = EVTActionConfigure \<longleftrightarrow> Message_EVTSelector m = 7"
    by (auto simp: ClassifyEVT_def Let_def Message_EVTSelector_def split: if_splits)
  show "Channel d = Message_EVTSelector m \<and> Channel d \<le> 5" if "Message_EVTSelector m \<noteq> 7"
    using c that ClassifyEVT_Channel [OF c]
    by (auto simp: ClassifyEVT_def Let_def Message_EVTSelector_def evt_consts split: if_splits)
qed

lemma disposition_configure:
  "Message_EVTDisposition m c = Ok d \<Longrightarrow> Action d = EVTActionConfigure \<longleftrightarrow> Message_EVTSelector m = 7"
  by (auto simp: Message_EVTDisposition_def andThen_eq_Ok_iff ClassifyEVT_def Let_def Message_EVTSelector_def split: if_splits)

lemma ApplyEVTWriteOp_Ok: "EVTWriteOp_Valid op \<Longrightarrow> \<exists>v. ApplyEVTWriteOp op p c s = Ok v"
  by (auto simp: EVTWriteOp_Valid_def ApplyEVTWriteOp_def Let_def)

text \<open>Saturating arithmetic is arithmetic on integers, clamped.\<close>

lemma ApplyEVTWriteOp_add:
  "ApplyEVTWriteOp EVTWriteAddSaturating p c s = Ok v \<Longrightarrow> unat v = min (unat p + unat c) (unat s)"
proof -
  have sum: "unat (ucast p + ucast c :: u64) = unat p + unat c"
    using unat_u32_less [of p] unat_u32_less [of c] by (simp add: unat_word_ariths)
  assume "ApplyEVTWriteOp EVTWriteAddSaturating p c s = Ok v"
  then have v: "v = (if ucast p + ucast c > (ucast s :: u64) then s else ucast (ucast p + ucast c :: u64))"
    by (auto simp: ApplyEVTWriteOp_def evt_consts Let_def split: if_splits)
  have gt: "ucast p + ucast c > (ucast s :: u64) \<longleftrightarrow> unat p + unat c > unat s"
    by (simp add: word_less_nat_alt sum)
  show ?thesis
    unfolding v gt using unat_u32_less [of s] by (auto simp: unsigned_ucast_eq take_bit_eq_mod sum min_def)
qed

lemma ApplyEVTWriteOp_sub:
  "ApplyEVTWriteOp EVTWriteSubSaturating p c s = Ok v \<Longrightarrow> unat v = min (unat p - unat c) (unat s)"
  by (auto simp: ApplyEVTWriteOp_def evt_consts Let_def word_le_nat_alt word_less_nat_alt unat_sub min_def
      split: if_splits)

lemma DecodeConfigRequestBody_Encode:
  "DecodeConfigRequestBody (EncodeConfigRequestBody a d) = Ok (a, d)"
  by (simp add: DecodeConfigRequestBody_def EncodeConfigRequestBody_def EVTConfigStartAddrLen_def put16_def)

lemma EncodeConfigRequestBody_Decode:
  assumes "DecodeConfigRequestBody b = Ok (a, d)"
  shows "EncodeConfigRequestBody a d = b"
proof -
  have "2 \<le> length b"
    using assms by (auto simp: DecodeConfigRequestBody_def EVTConfigStartAddrLen_def split: if_splits)
  then obtain x y t where "b = x # y # t"
    by (auto simp: numeral_eq_Suc Suc_le_length_iff)
  then show ?thesis
    using assms by (auto simp: DecodeConfigRequestBody_def EncodeConfigRequestBody_def EVTConfigStartAddrLen_def)
qed

lemma DecodeConfigRequestBody_no_panic: "DecodeConfigRequestBody b \<noteq> Panic"
  by (simp add: DecodeConfigRequestBody_def EVTConfigStartAddrLen_def)

section \<open>Properties\<close>

text \<open>The classification of the \<open>evt\<close> field. A request is accepted under a row of the table
  exactly when the row does not reserve its selector and a selected operation has a payload; it is
  a configuration change exactly for selector 7; the channel-select row yields channels 0 to 5 and
  the arithmetic row only operations that \<open>ApplyEVTWriteOp\<close> carries out.\<close>

theorem evt_classification:
  "((\<exists>d. Message_EVTDisposition m cls = Ok d) \<longleftrightarrow>
      (Message_EVTSelector m = 0 \<or> Body m \<noteq> []) \<and>
      ((cls = EVTClassChannelSelect \<and> Message_EVTSelector m \<noteq> 6) \<or>
       (cls = EVTClassConfigOnly \<and> Message_EVTSelector m \<in> {0, 7}) \<or>
       (cls = EVTClassArithmetic \<and> Message_EVTSelector m \<noteq> 4))) \<and>
   (Message_EVTDisposition m cls = Ok d \<longrightarrow>
      (Action d = EVTActionConfigure \<longleftrightarrow> Message_EVTSelector m = 7) \<and>
      (cls = EVTClassChannelSelect \<longrightarrow> Channel d \<le> 5) \<and>
      (cls = EVTClassArithmetic \<longrightarrow> (\<exists>v. ApplyEVTWriteOp (WriteOp d) p c s = Ok v)))"
proof -
  have split: "Message_EVTDisposition m cls = Ok d \<longleftrightarrow>
      (Message_EVTSelector m = 0 \<or> Body m \<noteq> []) \<and> ClassifyEVT cls (EVT m) = Ok d" for d
    by (auto simp: Message_EVTDisposition_def CheckEVTPayloadPresence_def Message_EVTSelector_def)
  have "Action d = EVTActionConfigure \<longleftrightarrow> Message_EVTSelector m = 7" if "ClassifyEVT cls (EVT m) = Ok d"
    using that by (auto simp: ClassifyEVT_def Let_def Message_EVTSelector_def split: if_splits)
  then show ?thesis
    using ClassifyEVT_Channel [of "EVT m" d] ClassifyEVT_WriteOp [of "EVT m" d] ApplyEVTWriteOp_Ok
      ClassifyEVT_Ok_iff [of cls "EVT m"]
    by (auto simp: split Message_EVTSelector_def)
qed

theorem evt_classification_witness:
  "Message_EVTDisposition (zeroMessage\<lparr>EVT := 0x0D, Body := [1]\<rparr>) EVTClassArithmetic =
     Ok \<lparr>Action = EVTActionInterface, Channel = 0, WriteOp = EVTWriteAddSaturating\<rparr> \<and>
   (\<exists>v. ApplyEVTWriteOp EVTWriteAddSaturating 1 2 3 = Ok v)"
proof -
  have "Message_EVTDisposition (zeroMessage\<lparr>EVT := 0x0D, Body := [1]\<rparr>) EVTClassArithmetic =
     Ok \<lparr>Action = EVTActionInterface, Channel = 0, WriteOp = EVTWriteAddSaturating\<rparr>"
    by code_simp
  moreover from this have "\<exists>v. ApplyEVTWriteOp EVTWriteAddSaturating 1 2 3 = Ok v"
    using evt_classification [of "zeroMessage\<lparr>EVT := 0x0D, Body := [1]\<rparr>" EVTClassArithmetic
        "\<lparr>Action = EVTActionInterface, Channel = 0, WriteOp = EVTWriteAddSaturating\<rparr>" 1 2 3] by simp
  ultimately show ?thesis by blast
qed

text \<open>Saturating writes. For the two arithmetic operations the result is the sum, or the
  payload minus the present value, of the natural numbers, cut off at zero and at the caller's
  bound: no 32-bit wrap-around ever reaches the interface.\<close>

theorem saturating_writes:
  "ApplyEVTWriteOp EVTWriteAddSaturating p c s = Ok (word_of_nat (min (unat p + unat c) (unat s))) \<and>
   ApplyEVTWriteOp EVTWriteSubSaturating p c s = Ok (word_of_nat (min (unat p - unat c) (unat s)))"
proof -
  have "\<exists>v. ApplyEVTWriteOp EVTWriteAddSaturating p c s = Ok v"
    "\<exists>v. ApplyEVTWriteOp EVTWriteSubSaturating p c s = Ok v"
    by (rule ApplyEVTWriteOp_Ok, simp add: EVTWriteOp_Valid_def)+
  then show ?thesis
    using ApplyEVTWriteOp_add ApplyEVTWriteOp_sub by (metis of_nat_unat ucast_id)
qed

end
