(* ===== verification/Request_Kind.thy ===== *)
theory Request_Kind
  imports Acf_Message
begin

text \<open>
  The package \<open>request\<close>, files \<open>kind.go\<close> and \<open>sequencer.go\<close>: the kinds of conditional requests
  with their safety variants and execution priorities, and the bank of sequencer registers that
  conditional requests test and advance.
\<close>

section \<open>Kinds\<close>

text \<open>\<open>Kind\<close> is a byte whose top bit marks the safety variant of the kind in the other bits.\<close>

type_synonym RKind = u8

definition KindPlain :: RKind where "KindPlain = 0"
definition KindCompound :: RKind where "KindCompound = 1"
definition KindCompoundWait :: RKind where "KindCompoundWait = 2"
definition KindTriggered :: RKind where "KindTriggered = 3"
definition KindChained :: RKind where "KindChained = 4"
definition KindTimed :: RKind where "KindTimed = 5"
definition KindCancelAll :: RKind where "KindCancelAll = 6"
definition KindCancelTransaction :: RKind where "KindCancelTransaction = 7"
definition KindCancelSequencer :: RKind where "KindCancelSequencer = 8"
definition kindCount :: RKind where "kindCount = 9"
definition KindSafetyFlag :: RKind where "KindSafetyFlag = 0x80"
definition KindCompoundSafety :: RKind where "KindCompoundSafety = KindCompound OR KindSafetyFlag"
definition KindCompoundWaitSafety :: RKind where "KindCompoundWaitSafety = KindCompoundWait OR KindSafetyFlag"
definition KindTriggeredSafety :: RKind where "KindTriggeredSafety = KindTriggered OR KindSafetyFlag"

lemmas rkind_defs = KindPlain_def KindCompound_def KindCompoundWait_def KindTriggered_def
  KindChained_def KindTimed_def KindCancelAll_def KindCancelTransaction_def KindCancelSequencer_def
  kindCount_def KindSafetyFlag_def KindCompoundSafety_def KindCompoundWaitSafety_def
  KindTriggeredSafety_def

definition IsSafety :: "RKind \<Rightarrow> bool" where
  "IsSafety k = (k AND KindSafetyFlag \<noteq> 0)"

definition Base :: "RKind \<Rightarrow> RKind" where
  "Base k = k AND NOT KindSafetyFlag"

definition Kind_Valid :: "RKind \<Rightarrow> bool" where
  "Kind_Valid k =
     (if IsSafety k then Base k = KindCompound \<or> Base k = KindCompoundWait \<or> Base k = KindTriggered
      else k > KindPlain \<and> k < kindCount)"

definition IsCancellation :: "RKind \<Rightarrow> bool" where
  "IsCancellation k \<longleftrightarrow> k = KindCancelAll \<or> k = KindCancelTransaction \<or> k = KindCancelSequencer"

text \<open>The rank table is a Go map: a kind that it does not list has rank 0.\<close>

definition priorityRank :: "RKind \<Rightarrow> nat option" where
  "priorityRank k =
     (if k = KindCancelAll \<or> k = KindCancelTransaction \<or> k = KindCancelSequencer then Some 0
      else if k = KindTriggered then Some 1
      else if k = KindTimed then Some 2
      else if k = KindCompound then Some 3
      else if k = KindCompoundWait then Some 4
      else if k = KindChained then Some 5
      else if k = KindPlain then Some 6
      else None)"

definition Priority :: "RKind \<Rightarrow> nat" where
  "Priority k = (case priorityRank (Base k) of Some r \<Rightarrow> r | None \<Rightarrow> 0)"

section \<open>Comparisons\<close>

type_synonym CompareOp = u8

definition CompareEqual :: CompareOp where "CompareEqual = 0"
definition CompareNotEqual :: CompareOp where "CompareNotEqual = 1"
definition CompareLess :: CompareOp where "CompareLess = 2"
definition CompareLessOrEqual :: CompareOp where "CompareLessOrEqual = 3"
definition CompareGreater :: CompareOp where "CompareGreater = 4"
definition CompareGreaterOrEqual :: CompareOp where "CompareGreaterOrEqual = 5"
definition compareOpCount :: CompareOp where "compareOpCount = 6"

lemmas compare_defs = CompareEqual_def CompareNotEqual_def CompareLess_def CompareLessOrEqual_def
  CompareGreater_def CompareGreaterOrEqual_def compareOpCount_def

definition CompareOp_Valid :: "CompareOp \<Rightarrow> bool" where
  "CompareOp_Valid op = (op < compareOpCount)"

definition Evaluate :: "CompareOp \<Rightarrow> u32 \<Rightarrow> u32 \<Rightarrow> bool" where
  "Evaluate op current operand =
     (if op = CompareEqual then current = operand
      else if op = CompareNotEqual then current \<noteq> operand
      else if op = CompareLess then current < operand
      else if op = CompareLessOrEqual then current \<le> operand
      else if op = CompareGreater then current > operand
      else if op = CompareGreaterOrEqual then current \<ge> operand
      else False)"

section \<open>Sequencer registers\<close>

type_synonym SequencerID = u16

text \<open>The bank is a Go map whose missing entries read as zero.\<close>

record Sequencer =
  seqValues :: "SequencerID \<rightharpoonup> u32"

definition NewSequencer :: Sequencer where
  "NewSequencer = \<lparr>seqValues = Map.empty\<rparr>"

definition Sequencer_Get :: "Sequencer \<Rightarrow> SequencerID \<Rightarrow> u32" where
  "Sequencer_Get s i = (case seqValues s i of Some v \<Rightarrow> v | None \<Rightarrow> 0)"

definition Sequencer_Set :: "Sequencer \<Rightarrow> SequencerID \<Rightarrow> u32 \<Rightarrow> Sequencer" where
  "Sequencer_Set s i v = s\<lparr>seqValues := (seqValues s)(i \<mapsto> v)\<rparr>"

text \<open>\<open>delta\<close> is an \<open>int32\<close>: a word of 32 bits read with \<open>sint\<close>. The sum is an \<open>int64\<close>, which holds
  it exactly.\<close>

definition saturatingAdd :: "u32 \<Rightarrow> u32 \<Rightarrow> u32" where
  "saturatingAdd current delta =
     (let sum = uint current + sint delta in
      if sum > 0xFFFFFFFF then 0xFFFFFFFF else if sum < 0 then 0 else word_of_int sum)"

definition Advance :: "Sequencer \<Rightarrow> SequencerID \<Rightarrow> u32 \<Rightarrow> Sequencer \<times> u32" where
  "Advance s i delta =
     (let next = saturatingAdd (Sequencer_Get s i) delta in (Sequencer_Set s i next, next))"

record Conditional =
  CSequencer :: SequencerID
  Op :: CompareOp
  Operand :: u32
  AdvanceOnMatch :: u32

definition zeroConditional :: Conditional where
  "zeroConditional = \<lparr>CSequencer = 0, Op = 0, Operand = 0, AdvanceOnMatch = 0\<rparr>"

definition Conditional_Valid :: "Conditional \<Rightarrow> bool" where
  "Conditional_Valid c = CompareOp_Valid (Op c)"

text \<open>\<open>evaluate\<close> returns the bank, whether the condition held, and the register's value after the
  call.\<close>

definition evaluate :: "Conditional \<Rightarrow> Sequencer \<Rightarrow> Sequencer \<times> bool \<times> u32" where
  "evaluate c s =
     (let current = Sequencer_Get s (CSequencer c) in
      if \<not> Evaluate (Op c) current (Operand c) then (s, False, current)
      else (case Advance s (CSequencer c) (AdvanceOnMatch c) of (s', v) \<Rightarrow> (s', True, v)))"

section \<open>Laws of kinds\<close>

lemma Base_tagged [simp]:
  "Base KindCompoundSafety = KindCompound" "Base KindCompoundWaitSafety = KindCompoundWait"
  "Base KindTriggeredSafety = KindTriggered"
  by (simp_all add: Base_def rkind_defs)

lemma Base_untagged: "\<not> IsSafety k \<Longrightarrow> Base k = k"
  by (simp add: Base_def IsSafety_def KindSafetyFlag_def u8_bits)

lemma not_IsSafety_Base [simp]: "\<not> IsSafety (Base k)"
  by (simp add: Base_def IsSafety_def KindSafetyFlag_def u8_bits)

lemma Base_Base [simp]: "Base (Base k) = Base k"
  by (simp add: Base_untagged)

lemma Priority_Base: "Priority k = Priority (Base k)"
  by (simp add: Priority_def)

lemma tag_roundtrip: "k = (if IsSafety k then Base k OR KindSafetyFlag else Base k)"
  by (auto simp: Base_def IsSafety_def KindSafetyFlag_def u8_bits)

lemma Kind_Valid_iff:
  "Kind_Valid k \<longleftrightarrow>
     k \<in> {KindCompound, KindCompoundWait, KindTriggered, KindChained, KindTimed, KindCancelAll,
          KindCancelTransaction, KindCancelSequencer, KindCompoundSafety, KindCompoundWaitSafety,
          KindTriggeredSafety}"
proof (cases "IsSafety k")
  case True
  then show ?thesis
    using tag_roundtrip [of k] by (auto simp: Kind_Valid_def IsSafety_def Base_def rkind_defs)
next
  case False
  show ?thesis
  proof
    assume "Kind_Valid k"
    then have "unat k < 9" "k \<noteq> 0"
      using False by (auto simp: Kind_Valid_def rkind_defs word_less_nat_alt)
    then obtain n where n: "k = word_of_nat n" "n < 9" using word_of_nat_below by blast
    from n(2) have "n \<in> {0, 1, 2, 3, 4, 5, 6, 7, 8}" by auto
    then show "k \<in> {KindCompound, KindCompoundWait, KindTriggered, KindChained, KindTimed, KindCancelAll,
          KindCancelTransaction, KindCancelSequencer, KindCompoundSafety, KindCompoundWaitSafety,
          KindTriggeredSafety}"
      using n(1) \<open>k \<noteq> 0\<close> by (auto simp: rkind_defs)
  qed (use False in \<open>auto simp: Kind_Valid_def IsSafety_def rkind_defs\<close>)
qed

lemma IsCancellation_not_safety: "IsCancellation k \<Longrightarrow> \<not> IsSafety k \<and> Base k = k"
  by (auto simp: IsCancellation_def IsSafety_def Base_def rkind_defs)

lemma Priority_values:
  "Priority KindCancelAll = 0" "Priority KindCancelTransaction = 0" "Priority KindCancelSequencer = 0"
  "Priority KindTriggered = 1" "Priority KindTimed = 2" "Priority KindCompound = 3"
  "Priority KindCompoundWait = 4" "Priority KindChained = 5" "Priority KindPlain = 6"
  by (simp_all add: Priority_def priorityRank_def Base_def rkind_defs)

lemma Priority_zero_iff:
  "Kind_Valid k \<or> k = KindPlain \<Longrightarrow> Priority k = 0 \<longleftrightarrow> IsCancellation k"
  by (auto simp: Kind_Valid_iff IsCancellation_def Priority_def priorityRank_def Base_def rkind_defs)

section \<open>Laws of sequencers\<close>

lemma uint_saturatingAdd:
  "uint (saturatingAdd c d) = max 0 (min (uint c + sint d) 0xFFFFFFFF)"
proof -
  have "uint (word_of_int s :: u32) = s" if "0 \<le> s" "s \<le> 0xFFFFFFFF" for s :: int
    using that by (simp add: uint_word_of_int)
  then show ?thesis
    by (auto simp: saturatingAdd_def Let_def simp del: of_int_add)
qed

lemma Get_Set [simp]:
  "Sequencer_Get (Sequencer_Set s i v) j = (if i = j then v else Sequencer_Get s j)"
  by (simp add: Sequencer_Get_def Sequencer_Set_def)

lemma evaluate_unmatched:
  "\<not> Evaluate (Op c) (Sequencer_Get s (CSequencer c)) (Operand c) \<Longrightarrow>
   evaluate c s = (s, False, Sequencer_Get s (CSequencer c))"
  by (simp add: evaluate_def)

lemma evaluate_cases:
  "evaluate c s = (s', matched, v) \<Longrightarrow>
   matched = Evaluate (Op c) (Sequencer_Get s (CSequencer c)) (Operand c) \<and>
   v = Sequencer_Get s' (CSequencer c) \<and>
   (\<forall>j. j \<noteq> CSequencer c \<longrightarrow> Sequencer_Get s' j = Sequencer_Get s j) \<and>
   v = (if matched then saturatingAdd (Sequencer_Get s (CSequencer c)) (AdvanceOnMatch c)
        else Sequencer_Get s (CSequencer c))"
  by (auto simp: evaluate_def Advance_def Let_def split: if_splits)

end
