(* ===== verification/Request_Envelope.thy ===== *)
theory Request_Envelope
  imports Request_Kind
begin

text \<open>
  The package \<open>request\<close>, files \<open>envelope.go\<close> and \<open>chained.go\<close>: the bodies of conditional requests
  and of their responses. Each encoder and its decoder are a codec in the sense of the locales
  \<open>body_codec\<close> and \<open>exact_codec\<close>.
\<close>

section \<open>Conditional requests\<close>

definition PeekKind :: "bytes \<Rightarrow> RKind go" where
  "PeekKind body =
     (if length body < 1 then Err (ERequest ErrShortBuffer_request)
      else andThen (idx body 0) (\<lambda>k.
        if \<not> Kind_Valid k then Err (ERequest ErrInvalidKind) else Ok k))"

definition conditionalLen :: nat where "conditionalLen = 2 + 1 + 4 + 4"

definition encodeConditional :: "Conditional \<Rightarrow> bytes" where
  "encodeConditional c =
     put16 (CSequencer c) @ [Op c] @ put32 (Operand c) @ put32 (AdvanceOnMatch c)"

definition decodeConditional :: "bytes \<Rightarrow> Conditional go" where
  "decodeConditional b =
     (if length b < conditionalLen then Err (ERequest ErrShortBuffer_request)
      else andThen (idx b 2) (\<lambda>op.
        if \<not> CompareOp_Valid op then Err (ERequest ErrInvalidCompareOp)
        else andThen (get16 b 0) (\<lambda>s. andThen (get32 b 3) (\<lambda>operand. andThen (get32 b 7) (\<lambda>adv.
          Ok \<lparr>CSequencer = s, Op = op, Operand = operand, AdvanceOnMatch = adv\<rparr>)))))"

definition EncodeCompound :: "Conditional \<Rightarrow> ControlFlags \<Rightarrow> bytes \<Rightarrow> bytes" where
  "EncodeCompound c innerControl innerBody =
     [KindCompound] @ encodeConditional c @ [innerControl] @ innerBody"

definition EncodeCompoundSafety :: "Conditional \<Rightarrow> ControlFlags \<Rightarrow> bytes \<Rightarrow> bytes" where
  "EncodeCompoundSafety c innerControl innerBody =
     (EncodeCompound c innerControl innerBody)[0 := KindCompoundSafety]"

definition DecodeCompound :: "bytes \<Rightarrow> (Conditional \<times> ControlFlags \<times> bytes) go" where
  "DecodeCompound body =
     (if length body < 1 + conditionalLen + 1 then Err (ERequest ErrShortBuffer_request)
      else andThen (idx body 0) (\<lambda>k.
        if Base k \<noteq> KindCompound then Err (ERequest ErrWrongKind)
        else andThen (slice body 1 (1 + conditionalLen)) (\<lambda>cb.
             andThen (decodeConditional cb) (\<lambda>c.
             andThen (idx body (1 + conditionalLen)) (\<lambda>innerControl.
             andThen (slice body (1 + conditionalLen + 1) (length body)) (\<lambda>innerBody.
               Ok (c, innerControl, innerBody)))))))"

definition EncodeCompoundWait :: "Conditional \<Rightarrow> bytes" where
  "EncodeCompoundWait c = [KindCompoundWait] @ encodeConditional c"

definition EncodeCompoundWaitSafety :: "Conditional \<Rightarrow> bytes" where
  "EncodeCompoundWaitSafety c = (EncodeCompoundWait c)[0 := KindCompoundWaitSafety]"

definition DecodeCompoundWait :: "bytes \<Rightarrow> Conditional go" where
  "DecodeCompoundWait body =
     (if length body < 1 + conditionalLen then Err (ERequest ErrShortBuffer_request)
      else andThen (idx body 0) (\<lambda>k.
        if Base k \<noteq> KindCompoundWait then Err (ERequest ErrWrongKind)
        else if length body > 1 + conditionalLen then Err (ERequest ErrTrailingBytes_request)
        else andThen (slice body 1 (length body)) decodeConditional))"

text \<open>The trigger source is written as one byte: an address above 255 loses its high bits.\<close>

definition EncodeTriggered :: "u16 \<Rightarrow> ControlFlags \<Rightarrow> bytes \<Rightarrow> bytes" where
  "EncodeTriggered source innerControl innerBody =
     [KindTriggered, ucast source, innerControl] @ innerBody"

definition EncodeTriggeredSafety :: "u16 \<Rightarrow> ControlFlags \<Rightarrow> bytes \<Rightarrow> bytes" where
  "EncodeTriggeredSafety source innerControl innerBody =
     (EncodeTriggered source innerControl innerBody)[0 := KindTriggeredSafety]"

definition DecodeTriggered :: "bytes \<Rightarrow> (u16 \<times> ControlFlags \<times> bytes) go" where
  "DecodeTriggered body =
     (if length body < 3 then Err (ERequest ErrShortBuffer_request)
      else andThen (idx body 0) (\<lambda>k.
        if Base k \<noteq> KindTriggered then Err (ERequest ErrWrongKind)
        else andThen (idx body 1) (\<lambda>source. andThen (idx body 2) (\<lambda>innerControl.
             andThen (slice body 3 (length body)) (\<lambda>innerBody.
               Ok (ucast source, innerControl, innerBody))))))"

definition EncodeTimed :: "u64 \<Rightarrow> ControlFlags \<Rightarrow> bytes \<Rightarrow> bytes" where
  "EncodeTimed executeAtMicros innerControl innerBody =
     [KindTimed] @ put64 executeAtMicros @ [innerControl] @ innerBody"

definition DecodeTimed :: "bytes \<Rightarrow> (u64 \<times> ControlFlags \<times> bytes) go" where
  "DecodeTimed body =
     (if length body < 10 then Err (ERequest ErrShortBuffer_request)
      else andThen (idx body 0) (\<lambda>k.
        if k \<noteq> KindTimed then Err (ERequest ErrWrongKind)
        else andThen (get64 body 1) (\<lambda>at. andThen (idx body 9) (\<lambda>innerControl.
             andThen (slice body 10 (length body)) (\<lambda>innerBody. Ok (at, innerControl, innerBody))))))"

section \<open>Cancellation requests\<close>

definition EncodeCancelAll :: bytes where
  "EncodeCancelAll = [KindCancelAll]"

definition DecodeCancelAll :: "bytes \<Rightarrow> unit go" where
  "DecodeCancelAll body =
     (if length body < 1 then Err (ERequest ErrShortBuffer_request)
      else andThen (idx body 0) (\<lambda>k.
        if k \<noteq> KindCancelAll then Err (ERequest ErrWrongKind)
        else if length body > 1 then Err (ERequest ErrTrailingBytes_request)
        else Ok ()))"

definition EncodeCancelTransaction :: "u16 \<Rightarrow> bytes" where
  "EncodeCancelTransaction txn = [KindCancelTransaction] @ put16 txn"

definition DecodeCancelTransaction :: "bytes \<Rightarrow> u16 go" where
  "DecodeCancelTransaction body =
     (if length body < 3 then Err (ERequest ErrShortBuffer_request)
      else andThen (idx body 0) (\<lambda>k.
        if k \<noteq> KindCancelTransaction then Err (ERequest ErrWrongKind)
        else if length body > 3 then Err (ERequest ErrTrailingBytes_request)
        else get16 body 1))"

definition EncodeCancelSequencer :: "SequencerID \<Rightarrow> bytes" where
  "EncodeCancelSequencer i = [KindCancelSequencer] @ put16 i"

definition DecodeCancelSequencer :: "bytes \<Rightarrow> SequencerID go" where
  "DecodeCancelSequencer body =
     (if length body < 3 then Err (ERequest ErrShortBuffer_request)
      else andThen (idx body 0) (\<lambda>k.
        if k \<noteq> KindCancelSequencer then Err (ERequest ErrWrongKind)
        else if length body > 3 then Err (ERequest ErrTrailingBytes_request)
        else get16 body 1))"

section \<open>Response bodies\<close>

record ConditionalResult =
  Matched :: bool
  SequencerValue :: u32

definition EncodeConditionalResponse :: "ConditionalResult \<Rightarrow> bytes \<Rightarrow> bytes" where
  "EncodeConditionalResponse res innerBody =
     [if Matched res then 1 else 0] @ put32 (SequencerValue res) @ innerBody"

definition DecodeConditionalResponse :: "bytes \<Rightarrow> (ConditionalResult \<times> bytes) go" where
  "DecodeConditionalResponse body =
     (if length body < 5 then Err (ERequest ErrShortBuffer_request)
      else andThen (idx body 0) (\<lambda>m. andThen (get32 body 1) (\<lambda>v.
           andThen (slice body 5 (length body)) (\<lambda>inner.
             Ok (\<lparr>Matched = (m \<noteq> 0), SequencerValue = v\<rparr>, inner)))))"

definition EncodeCancelResponse :: "u16 \<Rightarrow> bytes" where
  "EncodeCancelResponse cancelled = put16 cancelled"

definition DecodeCancelResponse :: "bytes \<Rightarrow> u16 go" where
  "DecodeCancelResponse body =
     (if length body < 2 then Err (ERequest ErrShortBuffer_request)
      else if length body > 2 then Err (ERequest ErrTrailingBytes_request)
      else get16 body 0)"

section \<open>Chained requests\<close>

record ChainedSegment =
  SegControl :: ControlFlags
  SegBody :: bytes

definition maxChainedSegments :: nat where "maxChainedSegments = 255"

text \<open>
  Requests and responses of a chain list their items the same way: an octet (the control flags,
  or whether the segment failed), the body's length in two octets, and the body. \<open>encodeItems\<close>
  and \<open>decodeItems\<close> are the loops of the two encoders and the two decoders.
\<close>

fun encodeItems :: "(u8 \<times> bytes) list \<Rightarrow> bytes" where
  "encodeItems [] = []"
| "encodeItems ((c, b) # items) = [c] @ put16 (word_of_nat (length b)) @ b @ encodeItems items"

fun decodeItems :: "bytes \<Rightarrow> nat \<Rightarrow> nat \<Rightarrow> ((u8 \<times> bytes) list \<times> nat) go" where
  "decodeItems body off 0 = Ok ([], off)"
| "decodeItems body off (Suc n) =
     (if length body < off + 3 then Err (ERequest ErrShortBuffer_request)
      else andThen (idx body off) (\<lambda>c. andThen (get16 body (off + 1)) (\<lambda>segLen.
        (let off = off + 3 in
         if length body < off + unat segLen then Err (ERequest ErrShortBuffer_request)
         else andThen (slice body off (off + unat segLen)) (\<lambda>segBody.
              andThen (decodeItems body (off + unat segLen) n) (\<lambda>(items, off').
                Ok ((c, segBody) # items, off')))))))"

definition EncodeChained :: "ChainedSegment list \<Rightarrow> bytes go" where
  "EncodeChained segs =
     (if length segs = 0 \<or> length segs > maxChainedSegments then Err (ERequest ErrInvalidSegmentCount)
      else Ok ([KindChained, word_of_nat (length segs)]
               @ encodeItems (map (\<lambda>s. (SegControl s, SegBody s)) segs)))"

definition DecodeChained :: "bytes \<Rightarrow> ChainedSegment list go" where
  "DecodeChained body =
     (if length body < 2 then Err (ERequest ErrShortBuffer_request)
      else andThen (idx body 0) (\<lambda>k.
        if k \<noteq> KindChained then Err (ERequest ErrWrongKind)
        else andThen (idx body 1) (\<lambda>count.
          if count = 0 then Err (ERequest ErrInvalidSegmentCount)
          else andThen (decodeItems body 2 (unat count)) (\<lambda>(items, off).
            if off \<noteq> length body then Err (ERequest ErrTrailingBytes_request)
            else Ok (map (\<lambda>(c, b). \<lparr>SegControl = c, SegBody = b\<rparr>) items)))))"

record ChainedResponse =
  RespBody :: bytes
  Failed :: bool

record ChainedResult =
  Responses :: "ChainedResponse list"
  Total :: nat

definition EncodeChainedResponse :: "ChainedResult \<Rightarrow> bytes" where
  "EncodeChainedResponse r =
     [word_of_nat (length (Responses r)), word_of_nat (Total r)]
     @ encodeItems (map (\<lambda>x. (if Failed x then 1 else 0, RespBody x)) (Responses r))"

definition DecodeChainedResponse :: "bytes \<Rightarrow> ChainedResult go" where
  "DecodeChainedResponse body =
     (if length body < 2 then Err (ERequest ErrShortBuffer_request)
      else andThen (idx body 0) (\<lambda>count. andThen (idx body 1) (\<lambda>total.
           andThen (decodeItems body 2 (unat count)) (\<lambda>(items, off).
             if off \<noteq> length body then Err (ERequest ErrTrailingBytes_request)
             else Ok \<lparr>Responses = map (\<lambda>(f, b). \<lparr>RespBody = b, Failed = (f \<noteq> 0)\<rparr>) items,
                      Total = unat total\<rparr>))))"

lemmas envelope_defs [go_defs] = PeekKind_def encodeConditional_def decodeConditional_def
  EncodeCompound_def DecodeCompound_def EncodeCompoundWait_def DecodeCompoundWait_def
  EncodeTriggered_def DecodeTriggered_def EncodeTimed_def DecodeTimed_def DecodeCancelAll_def
  EncodeCancelTransaction_def DecodeCancelTransaction_def EncodeCancelSequencer_def
  DecodeCancelSequencer_def EncodeConditionalResponse_def DecodeConditionalResponse_def
  EncodeCancelResponse_def DecodeCancelResponse_def

section \<open>Codec laws\<close>

lemma decodeConditional_no_panic [simp]: "decodeConditional b \<noteq> Panic"
  by (simp add: decodeConditional_def conditionalLen_def)

lemma length_encodeConditional [simp]: "length (encodeConditional c) = conditionalLen"
  by (simp add: encodeConditional_def conditionalLen_def)

lemma decodeConditional_encode:
  "Conditional_Valid c \<Longrightarrow> decodeConditional (encodeConditional c) = Ok c"
  by (simp add: decodeConditional_def encodeConditional_def conditionalLen_def Conditional_Valid_def
      put16_def put32_def)

interpretation conditional_codec: body_codec encodeConditional decodeConditional Conditional_Valid
  by unfold_locales (simp_all add: decodeConditional_encode)

interpretation compound_codec:
  body_codec "\<lambda>(c, ic, ib). EncodeCompound c ic ib" DecodeCompound "\<lambda>(c, ic, ib). Conditional_Valid c"
  by unfold_locales
    (auto simp: EncodeCompound_def DecodeCompound_def Base_def rkind_defs decodeConditional_encode
      nth_append andThen_eq_Panic_iff wire_simps)

interpretation compound_safety_codec:
  body_codec "\<lambda>(c, ic, ib). EncodeCompoundSafety c ic ib" DecodeCompound "\<lambda>(c, ic, ib). Conditional_Valid c"
  by unfold_locales
    (auto simp: EncodeCompoundSafety_def EncodeCompound_def DecodeCompound_def Base_def rkind_defs
      decodeConditional_encode nth_append andThen_eq_Panic_iff wire_simps)

interpretation compound_wait_codec: body_codec EncodeCompoundWait DecodeCompoundWait Conditional_Valid
  by unfold_locales
    (auto simp: EncodeCompoundWait_def DecodeCompoundWait_def Base_def rkind_defs
      decodeConditional_encode andThen_eq_Panic_iff wire_simps)

interpretation compound_wait_safety_codec:
  body_codec EncodeCompoundWaitSafety DecodeCompoundWait Conditional_Valid
  by unfold_locales
    (auto simp: EncodeCompoundWaitSafety_def EncodeCompoundWait_def DecodeCompoundWait_def Base_def
      rkind_defs decodeConditional_encode andThen_eq_Panic_iff wire_simps)

text \<open>A trigger source fits when its address is below 256.\<close>

interpretation triggered_codec:
  body_codec "\<lambda>(s, ic, ib). EncodeTriggered s ic ib" DecodeTriggered "\<lambda>(s, ic, ib). unat s \<le> 0xFF"
  by unfold_locales
    (auto simp: EncodeTriggered_def DecodeTriggered_def Base_def rkind_defs ucast_byte_u16 wire_simps)

interpretation triggered_safety_codec:
  body_codec "\<lambda>(s, ic, ib). EncodeTriggeredSafety s ic ib" DecodeTriggered "\<lambda>(s, ic, ib). unat s \<le> 0xFF"
  by unfold_locales
    (auto simp: EncodeTriggeredSafety_def EncodeTriggered_def DecodeTriggered_def Base_def rkind_defs
      ucast_byte_u16 wire_simps)

interpretation timed_codec:
  exact_codec "\<lambda>(t, ic, ib). EncodeTimed t ic ib" DecodeTimed "\<lambda>_. True"
proof
  show "DecodeTimed b \<noteq> Panic" for b by (auto simp: DecodeTimed_def wire_simps)
  show "DecodeTimed (case x of (t, ic, ib) \<Rightarrow> EncodeTimed t ic ib) = Ok x" for x
  proof (cases x)
    case (fields t ic ib)
    have "get64 (EncodeTimed t ic ib) 1 = (Ok t :: u64 go)"
      using get64_append [of "[KindTimed]" t "[ic] @ ib"] by (simp add: EncodeTimed_def del: get_no_panic get64_append)
    then show ?thesis
      unfolding fields by (simp add: DecodeTimed_def del: get_no_panic) (simp add: EncodeTimed_def nth_append)
  qed
  show "True \<and> (case x of (t, ic, ib) \<Rightarrow> EncodeTimed t ic ib) = b" if "DecodeTimed b = Ok x" for b x
  proof -
    from that have len: "10 \<le> length b" and "b ! 0 = KindTimed"
      and x: "x = (be64 (b ! 1) (b ! 2) (b ! 3) (b ! 4) (b ! 5) (b ! 6) (b ! 7) (b ! 8), b ! 9, drop 10 b)"
      by (auto simp: DecodeTimed_def wire_simps numeral_eq_Suc split: if_splits)
    then show ?thesis
      using split_at_nths [OF len] by (simp add: EncodeTimed_def upt_rec numeral_eq_Suc)
  qed
qed

lemma one_octet: "b \<noteq> [] \<Longrightarrow> \<not> Suc 0 < length b \<Longrightarrow> [b ! 0] = b"
  by (cases b; cases "tl b") auto

lemma two_octets: "length b = 2 \<Longrightarrow> \<exists>x y. b = [x, y]"
  by (auto simp: numeral_eq_Suc length_Suc_conv)

lemma three_octets: "length b = 3 \<Longrightarrow> \<exists>x y z. b = [x, y, z]"
  by (auto simp: numeral_eq_Suc length_Suc_conv)

interpretation cancel_all_codec: exact_codec "\<lambda>_ :: unit. EncodeCancelAll" DecodeCancelAll "\<lambda>_. True"
  by unfold_locales
    (auto simp: EncodeCancelAll_def DecodeCancelAll_def wire_simps dest: one_octet split: if_splits)

interpretation cancel_transaction_codec:
  exact_codec EncodeCancelTransaction DecodeCancelTransaction "\<lambda>_. True"
  by unfold_locales
    (auto simp: EncodeCancelTransaction_def DecodeCancelTransaction_def get16_def wire_simps
      dest!: three_octets split: if_splits)

interpretation cancel_sequencer_codec:
  exact_codec EncodeCancelSequencer DecodeCancelSequencer "\<lambda>_. True"
  by unfold_locales
    (auto simp: EncodeCancelSequencer_def DecodeCancelSequencer_def get16_def wire_simps
      dest!: three_octets split: if_splits)

interpretation conditional_response_codec:
  body_codec "\<lambda>(r, b). EncodeConditionalResponse r b" DecodeConditionalResponse "\<lambda>_. True"
  by unfold_locales
    (auto simp: EncodeConditionalResponse_def DecodeConditionalResponse_def put32_def wire_simps)

interpretation cancel_response_codec: exact_codec EncodeCancelResponse DecodeCancelResponse "\<lambda>_. True"
  by unfold_locales
    (auto simp: EncodeCancelResponse_def DecodeCancelResponse_def dest!: two_octets split: if_splits)

section \<open>Chains\<close>

lemma decodeItems_encodeItems:
  assumes "\<forall>x \<in> set items. length (snd x) < 65536"
  shows "decodeItems (pre @ encodeItems items @ rest) (length pre) (length items)
    = Ok (items, length pre + length (encodeItems items))"
  using assms
proof (induction items arbitrary: pre)
  case Nil
  then show ?case by simp
next
  case (Cons x items)
  obtain c b where x: "x = (c, b)" by fastforce
  have len: "unat (word_of_nat (length b) :: u16) = length b"
    using Cons.prems by (simp add: x unat_of_nat)
  let ?buf = "pre @ encodeItems (x # items) @ rest"
  have g: "get16 ?buf (length pre + 1) = (Ok (word_of_nat (length b)) :: u16 go)"
    using get16_append [of "pre @ [c]" "word_of_nat (length b)" "b @ encodeItems items @ rest"]
    by (simp add: x del: get16_append get_no_panic)
  have "decodeItems ?buf (length pre + 3 + length b) (length items)
     = Ok (items, length pre + 3 + length b + length (encodeItems items))"
    using Cons.IH [of "pre @ [c] @ put16 (word_of_nat (length b)) @ b"] Cons.prems
    by (simp add: x numeral_3_eq_3 add.assoc)
  then show ?case
    using g by (simp add: x len Let_def nth_append wire_simps del: get_no_panic)
qed

lemma decodeItems_no_panic: "decodeItems b off n \<noteq> Panic"
  by (induction b off n rule: decodeItems.induct)
    (auto simp: Let_def wire_simps andThen_eq_Panic_iff)

lemma DecodeChained_EncodeChained:
  assumes "EncodeChained segs = Ok body" "\<forall>s\<in>set segs. length (SegBody s) < 65536"
  shows "DecodeChained body = Ok segs"
proof -
  let ?items = "map (\<lambda>s. (SegControl s, SegBody s)) segs"
  from assms(1) have n: "0 < length segs" "length segs \<le> 255"
    and body: "body = [KindChained, word_of_nat (length segs)] @ encodeItems ?items"
    by (auto simp: EncodeChained_def maxChainedSegments_def split: if_splits)
  have u: "unat (word_of_nat (length segs) :: u8) = length segs"
    using n by (simp add: unat_of_nat)
  then have "(word_of_nat (length segs) :: u8) \<noteq> 0"
    using n by (metis length_greater_0_conv less_irrefl unsigned_0)
  moreover have "decodeItems body 2 (length segs) = Ok (?items, length body)"
    using decodeItems_encodeItems [of ?items "[KindChained, word_of_nat (length segs)]" "[]"] assms(2)
    by (simp add: body numeral_2_eq_2)
  ultimately show ?thesis
    using u by (simp add: DecodeChained_def body comp_def map_idI)
qed

lemma DecodeChained_no_panic: "DecodeChained b \<noteq> Panic"
  by (auto simp: DecodeChained_def wire_simps andThen_eq_Panic_iff decodeItems_no_panic)

lemma DecodeChainedResponse_no_panic: "DecodeChainedResponse b \<noteq> Panic"
  by (auto simp: DecodeChainedResponse_def wire_simps andThen_eq_Panic_iff decodeItems_no_panic)

interpretation chained_response_codec: body_codec EncodeChainedResponse DecodeChainedResponse
  "\<lambda>r. length (Responses r) \<le> 255 \<and> Total r \<le> 255 \<and> (\<forall>x\<in>set (Responses r). length (RespBody x) < 65536)"
proof
  fix r :: ChainedResult assume fits: "length (Responses r) \<le> 255 \<and> Total r \<le> 255 \<and> (\<forall>x\<in>set (Responses r). length (RespBody x) < 65536)"
  let ?items = "map (\<lambda>x. (if Failed x then 1 else 0 :: u8, RespBody x)) (Responses r)"
  have u: "unat (word_of_nat (length (Responses r)) :: u8) = length (Responses r)"
    "unat (word_of_nat (Total r) :: u8) = Total r"
    using fits by (simp_all add: unat_of_nat)
  have "decodeItems (EncodeChainedResponse r) 2 (length (Responses r)) = Ok (?items, length (EncodeChainedResponse r))"
    using decodeItems_encodeItems [of ?items "[word_of_nat (length (Responses r)), word_of_nat (Total r)]" "[]"] fits
    by (simp add: EncodeChainedResponse_def numeral_2_eq_2)
  then have "DecodeChainedResponse (EncodeChainedResponse r) =
      Ok \<lparr>Responses = map (\<lambda>(f, b). \<lparr>RespBody = b, Failed = (f \<noteq> 0)\<rparr>) ?items, Total = Total r\<rparr>"
    using u by (simp add: DecodeChainedResponse_def) (simp add: EncodeChainedResponse_def)
  then show "DecodeChainedResponse (EncodeChainedResponse r) = Ok r"
    by (simp add: comp_def map_idI)
qed (rule DecodeChainedResponse_no_panic)

section \<open>Properties\<close>

text \<open>Every encoder writes its own tag.\<close>

lemma envelope_tags:
  "PeekKind (EncodeCompound c ic ib) = Ok KindCompound" "PeekKind (EncodeCompoundSafety c ic ib) = Ok KindCompoundSafety"
  "PeekKind (EncodeCompoundWait c) = Ok KindCompoundWait" "PeekKind (EncodeCompoundWaitSafety c) = Ok KindCompoundWaitSafety"
  "PeekKind (EncodeTriggered src ic ib) = Ok KindTriggered" "PeekKind (EncodeTriggeredSafety src ic ib) = Ok KindTriggeredSafety"
  "PeekKind (EncodeTimed at ic ib) = Ok KindTimed" "PeekKind EncodeCancelAll = Ok KindCancelAll"
  "PeekKind (EncodeCancelTransaction txn) = Ok KindCancelTransaction" "PeekKind (EncodeCancelSequencer sq) = Ok KindCancelSequencer"
  "EncodeChained segs = Ok b \<Longrightarrow> PeekKind b = Ok KindChained"
  by (auto simp: PeekKind_def EncodeCompoundSafety_def EncodeCompound_def EncodeCompoundWaitSafety_def EncodeCompoundWait_def
      EncodeTriggeredSafety_def EncodeTriggered_def EncodeTimed_def EncodeCancelAll_def EncodeCancelTransaction_def
      EncodeCancelSequencer_def EncodeChained_def Kind_Valid_iff split: if_splits)

text \<open>C30: the envelopes of conditional requests round-trip. For each of the eleven kinds, the three safety variants
  included, the encoder writes the tag of its own kind, so that a safety request is never taken for an ordinary one nor
  the other way round, and the decoder returns the fields that were encoded. This needs a valid comparison for the compound kinds, a
  trigger source that fits one octet for the triggered ones, and between one and 255 segments of less than 65536
  octets each for a chain.\<close>

theorem envelopes_roundtrip:
  "(Conditional_Valid c \<longrightarrow>
      PeekKind (EncodeCompound c ic ib) = Ok KindCompound \<and> DecodeCompound (EncodeCompound c ic ib) = Ok (c, ic, ib) \<and>
      PeekKind (EncodeCompoundSafety c ic ib) = Ok KindCompoundSafety \<and> DecodeCompound (EncodeCompoundSafety c ic ib) = Ok (c, ic, ib) \<and>
      PeekKind (EncodeCompoundWait c) = Ok KindCompoundWait \<and> DecodeCompoundWait (EncodeCompoundWait c) = Ok c \<and>
      PeekKind (EncodeCompoundWaitSafety c) = Ok KindCompoundWaitSafety \<and> DecodeCompoundWait (EncodeCompoundWaitSafety c) = Ok c) \<and>
   (unat src \<le> 0xFF \<longrightarrow>
      PeekKind (EncodeTriggered src ic ib) = Ok KindTriggered \<and> DecodeTriggered (EncodeTriggered src ic ib) = Ok (src, ic, ib) \<and>
      PeekKind (EncodeTriggeredSafety src ic ib) = Ok KindTriggeredSafety \<and>
      DecodeTriggered (EncodeTriggeredSafety src ic ib) = Ok (src, ic, ib)) \<and>
   PeekKind (EncodeTimed at ic ib) = Ok KindTimed \<and> DecodeTimed (EncodeTimed at ic ib) = Ok (at, ic, ib) \<and>
   PeekKind EncodeCancelAll = Ok KindCancelAll \<and> DecodeCancelAll EncodeCancelAll = Ok () \<and>
   PeekKind (EncodeCancelTransaction txn) = Ok KindCancelTransaction \<and> DecodeCancelTransaction (EncodeCancelTransaction txn) = Ok txn \<and>
   PeekKind (EncodeCancelSequencer sq) = Ok KindCancelSequencer \<and> DecodeCancelSequencer (EncodeCancelSequencer sq) = Ok sq \<and>
   (segs \<noteq> [] \<and> length segs \<le> maxChainedSegments \<and> (\<forall>s\<in>set segs. length (SegBody s) < 65536) \<longrightarrow>
      (\<exists>b. EncodeChained segs = Ok b \<and> PeekKind b = Ok KindChained \<and> DecodeChained b = Ok segs))"
proof -
  have "DecodeCompound (EncodeCompound c ic ib) = Ok (c, ic, ib)" "DecodeCompound (EncodeCompoundSafety c ic ib) = Ok (c, ic, ib)"
    "DecodeCompoundWait (EncodeCompoundWait c) = Ok c" "DecodeCompoundWait (EncodeCompoundWaitSafety c) = Ok c" if "Conditional_Valid c"
    using that compound_codec.dec_enc [of "(c, ic, ib)"] compound_safety_codec.dec_enc [of "(c, ic, ib)"]
      compound_wait_codec.dec_enc [of c] compound_wait_safety_codec.dec_enc [of c] by simp_all
  moreover have "DecodeTriggered (EncodeTriggered src ic ib) = Ok (src, ic, ib)"
    "DecodeTriggered (EncodeTriggeredSafety src ic ib) = Ok (src, ic, ib)" if "unat src \<le> 0xFF"
    using that triggered_codec.dec_enc [of "(src, ic, ib)"] triggered_safety_codec.dec_enc [of "(src, ic, ib)"] by simp_all
  moreover have "DecodeTimed (EncodeTimed at ic ib) = Ok (at, ic, ib)" "DecodeCancelAll EncodeCancelAll = Ok ()"
    "DecodeCancelTransaction (EncodeCancelTransaction txn) = Ok txn" "DecodeCancelSequencer (EncodeCancelSequencer sq) = Ok sq"
    using timed_codec.dec_enc [of "(at, ic, ib)"] cancel_all_codec.dec_enc [of "()"] cancel_transaction_codec.dec_enc [of txn]
      cancel_sequencer_codec.dec_enc [of sq] by simp_all
  moreover have "\<exists>b. EncodeChained segs = Ok b \<and> PeekKind b = Ok KindChained \<and> DecodeChained b = Ok segs"
    if "segs \<noteq> []" "length segs \<le> maxChainedSegments" "\<forall>s\<in>set segs. length (SegBody s) < 65536"
    using that DecodeChained_EncodeChained [of segs] envelope_tags(11) [of segs] by (auto simp: EncodeChained_def)
  ultimately show ?thesis by (simp add: envelope_tags)
qed

theorem envelopes_roundtrip_witness:
  "DecodeCompound (EncodeCompoundSafety \<lparr>CSequencer = 3, Op = CompareLess, Operand = 10, AdvanceOnMatch = -1\<rparr>
       FlagWrite [1, 2]) =
     Ok (\<lparr>CSequencer = 3, Op = CompareLess, Operand = 10, AdvanceOnMatch = -1\<rparr>, FlagWrite, [1, 2]) \<and>
   DecodeTriggered (EncodeTriggered 7 FlagWrite [1, 2]) = Ok (7, FlagWrite, [1, 2]) \<and>
   (\<exists>b. EncodeChained [\<lparr>SegControl = FlagRead, SegBody = [1]\<rparr>] = Ok b \<and>
        DecodeChained b = Ok [\<lparr>SegControl = FlagRead, SegBody = [1]\<rparr>])"
  using envelopes_roundtrip [of "\<lparr>CSequencer = 3, Op = CompareLess, Operand = 10, AdvanceOnMatch = -1\<rparr>"
      FlagWrite "[1, 2]" 7 0 0 0 "[\<lparr>SegControl = FlagRead, SegBody = [1]\<rparr>]"]
  by (auto simp: Conditional_Valid_def CompareOp_Valid_def compare_defs maxChainedSegments_def)

end
