(* ===== verification/Request_Dispatcher.thy ===== *)
theory Request_Dispatcher
  imports Request_Envelope
begin

text \<open>
  The package \<open>request\<close>, files \<open>ticket.go\<close> and \<open>dispatcher.go\<close>: the life cycle of requests at one
  endpoint. A dispatcher decodes each message into a ticket (\<open>Submit\<close>), executes the tickets that
  are ready in the fixed order of priorities (\<open>Pump\<close>) and answers for them (\<open>Response\<close>).

  What lies outside the dispatcher, namely the endpoint behind \<open>Handler\<close>, the trigger sources and the
  state the safe-state and access checks look at, is the world, of type \<open>'w\<close>: a handler and a
  trigger pump transform it, the checks read it. The mutex is not modelled: every exported method
  holds it throughout, so methods run one after the other.

  A ticket is reached through \<open>tickets\<close>, a Go map of pointers; looking up an identifier that is
  not there yields \<open>nil\<close>, and using it panics. The operations that walk \<open>order\<close> check this once at
  their start (\<open>held\<close>), as their first loop does in Go; within them a missing ticket is skipped.
  The invariant \<open>wf_dispatcher\<close> shows that this never happens.
\<close>

section \<open>Tickets\<close>

type_synonym TicketID = u64

datatype State = StateQueued | StateStarted | StateExecuting | StateFinalized

record ticket =
  tid :: TicketID
  requester :: StreamID
  original :: Message
  tkind :: RKind
  tstate :: State
  conditional :: Conditional
  innerControl :: ControlFlags
  innerBody :: bytes
  triggerSource :: u16
  executeAtMicros :: u64
  segments :: "ChainedSegment list"
  cancelTxn :: u16
  cancelSeq :: SequencerID
  response :: Message
  terr :: "rcp_error option"

definition newTicket :: "TicketID \<Rightarrow> StreamID \<Rightarrow> Message \<Rightarrow> ticket" where
  "newTicket i rq req = \<lparr>tid = i, requester = rq, original = req, tkind = KindPlain,
     tstate = StateQueued, conditional = zeroConditional, innerControl = 0, innerBody = [],
     triggerSource = 0, executeAtMicros = 0, segments = [], cancelTxn = 0, cancelSeq = 0,
     response = zeroMessage, terr = None\<rparr>"

section \<open>The dispatcher\<close>

type_synonym 'w handler = "'w \<Rightarrow> StreamID \<Rightarrow> Message \<Rightarrow> 'w \<times> Message \<times> rcp_error option"
type_synonym 'w TriggerPump = "'w \<Rightarrow> 'w \<times> int"
type_synonym 'w SafeStateCheck = "'w \<Rightarrow> StreamID \<Rightarrow> bool"
type_synonym 'w AccessCheck = "'w \<Rightarrow> StreamID \<Rightarrow> rcp_error option"

record 'w Dispatcher =
  handler :: "'w handler"
  addr :: u16
  seq :: Sequencer
  access :: "'w AccessCheck option"
  safeState :: "'w SafeStateCheck option"
  pumps :: "u16 \<rightharpoonup> 'w TriggerPump"
  tickets :: "TicketID \<rightharpoonup> ticket"
  order :: "TicketID list"
  nextID :: TicketID

definition NewDispatcher :: "'w handler \<Rightarrow> u16 \<Rightarrow> Sequencer \<Rightarrow> 'w AccessCheck option \<Rightarrow> 'w Dispatcher" where
  "NewDispatcher h a s acc = \<lparr>handler = h, addr = a, seq = s, access = acc, safeState = None,
     pumps = Map.empty, tickets = Map.empty, order = [], nextID = 0\<rparr>"

definition RegisterTriggerSource :: "'w Dispatcher \<Rightarrow> u16 \<Rightarrow> 'w TriggerPump \<Rightarrow> 'w Dispatcher" where
  "RegisterTriggerSource d source pump = d\<lparr>pumps := (pumps d)(source \<mapsto> pump)\<rparr>"

definition SetSafeStateCheck :: "'w Dispatcher \<Rightarrow> 'w SafeStateCheck option \<Rightarrow> 'w Dispatcher" where
  "SetSafeStateCheck d check = d\<lparr>safeState := check\<rparr>"

section \<open>Admission\<close>

definition isConditionalEnvelope :: "Message \<Rightarrow> bool" where
  "isConditionalEnvelope req \<longleftrightarrow> Kind req = KindLong \<and> \<not> MTV req"

definition decodeInto :: "ticket \<Rightarrow> bytes \<Rightarrow> ticket go" where
  "decodeInto t body =
     andThen (PeekKind body) (\<lambda>k.
     (let t = t\<lparr>tkind := k\<rparr> in
      if Base k = KindCompound then
        andThen (DecodeCompound body) (\<lambda>(c, ic, ib).
          Ok (t\<lparr>conditional := c, innerControl := ic, innerBody := ib\<rparr>))
      else if Base k = KindCompoundWait then
        andThen (DecodeCompoundWait body) (\<lambda>c. Ok (t\<lparr>conditional := c\<rparr>))
      else if Base k = KindTriggered then
        andThen (DecodeTriggered body) (\<lambda>(src, ic, ib).
          Ok (t\<lparr>triggerSource := src, innerControl := ic, innerBody := ib\<rparr>))
      else if Base k = KindChained then
        andThen (DecodeChained body) (\<lambda>segs. Ok (t\<lparr>segments := segs\<rparr>))
      else if Base k = KindTimed then
        andThen (DecodeTimed body) (\<lambda>(at, ic, ib).
          Ok (t\<lparr>executeAtMicros := at, innerControl := ic, innerBody := ib\<rparr>))
      else if Base k = KindCancelAll then
        andThen (DecodeCancelAll body) (\<lambda>_. Ok t)
      else if Base k = KindCancelTransaction then
        andThen (DecodeCancelTransaction body) (\<lambda>txn. Ok (t\<lparr>cancelTxn := txn\<rparr>))
      else if Base k = KindCancelSequencer then
        andThen (DecodeCancelSequencer body) (\<lambda>i. Ok (t\<lparr>cancelSeq := i\<rparr>))
      else Err (ERequest ErrInvalidKind)))"

text \<open>An error leaves the dispatcher as it was.\<close>

definition Submit :: "'w Dispatcher \<Rightarrow> 'w \<Rightarrow> StreamID \<Rightarrow> Message \<Rightarrow> ('w Dispatcher \<times> TicketID) go" where
  "Submit d w rq req =
     (case (case access d of None \<Rightarrow> None | Some check \<Rightarrow> check w rq) of
        Some e \<Rightarrow> Err e
      | None \<Rightarrow>
         (let t = newTicket (nextID d) rq req in
          andThen (if \<not> isConditionalEnvelope req
                   then Ok (t\<lparr>tkind := KindPlain, innerControl := Control req, innerBody := Body req\<rparr>)
                   else decodeInto t (Body req)) (\<lambda>t.
          if IsSafety (tkind t) \<and> safeState d = None then Err (ERequest ErrSafeStateNotConfigured)
          else Ok (d\<lparr>nextID := nextID d + 1, tickets := (tickets d)(tid t \<mapsto> t),
                     order := order d @ [tid t]\<rparr>, tid t))))"

section \<open>Execution\<close>

definition innerMessage :: "ticket \<Rightarrow> ControlFlags \<Rightarrow> bytes \<Rightarrow> Message" where
  "innerMessage t control body = zeroMessage\<lparr>
     Kind := Kind (original t), ByteBusID := ByteBusID (original t),
     TransactionNum := TransactionNum (original t), EVT := EVT (original t), Control := control,
     ReadSizeOrSegment := ReadSizeOrSegment (original t), Timestamp := Timestamp (original t),
     Body := body\<rparr>"

definition responseFor :: "ticket \<Rightarrow> bytes \<Rightarrow> Message" where
  "responseFor t body = zeroMessage\<lparr>
     Kind := Kind (original t), ByteBusID := ByteBusID (original t),
     TransactionNum := TransactionNum (original t),
     Control := FlagResponse OR (innerControl t AND (FlagRead OR FlagWrite)),
     Body := body\<rparr>"

text \<open>The loop of \<open>finalizeWhereLocked\<close> over the tickets in order.\<close>

fun finalizeLoop ::
  "rcp_error \<Rightarrow> (ticket \<Rightarrow> bool) \<Rightarrow> TicketID list \<Rightarrow> (TicketID \<rightharpoonup> ticket) \<Rightarrow>
   (TicketID \<rightharpoonup> ticket) \<times> TicketID list" where
  "finalizeLoop finalErr match [] tks = (tks, [])"
| "finalizeLoop finalErr match (i # ids) tks =
     (case tks i of
        None \<Rightarrow> finalizeLoop finalErr match ids tks
      | Some t \<Rightarrow>
          if tstate t = StateFinalized \<or> \<not> match t then finalizeLoop finalErr match ids tks
          else (case finalizeLoop finalErr match ids
                       (tks(i \<mapsto> t\<lparr>tstate := StateFinalized, terr := Some finalErr\<rparr>)) of
                  (tks', cleared) \<Rightarrow> (tks', i # cleared)))"

definition finalizeWhereLocked ::
  "'w Dispatcher \<Rightarrow> rcp_error \<Rightarrow> (ticket \<Rightarrow> bool) \<Rightarrow> 'w Dispatcher \<times> TicketID list" where
  "finalizeWhereLocked d finalErr match =
     (case finalizeLoop finalErr match (order d) (tickets d) of
        (tks, cleared) \<Rightarrow> (d\<lparr>tickets := tks\<rparr>, cleared))"

definition cancelWhereLocked ::
  "'w Dispatcher \<Rightarrow> TicketID \<Rightarrow> (ticket \<Rightarrow> bool) \<Rightarrow> 'w Dispatcher \<times> TicketID list" where
  "cancelWhereLocked d exclude match =
     finalizeWhereLocked d (ERequest ErrTicketCancelled) (\<lambda>other. tid other \<noteq> exclude \<and> match other)"

text \<open>The segments of a chain, up to the first that fails.\<close>

fun runSegments ::
  "'w handler \<Rightarrow> ticket \<Rightarrow> ChainedSegment list \<Rightarrow> 'w \<Rightarrow> 'w \<times> ChainedResponse list \<times> rcp_error option" where
  "runSegments h t [] w = (w, [], None)"
| "runSegments h t (sg # segs) w =
     (case h w (requester t) (innerMessage t (SegControl sg) (SegBody sg)) of
        (w', resp, Some e) \<Rightarrow>
          (w', [\<lparr>RespBody = [], Failed = True\<rparr>], Some (EWrap (ERequest ErrChainedSegmentFailed) (DText e)))
      | (w', resp, None) \<Rightarrow>
          (case runSegments h t segs w' of
             (w'', rs, e) \<Rightarrow> (w'', \<lparr>RespBody = Body resp, Failed = False\<rparr> # rs, e)))"

text \<open>The cancellation kinds; \<open>match\<close> says which other tickets are meant.\<close>

definition executeCancel ::
  "'w Dispatcher \<Rightarrow> 'w \<Rightarrow> ticket \<Rightarrow> (ticket \<Rightarrow> bool) \<Rightarrow> 'w Dispatcher \<times> 'w \<times> ticket \<times> TicketID list" where
  "executeCancel d w t match =
     (case cancelWhereLocked d (tid t) match of
        (d', cancelled) \<Rightarrow>
          (d', w, t\<lparr>response := responseFor t (EncodeCancelResponse (word_of_nat (length cancelled)))\<rparr>,
           cancelled))"

text \<open>\<open>execute\<close> returns the dispatcher, the world, the ticket with its outcome, and the tickets it
  cancelled.\<close>

definition execute ::
  "'w Dispatcher \<Rightarrow> 'w \<Rightarrow> ticket \<Rightarrow> 'w Dispatcher \<times> 'w \<times> ticket \<times> TicketID list" where
  "execute d w t =
     (let k = Base (tkind t); inner = innerMessage t (innerControl t) (innerBody t) in
      if k = KindPlain then
        (case handler d w (requester t) inner of
           (w', resp, e) \<Rightarrow> (d, w', t\<lparr>response := resp, terr := e\<rparr>, []))
      else if k = KindCompound then
        (case evaluate (conditional t) (seq d) of
           (sq, matched, val) \<Rightarrow>
             (let d' = d\<lparr>seq := sq\<rparr>; res = \<lparr>Matched = matched, SequencerValue = val\<rparr> in
              if matched then
                (case handler d w (requester t) inner of
                   (w', resp, Some e) \<Rightarrow> (d', w', t\<lparr>terr := Some e\<rparr>, [])
                 | (w', resp, None) \<Rightarrow>
                     (d', w', t\<lparr>response := responseFor t (EncodeConditionalResponse res (Body resp))\<rparr>, []))
              else (d', w, t\<lparr>response := responseFor t (EncodeConditionalResponse res [])\<rparr>, [])))
      else if k = KindCompoundWait then
        (case evaluate (conditional t) (seq d) of
           (sq, matched, val) \<Rightarrow>
             (d\<lparr>seq := sq\<rparr>, w,
              t\<lparr>response := responseFor t
                 (EncodeConditionalResponse \<lparr>Matched = matched, SequencerValue = val\<rparr> [])\<rparr>, []))
      else if k = KindTriggered \<or> k = KindTimed then
        (case handler d w (requester t) inner of
           (w', resp, e) \<Rightarrow> (d, w', t\<lparr>response := resp, terr := e\<rparr>, []))
      else if k = KindChained then
        (case runSegments (handler d) t (segments t) w of
           (w', rs, e) \<Rightarrow>
             (d, w', t\<lparr>response := responseFor t
                  (EncodeChainedResponse \<lparr>Responses = rs, Total = length (segments t)\<rparr>),
                terr := (case e of None \<Rightarrow> terr t | Some e' \<Rightarrow> Some e')\<rparr>, []))
      else if k = KindCancelAll then executeCancel d w t (\<lambda>_. True)
      else if k = KindCancelTransaction then
        executeCancel d w t (\<lambda>other. TransactionNum (original other) = cancelTxn t)
      else if k = KindCancelSequencer then
        executeCancel d w t (\<lambda>other.
          (tkind other = KindCompound \<or> tkind other = KindCompoundWait) \<and>
          CSequencer (conditional other) = cancelSeq t)
      else (d, w, t\<lparr>terr := Some (ERequest ErrInvalidKind)\<rparr>, []))"

section \<open>Pumping\<close>

definition held :: "'w Dispatcher \<Rightarrow> bool" where
  "held d = list_all (\<lambda>i. tickets d i \<noteq> None) (order d)"

definition startQueued :: "'w Dispatcher \<Rightarrow> 'w Dispatcher" where
  "startQueued d = d\<lparr>tickets := (\<lambda>i. if i \<in> set (order d)
     then map_option (\<lambda>t. if tstate t = StateQueued then t\<lparr>tstate := StateStarted\<rparr> else t) (tickets d i)
     else tickets d i)\<rparr>"

text \<open>Each trigger source that a started ticket waits for is asked once.\<close>

fun askTriggers ::
  "'w Dispatcher \<Rightarrow> TicketID list \<Rightarrow> (u16 \<rightharpoonup> int) \<Rightarrow> 'w \<Rightarrow> (u16 \<rightharpoonup> int) \<times> 'w" where
  "askTriggers d [] available w = (available, w)"
| "askTriggers d (i # ids) available w =
     (case tickets d i of
        None \<Rightarrow> askTriggers d ids available w
      | Some t \<Rightarrow>
          if tstate t \<noteq> StateStarted \<or> Base (tkind t) \<noteq> KindTriggered \<or> available (triggerSource t) \<noteq> None
          then askTriggers d ids available w
          else (case pumps d (triggerSource t) of
                  Some pump \<Rightarrow> (case pump w of (w', n) \<Rightarrow>
                     askTriggers d ids (available(triggerSource t \<mapsto> n)) w')
                | None \<Rightarrow> askTriggers d ids (available(triggerSource t \<mapsto> 0)) w))"

definition safeStateReadyLocked :: "'w Dispatcher \<Rightarrow> 'w \<Rightarrow> StreamID \<Rightarrow> bool" where
  "safeStateReadyLocked d w rq = (case safeState d of None \<Rightarrow> False | Some check \<Rightarrow> check w rq)"

fun collectReady ::
  "'w Dispatcher \<Rightarrow> 'w \<Rightarrow> u64 \<Rightarrow> TicketID list \<Rightarrow> (u16 \<rightharpoonup> int) \<Rightarrow> TicketID list" where
  "collectReady d w now [] available = []"
| "collectReady d w now (i # ids) available =
     (case tickets d i of
        None \<Rightarrow> collectReady d w now ids available
      | Some t \<Rightarrow>
          if tstate t \<noteq> StateStarted then collectReady d w now ids available
          else if IsSafety (tkind t) \<and> \<not> safeStateReadyLocked d w (requester t)
          then collectReady d w now ids available
          else if Base (tkind t) = KindTriggered then
            (let n = (case available (triggerSource t) of None \<Rightarrow> 0 | Some n \<Rightarrow> n) in
             if n > 0 then i # collectReady d w now ids (available(triggerSource t \<mapsto> n - 1))
             else collectReady d w now ids available)
          else if Base (tkind t) = KindTimed then
            (if now \<ge> executeAtMicros t then i # collectReady d w now ids available
             else collectReady d w now ids available)
          else i # collectReady d w now ids available)"

definition rank :: "'w Dispatcher \<Rightarrow> TicketID \<Rightarrow> nat" where
  "rank d i = (case tickets d i of None \<Rightarrow> 0 | Some t \<Rightarrow> Priority (tkind t))"

fun executeReady :: "TicketID list \<Rightarrow> 'w Dispatcher \<Rightarrow> 'w \<Rightarrow> 'w Dispatcher \<times> 'w \<times> TicketID list" where
  "executeReady [] d w = (d, w, [])"
| "executeReady (i # ids) d w =
     (case tickets d i of
        None \<Rightarrow> executeReady ids d w
      | Some t \<Rightarrow>
          if tstate t = StateFinalized then executeReady ids d w
          else
            (let t1 = t\<lparr>tstate := StateExecuting\<rparr> in
             case execute (d\<lparr>tickets := (tickets d)(i \<mapsto> t1)\<rparr>) w t1 of
               (d2, w2, t2, cancelled) \<Rightarrow>
                 (case executeReady ids
                        (d2\<lparr>tickets := (tickets d2)(i \<mapsto> t2\<lparr>tstate := StateFinalized\<rparr>)\<rparr>) w2 of
                    (d3, w3, finalized) \<Rightarrow> (d3, w3, i # cancelled @ finalized))))"

definition Pump :: "'w Dispatcher \<Rightarrow> 'w \<Rightarrow> u64 \<Rightarrow> ('w Dispatcher \<times> 'w \<times> TicketID list) go" where
  "Pump d w now =
     (if \<not> held d then Panic
      else
        (let d1 = startQueued d in
         case askTriggers d1 (order d1) Map.empty w of
           (available, w1) \<Rightarrow>
             (let ready = collectReady d1 w1 now (order d1) available in
              Ok (executeReady (sort_key (rank d1) ready) d1 w1))))"

section \<open>Answers and housekeeping\<close>

definition Response :: "'w Dispatcher \<Rightarrow> TicketID \<Rightarrow> Message \<times> rcp_error option" where
  "Response d i =
     (case tickets d i of
        None \<Rightarrow> (zeroMessage, Some (ERequest ErrUnknownTicket))
      | Some t \<Rightarrow> if tstate t \<noteq> StateFinalized then (zeroMessage, Some (ERequest ErrPending))
                 else (response t, terr t))"

definition StateOf :: "'w Dispatcher \<Rightarrow> TicketID \<Rightarrow> State \<times> bool" where
  "StateOf d i = (case tickets d i of None \<Rightarrow> (StateQueued, False) | Some t \<Rightarrow> (tstate t, True))"

text \<open>The result is the response with Go's \<open>error\<close>; \<open>err == ErrPending\<close> compares the sentinel itself.\<close>

definition Dispatch ::
  "'w Dispatcher \<Rightarrow> 'w \<Rightarrow> StreamID \<Rightarrow> Message \<Rightarrow> u64 \<Rightarrow>
   ('w Dispatcher \<times> 'w \<times> Message \<times> rcp_error option) go" where
  "Dispatch d w rq req now =
     (case Submit d w rq req of
        Err e \<Rightarrow> Ok (d, w, zeroMessage, Some e)
      | Panic \<Rightarrow> Panic
      | Ok (d1, i) \<Rightarrow>
          andThen (Pump d1 w now) (\<lambda>(d2, w2, _).
            (case Response d2 i of
               (resp, e) \<Rightarrow>
                 if e = Some (ERequest ErrPending)
                 then Ok (d2, w2, zeroMessage, Some (EWrap (ERequest ErrPending) (DTicket i)))
                 else Ok (d2, w2, resp, e))))"

definition Forget :: "'w Dispatcher \<Rightarrow> TicketID \<Rightarrow> 'w Dispatcher" where
  "Forget d i =
     (case tickets d i of
        None \<Rightarrow> d
      | Some t \<Rightarrow>
          if tstate t \<noteq> StateFinalized then d
          else d\<lparr>tickets := (tickets d)(i := None), order := remove1 i (order d)\<rparr>)"

definition Pending :: "'w Dispatcher \<Rightarrow> nat go" where
  "Pending d =
     (if \<not> held d then Panic
      else Ok (length (filter (\<lambda>i. case tickets d i of
              None \<Rightarrow> False | Some t \<Rightarrow> tstate t \<noteq> StateFinalized) (order d))))"

definition PurgeNonSafety :: "'w Dispatcher \<Rightarrow> ('w Dispatcher \<times> TicketID list) go" where
  "PurgeNonSafety d =
     (if \<not> held d then Panic
      else Ok (finalizeWhereLocked d (ERequest ErrPurgedByWatchdog) (\<lambda>t. \<not> IsSafety (tkind t))))"

end
