(* ===== verification/Dispatcher_Lemmas.thy ===== *)
theory Dispatcher_Lemmas
  imports Request_Dispatcher
begin

text \<open>
  How the operations of the dispatcher change its tickets: what finalizing, executing one ticket
  and executing the ready tickets do to each ticket. \<open>evolves\<close> collects what they have in
  common, namely that tickets keep their request and a finalized ticket never changes.
\<close>

section \<open>How tickets evolve\<close>

definition same_request :: "ticket \<Rightarrow> ticket \<Rightarrow> bool" where
  "same_request t t' \<longleftrightarrow> t' = t\<lparr>tstate := tstate t', response := response t', terr := terr t'\<rparr>"

definition evolves_ticket :: "ticket option \<Rightarrow> ticket option \<Rightarrow> bool" where
  "evolves_ticket x y = (case x of None \<Rightarrow> y = None
     | Some t \<Rightarrow> (\<exists>t'. y = Some t' \<and> same_request t t' \<and> (tstate t = StateFinalized \<longrightarrow> t' = t)))"

definition same_setup :: "'w Dispatcher \<Rightarrow> 'w Dispatcher \<Rightarrow> bool" where
  "same_setup d d' \<longleftrightarrow> d' = d\<lparr>seq := seq d', tickets := tickets d'\<rparr>"

definition evolves :: "'w Dispatcher \<Rightarrow> 'w Dispatcher \<Rightarrow> bool" where
  "evolves d d' \<longleftrightarrow> same_setup d d' \<and> (\<forall>i. evolves_ticket (tickets d i) (tickets d' i))"

lemma same_request_refl [simp]: "same_request t t"
  by (simp add: same_request_def)

lemma same_request_trans: "same_request a b \<Longrightarrow> same_request b c \<Longrightarrow> same_request a c"
  unfolding same_request_def by (cases a, cases b, cases c) simp

lemma same_request_fields:
  assumes "same_request t t'"
  shows "tid t' = tid t" "tkind t' = tkind t" "requester t' = requester t" "original t' = original t"
    "triggerSource t' = triggerSource t" "executeAtMicros t' = executeAtMicros t"
    "conditional t' = conditional t"
  using assms unfolding same_request_def by (cases t, cases t', simp)+

lemma evolves_ticket_refl [simp]: "evolves_ticket x x"
  by (auto simp: evolves_ticket_def split: option.splits)

lemma evolves_ticket_trans: "evolves_ticket x y \<Longrightarrow> evolves_ticket y z \<Longrightarrow> evolves_ticket x z"
  by (auto simp: evolves_ticket_def split: option.splits dest: same_request_trans)

lemma same_setup_refl [simp]: "same_setup d d"
  by (simp add: same_setup_def)

lemma same_setup_trans: "same_setup a b \<Longrightarrow> same_setup b c \<Longrightarrow> same_setup a c"
  unfolding same_setup_def by (cases a, cases b, cases c) simp

lemma same_setup_fields:
  assumes "same_setup d d'"
  shows "order d' = order d" "nextID d' = nextID d" "handler d' = handler d" "access d' = access d"
    "safeState d' = safeState d" "pumps d' = pumps d" "addr d' = addr d"
  using assms unfolding same_setup_def by (cases d, cases d', simp)+

lemma evolves_refl [simp]: "evolves d d"
  by (simp add: evolves_def)

lemma evolves_trans: "evolves a b \<Longrightarrow> evolves b c \<Longrightarrow> evolves a c"
  by (meson evolves_def evolves_ticket_trans same_setup_trans)

section \<open>Finalizing\<close>

lemma finalizeLoop_spec:
  assumes "finalizeLoop e match ids tks = (tks', cleared)"
  shows "set cleared = {i \<in> set ids. \<exists>t. tks i = Some t \<and> tstate t \<noteq> StateFinalized \<and> match t} \<and>
    distinct cleared \<and>
    (\<forall>i. tks' i = (if i \<in> set cleared
       then map_option (\<lambda>t. t\<lparr>tstate := StateFinalized, terr := Some e\<rparr>) (tks i) else tks i))"
  using assms
proof (induction ids arbitrary: tks tks' cleared)
  case Nil
  then show ?case by simp
next
  case (Cons i ids)
  show ?case
  proof (cases "\<exists>t. tks i = Some t \<and> tstate t \<noteq> StateFinalized \<and> match t")
    case True
    then obtain t where t: "tks i = Some t" "tstate t \<noteq> StateFinalized" "match t" by blast
    let ?t = "t\<lparr>tstate := StateFinalized, terr := Some e\<rparr>"
    obtain cl where rec: "finalizeLoop e match ids (tks(i \<mapsto> ?t)) = (tks', cl)" and cl: "cleared = i # cl"
      using Cons.prems t by (auto split: prod.splits)
    from Cons.IH [OF rec] show ?thesis
      using t cl by (auto split: if_splits)
  next
    case False
    then have "finalizeLoop e match ids tks = (tks', cleared)"
      using Cons.prems by (auto split: option.splits if_splits)
    from Cons.IH [OF this] show ?thesis
      using False by auto
  qed
qed

definition finalizedWith :: "rcp_error \<Rightarrow> ticket \<Rightarrow> ticket" where
  "finalizedWith e t = t\<lparr>tstate := StateFinalized, terr := Some e\<rparr>"

lemma finalizedWith_simps [simp]:
  "tstate (finalizedWith e t) = StateFinalized" "terr (finalizedWith e t) = Some e"
  "same_request t (finalizedWith e t)" "tid (finalizedWith e t) = tid t" "tkind (finalizedWith e t) = tkind t"
  by (simp_all add: finalizedWith_def same_request_def)

definition finalizeIn :: "rcp_error \<Rightarrow> TicketID set \<Rightarrow> (TicketID \<rightharpoonup> ticket) \<Rightarrow> (TicketID \<rightharpoonup> ticket)" where
  "finalizeIn e I tks = (\<lambda>i. if i \<in> I then map_option (finalizedWith e) (tks i) else tks i)"

lemma finalizeIn_empty [simp]: "finalizeIn e {} tks = tks"
  by (simp add: finalizeIn_def)

lemma finalizeWhereLocked_spec:
  assumes "finalizeWhereLocked d e match = (d', cleared)"
  shows "d' = d\<lparr>tickets := finalizeIn e (set cleared) (tickets d)\<rparr> \<and> distinct cleared \<and>
    set cleared = {i \<in> set (order d). \<exists>t. tickets d i = Some t \<and> tstate t \<noteq> StateFinalized \<and> match t}"
proof -
  obtain tks where l: "finalizeLoop e match (order d) (tickets d) = (tks, cleared)"
    and d': "d' = d\<lparr>tickets := tks\<rparr>"
    using assms by (auto simp: finalizeWhereLocked_def split: prod.splits)
  have "\<forall>i. tks i = (if i \<in> set cleared
       then map_option (\<lambda>t. t\<lparr>tstate := StateFinalized, terr := Some e\<rparr>) (tickets d i) else tickets d i)"
    using finalizeLoop_spec [OF l] by blast
  then have "tks = finalizeIn e (set cleared) (tickets d)"
    by (intro ext) (simp add: finalizeIn_def finalizedWith_def [abs_def])
  then show ?thesis using finalizeLoop_spec [OF l] d' by blast
qed

lemma evolves_finalizeIn:
  assumes "\<forall>i\<in>I. \<forall>t. tickets d i = Some t \<longrightarrow> tstate t \<noteq> StateFinalized"
  shows "evolves d (d\<lparr>tickets := finalizeIn e I (tickets d)\<rparr>)"
  using assms by (auto simp: evolves_def same_setup_def finalizeIn_def evolves_ticket_def split: option.splits)

section \<open>Executing one ticket\<close>

lemma executeCancel_spec:
  assumes "executeCancel d w t match = (d', w', t', cancelled)"
  shows "d' = d\<lparr>tickets := finalizeIn (ERequest ErrTicketCancelled) (set cancelled) (tickets d)\<rparr> \<and>
    w' = w \<and> same_request t t' \<and> distinct cancelled \<and>
    set cancelled = {i \<in> set (order d). \<exists>u. tickets d i = Some u \<and> tstate u \<noteq> StateFinalized \<and>
      tid u \<noteq> tid t \<and> match u}"
  using assms finalizeWhereLocked_spec [of d "ERequest ErrTicketCancelled"
      "\<lambda>other. tid other \<noteq> tid t \<and> match other"]
  by (auto simp: executeCancel_def cancelWhereLocked_def same_request_def split: prod.splits)

lemma execute_spec:
  assumes "execute d w t = (d', w', t', cancelled)"
  shows "d' = d\<lparr>seq := seq d', tickets := finalizeIn (ERequest ErrTicketCancelled) (set cancelled) (tickets d)\<rparr> \<and>
    same_request t t' \<and> distinct cancelled \<and>
    (\<forall>i \<in> set cancelled. i \<in> set (order d) \<and>
       (\<exists>u. tickets d i = Some u \<and> tstate u \<noteq> StateFinalized \<and> tid u \<noteq> tid t))"
proof (cases "IsCancellation (Base (tkind t))")
  case True
  then obtain match where "executeCancel d w t match = (d', w', t', cancelled)"
    using assms by (auto simp: execute_def Let_def IsCancellation_def rkind_defs split: if_splits)
  from executeCancel_spec [OF this] show ?thesis by auto
next
  case False
  have nocancel: "cancelled = [] \<and> d' = d\<lparr>seq := seq d'\<rparr> \<and> same_request t t'"
    using assms False
    by (auto simp: execute_def Let_def IsCancellation_def same_request_def
        split: if_splits prod.splits option.splits)
  then have "d' = d\<lparr>seq := seq d', tickets := tickets d\<rparr>" by (cases d, cases d') simp
  with nocancel show ?thesis by simp
qed

section \<open>Executing the tickets that are ready\<close>

definition keyed :: "'w Dispatcher \<Rightarrow> bool" where
  "keyed d \<longleftrightarrow> (\<forall>i t. tickets d i = Some t \<longrightarrow> tid t = i)"

lemma evolves_keyed: "evolves d d' \<Longrightarrow> keyed d \<Longrightarrow> keyed d'"
  unfolding keyed_def
proof (intro allI impI)
  fix i t' assume e: "evolves d d'" and k: "\<forall>i t. tickets d i = Some t \<longrightarrow> tid t = i" and t': "tickets d' i = Some t'"
  have "evolves_ticket (tickets d i) (Some t')" using e t' unfolding evolves_def by metis
  then show "tid t' = i"
    using k by (auto simp: evolves_ticket_def same_request_fields split: option.splits)
qed

definition runTicket :: "'w Dispatcher \<Rightarrow> 'w \<Rightarrow> TicketID \<Rightarrow> ticket \<Rightarrow> 'w Dispatcher \<times> 'w \<times> TicketID list" where
  "runTicket d w i t =
     (let t1 = t\<lparr>tstate := StateExecuting\<rparr> in
      case execute (d\<lparr>tickets := (tickets d)(i \<mapsto> t1)\<rparr>) w t1 of
        (d2, w2, t2, cancelled) \<Rightarrow>
          (d2\<lparr>tickets := (tickets d2)(i \<mapsto> t2\<lparr>tstate := StateFinalized\<rparr>)\<rparr>, w2, cancelled))"

lemma executeReady_run:
  "tickets d i = Some t \<Longrightarrow> tstate t \<noteq> StateFinalized \<Longrightarrow>
   executeReady (i # ids) d w =
     (case runTicket d w i t of (d1, w1, cancelled) \<Rightarrow>
        (case executeReady ids d1 w1 of (d2, w2, fin) \<Rightarrow> (d2, w2, i # cancelled @ fin)))"
  by (simp add: runTicket_def Let_def split: prod.splits)

lemma executeReady_skip:
  "tickets d i = None \<or> (\<exists>t. tickets d i = Some t \<and> tstate t = StateFinalized) \<Longrightarrow>
   executeReady (i # ids) d w = executeReady ids d w"
  by (auto split: option.splits)

declare executeReady.simps(2) [simp del]

lemma runTicket_spec:
  assumes run: "runTicket d w i t = (d', w', cancelled)"
    and t: "tickets d i = Some t" "tstate t \<noteq> StateFinalized" "keyed d"
  shows "evolves d d'" "i \<notin> set cancelled" "distinct cancelled"
    "\<exists>t'. tickets d' i = Some t' \<and> tstate t' = StateFinalized"
    "\<And>j. j \<noteq> i \<Longrightarrow> tickets d' j = finalizeIn (ERequest ErrTicketCancelled) (set cancelled) (tickets d) j"
    "\<And>j. j \<in> set cancelled \<Longrightarrow> \<exists>u. tickets d j = Some u \<and> tstate u \<noteq> StateFinalized"
proof -
  let ?t1 = "t\<lparr>tstate := StateExecuting\<rparr>"
  obtain d2 t2 where ex: "execute (d\<lparr>tickets := (tickets d)(i \<mapsto> ?t1)\<rparr>) w ?t1 = (d2, w', t2, cancelled)"
    and d': "d' = d2\<lparr>tickets := (tickets d2)(i \<mapsto> t2\<lparr>tstate := StateFinalized\<rparr>)\<rparr>"
    using run by (auto simp: runTicket_def Let_def split: prod.splits)
  note s = execute_spec [OF ex]
  have d2: "d2 = d\<lparr>seq := seq d2, tickets := finalizeIn (ERequest ErrTicketCancelled) (set cancelled)
      ((tickets d)(i \<mapsto> ?t1))\<rparr>"
    using s by simp
  have others: "\<exists>u. tickets d j = Some u \<and> tstate u \<noteq> StateFinalized \<and> j \<noteq> i" if "j \<in> set cancelled" for j
    using s that t(3) by (auto simp: keyed_def split: if_splits)
  then show i: "i \<notin> set cancelled" "\<And>j. j \<in> set cancelled \<Longrightarrow> \<exists>u. tickets d j = Some u \<and> tstate u \<noteq> StateFinalized"
    by blast+
  show "distinct cancelled" using s by blast
  have d'': "d' = d\<lparr>seq := seq d2, tickets := (finalizeIn (ERequest ErrTicketCancelled) (set cancelled)
      (tickets d))(i \<mapsto> t2\<lparr>tstate := StateFinalized\<rparr>)\<rparr>"
    unfolding d' by (subst (1 2) d2) (auto simp: finalizeIn_def fun_eq_iff)
  show "\<exists>t'. tickets d' i = Some t' \<and> tstate t' = StateFinalized"
    by (simp add: d'')
  show "tickets d' j = finalizeIn (ERequest ErrTicketCancelled) (set cancelled) (tickets d) j" if "j \<noteq> i" for j
    using that by (simp add: d'')
  have "same_request t (t2\<lparr>tstate := StateFinalized\<rparr>)"
    using s by (cases t, cases t2) (simp add: same_request_def)
  then show "evolves d d'"
    using t others by (fastforce simp: d'' evolves_def same_setup_def evolves_ticket_def finalizeIn_def split: option.splits)
qed

lemma executeReady_induct [consumes 2, case_names nil skip run]:
  assumes "executeReady ids d w = (d', w', fin)" "keyed d"
    and "\<And>d w. P [] d w d w []"
    and "\<And>i ids d w d' w' fin. tickets d i = None \<or> (\<exists>t. tickets d i = Some t \<and> tstate t = StateFinalized) \<Longrightarrow>
      executeReady ids d w = (d', w', fin) \<Longrightarrow> keyed d \<Longrightarrow> P ids d w d' w' fin \<Longrightarrow> P (i # ids) d w d' w' fin"
    and "\<And>i ids d w t d1 w1 c d' w' fin. tickets d i = Some t \<Longrightarrow> tstate t \<noteq> StateFinalized \<Longrightarrow>
      runTicket d w i t = (d1, w1, c) \<Longrightarrow> executeReady ids d1 w1 = (d', w', fin) \<Longrightarrow> keyed d \<Longrightarrow>
      P ids d1 w1 d' w' fin \<Longrightarrow> P (i # ids) d w d' w' (i # c @ fin)"
  shows "P ids d w d' w' fin"
  using assms(1,2)
proof (induction ids arbitrary: d w fin)
  case Nil
  then show ?case using assms(3) by simp
next
  case (Cons i ids)
  show ?case
  proof (cases "\<exists>t. tickets d i = Some t \<and> tstate t \<noteq> StateFinalized")
    case True
    then obtain t where t: "tickets d i = Some t" "tstate t \<noteq> StateFinalized" by blast
    obtain d1 w1 c where run: "runTicket d w i t = (d1, w1, c)" by (cases "runTicket d w i t")
    obtain fin' where "executeReady ids d1 w1 = (d', w', fin')" and fin: "fin = i # c @ fin'"
      using Cons.prems(1) unfolding executeReady_run [OF t] run by (auto split: prod.splits)
    moreover have "keyed d1"
      using runTicket_spec(1) [OF run t] Cons.prems(2) evolves_keyed by blast
    ultimately show ?thesis
      unfolding fin using Cons.IH Cons.prems(2) assms(5) [OF t run] by blast
  next
    case False
    then have skip: "tickets d i = None \<or> (\<exists>t. tickets d i = Some t \<and> tstate t = StateFinalized)"
      by (cases "tickets d i") auto
    then show ?thesis
      using Cons assms(4) [OF skip] executeReady_skip [OF skip] by metis
  qed
qed

lemma executeReady_evolves:
  "executeReady ids d w = (d', w', fin) \<Longrightarrow> keyed d \<Longrightarrow> evolves d d'"
proof (induction rule: executeReady_induct)
  case (run i ids d w t d1 w1 c d' w' fin)
  then show ?case using runTicket_spec(1) [OF run(3,1,2,5)] evolves_trans by blast
qed simp_all

lemma evolvesD:
  assumes "evolves d d'" "tickets d i = Some t"
  obtains t' where "tickets d' i = Some t'" "same_request t t'" "tstate t = StateFinalized \<Longrightarrow> t' = t"
proof -
  have "evolves_ticket (Some t) (tickets d' i)" using assms unfolding evolves_def by metis
  then show ?thesis using that by (auto simp: evolves_ticket_def)
qed

lemma evolves_None: "evolves d d' \<Longrightarrow> tickets d' i = None \<longleftrightarrow> tickets d i = None"
proof (cases "tickets d i")
  case None
  moreover assume "evolves d d'"
  ultimately have "evolves_ticket None (tickets d' i)" unfolding evolves_def by metis
  then show ?thesis using None by (simp add: evolves_ticket_def)
qed (auto elim: evolvesD)

text \<open>Every ticket that was ready ends finalized.\<close>

lemma executeReady_finalizes:
  assumes "executeReady ids d w = (d', w', fin)" "keyed d" "i \<in> set ids" "tickets d i \<noteq> None"
  shows "\<exists>t. tickets d' i = Some t \<and> tstate t = StateFinalized"
  using assms
proof (induction rule: executeReady_induct)
  case (skip j ids d w d' w' fin)
  show ?case
  proof (cases "i = j")
    case True
    then obtain t where "tickets d i = Some t" "tstate t = StateFinalized" using skip by auto
    then show ?thesis using executeReady_evolves [OF skip(2,3)] evolvesD by metis
  qed (use skip in auto)
next
  case (run j ids d w t d1 w1 c d' w' fin)
  note s = runTicket_spec [OF run(3,1,2,5)]
  show ?case
  proof (cases "i = j")
    case True
    then obtain t1 where "tickets d1 i = Some t1" "tstate t1 = StateFinalized" using s(4) by blast
    then show ?thesis
      using executeReady_evolves [OF run(4)] evolves_keyed [OF s(1) run(5)] evolvesD by metis
  next
    case False
    then show ?thesis using run evolves_None [OF s(1)] by simp
  qed
qed simp

text \<open>A ticket that was not ready is left alone or cancelled.\<close>

lemma executeReady_others:
  assumes "executeReady ids d w = (d', w', fin)" "keyed d" "i \<notin> set ids" "tickets d i = Some t"
  shows "tickets d' i = Some t \<or>
    tstate t \<noteq> StateFinalized \<and> tickets d' i = Some (finalizedWith (ERequest ErrTicketCancelled) t)"
  using assms
proof (induction rule: executeReady_induct)
  case (run j ids d w u d1 w1 c d' w' fin)
  note s = runTicket_spec [OF run(3,1,2,5)]
  have ij: "i \<noteq> j" using run by simp
  show ?case
  proof (cases "i \<in> set c")
    case True
    then have t1: "tickets d1 i = Some (finalizedWith (ERequest ErrTicketCancelled) t)" and "tstate t \<noteq> StateFinalized"
      using s(5) [OF ij] s(6) [OF True] run(8) by (auto simp: finalizeIn_def)
    then show ?thesis
      using executeReady_evolves [OF run(4)] evolves_keyed [OF s(1) run(5)] evolvesD
      by (metis finalizedWith_simps(1))
  next
    case False
    then have "tickets d1 i = Some t" using s(5) [OF ij] run(8) by (simp add: finalizeIn_def)
    then show ?thesis using run by simp
  qed
qed simp_all

text \<open>The result lists exactly the tickets that were finalized, once each.\<close>

definition newlyFinal :: "'w Dispatcher \<Rightarrow> 'w Dispatcher \<Rightarrow> TicketID set" where
  "newlyFinal d d' = {i. \<exists>t t'. tickets d i = Some t \<and> tstate t \<noteq> StateFinalized \<and>
      tickets d' i = Some t' \<and> tstate t' = StateFinalized}"

lemma newlyFinal_trans:
  assumes "evolves a b" "evolves b c"
  shows "newlyFinal a c = newlyFinal a b \<union> newlyFinal b c \<and> newlyFinal a b \<inter> newlyFinal b c = {}"
proof -
  have "\<exists>u. tickets b i = Some u \<and> (tstate t = StateFinalized \<longrightarrow> tstate u = StateFinalized)"
    if "tickets a i = Some t" for i t using evolvesD [OF assms(1) that] by metis
  moreover have "tickets a i \<noteq> None" if "tickets b i = Some u" for i u
    using evolves_None [OF assms(1), of i] that by simp
  moreover have "\<exists>v. tickets c i = Some v \<and> (tstate u = StateFinalized \<longrightarrow> tstate v = StateFinalized)"
    if "tickets b i = Some u" for i u using evolvesD [OF assms(2) that] by metis
  ultimately show ?thesis
    unfolding newlyFinal_def by fastforce
qed

lemma executeReady_result:
  assumes "executeReady ids d w = (d', w', fin)" "keyed d"
  shows "set fin = newlyFinal d d' \<and> distinct fin"
  using assms
proof (induction rule: executeReady_induct)
  case (run j ids d w t d1 w1 c d' w' fin)
  note s = runTicket_spec [OF run(3,1,2,5)]
  have "newlyFinal d d1 = insert j (set c)"
  proof (rule set_eqI)
    fix k
    show "k \<in> newlyFinal d d1 \<longleftrightarrow> k \<in> insert j (set c)"
    proof (cases "k = j")
      case True
      then show ?thesis using s(4) run(1,2) by (auto simp: newlyFinal_def)
    next
      case False
      then show ?thesis using s(5) [OF False] s(6) [of k] by (auto simp: newlyFinal_def finalizeIn_def)
    qed
  qed
  moreover have "evolves d1 d'"
    using executeReady_evolves [OF run(4)] evolves_keyed [OF s(1) run(5)] by blast
  note newlyFinal_trans [OF s(1) this]
  moreover have "set fin = newlyFinal d1 d'" "distinct fin"
    using run(6) evolves_keyed [OF s(1) run(5)] by simp_all
  ultimately have "set (j # c @ fin) = newlyFinal d d'" "insert j (set c) \<inter> set fin = {}"
    by simp_all
  then show ?case
    using s(2,3) \<open>distinct fin\<close> by auto
qed (auto simp: newlyFinal_def)

end
