(* ===== verification/Dispatcher_Machine.thy ===== *)
theory Dispatcher_Machine
  imports Dispatcher_Lemmas
begin

text \<open>
  The dispatcher as a state machine: the invariant of its tickets, the step relation of its
  exported operations, reachable states, and the properties of the request life cycle.
\<close>

section \<open>Well-formed dispatchers\<close>

definition wf_dispatcher :: "'w Dispatcher \<Rightarrow> bool" where
  "wf_dispatcher d \<longleftrightarrow> distinct (order d) \<and> set (order d) = dom (tickets d) \<and> keyed d \<and>
     (\<forall>i \<in> dom (tickets d). i < nextID d) \<and>
     (\<forall>t \<in> ran (tickets d). tkind t = KindPlain \<or> Kind_Valid (tkind t))"

lemma wf_held: "wf_dispatcher d \<Longrightarrow> held d"
  by (auto simp: wf_dispatcher_def held_def list_all_iff)

lemma evolves_dom: "evolves d d' \<Longrightarrow> dom (tickets d') = dom (tickets d)"
  by (simp add: dom_def evolves_None)

lemma evolves_wf:
  assumes "evolves d d'" "wf_dispatcher d"
  shows "wf_dispatcher d'"
proof -
  have "tkind t' = KindPlain \<or> Kind_Valid (tkind t')" if t': "tickets d' i = Some t'" for i t'
  proof -
    obtain t where t: "tickets d i = Some t"
      using evolves_None [OF assms(1), of i] t' by (cases "tickets d i") auto
    then have "tkind t' = tkind t" using evolvesD [OF assms(1) t] t' same_request_fields(2) by (metis option.inject)
    then show ?thesis using assms(2) t by (auto simp: wf_dispatcher_def ran_def)
  qed
  moreover have "same_setup d d'" using assms(1) by (simp add: evolves_def)
  ultimately show ?thesis
    using assms evolves_keyed [OF assms(1)] evolves_dom [OF assms(1)]
    by (auto simp: wf_dispatcher_def same_setup_fields ran_def)
qed

lemma decodeInto_Ok:
  assumes "decodeInto t body = Ok t'"
  shows "tid t' = tid t \<and> tstate t' = tstate t \<and> requester t' = requester t \<and> original t' = original t \<and>
    terr t' = terr t \<and> response t' = response t \<and> Kind_Valid (tkind t')"
proof -
  obtain k where k: "PeekKind body = Ok k" using assms by (auto simp: decodeInto_def andThen_eq_Ok_iff)
  then have "Kind_Valid k" by (auto simp: PeekKind_def wire_simps split: if_splits)
  then show ?thesis
    using assms k
    by (auto simp: decodeInto_def Let_def andThen_eq_Ok_iff split: if_splits prod.splits)
qed

lemma decodeInto_no_panic: "decodeInto t body \<noteq> Panic"
proof -
  have "PeekKind body \<noteq> Panic" by (auto simp: PeekKind_def wire_simps)
  then show ?thesis
    by (auto simp: decodeInto_def Let_def andThen_eq_Panic_iff compound_codec.dec_no_panic
        compound_wait_codec.dec_no_panic triggered_codec.dec_no_panic DecodeChained_no_panic
        timed_codec.dec_no_panic cancel_all_codec.dec_no_panic cancel_transaction_codec.dec_no_panic
        cancel_sequencer_codec.dec_no_panic split: prod.splits)
qed

lemma Submit_Ok:
  assumes "Submit d w rq req = Ok (d', i)"
  obtains t where "i = nextID d" "tid t = i" "tstate t = StateQueued" "requester t = rq" "original t = req"
    "terr t = None" "tkind t = KindPlain \<or> Kind_Valid (tkind t)" "IsSafety (tkind t) \<longrightarrow> safeState d \<noteq> None"
    "tkind t = KindPlain \<longleftrightarrow> \<not> isConditionalEnvelope req"
    "\<not> isConditionalEnvelope req \<longrightarrow> innerControl t = Control req \<and> innerBody t = Body req"
    "d' = d\<lparr>nextID := nextID d + 1, tickets := (tickets d)(i \<mapsto> t), order := order d @ [i]\<rparr>"
proof -
  have plain_not_valid: "\<not> Kind_Valid KindPlain" by (simp add: Kind_Valid_def IsSafety_def rkind_defs)
  let ?t0 = "newTicket (nextID d) rq req"
  let ?r = "if \<not> isConditionalEnvelope req
      then Ok (?t0\<lparr>tkind := KindPlain, innerControl := Control req, innerBody := Body req\<rparr>)
      else decodeInto ?t0 (Body req)"
  let ?k = "\<lambda>t. if IsSafety (tkind t) \<and> safeState d = None then Err (ERequest ErrSafeStateNotConfigured)
      else Ok (d\<lparr>nextID := nextID d + 1, tickets := (tickets d)(tid t \<mapsto> t), order := order d @ [tid t]\<rparr>, tid t)"
  have "andThen ?r ?k = Ok (d', i)"
    using assms by (auto simp: Submit_def Let_def split: option.splits split del: if_split)
  then obtain t where t: "?r = Ok t" and k: "?k t = Ok (d', i)"
    unfolding andThen_eq_Ok_iff by blast
  from k have safe: "\<not> (IsSafety (tkind t) \<and> safeState d = None)"
    and d': "d' = d\<lparr>nextID := nextID d + 1, tickets := (tickets d)(tid t \<mapsto> t), order := order d @ [tid t]\<rparr>" "i = tid t"
    by (auto split: if_splits)
  show ?thesis
  proof (cases "isConditionalEnvelope req")
    case True
    with t have "decodeInto ?t0 (Body req) = Ok t" by simp
    note dec = decodeInto_Ok [OF this]
    then have "tkind t \<noteq> KindPlain" using plain_not_valid by metis
    then show ?thesis
      using dec that [of t] d' safe True by (auto simp: newTicket_def)
  next
    case False
    with t have "t = ?t0\<lparr>tkind := KindPlain, innerControl := Control req, innerBody := Body req\<rparr>" by simp
    then show ?thesis
      using that [of t] d' safe False by (auto simp: newTicket_def)
  qed
qed

lemma Submit_no_panic: "Submit d w rq req \<noteq> Panic"
  by (auto simp: Submit_def Let_def andThen_eq_Panic_iff decodeInto_no_panic split: option.splits if_splits)

lemma word_less_succ: "(x :: 'a::len word) \<le> y \<Longrightarrow> y \<noteq> - 1 \<Longrightarrow> x < y + 1"
proof -
  assume "x \<le> y" "y \<noteq> - 1"
  then have "1 + y \<noteq> 0" by (simp add: eq_neg_iff_add_eq_0 add.commute)
  then have "unat (1 + y) = Suc (unat y)" by (rule unatSuc)
  then show ?thesis using \<open>x \<le> y\<close> by (simp add: word_less_nat_alt word_le_nat_alt add.commute)
qed

lemma Submit_wf [keeps]:
  assumes "Submit d w rq req = Ok (d', i)" "wf_dispatcher d" "nextID d \<noteq> - 1"
  shows "wf_dispatcher d'"
proof -
  from assms(1) obtain t where i: "i = nextID d" and t: "tid t = i" "tkind t = KindPlain \<or> Kind_Valid (tkind t)"
    and d': "d' = d\<lparr>nextID := nextID d + 1, tickets := (tickets d)(i \<mapsto> t), order := order d @ [i]\<rparr>"
    by (rule Submit_Ok)
  have fresh: "i \<notin> dom (tickets d)" using assms(2) i by (auto simp: wf_dispatcher_def)
  have "\<forall>j \<in> dom (tickets d). j < nextID d + 1"
  proof
    fix j assume "j \<in> dom (tickets d)"
    then have "j < nextID d" using assms(2) by (simp add: wf_dispatcher_def)
    then show "j < nextID d + 1" using word_less_succ [of j "nextID d"] assms(3) by simp
  qed
  moreover have "nextID d < nextID d + 1" using word_less_succ [of "nextID d"] assms(3) by simp
  ultimately show ?thesis
    using assms(2) t fresh i by (auto simp: d' wf_dispatcher_def keyed_def ran_def split: if_splits)
qed

section \<open>Pumping\<close>

lemma startQueued_evolves: "evolves d (startQueued d)"
  by (auto simp: evolves_def same_setup_def startQueued_def evolves_ticket_def same_request_def split: option.splits)

lemma startQueued_tickets:
  "tickets (startQueued d) i = Some t \<Longrightarrow> set (order d) = dom (tickets d) \<Longrightarrow> tstate t \<noteq> StateQueued"
  by (auto simp: startQueued_def split: if_splits dest: arg_cong [of _ _ tstate])

lemma order_startQueued [simp]: "order (startQueued d) = order d"
  by (simp add: startQueued_def)

lemma Pump_Ok:
  assumes "Pump d w now = Ok (d', w', fin)"
  obtains available w1 where "askTriggers (startQueued d) (order d) Map.empty w = (available, w1)"
    "executeReady (sort_key (rank (startQueued d)) (collectReady (startQueued d) w1 now (order d) available))
       (startQueued d) w1 = (d', w', fin)"
  using assms by (auto simp: Pump_def Let_def split: if_splits prod.splits)

lemma Pump_total: "wf_dispatcher d \<Longrightarrow> \<exists>d' w' fin. Pump d w now = Ok (d', w', fin)"
  using wf_held [of d] by (auto simp: Pump_def Let_def split: prod.splits)
    (metis prod_cases3)

lemma Pump_evolves:
  assumes "Pump d w now = Ok (d', w', fin)" "wf_dispatcher d"
  shows "evolves d d'" and "set fin = newlyFinal d d'" and "distinct fin"
proof -
  have k: "keyed (startQueued d)"
    using evolves_keyed [OF startQueued_evolves, of d] assms(2) by (simp add: wf_dispatcher_def)
  from assms(1) obtain available w1 where ex:
    "executeReady (sort_key (rank (startQueued d)) (collectReady (startQueued d) w1 now (order d) available))
       (startQueued d) w1 = (d', w', fin)" by (rule Pump_Ok)
  note e = executeReady_evolves [OF ex k]
  show "evolves d d'" using startQueued_evolves e evolves_trans by blast
  have "newlyFinal d (startQueued d) = {}"
    by (auto simp: newlyFinal_def startQueued_def split: if_splits)
  then have "newlyFinal d d' = newlyFinal (startQueued d) d'"
    using newlyFinal_trans [OF startQueued_evolves e] by simp
  then show "set fin = newlyFinal d d'" "distinct fin"
    using executeReady_result [OF ex k] by simp_all
qed

text \<open>What makes a ticket ready, and what it takes from the counts of trigger events.\<close>

definition events :: "(u16 \<rightharpoonup> int) \<Rightarrow> u16 \<Rightarrow> int" where
  "events av src = (case av src of None \<Rightarrow> 0 | Some n \<Rightarrow> n)"

definition unlocked :: "'w Dispatcher \<Rightarrow> 'w \<Rightarrow> u64 \<Rightarrow> ticket \<Rightarrow> bool" where
  "unlocked d w now t \<longleftrightarrow> tstate t = StateStarted \<and>
     (IsSafety (tkind t) \<longrightarrow> safeStateReadyLocked d w (requester t)) \<and>
     (Base (tkind t) = KindTimed \<longrightarrow> executeAtMicros t \<le> now)"

definition takes :: "ticket \<Rightarrow> (u16 \<rightharpoonup> int) \<Rightarrow> (u16 \<rightharpoonup> int)" where
  "takes t av = (if Base (tkind t) = KindTriggered
     then av(triggerSource t \<mapsto> events av (triggerSource t) - 1) else av)"

lemma collectReady_None: "tickets d i = None \<Longrightarrow> collectReady d w now (i # ids) av = collectReady d w now ids av"
  by simp

lemma collectReady_Some:
  "tickets d i = Some t \<Longrightarrow> collectReady d w now (i # ids) av =
     (if unlocked d w now t \<and> (Base (tkind t) = KindTriggered \<longrightarrow> 0 < events av (triggerSource t))
      then i # collectReady d w now ids (takes t av) else collectReady d w now ids av)"
  by (auto simp: unlocked_def takes_def events_def Let_def rkind_defs)

declare collectReady.simps(2) [simp del]

lemma collectReady_gate:
  "i \<in> set (collectReady d w now ids av) \<Longrightarrow> i \<in> set ids \<and> (\<exists>t. tickets d i = Some t \<and> unlocked d w now t)"
proof (induction ids arbitrary: av)
  case (Cons j ids)
  then show ?case
    by (cases "tickets d j") (auto simp: collectReady_None collectReady_Some split: if_splits)
qed simp

lemma collectReady_ungated:
  "i \<in> set ids \<Longrightarrow> tickets d i = Some t \<Longrightarrow> unlocked d w now t \<Longrightarrow> Base (tkind t) \<noteq> KindTriggered \<Longrightarrow>
   i \<in> set (collectReady d w now ids av)"
proof (induction ids arbitrary: av)
  case (Cons j ids)
  then show ?case
    by (cases "tickets d j") (auto simp: collectReady_None collectReady_Some)
qed simp

lemma distinct_collectReady: "distinct ids \<Longrightarrow> distinct (collectReady d w now ids av)"
proof (induction ids arbitrary: av)
  case (Cons j ids)
  then show ?case
    using collectReady_gate [of j d w now ids]
    by (cases "tickets d j") (auto simp: collectReady_None collectReady_Some)
qed simp

section \<open>The state machine\<close>

text \<open>
  The steps of a dispatcher: its exported operations, in any order, and changes of the world by
  others. Ticket identifiers are 64-bit; the machine stops before the counter wraps.
\<close>

inductive dstep :: "'w Dispatcher \<times> 'w \<Rightarrow> 'w Dispatcher \<times> 'w \<Rightarrow> bool" where
  dstep_submit: "Submit d w rq req = Ok (d', i) \<Longrightarrow> nextID d \<noteq> - 1 \<Longrightarrow> dstep (d, w) (d', w)"
| dstep_pump: "Pump d w now = Ok (d', w', fin) \<Longrightarrow> dstep (d, w) (d', w')"
| dstep_purge: "PurgeNonSafety d = Ok (d', cleared) \<Longrightarrow> dstep (d, w) (d', w)"
| dstep_forget: "dstep (d, w) (Forget d i, w)"
| dstep_register: "dstep (d, w) (RegisterTriggerSource d src pump, w)"
| dstep_safe: "dstep (d, w) (SetSafeStateCheck d check, w)"
| dstep_world: "dstep (d, w) (d, w')"

inductive_cases dstepE: "dstep (d, w) (d', w')"

lemma dstep_cases:
  assumes "dstep (d, w) (d', w')"
  obtains (submit) rq req i where "Submit d w rq req = Ok (d', i)" "nextID d \<noteq> - 1" "w' = w"
    | (pump) now fin where "Pump d w now = Ok (d', w', fin)"
    | (purge) cleared where "PurgeNonSafety d = Ok (d', cleared)" "w' = w"
    | (forget) i where "d' = Forget d i" "w' = w"
    | (register) src p where "d' = RegisterTriggerSource d src p" "w' = w"
    | (safe) check where "d' = SetSafeStateCheck d check" "w' = w"
    | (world) "d' = d"
  using assms by (rule dstepE) (blast intro: that)+

inductive dreachable :: "'w Dispatcher \<Rightarrow> 'w \<Rightarrow> bool" where
  dreach_init: "dreachable (NewDispatcher h a s acc) w"
| dreach_step: "dreachable d w \<Longrightarrow> dstep (d, w) (d', w') \<Longrightarrow> dreachable d' w'"

definition idle :: "'w Dispatcher \<Rightarrow> bool" where
  "idle d \<longleftrightarrow> (\<forall>t \<in> ran (tickets d). tstate t \<noteq> StateExecuting)"

lemma NewDispatcher_wf [keeps]: "wf_dispatcher (NewDispatcher h a s acc)" "idle (NewDispatcher h a s acc)"
  by (simp_all add: wf_dispatcher_def idle_def NewDispatcher_def keyed_def)

lemma config_wf [keeps]:
  "wf_dispatcher (RegisterTriggerSource d src p) = wf_dispatcher d" "idle (RegisterTriggerSource d src p) = idle d"
  "wf_dispatcher (SetSafeStateCheck d chk) = wf_dispatcher d" "idle (SetSafeStateCheck d chk) = idle d"
  by (simp_all add: wf_dispatcher_def idle_def keyed_def RegisterTriggerSource_def SetSafeStateCheck_def)

lemma Forget_tickets:
  "tickets (Forget d i) = (if \<exists>t. tickets d i = Some t \<and> tstate t = StateFinalized
     then (tickets d)(i := None) else tickets d)"
  by (auto simp: Forget_def split: option.splits)

lemma Forget_wf [keeps]: "wf_dispatcher d \<Longrightarrow> wf_dispatcher (Forget d i)"
  by (auto simp: Forget_def wf_dispatcher_def keyed_def ran_def split: option.splits if_splits)

lemma PurgeNonSafety_spec:
  assumes "PurgeNonSafety d = Ok (d', cleared)"
  shows "d' = d\<lparr>tickets := finalizeIn (ERequest ErrPurgedByWatchdog) (set cleared) (tickets d)\<rparr> \<and>
    distinct cleared \<and>
    set cleared = {i \<in> set (order d). \<exists>t. tickets d i = Some t \<and> tstate t \<noteq> StateFinalized \<and> \<not> IsSafety (tkind t)}"
  using assms finalizeWhereLocked_spec [of d "ERequest ErrPurgedByWatchdog" "\<lambda>t. \<not> IsSafety (tkind t)"]
  by (auto simp: PurgeNonSafety_def split: if_splits)

lemma PurgeNonSafety_evolves: "PurgeNonSafety d = Ok (d', cleared) \<Longrightarrow> evolves d d'"
  using PurgeNonSafety_spec [of d d' cleared] evolves_finalizeIn [of "set cleared" d] by fastforce

lemma Pump_states:
  assumes "Pump d w now = Ok (d', w', fin)" "wf_dispatcher d" "tickets d i = Some t"
  shows "\<exists>t'. tickets d' i = Some t' \<and> (tstate t' = StateFinalized \<or>
    t' = (if tstate t = StateQueued then t\<lparr>tstate := StateStarted\<rparr> else t))"
proof -
  have k: "keyed (startQueued d)"
    using evolves_keyed [OF startQueued_evolves, of d] assms(2) by (simp add: wf_dispatcher_def)
  from assms(1) obtain ids w1 where ex: "executeReady ids (startQueued d) w1 = (d', w', fin)"
    by (rule Pump_Ok)
  have "i \<in> set (order d)" using assms(2,3) by (auto simp: wf_dispatcher_def)
  then have t1: "tickets (startQueued d) i = Some (if tstate t = StateQueued then t\<lparr>tstate := StateStarted\<rparr> else t)"
    using assms(3) by (simp add: startQueued_def)
  show ?thesis
  proof (cases "i \<in> set ids")
    case True
    then show ?thesis using executeReady_finalizes [OF ex k True] t1 by auto
  next
    case False
    then show ?thesis using executeReady_others [OF ex k False t1] by auto
  qed
qed

lemma evolves_ran:
  assumes "evolves d d'" "t' \<in> ran (tickets d')"
  obtains i t where "tickets d i = Some t" "tickets d' i = Some t'" "same_request t t'"
proof -
  obtain i where i: "tickets d' i = Some t'" using assms(2) by (auto simp: ran_def)
  then obtain t where t: "tickets d i = Some t"
    using evolves_None [OF assms(1), of i] by (cases "tickets d i") auto
  from evolvesD [OF assms(1) t] i t that show ?thesis by (metis option.inject)
qed

lemma dstep_wf:
  assumes "dstep (d, w) (d', w')" "wf_dispatcher d"
  shows "wf_dispatcher d'"
  using assms(1)
proof (cases rule: dstep_cases)
  case (pump now fin)
  then show ?thesis by (rule evolves_wf [OF Pump_evolves(1) [OF _ assms(2)] assms(2)])
next
  case (purge cleared)
  then show ?thesis using PurgeNonSafety_evolves evolves_wf assms(2) by blast
qed (use assms(2) in \<open>auto simp: keeps intro: keeps\<close>)

lemma dstep_idle:
  assumes "dstep (d, w) (d', w')" "wf_dispatcher d" "idle d"
  shows "idle d'"
  using assms(1)
proof (cases rule: dstep_cases)
  case (submit rq req i)
  from submit(1) obtain t where "tstate t = StateQueued" "d' = d\<lparr>nextID := nextID d + 1, tickets := (tickets d)(i \<mapsto> t), order := order d @ [i]\<rparr>"
    by (rule Submit_Ok)
  then show ?thesis using assms(3) by (auto simp: idle_def ran_def)
next
  case (pump now fin)
  show ?thesis unfolding idle_def
  proof
    fix t' assume "t' \<in> ran (tickets d')"
    then obtain i t where t: "tickets d i = Some t" "tickets d' i = Some t'"
      using evolves_ran [OF Pump_evolves(1) [OF pump assms(2)]] by metis
    moreover have "tstate t \<noteq> StateExecuting" using assms(3) t(1) by (auto simp: idle_def ran_def)
    ultimately show "tstate t' \<noteq> StateExecuting"
      using Pump_states [OF pump assms(2) t(1)] by (auto split: if_splits)
  qed
next
  case (purge cleared)
  then show ?thesis
    using PurgeNonSafety_spec [of d d' cleared] assms(3)
    by (auto simp: idle_def finalizeIn_def ran_def split: if_splits)
next
  case (forget i)
  then show ?thesis using assms(3) by (auto simp: idle_def Forget_tickets ran_def split: if_splits)
qed (use assms(3) in \<open>auto simp: keeps\<close>)

lemma dreachable_inv: "dreachable d w \<Longrightarrow> wf_dispatcher d \<and> idle d"
  by (induction rule: dreachable.induct) (auto simp: keeps dest: dstep_wf dstep_idle)

lemma nextID_grows:
  assumes "dstep (d, w) (d', w')" "wf_dispatcher d"
  shows "nextID d \<le> nextID d'"
  using assms(1)
proof (cases rule: dstep_cases)
  case (submit rq req i)
  from submit(1) obtain t where "d' = d\<lparr>nextID := nextID d + 1, tickets := (tickets d)(i \<mapsto> t), order := order d @ [i]\<rparr>"
    by (rule Submit_Ok)
  then show ?thesis using submit(2) word_less_succ [of "nextID d" "nextID d"] by simp
next
  case (pump now fin)
  have "evolves d d'" by (rule Pump_evolves(1) [OF pump assms(2)])
  then show ?thesis using same_setup_fields(2) [of d d'] by (simp add: evolves_def)
next
  case (purge cleared)
  then show ?thesis using PurgeNonSafety_spec by fastforce
qed (auto simp: Forget_def RegisterTriggerSource_def SetSafeStateCheck_def split: option.splits)

interpretation disp: invariant_steps dstep "\<lambda>(d, w). wf_dispatcher d"
  by unfold_locales (auto intro: dstep_wf)

section \<open>Programs of calls\<close>

text \<open>
  A program of calls of a dispatcher's methods, and of changes of the world by others. A call that returns an error
  changes nothing.
\<close>

datatype 'w dcall =
    CallSubmit StreamID Message
  | CallPump u64
  | CallPurgeNonSafety
  | CallForget TicketID
  | CallRegisterTriggerSource u16 "'w TriggerPump"
  | CallSetSafeStateCheck "'w SafeStateCheck option"
  | CallOthers 'w

fun docall :: "'w dcall \<Rightarrow> 'w Dispatcher \<times> 'w \<Rightarrow> 'w Dispatcher \<times> 'w" where
  "docall (CallSubmit rq req) (d, w) = (case Submit d w rq req of Ok (d', i) \<Rightarrow> (d', w) | _ \<Rightarrow> (d, w))"
| "docall (CallPump now) (d, w) = (case Pump d w now of Ok (d', w', fin) \<Rightarrow> (d', w') | _ \<Rightarrow> (d, w))"
| "docall CallPurgeNonSafety (d, w) = (case PurgeNonSafety d of Ok (d', cleared) \<Rightarrow> (d', w) | _ \<Rightarrow> (d, w))"
| "docall (CallForget i) (d, w) = (Forget d i, w)"
| "docall (CallRegisterTriggerSource src pump) (d, w) = (RegisterTriggerSource d src pump, w)"
| "docall (CallSetSafeStateCheck check) (d, w) = (SetSafeStateCheck d check, w)"
| "docall (CallOthers w') (d, w) = (d, w')"

lemma docall_dstep: "nextID d \<noteq> - 1 \<Longrightarrow> docall c (d, w) = (d, w) \<or> dstep (d, w) (docall c (d, w))"
  by (cases c) (auto intro: dstep.intros split: outcome.split)

lemma docall_wf: "wf_dispatcher d \<Longrightarrow> nextID d \<noteq> - 1 \<Longrightarrow> wf_dispatcher (fst (docall c (d, w)))"
  using docall_dstep [of d c w] dstep_wf [of d w] by (metis prod.collapse fst_conv)

lemma docall_evolves:
  assumes "wf_dispatcher d"
  shows "evolves d (fst (docall (CallPump now) (d, w)))" "evolves d (fst (docall CallPurgeNonSafety (d, w)))"
proof -
  show "evolves d (fst (docall (CallPump now) (d, w)))"
  proof (cases "Pump d w now")
    case (Ok r)
    then show ?thesis using Pump_evolves(1) [OF _ assms, of w now] by (cases r) simp
  qed simp_all
  show "evolves d (fst (docall CallPurgeNonSafety (d, w)))"
  proof (cases "PurgeNonSafety d")
    case (Ok r)
    then show ?thesis using PurgeNonSafety_evolves by (cases r) simp
  qed simp_all
qed

lemma docall_nextID:
  assumes "wf_dispatcher d" "nextID d \<noteq> - 1"
  shows "nextID d \<le> nextID (fst (docall c (d, w))) \<and> unat (nextID (fst (docall c (d, w)))) \<le> Suc (unat (nextID d))"
proof
  show "nextID d \<le> nextID (fst (docall c (d, w)))"
    using docall_dstep [OF assms(2), of c w] nextID_grows [OF _ assms(1), of w] by (metis fst_conv order_refl prod.collapse)
  have same: "nextID d' = nextID d" if "evolves d d'" for d' using that same_setup_fields(2) [of d d'] by (simp add: evolves_def)
  have "1 + nextID d \<noteq> 0" using assms(2) by (simp add: eq_neg_iff_add_eq_0 add.commute)
  then have "unat (nextID d + 1) = Suc (unat (nextID d))" using unatSuc [of "nextID d"] by (simp add: add.commute)
  then show "unat (nextID (fst (docall c (d, w)))) \<le> Suc (unat (nextID d))"
  proof (cases c)
    case (CallPump now)
    then show ?thesis using same [OF docall_evolves(1) [OF assms(1)]] by (simp del: docall.simps)
  next
    case CallPurgeNonSafety
    then show ?thesis using same [OF docall_evolves(2) [OF assms(1)]] by (simp del: docall.simps)
  qed (auto simp: Forget_def RegisterTriggerSource_def SetSafeStateCheck_def split: outcome.split option.split elim: Submit_Ok)
qed

text \<open>A call keeps a resolved ticket unless it forgets that ticket, and brings back none.\<close>

lemma docall_ticket:
  assumes "wf_dispatcher d" "i < nextID d" "nextID d \<noteq> - 1" "\<And>t. tickets d i = Some t \<Longrightarrow> tstate t = StateFinalized"
  shows "tickets (fst (docall c (d, w))) i = (if c = CallForget i then None else tickets d i)"
proof -
  have kept: "tickets d' i = tickets d i" if "evolves d d'" for d'
    using that assms(4) evolves_None [OF that, of i] by (cases "tickets d i") (auto elim!: evolvesD)
  show ?thesis
  proof (cases c)
    case (CallPump now)
    then show ?thesis using kept [OF docall_evolves(1) [OF assms(1)]] by (simp del: docall.simps)
  next
    case CallPurgeNonSafety
    then show ?thesis using kept [OF docall_evolves(2) [OF assms(1)]] by (simp del: docall.simps)
  next
    case (CallSubmit rq req)
    then show ?thesis using assms(2) by (auto split: outcome.split if_splits elim!: Submit_Ok)
  next
    case (CallForget j)
    then show ?thesis using assms(4) by (cases "tickets d i") (auto simp: Forget_tickets)
  qed (simp_all add: RegisterTriggerSource_def SetSafeStateCheck_def)
qed

lemma unat_max: "unat (- 1 :: u64) = 2 ^ 64 - 1"
  by (simp add: unsigned_minus_1_eq_mask mask_eq_exp_minus_1)

lemma docalls_ticket:
  assumes "wf_dispatcher d" "i < nextID d" "unat (nextID d) + length cs < 2 ^ 64" "\<And>t. tickets d i = Some t \<Longrightarrow> tstate t = StateFinalized"
  shows "tickets (fst (fold docall cs (d, w))) i = (if CallForget i \<in> set cs then None else tickets d i)"
  using assms
proof (induction cs arbitrary: d w)
  case (Cons c cs)
  obtain d1 w1 where 1: "docall c (d, w) = (d1, w1)" by fastforce
  have m: "nextID d \<noteq> - 1" using Cons.prems(3) unat_max by auto
  note c = docall_wf [OF Cons.prems(1) m, of c w] docall_nextID [OF Cons.prems(1) m, of c w]
    docall_ticket [OF Cons.prems(1,2) m Cons.prems(4), of c w]
  have "i < nextID d1" using c(2) Cons.prems(2) 1 by (auto intro: less_le_trans)
  moreover have "unat (nextID d1) + length cs < 2 ^ 64" using c(2) Cons.prems(3) 1 by simp
  ultimately have "tickets (fst (fold docall cs (d1, w1))) i = (if CallForget i \<in> set cs then None else tickets d1 i)"
    using c Cons.prems(4) 1 by (intro Cons.IH) (auto split: if_splits)
  then show ?case using c(3) 1 by auto
qed simp

section \<open>Cancelling everything\<close>

lemma executeReady_all_final:
  "\<forall>i\<in>set ids. tickets d i = None \<or> (\<exists>t. tickets d i = Some t \<and> tstate t = StateFinalized) \<Longrightarrow>
   executeReady ids d w = (d, w, [])"
  by (induction ids) (auto simp: executeReady_skip)

lemma sort_key_head:
  assumes "c \<in> set xs" "\<forall>x\<in>set xs. x \<noteq> c \<longrightarrow> f c < f x"
  shows "\<exists>ys. sort_key f xs = c # ys \<and> set ys \<subseteq> set xs"
proof -
  have "sort_key f xs \<noteq> []" using assms(1) by (metis empty_iff empty_set set_sort)
  then obtain y ys where s: "sort_key f xs = y # ys" by (cases "sort_key f xs") auto
  then have "y \<in> set xs" "set ys \<subseteq> set xs" by (metis set_sort list.set_intros(1), metis set_sort set_subset_Cons)
  moreover have "f y \<le> f c"
  proof (cases "c = y")
    case False
    then have "c \<in> set ys" using s assms(1) by (metis set_ConsD set_sort)
    then show ?thesis using sorted_sort_key [of f xs] by (auto simp: s)
  qed simp
  ultimately have "y = c" using assms(2) by fastforce
  then show ?thesis using s \<open>set ys \<subseteq> set xs\<close> by blast
qed

lemma runTicket_CancelAll:
  assumes "tickets d c = Some t" "tkind t = KindCancelAll" "wf_dispatcher d" "runTicket d w c t = (d', w', cancelled)"
  shows "w' = w \<and> seq d' = seq d \<and>
    (\<forall>i u. i \<noteq> c \<and> tickets d i = Some u \<longrightarrow>
       tickets d' i = Some (if tstate u = StateFinalized then u else finalizedWith (ERequest ErrTicketCancelled) u))"
proof -
  let ?t1 = "t\<lparr>tstate := StateExecuting\<rparr>" let ?d1 = "d\<lparr>tickets := (tickets d)(c \<mapsto> ?t1)\<rparr>"
  have "execute ?d1 w ?t1 = executeCancel ?d1 w ?t1 (\<lambda>_. True)"
    using assms(2) by (simp add: execute_def Let_def Base_def rkind_defs)
  then obtain d2 t2 where ex: "executeCancel ?d1 w ?t1 (\<lambda>_. True) = (d2, w', t2, cancelled)"
    and d': "d' = d2\<lparr>tickets := (tickets d2)(c \<mapsto> t2\<lparr>tstate := StateFinalized\<rparr>)\<rparr>"
    using assms(4) by (auto simp: runTicket_def Let_def split: prod.splits)
  note s = executeCancel_spec [OF ex]
  have tid: "tid t = c" "\<And>i u. tickets d i = Some u \<Longrightarrow> tid u = i \<and> i \<in> set (order d)"
    using assms(1,3) by (auto simp: wf_dispatcher_def keyed_def)
  have "set cancelled = {i. i \<noteq> c \<and> (\<exists>u. tickets d i = Some u \<and> tstate u \<noteq> StateFinalized)}"
    using s tid by (auto split: if_splits)
  then show ?thesis
    using s by (auto simp: d' finalizeIn_def)
qed

end
