(* ===== verification/Dispatcher_Properties.thy ===== *)
theory Dispatcher_Properties
  imports Dispatcher_Machine
begin

text \<open>
  The properties of the request life cycle: consistency of the tickets in every reachable state,
  finality of outcomes, the safe-state gate, the watchdog's purge, progress, cancellation,
  transparency for plain requests and the sharing of trigger events.
\<close>

lemma Pump_view:
  assumes "Pump d w now = Ok (d', w', fin)" "wf_dispatcher d"
  obtains av w1 where "askTriggers (startQueued d) (order d) Map.empty w = (av, w1)"
    "executeReady (sort_key (rank (startQueued d)) (collectReady (startQueued d) w1 now (order d) av))
       (startQueued d) w1 = (d', w', fin)" "keyed (startQueued d)"
proof -
  have "keyed (startQueued d)"
    using evolves_keyed [OF startQueued_evolves, of d] assms(2) by (simp add: wf_dispatcher_def)
  with assms(1) show ?thesis by (auto elim!: Pump_Ok intro: that)
qed

lemma startQueued_pending:
  assumes "wf_dispatcher d" "idle d" "tickets d i = Some t" "tstate t \<noteq> StateFinalized"
  shows "tickets (startQueued d) i = Some (t\<lparr>tstate := StateStarted\<rparr>)"
proof -
  have "i \<in> set (order d)" "tstate t \<noteq> StateExecuting"
    using assms(1-3) by (auto simp: wf_dispatcher_def idle_def ran_def)
  then show ?thesis using assms(3,4) by (cases "tstate t"; simp add: startQueued_def)
qed

lemma startQueued_safe [simp]: "safeStateReadyLocked (startQueued d) w rq = safeStateReadyLocked d w rq"
  by (simp add: safeStateReadyLocked_def startQueued_def)

section \<open>Triggers\<close>

definition waitsOn :: "'w Dispatcher \<Rightarrow> u16 \<Rightarrow> TicketID \<Rightarrow> bool" where
  "waitsOn d src i = (case tickets d i of None \<Rightarrow> False
     | Some t \<Rightarrow> Base (tkind t) = KindTriggered \<and> triggerSource t = src)"

lemma events_takes: "events (takes t av) src \<le> events av src"
  by (simp add: takes_def events_def)

lemma collectReady_no_events:
  "events av src \<le> 0 \<Longrightarrow> i \<in> set (collectReady d w now ids av) \<Longrightarrow> \<not> waitsOn d src i"
proof (induction ids arbitrary: av)
  case (Cons j ids)
  show ?case
  proof (cases "tickets d j")
    case None
    then show ?thesis using Cons by (auto simp: collectReady_None)
  next
    case (Some t)
    have "events (takes t av) src \<le> 0" using Cons.prems(1) events_takes [of t av src] by simp
    then show ?thesis using Cons Some by (auto simp: collectReady_Some waitsOn_def split: if_splits)
  qed
qed simp

lemma collectReady_counts:
  "int (length (filter (waitsOn d src) (collectReady d w now ids av))) \<le> max 0 (events av src)"
proof (induction ids arbitrary: av)
  case (Cons j ids)
  show ?case
  proof (cases "tickets d j")
    case None
    then show ?thesis using Cons [of av] by (simp add: collectReady_None)
  next
    case (Some t)
    have "waitsOn d src j \<Longrightarrow> events (takes t av) src = events av src - 1"
      using Some by (simp add: waitsOn_def takes_def events_def)
    then show ?thesis
      using Cons [of av] Cons [of "takes t av"] Some events_takes [of t av src]
      by (auto simp: collectReady_Some waitsOn_def)
  qed
qed simp

lemma collectReady_fifo:
  assumes "j \<in> set (collectReady d w now (xs @ i # ys) av)" "j \<in> set ys" "distinct (xs @ i # ys)"
    and "tickets d i = Some t" "unlocked d w now t" "waitsOn d src i" "waitsOn d src j"
  shows "i \<in> set (collectReady d w now (xs @ i # ys) av)"
  using assms
proof (induction xs arbitrary: av)
  case Nil
  show ?case
  proof (cases "0 < events av src")
    case True
    then show ?thesis using Nil by (simp add: collectReady_Some waitsOn_def)
  next
    case False
    then show ?thesis
      using Nil collectReady_no_events [of av src j d w now "i # ys"] by simp
  qed
next
  case (Cons x xs)
  then have "x \<noteq> j" "x \<noteq> i" by auto
  then show ?case
    using Cons by (cases "tickets d x") (auto simp: collectReady_None collectReady_Some split: if_splits)
qed

section \<open>Plain requests\<close>

definition settled :: "'w Dispatcher \<Rightarrow> TicketID list \<Rightarrow> bool" where
  "settled d ids \<longleftrightarrow> (\<forall>i\<in>set ids. \<exists>t. tickets d i = Some t \<and> tstate t = StateFinalized)"

lemma askTriggers_settled: "settled d ids \<Longrightarrow> askTriggers d (ids @ js) av w = askTriggers d js av w"
  by (induction ids) (auto simp: settled_def)

lemma collectReady_settled: "settled d ids \<Longrightarrow> collectReady d w now (ids @ js) av = collectReady d w now js av"
  by (induction ids) (auto simp: settled_def collectReady_Some unlocked_def)

text \<open>What an endpoint sees of a plain request.\<close>

definition forwarded :: "Message \<Rightarrow> Message" where
  "forwarded req = req\<lparr>Pad := 0, HS := False, CS := False, MTV := False\<rparr>"

lemma runTicket_plain:
  assumes "tickets d i = Some t" "tkind t = KindPlain" "handler d w (requester t) (innerMessage t (innerControl t) (innerBody t)) = (w', resp, e)"
  shows "\<exists>d'. runTicket d w i t = (d', w', []) \<and> tickets d' i = Some (t\<lparr>tstate := StateFinalized, response := resp, terr := e\<rparr>)"
  using assms by (auto simp: runTicket_def execute_def Let_def Base_def rkind_defs innerMessage_def)

lemma Pump_single_plain:
  assumes wf: "wf_dispatcher d" "idle d" and ord: "order d = ids @ [i]" "settled d ids"
    and t: "tickets d i = Some t" "tkind t = KindPlain" "tstate t = StateQueued"
    and h: "handler d w (requester t) (innerMessage t (innerControl t) (innerBody t)) = (w', resp, e)"
  shows "\<exists>d'. Pump d w now = Ok (d', w', [i]) \<and> Response d' i = (resp, e)"
proof -
  let ?d = "startQueued d" let ?t = "t\<lparr>tstate := StateStarted\<rparr>"
  have t1: "tickets ?d i = Some ?t" using startQueued_pending [OF wf t(1)] t(3) by simp
  have st: "settled ?d ids"
    using ord by (fastforce simp: settled_def startQueued_def)
  have plain: "\<not> IsSafety KindPlain" "Base KindPlain \<noteq> KindTriggered" "Base KindPlain \<noteq> KindTimed"
    by (simp_all add: IsSafety_def Base_def rkind_defs)
  have av: "askTriggers ?d (order d) Map.empty w = (Map.empty, w)"
    using askTriggers_settled [OF st, of "[i]"] t1 t(2) plain by (simp add: ord)
  have ready: "collectReady ?d w now (order d) Map.empty = [i]"
    using collectReady_settled [OF st, of w now "[i]"] t1 t(2) plain
    by (simp add: ord collectReady_Some unlocked_def)
  have "handler ?d w (requester ?t) (innerMessage ?t (innerControl ?t) (innerBody ?t)) = (w', resp, e)"
    using h by (simp add: startQueued_def innerMessage_def)
  from runTicket_plain [OF t1 _ this] t(2) obtain d' where run: "runTicket ?d w i ?t = (d', w', [])"
    and d': "tickets d' i = Some (?t\<lparr>tstate := StateFinalized, response := resp, terr := e\<rparr>)" by auto
  have "executeReady [i] ?d w = (d', w', [i])"
    using executeReady_run [OF t1, of "[]" w] by (simp add: run)
  then have "Pump d w now = Ok (d', w', [i])"
    using wf_held [OF wf(1)] av ready by (simp add: Pump_def Let_def)
  then show ?thesis using d' by (auto simp: Response_def)
qed

lemma Submit_plain:
  assumes "\<not> isConditionalEnvelope req" "\<forall>check. access d = Some check \<longrightarrow> check w rq = None"
  shows "\<exists>d1. Submit d w rq req = Ok (d1, nextID d)"
  using assms by (auto simp: Submit_def Let_def newTicket_def IsSafety_def rkind_defs split: option.splits)

section \<open>Properties\<close>

text \<open>For the witnesses: an endpoint that counts its requests and acknowledges each, and messages.\<close>

definition countingHandler :: "nat handler" where
  "countingHandler w rq req = (w + 1, req\<lparr>Control := FlagResponse\<rparr>, None)"

definition plainRequest :: "u16 \<Rightarrow> Message" where
  "plainRequest txn = zeroMessage\<lparr>Kind := KindShort, TransactionNum := txn, Control := FlagWrite, Body := [1]\<rparr>"

definition envelopeRequest :: "bytes \<Rightarrow> Message" where
  "envelopeRequest b = zeroMessage\<lparr>Kind := KindLong, Body := b\<rparr>"

definition triggerWorld :: "nat TriggerPump" where
  "triggerWorld w = (0, int w)"

fun submitAll :: "'w Dispatcher \<Rightarrow> 'w \<Rightarrow> Message list \<Rightarrow> 'w Dispatcher" where
  "submitAll d w [] = d"
| "submitAll d w (m # ms) =
     (case Submit d w zeroStreamID m of Ok (d', _) \<Rightarrow> submitAll d' w ms | _ \<Rightarrow> d)"

definition emptyDispatcher :: "nat Dispatcher" where
  "emptyDispatcher = SetSafeStateCheck (NewDispatcher countingHandler 1 NewSequencer None) (Some (\<lambda>w rq. w = 99))"

definition sampleDispatcher :: "Message list \<Rightarrow> nat Dispatcher" where
  "sampleDispatcher ms = submitAll emptyDispatcher 0 ms"

lemma submitAll_reachable:
  assumes "dreachable d w" "unat (nextID d) + length ms < 2 ^ 64"
  shows "dreachable (submitAll d w ms) w"
  using assms
proof (induction ms arbitrary: d)
  case (Cons m ms)
  have ne: "nextID d \<noteq> - 1"
  proof
    assume "nextID d = - 1"
    then have "unat (nextID d) = 2 ^ 64 - 1" by (simp add: unsigned_minus_1_eq_mask mask_eq_exp_minus_1)
    then show False using Cons.prems(2) by simp
  qed
  show ?case
  proof (cases "Submit d w zeroStreamID m")
    case (Ok r)
    obtain d' i where r: "r = (d', i)" by fastforce
    from Ok have "Submit d w zeroStreamID m = Ok (d', i)" by (simp add: r)
    then obtain t where d': "d' = d\<lparr>nextID := nextID d + 1, tickets := (tickets d)(i \<mapsto> t), order := order d @ [i]\<rparr>"
      by (rule Submit_Ok)
    have "unat (nextID d + 1) = Suc (unat (nextID d))"
      using ne by (metis add.commute add_eq_0_iff2 unatSuc)
    then have "unat (nextID d') + length ms < 2 ^ 64" using Cons.prems(2) by (simp add: d')
    moreover have "dreachable d' w"
      using Cons.prems(1) dstep_submit [of d w zeroStreamID m d' i] Ok ne by (auto simp: r intro: dreach_step)
    ultimately show ?thesis using Cons.IH by (simp add: Ok r)
  qed (use Cons.prems in auto)
qed simp

lemma sampleDispatcher_reachable: "length ms < 1000 \<Longrightarrow> dreachable (sampleDispatcher ms) 0"
  unfolding sampleDispatcher_def
proof (rule submitAll_reachable)
  show "dreachable emptyDispatcher 0"
    unfolding emptyDispatcher_def by (rule dreach_step [OF dreach_init dstep_safe])
qed (simp add: emptyDispatcher_def SetSafeStateCheck_def NewDispatcher_def)

lemma pumpE:
  assumes "case Pump d w now of Ok (d', w', fin) \<Rightarrow> P d' w' fin | _ \<Rightarrow> False"
  obtains d' w' fin where "Pump d w now = Ok (d', w', fin)" "P d' w' fin"
  using assms by (auto split: outcome.splits prod.splits intro: that)

lemma ticketE:
  assumes "case tickets d i of Some t \<Rightarrow> P t | None \<Rightarrow> False"
  obtains t where "tickets d i = Some t" "P t"
  using assms by (auto split: option.splits intro: that)

text \<open>C6: a dispatcher that was reached by any sequence of its operations keeps its tickets
  consistent: \<open>order\<close> lists exactly the tickets held, each once and under its own identifier, no
  ticket is caught in execution between calls, and none of the operations dereferences a missing
  ticket.\<close>

theorem dispatcher_consistent:
  assumes "dreachable d w"
  shows "wf_dispatcher d \<and> idle d \<and> Submit d w rq req \<noteq> Panic \<and> Pump d w now \<noteq> Panic \<and>
    PurgeNonSafety d \<noteq> Panic \<and> Pending d \<noteq> Panic \<and> Dispatch d w rq req now \<noteq> Panic"
proof -
  have inv: "wf_dispatcher d" "idle d" using dreachable_inv [OF assms] by simp_all
  then have h: "held d" by (simp add: wf_held)
  have "held d'" if "Submit d w rq req = Ok (d', i)" for d' i
  proof -
    from that obtain t where
      "d' = d\<lparr>nextID := nextID d + 1, tickets := (tickets d)(i \<mapsto> t), order := order d @ [i]\<rparr>"
      by (rule Submit_Ok)
    then show ?thesis using h by (simp add: held_def list_all_iff)
  qed
  then have "Dispatch d w rq req now \<noteq> Panic"
    using Submit_no_panic [of d w rq req]
    by (auto simp: Dispatch_def Pump_def Let_def andThen_eq_Panic_iff split: outcome.splits prod.splits)
  moreover have "Pump d w now \<noteq> Panic" "PurgeNonSafety d \<noteq> Panic" "Pending d \<noteq> Panic"
    using h by (auto simp: Pump_def PurgeNonSafety_def Pending_def Let_def split: prod.splits)
  ultimately show ?thesis using inv Submit_no_panic [of d w rq req] by simp
qed

theorem dispatcher_consistent_witness:
  "wf_dispatcher (sampleDispatcher [plainRequest 1, envelopeRequest EncodeCancelAll]) \<and>
   order (sampleDispatcher [plainRequest 1, envelopeRequest EncodeCancelAll]) = [0, 1]"
proof -
  have "order (sampleDispatcher [plainRequest 1, envelopeRequest EncodeCancelAll]) = [0, 1]"
    by code_simp
  then show ?thesis
    using dispatcher_consistent [OF sampleDispatcher_reachable
        [of "[plainRequest 1, envelopeRequest EncodeCancelAll]"]] by simp
qed

text \<open>C7: outcomes are final. Take a resolved ticket of a dispatcher that can be reached, and any later calls of its
  methods, pumps and purges and submissions and the forgetting of other tickets included: the ticket's answer is still
  the same, unless this very ticket was forgotten. Then its identifier is unknown, and no later submission issues it again.
  Identifiers are 64-bit; the number of calls is such that their counter does not wrap.\<close>

theorem outcome_is_final:
  assumes "dreachable d w" "StateOf d i = (StateFinalized, True)" "unat (nextID d) + length calls < 2 ^ 64"
  shows "Response (fst (fold docall calls (d, w))) i =
    (if CallForget i \<in> set calls then (zeroMessage, Some (ERequest ErrUnknownTicket)) else Response d i)"
proof -
  obtain t where t: "tickets d i = Some t" "tstate t = StateFinalized"
    using assms(2) by (auto simp: StateOf_def split: option.splits)
  have wf: "wf_dispatcher d" using dreachable_inv [OF assms(1)] by simp
  then have "i < nextID d" using t(1) by (auto simp: wf_dispatcher_def)
  from docalls_ticket [OF wf this assms(3), of w] show ?thesis
    using t by (simp add: Response_def)
qed

theorem outcome_is_final_witness:
  "\<exists>d'. Pump (sampleDispatcher [plainRequest 1]) 0 0 = Ok (d', 1, [0]) \<and>
     Response (fst (fold docall [CallForget 5, CallPurgeNonSafety, CallSubmit zeroStreamID (plainRequest 2), CallPump 7] (d', 1))) 0 = Response d' 0 \<and>
     Response (fst (fold docall [CallPump 7, CallForget 0] (d', 1))) 0 = (zeroMessage, Some (ERequest ErrUnknownTicket))"
proof -
  have "case Pump (sampleDispatcher [plainRequest 1]) 0 0 of
      Ok (d', w', fin) \<Rightarrow> w' = 1 \<and> fin = [0] \<and> StateOf d' 0 = (StateFinalized, True) \<and> nextID d' = 1 | _ \<Rightarrow> False"
    by code_simp
  then obtain d' where p: "Pump (sampleDispatcher [plainRequest 1]) 0 0 = Ok (d', 1, [0])"
    and st: "StateOf d' 0 = (StateFinalized, True)" and n: "nextID d' = 1" by (auto elim: pumpE)
  have r: "dreachable d' 1"
    by (rule dreach_step [OF sampleDispatcher_reachable dstep_pump [OF p]]) simp
  show ?thesis
    using p n outcome_is_final [OF r st, of "[CallForget 5, CallPurgeNonSafety, CallSubmit zeroStreamID (plainRequest 2), CallPump 7]"]
      outcome_is_final [OF r st, of "[CallPump 7, CallForget 0]"] by simp
qed

text \<open>C4: the safe-state gate. While the safe-state check does not hold for its requester, pumping
  never executes a safety request: the ticket stays pending with its request untouched, unless a
  client's cancellation clears it.\<close>

theorem safety_requests_gated:
  assumes "dreachable d w" "Pump d w now = Ok (d', w', finalized)"
    and "tickets d i = Some t" "IsSafety (tkind t)" "tstate t \<noteq> StateFinalized"
    and "\<not> safeStateReadyLocked d (snd (askTriggers (startQueued d) (order d) Map.empty w)) (requester t)"
  shows "tickets d' i = Some (t\<lparr>tstate := StateStarted\<rparr>) \<or>
    (\<exists>t'. tickets d' i = Some t' \<and> terr t' = Some (ERequest ErrTicketCancelled) \<and> response t' = response t)"
proof -
  have wf: "wf_dispatcher d" "idle d" using dreachable_inv [OF assms(1)] by simp_all
  from assms(2) wf(1) obtain av w1 where av: "askTriggers (startQueued d) (order d) Map.empty w = (av, w1)"
    and ex: "executeReady (sort_key (rank (startQueued d)) (collectReady (startQueued d) w1 now (order d) av))
       (startQueued d) w1 = (d', w', finalized)" and k: "keyed (startQueued d)" by (rule Pump_view)
  note t1 = startQueued_pending [OF wf assms(3,5)]
  have "\<not> unlocked (startQueued d) w1 now (t\<lparr>tstate := StateStarted\<rparr>)"
    using assms(4,6) av by (simp add: unlocked_def)
  then have "i \<notin> set (sort_key (rank (startQueued d)) (collectReady (startQueued d) w1 now (order d) av))"
    using collectReady_gate [of i "startQueued d" w1 now "order d" av] t1 by auto
  from executeReady_others [OF ex k this t1] show ?thesis
    by (auto simp: finalizedWith_def)
qed

theorem safety_requests_gated_witness:
  "\<exists>t d'. tickets (sampleDispatcher [envelopeRequest (EncodeTriggeredSafety 7 FlagWrite [1])]) 0 = Some t \<and>
     Pump (sampleDispatcher [envelopeRequest (EncodeTriggeredSafety 7 FlagWrite [1])]) 0 5 = Ok (d', 0, []) \<and>
     (tickets d' 0 = Some (t\<lparr>tstate := StateStarted\<rparr>) \<or>
      (\<exists>t'. tickets d' 0 = Some t' \<and> terr t' = Some (ERequest ErrTicketCancelled) \<and> response t' = response t))"
proof -
  let ?d = "sampleDispatcher [envelopeRequest (EncodeTriggeredSafety 7 FlagWrite [1])]"
  have "case Pump ?d 0 5 of Ok (d', w', fin) \<Rightarrow> w' = 0 \<and> fin = [] | _ \<Rightarrow> False"
    by code_simp
  then obtain d' where p: "Pump ?d 0 5 = Ok (d', 0, [])" by (auto elim: pumpE)
  have "case tickets ?d 0 of Some t \<Rightarrow> IsSafety (tkind t) \<and> tstate t \<noteq> StateFinalized \<and>
      \<not> safeStateReadyLocked ?d (snd (askTriggers (startQueued ?d) (order ?d) Map.empty 0)) (requester t) | None \<Rightarrow> False"
    by code_simp
  then obtain t where t: "tickets ?d 0 = Some t" "IsSafety (tkind t)" "tstate t \<noteq> StateFinalized"
    "\<not> safeStateReadyLocked ?d (snd (askTriggers (startQueued ?d) (order ?d) Map.empty 0)) (requester t)"
    by (auto elim: ticketE)
  have "dreachable ?d 0" by (rule sampleDispatcher_reachable) simp
  from safety_requests_gated [OF this p t] t(1) p show ?thesis by blast
qed

text \<open>The watchdog's purge. It finalizes exactly the pending tickets that are not safety
  requests, with its own error, reports each once, and leaves safety requests and resolved tickets
  as they are.\<close>

theorem purge_spares_safety:
  assumes "dreachable d w"
  shows "\<exists>d' cleared. PurgeNonSafety d = Ok (d', cleared) \<and> distinct cleared \<and>
    set cleared = {i. \<exists>t. tickets d i = Some t \<and> tstate t \<noteq> StateFinalized \<and> \<not> IsSafety (tkind t)} \<and>
    (\<forall>i \<in> set cleared. snd (Response d' i) = Some (ERequest ErrPurgedByWatchdog)) \<and>
    (\<forall>i. i \<notin> set cleared \<longrightarrow> tickets d' i = tickets d i)"
proof -
  have wf: "wf_dispatcher d" using dreachable_inv [OF assms] by simp
  then obtain d' cleared where p: "PurgeNonSafety d = Ok (d', cleared)"
    using wf_held [of d] by (auto simp: PurgeNonSafety_def) (metis surj_pair)
  from PurgeNonSafety_spec [OF p] wf show ?thesis
    by (intro exI [of _ d'] exI [of _ cleared]) (auto simp: p wf_dispatcher_def finalizeIn_def Response_def)
qed

theorem purge_spares_safety_witness:
  "\<exists>d' cleared. PurgeNonSafety (sampleDispatcher [plainRequest 1, envelopeRequest (EncodeTriggeredSafety 7 FlagWrite [1])]) =
     Ok (d', cleared) \<and>
   set cleared = {i. \<exists>t. tickets (sampleDispatcher [plainRequest 1, envelopeRequest (EncodeTriggeredSafety 7 FlagWrite [1])]) i = Some t \<and>
     tstate t \<noteq> StateFinalized \<and> \<not> IsSafety (tkind t)} \<and> 0 \<in> set cleared \<and> 1 \<notin> set cleared"
proof -
  let ?d = "sampleDispatcher [plainRequest 1, envelopeRequest (EncodeTriggeredSafety 7 FlagWrite [1])]"
  have "dreachable ?d 0" by (rule sampleDispatcher_reachable) simp
  from purge_spares_safety [OF this] obtain d' cleared where p: "PurgeNonSafety ?d = Ok (d', cleared)"
    and c: "set cleared = {i. \<exists>t. tickets ?d i = Some t \<and> tstate t \<noteq> StateFinalized \<and> \<not> IsSafety (tkind t)}"
    by blast
  have "case tickets ?d 0 of Some t \<Rightarrow> tstate t \<noteq> StateFinalized \<and> \<not> IsSafety (tkind t) | None \<Rightarrow> False"
    "case tickets ?d 1 of Some t \<Rightarrow> IsSafety (tkind t) | None \<Rightarrow> False"
    by code_simp+
  then have "0 \<in> set cleared" "1 \<notin> set cleared" by (auto simp: c split: option.splits)
  with p c show ?thesis by blast
qed

text \<open>C16: progress. After one pump the only tickets still pending are those with a reason to wait:
  a triggered request, a timed request before its time, or a safety request outside the safe
  state. Every other request is resolved, and the result lists exactly the tickets resolved, once
  each.\<close>

theorem pump_progress:
  assumes "dreachable d w"
  shows "\<exists>d' w' finalized. Pump d w now = Ok (d', w', finalized) \<and> distinct finalized \<and>
    set finalized = newlyFinal d d' \<and>
    (\<forall>i t. tickets d i = Some t \<longrightarrow> (\<exists>t'. tickets d' i = Some t' \<and> same_request t t' \<and>
       (tstate t' = StateFinalized \<or>
        tstate t' = StateStarted \<and>
        (Base (tkind t) = KindTriggered \<or> Base (tkind t) = KindTimed \<and> now < executeAtMicros t \<or>
         IsSafety (tkind t) \<and>
         \<not> safeStateReadyLocked d (snd (askTriggers (startQueued d) (order d) Map.empty w)) (requester t)))))"
proof -
  have wf: "wf_dispatcher d" "idle d" using dreachable_inv [OF assms(1)] by simp_all
  obtain d' w' fin where p: "Pump d w now = Ok (d', w', fin)" using Pump_total [OF wf(1)] by blast
  from p wf(1) obtain av w1 where av: "askTriggers (startQueued d) (order d) Map.empty w = (av, w1)"
    and ex: "executeReady (sort_key (rank (startQueued d)) (collectReady (startQueued d) w1 now (order d) av))
       (startQueued d) w1 = (d', w', fin)" and k: "keyed (startQueued d)" by (rule Pump_view)
  have "\<exists>t'. tickets d' i = Some t' \<and> same_request t t' \<and>
       (tstate t' = StateFinalized \<or> tstate t' = StateStarted \<and>
        (Base (tkind t) = KindTriggered \<or> Base (tkind t) = KindTimed \<and> now < executeAtMicros t \<or>
         IsSafety (tkind t) \<and> \<not> safeStateReadyLocked d w1 (requester t)))"
    if t: "tickets d i = Some t" for i t
  proof -
    from Pump_evolves(1) [OF p wf(1)] t obtain t' where t': "tickets d' i = Some t'" "same_request t t'"
      "tstate t = StateFinalized \<longrightarrow> t' = t" by (rule evolvesD) blast
    show ?thesis
    proof (cases "tstate t' = StateFinalized")
      case False
      with t'(3) have "tstate t \<noteq> StateFinalized" by auto
      note t1 = startQueued_pending [OF wf t this]
      have "i \<in> set (order d)" using wf(1) t by (auto simp: wf_dispatcher_def)
      moreover have ni: "i \<notin> set (collectReady (startQueued d) w1 now (order d) av)"
        using executeReady_finalizes [OF ex k, of i] t1 t'(1) False by auto
      ultimately have "\<not> (unlocked (startQueued d) w1 now (t\<lparr>tstate := StateStarted\<rparr>) \<and> Base (tkind t) \<noteq> KindTriggered)"
        using collectReady_ungated [OF _ t1, of "order d" w1 now av] by auto
      moreover have "t' = t\<lparr>tstate := StateStarted\<rparr> \<or>
          t' = finalizedWith (ERequest ErrTicketCancelled) (t\<lparr>tstate := StateStarted\<rparr>)"
        using executeReady_others [OF ex k _ t1] t'(1) ni by auto
      then have "tstate t' = StateStarted" using False by auto
      ultimately show ?thesis using t' by (auto simp: unlocked_def)
    qed (use t' in auto)
  qed
  then show ?thesis
    using p Pump_evolves(2,3) [OF p wf(1)] av by auto
qed

theorem pump_progress_witness:
  "\<exists>d' w' finalized. Pump (sampleDispatcher [plainRequest 1]) 0 9 = Ok (d', w', finalized) \<and>
     distinct finalized \<and> set finalized = newlyFinal (sampleDispatcher [plainRequest 1]) d'"
proof -
  have "dreachable (sampleDispatcher [plainRequest 1]) 0" by (rule sampleDispatcher_reachable) simp
  from pump_progress [OF this, of 9] show ?thesis by blast
qed

text \<open>The only pending cancel-all ranks before every other ticket that is ready.\<close>

lemma cancelAll_first:
  assumes wf: "wf_dispatcher d" "idle d" and t: "tickets d c = Some t" "tkind t = KindCancelAll" "tstate t \<noteq> StateFinalized"
    and only: "\<forall>i u. tickets d i = Some u \<and> IsCancellation (tkind u) \<and> tstate u \<noteq> StateFinalized \<longrightarrow> i = c"
  shows "\<exists>rest. sort_key (rank (startQueued d)) (collectReady (startQueued d) w now (order d) av) = c # rest"
proof -
  let ?d = "startQueued d" let ?ready = "collectReady ?d w now (order d) av"
  note tc = startQueued_pending [OF wf t(1,3)]
  have wf1: "wf_dispatcher ?d" by (rule evolves_wf [OF startQueued_evolves wf(1)])
  have "c \<in> set (order d)" using wf(1) t(1) by (auto simp: wf_dispatcher_def)
  then have c: "c \<in> set ?ready"
    by (rule collectReady_ungated [OF _ tc]) (simp_all add: unlocked_def t(2) IsSafety_def Base_def rkind_defs)
  have "rank ?d c < rank ?d i" if i: "i \<in> set ?ready" and ne: "i \<noteq> c" for i
  proof -
    obtain u where u: "tickets ?d i = Some u" "tstate u = StateStarted"
      using collectReady_gate [OF i] by (auto simp: unlocked_def)
    then obtain u0 where u0: "tickets d i = Some u0" "tkind u0 = tkind u" "tstate u0 \<noteq> StateFinalized"
      by (auto simp: startQueued_def split: if_splits)
    then have "\<not> IsCancellation (tkind u)" using only ne by metis
    moreover have "tkind u = KindPlain \<or> Kind_Valid (tkind u)" using wf1 u(1) by (auto simp: wf_dispatcher_def ran_def)
    ultimately have "Priority (tkind u) \<noteq> 0" using Priority_zero_iff by blast
    then show ?thesis using u tc by (simp add: rank_def t(2) Priority_values)
  qed
  then show ?thesis using sort_key_head [OF c] by blast
qed

text \<open>Once it has run, no ticket is left to execute.\<close>

lemma executeReady_CancelAll:
  assumes t: "tickets d c = Some t" "tkind t = KindCancelAll" "tstate t = StateStarted" and wf: "wf_dispatcher d"
    and ex: "executeReady (c # rest) d w = (d', w', fin)"
  shows "w' = w" "seq d' = seq d" "\<And>i u. i \<noteq> c \<Longrightarrow> tickets d i = Some u \<Longrightarrow>
    tickets d' i = Some (if tstate u = StateFinalized then u else finalizedWith (ERequest ErrTicketCancelled) u)"
proof -
  obtain d1 w2 cs where run: "runTicket d w c t = (d1, w2, cs)" by (cases "runTicket d w c t")
  have r: "w2 = w" "seq d1 = seq d" "\<And>i u. i \<noteq> c \<Longrightarrow> tickets d i = Some u \<Longrightarrow>
      tickets d1 i = Some (if tstate u = StateFinalized then u else finalizedWith (ERequest ErrTicketCancelled) u)"
    using runTicket_CancelAll [OF t(1) _ wf run] t(2) by simp_all
  have "keyed d" using wf by (simp add: wf_dispatcher_def)
  note s = runTicket_spec [OF run t(1) _ this]
  have "tickets d1 i = None \<or> (\<exists>u. tickets d1 i = Some u \<and> tstate u = StateFinalized)" for i
  proof (cases "tickets d i")
    case None
    then show ?thesis using evolves_None [OF s(1), of i] t(3) by simp
  next
    case (Some u)
    then show ?thesis using s(4) t(3) r(3) [of i u] by (cases "i = c") auto
  qed
  then have "executeReady rest d1 w2 = (d1, w2, [])" by (intro executeReady_all_final) blast
  then have "d' = d1" "w' = w2" using ex executeReady_run [OF t(1), of rest w] t(3) run by simp_all
  then show "w' = w" "seq d' = seq d" "\<And>i u. i \<noteq> c \<Longrightarrow> tickets d i = Some u \<Longrightarrow>
    tickets d' i = Some (if tstate u = StateFinalized then u else finalizedWith (ERequest ErrTicketCancelled) u)"
    using r by simp_all
qed

text \<open>Cancel-all takes effect before anything executes. When it is the only pending
  cancellation, one pump clears every other pending ticket with the cancellation error, calls no
  endpoint and touches no sequencer.\<close>

theorem cancel_all_preempts:
  assumes "dreachable d w" "Pump d w now = Ok (d', w', finalized)"
    and "tickets d c = Some t" "tkind t = KindCancelAll" "tstate t \<noteq> StateFinalized"
    and "\<forall>i u. tickets d i = Some u \<and> IsCancellation (tkind u) \<and> tstate u \<noteq> StateFinalized \<longrightarrow> i = c"
  shows "w' = snd (askTriggers (startQueued d) (order d) Map.empty w) \<and> seq d' = seq d \<and>
    (\<forall>i u. i \<noteq> c \<and> tickets d i = Some u \<and> tstate u \<noteq> StateFinalized \<longrightarrow>
       snd (Response d' i) = Some (ERequest ErrTicketCancelled))"
proof -
  have wf: "wf_dispatcher d" "idle d" using dreachable_inv [OF assms(1)] by simp_all
  from assms(2) wf(1) obtain av w1 where av: "askTriggers (startQueued d) (order d) Map.empty w = (av, w1)"
    and ex: "executeReady (sort_key (rank (startQueued d)) (collectReady (startQueued d) w1 now (order d) av))
       (startQueued d) w1 = (d', w', finalized)" by (rule Pump_view)
  obtain rest where rest: "sort_key (rank (startQueued d)) (collectReady (startQueued d) w1 now (order d) av) = c # rest"
    using cancelAll_first [OF wf assms(3-6)] by blast
  note r = executeReady_CancelAll [OF startQueued_pending [OF wf assms(3,5)] _ _ evolves_wf [OF startQueued_evolves wf(1)] ex [unfolded rest], simplified, OF assms(4)]
  have "tickets d' i = Some (finalizedWith (ERequest ErrTicketCancelled) (u\<lparr>tstate := StateStarted\<rparr>))"
    if "i \<noteq> c" "tickets d i = Some u" "tstate u \<noteq> StateFinalized" for i u
    using r(3) [OF that(1) startQueued_pending [OF wf that(2,3)]] by simp
  moreover have "seq (startQueued d) = seq d" by (simp add: startQueued_def)
  ultimately show ?thesis using r(1,2) av by (simp add: Response_def)
qed

theorem cancel_all_preempts_witness:
  "\<exists>d'. Pump (sampleDispatcher [plainRequest 1, envelopeRequest EncodeCancelAll]) 0 9 = Ok (d', 0, [1, 0]) \<and>
     snd (Response d' 0) = Some (ERequest ErrTicketCancelled)"
proof -
  let ?d = "sampleDispatcher [plainRequest 1, envelopeRequest EncodeCancelAll]"
  have "case Pump ?d 0 9 of Ok (d', w', fin) \<Rightarrow> w' = 0 \<and> fin = [1, 0] | _ \<Rightarrow> False"
    by code_simp
  then obtain d' where p: "Pump ?d 0 9 = Ok (d', 0, [1, 0])" by (auto elim: pumpE)
  have "case tickets ?d 1 of Some t \<Rightarrow> tkind t = KindCancelAll \<and> tstate t \<noteq> StateFinalized | None \<Rightarrow> False"
    by code_simp
  then obtain t where t: "tickets ?d 1 = Some t" "tkind t = KindCancelAll" "tstate t \<noteq> StateFinalized"
    by (auto elim: ticketE)
  have "case tickets ?d 0 of Some u \<Rightarrow> \<not> IsCancellation (tkind u) \<and> tstate u \<noteq> StateFinalized | None \<Rightarrow> False"
    by code_simp
  then obtain u where u: "tickets ?d 0 = Some u" "\<not> IsCancellation (tkind u)" "tstate u \<noteq> StateFinalized"
    by (auto elim: ticketE)
  have "order ?d = [0, 1]" by code_simp
  moreover have reach: "dreachable ?d 0" by (rule sampleDispatcher_reachable) simp
  ultimately have "dom (tickets ?d) = {0, 1}"
    using dreachable_inv [of ?d 0] by (auto simp: wf_dispatcher_def)
  then have only: "\<forall>i v. tickets ?d i = Some v \<and> IsCancellation (tkind v) \<and> tstate v \<noteq> StateFinalized \<longrightarrow> i = 1"
    using u by (metis domI insertE option.inject singletonD)
  from cancel_all_preempts [OF reach p t only] u(1,3) p show ?thesis by simp
qed

text \<open>A plain request through the dispatcher is the endpoint's own request. With nothing else
  pending, \<open>Dispatch\<close> of a request that is not a conditional envelope hands the endpoint the
  request itself (its padding, handshake and timestamp-valid bits cleared) and returns the
  endpoint's answer.\<close>

theorem dispatch_plain_is_handler:
  assumes "dreachable d w" "nextID d \<noteq> - 1" "\<forall>i t. tickets d i = Some t \<longrightarrow> tstate t = StateFinalized"
    and "\<not> isConditionalEnvelope req" "\<forall>check. access d = Some check \<longrightarrow> check w rq = None"
    and "handler d w rq (forwarded req) = (w', resp, e)" "e \<noteq> Some (ERequest ErrPending)"
  shows "\<exists>d'. Dispatch d w rq req now = Ok (d', w', resp, e)"
proof -
  have wf: "wf_dispatcher d" "idle d" using dreachable_inv [OF assms(1)] by simp_all
  obtain d1 where sub: "Submit d w rq req = Ok (d1, nextID d)" using Submit_plain [OF assms(4,5)] by blast
  then obtain t where t: "tstate t = StateQueued" "requester t = rq" "original t = req"
    and plain: "tkind t = KindPlain \<longleftrightarrow> \<not> isConditionalEnvelope req"
      "\<not> isConditionalEnvelope req \<longrightarrow> innerControl t = Control req \<and> innerBody t = Body req"
    and d1: "d1 = d\<lparr>nextID := nextID d + 1, tickets := (tickets d)(nextID d \<mapsto> t), order := order d @ [nextID d]\<rparr>"
    by (rule Submit_Ok)
  have "wf_dispatcher d1" "idle d1"
    using dreachable_inv [OF dreach_step [OF assms(1) dstep_submit [OF sub assms(2)]]] by simp_all
  moreover have "settled d1 (order d)"
    using wf(1) assms(3) by (auto simp: d1 settled_def wf_dispatcher_def dom_def)
  moreover have "innerMessage t (innerControl t) (innerBody t) = forwarded req"
    using plain assms(4) by (simp add: innerMessage_def forwarded_def t zeroMessage_def)
  ultimately obtain d' where "Pump d1 w now = Ok (d', w', [nextID d])" "Response d' (nextID d) = (resp, e)"
    using Pump_single_plain [of d1 "order d" "nextID d" t w w' resp e now] t plain(1) assms(4,6)
    by (auto simp: d1)
  then show ?thesis
    using sub assms(7) by (auto simp: Dispatch_def)
qed

theorem dispatch_plain_is_handler_witness:
  "\<exists>d'. Dispatch emptyDispatcher 4 zeroStreamID (plainRequest 1) 0 =
     Ok (d', 5, (plainRequest 1)\<lparr>Control := FlagResponse\<rparr>, None)"
proof (rule dispatch_plain_is_handler)
  show "dreachable emptyDispatcher 4"
    unfolding emptyDispatcher_def by (rule dreach_step [OF dreach_init dstep_safe])
qed (simp_all add: emptyDispatcher_def SetSafeStateCheck_def NewDispatcher_def isConditionalEnvelope_def
    plainRequest_def kind_defs countingHandler_def forwarded_def zeroMessage_def)

text \<open>Trigger events are shared out oldest first. In one pump, at most as many tickets become
  ready on a trigger source as it reported events, and a waiting ticket is never overtaken on its
  source by one submitted later.\<close>

theorem trigger_events_oldest_first:
  "int (length (filter (waitsOn d src) (collectReady d w now ids av))) \<le> max 0 (events av src) \<and>
   (distinct (xs @ i # ys) \<and> tickets d i = Some t \<and> unlocked d w now t \<and>
    waitsOn d src i \<and> waitsOn d src j \<and> j \<in> set ys \<and>
    j \<in> set (collectReady d w now (xs @ i # ys) av) \<longrightarrow>
    i \<in> set (collectReady d w now (xs @ i # ys) av))"
  using collectReady_counts [of d src w now ids av] collectReady_fifo [of j d w now xs i ys av t src]
  by blast

theorem trigger_events_oldest_first_witness:
  "collectReady (startQueued (sampleDispatcher [envelopeRequest (EncodeTriggered 7 FlagWrite [1]),
      envelopeRequest (EncodeTriggered 7 FlagWrite [2])])) 0 0 [0, 1] [7 \<mapsto> 2] = [0, 1] \<and>
   (0 :: TicketID) \<in> set [0, 1]"
proof -
  let ?d = "startQueued (sampleDispatcher [envelopeRequest (EncodeTriggered 7 FlagWrite [1]),
      envelopeRequest (EncodeTriggered 7 FlagWrite [2])])"
  have r: "collectReady ?d 0 0 [0, 1] [7 \<mapsto> 2] = [0, 1]" by code_simp
  have "case tickets ?d 0 of Some t \<Rightarrow> unlocked ?d 0 0 t | None \<Rightarrow> False" by code_simp
  then obtain t where t: "tickets ?d 0 = Some t" "unlocked ?d 0 0 t" by (auto elim: ticketE)
  have "waitsOn ?d 7 0" "waitsOn ?d 7 1" by code_simp+
  then show ?thesis
    using trigger_events_oldest_first [of ?d 7 0 0 "[0, 1]" "[7 \<mapsto> 2]" "[]" 0 "[1]" t 1] t r by simp
qed

text \<open>An event that arrives while a safety-triggered ticket is held back by the safe-state gate
  is lost. The pump drains the trigger source, the ticket stays pending, and the dispatcher keeps
  no trace of the event.\<close>

theorem gated_trigger_event_is_lost:
  assumes "dreachable d w" "order d = [i]" "tickets d i = Some t" "tkind t = KindTriggeredSafety"
    and "tstate t \<noteq> StateFinalized" "pumps d (triggerSource t) = Some pump" "pump w = (w', n)"
    and "\<not> safeStateReadyLocked d w' (requester t)"
  shows "Pump d w now = Ok (startQueued d, w', [])"
proof -
  have wf: "wf_dispatcher d" "idle d" using dreachable_inv [OF assms(1)] by simp_all
  note t1 = startQueued_pending [OF wf assms(3,5)]
  have kinds: "IsSafety KindTriggeredSafety"
    by (simp add: IsSafety_def rkind_defs)
  have "askTriggers (startQueued d) (order d) Map.empty w = (Map.empty(triggerSource t \<mapsto> n), w')"
    using t1 assms(4,6,7) kinds by (simp add: assms(2)) (simp add: startQueued_def)
  moreover have "collectReady (startQueued d) w' now (order d) av = []" for av
    using t1 assms(4,8) kinds by (simp add: assms(2) collectReady_Some unlocked_def)
  ultimately show ?thesis
    using wf_held [OF wf(1)] by (simp add: Pump_def Let_def)
qed

theorem gated_trigger_event_is_lost_witness:
  "Pump (RegisterTriggerSource (sampleDispatcher [envelopeRequest (EncodeTriggeredSafety 7 FlagWrite [1])]) 7 triggerWorld) 3 5
   = Ok (startQueued (RegisterTriggerSource (sampleDispatcher [envelopeRequest (EncodeTriggeredSafety 7 FlagWrite [1])]) 7 triggerWorld), 0, [])"
proof -
  let ?e = "sampleDispatcher [envelopeRequest (EncodeTriggeredSafety 7 FlagWrite [1])]"
  let ?d = "RegisterTriggerSource ?e 7 triggerWorld"
  have "dreachable ?e 0" by (rule sampleDispatcher_reachable) simp
  then have "dreachable ?d 0" by (rule dreach_step [OF _ dstep_register])
  then have reach: "dreachable ?d 3" by (rule dreach_step [OF _ dstep_world])
  have "case tickets ?d 0 of Some t \<Rightarrow> tkind t = KindTriggeredSafety \<and> tstate t \<noteq> StateFinalized \<and>
      triggerSource t = 7 \<and> \<not> safeStateReadyLocked ?d 0 (requester t) | None \<Rightarrow> False"
    by code_simp
  then obtain t where t: "tickets ?d 0 = Some t" "tkind t = KindTriggeredSafety" "tstate t \<noteq> StateFinalized"
    "triggerSource t = 7" "\<not> safeStateReadyLocked ?d 0 (requester t)" by (auto elim: ticketE)
  have "order ?d = [0]" by code_simp
  moreover have "pumps ?d (triggerSource t) = Some triggerWorld" by (simp add: t RegisterTriggerSource_def)
  moreover have "triggerWorld 3 = (0, 3)" by (simp add: triggerWorld_def)
  ultimately show ?thesis
    using gated_trigger_event_is_lost [OF reach _ t(1-3)] t(5) by blast
qed

end
