(* ===== verification/Regmap.thy ===== *)
theory Regmap
  imports Avtp "HOL-Library.AList"
begin

text \<open>
  The package \<open>regmap\<close>: endpoint types and signals (\<open>types.go\<close>), the pin-mapping table
  (\<open>pinmap.go\<close>), stream and queue configuration (\<open>queues.go\<close>), access control (\<open>access.go\<close>) and
  the register map with its wire encoding (\<open>registermap.go\<close>).

  The Go map from addresses to endpoint registers is an association list with distinct keys,
  since its encoding lists the keys in order.
\<close>

section \<open>Endpoint types and signals\<close>

definition EP0 :: u16 where "EP0 = 0"

type_synonym EndpointType = u8

definition EndpointTypeUnassigned :: EndpointType where "EndpointTypeUnassigned = 0"
definition EndpointTypeGPIO :: EndpointType where "EndpointTypeGPIO = 1"
definition EndpointTypeSPI :: EndpointType where "EndpointTypeSPI = 2"
definition EndpointTypeI2C :: EndpointType where "EndpointTypeI2C = 3"
definition EndpointTypeUART :: EndpointType where "EndpointTypeUART = 4"
definition EndpointTypeADC :: EndpointType where "EndpointTypeADC = 5"
definition EndpointTypePWM :: EndpointType where "EndpointTypePWM = 6"
definition EndpointTypeLIN :: EndpointType where "EndpointTypeLIN = 7"
definition EndpointTypeCAN :: EndpointType where "EndpointTypeCAN = 8"
definition EndpointTypeISELED :: EndpointType where "EndpointTypeISELED = 9"
definition EndpointTypeMDIO :: EndpointType where "EndpointTypeMDIO = 10"
definition EndpointTypeWakeup :: EndpointType where "EndpointTypeWakeup = 11"
definition EndpointTypeDAC :: EndpointType where "EndpointTypeDAC = 12"
definition endpointTypeCount :: EndpointType where "endpointTypeCount = 13"

lemmas endpoint_types = EndpointTypeUnassigned_def EndpointTypeGPIO_def EndpointTypeSPI_def
  EndpointTypeI2C_def EndpointTypeUART_def EndpointTypeADC_def EndpointTypePWM_def
  EndpointTypeLIN_def EndpointTypeCAN_def EndpointTypeISELED_def EndpointTypeMDIO_def
  EndpointTypeWakeup_def EndpointTypeDAC_def endpointTypeCount_def

text \<open>The decimal rendering of \<open>fmt.Sprintf\<close>'s verb \<open>%d\<close> for a natural number.\<close>

fun decimal :: "nat \<Rightarrow> string" where
  "decimal n = (if n < 10 then [char_of (48 + n)] else decimal (n div 10) @ [char_of (48 + n mod 10)])"

declare decimal.simps [simp del]

definition indexedSignalNames :: "string \<Rightarrow> nat \<Rightarrow> string list" where
  "indexedSignalNames prefix count = map (\<lambda>i. prefix @ decimal i) [0..<count]"

definition signalNames :: "EndpointType \<Rightarrow> string list" where
  "signalNames t =
     (if t = EndpointTypeGPIO then indexedSignalNames ''IO'' 32
      else if t = EndpointTypeSPI then
        [''CLK'', ''PICO'', ''POCI'', ''CS0'', ''CS1'', ''CS2'', ''CS3'', ''CS4'', ''CS5'']
      else if t = EndpointTypeI2C then [''SCL'', ''SDA'']
      else if t = EndpointTypeUART then [''TX'', ''RX'', ''RTS'', ''CTS'']
      else if t = EndpointTypeADC then [''ADC_IN'']
      else if t = EndpointTypePWM then [''PWM_OUT'', ''PWM_OUTN'']
      else if t = EndpointTypeLIN then [''TXD'', ''RXD'', ''NSLP'']
      else if t = EndpointTypeCAN then [''RXD'', ''TXD'']
      else if t = EndpointTypeISELED then [''ISP_P'', ''ISP_N'']
      else if t = EndpointTypeMDIO then [''MDC'', ''MDIO'']
      else if t = EndpointTypeWakeup then [''WAKE'']
      else if t = EndpointTypeDAC then [''OUT'']
      else [])"

definition EndpointType_Valid :: "EndpointType \<Rightarrow> bool" where
  "EndpointType_Valid t \<longleftrightarrow> t > EndpointTypeUnassigned \<and> t < endpointTypeCount"

definition SignalCount :: "EndpointType \<Rightarrow> nat" where
  "SignalCount t = length (signalNames t)"

definition SignalName :: "EndpointType \<Rightarrow> u8 \<Rightarrow> string option" where
  "SignalName t i =
     (let names = signalNames t in if unat i \<ge> length names then None else Some (names ! unat i))"

section \<open>Pin mapping\<close>

record PinAssignment =
  Pin :: u16
  PEndpoint :: u16
  SignalIndex :: u8

record PinMap =
  entries :: "PinAssignment list"

text \<open>The loop of \<open>Set\<close>: replace the entry of the same pin, or append.\<close>

fun setEntry :: "PinAssignment \<Rightarrow> PinAssignment list \<Rightarrow> PinAssignment list" where
  "setEntry a [] = [a]"
| "setEntry a (e # es) = (if Pin e = Pin a then a # es else e # setEntry a es)"

definition PinMap_Set :: "PinMap \<Rightarrow> PinAssignment \<Rightarrow> PinMap" where
  "PinMap_Set m a = m\<lparr>entries := setEntry a (entries m)\<rparr>"

text \<open>\<open>reg\<close> is the lookup \<open>endpointType\<close> of the register map.\<close>

fun validateEntries ::
  "(u16 \<Rightarrow> EndpointType option) \<Rightarrow> u16 list \<Rightarrow> PinAssignment list \<Rightarrow> unit go" where
  "validateEntries reg seen [] = Ok ()"
| "validateEntries reg seen (a # as) =
     (if Pin a \<in> set seen then Err (ERegmap ErrPinMapInvalid)
      else
        (case reg (PEndpoint a) of
           None \<Rightarrow> Err (ERegmap ErrPinMapInvalid)
         | Some t \<Rightarrow>
             if \<not> EndpointType_Valid t then Err (ERegmap ErrPinMapInvalid)
             else if SignalName t (SignalIndex a) = None then Err (ERegmap ErrPinMapInvalid)
             else validateEntries reg (Pin a # seen) as))"

definition PinMap_Validate :: "PinMap \<Rightarrow> (u16 \<Rightarrow> EndpointType option) \<Rightarrow> unit go" where
  "PinMap_Validate m reg = validateEntries reg [] (entries m)"

text \<open>\<open>byPin\<close> is the map built in the first loop; a later entry of the same pin replaces an
  earlier one.\<close>

definition byPin :: "PinAssignment list \<Rightarrow> u16 \<Rightarrow> PinAssignment option" where
  "byPin es = map_of (rev (map (\<lambda>a. (Pin a, a)) es))"

definition PinMap_Equal :: "PinMap \<Rightarrow> PinMap \<Rightarrow> bool" where
  "PinMap_Equal m other \<longleftrightarrow>
     length (entries m) = length (entries other) \<and>
     list_all (\<lambda>a. byPin (entries m) (Pin a) = Some a) (entries other)"

section \<open>Streams and queues\<close>

record StreamLimits =
  SMaxRequestStreams :: u8
  MaxInFlightPerStream :: u16

record QueueConfig =
  FlushThreshold :: u16
  FlushTimeMillis :: u32
  HeartbeatIntervalMillis :: u32

definition QueueConfig_Validate :: "QueueConfig \<Rightarrow> unit go" where
  "QueueConfig_Validate q =
     (if FlushThreshold q = 0 \<and> FlushTimeMillis q = 0 then Err (ERegmap ErrQueueConfigInvalid) else Ok ())"

section \<open>Access control\<close>

record AccessController =
  root :: StreamID
  rootSet :: bool
  grants :: "StreamID \<rightharpoonup> u16 set"

definition NewAccessController :: AccessController where
  "NewAccessController = \<lparr>root = zeroStreamID, rootSet = False, grants = Map.empty\<rparr>"

definition AccessController_ClaimRoot :: "AccessController \<Rightarrow> StreamID \<Rightarrow> AccessController \<times> rcp_error option" where
  "AccessController_ClaimRoot a stream =
     (if rootSet a \<and> root a \<noteq> stream then (a, Some (ERegmap ErrRootAlreadyClaimed))
      else (a\<lparr>root := stream, rootSet := True\<rparr>, None))"

definition IsRoot :: "AccessController \<Rightarrow> StreamID \<Rightarrow> bool" where
  "IsRoot a stream \<longleftrightarrow> rootSet a \<and> root a = stream"

definition AccessController_Grant :: "AccessController \<Rightarrow> StreamID \<Rightarrow> u16 \<Rightarrow> AccessController" where
  "AccessController_Grant a stream ep =
     a\<lparr>grants := (grants a)(stream \<mapsto> insert ep (case grants a stream of None \<Rightarrow> {} | Some s \<Rightarrow> s))\<rparr>"

definition AccessController_Revoke :: "AccessController \<Rightarrow> StreamID \<Rightarrow> u16 \<Rightarrow> AccessController" where
  "AccessController_Revoke a stream ep =
     (case grants a stream of None \<Rightarrow> a | Some s \<Rightarrow> a\<lparr>grants := (grants a)(stream \<mapsto> s - {ep})\<rparr>)"

definition CanAccess :: "AccessController \<Rightarrow> StreamID \<Rightarrow> u16 \<Rightarrow> bool" where
  "CanAccess a stream ep =
     (if IsRoot a stream then True else (case grants a stream of None \<Rightarrow> False | Some s \<Rightarrow> ep \<in> s))"

section \<open>The general register block\<close>

record GeneralBlock =
  Magic :: u32
  GProtocolVersion :: u32
  VendorID :: u16
  DeviceID :: u16
  NumEndpoints :: u16
  GMaxRequestStreams :: u8
  MaxResponderStreams :: u8
  MaxResponderQueueWords :: u16
  MaxRequestQueueWords :: u16
  NumSequencerStates :: u8
  ConfigLock :: u8
  Options :: u8
  reserved0 :: u8
  NumIOPins :: u16
  HWConfigPointer :: u16
  MaxConfigurableRequestStreams :: u8
  MaxConfigurableResponseStreams :: u8
  ClientConfigPointer :: u16
  QueueConfigPointer :: u16
  reserved1 :: u16
  EndpointConfigPointer :: u16
  EndpointConfigLength :: u16
  EndpointMapPointer :: u16
  EndpointMapMaxEntries :: u8
  reserved2 :: u8
  EndpointFunctionalConfigPointer :: u16
  SequencerStateMapPointer :: u16

definition GeneralBlockMagic :: u32 where "GeneralBlockMagic = 0x52435030"
definition RegisterMapVersion :: u32 where "RegisterMapVersion = 0"
definition generalBlockLen :: nat where "generalBlockLen = 48"

definition zeroGeneralBlock :: GeneralBlock where
  "zeroGeneralBlock = \<lparr>Magic = 0, GProtocolVersion = 0, VendorID = 0, DeviceID = 0, NumEndpoints = 0,
     GMaxRequestStreams = 0, MaxResponderStreams = 0, MaxResponderQueueWords = 0,
     MaxRequestQueueWords = 0, NumSequencerStates = 0, ConfigLock = 0, Options = 0, reserved0 = 0,
     NumIOPins = 0, HWConfigPointer = 0, MaxConfigurableRequestStreams = 0,
     MaxConfigurableResponseStreams = 0, ClientConfigPointer = 0, QueueConfigPointer = 0,
     reserved1 = 0, EndpointConfigPointer = 0, EndpointConfigLength = 0, EndpointMapPointer = 0,
     EndpointMapMaxEntries = 0, reserved2 = 0, EndpointFunctionalConfigPointer = 0,
     SequencerStateMapPointer = 0\<rparr>"

definition sameGeneralIdentity :: "GeneralBlock \<Rightarrow> GeneralBlock \<Rightarrow> bool" where
  "sameGeneralIdentity a b \<longleftrightarrow>
     Magic a = Magic b \<and> VendorID a = VendorID b \<and> DeviceID a = DeviceID b \<and>
     GProtocolVersion a = GProtocolVersion b \<and> MaxResponderStreams a = MaxResponderStreams b \<and>
     MaxResponderQueueWords a = MaxResponderQueueWords b \<and>
     MaxRequestQueueWords a = MaxRequestQueueWords b \<and>
     NumSequencerStates a = NumSequencerStates b \<and> ConfigLock a = ConfigLock b \<and>
     Options a = Options b \<and> NumIOPins a = NumIOPins b \<and>
     MaxConfigurableRequestStreams a = MaxConfigurableRequestStreams b \<and>
     MaxConfigurableResponseStreams a = MaxConfigurableResponseStreams b"

definition EncodeGeneralBlock :: "GeneralBlock \<Rightarrow> bytes" where
  "EncodeGeneralBlock g =
     put32 (Magic g) @ put32 (GProtocolVersion g) @ put16 (VendorID g) @ put16 (DeviceID g) @
     put16 (NumEndpoints g) @ [GMaxRequestStreams g, MaxResponderStreams g] @
     put16 (MaxResponderQueueWords g) @ put16 (MaxRequestQueueWords g) @
     [NumSequencerStates g, ConfigLock g, Options g, reserved0 g] @ put16 (NumIOPins g) @
     put16 (HWConfigPointer g) @
     [MaxConfigurableRequestStreams g, MaxConfigurableResponseStreams g] @
     put16 (ClientConfigPointer g) @ put16 (QueueConfigPointer g) @ put16 (reserved1 g) @
     put16 (EndpointConfigPointer g) @ put16 (EndpointConfigLength g) @ put16 (EndpointMapPointer g) @
     [EndpointMapMaxEntries g, reserved2 g] @ put16 (EndpointFunctionalConfigPointer g) @
     put16 (SequencerStateMapPointer g)"

definition DecodeGeneralBlock :: "bytes \<Rightarrow> (GeneralBlock \<times> bytes) go" where
  "DecodeGeneralBlock b =
     (if length b < generalBlockLen then Err (ERegmap ErrShortBuffer_regmap)
      else andThen (get32 b 0) (\<lambda>magic.
        if magic \<noteq> GeneralBlockMagic then Err (ERegmap ErrBadMagic)
        else
          andThen (get32 b 4) (\<lambda>pv. andThen (get16 b 8) (\<lambda>vid. andThen (get16 b 10) (\<lambda>did.
          andThen (get16 b 12) (\<lambda>neps. andThen (idx b 14) (\<lambda>mrs. andThen (idx b 15) (\<lambda>mps.
          andThen (get16 b 16) (\<lambda>mpq. andThen (get16 b 18) (\<lambda>mrq. andThen (idx b 20) (\<lambda>nss.
          andThen (idx b 21) (\<lambda>cl. andThen (idx b 22) (\<lambda>opt. andThen (idx b 23) (\<lambda>r0.
          andThen (get16 b 24) (\<lambda>nio. andThen (get16 b 26) (\<lambda>hw. andThen (idx b 28) (\<lambda>mcq.
          andThen (idx b 29) (\<lambda>mcp. andThen (get16 b 30) (\<lambda>cc. andThen (get16 b 32) (\<lambda>qc.
          andThen (get16 b 34) (\<lambda>r1. andThen (get16 b 36) (\<lambda>ec. andThen (get16 b 38) (\<lambda>el.
          andThen (get16 b 40) (\<lambda>em. andThen (idx b 42) (\<lambda>ee. andThen (idx b 43) (\<lambda>r2.
          andThen (get16 b 44) (\<lambda>ef. andThen (get16 b 46) (\<lambda>ss.
          andThen (slice b generalBlockLen (length b)) (\<lambda>rest.
            Ok (\<lparr>Magic = magic, GProtocolVersion = pv, VendorID = vid, DeviceID = did, NumEndpoints = neps,
              GMaxRequestStreams = mrs, MaxResponderStreams = mps, MaxResponderQueueWords = mpq,
              MaxRequestQueueWords = mrq, NumSequencerStates = nss, ConfigLock = cl, Options = opt,
              reserved0 = r0, NumIOPins = nio, HWConfigPointer = hw,
              MaxConfigurableRequestStreams = mcq, MaxConfigurableResponseStreams = mcp,
              ClientConfigPointer = cc, QueueConfigPointer = qc, reserved1 = r1,
              EndpointConfigPointer = ec, EndpointConfigLength = el, EndpointMapPointer = em,
              EndpointMapMaxEntries = ee, reserved2 = r2, EndpointFunctionalConfigPointer = ef,
              SequencerStateMapPointer = ss\<rparr>, rest))))))))))))))))))))))))))))))"

section \<open>Endpoint registers\<close>

record GenericEndpointBlock =
  Address :: u16
  Type :: EndpointType
  Enabled :: bool

definition genericEndpointBlockLen :: nat where "genericEndpointBlockLen = 3"

text \<open>The address is written as one byte: an address above 255 loses its high bits.\<close>

definition encodeGenericEndpointBlock :: "GenericEndpointBlock \<Rightarrow> bytes" where
  "encodeGenericEndpointBlock g = [ucast (Address g), Type g, if Enabled g then 1 else 0]"

definition decodeGenericEndpointBlock :: "bytes \<Rightarrow> (GenericEndpointBlock \<times> bytes) go" where
  "decodeGenericEndpointBlock b =
     (if length b < genericEndpointBlockLen then Err (ERegmap ErrShortBuffer_regmap)
      else andThen (idx b 1) (\<lambda>t.
        if t \<ge> endpointTypeCount then Err (ERegmap ErrUnknownEndpointType)
        else andThen (idx b 0) (\<lambda>a. andThen (idx b 2) (\<lambda>en.
             andThen (slice b genericEndpointBlockLen (length b)) (\<lambda>rest.
               Ok (\<lparr>Address = ucast a, Type = t, Enabled = (en \<noteq> 0)\<rparr>, rest))))))"

record FunctionalBlock =
  Data :: bytes

definition encodeFunctionalBlock :: "FunctionalBlock \<Rightarrow> bytes" where
  "encodeFunctionalBlock f = put16 (word_of_nat (length (Data f))) @ Data f"

definition decodeFunctionalBlock :: "bytes \<Rightarrow> (FunctionalBlock \<times> bytes) go" where
  "decodeFunctionalBlock b =
     (if length b < 2 then Err (ERegmap ErrShortBuffer_regmap)
      else andThen (get16 b 0) (\<lambda>n.
        if length b < 2 + unat n then Err (ERegmap ErrShortBuffer_regmap)
        else andThen (slice b 2 (2 + unat n)) (\<lambda>d. andThen (slice b (2 + unat n) (length b)) (\<lambda>rest.
          Ok (\<lparr>Data = d\<rparr>, rest)))))"

record EndpointRegisters =
  Generic :: GenericEndpointBlock
  Functional :: FunctionalBlock

record RegisterMap =
  General :: GeneralBlock
  RPinMap :: PinMap
  Streams :: StreamLimits
  Queues :: QueueConfig
  endpoints :: "(u16 \<times> EndpointRegisters) list"

definition NewRegisterMap :: RegisterMap where
  "NewRegisterMap = \<lparr>
     General = zeroGeneralBlock\<lparr>Magic := GeneralBlockMagic, GProtocolVersion := RegisterMapVersion\<rparr>,
     RPinMap = \<lparr>entries = []\<rparr>,
     Streams = \<lparr>SMaxRequestStreams = 0, MaxInFlightPerStream = 0\<rparr>,
     Queues = \<lparr>FlushThreshold = 0, FlushTimeMillis = 0, HeartbeatIntervalMillis = 0\<rparr>,
     endpoints = []\<rparr>"

definition RegisterMap_Endpoint :: "RegisterMap \<Rightarrow> u16 \<Rightarrow> EndpointRegisters option" where
  "RegisterMap_Endpoint m addr = map_of (endpoints m) addr"

definition endpointType :: "RegisterMap \<Rightarrow> u16 \<Rightarrow> EndpointType option" where
  "endpointType m addr = map_option (Type \<circ> Generic) (RegisterMap_Endpoint m addr)"

definition Addresses :: "RegisterMap \<Rightarrow> u16 list" where
  "Addresses m = sort (map fst (endpoints m))"

definition HasEndpoint :: "RegisterMap \<Rightarrow> u16 \<Rightarrow> bool" where
  "HasEndpoint m addr \<longleftrightarrow> RegisterMap_Endpoint m addr \<noteq> None"

definition DeclareEndpoint :: "RegisterMap \<Rightarrow> u16 \<Rightarrow> EndpointType \<Rightarrow> RegisterMap" where
  "DeclareEndpoint m addr t =
     m\<lparr>endpoints := AList.update addr
        \<lparr>Generic = \<lparr>Address = addr, Type = t, Enabled = True\<rparr>, Functional = \<lparr>Data = []\<rparr>\<rparr> (endpoints m)\<rparr>"

definition EndpointRegisters_Encode :: "EndpointRegisters \<Rightarrow> bytes" where
  "EndpointRegisters_Encode ep = encodeGenericEndpointBlock (Generic ep) @ encodeFunctionalBlock (Functional ep)"

definition SameEndpointGenerics :: "RegisterMap \<Rightarrow> RegisterMap \<Rightarrow> bool" where
  "SameEndpointGenerics a b \<longleftrightarrow>
     length (endpoints a) = length (endpoints b) \<and>
     list_all (\<lambda>(addr, ea). case RegisterMap_Endpoint b addr of
        None \<Rightarrow> False | Some eb \<Rightarrow> Generic ea = Generic eb) (endpoints a)"

section \<open>The encoding of the register map\<close>

definition encodePinEntry :: "PinAssignment \<Rightarrow> bytes" where
  "encodePinEntry a = put16 (Pin a) @ [ucast (PEndpoint a), SignalIndex a]"

definition encodePinMap :: "PinMap \<Rightarrow> bytes" where
  "encodePinMap p = put16 (word_of_nat (length (entries p))) @ concat (map encodePinEntry (entries p))"

fun decodePinEntries :: "bytes \<Rightarrow> nat \<Rightarrow> nat \<Rightarrow> PinMap \<Rightarrow> PinMap go" where
  "decodePinEntries b off 0 p = Ok p"
| "decodePinEntries b off (Suc n) p =
     andThen (get16 b off) (\<lambda>pin. andThen (idx b (off + 2)) (\<lambda>ep. andThen (idx b (off + 3)) (\<lambda>sig.
       decodePinEntries b (off + 4) n
         (PinMap_Set p \<lparr>Pin = pin, PEndpoint = ucast ep, SignalIndex = sig\<rparr>))))"

definition decodePinMap :: "bytes \<Rightarrow> PinMap go" where
  "decodePinMap b =
     (if length b < 2 then Err (ERegmap ErrShortBuffer_regmap)
      else andThen (get16 b 0) (\<lambda>n.
        if length b \<noteq> 2 + 4 * unat n then Err (ERegmap ErrShortBuffer_regmap)
        else decodePinEntries b 2 (unat n) \<lparr>entries = []\<rparr>))"

definition encodeStreamLimits :: "StreamLimits \<Rightarrow> bytes" where
  "encodeStreamLimits s = [SMaxRequestStreams s] @ put16 (MaxInFlightPerStream s)"

definition decodeStreamLimits :: "bytes \<Rightarrow> StreamLimits go" where
  "decodeStreamLimits b =
     (if length b \<noteq> 3 then Err (ERegmap ErrShortBuffer_regmap)
      else andThen (idx b 0) (\<lambda>m. andThen (get16 b 1) (\<lambda>f.
        Ok \<lparr>SMaxRequestStreams = m, MaxInFlightPerStream = f\<rparr>)))"

definition encodeQueueConfig :: "QueueConfig \<Rightarrow> bytes" where
  "encodeQueueConfig q =
     put16 (FlushThreshold q) @ put32 (FlushTimeMillis q) @ put32 (HeartbeatIntervalMillis q)"

definition decodeQueueConfig :: "bytes \<Rightarrow> QueueConfig go" where
  "decodeQueueConfig b =
     (if length b \<noteq> 10 then Err (ERegmap ErrShortBuffer_regmap)
      else andThen (get16 b 0) (\<lambda>f. andThen (get32 b 2) (\<lambda>t. andThen (get32 b 6) (\<lambda>h.
        Ok \<lparr>FlushThreshold = f, FlushTimeMillis = t, HeartbeatIntervalMillis = h\<rparr>))))"

text \<open>The address lists only keys of the table, so the lookup succeeds.\<close>

definition encodeEndpointTable :: "RegisterMap \<Rightarrow> bytes" where
  "encodeEndpointTable m =
     (let addrs = Addresses m in
      put16 (word_of_nat (length addrs)) @
      concat (map (\<lambda>addr. case RegisterMap_Endpoint m addr of
         None \<Rightarrow> [] | Some ep \<Rightarrow> EndpointRegisters_Encode ep) addrs))"

fun decodeEndpoints ::
  "bytes \<Rightarrow> nat \<Rightarrow> (u16 \<times> EndpointRegisters) list \<Rightarrow> (u16 \<times> EndpointRegisters) list go" where
  "decodeEndpoints rest 0 out =
     (if length rest \<noteq> 0 then Err (ERegmap ErrTrailingBytes_regmap) else Ok out)"
| "decodeEndpoints rest (Suc n) out =
     andThen (decodeGenericEndpointBlock rest) (\<lambda>(generic, tail).
     andThen (decodeFunctionalBlock tail) (\<lambda>(functional, tail2).
       decodeEndpoints tail2 n
         (AList.update (Address generic) \<lparr>Generic = generic, Functional = functional\<rparr> out)))"

definition decodeEndpointTable :: "bytes \<Rightarrow> (u16 \<times> EndpointRegisters) list go" where
  "decodeEndpointTable b =
     (if length b < 2 then Err (ERegmap ErrShortBuffer_regmap)
      else andThen (get16 b 0) (\<lambda>n. andThen (slice b 2 (length b)) (\<lambda>rest.
        decodeEndpoints rest (unat n) [])))"

definition EncodeRegisterMap :: "RegisterMap \<Rightarrow> bytes" where
  "EncodeRegisterMap m =
     (let pinBytes = encodePinMap (RPinMap m);
          streamBytes = encodeStreamLimits (Streams m);
          queueBytes = encodeQueueConfig (Queues m);
          epBytes = encodeEndpointTable m;
          hw = word_of_nat generalBlockLen :: u16;
          client = hw + word_of_nat (length pinBytes);
          queue = client + word_of_nat (length streamBytes);
          epc = queue + word_of_nat (length queueBytes);
          general = (General m)\<lparr>Magic := GeneralBlockMagic, GProtocolVersion := RegisterMapVersion,
            NumEndpoints := word_of_nat (length (Addresses m)),
            GMaxRequestStreams := SMaxRequestStreams (Streams m),
            HWConfigPointer := hw, ClientConfigPointer := client, QueueConfigPointer := queue,
            EndpointConfigPointer := epc, EndpointConfigLength := word_of_nat (length epBytes)\<rparr>
      in EncodeGeneralBlock general @ pinBytes @ streamBytes @ queueBytes @ epBytes)"

definition DecodeRegisterMap :: "bytes \<Rightarrow> RegisterMap go" where
  "DecodeRegisterMap b =
     andThen (DecodeGeneralBlock b) (\<lambda>(general, _).
     if GProtocolVersion general \<noteq> RegisterMapVersion then Err (ERegmap ErrUnsupportedRegisterMapVersion)
     else
       (let p1 = HWConfigPointer general; p2 = ClientConfigPointer general;
            p3 = QueueConfigPointer general; p4 = EndpointConfigPointer general in
        if \<not> (word_of_nat generalBlockLen \<le> p1 \<and> p1 \<le> p2 \<and> p2 \<le> p3 \<and> p3 \<le> p4 \<and> unat p4 \<le> length b)
        then Err (ERegmap ErrShortBuffer_regmap)
        else
          andThen (slice b (unat p1) (unat p2)) (\<lambda>pinBytes. andThen (decodePinMap pinBytes) (\<lambda>pinMap.
          andThen (slice b (unat p2) (unat p3)) (\<lambda>streamBytes. andThen (decodeStreamLimits streamBytes) (\<lambda>streams.
          andThen (slice b (unat p3) (unat p4)) (\<lambda>queueBytes. andThen (decodeQueueConfig queueBytes) (\<lambda>queues.
          andThen (slice b (unat p4) (length b)) (\<lambda>epBytes. andThen (decodeEndpointTable epBytes) (\<lambda>eps.
            Ok \<lparr>General = general, RPinMap = pinMap, Streams = streams, Queues = queues,
                endpoints = eps\<rparr>))))))))))"

end
