(* ===== verification/Regmap_Lemmas.thy ===== *)
theory Regmap_Lemmas
  imports Regmap
begin

text \<open>
  The register map's codec and tables: no input makes the decoders panic, an encoded map decodes
  to the same configuration when its addresses and sizes fit the format, a decoded map is
  well-formed, and what validation and comparison of pin maps mean.
\<close>

section \<open>Decoding never panics\<close>

lemma DecodeGeneralBlock_no_panic: "DecodeGeneralBlock b \<noteq> Panic"
  by (auto simp: DecodeGeneralBlock_def generalBlockLen_def wire_simps)

lemma decodeGenericEndpointBlock_no_panic: "decodeGenericEndpointBlock b \<noteq> Panic"
  by (auto simp: decodeGenericEndpointBlock_def genericEndpointBlockLen_def wire_simps)

lemma decodeFunctionalBlock_no_panic: "decodeFunctionalBlock b \<noteq> Panic"
  by (auto simp: decodeFunctionalBlock_def wire_simps)

lemma decodePinEntries_no_panic: "off + 4 * n \<le> length b \<Longrightarrow> decodePinEntries b off n p \<noteq> Panic"
  by (induction b off n p rule: decodePinEntries.induct) auto

lemma decodePinMap_no_panic: "decodePinMap b \<noteq> Panic"
  by (simp add: decodePinMap_def decodePinEntries_no_panic)

lemma decodeEndpoints_no_panic: "decodeEndpoints b n out \<noteq> Panic"
  by (induction b n out rule: decodeEndpoints.induct)
    (auto simp: andThen_eq_Panic_iff decodeGenericEndpointBlock_no_panic decodeFunctionalBlock_no_panic)

lemma DecodeRegisterMap_no_panic: "DecodeRegisterMap b \<noteq> Panic"
proof -
  have "decodeStreamLimits x \<noteq> Panic" "decodeQueueConfig x \<noteq> Panic" "decodeEndpointTable x \<noteq> Panic" for x
    by (auto simp: decodeStreamLimits_def decodeQueueConfig_def decodeEndpointTable_def
        decodeEndpoints_no_panic wire_simps)
  then show ?thesis
    by (auto simp: DecodeRegisterMap_def Let_def andThen_eq_Panic_iff DecodeGeneralBlock_no_panic
        decodePinMap_no_panic slice_def word_le_nat_alt split: if_splits)
qed

section \<open>Round trips of the parts\<close>

lemma DecodeGeneralBlock_Encode:
  "Magic g = GeneralBlockMagic \<Longrightarrow> DecodeGeneralBlock (EncodeGeneralBlock g @ rest) = Ok (g, rest)"
  by (simp add: DecodeGeneralBlock_def EncodeGeneralBlock_def generalBlockLen_def put16_def put32_def)

lemma length_EncodeGeneralBlock [simp]: "length (EncodeGeneralBlock g) = 48"
  by (simp add: EncodeGeneralBlock_def)

lemma setEntry_new: "Pin a \<notin> Pin ` set es \<Longrightarrow> setEntry a es = es @ [a]"
  by (induction es) auto

lemma Pin_setEntry: "Pin ` set (setEntry a es) = insert (Pin a) (Pin ` set es)"
  by (induction es) auto

lemma distinct_setEntry: "distinct (map Pin es) \<Longrightarrow> distinct (map Pin (setEntry a es))"
  by (induction es) (auto simp: Pin_setEntry image_iff)

lemma length_encodePinEntry [simp]: "length (encodePinEntry a) = 4"
  by (simp add: encodePinEntry_def)

lemma decodePinEntries_encode:
  assumes "distinct (map Pin (acc @ es))" "\<forall>a\<in>set es. unat (PEndpoint a) \<le> 0xFF"
  shows "decodePinEntries (pre @ concat (map encodePinEntry es)) (length pre) (length es) \<lparr>entries = acc\<rparr>
    = Ok \<lparr>entries = acc @ es\<rparr>"
  using assms
proof (induction es arbitrary: pre acc)
  case (Cons a es)
  let ?buf = "pre @ concat (map encodePinEntry (a # es))"
  have g: "get16 ?buf (length pre) = (Ok (Pin a) :: u16 go)"
    using get16_append [of pre "Pin a"] by (simp add: encodePinEntry_def [of a] del: get_no_panic)
  have "decodePinEntries ?buf (length pre + 4) (length es) \<lparr>entries = acc @ [a]\<rparr> = Ok \<lparr>entries = acc @ a # es\<rparr>"
    using Cons.IH [of "acc @ [a]" "pre @ encodePinEntry a"] Cons.prems by simp
  moreover have "setEntry a acc = acc @ [a]" using Cons.prems by (intro setEntry_new) auto
  moreover have "?buf ! (length pre + 2) = ucast (PEndpoint a)" "?buf ! (length pre + 3) = SignalIndex a"
    by (simp_all add: encodePinEntry_def [of a] put16_def nth_append)
  moreover have "\<lparr>Pin = Pin a, PEndpoint = ucast (ucast (PEndpoint a) :: u8), SignalIndex = SignalIndex a\<rparr> = a"
    using Cons.prems(2) by (simp add: ucast_byte_u16)
  ultimately show ?case
    using g by (simp add: PinMap_Set_def wire_simps del: get_no_panic)
qed simp

lemma decodePinMap_encode:
  assumes "distinct (map Pin (entries p))" "\<forall>a\<in>set (entries p). unat (PEndpoint a) \<le> 0xFF"
    "length (entries p) < 65536"
  shows "decodePinMap (encodePinMap p) = Ok p"
proof -
  have u: "unat (word_of_nat (length (entries p)) :: u16) = length (entries p)"
    using assms(3) by (simp add: unat_of_nat)
  have len: "length (concat (map encodePinEntry es)) = 4 * length es" for es
    by (induction es) simp_all
  have "decodePinEntries (encodePinMap p) 2 (length (entries p)) \<lparr>entries = []\<rparr> = Ok p"
    using decodePinEntries_encode [of "[]" "entries p" "put16 (word_of_nat (length (entries p)))"] assms(1,2)
    by (simp add: encodePinMap_def)
  moreover have "get16 (encodePinMap p) 0 = (Ok (word_of_nat (length (entries p))) :: u16 go)"
    using get16_append [of "[]"] by (simp add: encodePinMap_def del: get_no_panic)
  moreover have "length (encodePinMap p) = 2 + 4 * length (entries p)" by (simp add: encodePinMap_def len)
  ultimately show ?thesis by (simp add: decodePinMap_def u del: get_no_panic)
qed

lemma decodeStreamLimits_encode: "decodeStreamLimits (encodeStreamLimits s) = Ok s"
  by (simp add: decodeStreamLimits_def encodeStreamLimits_def)

lemma decodeQueueConfig_encode: "decodeQueueConfig (encodeQueueConfig q) = Ok q"
  by (simp add: decodeQueueConfig_def encodeQueueConfig_def put16_def put32_def)

lemma length_encode_streams [simp]: "length (encodeStreamLimits s) = 3" "length (encodeQueueConfig q) = 10"
  by (simp_all add: encodeStreamLimits_def encodeQueueConfig_def)

lemma decodeGenericEndpointBlock_encode:
  assumes "unat (Address g) \<le> 0xFF" "Type g < endpointTypeCount"
  shows "decodeGenericEndpointBlock (encodeGenericEndpointBlock g @ rest) = Ok (g, rest)"
  using assms by (simp add: decodeGenericEndpointBlock_def encodeGenericEndpointBlock_def
      genericEndpointBlockLen_def ucast_byte_u16 not_le numeral_3_eq_3)

lemma decodeFunctionalBlock_encode:
  assumes "length (Data f) < 65536"
  shows "decodeFunctionalBlock (encodeFunctionalBlock f @ rest) = Ok (f, rest)"
proof -
  have u: "unat (word_of_nat (length (Data f)) :: u16) = length (Data f)"
    using assms by (simp add: unat_of_nat)
  have "get16 (encodeFunctionalBlock f @ rest) 0 = (Ok (word_of_nat (length (Data f))) :: u16 go)"
    using get16_append [of "[]"] by (simp add: encodeFunctionalBlock_def del: get_no_panic)
  then show ?thesis
    by (simp add: decodeFunctionalBlock_def u del: get_no_panic) (simp add: encodeFunctionalBlock_def)
qed

lemma update_new: "k \<notin> fst ` set al \<Longrightarrow> AList.update k v al = al @ [(k, v)]"
  by (induction al) auto

definition ep_fits :: "EndpointRegisters \<Rightarrow> bool" where
  "ep_fits e \<longleftrightarrow> unat (Address (Generic e)) \<le> 0xFF \<and> Type (Generic e) < endpointTypeCount \<and>
     length (Data (Functional e)) < 65536"

lemma ep_eta: "\<lparr>Generic = Generic e, Functional = Functional e\<rparr> = e"
  by simp

lemma decodeEndpoints_encode:
  assumes "distinct (map fst (out @ eps))" "\<forall>(a, e)\<in>set eps. Address (Generic e) = a \<and> ep_fits e"
  shows "decodeEndpoints (concat (map (EndpointRegisters_Encode \<circ> snd) eps)) (length eps) out = Ok (out @ eps)"
  using assms
proof (induction eps arbitrary: out)
  case (Cons x eps)
  obtain a e where x: "x = (a, e)" by fastforce
  have "AList.update a e out = out @ [(a, e)]"
    using Cons.prems by (intro update_new) (auto simp: x)
  moreover have e: "Address (Generic e) = a" "ep_fits e" using Cons.prems(2) by (simp_all add: x)
  have "decodeGenericEndpointBlock (encodeGenericEndpointBlock (Generic e) @ r) = Ok (Generic e, r)"
    "decodeFunctionalBlock (encodeFunctionalBlock (Functional e) @ r) = Ok (Functional e, r)" for r
    using e(2) by (simp_all add: ep_fits_def decodeGenericEndpointBlock_encode decodeFunctionalBlock_encode)
  moreover have "decodeEndpoints (concat (map (EndpointRegisters_Encode \<circ> snd) eps)) (length eps) (out @ [(a, e)])
      = Ok (out @ (a, e) # eps)"
    using Cons.IH [of "out @ [(a, e)]"] Cons.prems by (simp add: x comp_def)
  ultimately show ?case
    using e(1) by (simp add: x EndpointRegisters_Encode_def [of e] ep_eta comp_def)
qed simp

section \<open>Well-formed register maps\<close>

definition wf_regmap :: "RegisterMap \<Rightarrow> bool" where
  "wf_regmap m \<longleftrightarrow> distinct (map fst (endpoints m)) \<and> (\<forall>(a, e)\<in>set (endpoints m). Address (Generic e) = a) \<and>
     distinct (map Pin (entries (RPinMap m)))"

text \<open>What fits the encoding: byte addresses, known types, 16-bit sizes and pointers.\<close>

definition fits_regmap :: "RegisterMap \<Rightarrow> bool" where
  "fits_regmap m \<longleftrightarrow> (\<forall>(a, e)\<in>set (endpoints m). ep_fits e) \<and>
     (\<forall>a\<in>set (entries (RPinMap m)). unat (PEndpoint a) \<le> 0xFF) \<and> length (entries (RPinMap m)) \<le> 16367"

definition canonEndpoints :: "RegisterMap \<Rightarrow> (u16 \<times> EndpointRegisters) list" where
  "canonEndpoints m = sort_key fst (endpoints m)"

lemma map_of_sort_key: "distinct (map fst al) \<Longrightarrow> map_of (sort_key fst al) = map_of al"
  by (rule map_of_inject_set [THEN iffD2]) (simp_all add: distinct_map inj_on_def)

lemma Addresses_canon:
  assumes "distinct (map fst (endpoints m))"
  shows "map fst (canonEndpoints m) = Addresses m"
  unfolding Addresses_def canonEndpoints_def
proof (rule sorted_distinct_set_unique)
  show "distinct (map fst (sort_key fst (endpoints m)))"
    using assms by (simp add: distinct_map)
qed (use assms in simp_all)

lemma encodeEndpointTable_canon:
  assumes "distinct (map fst (endpoints m))"
  shows "encodeEndpointTable m = put16 (word_of_nat (length (canonEndpoints m))) @
    concat (map (EndpointRegisters_Encode \<circ> snd) (canonEndpoints m))"
proof -
  have "RegisterMap_Endpoint m (fst x) = Some (snd x)" if "x \<in> set (canonEndpoints m)" for x
    using that assms by (simp add: RegisterMap_Endpoint_def canonEndpoints_def)
  then have "map (\<lambda>addr. case RegisterMap_Endpoint m addr of None \<Rightarrow> [] | Some ep \<Rightarrow> EndpointRegisters_Encode ep)
      (map fst (canonEndpoints m)) = map (EndpointRegisters_Encode \<circ> snd) (canonEndpoints m)"
    by simp
  then show ?thesis
    unfolding encodeEndpointTable_def Let_def Addresses_canon [OF assms, symmetric] by (simp only: length_map)
qed

lemma few_addresses:
  assumes "distinct (xs :: u16 list)" "\<forall>x\<in>set xs. unat x \<le> 0xFF"
  shows "length xs \<le> 256"
proof -
  have "card (unat ` set xs) = card (set xs)" by (rule card_image) (auto intro!: inj_onI unsigned_word_eqI)
  moreover have "card (unat ` set xs) \<le> card {0..255::nat}"
    using assms(2) by (intro card_mono) auto
  ultimately show ?thesis using assms(1) by (simp add: distinct_card)
qed

lemma decodeEndpointTable_encode:
  assumes "wf_regmap m" "fits_regmap m"
  shows "decodeEndpointTable (encodeEndpointTable m) = Ok (canonEndpoints m)"
proof -
  have d: "distinct (map fst (endpoints m))" using assms(1) by (simp add: wf_regmap_def)
  have set_eq: "set (canonEndpoints m) = set (endpoints m)" "length (canonEndpoints m) = length (endpoints m)"
    by (simp_all add: canonEndpoints_def)
  have "length (map fst (endpoints m)) \<le> 256"
    using assms by (intro few_addresses d) (fastforce simp: wf_regmap_def fits_regmap_def ep_fits_def)
  then have u: "unat (word_of_nat (length (canonEndpoints m)) :: u16) = length (canonEndpoints m)"
    by (simp add: set_eq unat_of_nat)
  have dc: "distinct (map fst (canonEndpoints m))"
    using d by (simp add: Addresses_canon [OF d] Addresses_def)
  have "decodeEndpoints (concat (map (EndpointRegisters_Encode \<circ> snd) (canonEndpoints m)))
      (length (canonEndpoints m)) [] = Ok (canonEndpoints m)"
    using decodeEndpoints_encode [of "[]" "canonEndpoints m"] dc assms
    by (auto simp: set_eq wf_regmap_def fits_regmap_def)
  moreover have "get16 (put16 n @ r) 0 = (Ok n :: u16 go)" for n r
    using get16_append [of "[]" n r] by (simp del: get_no_panic)
  ultimately show ?thesis
    by (simp add: decodeEndpointTable_def encodeEndpointTable_canon [OF d] u del: get_no_panic)
qed

section \<open>The round trip of the register map\<close>

lemma DecodeRegisterMap_Encode:
  assumes "wf_regmap m" "fits_regmap m"
  shows "\<exists>g. DecodeRegisterMap (EncodeRegisterMap m) = Ok \<lparr>General = g, RPinMap = RPinMap m, Streams = Streams m,
      Queues = Queues m, endpoints = canonEndpoints m\<rparr> \<and>
    (Magic (General m) = GeneralBlockMagic \<and> GProtocolVersion (General m) = RegisterMapVersion \<longrightarrow>
       sameGeneralIdentity g (General m)) \<and>
    NumEndpoints g = word_of_nat (length (endpoints m))"
proof -
  let ?P = "encodePinMap (RPinMap m)" let ?S = "encodeStreamLimits (Streams m)" let ?Q = "encodeQueueConfig (Queues m)"
  let ?E = "encodeEndpointTable m"
  define n where "n = length ?P"
  have n: "n \<le> 65470"
  proof -
    have "length (concat (map encodePinEntry es)) = 4 * length es" for es by (induction es) simp_all
    then show ?thesis using assms(2) by (simp add: n_def encodePinMap_def fits_regmap_def)
  qed
  define p1 p2 p3 p4 :: u16 where ps: "p1 = word_of_nat 48" "p2 = word_of_nat (48 + n)"
    "p3 = word_of_nat (48 + n + 3)" "p4 = word_of_nat (48 + n + 3 + 10)"
  let ?g = "(General m)\<lparr>Magic := GeneralBlockMagic, GProtocolVersion := RegisterMapVersion,
            NumEndpoints := word_of_nat (length (Addresses m)),
            GMaxRequestStreams := SMaxRequestStreams (Streams m),
            HWConfigPointer := p1, ClientConfigPointer := p2, QueueConfigPointer := p3,
            EndpointConfigPointer := p4, EndpointConfigLength := word_of_nat (length ?E)\<rparr>"
  have enc: "EncodeRegisterMap m = EncodeGeneralBlock ?g @ ?P @ ?S @ ?Q @ ?E"
    unfolding EncodeRegisterMap_def Let_def length_encode_streams n_def [symmetric] generalBlockLen_def ps
    by (simp only: of_nat_add)
  have ptr: "unat p1 = 48" "unat p2 = 48 + n" "unat p3 = 48 + n + 3" "unat p4 = 48 + n + 3 + 10"
    unfolding ps using n by (simp_all only: unat_of_nat) simp_all
  have dg: "DecodeGeneralBlock (EncodeRegisterMap m) = Ok (?g, ?P @ ?S @ ?Q @ ?E)"
    unfolding enc by (rule DecodeGeneralBlock_Encode) simp
  have "\<forall>a\<in>set (entries (RPinMap m)). unat (PEndpoint a) \<le> 0xFF" "length (entries (RPinMap m)) < 65536"
    "distinct (map Pin (entries (RPinMap m)))"
    using assms by (auto simp: fits_regmap_def wf_regmap_def)
  then have dp: "decodePinMap ?P = Ok (RPinMap m)" by (intro decodePinMap_encode)
  have sl: "slice (EncodeRegisterMap m) (unat p1) (unat p2) = (Ok ?P :: bytes go)"
    "slice (EncodeRegisterMap m) (unat p2) (unat p3) = (Ok ?S :: bytes go)"
    "slice (EncodeRegisterMap m) (unat p3) (unat p4) = (Ok ?Q :: bytes go)"
    "slice (EncodeRegisterMap m) (unat p4) (length (EncodeRegisterMap m)) = (Ok ?E :: bytes go)"
    unfolding ptr by (simp_all add: slice_def enc n_def)
  have "word_of_nat generalBlockLen \<le> p1" "p1 \<le> p2" "p2 \<le> p3" "p3 \<le> p4" "unat p4 \<le> length (EncodeRegisterMap m)"
    by (simp_all add: word_le_nat_alt ptr generalBlockLen_def enc n_def)
  then have "DecodeRegisterMap (EncodeRegisterMap m) = Ok \<lparr>General = ?g, RPinMap = RPinMap m, Streams = Streams m,
      Queues = Queues m, endpoints = canonEndpoints m\<rparr>"
    unfolding DecodeRegisterMap_def dg
    by (simp add: Let_def sl dp decodeStreamLimits_encode decodeQueueConfig_encode
        decodeEndpointTable_encode [OF assms] del: slice_Ok)
  then show ?thesis
    by (intro exI [of _ ?g]) (auto simp: sameGeneralIdentity_def Addresses_def)
qed

section \<open>Decoded register maps are well-formed\<close>

lemma decodePinEntries_distinct:
  "decodePinEntries b off n p = Ok p' \<Longrightarrow> distinct (map Pin (entries p)) \<Longrightarrow> distinct (map Pin (entries p'))"
  by (induction b off n p rule: decodePinEntries.induct)
    (auto simp: andThen_eq_Ok_iff PinMap_Set_def distinct_setEntry)

lemma decodeEndpoints_wf:
  "decodeEndpoints b n out = Ok eps \<Longrightarrow> distinct (map fst out) \<Longrightarrow> (\<forall>(a, e)\<in>set out. Address (Generic e) = a) \<Longrightarrow>
   distinct (map fst eps) \<and> (\<forall>(a, e)\<in>set eps. Address (Generic e) = a)"
proof (induction b n out rule: decodeEndpoints.induct)
  case (2 rest n out)
  from "2.prems"(1) obtain g t f t2 where dec: "decodeGenericEndpointBlock rest = Ok (g, t)" "decodeFunctionalBlock t = Ok (f, t2)"
    and rec: "decodeEndpoints t2 n (AList.update (Address g) \<lparr>Generic = g, Functional = f\<rparr> out) = Ok eps"
    by (auto simp: andThen_eq_Ok_iff)
  have "set (AList.update k v al) \<subseteq> insert (k, v) (set al)" for k :: u16 and v :: EndpointRegisters and al
    by (induction al) auto
  then have "\<forall>(a, e)\<in>set (AList.update (Address g) \<lparr>Generic = g, Functional = f\<rparr> out). Address (Generic e) = a"
    using "2.prems"(3) by fastforce
  then show ?case
    using "2.IH" [OF dec(1) refl dec(2) refl rec] "2.prems"(2) by (simp add: distinct_update)
qed (auto split: if_splits)

lemma DecodeRegisterMap_wf:
  assumes "DecodeRegisterMap b = Ok m"
  shows "wf_regmap m"
proof -
  obtain pb eb where p: "decodePinMap pb = Ok (RPinMap m)" and e: "decodeEndpointTable eb = Ok (endpoints m)"
    using assms by (auto simp: DecodeRegisterMap_def Let_def andThen_eq_Ok_iff split: if_splits)
  have "distinct (map Pin (entries (RPinMap m)))"
    using p decodePinEntries_distinct by (fastforce simp: decodePinMap_def andThen_eq_Ok_iff split: if_splits)
  moreover have "distinct (map fst (endpoints m)) \<and> (\<forall>(a, e)\<in>set (endpoints m). Address (Generic e) = a)"
    using e decodeEndpoints_wf by (fastforce simp: decodeEndpointTable_def andThen_eq_Ok_iff split: if_splits)
  ultimately show ?thesis by (simp add: wf_regmap_def)
qed

section \<open>Validation and comparison of pin maps\<close>

definition entryOk :: "(u16 \<Rightarrow> EndpointType option) \<Rightarrow> PinAssignment \<Rightarrow> bool" where
  "entryOk reg a \<longleftrightarrow> (\<exists>t. reg (PEndpoint a) = Some t \<and> EndpointType_Valid t \<and> SignalName t (SignalIndex a) \<noteq> None)"

lemma validateEntries_Ok_iff:
  "validateEntries reg seen es = Ok () \<longleftrightarrow>
     distinct (map Pin es) \<and> set seen \<inter> Pin ` set es = {} \<and> (\<forall>a\<in>set es. entryOk reg a)"
proof (induction es arbitrary: seen)
  case (Cons a es)
  then show ?case by (auto simp: entryOk_def split: option.splits)
qed simp

lemma PinMap_Validate_iff:
  "PinMap_Validate p reg = Ok () \<longleftrightarrow> distinct (map Pin (entries p)) \<and> (\<forall>a\<in>set (entries p). entryOk reg a)"
  by (simp add: PinMap_Validate_def validateEntries_Ok_iff)

lemma PinMap_Equal_iff:
  assumes "distinct (map Pin (entries p))" "distinct (map Pin (entries q))"
  shows "PinMap_Equal p q \<longleftrightarrow> set (entries p) = set (entries q)"
proof -
  have d: "distinct (map fst (rev (map (\<lambda>a. (Pin a, a)) (entries p))))"
    using assms(1) by (simp add: comp_def flip: rev_map)
  have "byPin (entries p) (Pin a) = Some a \<longleftrightarrow> a \<in> set (entries p)" for a
    unfolding byPin_def map_of_eq_Some_iff [OF d] by auto
  then have "PinMap_Equal p q \<longleftrightarrow> length (entries p) = length (entries q) \<and> set (entries q) \<subseteq> set (entries p)"
    by (auto simp: PinMap_Equal_def list_all_iff)
  moreover have "card (set (entries p)) = length (entries p)" "card (set (entries q)) = length (entries q)"
    using assms by (simp_all add: distinct_card distinct_map)
  ultimately show ?thesis
    by (metis List.finite_set card_subset_eq order_refl)
qed

lemma SameEndpointGenerics_types:
  assumes "SameEndpointGenerics a b" "distinct (map fst (endpoints a))" "distinct (map fst (endpoints b))"
  shows "endpointType a = endpointType b"
proof
  fix addr
  have sub: "fst ` set (endpoints a) \<subseteq> fst ` set (endpoints b)"
    using assms(1)
    by (force simp: SameEndpointGenerics_def list_all_iff RegisterMap_Endpoint_def split: option.splits
        dest: map_of_SomeD)
  have card: "card (fst ` set (endpoints a)) = length (endpoints a)" "card (fst ` set (endpoints b)) = length (endpoints b)"
    using assms(2,3) by (metis card_distinct distinct_card length_map list.set_map)+
  have keys: "fst ` set (endpoints a) = fst ` set (endpoints b)"
    using sub card assms(1) by (intro card_subset_eq) (auto simp: SameEndpointGenerics_def)
  show "endpointType a addr = endpointType b addr"
  proof (cases "map_of (endpoints a) addr")
    case None
    then have "map_of (endpoints b) addr = None" using keys by (simp add: map_of_eq_None_iff)
    then show ?thesis using None by (simp add: endpointType_def RegisterMap_Endpoint_def)
  next
    case (Some ea)
    then have "(addr, ea) \<in> set (endpoints a)" by (rule map_of_SomeD)
    then obtain eb where "map_of (endpoints b) addr = Some eb" "Generic ea = Generic eb"
      using assms(1) by (fastforce simp: SameEndpointGenerics_def list_all_iff RegisterMap_Endpoint_def split: option.splits)
    then show ?thesis using Some by (simp add: endpointType_def RegisterMap_Endpoint_def)
  qed
qed

section \<open>Properties\<close>

text \<open>C12: the register map round-trips. A well-formed map whose addresses fit one octet and whose
  sizes fit the 16-bit fields decodes, from its own encoding, to the same pins, stream and queue
  configuration and endpoints, and to the same server identity. Every decoded map is well-formed,
  and no octet string makes the decoder panic.\<close>

theorem regmap_roundtrip:
  "(wf_regmap m \<and> fits_regmap m \<longrightarrow>
      (\<exists>m'. DecodeRegisterMap (EncodeRegisterMap m) = Ok m' \<and> RPinMap m' = RPinMap m \<and>
         Streams m' = Streams m \<and> Queues m' = Queues m \<and>
         RegisterMap_Endpoint m' = RegisterMap_Endpoint m \<and>
         (Magic (General m) = GeneralBlockMagic \<and> GProtocolVersion (General m) = RegisterMapVersion \<longrightarrow>
            sameGeneralIdentity (General m') (General m)))) \<and>
   (DecodeRegisterMap b = Ok m'' \<longrightarrow> wf_regmap m'') \<and> DecodeRegisterMap b \<noteq> Panic"
proof -
  have "map_of (canonEndpoints m) = map_of (endpoints m)" if "wf_regmap m"
    using that by (simp add: canonEndpoints_def map_of_sort_key wf_regmap_def)
  then show ?thesis
    using DecodeRegisterMap_Encode [of m] DecodeRegisterMap_wf [of b m''] DecodeRegisterMap_no_panic [of b]
    by (fastforce simp: RegisterMap_Endpoint_def [abs_def])
qed

definition sampleRegisterMap :: RegisterMap where
  "sampleRegisterMap = DeclareEndpoint (DeclareEndpoint NewRegisterMap 7 EndpointTypeGPIO) 3 EndpointTypePWM"

theorem regmap_roundtrip_witness:
  "\<exists>m'. DecodeRegisterMap (EncodeRegisterMap sampleRegisterMap) = Ok m' \<and>
     RegisterMap_Endpoint m' = RegisterMap_Endpoint sampleRegisterMap \<and>
     sameGeneralIdentity (General m') (General sampleRegisterMap)"
proof -
  have "wf_regmap sampleRegisterMap" "fits_regmap sampleRegisterMap"
    by (simp_all add: wf_regmap_def fits_regmap_def ep_fits_def sampleRegisterMap_def DeclareEndpoint_def
        NewRegisterMap_def endpoint_types)
  moreover have "Magic (General sampleRegisterMap) = GeneralBlockMagic"
    "GProtocolVersion (General sampleRegisterMap) = RegisterMapVersion"
    by (simp_all add: sampleRegisterMap_def DeclareEndpoint_def NewRegisterMap_def)
  ultimately show ?thesis
    using regmap_roundtrip [of sampleRegisterMap] by blast
qed

end
