(* ===== verification/Server.thy ===== *)
theory Server
  imports Regmap_Lemmas Acf_Evt
begin

text \<open>
  The packages \<open>lifecycle\<close>, \<open>discovery\<close> (\<open>claim.go\<close>, the pure part of \<open>topology.go\<close>) and \<open>server\<close>:
  the RC Server, which composes the lifecycle state, the register map, access control and the
  configuration claim, and guards every write by them.

  An operation that may fail returns the server after the call and Go's \<open>error\<close> (\<open>None\<close> for \<open>nil\<close>).
  The injected clock is the argument \<open>now\<close> of the operations that read it, in nanoseconds. The
  mutex is not modelled: every exported method holds it throughout.
\<close>

section \<open>Lifecycle and configuration claims\<close>

datatype LifecycleState = StateUnconfigured | StateHWLocked | StateFullyConfigured

definition DefaultConfigurationClaimTimeout :: nanos where
  "DefaultConfigurationClaimTimeout = 30 * 1000000000"

record Claim =
  Held :: bool
  CStream :: StreamID
  Expires :: nanos

definition noClaim :: Claim where
  "noClaim = \<lparr>Held = False, CStream = zeroStreamID, Expires = 0\<rparr>"

definition Claim_Active :: "Claim \<Rightarrow> nanos \<Rightarrow> bool" where
  "Claim_Active c now \<longleftrightarrow> Held c \<and> now < Expires c"

definition IsConformantServer :: "GeneralBlock \<Rightarrow> bool" where
  "IsConformantServer g \<longleftrightarrow> Magic g = GeneralBlockMagic \<and> GProtocolVersion g = RegisterMapVersion \<and>
     VendorID g \<noteq> 0 \<and> DeviceID g \<noteq> 0"

record TopologyEndpoint =
  TAddress :: u16
  TType :: EndpointType

record Topology =
  TVendorID :: u16
  TDeviceID :: u16
  TProtocolVersion :: u32
  TEndpoints :: "TopologyEndpoint list"

definition DiscoverTopology :: "RegisterMap \<Rightarrow> Topology" where
  "DiscoverTopology m = \<lparr>TVendorID = VendorID (General m), TDeviceID = DeviceID (General m),
     TProtocolVersion = GProtocolVersion (General m),
     TEndpoints = List.map_filter (\<lambda>addr. case RegisterMap_Endpoint m addr of
        None \<Rightarrow> None | Some ep \<Rightarrow> Some \<lparr>TAddress = addr, TType = Type (Generic ep)\<rparr>) (Addresses m)\<rparr>"

section \<open>The server\<close>

record Server =
  lstate :: LifecycleState
  rmap :: RegisterMap
  acl :: AccessController
  claimTimeout :: nanos
  claim :: Claim

definition NewServer :: Server where
  "NewServer = \<lparr>lstate = StateUnconfigured, rmap = NewRegisterMap, acl = NewAccessController,
     claimTimeout = DefaultConfigurationClaimTimeout, claim = noClaim\<rparr>"

definition ClaimRoot :: "Server \<Rightarrow> StreamID \<Rightarrow> Server \<times> rcp_error option" where
  "ClaimRoot s stream =
     (case AccessController_ClaimRoot (acl s) stream of (a, e) \<Rightarrow> (s\<lparr>acl := a\<rparr>, e))"

definition Grant :: "Server \<Rightarrow> StreamID \<Rightarrow> u16 \<Rightarrow> Server" where
  "Grant s stream ep = s\<lparr>acl := AccessController_Grant (acl s) stream ep\<rparr>"

definition AdvanceToHWLocked :: "Server \<Rightarrow> Server \<times> rcp_error option" where
  "AdvanceToHWLocked s =
     (if lstate s \<noteq> StateUnconfigured then (s, Some (ELifecycle ErrLifecycleOutOfOrder))
      else
        (case PinMap_Validate (RPinMap (rmap s)) (endpointType (rmap s)) of
           Ok _ \<Rightarrow> (s\<lparr>lstate := StateHWLocked\<rparr>, None)
         | Err e \<Rightarrow> (s, Some e)
         | Panic \<Rightarrow> (s, None)))"

text \<open>The first address whose functional block is empty, in the order of the loop.\<close>

definition functionalIncomplete :: "RegisterMap \<Rightarrow> bool" where
  "functionalIncomplete m = list_ex (\<lambda>addr. case RegisterMap_Endpoint m addr of
     None \<Rightarrow> False | Some ep \<Rightarrow> length (Data (Functional ep)) = 0) (Addresses m)"

definition AdvanceToFullyConfigured :: "Server \<Rightarrow> Server \<times> rcp_error option" where
  "AdvanceToFullyConfigured s =
     (if lstate s \<noteq> StateHWLocked then (s, Some (ELifecycle ErrLifecycleOutOfOrder))
      else if functionalIncomplete (rmap s) then (s, Some (ELifecycle ErrFunctionalBlockIncomplete))
      else
        (case QueueConfig_Validate (Queues (rmap s)) of
           Ok _ \<Rightarrow> (s\<lparr>lstate := StateFullyConfigured\<rparr>, None)
         | Err e \<Rightarrow> (s, Some e)
         | Panic \<Rightarrow> (s, None)))"

definition DemoteToUnconfigured :: "Server \<Rightarrow> nanos \<Rightarrow> StreamID \<Rightarrow> Server \<times> rcp_error option" where
  "DemoteToUnconfigured s now rq =
     (if lstate s \<noteq> StateHWLocked then (s, Some (ELifecycle ErrLifecycleOutOfOrder))
      else if \<not> IsRoot (acl s) rq \<and> (\<not> Claim_Active (claim s) now \<or> CStream (claim s) \<noteq> rq)
      then (s, Some (ELifecycle ErrDemotionNotAuthorized))
      else (s\<lparr>lstate := StateUnconfigured\<rparr>, None))"

definition AddEndpoint :: "Server \<Rightarrow> StreamID \<Rightarrow> u16 \<Rightarrow> EndpointType \<Rightarrow> Server \<times> rcp_error option" where
  "AddEndpoint s rq addr t =
     (if \<not> IsRoot (acl s) rq then (s, Some (ERegmap ErrNotRootClient))
      else if lstate s \<noteq> StateUnconfigured then (s, Some (ERegmap ErrRegisterLocked))
      else if addr = EP0 then (s, Some (ERegmap ErrReservedAddress_regmap))
      else if HasEndpoint (rmap s) addr then (s, Some (ERegmap ErrDuplicateEndpoint_regmap))
      else (s\<lparr>rmap := DeclareEndpoint (rmap s) addr t\<rparr>, None))"

definition SetPinAssignment :: "Server \<Rightarrow> StreamID \<Rightarrow> PinAssignment \<Rightarrow> Server \<times> rcp_error option" where
  "SetPinAssignment s rq a =
     (if \<not> IsRoot (acl s) rq then (s, Some (ERegmap ErrNotRootClient))
      else if lstate s \<noteq> StateUnconfigured then (s, Some (ERegmap ErrRegisterLocked))
      else (s\<lparr>rmap := (rmap s)\<lparr>RPinMap := PinMap_Set (RPinMap (rmap s)) a\<rparr>\<rparr>, None))"

definition SetStreamLimits :: "Server \<Rightarrow> StreamID \<Rightarrow> StreamLimits \<Rightarrow> Server \<times> rcp_error option" where
  "SetStreamLimits s rq limits =
     (if \<not> IsRoot (acl s) rq then (s, Some (ERegmap ErrNotRootClient))
      else if lstate s = StateFullyConfigured then (s, Some (ERegmap ErrRegisterLocked))
      else (s\<lparr>rmap := (rmap s)\<lparr>Streams := limits\<rparr>\<rparr>, None))"

definition SetQueueConfig :: "Server \<Rightarrow> StreamID \<Rightarrow> QueueConfig \<Rightarrow> Server \<times> rcp_error option" where
  "SetQueueConfig s rq cfg =
     (if \<not> IsRoot (acl s) rq then (s, Some (ERegmap ErrNotRootClient))
      else if lstate s = StateFullyConfigured then (s, Some (ERegmap ErrRegisterLocked))
      else (s\<lparr>rmap := (rmap s)\<lparr>Queues := cfg\<rparr>\<rparr>, None))"

text \<open>Writing through the pointer that \<open>Endpoint\<close> returns.\<close>

definition setFunctional :: "Server \<Rightarrow> u16 \<Rightarrow> EndpointRegisters \<Rightarrow> bytes \<Rightarrow> Server" where
  "setFunctional s addr ep data =
     s\<lparr>rmap := (rmap s)\<lparr>endpoints := AList.update addr (ep\<lparr>Functional := \<lparr>Data = data\<rparr>\<rparr>) (endpoints (rmap s))\<rparr>\<rparr>"

definition WriteFunctional :: "Server \<Rightarrow> StreamID \<Rightarrow> u16 \<Rightarrow> bytes \<Rightarrow> Server \<times> rcp_error option" where
  "WriteFunctional s rq addr data =
     (if \<not> CanAccess (acl s) rq addr then (s, Some (ERegmap ErrAccessDenied))
      else
        (case RegisterMap_Endpoint (rmap s) addr of
           None \<Rightarrow> (s, Some (ERegmap ErrUnknownEndpoint_regmap))
         | Some ep \<Rightarrow> (setFunctional s addr ep data, None)))"

text \<open>\<open>copy(block[start:start+len(data)], data)\<close> for a range inside the block.\<close>

definition patch :: "bytes \<Rightarrow> nat \<Rightarrow> bytes \<Rightarrow> bytes" where
  "patch block start data = take start block @ data @ drop (start + length data) block"

definition WriteFunctionalAt :: "Server \<Rightarrow> StreamID \<Rightarrow> u16 \<Rightarrow> u16 \<Rightarrow> bytes \<Rightarrow> Server \<times> rcp_error option" where
  "WriteFunctionalAt s rq addr startAddr data =
     (if \<not> CanAccess (acl s) rq addr then (s, Some (ERegmap ErrAccessDenied))
      else
        (case RegisterMap_Endpoint (rmap s) addr of
           None \<Rightarrow> (s, Some (ERegmap ErrUnknownEndpoint_regmap))
         | Some ep \<Rightarrow>
             if length data = 0 then (s, None)
             else if unat startAddr + length data > length (Data (Functional ep)) then (s, None)
             else (setFunctional s addr ep (patch (Data (Functional ep)) (unat startAddr) data), None)))"

text \<open>
  \<open>ApplyConfigRequest\<close> works on the endpoint through two callbacks: \<open>encode\<close> renders the endpoint's
  present configuration as a block, \<open>adopt\<close> installs a block or fails. The endpoint's own state
  is threaded as \<open>'e\<close>. The result is the server, the endpoint, and the response body or error.
\<close>

type_synonym 'e adopt = "bytes \<Rightarrow> 'e \<Rightarrow> 'e \<times> rcp_error option"

definition ApplyConfigRequest ::
  "Server \<Rightarrow> 'e \<Rightarrow> StreamID \<Rightarrow> u16 \<Rightarrow> Message \<Rightarrow> ('e \<Rightarrow> bytes) \<Rightarrow> 'e adopt \<Rightarrow> Server \<times> 'e \<times> bytes go" where
  "ApplyConfigRequest s e rq addr req encode adopt =
     (case DecodeConfigRequestBody (Body req) of
        Err er \<Rightarrow> (s, e, Err er)
      | Panic \<Rightarrow> (s, e, Panic)
      | Ok (start, data) \<Rightarrow>
          (let current = encode e in
           if Has (Control req) FlagWrite then
             (if unat start + length data > length current then (s, e, Ok [])
              else
                (let patched = patch current (unat start) data in
                 case adopt patched e of
                   (e1, Some er) \<Rightarrow> (s, e1, Err er)
                 | (e1, None) \<Rightarrow>
                     (case WriteFunctional s rq addr patched of
                        (s1, Some er) \<Rightarrow> (s1, fst (adopt current e1), Err er)
                      | (s1, None) \<Rightarrow> (s1, e1, Ok []))))
           else if unat start \<ge> length current then (s, e, Ok [])
           else
             (let tail = drop (unat start) current; n = unat (ReadSizeOrSegment req) in
              (s, e, Ok (if n > 0 \<and> n < length tail then take n tail else tail)))))"

definition ReadEndpoint :: "Server \<Rightarrow> StreamID \<Rightarrow> u16 \<Rightarrow> bytes go" where
  "ReadEndpoint s rq addr =
     (if \<not> CanAccess (acl s) rq addr then Err (ERegmap ErrAccessDenied)
      else (case RegisterMap_Endpoint (rmap s) addr of
              None \<Rightarrow> Err (ERegmap ErrUnknownEndpoint_regmap)
            | Some ep \<Rightarrow> Ok (EndpointRegisters_Encode ep)))"

definition ReadEP0 :: "Server \<Rightarrow> StreamID \<Rightarrow> bytes go" where
  "ReadEP0 s rq =
     (if \<not> CanAccess (acl s) rq EP0 then Err (ERegmap ErrAccessDenied)
      else Ok (EncodeRegisterMap (rmap s)))"

definition WriteEP0 :: "Server \<Rightarrow> StreamID \<Rightarrow> bytes \<Rightarrow> Server \<times> rcp_error option" where
  "WriteEP0 s rq data =
     (if \<not> IsRoot (acl s) rq then (s, Some (ERegmap ErrNotRootClient))
      else
        (case DecodeRegisterMap data of
           Err e \<Rightarrow> (s, Some e)
         | Panic \<Rightarrow> (s, None)
         | Ok incoming \<Rightarrow>
             if \<not> sameGeneralIdentity (General incoming) (General (rmap s))
             then (s, Some (ERegmap ErrGeneralBlockReadOnly))
             else if lstate s \<noteq> StateUnconfigured \<and>
               (\<not> PinMap_Equal (RPinMap incoming) (RPinMap (rmap s)) \<or> \<not> SameEndpointGenerics incoming (rmap s))
             then (s, Some (ERegmap ErrRegisterLocked))
             else if lstate s = StateFullyConfigured \<and>
               (Streams incoming \<noteq> Streams (rmap s) \<or> Queues incoming \<noteq> Queues (rmap s))
             then (s, Some (ERegmap ErrRegisterLocked))
             else (s\<lparr>rmap := incoming\<rparr>, None)))"

section \<open>Discovery\<close>

definition ReadDiscovery :: "Server \<Rightarrow> bytes" where
  "ReadDiscovery s = EncodeRegisterMap (rmap s)"

definition HandleDiscoveryRequest :: "Server \<Rightarrow> Header \<Rightarrow> bool \<Rightarrow> bytes go" where
  "HandleDiscoveryRequest s hdr isACFGBB =
     (if Timed hdr then Err (EDiscovery ErrDiscoveryRequiresUntimedHeader)
      else if isACFGBB then Err (EDiscovery ErrDiscoveryRequestIsACFGBB)
      else Ok (ReadDiscovery s))"

definition SetConfigurationClaimTimeout :: "Server \<Rightarrow> nanos \<Rightarrow> Server" where
  "SetConfigurationClaimTimeout s d =
     s\<lparr>claimTimeout := (if d \<le> 0 then DefaultConfigurationClaimTimeout else d)\<rparr>"

definition ClaimConfiguration :: "Server \<Rightarrow> nanos \<Rightarrow> StreamID \<Rightarrow> Server \<times> rcp_error option" where
  "ClaimConfiguration s now stream =
     (if Claim_Active (claim s) now \<and> CStream (claim s) \<noteq> stream
      then (s, Some (EDiscovery ErrConfigurationClaimed))
      else (s\<lparr>claim := \<lparr>Held = True, CStream = stream, Expires = now + claimTimeout s\<rparr>\<rparr>, None))"

definition ConfigurationClaimant :: "Server \<Rightarrow> nanos \<Rightarrow> StreamID option" where
  "ConfigurationClaimant s now = (if Claim_Active (claim s) now then Some (CStream (claim s)) else None)"

definition ReleaseConfigurationClaim :: "Server \<Rightarrow> nanos \<Rightarrow> StreamID \<Rightarrow> Server \<times> rcp_error option" where
  "ReleaseConfigurationClaim s now stream =
     (if \<not> Claim_Active (claim s) now \<or> CStream (claim s) \<noteq> stream
      then (s, Some (EDiscovery ErrNotConfigurationClaimant))
      else (s\<lparr>claim := noClaim\<rparr>, None))"

end
