(* ===== verification/Server_Machine.thy ===== *)
theory Server_Machine
  imports Server
begin

text \<open>
  The server as a state machine: one rule of \<open>sstep\<close> for each operation that changes it, labelled by
  the time of the call and the requesting stream (\<open>None\<close> for calls that take no requester), its
  invariant, and what a step may change in which lifecycle state and for which requester.
\<close>

section \<open>Steps\<close>

inductive sstep :: "nanos \<Rightarrow> StreamID option \<Rightarrow> Server \<Rightarrow> Server \<Rightarrow> bool" where
  s_ClaimRoot: "sstep now (Some rq) s (fst (ClaimRoot s rq))"
| s_Grant: "sstep now None s (Grant s stream addr)"
| s_AdvanceToHWLocked: "sstep now None s (fst (AdvanceToHWLocked s))"
| s_AdvanceToFullyConfigured: "sstep now None s (fst (AdvanceToFullyConfigured s))"
| s_DemoteToUnconfigured: "sstep now (Some rq) s (fst (DemoteToUnconfigured s now rq))"
| s_AddEndpoint: "sstep now (Some rq) s (fst (AddEndpoint s rq addr t))"
| s_SetPinAssignment: "sstep now (Some rq) s (fst (SetPinAssignment s rq a))"
| s_SetStreamLimits: "sstep now (Some rq) s (fst (SetStreamLimits s rq limits))"
| s_SetQueueConfig: "sstep now (Some rq) s (fst (SetQueueConfig s rq cfg))"
| s_WriteFunctional: "sstep now (Some rq) s (fst (WriteFunctional s rq addr data))"
| s_WriteFunctionalAt: "sstep now (Some rq) s (fst (WriteFunctionalAt s rq addr start data))"
| s_WriteEP0: "sstep now (Some rq) s (fst (WriteEP0 s rq data))"
| s_SetConfigurationClaimTimeout: "sstep now None s (SetConfigurationClaimTimeout s d)"
| s_ClaimConfiguration: "sstep now (Some rq) s (fst (ClaimConfiguration s now rq))"
| s_ReleaseConfigurationClaim: "sstep now (Some rq) s (fst (ReleaseConfigurationClaim s now rq))"

inductive sreachable :: "Server \<Rightarrow> bool" where
  s_init: "sreachable NewServer"
| s_step: "sreachable s \<Longrightarrow> sstep now rq s s' \<Longrightarrow> sreachable s'"

section \<open>The invariant\<close>

text \<open>The maps that a write of EP0 may install.\<close>

definition ep0_allows :: "Server \<Rightarrow> RegisterMap \<Rightarrow> bool" where
  "ep0_allows s m \<longleftrightarrow> sameGeneralIdentity (General m) (General (rmap s)) \<and>
     (lstate s \<noteq> StateUnconfigured \<longrightarrow>
        PinMap_Equal (RPinMap m) (RPinMap (rmap s)) \<and> SameEndpointGenerics m (rmap s)) \<and>
     (lstate s = StateFullyConfigured \<longrightarrow> Streams m = Streams (rmap s) \<and> Queues m = Queues (rmap s))"

lemma WriteEP0_written:
  assumes "IsRoot (acl s) rq" "DecodeRegisterMap data = Ok m" "ep0_allows s m"
  shows "WriteEP0 s rq data = (s\<lparr>rmap := m\<rparr>, None)"
  using assms by (auto simp: WriteEP0_def ep0_allows_def)

lemma WriteEP0_cases:
  obtains (rejected) er where "WriteEP0 s rq data = (s, Some er)"
  | (written) m where "IsRoot (acl s) rq" "DecodeRegisterMap data = Ok m" "ep0_allows s m" "wf_regmap m"
      "WriteEP0 s rq data = (s\<lparr>rmap := m\<rparr>, None)"
proof (cases "\<exists>m. IsRoot (acl s) rq \<and> DecodeRegisterMap data = Ok m \<and> ep0_allows s m")
  case True
  then show ?thesis using that(2) WriteEP0_written DecodeRegisterMap_wf by blast
next
  case False
  then have "\<exists>er. WriteEP0 s rq data = (s, Some er)"
    using DecodeRegisterMap_no_panic [of data]
    by (auto simp: WriteEP0_def ep0_allows_def split: outcome.splits)
  then show ?thesis using that(1) by blast
qed

definition server_inv :: "Server \<Rightarrow> bool" where
  "server_inv s \<longleftrightarrow> wf_regmap (rmap s) \<and> 
     sameGeneralIdentity (General (rmap s)) (General NewRegisterMap) \<and>
     (lstate s \<noteq> StateUnconfigured \<longrightarrow> PinMap_Validate (RPinMap (rmap s)) (endpointType (rmap s)) = Ok ()) \<and>
     (lstate s = StateFullyConfigured \<longrightarrow> QueueConfig_Validate (Queues (rmap s)) = Ok ())"

lemma set_update_subset: "set (AList.update k v al) \<subseteq> insert (k, v) (set al)"
  by (induction al) auto

lemma wf_regmap_update:
  assumes "wf_regmap m" "Address (Generic e) = addr"
  shows "wf_regmap (m\<lparr>endpoints := AList.update addr e (endpoints m)\<rparr>)"
  using assms set_update_subset [of addr e "endpoints m"] by (auto simp: wf_regmap_def distinct_update)

lemma endpointType_setFunctional:
  assumes "RegisterMap_Endpoint (rmap s) addr = Some ep"
  shows "endpointType (rmap (setFunctional s addr ep data)) = endpointType (rmap s)"
  using assms by (auto simp: fun_eq_iff endpointType_def setFunctional_def RegisterMap_Endpoint_def update_conv')

lemma wf_regmap_Address: "wf_regmap m \<Longrightarrow> RegisterMap_Endpoint m addr = Some ep \<Longrightarrow> Address (Generic ep) = addr"
  by (fastforce simp: wf_regmap_def RegisterMap_Endpoint_def dest: map_of_SomeD)

lemma setFunctional_inv:
  assumes "server_inv s" "RegisterMap_Endpoint (rmap s) addr = Some ep"
  shows "server_inv (setFunctional s addr ep data)"
  using assms wf_regmap_update [of "rmap s" "ep\<lparr>Functional := \<lparr>Data = data\<rparr>\<rparr>" addr]
    wf_regmap_Address [of "rmap s" addr ep] endpointType_setFunctional [OF assms(2), of data]
  by (simp add: server_inv_def setFunctional_def)

lemma identity_trans: "sameGeneralIdentity a b \<Longrightarrow> sameGeneralIdentity b c \<Longrightarrow> sameGeneralIdentity a c"
  by (simp add: sameGeneralIdentity_def)

lemma WriteEP0_inv:
  assumes "server_inv s"
  shows "server_inv (fst (WriteEP0 s rq data))"
proof (cases rule: WriteEP0_cases [of s rq data])
  case (written m)
  have old: "wf_regmap (rmap s)" using assms by (simp add: server_inv_def)
  have "PinMap_Validate (RPinMap m) (endpointType m) = Ok ()" if "lstate s \<noteq> StateUnconfigured"
  proof -
    have "PinMap_Equal (RPinMap m) (RPinMap (rmap s))" "endpointType m = endpointType (rmap s)"
      using written(3,4) old that by (auto simp: ep0_allows_def wf_regmap_def intro: SameEndpointGenerics_types)
    moreover have "PinMap_Validate (RPinMap (rmap s)) (endpointType (rmap s)) = Ok ()"
      using assms that by (simp add: server_inv_def)
    ultimately show ?thesis
      using written(4) old by (simp add: PinMap_Validate_iff wf_regmap_def PinMap_Equal_iff)
  qed
  then show ?thesis
    using assms written identity_trans by (auto simp: server_inv_def ep0_allows_def)
qed (use assms in simp)

lemma endpointType_updates [simp]:
  "endpointType (m\<lparr>Queues := q\<rparr>) = endpointType m" "endpointType (m\<lparr>Streams := l\<rparr>) = endpointType m"
  by (simp_all add: fun_eq_iff endpointType_def RegisterMap_Endpoint_def)

lemma sstep_inv: "sstep now rq s s' \<Longrightarrow> server_inv s \<Longrightarrow> server_inv s'"
proof (induction rule: sstep.induct)
  case (s_AddEndpoint now rq s addr t)
  then show ?case
    by (auto simp: AddEndpoint_def DeclareEndpoint_def server_inv_def intro!: wf_regmap_update)
next
  case (s_SetPinAssignment now rq s a)
  then show ?case
    by (auto simp: SetPinAssignment_def server_inv_def wf_regmap_def PinMap_Set_def distinct_setEntry)
next
  case (s_WriteFunctional now rq s addr data)
  then show ?case by (auto simp: WriteFunctional_def setFunctional_inv split: option.splits)
next
  case (s_WriteFunctionalAt now rq s addr start data)
  then show ?case by (auto simp: WriteFunctionalAt_def setFunctional_inv split: option.splits)
next
  case (s_WriteEP0 now rq s data)
  then show ?case by (simp add: WriteEP0_inv)
qed (auto simp: ClaimRoot_def Grant_def AdvanceToHWLocked_def AdvanceToFullyConfigured_def DemoteToUnconfigured_def
   SetStreamLimits_def SetQueueConfig_def SetConfigurationClaimTimeout_def ClaimConfiguration_def
   ReleaseConfigurationClaim_def server_inv_def wf_regmap_def
   split: outcome.splits prod.splits)

lemma server_inv_init: "server_inv NewServer"
  by (simp add: server_inv_def NewServer_def NewRegisterMap_def wf_regmap_def sameGeneralIdentity_def)

lemma sreachable_inv: "sreachable s \<Longrightarrow> server_inv s"
  by (induction rule: sreachable.induct) (auto simp: server_inv_init sstep_inv)


section \<open>What a step may change\<close>

text \<open>The generic block of every endpoint.\<close>

definition generics :: "RegisterMap \<Rightarrow> u16 \<Rightarrow> GenericEndpointBlock option" where
  "generics m addr = map_option Generic (RegisterMap_Endpoint m addr)"

definition hwConfig :: "RegisterMap \<Rightarrow> PinAssignment set \<times> (u16 \<Rightarrow> GenericEndpointBlock option)" where
  "hwConfig m = (set (entries (RPinMap m)), generics m)"

definition swConfig :: "RegisterMap \<Rightarrow> StreamLimits \<times> QueueConfig" where
  "swConfig m = (Streams m, Queues m)"

lemma generics_setFunctional:
  assumes "RegisterMap_Endpoint (rmap s) addr = Some ep"
  shows "generics (rmap (setFunctional s addr ep data)) = generics (rmap s)"
  using assms by (auto simp: fun_eq_iff generics_def setFunctional_def RegisterMap_Endpoint_def update_conv')

lemma config_setFunctional:
  assumes "RegisterMap_Endpoint (rmap s) addr = Some ep"
  shows "hwConfig (rmap (setFunctional s addr ep data)) = hwConfig (rmap s)"
    "swConfig (rmap (setFunctional s addr ep data)) = swConfig (rmap s)"
  using generics_setFunctional [OF assms, of data] by (simp_all add: hwConfig_def swConfig_def setFunctional_def)

lemma Endpoint_setFunctional:
  "RegisterMap_Endpoint (rmap (setFunctional s addr ep data)) =
     (RegisterMap_Endpoint (rmap s))(addr \<mapsto> ep\<lparr>Functional := \<lparr>Data = data\<rparr>\<rparr>)"
  by (simp add: fun_eq_iff setFunctional_def RegisterMap_Endpoint_def update_conv')

lemma setFunctional_sel [simp]:
  "lstate (setFunctional s addr ep data) = lstate s" "acl (setFunctional s addr ep data) = acl s"
  "claim (setFunctional s addr ep data) = claim s" "General (rmap (setFunctional s addr ep data)) = General (rmap s)"
  by (simp_all add: setFunctional_def)

lemma SameEndpointGenerics_generics:
  assumes "SameEndpointGenerics a b" "distinct (map fst (endpoints a))" "distinct (map fst (endpoints b))"
  shows "generics a = generics b"
proof
  fix addr
  have t: "endpointType a addr = endpointType b addr" using SameEndpointGenerics_types [OF assms] by simp
  show "generics a addr = generics b addr"
  proof (cases "map_of (endpoints a) addr")
    case (Some ea)
    then obtain eb where eb: "map_of (endpoints b) addr = Some eb"
      using t by (cases "map_of (endpoints b) addr") (auto simp: endpointType_def RegisterMap_Endpoint_def)
    then have "Generic ea = Generic eb"
      using assms(1) map_of_SomeD [OF Some] by (fastforce simp: SameEndpointGenerics_def list_all_iff RegisterMap_Endpoint_def)
    then show ?thesis using Some eb by (simp add: generics_def RegisterMap_Endpoint_def)
  qed (use t in \<open>simp add: generics_def endpointType_def RegisterMap_Endpoint_def\<close>)
qed

lemma updates_config [simp]:
  "hwConfig (m\<lparr>Queues := q\<rparr>) = hwConfig m" "hwConfig (m\<lparr>Streams := l\<rparr>) = hwConfig m"
  "RegisterMap_Endpoint (m\<lparr>Queues := q\<rparr>) = RegisterMap_Endpoint m"
  "RegisterMap_Endpoint (m\<lparr>Streams := l\<rparr>) = RegisterMap_Endpoint m"
  by (simp_all add: fun_eq_iff hwConfig_def generics_def RegisterMap_Endpoint_def)

lemmas server_ops = ClaimRoot_def Grant_def AdvanceToHWLocked_def AdvanceToFullyConfigured_def DemoteToUnconfigured_def
  AddEndpoint_def SetPinAssignment_def SetStreamLimits_def SetQueueConfig_def WriteFunctional_def WriteFunctionalAt_def
  SetConfigurationClaimTimeout_def ClaimConfiguration_def ReleaseConfigurationClaim_def

lemma ep0_allows_config:
  assumes "ep0_allows s m" "wf_regmap m" "wf_regmap (rmap s)"
  shows "lstate s \<noteq> StateUnconfigured \<Longrightarrow> hwConfig m = hwConfig (rmap s)"
    "lstate s = StateFullyConfigured \<Longrightarrow> swConfig m = swConfig (rmap s)"
  using assms SameEndpointGenerics_generics [of m "rmap s"] PinMap_Equal_iff [of "RPinMap m" "RPinMap (rmap s)"]
  by (auto simp: ep0_allows_def hwConfig_def swConfig_def wf_regmap_def)

lemma WriteEP0_sel [simp]:
  "lstate (fst (WriteEP0 s rq data)) = lstate s" "acl (fst (WriteEP0 s rq data)) = acl s"
  "claim (fst (WriteEP0 s rq data)) = claim s"
  by (cases rule: WriteEP0_cases [of s rq data]; simp)+

text \<open>A locked configuration does not change.\<close>

lemma sstep_locked:
  assumes "sstep now rq s s'" "server_inv s"
  shows "(lstate s \<noteq> StateUnconfigured \<longrightarrow> hwConfig (rmap s') = hwConfig (rmap s)) \<and>
    (lstate s = StateFullyConfigured \<longrightarrow> swConfig (rmap s') = swConfig (rmap s))"
  using assms
proof (induction rule: sstep.induct)
  case (s_WriteEP0 now rq s data)
  show ?case
  proof (cases rule: WriteEP0_cases [of s rq data])
    case (written m)
    then show ?thesis using ep0_allows_config [OF written(3,4)] s_WriteEP0 by (simp add: server_inv_def)
  qed simp
qed (auto simp: server_ops config_setFunctional split: outcome.splits prod.splits option.splits)

text \<open>Every change of the lifecycle state is one of three transitions.\<close>

lemma sstep_lifecycle:
  assumes "sstep now rq s s'" "lstate s' \<noteq> lstate s"
  shows "s' = s\<lparr>lstate := lstate s'\<rparr> \<and>
    (lstate s = StateUnconfigured \<and> lstate s' = StateHWLocked \<and>
       PinMap_Validate (RPinMap (rmap s)) (endpointType (rmap s)) = Ok () \<or>
     lstate s = StateHWLocked \<and> lstate s' = StateFullyConfigured \<and> \<not> functionalIncomplete (rmap s) \<and>
       QueueConfig_Validate (Queues (rmap s)) = Ok () \<or>
     lstate s = StateHWLocked \<and> lstate s' = StateUnconfigured \<and>
       (\<exists>c. rq = Some c \<and> (IsRoot (acl s) c \<or> ConfigurationClaimant s now = Some c)))"
  using assms
  by (induction rule: sstep.induct)
    (auto simp: server_ops ConfigurationClaimant_def split: outcome.splits prod.splits option.splits if_splits)

text \<open>A stream other than the root changes only functional blocks it was granted.\<close>

lemma sstep_non_root:
  assumes "sstep now (Some c) s s'" "\<not> IsRoot (acl s) c"
  shows "hwConfig (rmap s') = hwConfig (rmap s) \<and> swConfig (rmap s') = swConfig (rmap s) \<and>
    General (rmap s') = General (rmap s) \<and> grants (acl s') = grants (acl s) \<and>
    (\<forall>addr. \<not> CanAccess (acl s) c addr \<longrightarrow> RegisterMap_Endpoint (rmap s') addr = RegisterMap_Endpoint (rmap s) addr)"
  using assms
  by (induction now "Some c" s s' rule: sstep.induct)
    (auto simp: server_ops config_setFunctional Endpoint_setFunctional WriteEP0_def AccessController_ClaimRoot_def
      split: outcome.splits prod.splits option.splits)

lemma sstep_root:
  assumes "sstep now rq s s'" "IsRoot (acl s) r"
  shows "IsRoot (acl s') r"
  using assms
  by (induction rule: sstep.induct)
    (auto simp: server_ops IsRoot_def AccessController_ClaimRoot_def AccessController_Grant_def
      split: outcome.splits prod.splits option.splits)

section \<open>Runs\<close>

definition sany :: "Server \<Rightarrow> Server \<Rightarrow> bool" where
  "sany s s' \<longleftrightarrow> (\<exists>now rq. sstep now rq s s')"

interpretation srv: invariant_steps sany server_inv
  by unfold_locales (auto simp: sany_def intro: sstep_inv)

end
