(* ===== verification/Ep_Config.thy ===== *)
theory Ep_Config
  imports Server_Machine
begin

text \<open>
  The contract between \<open>server.Server.ApplyConfigRequest\<close> and the endpoint types that use it: what the
  callbacks \<open>encode\<close> and \<open>adopt\<close> of an endpoint promise, and what the shared implementation of
  configuration access then guarantees for every endpoint type. Each endpoint type interprets
  the locale on its own callbacks.
\<close>

lemma WriteFunctional_cases:
  obtains (failed) er where "WriteFunctional s rq addr data = (s, Some er)"
  | (written) ep where "CanAccess (acl s) rq addr" "RegisterMap_Endpoint (rmap s) addr = Some ep"
      "WriteFunctional s rq addr data = (setFunctional s addr ep data, None)"
proof (cases "CanAccess (acl s) rq addr")
  case True
  then show ?thesis
    using that by (cases "RegisterMap_Endpoint (rmap s) addr") (auto simp: WriteFunctional_def)
qed (use that(1) in \<open>auto simp: WriteFunctional_def\<close>)

section \<open>The steps every endpoint type shares\<close>

text \<open>
  The packages of the endpoint types repeat the same code. The model names it once.
  \<open>configureEndpoint\<close> is \<open>Configure\<close>: validate, persist through the server, adopt. \<open>adoptBlock\<close> is
  \<open>adoptConfigBlock\<close>: decode, validate, adopt. \<open>endpointRequest\<close> is the part of \<open>HandleRequest\<close> before the
  request reaches the interface: address, access, event field, configuration access. What follows
  is the argument \<open>plain\<close>, which returns the endpoint and the response or error.
  \<open>responseWith\<close> is \<open>responseFor\<close>; the types differ in the flags it sets.
\<close>

text \<open>
  The transports of the endpoints are supplied from outside: a function from what is handed over to an
  error or an answer. It stands for the transport's behaviour at the moment of the call.
\<close>

type_synonym ('a, 'b) transport = "'a \<Rightarrow> rcp_error + 'b"

definition responseWith :: "Message \<Rightarrow> ControlFlags \<Rightarrow> bytes \<Rightarrow> Message" where
  "responseWith req rw body = zeroMessage\<lparr>Kind := Kind req, ByteBusID := ByteBusID req,
     TransactionNum := TransactionNum req, Control := FlagResponse OR rw, Body := body\<rparr>"

definition configureEndpoint ::
  "('c \<Rightarrow> rcp_error option) \<Rightarrow> ('c \<Rightarrow> bytes) \<Rightarrow> ('c \<Rightarrow> 'e \<Rightarrow> 'e) \<Rightarrow> Server \<Rightarrow> 'e \<Rightarrow> u16 \<Rightarrow> StreamID \<Rightarrow> 'c \<Rightarrow>
     Server \<times> 'e \<times> rcp_error option" where
  "configureEndpoint validate enc put s e addr rq c =
     (case validate c of
        Some er \<Rightarrow> (s, e, Some er)
      | None \<Rightarrow>
          (case WriteFunctional s rq addr (enc c) of
             (s', Some er) \<Rightarrow> (s', e, Some er)
           | (s', None) \<Rightarrow> (s', put c e, None)))"

definition adoptBlock :: "(bytes \<Rightarrow> 'c go) \<Rightarrow> ('c \<Rightarrow> rcp_error option) \<Rightarrow> ('c \<Rightarrow> 'e \<Rightarrow> 'e) \<Rightarrow> 'e adopt" where
  "adoptBlock dec validate put raw e =
     (case dec raw of
        Err er \<Rightarrow> (e, Some er)
      | Panic \<Rightarrow> (e, None)
      | Ok c \<Rightarrow> (case validate c of Some er \<Rightarrow> (e, Some er) | None \<Rightarrow> (put c e, None)))"

definition endpointRequest ::
  "rcp_error \<Rightarrow> EVTClass \<Rightarrow> ('e \<Rightarrow> bytes) \<Rightarrow> 'e adopt \<Rightarrow> (bytes \<Rightarrow> Message) \<Rightarrow> (EVTDisposition \<Rightarrow> 'e \<times> Message go) \<Rightarrow>
     Server \<Rightarrow> 'e \<Rightarrow> u16 \<Rightarrow> StreamID \<Rightarrow> Message \<Rightarrow> Server \<times> 'e \<times> Message go" where
  "endpointRequest wrong cls encode adopt respond plain s e addr rq req =
     (if ByteBusID req \<noteq> addr then (s, e, Err wrong)
      else case ReadEndpoint s rq addr of
        Err er \<Rightarrow> (s, e, Err er)
      | Panic \<Rightarrow> (s, e, Panic)
      | Ok _ \<Rightarrow>
          (case Message_EVTDisposition req cls of
             Err er \<Rightarrow> (s, e, Err er)
           | Panic \<Rightarrow> (s, e, Panic)
           | Ok disp \<Rightarrow>
               if Action disp = EVTActionConfigure then
                 (case ApplyConfigRequest s e rq addr req encode adopt of
                    (s', e', body) \<Rightarrow> (s', e', andThen body (\<lambda>b. Ok (respond b))))
               else (case plain disp of (e', r) \<Rightarrow> (s, e', r))))"

text \<open>The three ways a request may go.\<close>

lemma endpointRequest_cases:
  assumes "endpointRequest wrong cls encode adopt respond plain s e addr rq req = (s', e', r)"
  obtains (failed) er where "s' = s" "e' = e" "r = Err er"
  | (config) body where "Message_EVTSelector req = 7" "ApplyConfigRequest s e rq addr req encode adopt = (s', e', body)"
      "r = andThen body (\<lambda>b. Ok (respond b))" "CanAccess (acl s) rq addr"
  | (plain) disp where "Message_EVTSelector req \<noteq> 7" "ByteBusID req = addr" "CanAccess (acl s) rq addr"
      "Message_EVTDisposition req cls = Ok disp" "s' = s" "plain disp = (e', r)"
proof (cases "ByteBusID req = addr \<and> (\<exists>b. ReadEndpoint s rq addr = Ok b) \<and> (\<exists>d. Message_EVTDisposition req cls = Ok d)")
  case False
  then show ?thesis
    using assms failed disposition_no_panic [of req cls]
    by (auto simp: endpointRequest_def ReadEndpoint_def split: if_splits option.splits outcome.splits)
next
  case True
  then obtain b d where b: "ByteBusID req = addr" "ReadEndpoint s rq addr = Ok b" "Message_EVTDisposition req cls = Ok d" by blast
  have acc: "CanAccess (acl s) rq addr" using b(2) by (auto simp: ReadEndpoint_def split: if_splits)
  show ?thesis
  proof (cases "Action d = EVTActionConfigure")
    case True
    obtain s1 e1 body where a: "ApplyConfigRequest s e rq addr req encode adopt = (s1, e1, body)" using prod_cases3 by blast
    with True have "s' = s1" "e' = e1" "r = andThen body (\<lambda>b. Ok (respond b))" using assms b by (simp_all add: endpointRequest_def)
    then show ?thesis using True a config [of body] acc disposition_configure [OF b(3)] by blast
  next
    case False
    obtain e1 r1 where "plain d = (e1, r1)" by fastforce
    with False have "s' = s" "plain d = (e', r)" using assms b by (simp_all add: endpointRequest_def)
    then show ?thesis using False plain [OF _ b(1) acc b(3)] disposition_configure [OF b(3)] by blast
  qed
qed

section \<open>The contract of configuration access\<close>

text \<open>
  The endpoint's configuration and its functional block in the register map agree. Most decoders
  read a flag octet as \<open>b != 0\<close>, so that a block has more than one spelling: \<open>norm\<close> takes a block to
  the spelling that \<open>encode\<close> uses.
\<close>

definition synced :: "(bytes \<Rightarrow> bytes) \<Rightarrow> ('e \<Rightarrow> bytes) \<Rightarrow> Server \<Rightarrow> u16 \<Rightarrow> 'e \<Rightarrow> bool" where
  "synced norm encode s addr e \<longleftrightarrow>
     map_option (norm \<circ> Data \<circ> Functional) (RegisterMap_Endpoint (rmap s) addr) = Some (encode e)"

locale ep_config =
  fixes encode :: "'e \<Rightarrow> bytes" and adopt :: "'e adopt" and configured :: "'e \<Rightarrow> bool" and norm :: "bytes \<Rightarrow> bytes"
  assumes adopt_failed: "adopt b e = (e', Some er) \<Longrightarrow> e' = e"
    and adopt_done: "adopt b e = (e', None) \<Longrightarrow> configured e' \<and> encode e' = norm b"
    and adopt_current: "configured e \<Longrightarrow> snd (adopt (encode e) e') = None"
    and norm_encode: "norm (encode e) = encode e"
begin

text \<open>A failed request leaves the register map and the endpoint's configuration as they were.\<close>

lemma apply_failed:
  assumes "ApplyConfigRequest s e rq addr req encode adopt = (s', e', Err er)" "configured e"
  shows "s' = s \<and> encode e' = encode e"
proof -
  have restored: "encode (fst (adopt (encode e) e1)) = encode e" for e1
    using adopt_current [OF assms(2), of e1] adopt_done [of "encode e" e1] norm_encode by (metis prod.collapse)
  show ?thesis
    using assms(1) restored
    by (auto simp: ApplyConfigRequest_def Let_def WriteFunctional_def dest: adopt_failed
        split: outcome.splits prod.splits option.splits if_splits)
qed

text \<open>A write inside the block patches the endpoint's configuration and the register map alike.\<close>

lemma apply_write:
  assumes "ApplyConfigRequest s e rq addr req encode adopt = (s', e', Ok r)"
    and "Has (Control req) FlagWrite" "DecodeConfigRequestBody (Body req) = Ok (start, data)"
    and "unat start + length data \<le> length (encode e)"
  shows "\<exists>ep. RegisterMap_Endpoint (rmap s) addr = Some ep \<and> CanAccess (acl s) rq addr \<and> r = [] \<and>
    s' = setFunctional s addr ep (patch (encode e) (unat start) data) \<and> configured e' \<and>
    encode e' = norm (patch (encode e) (unat start) data)"
  using assms
  by (auto simp: ApplyConfigRequest_def Let_def WriteFunctional_def dest: adopt_done
      split: outcome.splits prod.splits option.splits if_splits)

text \<open>Every other request that succeeds changes nothing.\<close>

lemma apply_other:
  assumes "ApplyConfigRequest s e rq addr req encode adopt = (s', e', Ok r)"
    and "DecodeConfigRequestBody (Body req) = Ok (start, data)"
    and "\<not> Has (Control req) FlagWrite \<or> unat start + length data > length (encode e)"
  shows "s' = s \<and> e' = e"
  using assms
  by (auto simp: ApplyConfigRequest_def Let_def split: outcome.splits prod.splits option.splits if_splits)

lemma apply_no_panic: "snd (snd (ApplyConfigRequest s e rq addr req encode adopt)) \<noteq> Panic"
  using DecodeConfigRequestBody_no_panic
  by (auto simp: ApplyConfigRequest_def Let_def split: outcome.splits prod.splits option.splits)

lemma apply_synced:
  assumes "ApplyConfigRequest s e rq addr req encode adopt = (s', e', r)" "configured e" "synced norm encode s addr e"
  shows "synced norm encode s' addr e'"
proof (cases r)
  case (Err er)
  then show ?thesis using apply_failed [of s e rq addr req s' e' er] assms by (simp add: synced_def)
next
  case (Ok b)
  obtain start data where d: "DecodeConfigRequestBody (Body req) = Ok (start, data)"
    using assms(1) Ok by (auto simp: ApplyConfigRequest_def split: outcome.splits)
  show ?thesis
  proof (cases "Has (Control req) FlagWrite \<and> unat start + length data \<le> length (encode e)")
    case True
    then obtain ep block where "s' = setFunctional s addr ep block" "encode e' = norm block"
      using apply_write [OF assms(1) [unfolded Ok] _ d] by metis
    then show ?thesis by (simp add: Endpoint_setFunctional synced_def)
  next
    case False
    then show ?thesis using apply_other [OF assms(1) [unfolded Ok] d] assms(3) by (auto simp: synced_def)
  qed
next
  case Panic
  then show ?thesis using apply_no_panic assms(1) by (metis snd_conv)
qed

text \<open>What every adoption keeps, the request keeps.\<close>

lemma apply_keeps:
  assumes "ApplyConfigRequest s e rq addr req encode adopt = (s', e', r)" "P e" "\<And>b e. P e \<Longrightarrow> P (fst (adopt b e))"
  shows "P e'"
proof -
  have step: "P e1" if "adopt b e0 = (e1, x)" "P e0" for b e0 e1 x using assms(3) [OF that(2), of b] that(1) by simp
  show ?thesis
    using assms(1,2) step assms(3)
    by (auto simp: ApplyConfigRequest_def Let_def split: outcome.splits prod.splits option.splits if_splits)
qed

lemma apply_configured:
  assumes "ApplyConfigRequest s e rq addr req encode adopt = (s', e', r)" "configured e"
  shows "configured e'"
proof (rule apply_keeps [where P = configured, OF assms])
  fix b e
  assume "configured e"
  then show "configured (fst (adopt b e))"
    using adopt_failed [of b e] adopt_done [of b e] by (cases "adopt b e"; cases "snd (adopt b e)") auto
qed


text \<open>
  A whole request keeps the endpoint and the register map in step, when its plain part leaves the
  configuration alone and keeps the endpoint's own invariant \<open>I\<close>.
\<close>

lemma request_in_step:
  assumes "endpointRequest wrong cls encode adopt respond plain s e addr rq req = (s', e', r)"
    and "configured e" "synced norm encode s addr e" "I e"
    and "\<And>b e. I e \<Longrightarrow> I (fst (adopt b e))"
    and "\<And>disp. Message_EVTDisposition req cls = Ok disp \<Longrightarrow>
      encode (fst (plain disp)) = encode e \<and> configured (fst (plain disp)) \<and> I (fst (plain disp))"
  shows "configured e' \<and> synced norm encode s' addr e' \<and> I e'"
  using assms(1)
proof (cases rule: endpointRequest_cases)
  case (config body)
  then show ?thesis
    using apply_configured [OF config(2) assms(2)] apply_synced [OF config(2) assms(2,3)]
      apply_keeps [where P = I, OF config(2) assms(4,5)] by blast
next
  case (plain disp)
  then show ?thesis using assms(2-4) assms(6) [OF plain(4)] by (simp add: synced_def)
qed (use assms(2-4) in simp)

text \<open>A response answers its request: same kind, address and transaction, flagged as a response.\<close>

lemma request_answers:
  assumes "endpointRequest wrong cls encode adopt (responseWith req rw) plain s e addr rq req = (s', e', Ok resp)"
    and "\<And>disp e' resp. plain disp = (e', Ok resp) \<Longrightarrow> \<exists>rw b. resp = responseWith req rw b"
  shows "CanAccess (acl s) rq addr \<and> (\<exists>rw b. resp = responseWith req rw b)"
  using assms(1)
proof (cases rule: endpointRequest_cases)
  case (plain disp)
  then show ?thesis using assms(2) by blast
next
  case (config body)
  then show ?thesis by (cases body) auto
qed simp

end

text \<open>
  The usual shape of an endpoint type: a configuration \<open>'c\<close> with a codec and a check, kept in a field of
  the endpoint. It satisfies the contract.
\<close>

definition reencode :: "('c \<Rightarrow> bytes) \<Rightarrow> (bytes \<Rightarrow> 'c go) \<Rightarrow> bytes \<Rightarrow> bytes" where
  "reencode enc dec b = (case dec b of Ok c \<Rightarrow> enc c | _ \<Rightarrow> b)"

locale config_block = body_codec enc dec "\<lambda>_. True"
  for enc :: "'c \<Rightarrow> bytes" and dec :: "bytes \<Rightarrow> 'c go" +
  fixes validate :: "'c \<Rightarrow> rcp_error option" and get :: "'e \<Rightarrow> 'c" and put :: "'c \<Rightarrow> 'e \<Rightarrow> 'e"
  assumes get_put: "get (put c e) = c"
begin

lemma configure_in_step:
  assumes "configureEndpoint validate enc put s e addr rq c = (s', e', None)"
  shows "validate (get e') = None \<and> get e' = c \<and> e' = put c e \<and> synced (reencode enc dec) (enc \<circ> get) s' addr e' \<and> CanAccess (acl s) rq addr"
  using assms
  by (auto simp: configureEndpoint_def WriteFunctional_def synced_def reencode_def Endpoint_setFunctional dec_enc get_put
      split: option.splits prod.splits if_splits)

lemma configure_failed:
  assumes "configureEndpoint validate enc put s e addr rq c = (s', e', Some er)"
  shows "s' = s \<and> e' = e"
  using assms by (auto simp: configureEndpoint_def WriteFunctional_def split: option.splits prod.splits if_splits)

end

sublocale config_block \<subseteq>
  ep: ep_config "enc \<circ> get" "adoptBlock dec validate put" "\<lambda>e. validate (get e) = None" "reencode enc dec"
proof
  fix b e e' er
  show "e' = e" if "adoptBlock dec validate put b e = (e', Some er)"
    using that by (auto simp: adoptBlock_def split: outcome.splits option.splits)
  show "validate (get e') = None \<and> (enc \<circ> get) e' = reencode enc dec b" if "adoptBlock dec validate put b e = (e', None)"
    using that dec_no_panic [of b] by (auto simp: adoptBlock_def reencode_def get_put split: outcome.splits option.splits)
  show "snd (adoptBlock dec validate put ((enc \<circ> get) e) e') = None" if "validate (get e) = None"
    using that by (simp add: adoptBlock_def dec_enc)
  show "reencode enc dec ((enc \<circ> get) e) = (enc \<circ> get) e" by (simp add: reencode_def dec_enc)
qed

context config_block
begin

text \<open>A refused configuration request leaves the server and the endpoint's configuration as they were.\<close>

lemma apply_refused:
  assumes "ApplyConfigRequest s e rq addr req (enc \<circ> get) (adoptBlock dec validate put) = (s', e', Err er)" "validate (get e) = None"
  shows "s' = s \<and> get e' = get e"
  using ep.apply_failed [OF assms] dec_enc [of "get e"] dec_enc [of "get e'"] by auto

end

end
