(* ===== verification/Server_Properties.thy ===== *)
theory Server_Properties
  imports Ep_Config
begin

text \<open>
  The properties of the RC Server: its configuration invariant and lifecycle, what is locked
  when and for whom, the configuration claim, whole-map reads and writes, and rejected calls.
\<close>

section \<open>The configuration claim\<close>

text \<open>Steps of streams other than \<open>c\<close> at times in a given interval.\<close>

definition others_step :: "StreamID \<Rightarrow> nanos \<Rightarrow> nanos \<Rightarrow> Server \<Rightarrow> Server \<Rightarrow> bool" where
  "others_step c lo hi s s' \<longleftrightarrow> (\<exists>now rq. lo \<le> now \<and> now < hi \<and> rq \<noteq> Some c \<and> sstep now rq s s')"

lemma sstep_claim:
  assumes "sstep now rq s s'" "rq \<noteq> Some c" "claim s = \<lparr>Held = True, CStream = c, Expires = hi\<rparr>" "now < hi"
  shows "claim s' = claim s"
  using assms
  by (induction rule: sstep.induct)
    (auto simp: server_ops Claim_Active_def split: outcome.splits prod.splits option.splits)

lemma others_keep_claim:
  assumes "(others_step c lo hi)\<^sup>*\<^sup>* s s'" "claim s = \<lparr>Held = True, CStream = c, Expires = hi\<rparr>"
  shows "claim s' = \<lparr>Held = True, CStream = c, Expires = hi\<rparr>"
  using assms by (induction rule: rtranclp_induct) (auto simp: others_step_def dest: sstep_claim)

section \<open>Reading and writing the whole register map\<close>

lemma PinMap_Equal_refl: "wf_regmap m \<Longrightarrow> PinMap_Equal (RPinMap m) (RPinMap m)"
  by (simp add: wf_regmap_def PinMap_Equal_iff)

lemma SameEndpointGenerics_canon:
  assumes "distinct (map fst (endpoints b))" "endpoints a = canonEndpoints b"
  shows "SameEndpointGenerics a b"
  using assms by (auto simp: SameEndpointGenerics_def canonEndpoints_def list_all_iff RegisterMap_Endpoint_def)

lemma ep0_allows_own_map:
  assumes "server_inv s" "endpoints m = canonEndpoints (rmap s)" "RPinMap m = RPinMap (rmap s)"
    "Streams m = Streams (rmap s)" "Queues m = Queues (rmap s)" "sameGeneralIdentity (General m) (General (rmap s))"
  shows "ep0_allows s m"
  using assms SameEndpointGenerics_canon [of "rmap s" m] PinMap_Equal_refl [of "rmap s"]
  by (auto simp: ep0_allows_def server_inv_def wf_regmap_def)

section \<open>The identity of a server\<close>

lemma identity_unset:
  assumes "server_inv s"
  shows "VendorID (General (rmap s)) = 0"
  using assms by (simp add: server_inv_def sameGeneralIdentity_def NewRegisterMap_def zeroGeneralBlock_def)

lemma DecodeRegisterMap_VendorID:
  assumes "DecodeRegisterMap (EncodeRegisterMap m) = Ok m'"
  shows "VendorID (General m') = VendorID (General m)"
proof -
  obtain g rest where "EncodeRegisterMap m = EncodeGeneralBlock g @ rest" "VendorID g = VendorID (General m)"
    "Magic g = GeneralBlockMagic"
    by (simp add: EncodeRegisterMap_def Let_def)
  then show ?thesis
    using assms DecodeGeneralBlock_Encode [of g rest]
    by (auto simp: DecodeRegisterMap_def Let_def andThen_eq_Ok_iff split: if_splits)
qed

section \<open>A configured server\<close>

definition rootStream :: StreamID where "rootStream = StreamID 2 0 0 0 0 1 0 1"
definition otherStream :: StreamID where "otherStream = StreamID 2 0 0 0 0 2 0 1"

definition sampleUnlocked :: Server where
  "sampleUnlocked =
     fst (SetQueueConfig (fst (WriteFunctional
       (fst (SetPinAssignment (fst (AddEndpoint (Grant (fst (ClaimRoot NewServer rootStream)) otherStream 7)
          rootStream 7 EndpointTypeGPIO)) rootStream \<lparr>Pin = 4, PEndpoint = 7, SignalIndex = 0\<rparr>))
       otherStream 7 [1, 2])) rootStream \<lparr>FlushThreshold = 1, FlushTimeMillis = 0, HeartbeatIntervalMillis = 0\<rparr>)"

definition sampleLocked :: Server where "sampleLocked = fst (AdvanceToHWLocked sampleUnlocked)"
definition sampleConfigured :: Server where "sampleConfigured = fst (AdvanceToFullyConfigured sampleLocked)"

lemma sample_reachable: "sreachable sampleUnlocked" "sreachable sampleLocked" "sreachable sampleConfigured"
proof -
  show 1: "sreachable sampleUnlocked"
    unfolding sampleUnlocked_def
    by (rule s_step [OF s_step [OF s_step [OF s_step [OF s_step [OF s_step [OF s_init s_ClaimRoot] s_Grant] s_AddEndpoint]
         s_SetPinAssignment] s_WriteFunctional] s_SetQueueConfig])
  show 2: "sreachable sampleLocked"
    unfolding sampleLocked_def by (rule s_step [OF 1 s_AdvanceToHWLocked])
  show "sreachable sampleConfigured"
    unfolding sampleConfigured_def by (rule s_step [OF 2 s_AdvanceToFullyConfigured])
qed

lemma sample_states:
  "lstate sampleUnlocked = StateUnconfigured" "lstate sampleLocked = StateHWLocked" "lstate sampleConfigured = StateFullyConfigured"
  by code_simp+

lemma sample_acl: "IsRoot (acl sampleLocked) rootStream" "\<not> IsRoot (acl sampleLocked) otherStream"
    "\<not> CanAccess (acl sampleLocked) otherStream 3" "IsRoot (acl sampleConfigured) rootStream"
  by code_simp+

lemma sample_fits: "fits_regmap (rmap sampleConfigured)"
proof -
  have "endpoints (rmap sampleConfigured) =
      [(7, \<lparr>Generic = \<lparr>Address = 7, Type = 1, Enabled = True\<rparr>, Functional = \<lparr>Data = [1, 2]\<rparr>\<rparr>)]"
    "entries (RPinMap (rmap sampleConfigured)) = [\<lparr>Pin = 4, PEndpoint = 7, SignalIndex = 0\<rparr>]"
    by code_simp+
  then show ?thesis by (simp add: fits_regmap_def ep_fits_def endpoint_types)
qed

section \<open>Properties\<close>

text \<open>C9: the invariant of the server. In every reachable state the register map is
  well-formed; once the hardware configuration is locked, every pin assignment names a declared
  endpoint of a valid type and one of that type's signals, no pin is assigned twice, and a fully
  configured server has a flush condition for its response queue.\<close>

theorem server_configuration_invariant:
  assumes "sreachable s"
  shows "wf_regmap (rmap s) \<and>
    (lstate s \<noteq> StateUnconfigured \<longrightarrow> distinct (map Pin (entries (RPinMap (rmap s)))) \<and>
       (\<forall>a \<in> set (entries (RPinMap (rmap s))). \<exists>ep. RegisterMap_Endpoint (rmap s) (PEndpoint a) = Some ep \<and>
          EndpointType_Valid (Type (Generic ep)) \<and> unat (SignalIndex a) < SignalCount (Type (Generic ep)))) \<and>
    (lstate s = StateFullyConfigured \<longrightarrow>
       FlushThreshold (Queues (rmap s)) \<noteq> 0 \<or> FlushTimeMillis (Queues (rmap s)) \<noteq> 0)"
proof -
  have "server_inv s" using assms by (rule sreachable_inv)
  moreover have "SignalName t i \<noteq> None \<longleftrightarrow> unat i < SignalCount t" for t i
    by (simp add: SignalName_def SignalCount_def Let_def)
  ultimately show ?thesis
    by (auto simp: server_inv_def PinMap_Validate_iff entryOk_def endpointType_def QueueConfig_Validate_def
        split: if_splits)
qed

theorem server_configuration_invariant_witness:
  "\<exists>ep. RegisterMap_Endpoint (rmap sampleConfigured) 7 = Some ep \<and> EndpointType_Valid (Type (Generic ep)) \<and>
     0 < SignalCount (Type (Generic ep))"
proof -
  have "\<lparr>Pin = 4, PEndpoint = 7, SignalIndex = 0\<rparr> \<in> set (entries (RPinMap (rmap sampleConfigured)))"
    "lstate sampleConfigured \<noteq> StateUnconfigured"
    by code_simp+
  then show ?thesis using server_configuration_invariant [OF sample_reachable(3)] by fastforce
qed

text \<open>C5: a fully configured server is frozen. Whatever calls follow, by whichever streams and
  at whichever times, the server stays fully configured, with the same pin assignments, the same
  endpoints and generic blocks, the same stream limits and the same queue configuration.\<close>

theorem fully_configured_is_frozen:
  assumes "sreachable s" "lstate s = StateFullyConfigured" "sany\<^sup>*\<^sup>* s s'"
  shows "lstate s' = StateFullyConfigured \<and> hwConfig (rmap s') = hwConfig (rmap s) \<and> swConfig (rmap s') = swConfig (rmap s)"
proof (rule srv.steps_keep [OF assms(3) sreachable_inv [OF assms(1)]])
  fix a b
  assume "server_inv a" "sany a b" and P: "lstate a = StateFullyConfigured \<and> hwConfig (rmap a) = hwConfig (rmap s) \<and> swConfig (rmap a) = swConfig (rmap s)"
  then obtain now rq where st: "sstep now rq a b" by (auto simp: sany_def)
  show "lstate b = StateFullyConfigured \<and> hwConfig (rmap b) = hwConfig (rmap s) \<and> swConfig (rmap b) = swConfig (rmap s)"
    using sstep_locked [OF st \<open>server_inv a\<close>] sstep_lifecycle [OF st] P by auto
qed (use assms(2) in simp)

theorem fully_configured_is_frozen_witness:
  "lstate (fst (WriteFunctional sampleConfigured otherStream 7 [9])) = StateFullyConfigured \<and>
   hwConfig (rmap (fst (WriteFunctional sampleConfigured otherStream 7 [9]))) = hwConfig (rmap sampleConfigured)"
proof -
  have "sany sampleConfigured (fst (WriteFunctional sampleConfigured otherStream 7 [9]))"
    unfolding sany_def using s_WriteFunctional by blast
  then show ?thesis
    using fully_configured_is_frozen [OF sample_reachable(3) sample_states(3)] by blast
qed

text \<open>The lifecycle. A step that changes the lifecycle state changes nothing else, and is
  one of three: locking the hardware configuration when the pin map is valid, completing the
  configuration when every functional block is present and the queue configuration is valid, or a
  return to the unconfigured state on the order of the root client or of the stream that holds the
  configuration claim at that time. There is no way out of the fully configured state.\<close>

theorem lifecycle_transitions:
  assumes "sstep now rq s s'" "lstate s' \<noteq> lstate s"
  shows "s' = s\<lparr>lstate := lstate s'\<rparr> \<and>
    (lstate s = StateUnconfigured \<and> lstate s' = StateHWLocked \<and>
       PinMap_Validate (RPinMap (rmap s)) (endpointType (rmap s)) = Ok () \<or>
     lstate s = StateHWLocked \<and> lstate s' = StateFullyConfigured \<and> \<not> functionalIncomplete (rmap s) \<and>
       QueueConfig_Validate (Queues (rmap s)) = Ok () \<or>
     lstate s = StateHWLocked \<and> lstate s' = StateUnconfigured \<and>
       (\<exists>c. rq = Some c \<and> (IsRoot (acl s) c \<or> ConfigurationClaimant s now = Some c)))"
  using assms by (rule sstep_lifecycle)

theorem lifecycle_transitions_witness:
  "\<not> functionalIncomplete (rmap sampleLocked) \<and> QueueConfig_Validate (Queues (rmap sampleLocked)) = Ok ()"
proof -
  have "sstep 0 None sampleLocked sampleConfigured"
    unfolding sampleConfigured_def by (rule s_AdvanceToFullyConfigured)
  then show ?thesis using lifecycle_transitions [of 0 None sampleLocked sampleConfigured] sample_states by auto
qed

text \<open>C8: access control. A call made by a stream that is not the root client leaves the pin
  assignments, the endpoints with their generic blocks, the stream and queue configuration, the
  general block and every grant as they are, and changes no endpoint that the stream was not
  granted.\<close>

theorem only_root_configures:
  assumes "sstep now (Some c) s s'" "\<not> IsRoot (acl s) c"
  shows "hwConfig (rmap s') = hwConfig (rmap s) \<and> swConfig (rmap s') = swConfig (rmap s) \<and>
    General (rmap s') = General (rmap s) \<and> grants (acl s') = grants (acl s) \<and>
    (\<forall>addr. \<not> CanAccess (acl s) c addr \<longrightarrow> RegisterMap_Endpoint (rmap s') addr = RegisterMap_Endpoint (rmap s) addr)"
  using assms by (rule sstep_non_root)

theorem only_root_configures_witness:
  "hwConfig (rmap (fst (WriteEP0 sampleLocked otherStream []))) = hwConfig (rmap sampleLocked) \<and>
   RegisterMap_Endpoint (rmap (fst (WriteFunctional sampleLocked otherStream 3 [1]))) 3 =
     RegisterMap_Endpoint (rmap sampleLocked) 3"
  using only_root_configures [OF s_WriteEP0 [of 0 otherStream sampleLocked "[]"] sample_acl(2)]
    only_root_configures [OF s_WriteFunctional [of 0 otherStream sampleLocked 3 "[1]"] sample_acl(2)] sample_acl(3)
  by blast

text \<open>The root claim is permanent. Once a stream has claimed the root role, it stays the
  root client whatever calls follow, and the claim of any other stream is refused.\<close>

theorem root_is_permanent:
  assumes "snd (ClaimRoot s r) = None" "sany\<^sup>*\<^sup>* (fst (ClaimRoot s r)) s'"
  shows "IsRoot (acl s') r \<and> (\<forall>c. c \<noteq> r \<longrightarrow> ClaimRoot s' c = (s', Some (ERegmap ErrRootAlreadyClaimed)))"
proof -
  have "IsRoot (acl (fst (ClaimRoot s r))) r"
    using assms(1) by (auto simp: ClaimRoot_def AccessController_ClaimRoot_def IsRoot_def split: if_splits)
  with assms(2) have "IsRoot (acl s') r"
    by (induction rule: rtranclp_induct) (auto simp: sany_def intro: sstep_root)
  then show ?thesis by (auto simp: ClaimRoot_def AccessController_ClaimRoot_def IsRoot_def)
qed

theorem root_is_permanent_witness:
  "ClaimRoot (fst (ClaimRoot NewServer rootStream)) otherStream =
     (fst (ClaimRoot NewServer rootStream), Some (ERegmap ErrRootAlreadyClaimed))"
proof -
  have "snd (ClaimRoot NewServer rootStream) = None" "otherStream \<noteq> rootStream" by code_simp+
  then show ?thesis using root_is_permanent [of NewServer rootStream, OF _ rtranclp.rtrancl_refl] by blast
qed

text \<open>The configuration claim is exclusive and lapses. After a stream has claimed the
  configuration, and whatever other streams do in the meantime, it is the claimant and every other
  claim is refused until the claim's timeout has passed; from then on there is no claimant and
  every stream may claim.\<close>

theorem configuration_claim_is_exclusive:
  assumes "ClaimConfiguration s now c = (s1, None)" "(others_step c now (now + claimTimeout s))\<^sup>*\<^sup>* s1 s2"
  shows "(\<forall>t < now + claimTimeout s. ConfigurationClaimant s2 t = Some c \<and>
      (\<forall>d. d \<noteq> c \<longrightarrow> ClaimConfiguration s2 t d = (s2, Some (EDiscovery ErrConfigurationClaimed)))) \<and>
    (\<forall>t \<ge> now + claimTimeout s. ConfigurationClaimant s2 t = None \<and> (\<forall>d. snd (ClaimConfiguration s2 t d) = None))"
proof -
  have "claim s1 = \<lparr>Held = True, CStream = c, Expires = now + claimTimeout s\<rparr>"
    using assms(1) by (auto simp: ClaimConfiguration_def split: if_splits)
  from others_keep_claim [OF assms(2) this] show ?thesis
    by (auto simp: ConfigurationClaimant_def ClaimConfiguration_def Claim_Active_def)
qed

theorem configuration_claim_is_exclusive_witness:
  "ConfigurationClaimant (fst (ClaimConfiguration sampleLocked 0 otherStream)) 29999999999 = Some otherStream \<and>
   ConfigurationClaimant (fst (ClaimConfiguration sampleLocked 0 otherStream)) 30000000000 = None"
proof -
  have "snd (ClaimConfiguration sampleLocked 0 otherStream) = None" "claimTimeout sampleLocked = 30000000000"
    by code_simp+
  moreover from this(1) have "ClaimConfiguration sampleLocked 0 otherStream = (fst (ClaimConfiguration sampleLocked 0 otherStream), None)"
    by (metis prod.collapse)
  ultimately show ?thesis
    using configuration_claim_is_exclusive [OF _ rtranclp.rtrancl_refl, of sampleLocked 0 otherStream] by auto
qed

text \<open>Whole-map access is consistent. When the register map fits its encoding, what the
  root client reads from EP0 may be written back in every lifecycle state, and leaves the pin
  assignments, stream limits, queue configuration and every endpoint as they were.\<close>

theorem ep0_read_then_write:
  assumes "sreachable s" "fits_regmap (rmap s)" "IsRoot (acl s) rq"
  shows "\<exists>b m. ReadEP0 s rq = Ok b \<and> WriteEP0 s rq b = (s\<lparr>rmap := m\<rparr>, None) \<and>
    hwConfig m = hwConfig (rmap s) \<and> swConfig m = swConfig (rmap s) \<and>
    RegisterMap_Endpoint m = RegisterMap_Endpoint (rmap s)"
proof -
  have inv: "server_inv s" using assms(1) by (rule sreachable_inv)
  then have wf: "wf_regmap (rmap s)" and id: "Magic (General (rmap s)) = GeneralBlockMagic"
    "GProtocolVersion (General (rmap s)) = RegisterMapVersion"
    by (simp_all add: server_inv_def sameGeneralIdentity_def NewRegisterMap_def)
  obtain g where dec: "DecodeRegisterMap (EncodeRegisterMap (rmap s)) = Ok \<lparr>General = g, RPinMap = RPinMap (rmap s),
      Streams = Streams (rmap s), Queues = Queues (rmap s), endpoints = canonEndpoints (rmap s)\<rparr>" (is "_ = Ok ?m")
    and "sameGeneralIdentity g (General (rmap s))"
    using DecodeRegisterMap_Encode [OF wf assms(2)] id by blast
  then have "ep0_allows s ?m" by (intro ep0_allows_own_map [OF inv]) simp_all
  then have "WriteEP0 s rq (EncodeRegisterMap (rmap s)) = (s\<lparr>rmap := ?m\<rparr>, None)"
    by (rule WriteEP0_written [OF assms(3) dec])
  moreover have "RegisterMap_Endpoint ?m = RegisterMap_Endpoint (rmap s)"
    using wf by (simp add: fun_eq_iff RegisterMap_Endpoint_def canonEndpoints_def map_of_sort_key wf_regmap_def)
  moreover have "ReadEP0 s rq = Ok (EncodeRegisterMap (rmap s))"
    using assms(3) by (simp add: ReadEP0_def CanAccess_def)
  ultimately show ?thesis
    by (intro exI conjI) (assumption | simp add: hwConfig_def swConfig_def generics_def fun_eq_iff)+
qed

theorem ep0_read_then_write_witness:
  "\<exists>b m. ReadEP0 sampleConfigured rootStream = Ok b \<and>
     WriteEP0 sampleConfigured rootStream b = (sampleConfigured\<lparr>rmap := m\<rparr>, None) \<and>
     RegisterMap_Endpoint m = RegisterMap_Endpoint (rmap sampleConfigured)"
  using ep0_read_then_write [OF sample_reachable(3) sample_fits sample_acl(4)] by blast

definition unchanged_on_error :: "Server \<Rightarrow> Server \<times> rcp_error option \<Rightarrow> bool" where
  "unchanged_on_error s r \<longleftrightarrow> snd r = None \<or> fst r = s"

text \<open>A rejected call has no effect.\<close>

lemma server_rejections:
   "unchanged_on_error s (ClaimRoot s rq)" "unchanged_on_error s (AdvanceToHWLocked s)" "unchanged_on_error s (AdvanceToFullyConfigured s)"
   "unchanged_on_error s (DemoteToUnconfigured s now rq)" "unchanged_on_error s (AddEndpoint s rq addr t)" "unchanged_on_error s (SetPinAssignment s rq a)"
   "unchanged_on_error s (SetStreamLimits s rq l)" "unchanged_on_error s (SetQueueConfig s rq q)" "unchanged_on_error s (WriteFunctional s rq addr data)"
   "unchanged_on_error s (WriteFunctionalAt s rq addr start data)" "unchanged_on_error s (WriteEP0 s rq data)"
   "unchanged_on_error s (ClaimConfiguration s now rq)" "unchanged_on_error s (ReleaseConfigurationClaim s now rq)"
proof -
  show "unchanged_on_error s (WriteEP0 s rq data)"
    by (cases rule: WriteEP0_cases [of s rq data]) (simp_all add: unchanged_on_error_def)
qed (auto simp: unchanged_on_error_def server_ops AccessController_ClaimRoot_def split: option.split outcome.split)

text \<open>The identity of a server is never set. Whatever a client reads through discovery from
  a server that was built by \<open>NewServer\<close> and configured by any sequence of calls, the general block
  it decodes fails \<open>IsConformantServer\<close>, because the vendor identifier stays zero: no operation sets
  it and \<open>WriteEP0\<close> refuses to change it.\<close>

theorem never_a_conformant_server:
  assumes "sreachable s" "DecodeRegisterMap (ReadDiscovery s) = Ok m"
  shows "\<not> IsConformantServer (General m)"
  using DecodeRegisterMap_VendorID [of "rmap s" m] assms identity_unset [OF sreachable_inv]
  by (simp add: ReadDiscovery_def IsConformantServer_def)

theorem never_a_conformant_server_witness:
  "case DecodeRegisterMap (ReadDiscovery sampleConfigured) of Ok m \<Rightarrow> \<not> IsConformantServer (General m)
   | Err e \<Rightarrow> False | Panic \<Rightarrow> False"
proof -
  have "wf_regmap (rmap sampleConfigured)"
    using sreachable_inv [OF sample_reachable(3)] by (simp add: server_inv_def)
  then obtain m where "DecodeRegisterMap (ReadDiscovery sampleConfigured) = Ok m"
    using DecodeRegisterMap_Encode [OF _ sample_fits] by (auto simp: ReadDiscovery_def)
  then show ?thesis using never_a_conformant_server [OF sample_reachable(3)] by simp
qed

end
