(* ===== verification/E2e_Watchdog.thy ===== *)
theory E2e_Watchdog
  imports Avtp
begin

text \<open>
  The package \<open>e2e\<close>, file \<open>watchdog.go\<close>: the per-stream watchdog. The injected clock is the argument
  \<open>now\<close>; durations are unbounded integers.
\<close>

section \<open>The supervisor\<close>

record StreamConfig =
  Timeout :: nanos
  RequireMonotonicSequence :: bool
  SequenceOverflowWraps :: bool

record streamState =
  lastArrival :: nanos
  haveSeq :: bool
  lastSeq :: u32
  tripped :: bool

definition zeroStreamState :: streamState where
  "zeroStreamState = \<lparr>lastArrival = 0, haveSeq = False, lastSeq = 0, tripped = False\<rparr>"

record Supervisor =
  defCfg :: StreamConfig
  cfg :: "StreamID \<rightharpoonup> StreamConfig"
  streams :: "StreamID \<rightharpoonup> streamState"

definition NewSupervisor :: "StreamConfig \<Rightarrow> Supervisor" where
  "NewSupervisor c = \<lparr>defCfg = c, cfg = Map.empty, streams = Map.empty\<rparr>"

definition Configure :: "Supervisor \<Rightarrow> StreamID \<Rightarrow> StreamConfig \<Rightarrow> Supervisor" where
  "Configure s stream c = s\<lparr>cfg := (cfg s)(stream \<mapsto> c)\<rparr>"

definition configForLocked :: "Supervisor \<Rightarrow> StreamID \<Rightarrow> StreamConfig" where
  "configForLocked s stream = (case cfg s stream of Some c \<Rightarrow> c | None \<Rightarrow> defCfg s)"

definition Observe :: "Supervisor \<Rightarrow> nanos \<Rightarrow> StreamID \<Rightarrow> u32 \<Rightarrow> Supervisor \<times> rcp_error option" where
  "Observe s now stream sq =
     (let c = configForLocked s stream;
          st = (case streams s stream of Some st \<Rightarrow> st | None \<Rightarrow> zeroStreamState);
          wrapped = (SequenceOverflowWraps c \<and> lastSeq st = NOT 0 \<and> sq = 0);
          violated = (RequireMonotonicSequence c \<and> haveSeq st \<and> sq \<noteq> lastSeq st + 1 \<and> \<not> wrapped)
      in (s\<lparr>streams := (streams s)(stream \<mapsto>
             \<lparr>lastArrival = now, haveSeq = True, lastSeq = sq, tripped = (tripped st \<or> violated)\<rparr>)\<rparr>,
          if violated then Some (EWrap (EE2e ErrSequenceViolation) (DSequence sq (lastSeq st))) else None))"

definition InSafeState :: "Supervisor \<Rightarrow> nanos \<Rightarrow> StreamID \<Rightarrow> bool" where
  "InSafeState s now stream =
     (case streams s stream of
        None \<Rightarrow> True
      | Some st \<Rightarrow> if tripped st then True else now - lastArrival st > Timeout (configForLocked s stream))"

definition Reset :: "Supervisor \<Rightarrow> nanos \<Rightarrow> StreamID \<Rightarrow> Supervisor" where
  "Reset s now stream = s\<lparr>streams := (streams s)(stream \<mapsto> zeroStreamState\<lparr>lastArrival := now\<rparr>)\<rparr>"

section \<open>Histories\<close>

datatype sup_event = Arrival nanos StreamID u32 | Cleared nanos StreamID

fun applyEvent :: "sup_event \<Rightarrow> Supervisor \<Rightarrow> Supervisor" where
  "applyEvent (Arrival now stream sq) s = fst (Observe s now stream sq)"
| "applyEvent (Cleared now stream) s = Reset s now stream"

fun eventStream :: "sup_event \<Rightarrow> StreamID" where
  "eventStream (Arrival now stream sq) = stream"
| "eventStream (Cleared now stream) = stream"

fun eventTime :: "sup_event \<Rightarrow> nanos" where
  "eventTime (Arrival now stream sq) = now"
| "eventTime (Cleared now stream) = now"

text \<open>The events of one stream, the latest first.\<close>

definition historyOf :: "StreamID \<Rightarrow> sup_event list \<Rightarrow> sup_event list" where
  "historyOf stream es = rev (filter (\<lambda>e. eventStream e = stream) es)"

text \<open>A gap: since the last reset, an arrival whose number is not the successor of the one before.\<close>

fun hasGap :: "sup_event list \<Rightarrow> bool" where
  "hasGap (Arrival t x q # Arrival u y p # es) = (q \<noteq> p + 1 \<or> hasGap (Arrival u y p # es))"
| "hasGap es = False"

definition mustBeSafe :: "StreamConfig \<Rightarrow> sup_event list \<Rightarrow> nanos \<Rightarrow> bool" where
  "mustBeSafe c h now = (case h of [] \<Rightarrow> True | e # _ \<Rightarrow>
     RequireMonotonicSequence c \<and> hasGap h \<or> now - eventTime e > Timeout c)"

text \<open>
  The verdict as the comments of \<open>StreamConfig\<close> and \<open>InSafeState\<close> describe it. Since the last reset, each number
  has to be greater than the one before, except that zero may follow the largest number when the configuration admits
  the wrap-around.
\<close>

definition admitted :: "StreamConfig \<Rightarrow> u32 \<Rightarrow> u32 \<Rightarrow> bool" where
  "admitted c p q \<longleftrightarrow> p < q \<or> (SequenceOverflowWraps c \<and> p = NOT 0 \<and> q = 0)"

text \<open>The pairs of successive numbers since the last reset.\<close>

fun successions :: "sup_event list \<Rightarrow> (u32 \<times> u32) list" where
  "successions (Arrival t x q # Arrival u y p # es) = (p, q) # successions (Arrival u y p # es)"
| "successions es = []"

definition documentedSafe :: "StreamConfig \<Rightarrow> sup_event list \<Rightarrow> nanos \<Rightarrow> bool" where
  "documentedSafe c h now = (case h of [] \<Rightarrow> True | e # _ \<Rightarrow>
     now - eventTime e > Timeout c \<or> RequireMonotonicSequence c \<and> (\<exists>(p, q) \<in> set (successions h). \<not> admitted c p q))"

section \<open>Laws\<close>

lemma follows_wrapped: "(NOT 0 :: u32) + 1 = 0"
  by simp

lemma Observe_state:
  "streams (fst (Observe s now stream sq)) = (streams s)(stream \<mapsto>
     (let st = (case streams s stream of Some st \<Rightarrow> st | None \<Rightarrow> zeroStreamState) in
      \<lparr>lastArrival = now, haveSeq = True, lastSeq = sq,
       tripped = (tripped st \<or> RequireMonotonicSequence (configForLocked s stream) \<and> haveSeq st \<and> sq \<noteq> lastSeq st + 1)\<rparr>))"
  by (auto simp: Observe_def Let_def fun_eq_iff)

lemma configForLocked_streams [simp]: "configForLocked (s\<lparr>streams := f\<rparr>) x = configForLocked s x"
  by (simp add: configForLocked_def split: option.split)

lemma applyEvent_config [simp]: "configForLocked (applyEvent e s) x = configForLocked s x"
  by (cases e) (simp_all add: Observe_def Reset_def Let_def)

lemma fold_config [simp]: "configForLocked (fold applyEvent es s) x = configForLocked s x"
  by (induction es arbitrary: s) simp_all

text \<open>What the supervisor remembers of a stream's history.\<close>

definition remembers :: "StreamConfig \<Rightarrow> sup_event list \<Rightarrow> streamState option \<Rightarrow> bool" where
  "remembers c h st = (case h of [] \<Rightarrow> st = None
     | Cleared t x # _ \<Rightarrow> st = Some (zeroStreamState\<lparr>lastArrival := t\<rparr>)
     | Arrival t x q # _ \<Rightarrow> st = Some \<lparr>lastArrival = t, haveSeq = True, lastSeq = q,
         tripped = (RequireMonotonicSequence c \<and> hasGap h)\<rparr>)"

lemma historyOf_snoc: "historyOf x (es @ [e]) = (if eventStream e = x then e # historyOf x es else historyOf x es)"
  by (simp add: historyOf_def)

lemma remembers_arrival:
  assumes "remembers c h st"
  shows "remembers c (Arrival t x q # h) (Some (let st = (case st of Some st \<Rightarrow> st | None \<Rightarrow> zeroStreamState) in
    \<lparr>lastArrival = t, haveSeq = True, lastSeq = q,
     tripped = (tripped st \<or> RequireMonotonicSequence c \<and> haveSeq st \<and> q \<noteq> lastSeq st + 1)\<rparr>))"
proof (cases h)
  case (Cons e es)
  then show ?thesis using assms by (cases e) (auto simp: remembers_def zeroStreamState_def)
qed (use assms in \<open>simp add: remembers_def zeroStreamState_def\<close>)

lemma remembers_step:
  assumes "remembers (configForLocked s x) (historyOf x es) (streams s' x)" "configForLocked s' x = configForLocked s x"
  shows "remembers (configForLocked s x) (historyOf x (es @ [e])) (streams (applyEvent e s') x)"
proof (cases e)
  case (Arrival t y q)
  show ?thesis
  proof (cases "y = x")
    case True
    then show ?thesis
      using remembers_arrival [OF assms(1), of t x q] assms(2) Arrival by (simp add: historyOf_snoc Observe_state)
  qed (use assms(1) Arrival in \<open>simp add: historyOf_snoc Observe_state\<close>)
next
  case (Cleared t y)
  then show ?thesis using assms by (auto simp: remembers_def historyOf_snoc Reset_def)
qed

lemma supervisor_remembers:
  "remembers (configForLocked s x) (historyOf x es) (streams (fold applyEvent es (s\<lparr>streams := Map.empty\<rparr>)) x)"
proof (induction es rule: rev_induct)
  case (snoc e es)
  show ?case using remembers_step [OF snoc] by simp
qed (simp add: remembers_def historyOf_def)

lemma InSafeState_history:
  "InSafeState (fold applyEvent es (s\<lparr>streams := Map.empty\<rparr>)) now x \<longleftrightarrow>
     mustBeSafe (configForLocked s x) (historyOf x es) now"
  using supervisor_remembers [of s x es]
  by (auto simp: InSafeState_def mustBeSafe_def remembers_def zeroStreamState_def
      split: list.splits sup_event.splits)

lemma hasGap_successions: "hasGap h \<longleftrightarrow> (\<exists>(p, q) \<in> set (successions h). q \<noteq> p + 1)"
  by (induction h rule: hasGap.induct) auto

lemma mustBeSafe_successions:
  "mustBeSafe c h now = (case h of [] \<Rightarrow> True | e # _ \<Rightarrow>
     now - eventTime e > Timeout c \<or> RequireMonotonicSequence c \<and> (\<exists>(p, q) \<in> set (successions h). q \<noteq> p + 1))"
  by (auto simp: mustBeSafe_def hasGap_successions split: list.split)

text \<open>What is not admitted is not the successor, but for a wrap-around; what is not the successor is not admitted, but for a jump.\<close>

lemma successor_admitted: "q = p + 1 \<Longrightarrow> p \<noteq> NOT 0 \<Longrightarrow> admitted c p q" for p q :: u32
  using inc_less_eq_self_iff_eq [of p] by (simp add: admitted_def not_le [symmetric])

lemma admitted_successor: "admitted c p q \<Longrightarrow> \<not> p + 1 < q \<Longrightarrow> q = p + 1" for p q :: u32
  by (auto simp: admitted_def) (metis inc_le order.antisym not_le_imp_less)

section \<open>Properties\<close>

text \<open>C17: the watchdog keeps what its comments promise, but for two cases. After any interleaving of arrivals and resets of
  any streams: when the documented rule says that a stream is in its safe state (it was never seen, its
  last arrival or reset is longer ago than its timeout, or a number since the last reset did not increase although it
  had to), the supervisor says so, unless a wrap-around occurred that the configuration does not admit; and when the
  supervisor says so the rule does, unless a number was skipped. A violation stays until a reset, and no stream is affected by another.\<close>

theorem watchdog_as_documented:
  "let spv = fold applyEvent es (s\<lparr>streams := Map.empty\<rparr>); c = configForLocked s x; h = historyOf x es in
    (documentedSafe c h now \<and> (\<forall>(p, q) \<in> set (successions h). SequenceOverflowWraps c \<or> p \<noteq> NOT 0 \<or> q \<noteq> 0) \<longrightarrow> InSafeState spv now x) \<and>
    (InSafeState spv now x \<and> (\<forall>(p, q) \<in> set (successions h). \<not> p + 1 < q) \<longrightarrow> documentedSafe c h now)"
proof -
  have late: "\<not> admitted c p q \<Longrightarrow> SequenceOverflowWraps c \<or> p \<noteq> NOT 0 \<or> q \<noteq> 0 \<Longrightarrow> q \<noteq> p + 1" for c p q
    using successor_admitted [of q p c] by (cases "p = NOT 0") (auto simp: admitted_def)
  have jump: "q \<noteq> p + 1 \<Longrightarrow> \<not> p + 1 < q \<Longrightarrow> \<not> admitted c p q" for c p q
    using admitted_successor by blast
  show ?thesis
    unfolding Let_def InSafeState_history mustBeSafe_successions documentedSafe_def
    using late jump by (fastforce split: list.splits)
qed

definition countedSupervisor :: Supervisor where
  "countedSupervisor = NewSupervisor \<lparr>Timeout = 100, RequireMonotonicSequence = True, SequenceOverflowWraps = False\<rparr>"

theorem watchdog_as_documented_witness:
  "InSafeState (fold applyEvent [Arrival 0 zeroStreamID 7, Arrival 10 zeroStreamID 7, Arrival 20 zeroStreamID 8] (countedSupervisor\<lparr>streams := Map.empty\<rparr>)) 30 zeroStreamID \<and>
   \<not> InSafeState (fold applyEvent [Arrival 0 zeroStreamID 7, Arrival 10 zeroStreamID 8] (countedSupervisor\<lparr>streams := Map.empty\<rparr>)) 30 zeroStreamID"
  using watchdog_as_documented [of "[Arrival 0 zeroStreamID 7, Arrival 10 zeroStreamID 7, Arrival 20 zeroStreamID 8]" countedSupervisor zeroStreamID 30]
    watchdog_as_documented [of "[Arrival 0 zeroStreamID 7, Arrival 10 zeroStreamID 8]" countedSupervisor zeroStreamID 30]
  by (simp add: Let_def countedSupervisor_def NewSupervisor_def configForLocked_def historyOf_def documentedSafe_def admitted_def)

text \<open>The watchdog's verdict in full, as the code decides it. After any interleaving of arrivals and resets of any streams, a
  stream is judged to be in its safe state exactly when it was never seen, when its arrivals since
  the last reset have a gap in their numbers and its configuration asks for consecutive ones, or when its
  last arrival or reset is longer ago than its timeout. In particular a gap stays until a reset, and
  no stream is affected by another.\<close>

theorem watchdog_verdict:
  "InSafeState (fold applyEvent es (s\<lparr>streams := Map.empty\<rparr>)) now x \<longleftrightarrow>
     mustBeSafe (configForLocked s x) (historyOf x es) now"
  by (rule InSafeState_history)

text \<open>The overflow option has no effect. The successor of the largest sequence number wraps to
  zero in 32 bits, so that an arrival is accepted or refused in the same way whether or not the
  configuration admits the wrap-around.\<close>

theorem overflow_option_has_no_effect:
  "snd (Observe (Configure s x (c\<lparr>SequenceOverflowWraps := True\<rparr>)) now x sq) =
     snd (Observe (Configure s x (c\<lparr>SequenceOverflowWraps := False\<rparr>)) now x sq) \<and>
   streams (fst (Observe (Configure s x (c\<lparr>SequenceOverflowWraps := True\<rparr>)) now x sq)) =
     streams (fst (Observe (Configure s x (c\<lparr>SequenceOverflowWraps := False\<rparr>)) now x sq))"
  by (auto simp: Observe_def Configure_def configForLocked_def Let_def fun_eq_iff)

end
