(* ===== verification/E2e_Crc.thy ===== *)
theory E2e_Crc
  imports Request_Dispatcher
begin

text \<open>
  The package \<open>e2e\<close>, files \<open>crc.go\<close> and \<open>guard.go\<close>: the CRC32 safe point of a message and the guard that
  checks it in front of a handler. The table-driven checksum of the standard library's
  \<open>hash/crc32\<close> is modelled as it is used (\<open>MakeTable\<close>, and \<open>Update\<close> for a table of a caller's own
  polynomial), and proved equal to the bit-by-bit definition; the linearity of the
  register update then gives what corruption the safe point detects.
\<close>

section \<open>The checksum of \<open>hash/crc32\<close>\<close>

definition crcStep :: "u32 \<Rightarrow> u32 \<Rightarrow> u32" where
  "crcStep poly crc = (if crc AND 1 = 1 then drop_bit 1 crc XOR poly else drop_bit 1 crc)"

definition MakeTable :: "u32 \<Rightarrow> u32 list" where
  "MakeTable poly = map (\<lambda>i. (crcStep poly ^^ 8) (word_of_nat i)) [0..<256]"

definition tableByte :: "u32 list \<Rightarrow> u32 \<Rightarrow> u8 \<Rightarrow> u32" where
  "tableByte tab crc v = tab ! unat (ucast crc XOR v) XOR drop_bit 8 crc"

definition simpleUpdate :: "u32 list \<Rightarrow> u32 \<Rightarrow> bytes \<Rightarrow> u32" where
  "simpleUpdate tab crc p = NOT (fold (\<lambda>v c. tableByte tab c v) p (NOT crc))"

section \<open>The checksum, bit by bit\<close>

text \<open>One octet through the register, one bit at a time: the reference for the table.\<close>

definition bitByte :: "u32 \<Rightarrow> u32 \<Rightarrow> u8 \<Rightarrow> u32" where
  "bitByte poly crc v = (crcStep poly ^^ 8) (crc XOR ucast v)"

lemma bit_u32_ge [simp]: "32 \<le> n \<Longrightarrow> \<not> bit (a :: u32) n"
  by (simp add: bit_word.rep_eq)

lemma xor_cancel [simp]: "(a :: u32) XOR b = a XOR c \<longleftrightarrow> b = c" "b XOR a = c XOR a \<longleftrightarrow> b = c"
proof -
  have *: "b = c" if "a XOR b = a XOR c" for b c
  proof (rule bit_word_eqI)
    fix n
    from that have "bit (a XOR b) n = bit (a XOR c) n" by simp
    then show "bit b n = bit c n" by (auto simp: bit_xor_iff)
  qed
  then show "a XOR b = a XOR c \<longleftrightarrow> b = c" "b XOR a = c XOR a \<longleftrightarrow> b = c"
    by (auto simp: xor.commute [of _ a])
qed

lemma bit_u32_less: "bit (a :: u32) n \<Longrightarrow> n < 32"
  using bit_u32_ge [of n a] by linarith

lemma xor_eq_0 [simp]: "(x :: u32) XOR y = 0 \<longleftrightarrow> x = y"
  using xor_cancel(1) [of x y x] by auto

lemma odd_and: "(w :: u32) AND 1 = 1 \<longleftrightarrow> bit w 0"
  by (simp add: and_one_eq odd_iff_mod_2_eq_one bit_0)

lemma crcStep_xor: "crcStep poly (x XOR y) = crcStep poly x XOR crcStep poly y"
proof -
  have "bit (x XOR y) 0 \<longleftrightarrow> bit x 0 \<noteq> bit y 0" by (simp add: bit_xor_iff)
  then show ?thesis
    unfolding crcStep_def odd_and
    by (cases "bit x 0"; cases "bit y 0") (simp_all add: drop_bit_xor ac_simps)
qed

lemma crcSteps_xor: "(crcStep poly ^^ n) (x XOR y) = (crcStep poly ^^ n) x XOR (crcStep poly ^^ n) y"
  by (induction n) (simp_all add: crcStep_xor)

lemma crcSteps_high: "\<forall>k<n. \<not> bit x k \<Longrightarrow> (crcStep poly ^^ n) x = drop_bit n x"
proof (induction n arbitrary: x)
  case (Suc n)
  have "crcStep poly x = drop_bit 1 x" using Suc.prems by (simp add: crcStep_def odd_and)
  moreover have "(crcStep poly ^^ n) (drop_bit 1 x) = drop_bit n (drop_bit 1 x)"
    using Suc.prems by (intro Suc.IH) (simp add: bit_drop_bit_eq)
  ultimately show ?case by (simp add: funpow_Suc_right del: funpow.simps(2))
qed simp

lemma tableByte_bitByte: "tableByte (MakeTable poly) crc v = bitByte poly crc v"
proof -
  let ?lo = "ucast (ucast crc XOR v :: u8) :: u32" and ?hi = "push_bit 8 (drop_bit 8 crc)"
  have "crc XOR ucast v = ?lo XOR ?hi"
    by (rule bit_word_eqI) (auto simp: bit_simps)
  then have "bitByte poly crc v = (crcStep poly ^^ 8) ?lo XOR (crcStep poly ^^ 8) ?hi"
    by (simp only: bitByte_def crcSteps_xor)
  also have "(crcStep poly ^^ 8) ?hi = drop_bit 8 crc"
  proof (subst crcSteps_high)
    show "drop_bit 8 ?hi = drop_bit 8 crc"
    proof (rule bit_word_eqI)
      fix n
      show "bit (drop_bit 8 ?hi) n = bit (drop_bit 8 crc) n"
        using bit_u32_less [of crc "8 + n"] by (auto simp: bit_simps)
    qed
  qed (simp add: bit_simps)
  also have "(crcStep poly ^^ 8) ?lo = MakeTable poly ! unat (ucast crc XOR v :: u8)"
  proof -
    have "unat (ucast crc XOR v :: u8) < 256" using unsigned_less [of "ucast crc XOR v :: u8"] by simp
    then show ?thesis by (simp add: MakeTable_def)
  qed
  finally show ?thesis by (simp add: tableByte_def)
qed

text \<open>The register after a string, bit by bit.\<close>

definition crcRegister :: "u32 \<Rightarrow> u32 \<Rightarrow> bytes \<Rightarrow> u32" where
  "crcRegister poly = foldl (bitByte poly)"


lemma crcStep_zero:
  assumes "bit poly 31" "crcStep poly z = 0"
  shows "z = 0"
proof -
  have "\<not> bit z 0"
  proof
    assume "bit z 0"
    then have "bit (crcStep poly z) 31 \<longleftrightarrow> True"
      using assms(1) by (simp add: crcStep_def odd_and bit_simps)
    then show False using assms(2) by simp
  qed
  moreover have "\<not> bit z (Suc n)" for n
  proof -
    have "drop_bit 1 z = 0" using assms(2) \<open>\<not> bit z 0\<close> by (simp add: crcStep_def odd_and)
    then have "\<not> bit (drop_bit 1 z) n" by simp
    then show ?thesis by (simp add: bit_drop_bit_eq)
  qed
  ultimately have "\<not> bit z n" for n by (cases n) simp_all
  then show ?thesis by (intro bit_word_eqI) simp
qed

lemma crcSteps_inj:
  assumes "bit poly 31" "(crcStep poly ^^ n) x = (crcStep poly ^^ n) y"
  shows "x = y"
proof -
  have "z = 0" if "(crcStep poly ^^ n) z = 0" for z
    using that by (induction n arbitrary: z) (auto dest: crcStep_zero [OF assms(1)])
  moreover have "(crcStep poly ^^ n) (x XOR y) = 0" by (simp add: crcSteps_xor assms(2))
  ultimately have "x XOR y = 0" by blast
  then show ?thesis by simp
qed

lemma crcRegister_inj:
  assumes "bit poly 31" "crcRegister poly c p = crcRegister poly d p"
  shows "c = d"
  using assms(2)
proof (induction p arbitrary: c d)
  case (Cons v p)
  then have "bitByte poly c v = bitByte poly d v" by (auto simp: crcRegister_def)
  then have "c XOR ucast v = d XOR ucast v" unfolding bitByte_def by (rule crcSteps_inj [OF assms(1)])
  then show ?case by simp
qed (simp add: crcRegister_def)

fun leWord :: "bytes \<Rightarrow> u32" where
  "leWord [] = 0"
| "leWord (b # bs) = ucast b XOR push_bit 8 (leWord bs)"

lemma bit_leWord: "length bs \<le> 4 \<Longrightarrow> bit (leWord bs) n \<longleftrightarrow> n < 8 * length bs \<and> bit (bs ! (n div 8)) (n mod 8)"
proof (induction bs arbitrary: n)
  case (Cons b bs)
  show ?case
  proof (cases "n < 8")
    case False
    then have "(n - 8) mod 8 = n mod 8" "n div 8 = Suc ((n - 8) div 8)" by (simp_all add: le_div_geq le_mod_geq)
    then show ?thesis using False Cons by (simp add: bit_xor_iff bit_push_bit_iff bit_unsigned_iff) linarith
  qed (auto simp: bit_simps)
qed simp

lemma leWord_inj:
  assumes "length a = length b" "length a \<le> 4" "leWord a = leWord b"
  shows "a = b"
proof (rule nth_equalityI)
  fix i
  assume i: "i < length a"
  show "a ! i = b ! i"
  proof (rule bit_word_eqI)
    fix n
    assume "n < LENGTH(8)"
    then have "bit (leWord a) (8 * i + n) = bit (a ! i) n" "bit (leWord b) (8 * i + n) = bit (b ! i) n"
      using i assms(1,2) by (simp_all add: bit_leWord)
    then show "bit (a ! i) n = bit (b ! i) n" using assms(3) by simp
  qed
qed (rule assms(1))

lemma crcRegister_leWord:
  "length bs \<le> 4 \<Longrightarrow> crcRegister poly c bs = (crcStep poly ^^ (8 * length bs)) (c XOR leWord bs)"
proof (induction bs arbitrary: c)
  case (Cons b bs)
  have high: "(crcStep poly ^^ 8) (push_bit 8 (leWord bs)) = leWord bs"
    using Cons.prems by (subst crcSteps_high) (auto simp: bit_simps bit_leWord intro!: bit_word_eqI)
  have "crcRegister poly c (b # bs) = (crcStep poly ^^ (8 * length bs)) (bitByte poly c b XOR leWord bs)"
    using Cons by (simp add: crcRegister_def)
  also have "bitByte poly c b XOR leWord bs = (crcStep poly ^^ 8) (c XOR leWord (b # bs))"
    by (simp only: bitByte_def leWord.simps crcSteps_xor high xor.assoc)
  also have "(crcStep poly ^^ (8 * length bs)) ((crcStep poly ^^ 8) (c XOR leWord (b # bs))) =
      (crcStep poly ^^ (8 * length bs + 8)) (c XOR leWord (b # bs))"
    by (simp only: funpow_add comp_apply)
  finally show ?case by (simp add: add.commute)
qed (simp add: crcRegister_def)

text \<open>A change confined to four consecutive octets changes the register.\<close>

lemma crcRegister_burst:
  assumes "bit poly 31" "length a = length b" "length a \<le> 4"
    "crcRegister poly c (xs @ a @ ys) = crcRegister poly c (xs @ b @ ys)"
  shows "a = b"
proof -
  let ?c = "crcRegister poly c xs"
  have "crcRegister poly (crcRegister poly ?c a) ys = crcRegister poly (crcRegister poly ?c b) ys"
    using assms(4) by (simp add: crcRegister_def)
  then have "crcRegister poly ?c a = crcRegister poly ?c b" by (rule crcRegister_inj [OF assms(1)])
  then have "(crcStep poly ^^ (8 * length b)) (?c XOR leWord a) = (crcStep poly ^^ (8 * length b)) (?c XOR leWord b)"
    using assms(2,3) by (simp add: crcRegister_leWord)
  then have "?c XOR leWord a = ?c XOR leWord b" by (rule crcSteps_inj [OF assms(1)])
  then have "leWord a = leWord b" by simp
  then show ?thesis using assms(2,3) by (intro leWord_inj)
qed


section \<open>The safe point\<close>

definition Len :: nat where "Len = 4"

definition crc32P4NormalPoly :: u32 where "crc32P4NormalPoly = 0xF4ACFB13"

text \<open>The loop of \<open>reflect32\<close> with its two variables.\<close>

fun reflectLoop :: "nat \<Rightarrow> u32 \<Rightarrow> u32 \<Rightarrow> u32" where
  "reflectLoop 0 r v = r"
| "reflectLoop (Suc n) r v = reflectLoop n (push_bit 1 r OR (v AND 1)) (drop_bit 1 v)"

definition reflect32 :: "u32 \<Rightarrow> u32" where
  "reflect32 v = reflectLoop 32 0 v"

definition crc32P4Table :: "u32 list" where
  "crc32P4Table = MakeTable (reflect32 crc32P4NormalPoly)"

text \<open>The two byte strings that \<open>writeCovered\<close> writes: the fixed fields, then the body.\<close>

definition coveredHeader :: "StreamID \<Rightarrow> Message \<Rightarrow> bytes" where
  "coveredHeader stream m =
     sid_bytes stream @ [Kind m, ucast (ByteBusID m)] @ put16 (TransactionNum m) @ [Control m] @
     put16 (ReadSizeOrSegment m) @ put64 (Timestamp m)"

definition Compute :: "StreamID \<Rightarrow> Message \<Rightarrow> u32" where
  "Compute stream m =
     simpleUpdate crc32P4Table (simpleUpdate crc32P4Table 0 (coveredHeader stream m)) (Body m)"

definition ComputeFragmented :: "StreamID \<Rightarrow> Message \<Rightarrow> bytes list \<Rightarrow> u32" where
  "ComputeFragmented stream header bodies = Compute stream (header\<lparr>Body := concat bodies\<rparr>)"

definition padLenFor :: "nat \<Rightarrow> nat" where
  "padLenFor payloadLen = (4 - payloadLen mod 4) mod 4"

definition Protect :: "StreamID \<Rightarrow> Message \<Rightarrow> Message" where
  "Protect stream m =
     (let crc = Compute stream m; pad = padLenFor (length (Body m)) in
      m\<lparr>Body := Body m @ replicate pad 0 @ put32 crc\<rparr>)"

text \<open>The loop of \<open>recoverProtected\<close> over the pad lengths that remain to be tried.\<close>

fun tryPads :: "bytes \<Rightarrow> u32 \<Rightarrow> (bytes \<Rightarrow> u32) \<Rightarrow> nat list \<Rightarrow> bytes option" where
  "tryPads withoutCRC got tryCRC [] = None"
| "tryPads withoutCRC got tryCRC (pad # pads) =
     (let realLen = length withoutCRC - pad; candidate = take realLen withoutCRC in
      if pad > 0 \<and> \<not> list_all (\<lambda>b. b = 0) (drop realLen withoutCRC)
      then tryPads withoutCRC got tryCRC pads
      else if tryCRC candidate = got then Some candidate
      else tryPads withoutCRC got tryCRC pads)"

definition recoverProtected :: "bytes \<Rightarrow> u32 \<Rightarrow> (bytes \<Rightarrow> u32) \<Rightarrow> bytes option" where
  "recoverProtected withoutCRC got tryCRC =
     (let maxPad = (if 3 > length withoutCRC then length withoutCRC else 3) in
      tryPads withoutCRC got tryCRC [0..<maxPad + 1])"

definition Verify :: "StreamID \<Rightarrow> Message \<Rightarrow> Message go" where
  "Verify stream m =
     (if length (Body m) < Len then Err (EE2e ErrShortSafePoint)
      else
        andThen (slice (Body m) 0 (length (Body m) - Len)) (\<lambda>withoutCRC.
        andThen (get32 (Body m) (length (Body m) - Len)) (\<lambda>got.
          case recoverProtected withoutCRC got (\<lambda>candidate. Compute stream (m\<lparr>Body := candidate\<rparr>)) of
            None \<Rightarrow> Err (EWrap (EE2e ErrCRCMismatch) (DGot got))
          | Some real \<Rightarrow> Ok (m\<lparr>Body := real\<rparr>))))"

definition VerifyFragmented :: "StreamID \<Rightarrow> Message \<Rightarrow> bytes list \<Rightarrow> Message go" where
  "VerifyFragmented stream header bodies =
     (if length bodies = 0 then Err (EE2e ErrShortSafePoint)
      else
        andThen (idx bodies (length bodies - 1)) (\<lambda>final.
        if length final < Len then Err (EE2e ErrShortSafePoint)
        else
          andThen (slice final 0 (length final - Len)) (\<lambda>withoutCRC.
          andThen (get32 final (length final - Len)) (\<lambda>got.
            case recoverProtected withoutCRC got
                (\<lambda>candidate. ComputeFragmented stream header (bodies[length bodies - 1 := candidate])) of
              None \<Rightarrow> Err (EWrap (EE2e ErrCRCMismatch) (DGot got))
            | Some real \<Rightarrow> Ok (header\<lparr>Body := concat (bodies[length bodies - 1 := real])\<rparr>)))))"

definition Guard_HandleRequest :: "'w handler \<Rightarrow> 'w handler" where
  "Guard_HandleRequest h w rq req =
     (case Verify rq req of
        Err e \<Rightarrow> (w, zeroMessage, Some e)
      | Panic \<Rightarrow> (w, zeroMessage, None)
      | Ok inner \<Rightarrow>
          (case h w rq inner of
             (w', resp, Some e) \<Rightarrow> (w', zeroMessage, Some e)
           | (w', resp, None) \<Rightarrow> (w', Protect rq resp, None)))"

section \<open>Laws\<close>

lemma reflect_poly: "reflect32 crc32P4NormalPoly = 0xC8DF352F"
  by code_simp

lemma simpleUpdate_register: "simpleUpdate (MakeTable poly) crc p = NOT (crcRegister poly (NOT crc) p)"
  by (simp add: simpleUpdate_def crcRegister_def foldl_conv_fold tableByte_bitByte)

definition covered :: "StreamID \<Rightarrow> Message \<Rightarrow> bytes" where
  "covered stream m = coveredHeader stream m @ Body m"

text \<open>The checksum of the specification, bit by bit: the register starts with all ones and the
  result is complemented.\<close>

definition crc32P4 :: "bytes \<Rightarrow> u32" where
  "crc32P4 p = NOT (crcRegister 0xC8DF352F 0xFFFFFFFF p)"

lemma Compute_crc32P4: "Compute stream m = crc32P4 (covered stream m)"
proof -
  have "(0xFFFFFFFF :: u32) = - 1" by code_simp
  then have "crc32P4 p = NOT (crcRegister 0xC8DF352F (- 1) p)" for p by (simp only: crc32P4_def)
  then show ?thesis
    by (simp add: Compute_def crc32P4Table_def reflect_poly simpleUpdate_register covered_def crcRegister_def)
qed

lemma crc32P4_burst:
  assumes "length a = length b" "length a \<le> 4" "a \<noteq> b"
  shows "crc32P4 (xs @ a @ ys) \<noteq> crc32P4 (xs @ b @ ys)"
proof -
  have "bit (0xC8DF352F :: u32) 31" by code_simp
  from crcRegister_burst [OF this assms(1,2)] show ?thesis using assms(3) by (auto simp: crc32P4_def)
qed

lemma tryPads_Some:
  "tryPads w got f pads = Some c \<Longrightarrow> \<exists>pad \<in> set pads. f c = got \<and> c = take (length w - pad) w \<and>
     list_all (\<lambda>b. b = 0) (drop (length w - pad) w)"
  by (induction pads) (fastforce simp: Let_def split: if_splits)+

lemma tryPads_first:
  assumes "sorted pads" "pad \<in> set pads" "f (take (length w - pad) w) = got"
    "list_all (\<lambda>b. b = 0) (drop (length w - pad) w)"
  shows "\<exists>pad' \<le> pad. tryPads w got f pads = Some (take (length w - pad') w) \<and> f (take (length w - pad') w) = got"
  using assms
proof (induction pads)
  case (Cons p pads)
  show ?case
  proof (cases "pad = p")
    case False
    then have "p \<le> pad" "pad \<in> set pads" using Cons.prems by auto
    then show ?thesis using Cons by (auto simp: Let_def)
  qed (use Cons.prems in \<open>auto simp: Let_def\<close>)
qed simp

lemma recoverProtected_Some:
  assumes "recoverProtected w got f = Some c"
  shows "\<exists>k \<le> 3. f c = got \<and> w = c @ replicate k 0"
proof -
  let ?pads = "[0..<(if 3 > length w then length w else 3) + 1]"
  have "tryPads w got f ?pads = Some c" using assms by (simp only: recoverProtected_def Let_def)
  from tryPads_Some [OF this] obtain pad where mem: "pad \<in> set ?pads" and pad: "f c = got" "c = take (length w - pad) w"
    and z: "list_all (\<lambda>b. b = 0) (drop (length w - pad) w)" by blast
  have le: "pad \<le> 3" using mem by (auto split: if_splits)
  have "drop (length w - pad) w = replicate (length w - (length w - pad)) 0"
    using z by (intro replicate_eqI) (auto simp: list_all_iff)
  moreover have "w = take (length w - pad) w @ drop (length w - pad) w" by simp
  ultimately have "w = c @ replicate (length w - (length w - pad)) 0" using pad(2) by metis
  moreover have "length w - (length w - pad) \<le> 3" using le by linarith
  ultimately show ?thesis using pad(1) by blast
qed

text \<open>The shortest pad that matches is found.\<close>

lemma recoverProtected_finds:
  assumes "f c = got" "k \<le> 3"
  shows "\<exists>j \<le> k. recoverProtected (c @ replicate k 0) got f = Some (c @ replicate j 0) \<and> f (c @ replicate j 0) = got"
proof -
  let ?w = "c @ replicate k (0 :: u8)"
  obtain pad where pad: "pad \<le> k" "recoverProtected ?w got f = Some (take (length ?w - pad) ?w)"
    "f (take (length ?w - pad) ?w) = got"
  proof -
    let ?pads = "[0..<(if 3 > length ?w then length ?w else 3) + 1]"
    have "k \<in> set ?pads" using assms(2) by auto
    from tryPads_first [OF _ this, of f ?w got] assms(1)
    have "\<exists>pad' \<le> k. tryPads ?w got f ?pads = Some (take (length ?w - pad') ?w) \<and> f (take (length ?w - pad') ?w) = got"
      by (simp add: list_all_iff del: upt_Suc)
    then show ?thesis using that by (metis recoverProtected_def)
  qed
  have "take (length ?w - pad) ?w = c @ replicate (k - pad) 0" using pad(1) by (simp add: min_def)
  then show ?thesis using pad(2,3) by (intro exI [of _ "k - pad"]) (simp only:, simp)
qed

lemma Verify_body:
  assumes "Body m = w @ put32 crc"
  shows "Verify stream m =
    (case recoverProtected w crc (\<lambda>candidate. Compute stream (m\<lparr>Body := candidate\<rparr>)) of
       None \<Rightarrow> Err (EWrap (EE2e ErrCRCMismatch) (DGot crc)) | Some real \<Rightarrow> Ok (m\<lparr>Body := real\<rparr>))"
proof -
  have "get32 (w @ put32 crc) (length w) = (Ok crc :: u32 go)" using get32_append [of w crc "[]"] by (simp del: get_no_panic)
  then show ?thesis using assms by (simp add: Verify_def Len_def del: get_no_panic)
qed

lemma Protect_body: "Body (Protect stream m) = (Body m @ replicate (padLenFor (length (Body m))) 0) @ put32 (Compute stream m)"
  by (simp add: Protect_def Let_def)

lemma padLenFor_le: "padLenFor n \<le> 3"
  unfolding padLenFor_def by (cases n rule: pad4_cases) simp_all

lemma Verify_Protect:
  "\<exists>k \<le> padLenFor (length (Body m)). Verify stream (Protect stream m) = Ok (m\<lparr>Body := Body m @ replicate k 0\<rparr>) \<and>
     Compute stream (m\<lparr>Body := Body m @ replicate k 0\<rparr>) = Compute stream m"
proof -
  let ?f = "\<lambda>candidate. Compute stream (m\<lparr>Body := candidate\<rparr>)"
  have "Protect stream m\<lparr>Body := b\<rparr> = m\<lparr>Body := b\<rparr>" for b by (simp add: Protect_def Let_def)
  moreover obtain j where "j \<le> padLenFor (length (Body m))"
    "recoverProtected (Body m @ replicate (padLenFor (length (Body m))) 0) (Compute stream m) ?f = Some (Body m @ replicate j 0)"
    "?f (Body m @ replicate j 0) = Compute stream m"
    using recoverProtected_finds [of ?f "Body m" "Compute stream m", OF _ padLenFor_le [of "length (Body m)"]] by auto
  ultimately show ?thesis
    by (intro exI [of _ j]) (simp add: Verify_body [OF Protect_body])
qed

text \<open>What an accepted message carries.\<close>

lemma Verify_Ok:
  assumes "Verify stream m = Ok m'"
  shows "\<exists>k \<le> 3. Body m = Body m' @ replicate k 0 @ put32 (Compute stream m') \<and> m' = m\<lparr>Body := Body m'\<rparr>"
proof -
  have len: "Len \<le> length (Body m)" using assms by (auto simp: Verify_def split: if_splits)
  let ?w = "take (length (Body m) - 4) (Body m)"
  obtain a b c d where "drop (length (Body m) - 4) (Body m) = [a, b, c, d]"
  proof -
    have "xs = [xs ! 0, xs ! 1, xs ! 2, xs ! 3]" if "length xs = 4" for xs :: bytes
      using split_at_nths [of 4 xs] that by (simp add: upt_rec numeral_2_eq_2 numeral_3_eq_3)
    moreover have "length (drop (length (Body m) - 4) (Body m)) = 4" using len by (simp add: Len_def)
    ultimately show ?thesis using that by blast
  qed
  then have body: "Body m = ?w @ put32 (be32 a b c d)"
    by (metis append_take_drop_id put32_be32)
  then obtain real where r: "recoverProtected ?w (be32 a b c d) (\<lambda>x. Compute stream (m\<lparr>Body := x\<rparr>)) = Some real"
    and m': "m' = m\<lparr>Body := real\<rparr>"
    using assms Verify_body [OF body] by (auto split: option.splits)
  show ?thesis using recoverProtected_Some [OF r] body m' by auto
qed

lemma Verify_no_panic: "Verify stream m \<noteq> Panic"
  by (auto simp: Verify_def Len_def split: option.splits)

text \<open>For evaluation by the simplifier.\<close>

lemma bitByte_steps:
  "bitByte poly c v = crcStep poly (crcStep poly (crcStep poly (crcStep poly
     (crcStep poly (crcStep poly (crcStep poly (crcStep poly (c XOR ucast v))))))))"
  by (simp add: bitByte_def eval_nat_numeral)

lemma crcRegister_zeros: "crcRegister poly 0 (replicate n 0) = 0"
proof (induction n)
  case (Suc n)
  have "bitByte poly 0 0 = 0" by (simp add: bitByte_steps crcStep_def)
  then show ?case using Suc by (simp add: crcRegister_def)
qed (simp add: crcRegister_def)

lemma Compute_zero_extension:
  assumes "Compute stream m = 0xFFFFFFFF"
  shows "Compute stream (m\<lparr>Body := Body m @ replicate k 0\<rparr>) = 0xFFFFFFFF"
proof -
  have "NOT (0xFFFFFFFF :: u32) = 0" by simp
  moreover have "crcRegister 0xC8DF352F 0xFFFFFFFF (covered stream m) = NOT 0xFFFFFFFF"
    using assms unfolding Compute_crc32P4 crc32P4_def by (metis bit.double_compl)
  ultimately have "crcRegister 0xC8DF352F 0xFFFFFFFF (covered stream m) = 0" by simp
  moreover have "covered stream (m\<lparr>Body := Body m @ replicate k 0\<rparr>) = covered stream m @ replicate k 0"
    by (simp add: covered_def coveredHeader_def)
  moreover have "NOT (0 :: u32) = 0xFFFFFFFF" by simp
  ultimately show ?thesis
    using crcRegister_zeros [of "0xC8DF352F" k] by (simp add: Compute_crc32P4 crc32P4_def crcRegister_def)
qed

lemma crc_check_value: "crc32P4 [0x31, 0x32, 0x33, 0x34, 0x35, 0x36, 0x37, 0x38, 0x39] = 0x1697D06A"
  by (simp add: crc32P4_def crcRegister_def bitByte_steps crcStep_def)

section \<open>Properties\<close>

text \<open>C19: the checksum is the specification's. The table-driven computation over the two writes of
  the covered fields equals the bit-by-bit CRC with polynomial 0xF4ACFB13, reflected, over all
  covered octets; over the published check string it yields the published check value.\<close>

theorem compute_is_crc32p4:
  "Compute stream m = crc32P4 (coveredHeader stream m @ Body m) \<and>
   ComputeFragmented stream m bodies = crc32P4 (coveredHeader stream m @ concat bodies) \<and>
   crc32P4 [0x31, 0x32, 0x33, 0x34, 0x35, 0x36, 0x37, 0x38, 0x39] = 0x1697D06A"
proof -
  have "coveredHeader stream (m\<lparr>Body := b\<rparr>) = coveredHeader stream m" for b by (simp add: coveredHeader_def)
  then show ?thesis
    by (simp add: ComputeFragmented_def Compute_crc32P4 covered_def crc_check_value)
qed

text \<open>Corruption is detected. Two messages whose covered octets differ only within four
  consecutive octets never have the same checksum, whatever the rest of the message is.\<close>

theorem bursts_change_the_checksum:
  assumes "coveredHeader s m @ Body m = xs @ a @ ys" "coveredHeader s' m' @ Body m' = xs @ b @ ys"
    and "length a = length b" "length a \<le> 4" "a \<noteq> b"
  shows "Compute s m \<noteq> Compute s' m'"
  using crc32P4_burst [OF assms(3-5)] by (simp add: Compute_crc32P4 covered_def assms(1,2))

theorem bursts_change_the_checksum_witness:
  "Compute zeroStreamID (zeroMessage\<lparr>Body := [1, 2, 3, 4, 5]\<rparr>) \<noteq> Compute zeroStreamID (zeroMessage\<lparr>Body := [1, 9, 9, 9, 5]\<rparr>)"
  by (rule bursts_change_the_checksum [where a = "[2, 3, 4]" and b = "[9, 9, 9]" and ys = "[5]" and
        xs = "coveredHeader zeroStreamID zeroMessage @ [1]"]) (simp_all add: coveredHeader_def)

text \<open>Protection and verification. A protected message always verifies, and yields the
  message itself, possibly with some of its zero padding left on the body; the latter only if the
  longer body has the same checksum, and never for a body of whole quadlets.\<close>

theorem protect_then_verify:
  "\<exists>k \<le> padLenFor (length (Body m)).
     Verify stream (Protect stream m) = Ok (m\<lparr>Body := Body m @ replicate k 0\<rparr>) \<and>
     Compute stream (m\<lparr>Body := Body m @ replicate k 0\<rparr>) = Compute stream m \<and>
     (length (Body m) mod 4 = 0 \<longrightarrow> k = 0)"
  using Verify_Protect [of m stream] by (auto simp: padLenFor_def)

theorem protect_then_verify_witness:
  "Verify zeroStreamID (Protect zeroStreamID (zeroMessage\<lparr>Body := [1, 2, 3, 4]\<rparr>)) = Ok (zeroMessage\<lparr>Body := [1, 2, 3, 4]\<rparr>)"
  using protect_then_verify [of "zeroMessage\<lparr>Body := [1, 2, 3, 4]\<rparr>" zeroStreamID] by (auto simp: zeroMessage_def)

text \<open>Padding may be taken for payload. When the checksum of a message is 0xFFFFFFFF, its
  register is zero, trailing zero octets do not change it, and verification of the protected
  message returns all the padding as payload.\<close>

theorem padding_taken_for_payload:
  assumes "Compute stream m = 0xFFFFFFFF"
  shows "Verify stream (Protect stream m) = Ok (m\<lparr>Body := Body m @ replicate (padLenFor (length (Body m))) 0\<rparr>)"
proof -
  let ?w = "Body m @ replicate (padLenFor (length (Body m))) 0"
  have "recoverProtected ?w (Compute stream m) (\<lambda>c. Compute stream (m\<lparr>Body := c\<rparr>)) = Some ?w"
    unfolding recoverProtected_def Let_def using Compute_zero_extension [OF assms] assms
    by (simp add: upt_conv_Cons del: upt_Suc)
  moreover have "Protect stream m\<lparr>Body := b\<rparr> = m\<lparr>Body := b\<rparr>" for b by (simp add: Protect_def Let_def)
  ultimately show ?thesis by (simp add: Verify_body [OF Protect_body])
qed

text \<open>Four octets that drive the register to zero, and one more.\<close>

definition ambiguousMessage :: Message where
  "ambiguousMessage = zeroMessage\<lparr>Body := [0xE2, 0xA5, 0xE0, 0xB9, 0]\<rparr>"

theorem padding_taken_for_payload_witness:
  "Verify zeroStreamID (Protect zeroStreamID ambiguousMessage) =
     Ok (ambiguousMessage\<lparr>Body := [0xE2, 0xA5, 0xE0, 0xB9, 0, 0, 0, 0]\<rparr>)"
proof -
  have "Compute zeroStreamID ambiguousMessage = 0xFFFFFFFF"
    by (simp add: Compute_crc32P4 crc32P4_def covered_def coveredHeader_def ambiguousMessage_def zeroMessage_def
        zeroStreamID_def put16_def put64_def crcRegister_def bitByte_steps crcStep_def)
  note padding_taken_for_payload [OF this]
  moreover have "padLenFor (length (Body ambiguousMessage)) = 3" by (simp add: padLenFor_def ambiguousMessage_def)
  moreover have "replicate 3 (0 :: u8) = [0, 0, 0]" by (simp add: numeral_3_eq_3)
  ultimately show ?thesis by (simp add: ambiguousMessage_def)
qed

text \<open>
  A valid safe point, as \<open>Protect\<close> lays it out: the message with at most three zero octets and its own checksum
  behind its body.
\<close>

definition carriesSafePoint :: "StreamID \<Rightarrow> Message \<Rightarrow> Message \<Rightarrow> bool" where
  "carriesSafePoint rq req inner \<longleftrightarrow> inner = req\<lparr>Body := Body inner\<rparr> \<and>
     (\<exists>k \<le> 3. Body req = Body inner @ replicate k 0 @ put32 (Compute rq inner))"

lemma Protect_carries: "carriesSafePoint rq (Protect rq m) m"
  by (auto simp: carriesSafePoint_def Protect_def Let_def padLenFor_def intro!: exI [of _ "padLenFor (length (Body m))"])

text \<open>Verification finds the longest message whose safe point the request carries, if there is any.\<close>

lemma Verify_carries:
  assumes "carriesSafePoint rq req inner"
  shows "\<exists>m. Verify rq req = Ok m \<and> length (Body inner) \<le> length (Body m)"
proof -
  obtain k where k: "k \<le> 3" "Body req = (Body inner @ replicate k 0) @ put32 (Compute rq inner)" and inner: "inner = req\<lparr>Body := Body inner\<rparr>"
    using assms by (auto simp: carriesSafePoint_def)
  have "Compute rq (req\<lparr>Body := Body inner\<rparr>) = Compute rq inner" using inner by simp
  from recoverProtected_finds [where f = "\<lambda>b. Compute rq (req\<lparr>Body := b\<rparr>)", OF this k(1)] obtain j
    where "recoverProtected (Body inner @ replicate k 0) (Compute rq inner) (\<lambda>b. Compute rq (req\<lparr>Body := b\<rparr>)) = Some (Body inner @ replicate j 0)"
    by blast
  then show ?thesis using Verify_body [OF k(2)] by (simp add: exI)
qed

lemma Verify_Ok_carries: "Verify rq req = Ok m \<Longrightarrow> carriesSafePoint rq req m"
  using Verify_Ok [of rq req m] by (auto simp: carriesSafePoint_def)

lemma Verify_error:
  "Verify rq req = Err e \<Longrightarrow> if length (Body req) < 4 then e = EE2e ErrShortSafePoint else errors_is e (EE2e ErrCRCMismatch)"
  by (auto simp: Verify_def Len_def split: if_splits option.splits)

text \<open>C18: the guard. The wrapped handler runs exactly when the request carries a valid safe point, once and on the
  longest message whose safe point it carries, and a response is sent protected. Otherwise the handler does
  not run, and the error is the one for a short safe point if there are less than four octets and a checksum
  mismatch if not. What \<open>Protect\<close> makes of a message carries a valid safe point of that message.\<close>

theorem guard_admits_exactly_valid:
  "(if \<exists>m. carriesSafePoint rq req m
    then \<exists>m. carriesSafePoint rq req m \<and> (\<forall>n. carriesSafePoint rq req n \<longrightarrow> length (Body n) \<le> length (Body m)) \<and>
      Guard_HandleRequest h w rq req =
        (case h w rq m of (w', resp, None) \<Rightarrow> (w', Protect rq resp, None) | (w', resp, Some e) \<Rightarrow> (w', zeroMessage, Some e))
    else \<exists>e. Guard_HandleRequest h w rq req = (w, zeroMessage, Some e) \<and>
      (if length (Body req) < 4 then e = EE2e ErrShortSafePoint else errors_is e (EE2e ErrCRCMismatch))) \<and>
   carriesSafePoint rq (Protect rq msg) msg"
proof (cases "Verify rq req")
  case (Ok m)
  then have "length (Body n) \<le> length (Body m)" if "carriesSafePoint rq req n" for n using Verify_carries [OF that] by auto
  then show ?thesis using Ok Verify_Ok_carries [OF Ok] Protect_carries by (auto simp: Guard_HandleRequest_def)
next
  case (Err e)
  then have "\<nexists>m. carriesSafePoint rq req m" using Verify_carries by fastforce
  then show ?thesis using Err Verify_error [OF Err] Protect_carries by (simp add: Guard_HandleRequest_def)
qed (use Verify_no_panic in blast)

theorem guard_admits_exactly_valid_witness:
  "fst (Guard_HandleRequest (\<lambda>w rq m. (Suc w, m, None)) 0 zeroStreamID (Protect zeroStreamID zeroMessage)) = 1 \<and>
   Guard_HandleRequest (\<lambda>w rq m. (Suc w, m, None)) 0 zeroStreamID zeroMessage = (0, zeroMessage, Some (EE2e ErrShortSafePoint))"
proof -
  have "\<not> carriesSafePoint zeroStreamID zeroMessage m" for m by (auto simp: carriesSafePoint_def zeroMessage_def put32_def)
  then have "Guard_HandleRequest (\<lambda>w rq m. (Suc w, m, None)) 0 zeroStreamID zeroMessage = (0, zeroMessage, Some (EE2e ErrShortSafePoint))"
    using guard_admits_exactly_valid [of zeroStreamID zeroMessage "\<lambda>w rq m. (Suc w, m, None)" 0] by (auto simp: zeroMessage_def)
  moreover have "fst (Guard_HandleRequest (\<lambda>w rq m. (Suc w, m, None)) 0 zeroStreamID (Protect zeroStreamID zeroMessage)) = 1"
    using guard_admits_exactly_valid [of zeroStreamID "Protect zeroStreamID zeroMessage" "\<lambda>w rq m. (Suc w, m, None)" 0 zeroMessage]
    by (auto split: if_splits)
  ultimately show ?thesis by blast
qed

end
