(* ===== verification/Fragment.thy ===== *)
theory Fragment
  imports E2e_Crc "HOL-Library.AList"
begin

text \<open>
  The package \<open>fragment\<close>: splitting a message into segments (\<open>segment.go\<close>), reassembling them
  (\<open>reassembler.go\<close>) and the gateway in front of a dispatcher (\<open>gateway.go\<close>).
\<close>

section \<open>Keys and configuration\<close>

record Key =
  KStream :: StreamID
  KBus :: ByteBusID
  KTxn :: TransactionNum

definition KeyOf :: "StreamID \<Rightarrow> Message \<Rightarrow> Key" where
  "KeyOf stream m = \<lparr>KStream = stream, KBus = ByteBusID m, KTxn = TransactionNum m\<rparr>"

definition DefaultMaxSegmentBody :: int where "DefaultMaxSegmentBody = 1400"
definition DefaultReassemblyTimeout :: nanos where "DefaultReassemblyTimeout = 5 * 1000000000"
definition DefaultMaxSegments :: int where "DefaultMaxSegments = 4096"

record FConfig =
  FTimeout :: nanos
  MaxSegments :: int

section \<open>Splitting\<close>

definition maxSegmentIndex :: int where "maxSegmentIndex = 0xFFFF"

text \<open>The segment that iteration \<open>i\<close> of the loop appends.\<close>

definition segmentAt :: "Message \<Rightarrow> nat \<Rightarrow> nat \<Rightarrow> nat \<Rightarrow> Message" where
  "segmentAt msg maxBody n i =
     (let start = i * maxBody;
          end0 = start + maxBody;
          end1 = (if end0 > length (Body msg) then length (Body msg) else end0);
          seg = msg\<lparr>Pad := 0, Body := take (end1 - start) (drop start (Body msg))\<rparr>
      in if i < n - 1
         then seg\<lparr>Control := Control msg OR FlagMoreSegments, ReadSizeOrSegment := word_of_nat i\<rparr>
         else seg\<lparr>Control := Control msg AND NOT FlagMoreSegments, ReadSizeOrSegment := ReadSizeOrSegment msg\<rparr>)"

definition Split :: "Message \<Rightarrow> int \<Rightarrow> Message list go" where
  "Split msg maxBody =
     (if maxBody \<le> 0 then Err (EFragment ErrInvalidMaxSegmentBody)
      else if Has (Control msg) FlagMoreSegments then Err (EFragment ErrAlreadyFragmented)
      else if int (length (Body msg)) \<le> maxBody then Ok [msg]
      else
        (let n = (int (length (Body msg)) + maxBody - 1) div maxBody in
         if n - 1 > maxSegmentIndex then Err (EFragment ErrTooManySegments)
         else Ok (map (segmentAt msg (nat maxBody) (nat n)) [0..<nat n])))"

section \<open>Reassembly\<close>

record segseq =
  qkind :: MessageKind
  qtimestamp :: u64
  baseControl :: ControlFlags
  finalReadSizeOrSegment :: u16
  bodies :: "bytes list"
  ready :: bool
  updated :: nanos

record Reassembler =
  rcfg :: FConfig
  seqs :: "(Key \<times> segseq) list"

definition headerMatches :: "segseq \<Rightarrow> Message \<Rightarrow> bool" where
  "headerMatches s m \<longleftrightarrow> Kind m = qkind s \<and> Timestamp m = qtimestamp s \<and>
     Control m AND NOT FlagMoreSegments = baseControl s"

definition messageFor :: "segseq \<Rightarrow> Key \<Rightarrow> Message" where
  "messageFor s key = zeroMessage\<lparr>Kind := qkind s, ByteBusID := KBus key, TransactionNum := KTxn key,
     Control := baseControl s, ReadSizeOrSegment := finalReadSizeOrSegment s, Timestamp := qtimestamp s\<rparr>"

definition NewReassembler :: "FConfig \<Rightarrow> Reassembler" where
  "NewReassembler c = \<lparr>rcfg =
     \<lparr>FTimeout = (if FTimeout c \<le> 0 then DefaultReassemblyTimeout else FTimeout c),
      MaxSegments = (if MaxSegments c \<le> 0 then DefaultMaxSegments else MaxSegments c)\<rparr>, seqs = []\<rparr>"

definition Add :: "Reassembler \<Rightarrow> nanos \<Rightarrow> StreamID \<Rightarrow> Message \<Rightarrow> Reassembler \<times> bool go" where
  "Add r now stream m =
     (let key = KeyOf stream m; isSeg = Has (Control m) FlagMoreSegments;
          put = (\<lambda>q. r\<lparr>seqs := AList.update key q (seqs r)\<rparr>);
          dropped = r\<lparr>seqs := AList.delete key (seqs r)\<rparr>
      in case map_of (seqs r) key of
        None \<Rightarrow>
          if \<not> isSeg then
            (put \<lparr>qkind = Kind m, qtimestamp = Timestamp m, baseControl = Control m,
               finalReadSizeOrSegment = ReadSizeOrSegment m, bodies = [Body m], ready = True, updated = now\<rparr>, Ok True)
          else if ReadSizeOrSegment m \<noteq> 0 then (r, Err (EFragment ErrOutOfOrderSegment))
          else
            (put \<lparr>qkind = Kind m, qtimestamp = Timestamp m, baseControl = Control m AND NOT FlagMoreSegments,
               finalReadSizeOrSegment = 0, bodies = [Body m], ready = False, updated = now\<rparr>, Ok False)
      | Some q \<Rightarrow>
          if \<not> headerMatches q m then (dropped, Err (EFragment ErrHeaderMismatch))
          else if ready q then
            (case idx (bodies q) (length (bodies q) - 1) of
               Ok b \<Rightarrow>
                 if \<not> isSeg \<and> b = Body m \<and> ReadSizeOrSegment m = finalReadSizeOrSegment q then (r, Ok True)
                 else (r, Err (EFragment ErrSequenceComplete))
             | Err e \<Rightarrow> (r, Err e)
             | Panic \<Rightarrow> (r, Panic))
          else
            (let next = length (bodies q); i = unat (ReadSizeOrSegment m) in
             if isSeg \<and> i + 1 = next then
               (case idx (bodies q) i of
                  Ok b \<Rightarrow> if b = Body m then (r, Ok False) else (dropped, Err (EFragment ErrDuplicateSegment))
                | Err e \<Rightarrow> (r, Err e)
                | Panic \<Rightarrow> (r, Panic))
             else if isSeg \<and> i \<noteq> next then (dropped, Err (EFragment ErrOutOfOrderSegment))
             else if int next + 1 > MaxSegments (rcfg r) then (dropped, Err (EFragment ErrTooManySegments))
             else if \<not> isSeg then
               (put (q\<lparr>bodies := bodies q @ [Body m], updated := now,
                  finalReadSizeOrSegment := ReadSizeOrSegment m, ready := True\<rparr>), Ok True)
             else (put (q\<lparr>bodies := bodies q @ [Body m], updated := now\<rparr>), Ok False)))"

definition Finish :: "Reassembler \<Rightarrow> Key \<Rightarrow> Reassembler \<times> Message go" where
  "Finish r key =
     (case map_of (seqs r) key of
        None \<Rightarrow> (r, Err (EFragment ErrUnknownSequence))
      | Some q \<Rightarrow>
          if \<not> ready q then (r, Err (EFragment ErrIncomplete))
          else (r\<lparr>seqs := AList.delete key (seqs r)\<rparr>, Ok ((messageFor q key)\<lparr>Body := concat (bodies q)\<rparr>)))"

definition FinishProtected :: "Reassembler \<Rightarrow> StreamID \<Rightarrow> Key \<Rightarrow> Reassembler \<times> Message go" where
  "FinishProtected r stream key =
     (case map_of (seqs r) key of
        None \<Rightarrow> (r, Err (EFragment ErrUnknownSequence))
      | Some q \<Rightarrow>
          if \<not> ready q then (r, Err (EFragment ErrIncomplete))
          else (r\<lparr>seqs := AList.delete key (seqs r)\<rparr>, VerifyFragmented stream (messageFor q key) (bodies q)))"

text \<open>Go visits the map in no particular order; the purged keys are listed in the table's.\<close>

definition stale :: "Reassembler \<Rightarrow> nanos \<Rightarrow> segseq \<Rightarrow> bool" where
  "stale r now q \<longleftrightarrow> \<not> ready q \<and> now - updated q > FTimeout (rcfg r)"

definition Sweep :: "Reassembler \<Rightarrow> nanos \<Rightarrow> Reassembler \<times> Key list" where
  "Sweep r now = (r\<lparr>seqs := filter (\<lambda>(k, q). \<not> stale r now q) (seqs r)\<rparr>,
     map fst (filter (\<lambda>(k, q). stale r now q) (seqs r)))"

definition Reassembler_Pending :: "Reassembler \<Rightarrow> nat" where
  "Reassembler_Pending r = length (seqs r)"

section \<open>The gateway\<close>

text \<open>\<open>submit\<close> is the method of the interface \<open>Submitter\<close>, with the submitter's state threaded.\<close>

record 'd Gateway =
  GDispatcher :: 'd
  GReassembler :: Reassembler
  MaxSegmentBody :: int

definition NewGateway :: "'d \<Rightarrow> Reassembler \<Rightarrow> int \<Rightarrow> 'd Gateway" where
  "NewGateway d re n =
     \<lparr>GDispatcher = d, GReassembler = re, MaxSegmentBody = (if n \<le> 0 then DefaultMaxSegmentBody else n)\<rparr>"

definition Gateway_Submit ::
  "('d \<Rightarrow> StreamID \<Rightarrow> Message \<Rightarrow> ('d \<times> TicketID) go) \<Rightarrow> 'd Gateway \<Rightarrow> nanos \<Rightarrow> StreamID \<Rightarrow> Message \<Rightarrow> 'd Gateway \<times> TicketID go" where
  "Gateway_Submit submit g now rq req =
     (case Add (GReassembler g) now rq req of
        (re, Err e) \<Rightarrow> (g\<lparr>GReassembler := re\<rparr>, Err e)
      | (re, Panic) \<Rightarrow> (g\<lparr>GReassembler := re\<rparr>, Panic)
      | (re, Ok False) \<Rightarrow> (g\<lparr>GReassembler := re\<rparr>, Err (EFragment ErrAwaitingSegments))
      | (re, Ok True) \<Rightarrow>
          (case Finish re (KeyOf rq req) of
             (re', Err e) \<Rightarrow> (g\<lparr>GReassembler := re'\<rparr>, Err e)
           | (re', Panic) \<Rightarrow> (g\<lparr>GReassembler := re'\<rparr>, Panic)
           | (re', Ok combined) \<Rightarrow>
               (case submit (GDispatcher g) rq combined of
                  Ok (d', t) \<Rightarrow> (g\<lparr>GReassembler := re', GDispatcher := d'\<rparr>, Ok t)
                | Err e \<Rightarrow> (g\<lparr>GReassembler := re'\<rparr>, Err e)
                | Panic \<Rightarrow> (g\<lparr>GReassembler := re'\<rparr>, Panic))))"

definition Gateway_Response :: "'d Gateway \<Rightarrow> Message \<Rightarrow> Message list go" where
  "Gateway_Response g resp = Split resp (MaxSegmentBody g)"

end
