(* ===== verification/Fragment_Lemmas.thy ===== *)
theory Fragment_Lemmas
  imports Fragment "HOL-Library.Sublist"
begin

text \<open>
  Segments and sequences: what splitting promises, what \<open>Add\<close> does to the sequence of one
  key, the invariant of the reassembler, the arrivals that its sequences stand for, reassembly of the segments of a
  message out of any traffic (the locale \<open>splitter\<close>, interpreted on \<open>Split\<close> and on the gateway's
  \<open>Response\<close>), and the safe point of fragmented messages.
\<close>

section \<open>Segments\<close>

lemma more_flag:
  "(Control m OR FlagMoreSegments) AND NOT FlagMoreSegments = Control m AND NOT FlagMoreSegments"
  "Has (c OR FlagMoreSegments) FlagMoreSegments"
  "\<not> Has (c AND NOT FlagMoreSegments) FlagMoreSegments"
  "\<not> Has c FlagMoreSegments \<Longrightarrow> c AND NOT FlagMoreSegments = c"
  by (auto simp: Has_def FlagMoreSegments_def u8_bits)

text \<open>What the sender promises: the segments carry the message's descriptor fields, are numbered,
  all but the last are marked, and their bodies make up the message's.\<close>

definition well_split :: "Message \<Rightarrow> Message list \<Rightarrow> bool" where
  "well_split msg segs \<longleftrightarrow> segs \<noteq> [] \<and> length segs \<le> 65536 \<and> concat (map Body segs) = Body msg \<and>
     (\<forall>i < length segs. Kind (segs ! i) = Kind msg \<and> Timestamp (segs ! i) = Timestamp msg \<and>
        ByteBusID (segs ! i) = ByteBusID msg \<and> TransactionNum (segs ! i) = TransactionNum msg \<and>
        Control (segs ! i) AND NOT FlagMoreSegments = Control msg \<and>
        (if i < length segs - 1 then Has (Control (segs ! i)) FlagMoreSegments \<and> ReadSizeOrSegment (segs ! i) = word_of_nat i
         else \<not> Has (Control (segs ! i)) FlagMoreSegments \<and> ReadSizeOrSegment (segs ! i) = ReadSizeOrSegment msg))"

text \<open>Cutting a list into pieces of a given length, the last one shorter.\<close>

lemma concat_pieces:
  "concat (map (\<lambda>i. take (min (length xs) (i * k + k) - i * k) (drop (i * k) xs)) [0..<n]) = take (n * k) xs"
proof (induction n)
  case (Suc n)
  have "take (min (length xs) (n * k + k) - n * k) (drop (n * k) xs) = take k (drop (n * k) xs)"
    by (cases "length xs \<le> n * k + k") (auto simp: min_def)
  moreover have "take (Suc n * k) xs = take (n * k) xs @ take k (drop (n * k) xs)"
    by (simp add: take_add [symmetric] add.commute)
  ultimately show ?case using Suc by simp
qed simp

lemma segmentAt_Body:
  "Body (segmentAt msg k n i) = take (min (length (Body msg)) (i * k + k) - i * k) (drop (i * k) (Body msg))"
  by (auto simp: segmentAt_def Let_def min_def)

lemma ceil_div:
  assumes "0 < (k::int)" "k < l"
  shows "1 < (l + k - 1) div k" "l \<le> (l + k - 1) div k * k" "((l + k - 1) div k - 1) * k < l"
proof -
  show "1 < (l + k - 1) div k" using assms by (simp add: zdiv_mono1 [of "2 * k" "l + k - 1" k, simplified] less_le_trans [of 1 2])
  have "(l + k - 1) mod k < k" "0 \<le> (l + k - 1) mod k" using assms by simp_all
  moreover have "(l + k - 1) div k * k = l + k - 1 - (l + k - 1) mod k" by (simp add: minus_mod_eq_div_mult)
  ultimately show "l \<le> (l + k - 1) div k * k" "((l + k - 1) div k - 1) * k < l" by (simp_all add: left_diff_distrib)
qed

lemma Split_well:
  assumes "Split msg maxBody = Ok segs"
  shows "well_split msg segs"
proof (cases "int (length (Body msg)) \<le> maxBody")
  case True
  then have "segs = [msg]" "\<not> Has (Control msg) FlagMoreSegments" using assms by (auto simp: Split_def split: if_splits)
  then show ?thesis by (simp add: well_split_def more_flag)
next
  case False
  let ?l = "length (Body msg)" let ?n = "(int ?l + maxBody - 1) div maxBody"
  have pos: "0 < maxBody" and more: "\<not> Has (Control msg) FlagMoreSegments" and n: "?n - 1 \<le> maxSegmentIndex"
    and segs: "segs = map (segmentAt msg (nat maxBody) (nat ?n)) [0..<nat ?n]"
    using assms False by (auto simp: Split_def Let_def split: if_splits)
  note c = ceil_div [OF pos, of "int ?l"]
  have "int ?l \<le> int (nat ?n * nat maxBody)" using c False pos by simp
  then have "?l \<le> nat ?n * nat maxBody" by (simp only: of_nat_le_iff)
  then have body: "concat (map Body segs) = Body msg"
    by (simp add: segs segmentAt_Body comp_def concat_pieces)
  have "1 < nat ?n" using c(1) False by simp
  then show ?thesis
    using n body more by (auto simp: well_split_def segs segmentAt_def Let_def more_flag maxSegmentIndex_def)
qed

lemma Split_bounded:
  assumes "Split msg maxBody = Ok segs" "s \<in> set segs"
  shows "int (length (Body s)) \<le> maxBody"
proof (cases "int (length (Body msg)) \<le> maxBody")
  case True
  then show ?thesis using assms by (auto simp: Split_def split: if_splits)
next
  case False
  then obtain n i where "0 < maxBody" "s = segmentAt msg (nat maxBody) n i"
    using assms by (auto simp: Split_def Let_def split: if_splits)
  then show ?thesis by (auto simp: segmentAt_Body)
qed

section \<open>One sequence at a time\<close>

text \<open>What \<open>Add\<close> does to the sequence of its own key, without the table of the others.\<close>

definition addSeq :: "int \<Rightarrow> nanos \<Rightarrow> segseq option \<Rightarrow> Message \<Rightarrow> segseq option \<times> bool go" where
  "addSeq limit now old m =
     (let isSeg = Has (Control m) FlagMoreSegments in
      case old of
        None \<Rightarrow>
          if isSeg \<and> ReadSizeOrSegment m \<noteq> 0 then (None, Err (EFragment ErrOutOfOrderSegment))
          else (Some \<lparr>qkind = Kind m, qtimestamp = Timestamp m, baseControl = Control m AND NOT FlagMoreSegments,
                  finalReadSizeOrSegment = (if isSeg then 0 else ReadSizeOrSegment m), bodies = [Body m],
                  ready = (\<not> isSeg), updated = now\<rparr>, Ok (\<not> isSeg))
      | Some q \<Rightarrow>
          if \<not> headerMatches q m then (None, Err (EFragment ErrHeaderMismatch))
          else if ready q then
            (if \<not> isSeg \<and> last (bodies q) = Body m \<and> ReadSizeOrSegment m = finalReadSizeOrSegment q then (old, Ok True)
             else (old, Err (EFragment ErrSequenceComplete)))
          else if isSeg \<and> unat (ReadSizeOrSegment m) + 1 = length (bodies q) then
            (if last (bodies q) = Body m then (old, Ok False) else (None, Err (EFragment ErrDuplicateSegment)))
          else if isSeg \<and> unat (ReadSizeOrSegment m) \<noteq> length (bodies q) then (None, Err (EFragment ErrOutOfOrderSegment))
          else if int (length (bodies q)) + 1 > limit then (None, Err (EFragment ErrTooManySegments))
          else (Some (q\<lparr>bodies := bodies q @ [Body m], updated := now,
                  finalReadSizeOrSegment := (if isSeg then finalReadSizeOrSegment q else ReadSizeOrSegment m),
                  ready := (\<not> isSeg)\<rparr>), Ok (\<not> isSeg)))"

definition wf_reassembler :: "Reassembler \<Rightarrow> bool" where
  "wf_reassembler r \<longleftrightarrow> distinct (map fst (seqs r)) \<and> 1 \<le> MaxSegments (rcfg r) \<and>
     (\<forall>(k, q) \<in> set (seqs r). bodies q \<noteq> [] \<and> int (length (bodies q)) \<le> MaxSegments (rcfg r))"

lemma wf_lookup:
  "wf_reassembler r \<Longrightarrow> map_of (seqs r) k = Some q \<Longrightarrow> bodies q \<noteq> [] \<and> int (length (bodies q)) \<le> MaxSegments (rcfg r)"
  by (fastforce simp: wf_reassembler_def dest: map_of_SomeD)

lemma idx_last: "xs \<noteq> [] \<Longrightarrow> idx xs (length xs - 1) = (Ok (last xs) :: 'a go)"
  by (simp add: last_conv_nth)

text \<open>The reassembler implements the abstract one, and touches no other key.\<close>

lemma Add_addSeq:
  assumes "wf_reassembler r"
  shows "map_of (seqs (fst (Add r now stream m))) = (map_of (seqs r))(KeyOf stream m :=
      fst (addSeq (MaxSegments (rcfg r)) now (map_of (seqs r) (KeyOf stream m)) m)) \<and>
    snd (Add r now stream m) = snd (addSeq (MaxSegments (rcfg r)) now (map_of (seqs r) (KeyOf stream m)) m)"
proof (cases "map_of (seqs r) (KeyOf stream m)")
  case None
  then show ?thesis
    by (auto simp: Add_def addSeq_def Let_def update_conv' fun_upd_idem more_flag)
next
  case (Some q)
  then have ne: "bodies q \<noteq> []" using wf_lookup [OF assms] by blast
  have dup: "idx (bodies q) (unat i) = (Ok (last (bodies q)) :: bytes go)" if "unat i + 1 = length (bodies q)" for i :: u16
  proof -
    have "unat i = length (bodies q) - 1" using that by linarith
    then show ?thesis by (simp only: idx_last [OF ne])
  qed
  show ?thesis
    using Some dup [of "ReadSizeOrSegment m"] idx_last [OF ne]
    by (auto simp: Add_def addSeq_def Let_def update_conv' delete_conv' fun_upd_idem simp del: idx_Ok One_nat_def add_Suc_right)
qed

lemma rcfg_Add [simp]: "rcfg (fst (Add r now stream m)) = rcfg r"
  by (auto simp: Add_def Let_def split: option.split outcome.split)


lemma addSeq_wf:
  assumes "fst (addSeq limit now old m) = Some q" "1 \<le> limit"
    and "\<forall>p. old = Some p \<longrightarrow> bodies p \<noteq> [] \<and> int (length (bodies p)) \<le> limit"
  shows "bodies q \<noteq> [] \<and> int (length (bodies q)) \<le> limit"
  using assms by (auto simp: addSeq_def Let_def split: option.splits if_splits)

lemma Add_wf [keeps]:
  assumes "wf_reassembler r"
  shows "wf_reassembler (fst (Add r now stream m))"
proof -
  let ?r = "fst (Add r now stream m)"
  have "distinct (map fst (seqs ?r))"
    using assms by (auto simp: Add_def Let_def wf_reassembler_def distinct_update distinct_delete split: option.split outcome.split)
  moreover have "bodies q \<noteq> [] \<and> int (length (bodies q)) \<le> MaxSegments (rcfg r)" if "(k, q) \<in> set (seqs ?r)" for k q
  proof -
    have "map_of (seqs ?r) k = Some q" using that calculation by simp
    then consider "map_of (seqs r) k = Some q" | "fst (addSeq (MaxSegments (rcfg r)) now (map_of (seqs r) k) m) = Some q"
      using Add_addSeq [OF assms, of now stream m] by (auto split: if_splits)
    then show ?thesis
      using wf_lookup [OF assms, of k] addSeq_wf assms by cases (auto simp: wf_reassembler_def)
  qed
  ultimately show ?thesis using assms by (auto simp: wf_reassembler_def)
qed

lemma delete_wf: "wf_reassembler r \<Longrightarrow> wf_reassembler (r\<lparr>seqs := AList.delete k (seqs r)\<rparr>)"
  using distinct_delete [of "seqs r" k] by (auto simp: wf_reassembler_def AList.delete_eq)

lemma other_wf [keeps]:
  assumes "wf_reassembler r"
  shows "wf_reassembler (fst (Finish r key))" "wf_reassembler (fst (FinishProtected r stream key))" "wf_reassembler (fst (Sweep r now))"
  using assms delete_wf [OF assms]
  by (auto simp: Finish_def FinishProtected_def Sweep_def wf_reassembler_def distinct_map_filter split: option.split)

lemma NewReassembler_wf [keeps]: "wf_reassembler (NewReassembler c)"
  by (simp add: wf_reassembler_def NewReassembler_def DefaultMaxSegments_def)

section \<open>Runs of arrivals\<close>

fun addAll :: "Reassembler \<Rightarrow> (nanos \<times> StreamID \<times> Message) list \<Rightarrow> Reassembler" where
  "addAll r [] = r"
| "addAll r ((now, stream, m) # evs) = addAll (fst (Add r now stream m)) evs"

definition seqAfter :: "int \<Rightarrow> segseq option \<Rightarrow> (nanos \<times> Message) list \<Rightarrow> segseq option" where
  "seqAfter limit = foldl (\<lambda>q (now, m). fst (addSeq limit now q m))"

definition ofKey :: "Key \<Rightarrow> (nanos \<times> StreamID \<times> Message) list \<Rightarrow> (nanos \<times> Message) list" where
  "ofKey key evs = map (\<lambda>(now, stream, m). (now, m)) (filter (\<lambda>(now, stream, m). KeyOf stream m = key) evs)"

lemma addAll_seqAfter:
  assumes "wf_reassembler r"
  shows "wf_reassembler (addAll r evs) \<and> rcfg (addAll r evs) = rcfg r \<and>
    map_of (seqs (addAll r evs)) key = seqAfter (MaxSegments (rcfg r)) (map_of (seqs r) key) (ofKey key evs)"
  using assms
proof (induction r evs rule: addAll.induct)
  case (2 r now stream m evs)
  then show ?case using Add_addSeq [of r now stream m] by (auto simp: keeps ofKey_def seqAfter_def)
qed (simp add: ofKey_def seqAfter_def)

section \<open>Reassembly of what was split\<close>

definition stateAfter :: "Message \<Rightarrow> Message list \<Rightarrow> nat \<Rightarrow> segseq option \<Rightarrow> bool" where
  "stateAfter msg segs j q \<longleftrightarrow> (if j = 0 then q = None else
     (\<exists>p. q = Some p \<and> qkind p = Kind msg \<and> qtimestamp p = Timestamp msg \<and> baseControl p = Control msg \<and>
        bodies p = map Body (take j segs) \<and> ready p = (j = length segs) \<and>
        (j = length segs \<longrightarrow> finalReadSizeOrSegment p = ReadSizeOrSegment msg)))"

lemma segment_fields:
  assumes "well_split msg segs" "i < length segs"
  shows "Kind (segs ! i) = Kind msg" "Timestamp (segs ! i) = Timestamp msg"
    "Control (segs ! i) AND NOT FlagMoreSegments = Control msg"
    "Has (Control (segs ! i)) FlagMoreSegments \<longleftrightarrow> Suc i < length segs"
    "Suc i < length segs \<Longrightarrow> unat (ReadSizeOrSegment (segs ! i)) = i"
    "Suc i = length segs \<Longrightarrow> ReadSizeOrSegment (segs ! i) = ReadSizeOrSegment msg"
proof -
  have f: "Kind (segs ! i) = Kind msg \<and> Timestamp (segs ! i) = Timestamp msg \<and>
        Control (segs ! i) AND NOT FlagMoreSegments = Control msg \<and>
        (if i < length segs - 1 then Has (Control (segs ! i)) FlagMoreSegments \<and> ReadSizeOrSegment (segs ! i) = word_of_nat i
         else \<not> Has (Control (segs ! i)) FlagMoreSegments \<and> ReadSizeOrSegment (segs ! i) = ReadSizeOrSegment msg)"
    using assms unfolding well_split_def by blast
  show "Kind (segs ! i) = Kind msg" "Timestamp (segs ! i) = Timestamp msg"
    "Control (segs ! i) AND NOT FlagMoreSegments = Control msg" using f by blast+
  show "Has (Control (segs ! i)) FlagMoreSegments \<longleftrightarrow> Suc i < length segs"
    using f assms(2) by (auto split: if_splits)
  show "unat (ReadSizeOrSegment (segs ! i)) = i" if "Suc i < length segs"
  proof -
    have "i < 65536" using assms that unfolding well_split_def by linarith
    moreover have "ReadSizeOrSegment (segs ! i) = word_of_nat i" using f that by (auto split: if_splits)
    ultimately show ?thesis by (simp add: unat_of_nat)
  qed
  show "ReadSizeOrSegment (segs ! i) = ReadSizeOrSegment msg" if "Suc i = length segs"
    using f that by (auto split: if_splits)
qed

lemma take_Suc_nth: "j < length segs \<Longrightarrow> map Body (take (Suc j) segs) = map Body (take j segs) @ [Body (segs ! j)]"
  by (simp add: take_Suc_conv_app_nth)

lemma addSeq_next:
  assumes "well_split msg segs" "j < length segs" "int (length segs) \<le> limit" "stateAfter msg segs j q"
  shows "stateAfter msg segs (Suc j) (fst (addSeq limit now q (segs ! j)))"
proof (cases j)
  case 0
  note f = segment_fields [OF assms(1,2)]
  have q: "q = None" using assms(4) 0 by (simp add: stateAfter_def)
  have "ReadSizeOrSegment (segs ! j) = 0" if "Suc j < length segs" using f(5) [OF that] 0 by (simp add: unat_eq_0)
  then have "addSeq limit now q (segs ! j) =
      (Some \<lparr>qkind = Kind msg, qtimestamp = Timestamp msg, baseControl = Control msg,
         finalReadSizeOrSegment = (if Suc j < length segs then 0 else ReadSizeOrSegment (segs ! j)), bodies = [Body (segs ! j)],
         ready = (\<not> Suc j < length segs), updated = now\<rparr>, Ok (\<not> Suc j < length segs))"
    using f(1-4) by (auto simp: addSeq_def Let_def q)
  moreover have "map Body (take (Suc j) segs) = [Body (segs ! j)]" using take_Suc_nth [OF assms(2)] 0 by simp
  ultimately show ?thesis using f(6) assms(2) by (auto simp: stateAfter_def)
next
  case (Suc k)
  note f = segment_fields [OF assms(1,2)]
  from assms(4) Suc obtain p where p: "q = Some p" "qkind p = Kind msg" "qtimestamp p = Timestamp msg"
    "baseControl p = Control msg" "bodies p = map Body (take j segs)" "\<not> ready p"
    using assms(2) by (auto simp: stateAfter_def)
  have len: "length (bodies p) = j" using p(5) assms(2) by simp
  have h: "headerMatches p (segs ! j)" using f p by (simp add: headerMatches_def)
  have "int j + 1 \<le> limit" using assms(2,3) by linarith
  then have "addSeq limit now q (segs ! j) =
      (Some (p\<lparr>bodies := bodies p @ [Body (segs ! j)], updated := now,
         finalReadSizeOrSegment := (if Suc j < length segs then finalReadSizeOrSegment p else ReadSizeOrSegment msg),
         ready := (\<not> Suc j < length segs)\<rparr>), Ok (\<not> Suc j < length segs))"
    using h p(1,6) len f(4-6) assms(2) by (auto simp: addSeq_def Let_def)
  then show ?thesis using p assms(2) take_Suc_nth [OF assms(2)] by (auto simp: stateAfter_def)
qed

text \<open>Repeating the segment that was accepted last changes nothing.\<close>

lemma addSeq_repeat:
  assumes "well_split msg segs" "j < length segs" "stateAfter msg segs (Suc j) q"
  shows "fst (addSeq limit now q (segs ! j)) = q"
proof -
  note f = segment_fields [OF assms(1,2)]
  from assms(3) obtain p where p: "q = Some p" "qkind p = Kind msg" "qtimestamp p = Timestamp msg" "baseControl p = Control msg"
    "bodies p = map Body (take (Suc j) segs)" "ready p = (Suc j = length segs)"
    "Suc j = length segs \<longrightarrow> finalReadSizeOrSegment p = ReadSizeOrSegment msg"
    by (auto simp: stateAfter_def)
  have "last (bodies p) = Body (segs ! j)" "length (bodies p) = Suc j"
    using p(5) take_Suc_nth [OF assms(2)] assms(2) by simp_all
  moreover have "headerMatches p (segs ! j)" using f p by (simp add: headerMatches_def)
  ultimately show ?thesis using p f(4-6) assms(2) by (auto simp: addSeq_def Let_def)
qed

lemma seqAfter_prefix:
  assumes "well_split msg segs" "int (length segs) \<le> limit"
  shows "remdups_adj (map snd evs) = take j segs \<Longrightarrow> j \<le> length segs \<Longrightarrow>
    stateAfter msg segs j (seqAfter limit None evs)"
proof (induction evs arbitrary: j rule: rev_induct)
  case Nil
  then have "j = 0" using assms(1) by (cases j) (auto simp: well_split_def)
  then show ?case by (simp add: stateAfter_def seqAfter_def)
next
  case (snoc ev evs)
  obtain now m where ev: "ev = (now, m)" by fastforce
  have step: "seqAfter limit None (evs @ [ev]) = fst (addSeq limit now (seqAfter limit None evs) m)"
    by (simp add: seqAfter_def ev)
  show ?case
  proof (cases "evs \<noteq> [] \<and> last (map snd evs) = m")
    case True
    then have r: "remdups_adj (map snd evs) = take j segs" using snoc.prems(1) by (simp add: ev remdups_adj_snoc)
    then have st: "stateAfter msg segs j (seqAfter limit None evs)" using snoc by blast
    have "take j segs \<noteq> []" using r True by (metis map_is_Nil_conv remdups_adj_Nil_iff)
    then obtain i where i: "j = Suc i" "i < length segs" using snoc.prems(2) by (cases j) auto
    have "m = last (take j segs)" using True r by (metis last_remdups_adj)
    then have "m = segs ! i" using i by (simp add: take_Suc_conv_app_nth)
    then show ?thesis using addSeq_repeat [OF assms(1) i(2)] st i(1) step by simp
  next
    case False
    then have r: "remdups_adj (map snd evs) @ [m] = take j segs" using snoc.prems(1) by (auto simp: ev remdups_adj_snoc)
    then obtain i where i: "j = Suc i" "i < length segs" using snoc.prems(2) by (cases j) auto
    then have "remdups_adj (map snd evs) = take i segs" "m = segs ! i" using r by (simp_all add: take_Suc_conv_app_nth)
    then show ?thesis using addSeq_next [OF assms(1) i(2) assms(2)] snoc.IH [of i] i step by simp
  qed
qed

text \<open>The contract of a function that splits messages.\<close>

locale splitter =
  fixes split_msg :: "Message \<Rightarrow> Message list go"
  assumes split_well: "split_msg m = Ok segs \<Longrightarrow> well_split m segs"
begin

lemma reassembled:
  assumes "split_msg msg = Ok segs" "wf_reassembler r" "map_of (seqs r) key = None" "key = KeyOf stream msg"
    and "int (length segs) \<le> MaxSegments (rcfg r)" "remdups_adj (map snd (ofKey key evs)) = segs"
  shows "\<exists>q. map_of (seqs (addAll r evs)) key = Some q \<and> ready q \<and> bodies q = map Body segs \<and>
    messageFor q key = msg\<lparr>Pad := 0, EVT := 0, HS := False, CS := False, MTV := False, Body := []\<rparr>"
proof -
  have "stateAfter msg segs (length segs) (map_of (seqs (addAll r evs)) key)"
    using seqAfter_prefix [OF split_well [OF assms(1)] assms(5), of "ofKey key evs" "length segs"] assms(3,6)
      addAll_seqAfter [OF assms(2), of evs key] by simp
  moreover have "segs \<noteq> []" using split_well [OF assms(1)] by (simp add: well_split_def)
  ultimately obtain q where "map_of (seqs (addAll r evs)) key = Some q" "qkind q = Kind msg" "qtimestamp q = Timestamp msg"
    "baseControl q = Control msg" "bodies q = map Body segs" "ready q" "finalReadSizeOrSegment q = ReadSizeOrSegment msg"
    by (auto simp: stateAfter_def split: if_splits)
  then show ?thesis
    using assms(4) by (simp add: messageFor_def zeroMessage_def KeyOf_def)
qed

lemma finished:
  assumes "split_msg msg = Ok segs" "wf_reassembler r" "map_of (seqs r) key = None" "key = KeyOf stream msg"
    and "int (length segs) \<le> MaxSegments (rcfg r)" "remdups_adj (map snd (ofKey key evs)) = segs"
  shows "snd (Finish (addAll r evs) key) = Ok (msg\<lparr>Pad := 0, EVT := 0, HS := False, CS := False, MTV := False\<rparr>)"
proof -
  have "concat (map Body segs) = Body msg" using split_well [OF assms(1)] by (simp add: well_split_def)
  then show ?thesis using reassembled [OF assms] by (auto simp: Finish_def)
qed

end

interpretation frag: splitter "\<lambda>m. Split m maxBody" for maxBody
  by unfold_locales (rule Split_well)

interpretation response: splitter "Gateway_Response g" for g
  by unfold_locales (simp add: Gateway_Response_def Split_well)

section \<open>The reassembler as a machine\<close>

inductive rstep :: "Reassembler \<Rightarrow> Reassembler \<Rightarrow> bool" where
  r_Add: "rstep r (fst (Add r now stream m))"
| r_Finish: "rstep r (fst (Finish r key))"
| r_FinishProtected: "rstep r (fst (FinishProtected r stream key))"
| r_Sweep: "rstep r (fst (Sweep r now))"

lemma rstep_wf: "wf_reassembler r \<Longrightarrow> rstep r r' \<Longrightarrow> wf_reassembler r'"
  by (auto elim!: rstep.cases intro: keeps)

lemma rcfg_rstep: "rstep r r' \<Longrightarrow> rcfg r' = rcfg r"
  by (auto elim!: rstep.cases simp: Finish_def FinishProtected_def Sweep_def split: option.split)

interpretation reasm: invariant_steps rstep wf_reassembler
  by unfold_locales (rule rstep_wf)

lemma reachable_wf: "rstep\<^sup>*\<^sup>* (NewReassembler c) r \<Longrightarrow> wf_reassembler r"
  using reasm.steps_inv NewReassembler_wf by blast

lemma reachable_rcfg: "rstep\<^sup>*\<^sup>* r r' \<Longrightarrow> rcfg r' = rcfg r"
  by (induction rule: rtranclp_induct) (auto dest: rcfg_rstep)

section \<open>Arrivals and what they are put together to\<close>

text \<open>
  A reassembler with the arrivals that no delivered message has used up: a call of \<open>Add\<close> adds one, and a call that
  delivers the message of a key uses up those of the key.
\<close>

inductive rtrace :: "FConfig \<Rightarrow> (StreamID \<times> Message) list \<Rightarrow> Reassembler \<Rightarrow> bool" for c where
  rt_New: "rtrace c [] (NewReassembler c)"
| rt_Add: "rtrace c arrived r \<Longrightarrow> rtrace c (arrived @ [(stream, m)]) (fst (Add r now stream m))"
| rt_Finish: "rtrace c arrived r \<Longrightarrow> Finish r key = (r', Ok m) \<Longrightarrow> rtrace c (filter (\<lambda>(st, x). KeyOf st x \<noteq> key) arrived) r'"
| rt_FinishProtected: "rtrace c arrived r \<Longrightarrow> FinishProtected r stream key = (r', Ok m) \<Longrightarrow>
    rtrace c (filter (\<lambda>(st, x). KeyOf st x \<noteq> key) arrived) r'"
| rt_Failed: "rtrace c arrived r \<Longrightarrow> Finish r key = (r', Err e) \<or> FinishProtected r stream key = (r', Err e) \<Longrightarrow> rtrace c arrived r'"
| rt_Sweep: "rtrace c arrived r \<Longrightarrow> rtrace c arrived (fst (Sweep r now))"

text \<open>The segments of one message: numbered from zero and marked, but for the last, and alike in their descriptor fields.\<close>

definition completeSegments :: "Message list \<Rightarrow> bool" where
  "completeSegments segs \<longleftrightarrow> segs \<noteq> [] \<and> \<not> Has (Control (last segs)) FlagMoreSegments \<and>
     (\<forall>i < length segs - 1. Has (Control (segs ! i)) FlagMoreSegments \<and> unat (ReadSizeOrSegment (segs ! i)) = i) \<and>
     (\<forall>x \<in> set segs. Kind x = Kind (last segs) \<and> Timestamp x = Timestamp (last segs) \<and>
        Control x AND NOT FlagMoreSegments = Control (last segs))"

text \<open>What a sequence stands for: segments that arrived for its key, in this order.\<close>

definition stands_for :: "segseq \<Rightarrow> Message list \<Rightarrow> bool" where
  "stands_for q segs \<longleftrightarrow> bodies q = map Body segs \<and> list_all (headerMatches q) segs \<and>
     (\<forall>i < length segs - (if ready q then 1 else 0). Has (Control (segs ! i)) FlagMoreSegments \<and> unat (ReadSizeOrSegment (segs ! i)) = i) \<and>
     (ready q \<longrightarrow> segs \<noteq> [] \<and> \<not> Has (Control (last segs)) FlagMoreSegments \<and> finalReadSizeOrSegment q = ReadSizeOrSegment (last segs))"

definition ofKeyIn :: "Key \<Rightarrow> (StreamID \<times> Message) list \<Rightarrow> Message list" where
  "ofKeyIn key arrived = map snd (filter (\<lambda>(st, x). KeyOf st x = key) arrived)"

definition accounted :: "(StreamID \<times> Message) list \<Rightarrow> Reassembler \<Rightarrow> bool" where
  "accounted arrived r \<longleftrightarrow> (\<forall>key q. map_of (seqs r) key = Some q \<longrightarrow> (\<exists>segs. subseq segs (ofKeyIn key arrived) \<and> stands_for q segs))"

lemma accounted_delete:
  assumes "accounted arrived r" "seqs r' = AList.delete key (seqs r)"
  shows "accounted arrived r'" "accounted (filter (\<lambda>(st, x). KeyOf st x \<noteq> key) arrived) r'"
proof -
  have "ofKeyIn k (filter (\<lambda>(st, x). KeyOf st x \<noteq> key) arrived) = ofKeyIn k arrived" if "k \<noteq> key" for k
    using that by (auto simp: ofKeyIn_def intro!: arg_cong [of _ _ "map snd"] filter_cong)
  then show "accounted arrived r'" "accounted (filter (\<lambda>(st, x). KeyOf st x \<noteq> key) arrived) r'"
    using assms by (auto simp: accounted_def delete_conv' split: if_splits)
qed

text \<open>One arrival more.\<close>

lemma subseq_appendI: "subseq xs ys \<Longrightarrow> subseq xs (ys @ [y])" "subseq xs ys \<Longrightarrow> subseq (xs @ [y]) (ys @ [y])" "subseq [y] (ys @ [y])"
  by (auto intro: list_emb_append2 list_emb_append_mono [of "(=)" xs ys "[y]" "[y]"] subseq_rev_drop_many list_emb_prefix)

lemma addSeq_stands_for:
  assumes "addSeq limit now old m = (Some q, res)" "\<And>p. old = Some p \<Longrightarrow> bodies p \<noteq> [] \<and> stands_for p segs"
  shows "(old = Some q \<and> stands_for q segs) \<or> (old = None \<and> stands_for q [m]) \<or> (old \<noteq> None \<and> stands_for q (segs @ [m]))"
proof (cases old)
  case None
  then show ?thesis using assms(1)
    by (auto simp: addSeq_def Let_def stands_for_def headerMatches_def split: if_splits)
next
  case (Some p)
  then have p: "stands_for p segs" using assms(2) by blast
  then have len: "length (bodies p) = length segs" by (simp add: stands_for_def)
  from assms(1) Some have "q = p \<or> (\<not> ready p \<and> headerMatches p m \<and>
      (Has (Control m) FlagMoreSegments \<longrightarrow> unat (ReadSizeOrSegment m) = length segs) \<and>
      q = p\<lparr>bodies := bodies p @ [Body m], updated := now,
        finalReadSizeOrSegment := (if Has (Control m) FlagMoreSegments then finalReadSizeOrSegment p else ReadSizeOrSegment m),
        ready := (\<not> Has (Control m) FlagMoreSegments)\<rparr>)"
    by (auto simp: addSeq_def Let_def len split: if_splits)
  then show ?thesis using p Some
    by (auto simp: stands_for_def headerMatches_def [abs_def] nth_append less_Suc_eq)
qed

lemma accounted_Add:
  assumes "accounted arrived r" "wf_reassembler r"
  shows "accounted (arrived @ [(stream, m)]) (fst (Add r now stream m))"
  unfolding accounted_def
proof (intro allI impI)
  fix key q
  let ?key = "KeyOf stream m" let ?old = "map_of (seqs r) (KeyOf stream m)"
  assume q: "map_of (seqs (fst (Add r now stream m))) key = Some q"
  show "\<exists>segs. subseq segs (ofKeyIn key (arrived @ [(stream, m)])) \<and> stands_for q segs"
  proof (cases "key = ?key")
    case False
    then have "map_of (seqs r) key = Some q" using q Add_addSeq [OF assms(2)] by simp
    then show ?thesis using assms(1) False by (simp add: accounted_def ofKeyIn_def)
  next
    case True
    then obtain res where a: "addSeq (MaxSegments (rcfg r)) now ?old m = (Some q, res)"
      using q Add_addSeq [OF assms(2), of now stream m] by (metis fun_upd_same prod.collapse)
    have key: "ofKeyIn key (arrived @ [(stream, m)]) = ofKeyIn key arrived @ [m]" using True by (simp add: ofKeyIn_def)
    obtain segs where s: "subseq segs (ofKeyIn key arrived)" "\<And>p. ?old = Some p \<Longrightarrow> bodies p \<noteq> [] \<and> stands_for p segs"
    proof (cases ?old)
      case None
      then show ?thesis using that [of "[]"] by simp
    next
      case (Some p)
      then show ?thesis using that assms(1) wf_lookup [OF assms(2) Some] True unfolding accounted_def by fastforce
    qed
    from addSeq_stands_for [OF a s(2)] show ?thesis
      unfolding key using s(1) subseq_appendI [of segs] by blast
  qed
qed

lemma rtrace_addAll: "rtrace c arrived r \<Longrightarrow> rtrace c (arrived @ map snd evs) (addAll r evs)"
proof (induction evs arbitrary: arrived r)
  case (Cons e evs)
  obtain now stream m where e: "e = (now, stream, m)" by (cases e)
  show ?case using Cons.IH [OF rt_Add [OF Cons.prems, of stream m now]] by (simp add: e)
qed simp

lemma rtrace_inv: "rtrace c arrived r \<Longrightarrow> accounted arrived r \<and> wf_reassembler r \<and> rcfg r = rcfg (NewReassembler c)"
proof (induction rule: rtrace.induct)
  case rt_New
  then show ?case using NewReassembler_wf by (simp add: accounted_def NewReassembler_def)
next
  case (rt_Add arrived r stream m now)
  then show ?case using accounted_Add [of arrived r stream m now] rstep_wf [OF _ r_Add, of r now stream m] rcfg_rstep [OF r_Add, of r now stream m] by simp
next
  case (rt_Finish arrived r key r' m)
  have "rstep r r'" using rt_Finish.hyps(2) r_Finish [of r key] by (metis fst_conv)
  moreover have "seqs r' = AList.delete key (seqs r)"
    using rt_Finish.hyps(2) by (auto simp: Finish_def split: option.splits if_splits)
  ultimately show ?case using rt_Finish.IH accounted_delete(2) [of arrived r r' key] rstep_wf [of r r'] rcfg_rstep [of r r'] by simp
next
  case (rt_FinishProtected arrived r stream key r' m)
  have "rstep r r'" using rt_FinishProtected.hyps(2) r_FinishProtected [of r stream key] by (metis fst_conv)
  moreover have "seqs r' = AList.delete key (seqs r)"
    using rt_FinishProtected.hyps(2) by (auto simp: FinishProtected_def split: option.splits if_splits)
  ultimately show ?case using rt_FinishProtected.IH accounted_delete(2) [of arrived r r' key] rstep_wf [of r r'] rcfg_rstep [of r r'] by simp
next
  case (rt_Failed arrived r key r' e stream)
  have "rstep r r'" using rt_Failed.hyps(2) r_Finish [of r key] r_FinishProtected [of r stream key] by (metis fst_conv)
  moreover have "r' = r \<or> seqs r' = AList.delete key (seqs r)"
    using rt_Failed.hyps(2) by (auto simp: Finish_def FinishProtected_def split: option.splits if_splits)
  ultimately show ?case using rt_Failed.IH accounted_delete(1) [of arrived r r' key] rstep_wf [of r r'] rcfg_rstep [of r r'] by auto
next
  case (rt_Sweep arrived r now)
  have "map_of (seqs (fst (Sweep r now))) key = Some q \<Longrightarrow> map_of (seqs r) key = Some q" for key q
    using rt_Sweep.IH by (auto simp: Sweep_def wf_reassembler_def dest!: map_of_SomeD intro: map_of_is_SomeI)
  then show ?case using rt_Sweep.IH rstep_wf [OF _ r_Sweep] rcfg_rstep [OF r_Sweep] unfolding accounted_def by metis
qed

lemma addSeq_no_panic: "snd (addSeq limit now q m) \<noteq> Panic"
  by (auto simp: addSeq_def Let_def split: option.split)

lemma VerifyFragmented_no_panic: "VerifyFragmented stream header bs \<noteq> Panic"
  by (auto simp: VerifyFragmented_def Len_def wire_simps split: option.splits)

section \<open>Safe points of fragmented messages\<close>

lemma concat_update_last: "bs \<noteq> [] \<Longrightarrow> concat (bs[length bs - Suc 0 := c]) = concat (butlast bs) @ c"
  by (cases bs rule: rev_cases) simp_all

text \<open>When the last segment holds the padding and the checksum, verification of the segments is
  verification of the whole.\<close>

lemma VerifyFragmented_whole:
  assumes "bs \<noteq> []" "last bs = w @ put32 crc"
  shows "VerifyFragmented stream header bs =
    (case recoverProtected w crc (\<lambda>c. Compute stream (header\<lparr>Body := concat (butlast bs) @ c\<rparr>)) of
       None \<Rightarrow> Err (EWrap (EE2e ErrCRCMismatch) (DGot crc))
     | Some real \<Rightarrow> Ok (header\<lparr>Body := concat (butlast bs) @ real\<rparr>))"
proof -
  have "get32 (w @ put32 crc) (length w) = (Ok crc :: u32 go)" using get32_append [of w crc "[]"] by (simp del: get_no_panic)
  moreover have "idx bs (length bs - 1) = (Ok (w @ put32 crc) :: bytes go)" using assms idx_last by metis
  ultimately show ?thesis
    using assms(1)
    by (simp add: VerifyFragmented_def Len_def ComputeFragmented_def concat_update_last [OF assms(1)] del: get_no_panic idx_Ok cong: option.case_cong)
qed


definition stripped :: "Message \<Rightarrow> Message" where
  "stripped m = m\<lparr>Pad := 0, EVT := 0, HS := False, CS := False, MTV := False\<rparr>"

lemma Compute_stripped: "Compute stream (stripped m\<lparr>Body := b\<rparr>) = Compute stream (m\<lparr>Body := b\<rparr>)"
  by (simp add: stripped_def Compute_def coveredHeader_def)

lemma suffix_split:
  assumes "xs @ ys = zs @ ws" "length ws \<le> length ys"
  shows "\<exists>us. ys = us @ ws \<and> zs = xs @ us"
proof -
  consider us where "xs = zs @ us" "us @ ys = ws" | us where "xs @ us = zs" "ys = us @ ws"
    using assms(1) by (auto simp: append_eq_append_conv2)
  then show ?thesis using assms(2) by cases auto
qed

lemma VerifyFragmented_Protect:
  assumes "bs \<noteq> []" "concat bs = Body (Protect stream msg)" "padLenFor (length (Body msg)) + 4 \<le> length (last bs)"
  shows "\<exists>k \<le> padLenFor (length (Body msg)).
    VerifyFragmented stream (stripped msg) bs = Ok (stripped msg\<lparr>Body := Body msg @ replicate k 0\<rparr>)"
proof -
  let ?p = "padLenFor (length (Body msg))" and ?crc = "Compute stream msg"
  have "concat bs = concat (butlast bs) @ last bs" using assms(1) by (cases bs rule: rev_cases) simp_all
  then have "concat (butlast bs) @ last bs = Body msg @ replicate ?p 0 @ put32 ?crc"
    using assms(2) by (simp add: Protect_body)
  then obtain x where x: "last bs = x @ replicate ?p 0 @ put32 ?crc" "Body msg = concat (butlast bs) @ x"
    using suffix_split [of "concat (butlast bs)" "last bs" "Body msg" "replicate ?p 0 @ put32 ?crc"] assms(3) by auto
  let ?f = "\<lambda>c. Compute stream (stripped msg\<lparr>Body := concat (butlast bs) @ c\<rparr>)"
  have "?f x = ?crc" by (simp add: Compute_stripped flip: x(2))
  then obtain j where "j \<le> ?p" "recoverProtected (x @ replicate ?p 0) ?crc ?f = Some (x @ replicate j 0)"
    using recoverProtected_finds [of ?f x ?crc ?p] padLenFor_le by auto
  then show ?thesis
    using VerifyFragmented_whole [OF assms(1), of "x @ replicate ?p 0" ?crc stream "stripped msg"] x by auto
qed

end
