(* ===== verification/Fragment_Properties.thy ===== *)
theory Fragment_Properties
  imports Fragment_Lemmas
begin

text \<open>
  The properties of fragmentation: splitting, reassembly, the gateway, and safe points.
\<close>

section \<open>A fragmented message\<close>

definition sampleLong :: Message where
  "sampleLong = zeroMessage\<lparr>Kind := KindShort, ByteBusID := 4, TransactionNum := 21, Control := FlagWrite, ReadSizeOrSegment := 7,
     Body := [1, 2, 3, 4, 5]\<rparr>"

definition sampleSegs :: "Message list" where
  "sampleSegs = [sampleLong\<lparr>Control := FlagWrite OR FlagMoreSegments, ReadSizeOrSegment := 0, Body := [1, 2]\<rparr>,
     sampleLong\<lparr>Control := FlagWrite OR FlagMoreSegments, ReadSizeOrSegment := 1, Body := [3, 4]\<rparr>,
     sampleLong\<lparr>Body := [5]\<rparr>]"

definition sampleArrivals :: "(nanos \<times> StreamID \<times> Message) list" where
  "sampleArrivals = [(0, zeroStreamID, sampleSegs ! 0), (1, zeroStreamID, zeroMessage), (2, zeroStreamID, sampleSegs ! 0),
     (3, zeroStreamID, sampleSegs ! 1), (4, zeroStreamID, sampleSegs ! 2)]"

lemma sample_split: "Split sampleLong 2 = Ok sampleSegs"
  by code_simp

lemma sample_arrivals: "remdups_adj (map snd (ofKey (KeyOf zeroStreamID sampleLong) sampleArrivals)) = sampleSegs"
  by code_simp

section \<open>Properties\<close>

text \<open>Splitting. A positive size and a message that is not itself a segment give segments of at
  most that size whose bodies make up the message's; all but the last are marked and numbered from
  zero, and all carry the message's descriptor fields. Otherwise the error says why.\<close>

theorem split_segments:
  "(case Split msg maxBody of
      Ok segs \<Rightarrow> well_split msg segs \<and> 0 < maxBody \<and> list_all (\<lambda>s. int (length (Body s)) \<le> maxBody) segs
    | Err e \<Rightarrow>
        (e = EFragment ErrInvalidMaxSegmentBody \<and> maxBody \<le> 0) \<or>
        (e = EFragment ErrAlreadyFragmented \<and> Has (Control msg) FlagMoreSegments) \<or>
        (e = EFragment ErrTooManySegments \<and> 65536 * maxBody < int (length (Body msg)))
    | Panic \<Rightarrow> False)"
proof (cases "Split msg maxBody")
  case (Ok segs)
  then have "0 < maxBody" by (auto simp: Split_def split: if_splits)
  then show ?thesis using Ok Split_well [OF Ok] Split_bounded [OF Ok] by (simp add: list_all_iff)
next
  case (Err e)
  let ?l = "int (length (Body msg))" let ?n = "(?l + maxBody - 1) div maxBody"
  have "65536 * maxBody < ?l" if "0 < maxBody" "maxBody < ?l" "?n - 1 > maxSegmentIndex"
  proof -
    have "(65536 :: int) \<le> ?n - 1" using that(3) by (simp add: maxSegmentIndex_def)
    then have "65536 * maxBody \<le> (?n - 1) * maxBody" using that(1) by (intro mult_right_mono) simp_all
    also have "\<dots> < ?l" using ceil_div(3) [OF that(1,2)] .
    finally show ?thesis .
  qed
  then show ?thesis using Err by (auto simp: Split_def Let_def split: if_splits)
next
  case Panic
  then show ?thesis by (auto simp: Split_def Let_def split: if_splits)
qed

text \<open>C20: splitting and reassembly are inverse, in any traffic. When the segments of a message arrive
  in order, each repeated any number of times in a row and interleaved with any messages of
  other keys, the reassembler returns the message itself. This is stated for messages whose padding count, event
  field and flags \<open>HS\<close>, \<open>CS\<close> and \<open>MTV\<close> are clear: these five the reassembler does not carry over.\<close>

theorem split_then_reassemble:
  assumes "rstep\<^sup>*\<^sup>* (NewReassembler c) r" "Split msg maxBody = Ok segs"
    and "map_of (seqs r) (KeyOf stream msg) = None" "int (length segs) \<le> MaxSegments (rcfg r)"
    and "remdups_adj (map snd (ofKey (KeyOf stream msg) evs)) = segs"
    and "Pad msg = 0" "EVT msg = 0" "\<not> HS msg" "\<not> CS msg" "\<not> MTV msg"
  shows "snd (Finish (addAll r evs) (KeyOf stream msg)) = Ok msg"
proof -
  have "msg\<lparr>Pad := 0, EVT := 0, HS := False, CS := False, MTV := False\<rparr> = msg" using assms(6-10) by (cases msg) simp
  then show ?thesis using frag.finished [OF assms(2) reachable_wf [OF assms(1)] assms(3) refl assms(4,5)] by simp
qed

theorem split_then_reassemble_witness:
  "snd (Finish (addAll (NewReassembler \<lparr>FTimeout = 0, MaxSegments = 0\<rparr>) sampleArrivals) (KeyOf zeroStreamID sampleLong)) =
     Ok sampleLong"
  by (rule split_then_reassemble [OF rtranclp.rtrancl_refl sample_split])
    (simp_all add: NewReassembler_def DefaultMaxSegments_def sample_arrivals sampleSegs_def, simp_all add: sampleLong_def zeroMessage_def)

text \<open>C21: nothing but what arrived is delivered. In every run of a reassembler, a message that \<open>Finish\<close> returns is put together
  from arrivals for its key that no earlier message has used up: a subsequence of them, in order of arrival, of which all but
  the last are marked and numbered from zero without a gap and the last is not marked; these agree in kind, time stamp and control flags, their
  number is within the limit, the body is the concatenation of their bodies and the other fields are those of the
  last. So no segment is doubled, moved or taken from another key or an earlier message, and none is missing before the last marked one.\<close>

theorem reassembled_from_arrivals:
  assumes "rtrace c arrived r" "Finish r key = (r', Ok m)"
  shows "\<exists>segs. subseq segs (map snd (filter (\<lambda>(st, x). KeyOf st x = key) arrived)) \<and> completeSegments segs \<and>
    int (length segs) \<le> (if MaxSegments c \<le> 0 then DefaultMaxSegments else MaxSegments c) \<and>
    m = zeroMessage\<lparr>Kind := Kind (last segs), ByteBusID := KBus key, TransactionNum := KTxn key, Control := Control (last segs),
      ReadSizeOrSegment := ReadSizeOrSegment (last segs), Timestamp := Timestamp (last segs), Body := concat (map Body segs)\<rparr>"
proof -
  note inv = rtrace_inv [OF assms(1)]
  obtain q where q: "map_of (seqs r) key = Some q" "ready q" "m = (messageFor q key)\<lparr>Body := concat (bodies q)\<rparr>"
    using assms(2) by (auto simp: Finish_def split: option.splits if_splits)
  obtain segs where s: "subseq segs (ofKeyIn key arrived)" "stands_for q segs" using inv q(1) by (auto simp: accounted_def)
  have last: "last segs \<in> set segs" "headerMatches q (last segs)" using s(2) q(2) by (auto simp: stands_for_def list_all_iff)
  have ctl: "Control (last segs) = baseControl q"
    using s(2) q(2) last(2) by (simp add: stands_for_def headerMatches_def more_flag(4))
  have "completeSegments segs"
    using s(2) q(2) last ctl by (auto simp: completeSegments_def stands_for_def list_all_iff headerMatches_def)
  moreover have "length (bodies q) = length segs" using s(2) by (simp add: stands_for_def)
  moreover have "m = zeroMessage\<lparr>Kind := Kind (last segs), ByteBusID := KBus key, TransactionNum := KTxn key, Control := Control (last segs),
      ReadSizeOrSegment := ReadSizeOrSegment (last segs), Timestamp := Timestamp (last segs), Body := concat (map Body segs)\<rparr>"
    using q s(2) last(2) ctl by (simp add: messageFor_def stands_for_def headerMatches_def)
  moreover have "int (length (bodies q)) \<le> MaxSegments (rcfg r)" using wf_lookup [OF _ q(1)] inv by blast
  ultimately show ?thesis using s(1) inv by (auto simp: ofKeyIn_def NewReassembler_def)
qed

theorem reassembled_from_arrivals_witness:
  "\<exists>r r' m segs. rtrace \<lparr>FTimeout = 0, MaxSegments = 0\<rparr> (map snd sampleArrivals) r \<and> Finish r (KeyOf zeroStreamID sampleLong) = (r', Ok m) \<and>
     subseq segs (map snd (filter (\<lambda>(st, x). KeyOf st x = KeyOf zeroStreamID sampleLong) (map snd sampleArrivals))) \<and> completeSegments segs \<and>
     Body m = concat (map Body segs)"
proof -
  let ?c = "\<lparr>FTimeout = 0, MaxSegments = 0\<rparr>" let ?r = "addAll (NewReassembler ?c) sampleArrivals"
  have run: "rtrace ?c (map snd sampleArrivals) ?r"
    using rtrace_addAll [OF rt_New, of ?c sampleArrivals] by simp
  have "snd (Finish ?r (KeyOf zeroStreamID sampleLong)) = Ok (sampleLong\<lparr>Pad := 0, EVT := 0, HS := False, CS := False, MTV := False\<rparr>)"
    by (rule frag.finished [OF sample_split reachable_wf [OF rtranclp.rtrancl_refl] _ refl])
      (simp_all add: NewReassembler_def DefaultMaxSegments_def sample_arrivals sampleSegs_def)
  then obtain r' m where fin: "Finish ?r (KeyOf zeroStreamID sampleLong) = (r', Ok m)" by (metis prod.collapse)
  from reassembled_from_arrivals [OF run fin] show ?thesis using run fin by fastforce
qed

text \<open>Bounded memory and no panic. In every reachable state each key has at most one sequence,
  of at least one and at most the configured number of segments, and neither accepting a segment nor
  finishing a sequence indexes out of range.\<close>

theorem reassembler_bounded:
  assumes "rstep\<^sup>*\<^sup>* (NewReassembler c) r"
  shows "distinct (map fst (seqs r)) \<and> snd (Add r now stream m) \<noteq> Panic \<and> snd (FinishProtected r stream key) \<noteq> Panic \<and>
    (map_of (seqs r) key = Some q \<longrightarrow> bodies q \<noteq> [] \<and>
       int (length (bodies q)) \<le> (if MaxSegments c \<le> 0 then DefaultMaxSegments else MaxSegments c))"
proof -
  have wf: "wf_reassembler r" by (rule reachable_wf [OF assms])
  have "MaxSegments (rcfg r) = (if MaxSegments c \<le> 0 then DefaultMaxSegments else MaxSegments c)"
    using reachable_rcfg [OF assms] by (simp add: NewReassembler_def)
  then show ?thesis
    using Add_addSeq [OF wf, of now stream m] addSeq_no_panic wf_lookup [OF wf, of key q] wf VerifyFragmented_no_panic
    by (auto simp: FinishProtected_def wf_reassembler_def split: option.split)
qed

theorem reassembler_bounded_witness:
  "snd (Add (NewReassembler \<lparr>FTimeout = 0, MaxSegments = 0\<rparr>) 0 zeroStreamID sampleLong) \<noteq> Panic"
  using reassembler_bounded [OF rtranclp.rtrancl_refl] by blast

text \<open>C32: the safe point of a fragmented message. When the last segment holds the padding and the
  checksum of a protected message, the reassembled message verifies, to the message itself if its body
  is a whole number of quadlets.\<close>

theorem fragmented_safe_point:
  assumes "rstep\<^sup>*\<^sup>* (NewReassembler c) r" "Split (Protect stream msg) maxBody = Ok segs"
    and "map_of (seqs r) (KeyOf stream msg) = None" "int (length segs) \<le> MaxSegments (rcfg r)"
    and "remdups_adj (map snd (ofKey (KeyOf stream msg) evs)) = segs"
    and "padLenFor (length (Body msg)) + 4 \<le> length (Body (last segs))"
  shows "\<exists>k \<le> padLenFor (length (Body msg)). snd (FinishProtected (addAll r evs) stream (KeyOf stream msg)) =
    Ok (stripped msg\<lparr>Body := Body msg @ replicate k 0\<rparr>)"
proof -
  let ?key = "KeyOf stream msg"
  have key: "KeyOf stream (Protect stream msg) = ?key" by (simp add: KeyOf_def Protect_def Let_def)
  have ws: "segs \<noteq> []" "concat (map Body segs) = Body (Protect stream msg)"
    using Split_well [OF assms(2)] by (simp_all add: well_split_def)
  obtain q where q: "map_of (seqs (addAll r evs)) ?key = Some q" "ready q" "bodies q = map Body segs"
    "messageFor q ?key = Protect stream msg\<lparr>Pad := 0, EVT := 0, HS := False, CS := False, MTV := False, Body := []\<rparr>"
    using frag.reassembled [OF assms(2) reachable_wf [OF assms(1)] assms(3) key [symmetric] assms(4,5)] by blast
  have "\<exists>k \<le> padLenFor (length (Body msg)).
      VerifyFragmented stream (stripped msg) (map Body segs) = Ok (stripped msg\<lparr>Body := Body msg @ replicate k 0\<rparr>)"
    using ws assms(6) by (intro VerifyFragmented_Protect) (simp_all add: last_map)
  moreover have "VerifyFragmented stream (h\<lparr>Body := b\<rparr>) bs = VerifyFragmented stream h bs" for h b bs
    by (simp add: VerifyFragmented_def ComputeFragmented_def cong: option.case_cong)
  ultimately show ?thesis
    using q by (simp add: FinishProtected_def stripped_def Protect_def Let_def)
qed


text \<open>A protected message of eight octets, cut after \<open>k\<close> of them.\<close>

definition sampleProtected :: Message where
  "sampleProtected = Protect zeroStreamID (zeroMessage\<lparr>Body := [1, 2, 3, 4]\<rparr>)"

definition cutAt :: "nat \<Rightarrow> Message list" where
  "cutAt k = [segmentAt sampleProtected k 2 0, segmentAt sampleProtected k 2 1]"

lemma Split_sampleProtected:
  assumes "k \<in> {4, 5, 6, 7}"
  shows "Split sampleProtected (int k) = Ok (cutAt k)"
    "remdups_adj (map snd (ofKey (KeyOf zeroStreamID (zeroMessage\<lparr>Body := [1, 2, 3, 4]\<rparr>)) (map (\<lambda>s. (0, zeroStreamID, s)) (cutAt k)))) = cutAt k"
    "length (Body (last (cutAt k))) = 8 - k"
proof -
  have p: "length (Body sampleProtected) = 8" "Control sampleProtected = 0" "ByteBusID sampleProtected = 0" "TransactionNum sampleProtected = 0"
    by (simp_all add: sampleProtected_def Protect_def Let_def padLenFor_def zeroMessage_def)
  have "[0..<2] = [0, Suc 0]" by (simp add: numeral_2_eq_2)
  moreover have "(7 + int k) div int k = 2" using assms by auto
  ultimately show "Split sampleProtected (int k) = Ok (cutAt k)"
    using assms p by (auto simp: Split_def Let_def Has_def FlagMoreSegments_def maxSegmentIndex_def cutAt_def)
  have "Control (segmentAt sampleProtected k 2 0) \<noteq> Control (segmentAt sampleProtected k 2 1)"
    using p by (simp add: segmentAt_def Let_def FlagMoreSegments_def)
  then have "segmentAt sampleProtected k 2 0 \<noteq> segmentAt sampleProtected k 2 1" by metis
  moreover have "KeyOf zeroStreamID (segmentAt sampleProtected k 2 i) = KeyOf zeroStreamID (zeroMessage\<lparr>Body := [1, 2, 3, 4]\<rparr>)" for i
    using p by (simp add: segmentAt_def Let_def KeyOf_def zeroMessage_def)
  ultimately show "remdups_adj (map snd (ofKey (KeyOf zeroStreamID (zeroMessage\<lparr>Body := [1, 2, 3, 4]\<rparr>)) (map (\<lambda>s. (0, zeroStreamID, s)) (cutAt k)))) = cutAt k"
    by (simp add: cutAt_def ofKey_def)
  show "length (Body (last (cutAt k))) = 8 - k" using assms p by (auto simp: cutAt_def segmentAt_Body)
qed

abbreviation freshReassembler :: Reassembler where
  "freshReassembler \<equiv> NewReassembler \<lparr>FTimeout = 0, MaxSegments = 0\<rparr>"

lemma freshReassembler: "map_of (seqs freshReassembler) key = None" "int (length (cutAt k)) \<le> MaxSegments (rcfg freshReassembler)"
  by (simp_all add: NewReassembler_def DefaultMaxSegments_def cutAt_def)

theorem fragmented_safe_point_witness:
  "snd (FinishProtected (addAll freshReassembler (map (\<lambda>s. (0, zeroStreamID, s)) (cutAt 4))) zeroStreamID
      (KeyOf zeroStreamID (zeroMessage\<lparr>Body := [1, 2, 3, 4]\<rparr>))) = Ok (zeroMessage\<lparr>Body := [1, 2, 3, 4]\<rparr>)"
proof -
  have s: "Split (Protect zeroStreamID (zeroMessage\<lparr>Body := [1, 2, 3, 4]\<rparr>)) (int 4) = Ok (cutAt 4)"
    using Split_sampleProtected(1) [of 4] unfolding sampleProtected_def by simp
  have "padLenFor (length (Body (zeroMessage\<lparr>Body := [1, 2, 3, 4]\<rparr>))) + 4 \<le> length (Body (last (cutAt 4)))"
    using Split_sampleProtected(3) [of 4] by (simp add: padLenFor_def)
  from fragmented_safe_point [OF rtranclp.rtrancl_refl s freshReassembler Split_sampleProtected(2) this]
  show ?thesis by (simp add: padLenFor_def stripped_def zeroMessage_def)
qed

text \<open>A safe point that is cut is lost. When splitting leaves less than the checksum in the
  last segment, the receiver refuses the intact message with \<open>ErrShortSafePoint\<close>.\<close>

theorem cut_safe_point_is_rejected:
  assumes "rstep\<^sup>*\<^sup>* (NewReassembler c) r" "Split (Protect stream msg) maxBody = Ok segs"
    and "map_of (seqs r) (KeyOf stream msg) = None" "int (length segs) \<le> MaxSegments (rcfg r)"
    and "remdups_adj (map snd (ofKey (KeyOf stream msg) evs)) = segs" "length (Body (last segs)) < 4"
  shows "snd (FinishProtected (addAll r evs) stream (KeyOf stream msg)) = Err (EE2e ErrShortSafePoint)"
proof -
  let ?key = "KeyOf stream msg"
  have key: "KeyOf stream (Protect stream msg) = ?key" by (simp add: KeyOf_def Protect_def Let_def)
  have "segs \<noteq> []" using Split_well [OF assms(2)] by (simp add: well_split_def)
  moreover from this have "idx (map Body segs) (length (map Body segs) - 1) = (Ok (Body (last segs)) :: bytes go)"
    using idx_last [of "map Body segs"] by (simp only: map_is_Nil_conv last_map simp_thms)
  ultimately have "VerifyFragmented stream h (map Body segs) = Err (EE2e ErrShortSafePoint)" for h
    using assms(6) unfolding VerifyFragmented_def Len_def by (simp del: idx_Ok)
  then show ?thesis
    using frag.reassembled [OF assms(2) reachable_wf [OF assms(1)] assms(3) key [symmetric] assms(4,5)]
    by (auto simp: FinishProtected_def)
qed

theorem cut_safe_point_is_rejected_witness:
  "snd (FinishProtected (addAll freshReassembler (map (\<lambda>s. (0, zeroStreamID, s)) (cutAt 5))) zeroStreamID
      (KeyOf zeroStreamID (zeroMessage\<lparr>Body := [1, 2, 3, 4]\<rparr>))) = Err (EE2e ErrShortSafePoint)"
proof -
  have s: "Split (Protect zeroStreamID (zeroMessage\<lparr>Body := [1, 2, 3, 4]\<rparr>)) (int 5) = Ok (cutAt 5)"
    using Split_sampleProtected(1) [of 5] unfolding sampleProtected_def by simp
  have "length (Body (last (cutAt 5))) < 4" using Split_sampleProtected(3) [of 5] by simp
  from cut_safe_point_is_rejected [OF rtranclp.rtrancl_refl s freshReassembler Split_sampleProtected(2) this]
  show ?thesis by simp
qed

text \<open>The gateway. An unfragmented request of a key that has no sequence is handed to the
  dispatcher at once and leaves nothing behind in the gateway, but without its event field and flags.\<close>

theorem gateway_drops_the_event_field:
  assumes "map_of (seqs (GReassembler g)) (KeyOf rq req) = None" "\<not> Has (Control req) FlagMoreSegments"
  shows "Gateway_Submit submit g now rq req =
    (case submit (GDispatcher g) rq (req\<lparr>Pad := 0, EVT := 0, HS := False, CS := False, MTV := False\<rparr>) of
       Ok (d, t) \<Rightarrow> (g\<lparr>GDispatcher := d\<rparr>, Ok t) | Err e \<Rightarrow> (g, Err e) | Panic \<Rightarrow> (g, Panic))"
proof -
  let ?r = "GReassembler g" and ?key = "KeyOf rq req"
  obtain q where add: "Add ?r now rq req = (?r\<lparr>seqs := AList.update ?key q (seqs ?r)\<rparr>, Ok True)" and q: "ready q"
    "(messageFor q ?key)\<lparr>Body := concat (bodies q)\<rparr> = req\<lparr>Pad := 0, EVT := 0, HS := False, CS := False, MTV := False\<rparr>"
    using assms by (auto simp: Add_def Let_def messageFor_def zeroMessage_def KeyOf_def)
  have "AList.delete ?key (AList.update ?key q (seqs ?r)) = seqs ?r"
    using assms(1) by (simp add: delete_update_same map_of_eq_None_iff)
  then have "Finish (?r\<lparr>seqs := AList.update ?key q (seqs ?r)\<rparr>) ?key =
      (?r, Ok (req\<lparr>Pad := 0, EVT := 0, HS := False, CS := False, MTV := False\<rparr>))"
    using q by (simp add: Finish_def update_conv')
  then show ?thesis by (simp add: Gateway_Submit_def add split: outcome.split)
qed

theorem gateway_drops_the_event_field_witness:
  "Gateway_Submit (\<lambda>d rq m. Ok (m # d, 0)) (NewGateway [] freshReassembler 0) 0 zeroStreamID (zeroMessage\<lparr>EVT := 5, Body := [1]\<rparr>) =
     (NewGateway [zeroMessage\<lparr>Body := [1]\<rparr>] freshReassembler 0, Ok 0)"
proof -
  have "map_of (seqs (GReassembler (NewGateway [] freshReassembler 0))) k = None"
    "\<not> Has (Control (zeroMessage\<lparr>EVT := 5, Body := [1]\<rparr>)) FlagMoreSegments" for k
    by (simp_all add: NewGateway_def NewReassembler_def zeroMessage_def Has_def FlagMoreSegments_def)
  from gateway_drops_the_event_field [OF this, of "\<lambda>d rq m. Ok (m # d, 0)" 0] show ?thesis
    by (simp add: NewGateway_def zeroMessage_def)
qed

end
