(* ===== verification/Gpio.thy ===== *)
theory Gpio
  imports Ep_Config
begin

text \<open>
  The package \<open>gpio\<close>: the configuration block (\<open>config.go\<close>), the bodies of requests (\<open>request.go\<close>),
  the combining rules (\<open>semantics.go\<close>) and the endpoint (\<open>endpoint.go\<close>), which works on a server.
  The endpoint's mutex protects its own fields only; a call is modelled as one step.
\<close>

section \<open>Configuration\<close>

definition MaxPins :: u8 where "MaxPins = 32"

definition gpio_EVTClass :: EVTClass where "gpio_EVTClass = EVTClassArithmetic"

record GConfig =
  PinCount :: u8
  Direction :: u32
  TriggerEnable :: u32

definition gpio_configLen :: nat where "gpio_configLen = 9"

definition activeMask :: "GConfig \<Rightarrow> u32" where
  "activeMask c = (if PinCount c \<ge> MaxPins then 0xFFFFFFFF else push_bit (unat (PinCount c)) 1 - 1)"

definition GConfig_Validate :: "GConfig \<Rightarrow> rcp_error option" where
  "GConfig_Validate c =
     (if PinCount c = 0 \<or> PinCount c > MaxPins then Some (EGpio ErrPinCountOutOfRange)
      else
        (let active = activeMask c in
         if Direction c AND NOT active \<noteq> 0 \<or> TriggerEnable c AND NOT active \<noteq> 0
         then Some (EGpio ErrPinCountOutOfRange) else None))"

definition gpio_EncodeConfig :: "GConfig \<Rightarrow> bytes" where
  "gpio_EncodeConfig c = [PinCount c] @ put32 (Direction c) @ put32 (TriggerEnable c)"

definition gpio_DecodeConfig :: "bytes \<Rightarrow> GConfig go" where
  "gpio_DecodeConfig b =
     (if length b < gpio_configLen then Err (EGpio ErrShortBuffer_gpio)
      else if length b > gpio_configLen then Err (EGpio ErrTrailingBytes_gpio)
      else andThen (idx b 0) (\<lambda>n. andThen (get32 b 1) (\<lambda>d. andThen (get32 b 5) (\<lambda>t.
        Ok \<lparr>PinCount = n, Direction = d, TriggerEnable = t\<rparr>))))"

section \<open>Request and response bodies\<close>

definition gpio_requestLen :: nat where "gpio_requestLen = 4"

definition gpio_EncodeWriteRequest :: "u32 \<Rightarrow> bytes" where
  "gpio_EncodeWriteRequest operand = put32 operand"

definition gpio_DecodeWriteRequest :: "bytes \<Rightarrow> u32 go" where
  "gpio_DecodeWriteRequest b =
     (if length b < gpio_requestLen then Err (EGpio ErrShortBuffer_gpio)
      else if length b > gpio_requestLen then Err (EGpio ErrTrailingBytes_gpio)
      else get32 b 0)"

definition gpio_EncodeValue :: "u32 \<Rightarrow> bytes" where
  "gpio_EncodeValue v = put32 v"

definition gpio_DecodeValue :: "bytes \<Rightarrow> u32 go" where
  "gpio_DecodeValue b =
     (if length b < 4 then Err (EGpio ErrShortBuffer_gpio)
      else if length b > 4 then Err (EGpio ErrTrailingBytes_gpio)
      else get32 b 0)"

definition applyValue :: "u32 \<Rightarrow> u32 \<Rightarrow> EVTWriteOp \<Rightarrow> u32 \<Rightarrow> u32 go" where
  "applyValue current operand op active =
     andThen (ApplyEVTWriteOp op operand current active) (\<lambda>v. Ok (v AND active))"

section \<open>The endpoint\<close>

record TriggerEvent =
  ChangedMask :: u32
  TValue :: u32

record GEndpoint =
  gaddr :: ByteBusID
  gcfg :: GConfig
  pins :: u32
  triggers :: "TriggerEvent list"

definition gpio_NewEndpoint :: "ByteBusID \<Rightarrow> GEndpoint" where
  "gpio_NewEndpoint addr = \<lparr>gaddr = addr, gcfg = \<lparr>PinCount = 0, Direction = 0, TriggerEnable = 0\<rparr>, pins = 0, triggers = []\<rparr>"

definition gpio_adopted :: "GConfig \<Rightarrow> GEndpoint \<Rightarrow> GEndpoint" where
  "gpio_adopted c e = e\<lparr>gcfg := c, pins := pins e AND activeMask c\<rparr>"

definition gpio_Configure :: "Server \<Rightarrow> GEndpoint \<Rightarrow> StreamID \<Rightarrow> GConfig \<Rightarrow> Server \<times> GEndpoint \<times> rcp_error option" where
  "gpio_Configure s e rq c = configureEndpoint GConfig_Validate gpio_EncodeConfig gpio_adopted s e (gaddr e) rq c"

text \<open>\<open>(old &^ mask) | (new & mask)\<close>: the masked bits from the new word.\<close>

definition mergeMask :: "u32 \<Rightarrow> u32 \<Rightarrow> u32 \<Rightarrow> u32" where
  "mergeMask old m new = (old AND NOT m) OR (new AND m)"

definition recordChangeLocked :: "u32 \<Rightarrow> u32 \<Rightarrow> GEndpoint \<Rightarrow> GEndpoint" where
  "recordChangeLocked before after e =
     (let changed = (before XOR after) AND TriggerEnable (gcfg e) in
      if changed = 0 then e else e\<lparr>triggers := triggers e @ [\<lparr>ChangedMask = changed, TValue = after\<rparr>]\<rparr>)"

definition SetInputs :: "GEndpoint \<Rightarrow> u32 \<Rightarrow> GEndpoint \<times> u32" where
  "SetInputs e driven =
     (let active = activeMask (gcfg e);
          inMask = NOT (Direction (gcfg e)) AND active;
          before = pins e;
          after = mergeMask before inMask driven
      in (recordChangeLocked before after (e\<lparr>pins := after\<rparr>), after))"

definition DrainTriggers :: "GEndpoint \<Rightarrow> GEndpoint \<times> TriggerEvent list" where
  "DrainTriggers e = (e\<lparr>triggers := []\<rparr>, triggers e)"

definition applyWrite :: "GEndpoint \<Rightarrow> EVTWriteOp \<Rightarrow> u32 \<Rightarrow> GEndpoint \<times> u32 go" where
  "applyWrite e op operand =
     (let active = activeMask (gcfg e); outMask = Direction (gcfg e) AND active in
      case applyValue (pins e) operand op active of
        Err er \<Rightarrow> (e, Err er)
      | Panic \<Rightarrow> (e, Panic)
      | Ok candidate \<Rightarrow>
          (let before = pins e; after = mergeMask before outMask candidate in
           (recordChangeLocked before after (e\<lparr>pins := after\<rparr>), Ok after)))"

definition gpio_encodeConfigBlock :: "GEndpoint \<Rightarrow> bytes" where
  "gpio_encodeConfigBlock = gpio_EncodeConfig \<circ> gcfg"

definition gpio_adoptConfigBlock :: "GEndpoint adopt" where
  "gpio_adoptConfigBlock = adoptBlock gpio_DecodeConfig GConfig_Validate gpio_adopted"

definition gpio_responseFor :: "Message \<Rightarrow> bytes \<Rightarrow> Message" where
  "gpio_responseFor req body = responseWith req (Control req AND (FlagRead OR FlagWrite)) body"

definition gpio_plainRequest :: "GEndpoint \<Rightarrow> Message \<Rightarrow> EVTDisposition \<Rightarrow> GEndpoint \<times> Message go" where
  "gpio_plainRequest e req disp =
     (if Has (Control req) FlagWrite then
        (case gpio_DecodeWriteRequest (Body req) of
           Err er \<Rightarrow> (e, Err er)
         | Panic \<Rightarrow> (e, Panic)
         | Ok operand \<Rightarrow>
             (case applyWrite e (WriteOp disp) operand of
                (e', result) \<Rightarrow> (e', andThen result (\<lambda>v. Ok (gpio_responseFor req (gpio_EncodeValue v))))))
      else if Has (Control req) FlagRead then (e, Ok (gpio_responseFor req (gpio_EncodeValue (pins e))))
      else (e, Err (EGpio ErrRequestMustReadOrWrite_gpio)))"

definition gpio_HandleRequest :: "Server \<Rightarrow> GEndpoint \<Rightarrow> StreamID \<Rightarrow> Message \<Rightarrow> Server \<times> GEndpoint \<times> Message go" where
  "gpio_HandleRequest s e rq req =
     endpointRequest (EGpio ErrWrongEndpoint_gpio) gpio_EVTClass gpio_encodeConfigBlock gpio_adoptConfigBlock
       (gpio_responseFor req) (gpio_plainRequest e req) s e (gaddr e) rq req"

section \<open>Laws\<close>

interpretation gpio_config: exact_codec gpio_EncodeConfig gpio_DecodeConfig "\<lambda>_. True"
proof
  fix b x
  assume x: "gpio_DecodeConfig b = Ok x"
  then have "length b = 9" by (auto simp: gpio_DecodeConfig_def gpio_configLen_def split: if_splits)
  with x nths_of [OF this] show "True \<and> gpio_EncodeConfig x = b"
    by (auto simp: gpio_DecodeConfig_def gpio_EncodeConfig_def gpio_configLen_def eval_nat_numeral)
qed (auto simp: gpio_DecodeConfig_def gpio_EncodeConfig_def gpio_configLen_def put32_def wire_simps)


interpretation gpio_ep: config_block gpio_EncodeConfig gpio_DecodeConfig GConfig_Validate gcfg gpio_adopted
  rewrites "reencode gpio_EncodeConfig gpio_DecodeConfig = (\<lambda>b. b)"
proof -
  show "config_block gpio_EncodeConfig gpio_DecodeConfig gcfg gpio_adopted"
    by unfold_locales (simp add: gpio_adopted_def)
  show "reencode gpio_EncodeConfig gpio_DecodeConfig = (\<lambda>b. b)"
    using gpio_config.enc_dec by (auto simp: reencode_def fun_eq_iff split: outcome.split)
qed

text \<open>The value word never has a bit outside the pins in use.\<close>

definition gpio_inv :: "GEndpoint \<Rightarrow> bool" where
  "gpio_inv e \<longleftrightarrow> pins e AND NOT (activeMask (gcfg e)) = 0"

lemma and_not_0_iff: "(x :: u32) AND NOT y = 0 \<longleftrightarrow> (\<forall>n. bit x n \<longrightarrow> bit y n)"
proof
  assume *: "x AND NOT y = 0"
  show "\<forall>n. bit x n \<longrightarrow> bit y n"
  proof (intro allI impI)
    fix n
    assume "bit x n"
    moreover have "\<not> bit (x AND NOT y) n" using * by simp
    ultimately show "bit y n" using bit_imp_le_length by (fastforce simp: bit_and_iff bit_not_iff)
  qed
qed (auto intro!: bit_word_eqI simp: bit_and_iff bit_not_iff)

lemma recordChangeLocked_sel [simp]:
  "pins (recordChangeLocked a b e) = pins e" "gcfg (recordChangeLocked a b e) = gcfg e" "gaddr (recordChangeLocked a b e) = gaddr e"
  by (simp_all add: recordChangeLocked_def Let_def)

definition gpio_events :: "GConfig \<Rightarrow> u32 \<Rightarrow> u32 \<Rightarrow> TriggerEvent list" where
  "gpio_events c before after =
     (if (before XOR after) AND TriggerEnable c = 0 then []
      else [\<lparr>ChangedMask = (before XOR after) AND TriggerEnable c, TValue = after\<rparr>])"

lemma triggers_recordChange: "triggers (recordChangeLocked a b e) = triggers e @ gpio_events (gcfg e) a b"
  by (simp add: recordChangeLocked_def gpio_events_def Let_def)

lemma bit_mergeMask: "bit (mergeMask old m new) n = (if bit m n then bit new n else bit old n)"
proof -
  have "bit old n \<Longrightarrow> n < 32" using bit_imp_le_length [of old n] by simp
  then show ?thesis by (auto simp: mergeMask_def bit_simps)
qed

text \<open>Writes change output pins only, inputs change input pins only, and both queue a trigger event
  exactly for the enabled pins that changed.\<close>

lemma applyWrite_spec:
  assumes "applyWrite e op operand = (e', r)"
  shows "gcfg e' = gcfg e \<and> gaddr e' = gaddr e \<and> triggers e' = triggers e @ gpio_events (gcfg e) (pins e) (pins e') \<and>
    (\<forall>n. bit (pins e') n \<noteq> bit (pins e) n \<longrightarrow> bit (Direction (gcfg e) AND activeMask (gcfg e)) n) \<and>
    (r = Ok (pins e') \<or> e' = e \<and> (\<forall>v. r \<noteq> Ok v))"
  using assms
  by (auto simp: applyWrite_def Let_def triggers_recordChange bit_mergeMask gpio_events_def split: outcome.splits if_splits)

lemma applyWrite_inv: "gpio_inv e \<Longrightarrow> gpio_inv (fst (applyWrite e op operand))"
proof -
  assume inv: "gpio_inv e"
  let ?e = "fst (applyWrite e op operand)"
  have "gcfg ?e = gcfg e" "\<forall>n. bit (pins ?e) n \<noteq> bit (pins e) n \<longrightarrow> bit (activeMask (gcfg e)) n"
    using applyWrite_spec [of e op operand ?e "snd (applyWrite e op operand)"] by (auto simp: bit_and_iff)
  then show ?thesis using inv unfolding gpio_inv_def and_not_0_iff by metis
qed

lemma SetInputs_spec:
  assumes "SetInputs e driven = (e', v)"
  shows "v = pins e' \<and> gcfg e' = gcfg e \<and> triggers e' = triggers e @ gpio_events (gcfg e) (pins e) (pins e') \<and>
    (\<forall>n. bit (pins e') n = (if bit (NOT (Direction (gcfg e)) AND activeMask (gcfg e)) n then bit driven n else bit (pins e) n))"
  using assms by (auto simp: SetInputs_def Let_def triggers_recordChange bit_mergeMask)


lemma gpio_adopt_keeps: "gaddr (fst (gpio_adoptConfigBlock b e)) = gaddr e"
  "gpio_inv e \<Longrightarrow> gpio_inv (fst (gpio_adoptConfigBlock b e))"
  by (auto simp: gpio_adoptConfigBlock_def adoptBlock_def gpio_adopted_def gpio_inv_def and_not_0_iff bit_and_iff
      split: outcome.split option.split)

lemma gpio_DecodeWriteRequest_Ok: "gpio_DecodeWriteRequest b = Ok v \<Longrightarrow> b = put32 v"
proof -
  assume v: "gpio_DecodeWriteRequest b = Ok v"
  then have "length b = 4" by (auto simp: gpio_DecodeWriteRequest_def gpio_requestLen_def split: if_splits)
  with v nths_of [OF this] show ?thesis by (auto simp: gpio_DecodeWriteRequest_def gpio_requestLen_def eval_nat_numeral)
qed

lemma gpio_DecodeWriteRequest_no_panic: "gpio_DecodeWriteRequest b \<noteq> Panic"
  by (auto simp: gpio_DecodeWriteRequest_def gpio_requestLen_def)

lemma applyWrite_Ok: "EVTWriteOp_Valid op \<Longrightarrow> snd (applyWrite e op operand) = Ok (pins (fst (applyWrite e op operand)))"
  using ApplyEVTWriteOp_Ok [of op operand "pins e" "activeMask (gcfg e)"] by (auto simp: applyWrite_def applyValue_def Let_def)

text \<open>The ways a request to the pins may go.\<close>

lemma gpio_plainRequest_cases:
  assumes "gpio_plainRequest e req disp = (e', r)" "Message_EVTDisposition req gpio_EVTClass = Ok disp" "Message_EVTSelector req \<noteq> 7"
  obtains (failed) er where "e' = e" "r = Err er"
  | (written) operand where "Has (Control req) FlagWrite" "Body req = put32 operand"
      "e' = fst (applyWrite e (Message_EVTSelector req) operand)" "r = Ok (gpio_responseFor req (put32 (pins e')))"
  | (reading) "e' = e" "r = Ok (gpio_responseFor req (put32 (pins e)))"
proof (cases "Has (Control req) FlagWrite")
  case True
  note op = disposition_arithmetic(2) [OF assms(2) [unfolded gpio_EVTClass_def] assms(3)]
  show ?thesis
  proof (cases "gpio_DecodeWriteRequest (Body req)")
    case (Ok operand)
    have "snd (applyWrite e (WriteOp disp) operand) = Ok (pins (fst (applyWrite e (WriteOp disp) operand)))"
      using op applyWrite_Ok by blast
    then have "e' = fst (applyWrite e (WriteOp disp) operand)" "r = Ok (gpio_responseFor req (put32 (pins e')))"
      using assms(1) True Ok by (auto simp: gpio_plainRequest_def gpio_EncodeValue_def split: prod.splits)
    then show ?thesis using written [OF True gpio_DecodeWriteRequest_Ok [OF Ok]] op by metis
  next
    case (Err er)
    then show ?thesis using assms(1) True failed by (auto simp: gpio_plainRequest_def)
  qed (use gpio_DecodeWriteRequest_no_panic in blast)
next
  case False
  then show ?thesis
    using assms(1) failed reading by (auto simp: gpio_plainRequest_def gpio_EncodeValue_def split: if_splits)
qed

lemma gpio_plainRequest_config:
  assumes "Message_EVTDisposition req gpio_EVTClass = Ok disp" "gpio_inv e"
  shows "gcfg (fst (gpio_plainRequest e req disp)) = gcfg e \<and> gaddr (fst (gpio_plainRequest e req disp)) = gaddr e \<and>
    gpio_inv (fst (gpio_plainRequest e req disp))"
proof -
  have "gcfg (fst (applyWrite e op operand)) = gcfg e \<and> gaddr (fst (applyWrite e op operand)) = gaddr e" for op operand
    using applyWrite_spec [of e op operand] by (metis prod.collapse)
  then show ?thesis
    using assms applyWrite_inv [OF assms(2)] by (auto simp: gpio_plainRequest_def split: outcome.splits prod.splits) (metis fst_conv)+
qed

section \<open>Properties\<close>

text \<open>What a request does to the pins. A request that is not a configuration request leaves the
  server and the configuration alone; a pin whose value it changes is an output pin, in use, and the
  request is a write of a stream that may access the endpoint; the trigger queue grows by exactly
  one event for the enabled pins that changed; a response carries the resulting value.\<close>

theorem gpio_request_effects:
  assumes "gpio_HandleRequest s e rq req = (s', e', r)" "Message_EVTSelector req \<noteq> 7"
  shows "s' = s \<and> gcfg e' = gcfg e \<and> triggers e' = triggers e @ gpio_events (gcfg e) (pins e) (pins e') \<and>
    (\<forall>n. bit (pins e') n \<noteq> bit (pins e) n \<longrightarrow> Has (Control req) FlagWrite \<and> CanAccess (acl s) rq (gaddr e) \<and>
       bit (Direction (gcfg e)) n \<and> bit (activeMask (gcfg e)) n) \<and>
    (\<forall>resp. r = Ok resp \<longrightarrow> Body resp = gpio_EncodeValue (pins e'))"
  using assms(1) unfolding gpio_HandleRequest_def
proof (cases rule: endpointRequest_cases)
  case (plain disp)
  from plain(6,4,1) show ?thesis
  proof (cases rule: gpio_plainRequest_cases)
    case (written operand)
    then show ?thesis
      using plain applyWrite_spec [of e "Message_EVTSelector req" operand e' "snd (applyWrite e (Message_EVTSelector req) operand)"]
      by (auto simp: gpio_responseFor_def responseWith_def gpio_EncodeValue_def bit_and_iff)
  qed (use plain in \<open>auto simp: gpio_events_def gpio_responseFor_def responseWith_def gpio_EncodeValue_def\<close>)
qed (use assms(2) in \<open>auto simp: gpio_events_def\<close>)

text \<open>A server with a GPIO endpoint of two output pins, the second one reporting changes.\<close>

definition gpioConfig :: GConfig where
  "gpioConfig = \<lparr>PinCount = 3, Direction = 3, TriggerEnable = 2\<rparr>"

definition gpioRoot :: StreamID where "gpioRoot = StreamID 2 0 0 0 0 1 0 1"

definition gpioServer :: Server where
  "gpioServer = fst (AddEndpoint (fst (ClaimRoot NewServer gpioRoot)) gpioRoot 7 EndpointTypeGPIO)"

definition gpioEndpoint :: GEndpoint where
  "gpioEndpoint = gpio_adopted gpioConfig (gpio_NewEndpoint 7)"

definition gpioWrite :: Message where
  "gpioWrite = zeroMessage\<lparr>Kind := KindShort, ByteBusID := 7, Control := FlagWrite, EVT := 1, Body := put32 6\<rparr>"

theorem gpio_request_effects_witness:
  "fst (snd (gpio_HandleRequest gpioServer gpioEndpoint gpioRoot gpioWrite)) =
     gpioEndpoint\<lparr>pins := 2, triggers := [\<lparr>ChangedMask = 2, TValue = 2\<rparr>]\<rparr> \<and>
   fst (gpio_HandleRequest gpioServer gpioEndpoint gpioRoot gpioWrite) = gpioServer"
proof -
  have "Message_EVTSelector gpioWrite \<noteq> 7"
    "fst (snd (gpio_HandleRequest gpioServer gpioEndpoint gpioRoot gpioWrite)) =
       gpioEndpoint\<lparr>pins := 2, triggers := [\<lparr>ChangedMask = 2, TValue = 2\<rparr>]\<rparr>"
    by code_simp+
  moreover have "gpio_HandleRequest gpioServer gpioEndpoint gpioRoot gpioWrite =
     (fst (gpio_HandleRequest gpioServer gpioEndpoint gpioRoot gpioWrite),
      fst (snd (gpio_HandleRequest gpioServer gpioEndpoint gpioRoot gpioWrite)),
      snd (snd (gpio_HandleRequest gpioServer gpioEndpoint gpioRoot gpioWrite)))" by simp
  ultimately show ?thesis using gpio_request_effects by blast
qed

text \<open>A configured endpoint: its configuration is valid and is also its functional block in the register map.\<close>

definition gpio_in_step :: "Server \<Rightarrow> GEndpoint \<Rightarrow> bool" where
  "gpio_in_step s e \<longleftrightarrow> GConfig_Validate (gcfg e) = None \<and> gpio_inv e \<and>
     synced (\<lambda>b. b) gpio_encodeConfigBlock s (gaddr e) e"

lemma gpio_request_in_step:
  assumes "gpio_HandleRequest s e rq req = (s', e', r)" "gpio_in_step s e"
  shows "gpio_in_step s' e' \<and> gaddr e' = gaddr e"
proof -
  have "GConfig_Validate (gcfg e') = None \<and> synced (\<lambda>b. b) (gpio_EncodeConfig \<circ> gcfg) s' (gaddr e) e' \<and>
    (gpio_inv e' \<and> gaddr e' = gaddr e)"
    by (rule gpio_ep.ep.request_in_step [where I = "\<lambda>x. gpio_inv x \<and> gaddr x = gaddr e",
          OF assms(1) [unfolded gpio_HandleRequest_def gpio_encodeConfigBlock_def gpio_adoptConfigBlock_def]])
      (use assms(2) gpio_adopt_keeps gpio_plainRequest_config in
        \<open>auto simp: gpio_in_step_def gpio_encodeConfigBlock_def gpio_adoptConfigBlock_def\<close>)
  then show ?thesis by (simp add: gpio_in_step_def gpio_encodeConfigBlock_def)
qed

text \<open>C33: the endpoint and the register map stay in step. A successful \<open>Configure\<close> leads to an endpoint with a
  valid configuration that is also its functional block in the register map; from such an
  endpoint every request, whether it succeeds or fails, leads to such an endpoint, and no
  value bit outside the pins in use is ever set.\<close>

theorem gpio_configuration_in_step:
  assumes "gpio_Configure s0 e0 rq0 c = (s, e, None)" and "gpio_HandleRequest s e rq req = (s', e', r)"
  shows "gpio_in_step s e \<and> gcfg e = c \<and> gpio_in_step s' e' \<and> gaddr e' = gaddr e0"
proof -
  have "GConfig_Validate (gcfg e) = None \<and> gcfg e = c \<and> e = gpio_adopted c e0 \<and>
      synced (\<lambda>b. b) (gpio_EncodeConfig \<circ> gcfg) s (gaddr e0) e"
    using gpio_ep.configure_in_step [OF assms(1) [unfolded gpio_Configure_def]] by blast
  then have "gpio_in_step s e \<and> gcfg e = c \<and> gaddr e = gaddr e0"
    by (auto simp: gpio_in_step_def gpio_encodeConfigBlock_def gpio_adopted_def gpio_inv_def and_not_0_iff bit_and_iff)
  then show ?thesis using gpio_request_in_step [OF assms(2)] by simp
qed

text \<open>A request that writes the trigger-enable word in the configuration block.\<close>

definition gpioConfigRequest :: Message where
  "gpioConfigRequest = zeroMessage\<lparr>Kind := KindShort, ByteBusID := 7, Control := FlagWrite, EVT := 7,
     Body := EncodeConfigRequestBody 5 (put32 1)\<rparr>"

definition gpioConfigured :: "Server \<times> GEndpoint \<times> rcp_error option" where
  "gpioConfigured = gpio_Configure gpioServer (gpio_NewEndpoint 7) gpioRoot gpioConfig"

definition gpioReconfigured :: "Server \<times> GEndpoint \<times> Message go" where
  "gpioReconfigured = gpio_HandleRequest (fst gpioConfigured) (fst (snd gpioConfigured)) gpioRoot gpioConfigRequest"

theorem gpio_configuration_in_step_witness:
  "gpio_in_step (fst gpioReconfigured) (fst (snd gpioReconfigured)) \<and>
   TriggerEnable (gcfg (fst (snd gpioReconfigured))) = 1"
proof -
  have "snd (snd gpioConfigured) = None" by code_simp
  then have "gpio_Configure gpioServer (gpio_NewEndpoint 7) gpioRoot gpioConfig = (fst gpioConfigured, fst (snd gpioConfigured), None)"
    unfolding gpioConfigured_def [symmetric] by (metis prod.collapse)
  moreover have "gpio_HandleRequest (fst gpioConfigured) (fst (snd gpioConfigured)) gpioRoot gpioConfigRequest =
     (fst gpioReconfigured, fst (snd gpioReconfigured), snd (snd gpioReconfigured))" by (simp add: gpioReconfigured_def)
  moreover have "TriggerEnable (gcfg (fst (snd gpioReconfigured))) = 1" by code_simp
  ultimately show ?thesis using gpio_configuration_in_step by blast
qed

end
