(* ===== verification/Pwm.thy ===== *)
theory Pwm
  imports Ep_Config
begin

text \<open>
  The package \<open>pwm\<close>: an endpoint that either generates a waveform (\<open>RoleOutput\<close>) or measures one
  (\<open>RoleInput\<close>). The role decides which row of the event table applies. Each call is one step; the
  endpoint's mutex is not modelled.
\<close>

section \<open>Configuration\<close>

type_synonym Role = u8

definition RoleOutput :: Role where "RoleOutput = 0"
definition RoleInput :: Role where "RoleInput = 1"

definition Role_Valid :: "Role \<Rightarrow> bool" where "Role_Valid r \<longleftrightarrow> r < 2"

definition EVTClassFor :: "Role \<Rightarrow> EVTClass" where
  "EVTClassFor r = (if r = RoleOutput then EVTClassArithmetic else EVTClassConfigOnly)"

record PwmConfig =
  pwm_Enabled :: bool
  pwm_Role :: Role
  DefaultActiveTicks :: u16
  DefaultPeriodTicks :: u16

definition zeroPwmConfig :: PwmConfig where
  "zeroPwmConfig = \<lparr>pwm_Enabled = False, pwm_Role = 0, DefaultActiveTicks = 0, DefaultPeriodTicks = 0\<rparr>"

definition pwm_configLen :: nat where "pwm_configLen = 6"

definition PwmConfig_Validate :: "PwmConfig \<Rightarrow> rcp_error option" where
  "PwmConfig_Validate c =
     (if \<not> pwm_Enabled c then None
      else if \<not> Role_Valid (pwm_Role c) then Some (EPwm ErrInvalidRole)
      else if pwm_Role c = RoleOutput \<and> DefaultActiveTicks c > DefaultPeriodTicks c then Some (EPwm ErrActiveExceedsPeriod)
      else None)"

definition pwm_EncodeConfig :: "PwmConfig \<Rightarrow> bytes" where
  "pwm_EncodeConfig c = [if pwm_Enabled c then 1 else 0, pwm_Role c] @ put16 (DefaultActiveTicks c) @ put16 (DefaultPeriodTicks c)"

definition pwm_DecodeConfig :: "bytes \<Rightarrow> PwmConfig go" where
  "pwm_DecodeConfig b =
     (if length b < pwm_configLen then Err (EPwm ErrShortBuffer_pwm)
      else if length b > pwm_configLen then Err (EPwm ErrTrailingBytes_pwm)
      else andThen (idx b 0) (\<lambda>en. andThen (idx b 1) (\<lambda>r. andThen (get16 b 2) (\<lambda>a. andThen (get16 b 4) (\<lambda>p.
        Ok \<lparr>pwm_Enabled = (en \<noteq> 0), pwm_Role = r, DefaultActiveTicks = a, DefaultPeriodTicks = p\<rparr>)))))"

section \<open>Waveforms\<close>

definition waveformLen :: nat where "waveformLen = 4"

text \<open>The arguments are the active time and the period; the period comes first on the wire.\<close>

definition EncodeWaveform :: "u16 \<Rightarrow> u16 \<Rightarrow> bytes" where
  "EncodeWaveform activeTicks periodTicks = put16 periodTicks @ put16 activeTicks"

definition DecodeWaveform :: "bytes \<Rightarrow> (u16 \<times> u16) go" where
  "DecodeWaveform b =
     (if length b < waveformLen then Err (EPwm ErrShortBuffer_pwm)
      else if length b > waveformLen then Err (EPwm ErrTrailingBytes_pwm)
      else andThen (get16 b 2) (\<lambda>a. andThen (get16 b 0) (\<lambda>p. Ok (a, p))))"

definition waveformSaturateAt :: u32 where "waveformSaturateAt = 0xFFFF"

definition applyWaveformOp :: "EVTWriteOp \<Rightarrow> u16 \<Rightarrow> u16 \<Rightarrow> u16 \<Rightarrow> u16 \<Rightarrow> (u16 \<times> u16) go" where
  "applyWaveformOp op payloadActive payloadPeriod currentActive currentPeriod =
     andThen (ApplyEVTWriteOp op (ucast payloadActive) (ucast currentActive) waveformSaturateAt) (\<lambda>a.
       andThen (ApplyEVTWriteOp op (ucast payloadPeriod) (ucast currentPeriod) waveformSaturateAt) (\<lambda>p.
         Ok (ucast a, ucast p)))"

section \<open>The endpoint\<close>

datatype PwmTriggerKind = TriggerOutputUpdated | TriggerCaptureUpdated | TriggerSignalLost

record PwmTriggerEvent =
  pwm_Kind :: PwmTriggerKind
  pwm_ActiveTicks :: u16
  pwm_PeriodTicks :: u16

record PwmEndpoint =
  pwm_addr :: ByteBusID
  pwm_cfg :: PwmConfig
  outputTransport :: "(u16 \<times> u16, unit) transport option"
  appliedActive :: u16
  appliedPeriod :: u16
  inputTransport :: "(unit, u16 \<times> u16) transport option"
  capturedActive :: u16
  capturedPeriod :: u16
  hasCapture :: bool
  signalLost :: bool
  pwm_triggers :: "PwmTriggerEvent list"

definition pwm_NewEndpoint :: "ByteBusID \<Rightarrow> PwmEndpoint" where
  "pwm_NewEndpoint addr = \<lparr>pwm_addr = addr, pwm_cfg = zeroPwmConfig, outputTransport = None, appliedActive = 0, appliedPeriod = 0,
     inputTransport = None, capturedActive = 0, capturedPeriod = 0, hasCapture = False, signalLost = False, pwm_triggers = []\<rparr>"

definition pwm_adopted :: "PwmConfig \<Rightarrow> PwmEndpoint \<Rightarrow> PwmEndpoint" where
  "pwm_adopted c e = e\<lparr>pwm_cfg := c\<rparr>"

definition applyOutput :: "PwmEndpoint \<Rightarrow> u16 \<Rightarrow> u16 \<Rightarrow> PwmEndpoint \<times> rcp_error option" where
  "applyOutput e activeTicks periodTicks =
     (if activeTicks > periodTicks then (e, Some (EPwm ErrActiveExceedsPeriod))
      else
        (case (case outputTransport e of None \<Rightarrow> Inr () | Some t \<Rightarrow> t (activeTicks, periodTicks)) of
           Inl er \<Rightarrow> (e, Some er)
         | Inr _ \<Rightarrow>
             (e\<lparr>appliedActive := activeTicks, appliedPeriod := periodTicks,
                pwm_triggers := pwm_triggers e @
                  [\<lparr>pwm_Kind = TriggerOutputUpdated, pwm_ActiveTicks = activeTicks, pwm_PeriodTicks = periodTicks\<rparr>]\<rparr>, None)))"

definition pwm_Configure :: "Server \<Rightarrow> PwmEndpoint \<Rightarrow> StreamID \<Rightarrow> PwmConfig \<Rightarrow> Server \<times> PwmEndpoint \<times> rcp_error option" where
  "pwm_Configure s e rq c =
     (case configureEndpoint PwmConfig_Validate pwm_EncodeConfig pwm_adopted s e (pwm_addr e) rq c of
        (s', e', Some er) \<Rightarrow> (s', e', Some er)
      | (s', e', None) \<Rightarrow>
          if pwm_Enabled c \<and> pwm_Role c = RoleOutput
          then (case applyOutput e' (DefaultActiveTicks c) (DefaultPeriodTicks c) of (e'', err) \<Rightarrow> (s', e'', err))
          else (s', e', None))"

definition SetOutputTransport :: "PwmEndpoint \<Rightarrow> (u16 \<times> u16, unit) transport option \<Rightarrow> PwmEndpoint" where
  "SetOutputTransport e t = e\<lparr>outputTransport := t\<rparr>"

definition SetInputTransport :: "PwmEndpoint \<Rightarrow> (unit, u16 \<times> u16) transport option \<Rightarrow> PwmEndpoint" where
  "SetInputTransport e t = e\<lparr>inputTransport := t\<rparr>"

definition SetCapturedWaveform :: "PwmEndpoint \<Rightarrow> u16 \<Rightarrow> u16 \<Rightarrow> PwmEndpoint" where
  "SetCapturedWaveform e activeTicks periodTicks =
     e\<lparr>capturedActive := activeTicks, capturedPeriod := periodTicks, hasCapture := True, signalLost := False,
       pwm_triggers := pwm_triggers e @
         [\<lparr>pwm_Kind = TriggerCaptureUpdated, pwm_ActiveTicks = activeTicks, pwm_PeriodTicks = periodTicks\<rparr>]\<rparr>"

definition SetSignalLost :: "PwmEndpoint \<Rightarrow> PwmEndpoint" where
  "SetSignalLost e = e\<lparr>signalLost := True,
     pwm_triggers := pwm_triggers e @ [\<lparr>pwm_Kind = TriggerSignalLost, pwm_ActiveTicks = 0, pwm_PeriodTicks = 0\<rparr>]\<rparr>"

definition pwm_DrainTriggers :: "PwmEndpoint \<Rightarrow> PwmEndpoint \<times> PwmTriggerEvent list" where
  "pwm_DrainTriggers e = (e\<lparr>pwm_triggers := []\<rparr>, pwm_triggers e)"

definition capture :: "PwmEndpoint \<Rightarrow> (u16 \<times> u16) go" where
  "capture e =
     (case inputTransport e of
        Some t \<Rightarrow> (case t () of Inl er \<Rightarrow> Err er | Inr w \<Rightarrow> Ok w)
      | None \<Rightarrow>
          if signalLost e \<or> \<not> hasCapture e then Err (EPwm ErrSignalLost) else Ok (capturedActive e, capturedPeriod e))"

definition pwm_encodeConfigBlock :: "PwmEndpoint \<Rightarrow> bytes" where
  "pwm_encodeConfigBlock = pwm_EncodeConfig \<circ> pwm_cfg"

definition pwm_adoptConfigBlock :: "PwmEndpoint adopt" where
  "pwm_adoptConfigBlock = adoptBlock pwm_DecodeConfig PwmConfig_Validate pwm_adopted"

definition pwm_responseFor :: "Message \<Rightarrow> bytes \<Rightarrow> Message" where
  "pwm_responseFor req body = responseWith req (Control req AND (FlagRead OR FlagWrite)) body"

definition pwm_plainRequest :: "PwmEndpoint \<Rightarrow> Message \<Rightarrow> EVTDisposition \<Rightarrow> PwmEndpoint \<times> Message go" where
  "pwm_plainRequest e req disp =
     (if \<not> pwm_Enabled (pwm_cfg e) then (e, Err (EPwm ErrNotConfigured_pwm))
      else if Has (Control req) FlagWrite then
        (if pwm_Role (pwm_cfg e) \<noteq> RoleOutput then (e, Err (EPwm ErrWriteNotSupportedForInput))
         else
           (case andThen (DecodeWaveform (Body req)) (\<lambda>(pa, pp). applyWaveformOp (WriteOp disp) pa pp (appliedActive e) (appliedPeriod e)) of
              Err er \<Rightarrow> (e, Err er)
            | Panic \<Rightarrow> (e, Panic)
            | Ok (active, period) \<Rightarrow>
                (case applyOutput e active period of
                   (e', Some er) \<Rightarrow> (e', Err er)
                 | (e', None) \<Rightarrow> (e', Ok (pwm_responseFor req (EncodeWaveform active period))))))
      else if Has (Control req) FlagRead then
        (if pwm_Role (pwm_cfg e) = RoleOutput
         then (e, Ok (pwm_responseFor req (EncodeWaveform (appliedActive e) (appliedPeriod e))))
         else (e, andThen (capture e) (\<lambda>(a, p). Ok (pwm_responseFor req (EncodeWaveform a p)))))
      else (e, Err (EPwm ErrRequestMustReadOrWrite_pwm)))"

definition pwm_HandleRequest :: "Server \<Rightarrow> PwmEndpoint \<Rightarrow> StreamID \<Rightarrow> Message \<Rightarrow> Server \<times> PwmEndpoint \<times> Message go" where
  "pwm_HandleRequest s e rq req =
     endpointRequest (EPwm ErrWrongEndpoint_pwm) (EVTClassFor (pwm_Role (pwm_cfg e))) pwm_encodeConfigBlock pwm_adoptConfigBlock
       (pwm_responseFor req) (pwm_plainRequest e req) s e (pwm_addr e) rq req"

section \<open>Laws\<close>

interpretation pwm_config: body_codec pwm_EncodeConfig pwm_DecodeConfig "\<lambda>_. True"
  by unfold_locales (auto simp: pwm_DecodeConfig_def pwm_EncodeConfig_def pwm_configLen_def put16_def put32_def wire_simps)

interpretation pwm_ep: config_block pwm_EncodeConfig pwm_DecodeConfig PwmConfig_Validate pwm_cfg pwm_adopted
  by unfold_locales (simp add: pwm_adopted_def)

lemma pwm_adopted_addr [simp]: "pwm_addr (fst (pwm_adoptConfigBlock b e)) = pwm_addr e"
  by (auto simp: pwm_adoptConfigBlock_def adoptBlock_def pwm_adopted_def split: outcome.split option.split)

interpretation waveform: exact_codec "\<lambda>(a, p). EncodeWaveform a p" DecodeWaveform "\<lambda>_. True"
proof
  fix b x
  assume x: "DecodeWaveform b = Ok x"
  then have "length b = 4" by (auto simp: DecodeWaveform_def waveformLen_def split: if_splits)
  with x nths_of [OF this] show "True \<and> (case x of (a, p) \<Rightarrow> EncodeWaveform a p) = b"
    by (auto simp: DecodeWaveform_def EncodeWaveform_def waveformLen_def eval_nat_numeral)
qed (auto simp: DecodeWaveform_def EncodeWaveform_def waveformLen_def put16_def wire_simps)

text \<open>Nothing but the applied waveform and the event queue depends on \<open>applyOutput\<close>.\<close>

lemma applyOutput_cases:
  obtains (failed) er where "applyOutput e a p = (e, Some er)"
  | (applied) "a \<le> p" "applyOutput e a p = (e\<lparr>appliedActive := a, appliedPeriod := p, pwm_triggers := pwm_triggers e @
      [\<lparr>pwm_Kind = TriggerOutputUpdated, pwm_ActiveTicks = a, pwm_PeriodTicks = p\<rparr>]\<rparr>, None)"
      "\<forall>t. outputTransport e = Some t \<longrightarrow> t (a, p) = Inr ()"
  using that by (cases "a > p"; cases "outputTransport e"; cases "the (outputTransport e) (a, p)") (auto simp: applyOutput_def)

lemma pwm_plainRequest_cases:
  assumes "pwm_plainRequest e req disp = (e', r)"
  obtains (unchanged) "e' = e"
  | (written) pa pp a p where "Has (Control req) FlagWrite" "pwm_Role (pwm_cfg e) = RoleOutput" "pwm_Enabled (pwm_cfg e)"
      "Body req = EncodeWaveform pa pp" "applyWaveformOp (WriteOp disp) pa pp (appliedActive e) (appliedPeriod e) = Ok (a, p)"
      "applyOutput e a p = (e', None)" "a \<le> p" "r = Ok (pwm_responseFor req (EncodeWaveform a p))"
proof (cases "pwm_Enabled (pwm_cfg e) \<and> Has (Control req) FlagWrite \<and> pwm_Role (pwm_cfg e) = RoleOutput")
  case False
  then show ?thesis using assms unchanged by (auto simp: pwm_plainRequest_def split: if_splits)
next
  case True
  show ?thesis
  proof (cases "\<exists>pa pp a p. DecodeWaveform (Body req) = Ok (pa, pp) \<and>
      applyWaveformOp (WriteOp disp) pa pp (appliedActive e) (appliedPeriod e) = Ok (a, p)")
    case wave: True
    then obtain pa pp a p where w: "DecodeWaveform (Body req) = Ok (pa, pp)"
      "applyWaveformOp (WriteOp disp) pa pp (appliedActive e) (appliedPeriod e) = Ok (a, p)" by blast
    then have body: "Body req = EncodeWaveform pa pp" using waveform.enc_dec by fastforce
    show ?thesis
      by (cases rule: applyOutput_cases [of e a p])
        (use assms True w unchanged written [of pa pp a p] body in \<open>auto simp: pwm_plainRequest_def\<close>)
  next
    case wave: False
    then have "andThen (DecodeWaveform (Body req)) (\<lambda>(pa, pp). applyWaveformOp (WriteOp disp) pa pp (appliedActive e) (appliedPeriod e)) \<noteq> Ok (a, p)"
      for a p by (auto simp: andThen_eq_Ok_iff)
    then show ?thesis using assms True unchanged by (auto simp: pwm_plainRequest_def split: outcome.splits)
  qed
qed

lemma pwm_plain_keeps: "pwm_cfg (fst (pwm_plainRequest e req disp)) = pwm_cfg e \<and> pwm_addr (fst (pwm_plainRequest e req disp)) = pwm_addr e"
proof -
  obtain e' r where "pwm_plainRequest e req disp = (e', r)" by fastforce
  then show ?thesis
  proof (cases rule: pwm_plainRequest_cases)
    case (written pa pp a p)
    then show ?thesis
      using \<open>pwm_plainRequest e req disp = (e', r)\<close> by (cases rule: applyOutput_cases [of e a p]) auto
  qed (use \<open>pwm_plainRequest e req disp = (e', r)\<close> in simp)
qed

text \<open>A configured endpoint: its configuration is valid and is what the register map has.\<close>

definition pwm_in_step :: "Server \<Rightarrow> PwmEndpoint \<Rightarrow> bool" where
  "pwm_in_step s e \<longleftrightarrow> PwmConfig_Validate (pwm_cfg e) = None \<and>
     synced (reencode pwm_EncodeConfig pwm_DecodeConfig) pwm_encodeConfigBlock s (pwm_addr e) e"

lemma pwm_request_in_step:
  assumes "pwm_HandleRequest s e rq req = (s', e', r)" "pwm_in_step s e"
  shows "pwm_in_step s' e' \<and> pwm_addr e' = pwm_addr e"
proof -
  have "PwmConfig_Validate (pwm_cfg e') = None \<and>
    synced (reencode pwm_EncodeConfig pwm_DecodeConfig) (pwm_EncodeConfig \<circ> pwm_cfg) s' (pwm_addr e) e' \<and> pwm_addr e' = pwm_addr e"
    by (rule pwm_ep.ep.request_in_step [where I = "\<lambda>x. pwm_addr x = pwm_addr e",
          OF assms(1) [unfolded pwm_HandleRequest_def pwm_encodeConfigBlock_def pwm_adoptConfigBlock_def]])
      (use assms(2) pwm_adopted_addr pwm_plain_keeps in
        \<open>auto simp: pwm_in_step_def pwm_encodeConfigBlock_def pwm_adoptConfigBlock_def\<close>)
  then show ?thesis by (simp add: pwm_in_step_def pwm_encodeConfigBlock_def)
qed

section \<open>The applied waveform\<close>

text \<open>The calls of the package, on an endpoint of a server; the server may change between them.\<close>

inductive pwm_step :: "PwmEndpoint \<Rightarrow> PwmEndpoint \<Rightarrow> bool" where
  configure: "pwm_Configure s e rq c = (s', e', r) \<Longrightarrow> pwm_step e e'"
| request: "pwm_HandleRequest s e rq req = (s', e', m) \<Longrightarrow> pwm_step e e'"
| output_transport: "pwm_step e (SetOutputTransport e t)"
| input_transport: "pwm_step e (SetInputTransport e ti)"
| captured: "pwm_step e (SetCapturedWaveform e a p)"
| lost: "pwm_step e (SetSignalLost e)"
| drain: "pwm_step e (fst (pwm_DrainTriggers e))"

text \<open>A waveform that may be driven: the active time is within the period.\<close>

definition pwm_inv :: "PwmEndpoint \<Rightarrow> bool" where
  "pwm_inv e \<longleftrightarrow> appliedActive e \<le> appliedPeriod e \<and>
     list_all (\<lambda>ev. pwm_Kind ev = TriggerOutputUpdated \<longrightarrow> pwm_ActiveTicks ev \<le> pwm_PeriodTicks ev) (pwm_triggers e)"

lemma applyOutput_inv [keeps]: "pwm_inv e \<Longrightarrow> applyOutput e a p = (e', r) \<Longrightarrow> pwm_inv e'"
  by (cases rule: applyOutput_cases [of e a p]) (auto simp: pwm_inv_def)

lemma pwm_adopted_inv [keeps]: "pwm_inv e \<Longrightarrow> pwm_inv (pwm_adopted c e)"
  by (simp add: pwm_inv_def pwm_adopted_def)

lemma pwm_adopt_inv [keeps]: "pwm_inv e \<Longrightarrow> pwm_inv (fst (pwm_adoptConfigBlock b e))"
  by (auto simp: pwm_adoptConfigBlock_def adoptBlock_def keeps split: outcome.split option.split)

lemma pwm_plain_inv [keeps]: "pwm_inv e \<Longrightarrow> pwm_plainRequest e req disp = (e', r) \<Longrightarrow> pwm_inv e'"
  by (erule pwm_plainRequest_cases) (auto intro: applyOutput_inv)

lemma pwm_Configure_inv [keeps]: "pwm_inv e \<Longrightarrow> pwm_Configure s e rq c = (s', e', r) \<Longrightarrow> pwm_inv e'"
  by (auto simp: pwm_Configure_def configureEndpoint_def split: prod.splits option.splits if_splits
      intro: pwm_adopted_inv applyOutput_inv [OF pwm_adopted_inv])

lemma pwm_HandleRequest_inv [keeps]:
  assumes "pwm_inv e" "pwm_HandleRequest s e rq req = (s', e', m)"
  shows "pwm_inv e'"
  using assms(2) unfolding pwm_HandleRequest_def
proof (cases rule: endpointRequest_cases)
  case (config body)
  show ?thesis
    by (rule pwm_ep.ep.apply_keeps [where P = pwm_inv, OF config(2) [unfolded pwm_encodeConfigBlock_def pwm_adoptConfigBlock_def]])
      (use assms(1) pwm_adopt_inv in \<open>simp_all add: pwm_adoptConfigBlock_def\<close>)
qed (use assms(1) in \<open>auto intro: keeps\<close>)

lemma pwm_setters_inv [keeps]:
  assumes "pwm_inv e"
  shows "pwm_inv (SetOutputTransport e t)" "pwm_inv (SetInputTransport e ti)" "pwm_inv (SetCapturedWaveform e a p)"
    "pwm_inv (SetSignalLost e)" "pwm_inv (fst (pwm_DrainTriggers e))"
  using assms
  by (simp_all add: pwm_inv_def SetOutputTransport_def SetInputTransport_def SetCapturedWaveform_def SetSignalLost_def pwm_DrainTriggers_def)

interpretation pwm: invariant_steps pwm_step pwm_inv
  by unfold_locales (auto elim!: pwm_step.cases intro: pwm_Configure_inv pwm_HandleRequest_inv pwm_setters_inv)

section \<open>Properties\<close>

text \<open>Whatever is configured, requested, captured or drained, in whatever order and on whatever server,
  the waveform that a PWM endpoint drives has an active time within its period, and so have all
  queued reports of output changes.\<close>

theorem pwm_waveform_always_valid:
  assumes "pwm_step\<^sup>*\<^sup>* (pwm_NewEndpoint addr) e"
  shows "appliedActive e \<le> appliedPeriod e \<and>
    (\<forall>ev \<in> set (pwm_triggers e). pwm_Kind ev = TriggerOutputUpdated \<longrightarrow> pwm_ActiveTicks ev \<le> pwm_PeriodTicks ev)"
  using pwm.steps_inv [OF assms] by (simp add: pwm_inv_def pwm_NewEndpoint_def list_all_iff)

text \<open>A server with an output endpoint that starts with 3 of 10 ticks, and a request that adds 2 to both.\<close>

definition pwmRoot :: StreamID where "pwmRoot = StreamID 2 0 0 0 0 1 0 1"

definition pwmServer :: Server where
  "pwmServer = fst (AddEndpoint (fst (ClaimRoot NewServer pwmRoot)) pwmRoot 9 EndpointTypePWM)"

definition pwmStarted :: "Server \<times> PwmEndpoint \<times> rcp_error option" where
  "pwmStarted = pwm_Configure pwmServer (pwm_NewEndpoint 9) pwmRoot
     \<lparr>pwm_Enabled = True, pwm_Role = RoleOutput, DefaultActiveTicks = 3, DefaultPeriodTicks = 10\<rparr>"

definition pwmWrite :: Message where
  "pwmWrite = zeroMessage\<lparr>Kind := KindShort, ByteBusID := 9, Control := FlagWrite, EVT := 5, Body := EncodeWaveform 2 2\<rparr>"

definition pwmWritten :: "Server \<times> PwmEndpoint \<times> Message go" where
  "pwmWritten = pwm_HandleRequest (fst pwmStarted) (fst (snd pwmStarted)) pwmRoot pwmWrite"

theorem pwm_waveform_always_valid_witness:
  "appliedActive (fst (snd pwmWritten)) = 5 \<and> appliedPeriod (fst (snd pwmWritten)) = 12 \<and>
   length (pwm_triggers (fst (snd pwmWritten))) = 2 \<and>
   list_all (\<lambda>ev. pwm_Kind ev = TriggerOutputUpdated \<longrightarrow> pwm_ActiveTicks ev \<le> pwm_PeriodTicks ev) (pwm_triggers (fst (snd pwmWritten)))"
proof -
  have "pwm_Configure pwmServer (pwm_NewEndpoint 9) pwmRoot
     \<lparr>pwm_Enabled = True, pwm_Role = RoleOutput, DefaultActiveTicks = 3, DefaultPeriodTicks = 10\<rparr> =
     (fst pwmStarted, fst (snd pwmStarted), snd (snd pwmStarted))" by (simp add: pwmStarted_def)
  note start = r_into_rtranclp [of pwm_step, OF pwm_step.configure [OF this]]
  have "pwm_HandleRequest (fst pwmStarted) (fst (snd pwmStarted)) pwmRoot pwmWrite =
     (fst pwmWritten, fst (snd pwmWritten), snd (snd pwmWritten))" by (simp add: pwmWritten_def)
  note pwm_step.request [OF this]
  with start have "pwm_step\<^sup>*\<^sup>* (pwm_NewEndpoint 9) (fst (snd pwmWritten))" by (rule rtranclp.rtrancl_into_rtrancl)
  note pwm_waveform_always_valid [OF this]
  moreover have "appliedActive (fst (snd pwmWritten)) = 5" "appliedPeriod (fst (snd pwmWritten)) = 12"
    "length (pwm_triggers (fst (snd pwmWritten))) = 2" by code_simp+
  ultimately show ?thesis by (simp add: list_all_iff)
qed


end
