(* ===== verification/I2c.thy ===== *)
theory I2c
  imports Ep_Config
begin

text \<open>
  The package \<open>i2c\<close>: a controller-only bus. The endpoint hands the body of a write request to its
  transport, or echoes it when none is installed, and queues one event with the number of octets
  received. Each call is one step; the endpoint's mutex is not modelled.
\<close>

section \<open>Configuration\<close>

definition i2c_EVTClass :: EVTClass where "i2c_EVTClass = EVTClassConfigOnly"

definition BusSpeed_Valid :: "u8 \<Rightarrow> bool" where "BusSpeed_Valid s \<longleftrightarrow> s < 5"

record I2cConfig =
  i2c_Enabled :: bool
  i2c_Speed :: u8
  i2c_TrailingTimeMicros :: u16

definition zeroI2cConfig :: I2cConfig where
  "zeroI2cConfig = \<lparr>i2c_Enabled = False, i2c_Speed = 0, i2c_TrailingTimeMicros = 0\<rparr>"

definition i2c_configLen :: nat where "i2c_configLen = 4"

definition I2cConfig_Validate :: "I2cConfig \<Rightarrow> rcp_error option" where
  "I2cConfig_Validate c =
     (if \<not> i2c_Enabled c then None
      else if \<not> BusSpeed_Valid (i2c_Speed c) then Some (EI2c ErrInvalidSpeed) else None)"

definition i2c_EncodeConfig :: "I2cConfig \<Rightarrow> bytes" where
  "i2c_EncodeConfig c = [if i2c_Enabled c then 1 else 0, i2c_Speed c] @ put16 (i2c_TrailingTimeMicros c)"

definition i2c_DecodeConfig :: "bytes \<Rightarrow> I2cConfig go" where
  "i2c_DecodeConfig b =
     (if length b < i2c_configLen then Err (EI2c ErrShortBuffer_i2c)
      else if length b > i2c_configLen then Err (EI2c ErrTrailingBytes_i2c)
      else andThen (idx b 0) (\<lambda>en. andThen (idx b 1) (\<lambda>sp. andThen (get16 b 2) (\<lambda>t.
        Ok \<lparr>i2c_Enabled = (en \<noteq> 0), i2c_Speed = sp, i2c_TrailingTimeMicros = t\<rparr>))))"


section \<open>Request and response bodies\<close>

definition i2c_EncodeTransferRequest :: "bytes \<Rightarrow> bytes" where "i2c_EncodeTransferRequest tx = tx"

definition i2c_DecodeTransferRequest :: "bytes \<Rightarrow> bytes" where "i2c_DecodeTransferRequest b = b"

definition i2c_EncodeTransferResponse :: "bytes \<Rightarrow> bytes" where
  "i2c_EncodeTransferResponse rx = i2c_EncodeTransferRequest rx"

definition i2c_DecodeTransferResponse :: "bytes \<Rightarrow> bytes" where
  "i2c_DecodeTransferResponse b = i2c_DecodeTransferRequest b"

section \<open>The endpoint\<close>

record I2cTriggerEvent =
  i2c_ByteCount :: nat

record I2cEndpoint =
  i2c_addr :: ByteBusID
  i2c_cfg :: I2cConfig
  i2c_transport :: "(bytes, bytes) transport option"
  i2c_triggers :: "I2cTriggerEvent list"

definition i2c_NewEndpoint :: "ByteBusID \<Rightarrow> I2cEndpoint" where
  "i2c_NewEndpoint addr = \<lparr>i2c_addr = addr, i2c_cfg = zeroI2cConfig, i2c_transport = None, i2c_triggers = []\<rparr>"

definition i2c_adopted :: "I2cConfig \<Rightarrow> I2cEndpoint \<Rightarrow> I2cEndpoint" where
  "i2c_adopted c e = e\<lparr>i2c_cfg := c\<rparr>"

definition i2c_Configure :: "Server \<Rightarrow> I2cEndpoint \<Rightarrow> StreamID \<Rightarrow> I2cConfig \<Rightarrow> Server \<times> I2cEndpoint \<times> rcp_error option" where
  "i2c_Configure s e rq c = configureEndpoint I2cConfig_Validate i2c_EncodeConfig i2c_adopted s e (i2c_addr e) rq c"

definition i2c_SetTransport :: "I2cEndpoint \<Rightarrow> (bytes, bytes) transport option \<Rightarrow> I2cEndpoint" where
  "i2c_SetTransport e t = e\<lparr>i2c_transport := t\<rparr>"

definition i2c_DrainTriggers :: "I2cEndpoint \<Rightarrow> I2cEndpoint \<times> I2cTriggerEvent list" where
  "i2c_DrainTriggers e = (e\<lparr>i2c_triggers := []\<rparr>, i2c_triggers e)"

text \<open>What comes back over the bus.\<close>

definition i2c_exchange :: "I2cEndpoint \<Rightarrow> (bytes, bytes) transport" where
  "i2c_exchange e tx = (case i2c_transport e of Some t \<Rightarrow> t tx | None \<Rightarrow> Inr tx)"

definition i2c_transfer :: "I2cEndpoint \<Rightarrow> bytes \<Rightarrow> I2cEndpoint \<times> bytes go" where
  "i2c_transfer e tx =
     (if \<not> i2c_Enabled (i2c_cfg e) then (e, Err (EI2c ErrBusNotConfigured_i2c))
      else
        (case i2c_exchange e tx of
           Inl er \<Rightarrow> (e, Err er)
         | Inr rx \<Rightarrow> (e\<lparr>i2c_triggers := i2c_triggers e @ [\<lparr>i2c_ByteCount = length rx\<rparr>]\<rparr>, Ok rx)))"

definition i2c_encodeConfigBlock :: "I2cEndpoint \<Rightarrow> bytes" where
  "i2c_encodeConfigBlock = i2c_EncodeConfig \<circ> i2c_cfg"

definition i2c_adoptConfigBlock :: "I2cEndpoint adopt" where
  "i2c_adoptConfigBlock = adoptBlock i2c_DecodeConfig I2cConfig_Validate i2c_adopted"

definition i2c_responseFor :: "Message \<Rightarrow> bytes \<Rightarrow> Message" where
  "i2c_responseFor req body = responseWith req (FlagWrite) body"

definition i2c_plainRequest :: "I2cEndpoint \<Rightarrow> Message \<Rightarrow> EVTDisposition \<Rightarrow> I2cEndpoint \<times> Message go" where
  "i2c_plainRequest e req disp =
     (if \<not> Has (Control req) FlagWrite then (e, Err (EI2c ErrRequestMustWrite_i2c))
      else
        (case i2c_transfer e (i2c_DecodeTransferRequest (Body req)) of
           (e', r) \<Rightarrow> (e', andThen r (\<lambda>rx. Ok (i2c_responseFor req (i2c_EncodeTransferResponse rx))))))"

definition i2c_HandleRequest :: "Server \<Rightarrow> I2cEndpoint \<Rightarrow> StreamID \<Rightarrow> Message \<Rightarrow> Server \<times> I2cEndpoint \<times> Message go" where
  "i2c_HandleRequest s e rq req =
     endpointRequest (EI2c ErrWrongEndpoint_i2c) i2c_EVTClass i2c_encodeConfigBlock i2c_adoptConfigBlock
       (i2c_responseFor req) (i2c_plainRequest e req) s e (i2c_addr e) rq req"

section \<open>Laws\<close>

interpretation i2c_config: body_codec i2c_EncodeConfig i2c_DecodeConfig "\<lambda>_. True"
  by unfold_locales (auto simp: i2c_DecodeConfig_def i2c_EncodeConfig_def i2c_configLen_def put16_def put32_def wire_simps)

interpretation i2c_ep: config_block i2c_EncodeConfig i2c_DecodeConfig I2cConfig_Validate i2c_cfg i2c_adopted
  by unfold_locales (simp add: i2c_adopted_def)

lemma i2c_adopted_addr [simp]: "i2c_addr (fst (i2c_adoptConfigBlock b e)) = i2c_addr e"
  by (auto simp: i2c_adoptConfigBlock_def adoptBlock_def i2c_adopted_def split: outcome.split option.split)

lemmas i2c_bodies = i2c_EncodeTransferRequest_def i2c_DecodeTransferRequest_def i2c_EncodeTransferResponse_def
  i2c_DecodeTransferResponse_def

lemma i2c_plain_keeps: "i2c_cfg (fst (i2c_plainRequest e req disp)) = i2c_cfg e \<and> i2c_addr (fst (i2c_plainRequest e req disp)) = i2c_addr e"
  by (simp add: i2c_plainRequest_def i2c_transfer_def split: sum.split)

text \<open>A configured endpoint: its configuration is valid and is what the register map has.\<close>

definition i2c_in_step :: "Server \<Rightarrow> I2cEndpoint \<Rightarrow> bool" where
  "i2c_in_step s e \<longleftrightarrow> I2cConfig_Validate (i2c_cfg e) = None \<and>
     synced (reencode i2c_EncodeConfig i2c_DecodeConfig) i2c_encodeConfigBlock s (i2c_addr e) e"

lemma i2c_request_in_step:
  assumes "i2c_HandleRequest s e rq req = (s', e', r)" "i2c_in_step s e"
  shows "i2c_in_step s' e' \<and> i2c_addr e' = i2c_addr e"
proof -
  have "I2cConfig_Validate (i2c_cfg e') = None \<and>
    synced (reencode i2c_EncodeConfig i2c_DecodeConfig) (i2c_EncodeConfig \<circ> i2c_cfg) s' (i2c_addr e) e' \<and> i2c_addr e' = i2c_addr e"
    by (rule i2c_ep.ep.request_in_step [where I = "\<lambda>x. i2c_addr x = i2c_addr e",
          OF assms(1) [unfolded i2c_HandleRequest_def i2c_encodeConfigBlock_def i2c_adoptConfigBlock_def]])
      (use assms(2) i2c_adopted_addr i2c_plain_keeps in
        \<open>auto simp: i2c_in_step_def i2c_encodeConfigBlock_def i2c_adoptConfigBlock_def\<close>)
  then show ?thesis by (simp add: i2c_in_step_def i2c_encodeConfigBlock_def)
qed

lemma i2c_configure_in_step:
  "i2c_Configure s e rq c = (s', e', None) \<Longrightarrow> i2c_in_step s' e' \<and> i2c_cfg e' = c \<and> i2c_addr e' = i2c_addr e"
  using i2c_ep.configure_in_step [of s e "i2c_addr e" rq c s' e']
  by (auto simp: i2c_Configure_def i2c_in_step_def i2c_encodeConfigBlock_def i2c_adopted_def)

text \<open>A request that is no configuration request: one exchange with the bus, or nothing happens.\<close>

lemma i2c_request_transfers:
  assumes "i2c_HandleRequest s e rq req = (s', e', r)" "Message_EVTSelector req \<noteq> 7"
  shows "s' = s \<and>
    ((\<exists>rx. CanAccess (acl s) rq (i2c_addr e) \<and> Has (Control req) FlagWrite \<and> i2c_Enabled (i2c_cfg e) \<and>
        i2c_exchange e (Body req) = Inr rx \<and> r = Ok (i2c_responseFor req rx) \<and>
        e' = e\<lparr>i2c_triggers := i2c_triggers e @ [\<lparr>i2c_ByteCount = length rx\<rparr>]\<rparr>) \<or>
     e' = e \<and> (\<exists>er. r = Err er))"
  using assms(1) unfolding i2c_HandleRequest_def
proof (cases rule: endpointRequest_cases)
  case (plain disp)
  then show ?thesis
    by (auto simp: i2c_plainRequest_def i2c_transfer_def i2c_bodies split: sum.splits if_splits)
qed (use assms(2) in auto)

end
