(* ===== verification/Lin.thy ===== *)
theory Lin
  imports Ep_Config
begin

text \<open>
  The package \<open>lin\<close>: a LIN commander. The endpoint hands the body of a write request to its
  transport, or echoes it when none is installed, and queues one event with the number of octets
  received. Each call is one step; the endpoint's mutex is not modelled.
\<close>

section \<open>Configuration\<close>

definition lin_EVTClass :: EVTClass where "lin_EVTClass = EVTClassConfigOnly"

record LinConfig =
  lin_Enabled :: bool
  lin_BaudRate :: u32
  lin_TrailingTimeMicros :: u16

definition zeroLinConfig :: LinConfig where
  "zeroLinConfig = \<lparr>lin_Enabled = False, lin_BaudRate = 0, lin_TrailingTimeMicros = 0\<rparr>"

definition lin_configLen :: nat where "lin_configLen = 7"

definition LinConfig_Validate :: "LinConfig \<Rightarrow> rcp_error option" where
  "LinConfig_Validate c =
     (if \<not> lin_Enabled c then None
      else if lin_BaudRate c = 0 then Some (ELin ErrInvalidBaudRate) else None)"

definition lin_EncodeConfig :: "LinConfig \<Rightarrow> bytes" where
  "lin_EncodeConfig c = [if lin_Enabled c then 1 else 0] @ put32 (lin_BaudRate c) @ put16 (lin_TrailingTimeMicros c)"

definition lin_DecodeConfig :: "bytes \<Rightarrow> LinConfig go" where
  "lin_DecodeConfig b =
     (if length b < lin_configLen then Err (ELin ErrShortBuffer_lin)
      else if length b > lin_configLen then Err (ELin ErrTrailingBytes_lin)
      else andThen (idx b 0) (\<lambda>en. andThen (get32 b 1) (\<lambda>br. andThen (get16 b 5) (\<lambda>t.
        Ok \<lparr>lin_Enabled = (en \<noteq> 0), lin_BaudRate = br, lin_TrailingTimeMicros = t\<rparr>))))"


section \<open>Request and response bodies\<close>

definition lin_EncodeTransferRequest :: "bytes \<Rightarrow> bytes" where "lin_EncodeTransferRequest tx = tx"

definition lin_DecodeTransferRequest :: "bytes \<Rightarrow> bytes" where "lin_DecodeTransferRequest b = b"

definition lin_EncodeTransferResponse :: "bytes \<Rightarrow> bytes" where
  "lin_EncodeTransferResponse rx = lin_EncodeTransferRequest rx"

definition lin_DecodeTransferResponse :: "bytes \<Rightarrow> bytes" where
  "lin_DecodeTransferResponse b = lin_DecodeTransferRequest b"

section \<open>The endpoint\<close>

record LinTriggerEvent =
  lin_ByteCount :: nat

record LinEndpoint =
  lin_addr :: ByteBusID
  lin_cfg :: LinConfig
  lin_transport :: "(bytes, bytes) transport option"
  lin_triggers :: "LinTriggerEvent list"

definition lin_NewEndpoint :: "ByteBusID \<Rightarrow> LinEndpoint" where
  "lin_NewEndpoint addr = \<lparr>lin_addr = addr, lin_cfg = zeroLinConfig, lin_transport = None, lin_triggers = []\<rparr>"

definition lin_adopted :: "LinConfig \<Rightarrow> LinEndpoint \<Rightarrow> LinEndpoint" where
  "lin_adopted c e = e\<lparr>lin_cfg := c\<rparr>"

definition lin_Configure :: "Server \<Rightarrow> LinEndpoint \<Rightarrow> StreamID \<Rightarrow> LinConfig \<Rightarrow> Server \<times> LinEndpoint \<times> rcp_error option" where
  "lin_Configure s e rq c = configureEndpoint LinConfig_Validate lin_EncodeConfig lin_adopted s e (lin_addr e) rq c"

definition lin_SetTransport :: "LinEndpoint \<Rightarrow> (bytes, bytes) transport option \<Rightarrow> LinEndpoint" where
  "lin_SetTransport e t = e\<lparr>lin_transport := t\<rparr>"

definition lin_DrainTriggers :: "LinEndpoint \<Rightarrow> LinEndpoint \<times> LinTriggerEvent list" where
  "lin_DrainTriggers e = (e\<lparr>lin_triggers := []\<rparr>, lin_triggers e)"

text \<open>What comes back over the bus.\<close>

definition lin_exchange :: "LinEndpoint \<Rightarrow> (bytes, bytes) transport" where
  "lin_exchange e tx = (case lin_transport e of Some t \<Rightarrow> t tx | None \<Rightarrow> Inr tx)"

definition lin_transfer :: "LinEndpoint \<Rightarrow> bytes \<Rightarrow> LinEndpoint \<times> bytes go" where
  "lin_transfer e tx =
     (if \<not> lin_Enabled (lin_cfg e) then (e, Err (ELin ErrBusNotConfigured_lin))
      else
        (case lin_exchange e tx of
           Inl er \<Rightarrow> (e, Err er)
         | Inr rx \<Rightarrow> (e\<lparr>lin_triggers := lin_triggers e @ [\<lparr>lin_ByteCount = length rx\<rparr>]\<rparr>, Ok rx)))"

definition lin_encodeConfigBlock :: "LinEndpoint \<Rightarrow> bytes" where
  "lin_encodeConfigBlock = lin_EncodeConfig \<circ> lin_cfg"

definition lin_adoptConfigBlock :: "LinEndpoint adopt" where
  "lin_adoptConfigBlock = adoptBlock lin_DecodeConfig LinConfig_Validate lin_adopted"

definition lin_responseFor :: "Message \<Rightarrow> bytes \<Rightarrow> Message" where
  "lin_responseFor req body = responseWith req (FlagWrite) body"

definition lin_plainRequest :: "LinEndpoint \<Rightarrow> Message \<Rightarrow> EVTDisposition \<Rightarrow> LinEndpoint \<times> Message go" where
  "lin_plainRequest e req disp =
     (if \<not> Has (Control req) FlagWrite then (e, Err (ELin ErrRequestMustWrite_lin))
      else
        (case lin_transfer e (lin_DecodeTransferRequest (Body req)) of
           (e', r) \<Rightarrow> (e', andThen r (\<lambda>rx. Ok (lin_responseFor req (lin_EncodeTransferResponse rx))))))"

definition lin_HandleRequest :: "Server \<Rightarrow> LinEndpoint \<Rightarrow> StreamID \<Rightarrow> Message \<Rightarrow> Server \<times> LinEndpoint \<times> Message go" where
  "lin_HandleRequest s e rq req =
     endpointRequest (ELin ErrWrongEndpoint_lin) lin_EVTClass lin_encodeConfigBlock lin_adoptConfigBlock
       (lin_responseFor req) (lin_plainRequest e req) s e (lin_addr e) rq req"

section \<open>Laws\<close>

interpretation lin_config: body_codec lin_EncodeConfig lin_DecodeConfig "\<lambda>_. True"
  by unfold_locales (auto simp: lin_DecodeConfig_def lin_EncodeConfig_def lin_configLen_def put16_def put32_def wire_simps)

interpretation lin_ep: config_block lin_EncodeConfig lin_DecodeConfig LinConfig_Validate lin_cfg lin_adopted
  by unfold_locales (simp add: lin_adopted_def)

lemma lin_adopted_addr [simp]: "lin_addr (fst (lin_adoptConfigBlock b e)) = lin_addr e"
  by (auto simp: lin_adoptConfigBlock_def adoptBlock_def lin_adopted_def split: outcome.split option.split)

lemmas lin_bodies = lin_EncodeTransferRequest_def lin_DecodeTransferRequest_def lin_EncodeTransferResponse_def
  lin_DecodeTransferResponse_def

lemma lin_plain_keeps: "lin_cfg (fst (lin_plainRequest e req disp)) = lin_cfg e \<and> lin_addr (fst (lin_plainRequest e req disp)) = lin_addr e"
  by (simp add: lin_plainRequest_def lin_transfer_def split: sum.split)

text \<open>A configured endpoint: its configuration is valid and is what the register map has.\<close>

definition lin_in_step :: "Server \<Rightarrow> LinEndpoint \<Rightarrow> bool" where
  "lin_in_step s e \<longleftrightarrow> LinConfig_Validate (lin_cfg e) = None \<and>
     synced (reencode lin_EncodeConfig lin_DecodeConfig) lin_encodeConfigBlock s (lin_addr e) e"

lemma lin_request_in_step:
  assumes "lin_HandleRequest s e rq req = (s', e', r)" "lin_in_step s e"
  shows "lin_in_step s' e' \<and> lin_addr e' = lin_addr e"
proof -
  have "LinConfig_Validate (lin_cfg e') = None \<and>
    synced (reencode lin_EncodeConfig lin_DecodeConfig) (lin_EncodeConfig \<circ> lin_cfg) s' (lin_addr e) e' \<and> lin_addr e' = lin_addr e"
    by (rule lin_ep.ep.request_in_step [where I = "\<lambda>x. lin_addr x = lin_addr e",
          OF assms(1) [unfolded lin_HandleRequest_def lin_encodeConfigBlock_def lin_adoptConfigBlock_def]])
      (use assms(2) lin_adopted_addr lin_plain_keeps in
        \<open>auto simp: lin_in_step_def lin_encodeConfigBlock_def lin_adoptConfigBlock_def\<close>)
  then show ?thesis by (simp add: lin_in_step_def lin_encodeConfigBlock_def)
qed

lemma lin_configure_in_step:
  "lin_Configure s e rq c = (s', e', None) \<Longrightarrow> lin_in_step s' e' \<and> lin_cfg e' = c \<and> lin_addr e' = lin_addr e"
  using lin_ep.configure_in_step [of s e "lin_addr e" rq c s' e']
  by (auto simp: lin_Configure_def lin_in_step_def lin_encodeConfigBlock_def lin_adopted_def)

text \<open>A request that is no configuration request: one exchange with the bus, or nothing happens.\<close>

lemma lin_request_transfers:
  assumes "lin_HandleRequest s e rq req = (s', e', r)" "Message_EVTSelector req \<noteq> 7"
  shows "s' = s \<and>
    ((\<exists>rx. CanAccess (acl s) rq (lin_addr e) \<and> Has (Control req) FlagWrite \<and> lin_Enabled (lin_cfg e) \<and>
        lin_exchange e (Body req) = Inr rx \<and> r = Ok (lin_responseFor req rx) \<and>
        e' = e\<lparr>lin_triggers := lin_triggers e @ [\<lparr>lin_ByteCount = length rx\<rparr>]\<rparr>) \<or>
     e' = e \<and> (\<exists>er. r = Err er))"
  using assms(1) unfolding lin_HandleRequest_def
proof (cases rule: endpointRequest_cases)
  case (plain disp)
  then show ?thesis
    by (auto simp: lin_plainRequest_def lin_transfer_def lin_bodies split: sum.splits if_splits)
qed (use assms(2) in auto)

end
