(* ===== verification/Spi.thy ===== *)
theory Spi
  imports Ep_Config
begin

text \<open>
  The package \<open>spi\<close>: an endpoint with six chip-select channels, each with its own configuration and
  transport. The selector of the event field chooses the channel. Each call is one step; the
  endpoint's mutex is not modelled.
\<close>

section \<open>Arrays of six\<close>

text \<open>The Go type \<open>[MaxChannels]T\<close>.\<close>

datatype 'a six = Six 'a 'a 'a 'a 'a 'a

definition MaxChannels :: nat where "MaxChannels = 6"

fun six_list :: "'a six \<Rightarrow> 'a list" where "six_list (Six a b c d e f) = [a, b, c, d, e, f]"

fun six_put :: "nat \<Rightarrow> 'a \<Rightarrow> 'a six \<Rightarrow> 'a six" where
  "six_put n v (Six a b c d e f) =
     Six (if n = 0 then v else a) (if n = 1 then v else b) (if n = 2 then v else c)
         (if n = 3 then v else d) (if n = 4 then v else e) (if n = 5 then v else f)"

definition six_all :: "'a \<Rightarrow> 'a six" where "six_all v = Six v v v v v v"

lemma length_six_list [simp]: "length (six_list x) = 6"
  by (cases x) simp

lemma six_list_put [simp]: "n < 6 \<Longrightarrow> six_list (six_put n v x) = (six_list x)[n := v]"
  by (cases x) (auto simp: less_Suc_eq eval_nat_numeral)

section \<open>Configuration\<close>

definition spi_EVTClass :: EVTClass where "spi_EVTClass = EVTClassChannelSelect"

definition Channel_Valid :: "u8 \<Rightarrow> bool" where "Channel_Valid c \<longleftrightarrow> c < 6"

definition Mode_Valid :: "u8 \<Rightarrow> bool" where "Mode_Valid m \<longleftrightarrow> m < 4"

record ChannelConfig =
  spi_Enabled :: bool
  ClockHz :: u32
  spi_Mode :: u8
  InterTransferDelayMicros :: u16

definition zeroChannelConfig :: ChannelConfig where
  "zeroChannelConfig = \<lparr>spi_Enabled = False, ClockHz = 0, spi_Mode = 0, InterTransferDelayMicros = 0\<rparr>"

definition channelConfigLen :: nat where "channelConfigLen = 8"

definition encodeChannelConfig :: "ChannelConfig \<Rightarrow> bytes" where
  "encodeChannelConfig c =
     [if spi_Enabled c then 1 else 0] @ put32 (ClockHz c) @ [spi_Mode c] @ put16 (InterTransferDelayMicros c)"

definition decodeChannelConfig :: "bytes \<Rightarrow> ChannelConfig go" where
  "decodeChannelConfig b =
     (if length b < channelConfigLen then Err (ESpi ErrShortBuffer_spi)
      else andThen (idx b 0) (\<lambda>en. andThen (get32 b 1) (\<lambda>hz. andThen (idx b 5) (\<lambda>m. andThen (get16 b 6) (\<lambda>d.
        Ok \<lparr>spi_Enabled = (en \<noteq> 0), ClockHz = hz, spi_Mode = m, InterTransferDelayMicros = d\<rparr>)))))"

record SpiConfig =
  Channels :: "ChannelConfig six"

definition spi_configLen :: nat where "spi_configLen = channelConfigLen * MaxChannels"

text \<open>The loop over the channels returns the first error.\<close>

definition channelError :: "ChannelConfig \<Rightarrow> rcp_error option" where
  "channelError ch =
     (if \<not> spi_Enabled ch then None
      else if ClockHz ch = 0 then Some (ESpi ErrZeroClock)
      else if \<not> Mode_Valid (spi_Mode ch) then Some (ESpi ErrInvalidMode_spi) else None)"

fun firstError :: "ChannelConfig list \<Rightarrow> rcp_error option" where
  "firstError [] = None"
| "firstError (ch # chs) = (case channelError ch of Some er \<Rightarrow> Some er | None \<Rightarrow> firstError chs)"

definition SpiConfig_Validate :: "SpiConfig \<Rightarrow> rcp_error option" where
  "SpiConfig_Validate c = firstError (six_list (Channels c))"

definition spi_EncodeConfig :: "SpiConfig \<Rightarrow> bytes" where
  "spi_EncodeConfig c = concat (map encodeChannelConfig (six_list (Channels c)))"

definition channelAt :: "bytes \<Rightarrow> nat \<Rightarrow> ChannelConfig go" where
  "channelAt b i = andThen (slice b (i * channelConfigLen) ((i + 1) * channelConfigLen)) decodeChannelConfig"

definition spi_DecodeConfig :: "bytes \<Rightarrow> SpiConfig go" where
  "spi_DecodeConfig b =
     (if length b < spi_configLen then Err (ESpi ErrShortBuffer_spi)
      else if length b > spi_configLen then Err (ESpi ErrTrailingBytes_spi)
      else andThen (channelAt b 0) (\<lambda>c0. andThen (channelAt b 1) (\<lambda>c1. andThen (channelAt b 2) (\<lambda>c2.
           andThen (channelAt b 3) (\<lambda>c3. andThen (channelAt b 4) (\<lambda>c4. andThen (channelAt b 5) (\<lambda>c5.
             Ok \<lparr>Channels = Six c0 c1 c2 c3 c4 c5\<rparr>)))))))"

section \<open>Request and response bodies\<close>

definition spi_EncodeTransferRequest :: "bytes \<Rightarrow> bytes" where "spi_EncodeTransferRequest tx = tx"

definition spi_DecodeTransferRequest :: "bytes \<Rightarrow> bytes" where "spi_DecodeTransferRequest b = b"

definition spi_EncodeTransferResponse :: "bytes \<Rightarrow> bytes" where
  "spi_EncodeTransferResponse rx = spi_EncodeTransferRequest rx"

definition spi_DecodeTransferResponse :: "bytes \<Rightarrow> bytes" where
  "spi_DecodeTransferResponse b = spi_DecodeTransferRequest b"

section \<open>The endpoint\<close>

datatype SpiTriggerKind = TriggerTransferComplete | TriggerChipSelectEdge

record SpiTriggerEvent =
  spi_TKind :: SpiTriggerKind
  spi_TChannel :: u8
  spi_ByteCount :: nat
  Asserted :: bool

definition chipSelect :: "u8 \<Rightarrow> bool \<Rightarrow> SpiTriggerEvent" where
  "chipSelect ch on = \<lparr>spi_TKind = TriggerChipSelectEdge, spi_TChannel = ch, spi_ByteCount = 0, Asserted = on\<rparr>"

definition transferComplete :: "u8 \<Rightarrow> nat \<Rightarrow> SpiTriggerEvent" where
  "transferComplete ch n = \<lparr>spi_TKind = TriggerTransferComplete, spi_TChannel = ch, spi_ByteCount = n, Asserted = False\<rparr>"

record SpiEndpoint =
  spi_addr :: ByteBusID
  spi_cfg :: SpiConfig
  transports :: "(bytes, bytes) transport option six"
  spi_triggers :: "SpiTriggerEvent list"

definition spi_NewEndpoint :: "ByteBusID \<Rightarrow> SpiEndpoint" where
  "spi_NewEndpoint addr = \<lparr>spi_addr = addr, spi_cfg = \<lparr>Channels = six_all zeroChannelConfig\<rparr>, transports = six_all None, spi_triggers = []\<rparr>"

definition spi_adopted :: "SpiConfig \<Rightarrow> SpiEndpoint \<Rightarrow> SpiEndpoint" where
  "spi_adopted c e = e\<lparr>spi_cfg := c\<rparr>"

definition SetChannelConfig :: "Server \<Rightarrow> SpiEndpoint \<Rightarrow> StreamID \<Rightarrow> u8 \<Rightarrow> ChannelConfig \<Rightarrow> Server \<times> SpiEndpoint \<times> rcp_error option" where
  "SetChannelConfig s e rq ch cc =
     (if \<not> Channel_Valid ch then (s, e, Some (ESpi ErrInvalidChannel))
      else configureEndpoint SpiConfig_Validate spi_EncodeConfig spi_adopted s e (spi_addr e) rq
             ((spi_cfg e)\<lparr>Channels := six_put (unat ch) cc (Channels (spi_cfg e))\<rparr>))"

definition spi_SetTransport :: "SpiEndpoint \<Rightarrow> u8 \<Rightarrow> (bytes, bytes) transport option \<Rightarrow> SpiEndpoint \<times> rcp_error option" where
  "spi_SetTransport e ch t =
     (if \<not> Channel_Valid ch then (e, Some (ESpi ErrInvalidChannel))
      else (e\<lparr>transports := six_put (unat ch) t (transports e)\<rparr>, None))"

definition spi_DrainTriggers :: "SpiEndpoint \<Rightarrow> SpiEndpoint \<times> SpiTriggerEvent list" where
  "spi_DrainTriggers e = (e\<lparr>spi_triggers := []\<rparr>, spi_triggers e)"

definition recordTrigger :: "SpiTriggerEvent \<Rightarrow> SpiEndpoint \<Rightarrow> SpiEndpoint" where
  "recordTrigger ev e = e\<lparr>spi_triggers := spi_triggers e @ [ev]\<rparr>"

text \<open>What comes back on a channel.\<close>

definition spi_exchange :: "SpiEndpoint \<Rightarrow> u8 \<Rightarrow> (bytes, bytes) transport" where
  "spi_exchange e ch tx = (case six_list (transports e) ! unat ch of Some t \<Rightarrow> t tx | None \<Rightarrow> Inr tx)"

definition spi_transfer :: "SpiEndpoint \<Rightarrow> u8 \<Rightarrow> bytes \<Rightarrow> SpiEndpoint \<times> bytes go" where
  "spi_transfer e ch tx =
     (if \<not> spi_Enabled (six_list (Channels (spi_cfg e)) ! unat ch) then (e, Err (ESpi ErrChannelNotConfigured_spi))
      else
        (let result = spi_exchange e ch tx;
             e1 = recordTrigger (chipSelect ch False) (recordTrigger (chipSelect ch True) e)
         in case result of
              Inl er \<Rightarrow> (e1, Err er)
            | Inr rx \<Rightarrow> (recordTrigger (transferComplete ch (length rx)) e1, Ok rx)))"

definition spi_encodeConfigBlock :: "SpiEndpoint \<Rightarrow> bytes" where
  "spi_encodeConfigBlock = spi_EncodeConfig \<circ> spi_cfg"

definition spi_adoptConfigBlock :: "SpiEndpoint adopt" where
  "spi_adoptConfigBlock = adoptBlock spi_DecodeConfig SpiConfig_Validate spi_adopted"

definition spi_responseFor :: "Message \<Rightarrow> bytes \<Rightarrow> Message" where
  "spi_responseFor req body = responseWith req (FlagWrite) body"

definition spi_plainRequest :: "SpiEndpoint \<Rightarrow> Message \<Rightarrow> EVTDisposition \<Rightarrow> SpiEndpoint \<times> Message go" where
  "spi_plainRequest e req disp =
     (if \<not> Has (Control req) FlagWrite then (e, Err (ESpi ErrRequestMustWrite_spi))
      else if \<not> Channel_Valid (Channel disp) then (e, Err (ESpi ErrInvalidChannel))
      else
        (case spi_transfer e (Channel disp) (spi_DecodeTransferRequest (Body req)) of
           (e', r) \<Rightarrow> (e', andThen r (\<lambda>rx. Ok (spi_responseFor req (spi_EncodeTransferResponse rx))))))"

definition spi_HandleRequest :: "Server \<Rightarrow> SpiEndpoint \<Rightarrow> StreamID \<Rightarrow> Message \<Rightarrow> Server \<times> SpiEndpoint \<times> Message go" where
  "spi_HandleRequest s e rq req =
     endpointRequest (ESpi ErrWrongEndpoint_spi) spi_EVTClass spi_encodeConfigBlock spi_adoptConfigBlock
       (spi_responseFor req) (spi_plainRequest e req) s e (spi_addr e) rq req"

section \<open>Laws\<close>

interpretation spi_channel: body_codec encodeChannelConfig decodeChannelConfig "\<lambda>_. True"
  by unfold_locales (auto simp: decodeChannelConfig_def encodeChannelConfig_def channelConfigLen_def put16_def put32_def wire_simps)

lemma length_encodeChannelConfig [simp]: "length (encodeChannelConfig c) = 8"
  by (simp add: encodeChannelConfig_def)

interpretation spi_config: body_codec spi_EncodeConfig spi_DecodeConfig "\<lambda>_. True"
proof
  fix c :: SpiConfig
  obtain c0 c1 c2 c3 c4 c5 where c: "c = \<lparr>Channels = Six c0 c1 c2 c3 c4 c5\<rparr>" by (cases c; cases "Channels c") auto
  show "spi_DecodeConfig (spi_EncodeConfig c) = Ok c"
    by (simp add: c spi_EncodeConfig_def spi_DecodeConfig_def spi_configLen_def channelConfigLen_def MaxChannels_def
        channelAt_def slice_def spi_channel.dec_enc)
next
  fix b
  have "channelAt b i \<noteq> Panic" if "length b = 48" "i < 6" for i
    using that spi_channel.dec_no_panic by (auto simp: channelAt_def slice_def channelConfigLen_def)
  then show "spi_DecodeConfig b \<noteq> Panic"
    by (auto simp: spi_DecodeConfig_def andThen_eq_Panic_iff spi_configLen_def channelConfigLen_def MaxChannels_def)
qed

interpretation spi_ep: config_block spi_EncodeConfig spi_DecodeConfig SpiConfig_Validate spi_cfg spi_adopted
  by unfold_locales (simp add: spi_adopted_def)

lemma spi_adopted_addr [simp]: "spi_addr (fst (spi_adoptConfigBlock b e)) = spi_addr e"
  by (auto simp: spi_adoptConfigBlock_def adoptBlock_def spi_adopted_def split: outcome.split option.split)

lemmas spi_bodies = spi_EncodeTransferRequest_def spi_DecodeTransferRequest_def spi_EncodeTransferResponse_def
  spi_DecodeTransferResponse_def

lemma spi_plain_keeps: "spi_cfg (fst (spi_plainRequest e req disp)) = spi_cfg e \<and> spi_addr (fst (spi_plainRequest e req disp)) = spi_addr e"
  by (simp add: spi_plainRequest_def spi_transfer_def recordTrigger_def Let_def split: sum.split)

text \<open>A configured endpoint: its configuration is valid and is what the register map has.\<close>

definition spi_in_step :: "Server \<Rightarrow> SpiEndpoint \<Rightarrow> bool" where
  "spi_in_step s e \<longleftrightarrow> SpiConfig_Validate (spi_cfg e) = None \<and>
     synced (reencode spi_EncodeConfig spi_DecodeConfig) spi_encodeConfigBlock s (spi_addr e) e"

lemma spi_request_in_step:
  assumes "spi_HandleRequest s e rq req = (s', e', r)" "spi_in_step s e"
  shows "spi_in_step s' e' \<and> spi_addr e' = spi_addr e"
proof -
  have "SpiConfig_Validate (spi_cfg e') = None \<and>
    synced (reencode spi_EncodeConfig spi_DecodeConfig) (spi_EncodeConfig \<circ> spi_cfg) s' (spi_addr e) e' \<and> spi_addr e' = spi_addr e"
    by (rule spi_ep.ep.request_in_step [where I = "\<lambda>x. spi_addr x = spi_addr e",
          OF assms(1) [unfolded spi_HandleRequest_def spi_encodeConfigBlock_def spi_adoptConfigBlock_def]])
      (use assms(2) spi_adopted_addr spi_plain_keeps in
        \<open>auto simp: spi_in_step_def spi_encodeConfigBlock_def spi_adoptConfigBlock_def\<close>)
  then show ?thesis by (simp add: spi_in_step_def spi_encodeConfigBlock_def)
qed

text \<open>Configuring one channel leaves the others alone.\<close>

lemma SetChannelConfig_in_step:
  assumes "SetChannelConfig s e rq ch cc = (s', e', None)"
  shows "spi_in_step s' e' \<and> six_list (Channels (spi_cfg e')) = (six_list (Channels (spi_cfg e)))[unat ch := cc]"
proof -
  have ch: "unat ch < 6" using assms by (auto simp: SetChannelConfig_def Channel_Valid_def word_less_nat_alt split: if_splits)
  let ?c = "(spi_cfg e)\<lparr>Channels := six_put (unat ch) cc (Channels (spi_cfg e))\<rparr>"
  have "configureEndpoint SpiConfig_Validate spi_EncodeConfig spi_adopted s e (spi_addr e) rq ?c = (s', e', None)"
    using assms by (simp add: SetChannelConfig_def split: if_splits)
  note c = spi_ep.configure_in_step [OF this]
  then have "spi_addr e' = spi_addr e" by (simp add: spi_adopted_def)
  moreover have "SpiConfig_Validate (spi_cfg e') = None" "spi_cfg e' = ?c"
    "synced (reencode spi_EncodeConfig spi_DecodeConfig) (spi_EncodeConfig \<circ> spi_cfg) s' (spi_addr e) e'" using c by blast+
  ultimately show ?thesis using ch by (simp add: spi_in_step_def spi_encodeConfigBlock_def)
qed

section \<open>Properties\<close>

text \<open>An SPI transfer. A request that is no configuration request leaves the server and the configuration
  alone. Either it is rejected and nothing happens, or it is a write of a stream with access to
  a channel in use, the one its selector names: then that channel is selected and deselected
  exactly once, the answer of the channel's transport (or the echo) is the response and is
  reported last, with its length; when the transport fails only the two edges are reported.\<close>

theorem spi_request_transfers:
  assumes "spi_HandleRequest s e rq req = (s', e', r)" "Message_EVTSelector req \<noteq> 7"
  shows "s' = s \<and>
    ((\<exists>er. e' = e \<and> r = Err er) \<or>
     CanAccess (acl s) rq (spi_addr e) \<and> Has (Control req) FlagWrite \<and> Message_EVTSelector req \<le> 5 \<and>
     spi_Enabled (six_list (Channels (spi_cfg e)) ! unat (Message_EVTSelector req)) \<and>
     (let ch = Message_EVTSelector req; edges = [chipSelect ch True, chipSelect ch False] in
      case spi_exchange e ch (Body req) of
        Inl er \<Rightarrow> r = Err er \<and> e' = e\<lparr>spi_triggers := spi_triggers e @ edges\<rparr>
      | Inr rx \<Rightarrow> r = Ok (spi_responseFor req rx) \<and>
          e' = e\<lparr>spi_triggers := spi_triggers e @ edges @ [transferComplete ch (length rx)]\<rparr>))"
  using assms(1) unfolding spi_HandleRequest_def
proof (cases rule: endpointRequest_cases)
  case (plain disp)
  then show ?thesis
    using disposition_channel(2) [OF plain(4) [unfolded spi_EVTClass_def] plain(1)]
    by (auto simp: spi_plainRequest_def spi_transfer_def spi_bodies recordTrigger_def Let_def split: sum.splits if_splits)
qed (use assms(2) in auto)

text \<open>A server with an SPI endpoint whose channel 2 is in use, and a transfer of three octets on it.\<close>

definition spiRoot :: StreamID where "spiRoot = StreamID 2 0 0 0 0 1 0 1"

definition spiServer :: Server where
  "spiServer = fst (AddEndpoint (fst (ClaimRoot NewServer spiRoot)) spiRoot 4 EndpointTypeSPI)"

definition spiStarted :: "Server \<times> SpiEndpoint \<times> rcp_error option" where
  "spiStarted = SetChannelConfig spiServer (spi_NewEndpoint 4) spiRoot 2
     \<lparr>spi_Enabled = True, ClockHz = 1000000, spi_Mode = 3, InterTransferDelayMicros = 10\<rparr>"

definition spiTransfer :: Message where
  "spiTransfer = zeroMessage\<lparr>Kind := KindShort, ByteBusID := 4, Control := FlagWrite, EVT := 2, Body := [1, 2, 3]\<rparr>"

definition spiTransferred :: "Server \<times> SpiEndpoint \<times> Message go" where
  "spiTransferred = spi_HandleRequest (fst spiStarted) (fst (snd spiStarted)) spiRoot spiTransfer"

theorem spi_request_transfers_witness:
  "snd (snd spiTransferred) = Ok (spi_responseFor spiTransfer [1, 2, 3]) \<and>
   spi_triggers (fst (snd spiTransferred)) = [chipSelect 2 True, chipSelect 2 False, transferComplete 2 3] \<and>
   fst spiTransferred = fst spiStarted"
proof -
  have "Message_EVTSelector spiTransfer \<noteq> 7" "snd (snd spiTransferred) = Ok (spi_responseFor spiTransfer [1, 2, 3])"
    "spi_triggers (fst (snd spiTransferred)) = [chipSelect 2 True, chipSelect 2 False, transferComplete 2 3]"
    by code_simp+
  moreover have "spi_HandleRequest (fst spiStarted) (fst (snd spiStarted)) spiRoot spiTransfer =
     (fst spiTransferred, fst (snd spiTransferred), snd (snd spiTransferred))" by (simp add: spiTransferred_def)
  ultimately show ?thesis using spi_request_transfers by blast
qed

end
