(* ===== verification/Uart.thy ===== *)
theory Uart
  imports Ep_Config
begin

text \<open>
  The package \<open>uart\<close>: writes go to the transport, or loop back into the receive FIFO when there is
  none; reads take from the FIFO what is there, up to the size asked for. Each call is one step;
  the endpoint's mutex is not modelled.
\<close>

section \<open>Configuration\<close>

definition uart_EVTClass :: EVTClass where "uart_EVTClass = EVTClassConfigOnly"

definition Parity_Valid :: "u8 \<Rightarrow> bool" where "Parity_Valid p \<longleftrightarrow> p < 5"

definition StopBits_Valid :: "u8 \<Rightarrow> bool" where "StopBits_Valid s \<longleftrightarrow> s < 3"

record UartConfig =
  uart_Enabled :: bool
  uart_BaudRate :: u32
  DataBits :: u8
  uart_Parity :: u8
  uart_StopBits :: u8
  FlowControl :: bool
  ReadTimeoutMicros :: u32

definition zeroUartConfig :: UartConfig where
  "zeroUartConfig = \<lparr>uart_Enabled = False, uart_BaudRate = 0, DataBits = 0, uart_Parity = 0, uart_StopBits = 0,
     FlowControl = False, ReadTimeoutMicros = 0\<rparr>"

definition uart_configLen :: nat where "uart_configLen = 13"

definition UartConfig_Validate :: "UartConfig \<Rightarrow> rcp_error option" where
  "UartConfig_Validate c =
     (if \<not> uart_Enabled c then None
      else if uart_BaudRate c = 0 then Some (EUart ErrZeroBaudRate)
      else if DataBits c < 5 \<or> DataBits c > 9 then Some (EUart ErrInvalidDataBits)
      else if \<not> Parity_Valid (uart_Parity c) then Some (EUart ErrInvalidParity)
      else if \<not> StopBits_Valid (uart_StopBits c) then Some (EUart ErrInvalidStopBits)
      else None)"

definition uart_EncodeConfig :: "UartConfig \<Rightarrow> bytes" where
  "uart_EncodeConfig c = [if uart_Enabled c then 1 else 0] @ put32 (uart_BaudRate c) @
     [DataBits c, uart_Parity c, uart_StopBits c, if FlowControl c then 1 else 0] @ put32 (ReadTimeoutMicros c)"

definition uart_DecodeConfig :: "bytes \<Rightarrow> UartConfig go" where
  "uart_DecodeConfig b =
     (if length b < uart_configLen then Err (EUart ErrShortBuffer_uart)
      else if length b > uart_configLen then Err (EUart ErrTrailingBytes_uart)
      else andThen (idx b 0) (\<lambda>en. andThen (get32 b 1) (\<lambda>br. andThen (idx b 5) (\<lambda>db. andThen (idx b 6) (\<lambda>pa.
           andThen (idx b 7) (\<lambda>sb. andThen (idx b 8) (\<lambda>fc. andThen (get32 b 9) (\<lambda>t.
             Ok \<lparr>uart_Enabled = (en \<noteq> 0), uart_BaudRate = br, DataBits = db, uart_Parity = pa, uart_StopBits = sb,
                 FlowControl = (fc \<noteq> 0), ReadTimeoutMicros = t\<rparr>))))))))"

section \<open>Request and response bodies\<close>

definition uart_EncodeWriteRequest :: "bytes \<Rightarrow> bytes" where "uart_EncodeWriteRequest tx = tx"

definition uart_DecodeWriteRequest :: "bytes \<Rightarrow> bytes" where "uart_DecodeWriteRequest b = b"

text \<open>The count is cut to 16 bits.\<close>

definition uart_EncodeWriteResponse :: "nat \<Rightarrow> bytes" where
  "uart_EncodeWriteResponse n = put16 (word_of_nat n)"

definition uart_DecodeWriteResponse :: "bytes \<Rightarrow> nat go" where
  "uart_DecodeWriteResponse b =
     (if length b < 2 then Err (EUart ErrShortBuffer_uart)
      else if length b > 2 then Err (EUart ErrTrailingBytes_uart)
      else andThen (get16 b 0) (\<lambda>n. Ok (unat n)))"

definition readResponseHeaderLen :: nat where "readResponseHeaderLen = 1"

definition uart_EncodeReadResponse :: "bool \<Rightarrow> bytes \<Rightarrow> bytes" where
  "uart_EncodeReadResponse complete data = (if complete then 1 else 0) # data"

definition uart_DecodeReadResponse :: "bytes \<Rightarrow> (bool \<times> bytes) go" where
  "uart_DecodeReadResponse b =
     (if length b < readResponseHeaderLen then Err (EUart ErrShortBuffer_uart)
      else andThen (idx b 0) (\<lambda>c. andThen (slice b readResponseHeaderLen (length b)) (\<lambda>d. Ok (c \<noteq> 0, d))))"

section \<open>The endpoint\<close>

datatype UartTriggerKind = TriggerTXComplete | TriggerRXDataAvailable

record UartTriggerEvent =
  uart_TKind :: UartTriggerKind
  uart_ByteCount :: nat

record UartEndpoint =
  uart_addr :: ByteBusID
  uart_cfg :: UartConfig
  uart_transport :: "(bytes, nat) transport option"
  rxFIFO :: bytes
  uart_triggers :: "UartTriggerEvent list"

definition uart_NewEndpoint :: "ByteBusID \<Rightarrow> UartEndpoint" where
  "uart_NewEndpoint addr = \<lparr>uart_addr = addr, uart_cfg = zeroUartConfig, uart_transport = None, rxFIFO = [], uart_triggers = []\<rparr>"

definition uart_adopted :: "UartConfig \<Rightarrow> UartEndpoint \<Rightarrow> UartEndpoint" where
  "uart_adopted c e = e\<lparr>uart_cfg := c\<rparr>"

definition uart_Configure :: "Server \<Rightarrow> UartEndpoint \<Rightarrow> StreamID \<Rightarrow> UartConfig \<Rightarrow> Server \<times> UartEndpoint \<times> rcp_error option" where
  "uart_Configure s e rq c = configureEndpoint UartConfig_Validate uart_EncodeConfig uart_adopted s e (uart_addr e) rq c"

definition uart_SetTransport :: "UartEndpoint \<Rightarrow> (bytes, nat) transport option \<Rightarrow> UartEndpoint" where
  "uart_SetTransport e t = e\<lparr>uart_transport := t\<rparr>"

definition uart_Receive :: "UartEndpoint \<Rightarrow> bytes \<Rightarrow> UartEndpoint" where
  "uart_Receive e data =
     (if length data = 0 then e
      else e\<lparr>rxFIFO := rxFIFO e @ data,
             uart_triggers := uart_triggers e @ [\<lparr>uart_TKind = TriggerRXDataAvailable, uart_ByteCount = length data\<rparr>]\<rparr>)"

definition uart_DrainTriggers :: "UartEndpoint \<Rightarrow> UartEndpoint \<times> UartTriggerEvent list" where
  "uart_DrainTriggers e = (e\<lparr>uart_triggers := []\<rparr>, uart_triggers e)"

definition txComplete :: "nat \<Rightarrow> UartEndpoint \<Rightarrow> UartEndpoint" where
  "txComplete n e = e\<lparr>uart_triggers := uart_triggers e @ [\<lparr>uart_TKind = TriggerTXComplete, uart_ByteCount = n\<rparr>]\<rparr>"

definition uart_transmit :: "UartEndpoint \<Rightarrow> bytes \<Rightarrow> UartEndpoint \<times> nat go" where
  "uart_transmit e tx =
     (if \<not> uart_Enabled (uart_cfg e) then (e, Err (EUart ErrUARTNotConfigured))
      else
        (case uart_transport e of
           Some t \<Rightarrow> (case t tx of Inl er \<Rightarrow> (e, Err er) | Inr n \<Rightarrow> (txComplete n e, Ok n))
         | None \<Rightarrow> (txComplete (length tx) (uart_Receive e tx), Ok (length tx))))"

definition uart_read :: "UartEndpoint \<Rightarrow> u16 \<Rightarrow> UartEndpoint \<times> bool \<times> bytes" where
  "uart_read e want =
     (let n = (if unat want > length (rxFIFO e) then length (rxFIFO e) else unat want)
      in (e\<lparr>rxFIFO := drop n (rxFIFO e)\<rparr>, n = unat want, take n (rxFIFO e)))"

definition uart_encodeConfigBlock :: "UartEndpoint \<Rightarrow> bytes" where
  "uart_encodeConfigBlock = uart_EncodeConfig \<circ> uart_cfg"

definition uart_adoptConfigBlock :: "UartEndpoint adopt" where
  "uart_adoptConfigBlock = adoptBlock uart_DecodeConfig UartConfig_Validate uart_adopted"

definition uart_responseFor :: "Message \<Rightarrow> bytes \<Rightarrow> Message" where
  "uart_responseFor req body = responseWith req (Control req AND (FlagRead OR FlagWrite)) body"

definition uart_plainRequest :: "UartEndpoint \<Rightarrow> Message \<Rightarrow> EVTDisposition \<Rightarrow> UartEndpoint \<times> Message go" where
  "uart_plainRequest e req disp =
     (if Has (Control req) FlagWrite then
        (case uart_transmit e (uart_DecodeWriteRequest (Body req)) of
           (e', r) \<Rightarrow> (e', andThen r (\<lambda>n. Ok (uart_responseFor req (uart_EncodeWriteResponse n)))))
      else if Has (Control req) FlagRead then
        (if length (Body req) \<noteq> 0 then (e, Err (EUart ErrReadRequestNotPayloadLess))
         else if \<not> uart_Enabled (uart_cfg e) then (e, Err (EUart ErrUARTNotConfigured))
         else
           (case uart_read e (ReadSizeOrSegment req) of
              (e', complete, data) \<Rightarrow> (e', Ok (uart_responseFor req (uart_EncodeReadResponse complete data)))))
      else (e, Err (EUart ErrRequestMustReadOrWrite_uart)))"

definition uart_HandleRequest :: "Server \<Rightarrow> UartEndpoint \<Rightarrow> StreamID \<Rightarrow> Message \<Rightarrow> Server \<times> UartEndpoint \<times> Message go" where
  "uart_HandleRequest s e rq req =
     endpointRequest (EUart ErrWrongEndpoint_uart) uart_EVTClass uart_encodeConfigBlock uart_adoptConfigBlock
       (uart_responseFor req) (uart_plainRequest e req) s e (uart_addr e) rq req"

section \<open>Laws\<close>

interpretation uart_config: body_codec uart_EncodeConfig uart_DecodeConfig "\<lambda>_. True"
  by unfold_locales (auto simp: uart_DecodeConfig_def uart_EncodeConfig_def uart_configLen_def put16_def put32_def wire_simps)

interpretation uart_ep: config_block uart_EncodeConfig uart_DecodeConfig UartConfig_Validate uart_cfg uart_adopted
  by unfold_locales (simp add: uart_adopted_def)

lemma uart_adopted_addr [simp]: "uart_addr (fst (uart_adoptConfigBlock b e)) = uart_addr e"
  by (auto simp: uart_adoptConfigBlock_def adoptBlock_def uart_adopted_def split: outcome.split option.split)

interpretation uart_read_response: body_codec "\<lambda>(c, d). uart_EncodeReadResponse c d" uart_DecodeReadResponse "\<lambda>_. True"
  by unfold_locales (auto simp: uart_EncodeReadResponse_def uart_DecodeReadResponse_def readResponseHeaderLen_def wire_simps Suc_le_eq
      split: if_splits)

lemma uart_plain_keeps: "uart_cfg (fst (uart_plainRequest e req disp)) = uart_cfg e \<and> uart_addr (fst (uart_plainRequest e req disp)) = uart_addr e"
  by (simp add: uart_plainRequest_def uart_transmit_def txComplete_def uart_Receive_def uart_read_def Let_def
      split: sum.split option.split prod.split)

text \<open>A configured endpoint: its configuration is valid and is what the register map has.\<close>

definition uart_in_step :: "Server \<Rightarrow> UartEndpoint \<Rightarrow> bool" where
  "uart_in_step s e \<longleftrightarrow> UartConfig_Validate (uart_cfg e) = None \<and>
     synced (reencode uart_EncodeConfig uart_DecodeConfig) uart_encodeConfigBlock s (uart_addr e) e"

lemma uart_request_in_step:
  assumes "uart_HandleRequest s e rq req = (s', e', r)" "uart_in_step s e"
  shows "uart_in_step s' e' \<and> uart_addr e' = uart_addr e"
proof -
  have "UartConfig_Validate (uart_cfg e') = None \<and>
    synced (reencode uart_EncodeConfig uart_DecodeConfig) (uart_EncodeConfig \<circ> uart_cfg) s' (uart_addr e) e' \<and> uart_addr e' = uart_addr e"
    by (rule uart_ep.ep.request_in_step [where I = "\<lambda>x. uart_addr x = uart_addr e",
          OF assms(1) [unfolded uart_HandleRequest_def uart_encodeConfigBlock_def uart_adoptConfigBlock_def]])
      (use assms(2) uart_adopted_addr uart_plain_keeps in
        \<open>auto simp: uart_in_step_def uart_encodeConfigBlock_def uart_adoptConfigBlock_def\<close>)
  then show ?thesis by (simp add: uart_in_step_def uart_encodeConfigBlock_def)
qed

lemma uart_configure_in_step:
  "uart_Configure s e rq c = (s', e', None) \<Longrightarrow> uart_in_step s' e' \<and> uart_cfg e' = c \<and> uart_addr e' = uart_addr e"
  using uart_ep.configure_in_step [of s e "uart_addr e" rq c s' e']
  by (auto simp: uart_Configure_def uart_in_step_def uart_encodeConfigBlock_def uart_adopted_def)


lemma uart_adopt_rxFIFO: "rxFIFO (fst (uart_adoptConfigBlock b e)) = rxFIFO e"
  by (auto simp: uart_adoptConfigBlock_def adoptBlock_def uart_adopted_def split: outcome.split option.split)

section \<open>The octet stream\<close>

text \<open>
  A run of an endpoint with two logs: what has arrived (from outside, or looped back by a successful
  write without a transport) and what the responses to read requests have delivered. The server
  may change between calls.
\<close>

definition looped :: "UartEndpoint \<Rightarrow> Message \<Rightarrow> Message go \<Rightarrow> bytes" where
  "looped e req r =
     (case r of
        Ok _ \<Rightarrow> if Message_EVTSelector req \<noteq> 7 \<and> Has (Control req) FlagWrite \<and> uart_transport e = None then Body req else []
      | _ \<Rightarrow> [])"

definition deliveredBy :: "Message \<Rightarrow> Message go \<Rightarrow> bytes" where
  "deliveredBy req r =
     (case r of
        Ok resp \<Rightarrow>
          if Message_EVTSelector req \<noteq> 7 \<and> \<not> Has (Control req) FlagWrite
          then (case uart_DecodeReadResponse (Body resp) of Ok (_, data) \<Rightarrow> data | _ \<Rightarrow> [])
          else []
      | _ \<Rightarrow> [])"

inductive uart_run :: "bytes \<Rightarrow> bytes \<Rightarrow> UartEndpoint \<Rightarrow> bool" where
  start: "uart_run [] [] (uart_NewEndpoint addr)"
| arrival: "uart_run arrived delivered e \<Longrightarrow> uart_run (arrived @ data) delivered (uart_Receive e data)"
| request: "uart_run arrived delivered e \<Longrightarrow> uart_HandleRequest s e rq req = (s', e', r) \<Longrightarrow>
    uart_run (arrived @ looped e req r) (delivered @ deliveredBy req r) e'"
| configured: "uart_run arrived delivered e \<Longrightarrow> uart_Configure s e rq c = (s', e', err) \<Longrightarrow> uart_run arrived delivered e'"
| transport: "uart_run arrived delivered e \<Longrightarrow> uart_run arrived delivered (uart_SetTransport e t)"
| drained: "uart_run arrived delivered e \<Longrightarrow> uart_run arrived delivered (fst (uart_DrainTriggers e))"

lemma uart_plain_stream:
  assumes "uart_plainRequest e req disp = (e', r)" "Message_EVTSelector req \<noteq> 7"
  shows "rxFIFO e @ looped e req r = deliveredBy req r @ rxFIFO e'"
  using assms
  by (auto simp: uart_plainRequest_def uart_transmit_def txComplete_def uart_Receive_def uart_read_def looped_def deliveredBy_def
      uart_DecodeWriteRequest_def uart_responseFor_def responseWith_def uart_read_response.dec_enc [of "(c, d)" for c d, simplified] Let_def
      split: if_splits sum.splits option.splits)

lemma uart_request_stream:
  assumes "uart_HandleRequest s e rq req = (s', e', r)"
  shows "rxFIFO e @ looped e req r = deliveredBy req r @ rxFIFO e'"
  using assms unfolding uart_HandleRequest_def
proof (cases rule: endpointRequest_cases)
  case (config body)
  have "rxFIFO e' = rxFIFO e"
    by (rule uart_ep.ep.apply_keeps [where P = "\<lambda>x. rxFIFO x = rxFIFO e", OF config(2) [unfolded uart_encodeConfigBlock_def uart_adoptConfigBlock_def]])
      (simp_all add: uart_adopt_rxFIFO [unfolded uart_adoptConfigBlock_def])
  then show ?thesis using config(1) by (simp add: looped_def deliveredBy_def split: outcome.split)
next
  case (plain disp)
  then show ?thesis using uart_plain_stream by blast
qed (simp add: looped_def deliveredBy_def)

section \<open>Properties\<close>

text \<open>C34: the UART endpoint is a faithful octet stream. After any sequence of arrivals, requests,
  reconfigurations and transport changes, what has arrived is exactly what read responses have
  delivered followed by what is still in the FIFO: nothing is lost, repeated or reordered.\<close>

theorem uart_stream_in_order:
  assumes "uart_run arrived delivered e"
  shows "arrived = delivered @ rxFIFO e"
  using assms
proof (induction rule: uart_run.induct)
  case (request arrived delivered e s rq req s' e' r)
  then show ?case using uart_request_stream by simp
next
  case (configured arrived delivered e s rq c s' e' err)
  then have "rxFIFO e' = rxFIFO e"
    by (auto simp: uart_Configure_def configureEndpoint_def uart_adopted_def split: option.splits prod.splits)
  then show ?case using configured by simp
qed (auto simp: uart_NewEndpoint_def uart_Receive_def uart_SetTransport_def uart_DrainTriggers_def)

text \<open>A loopback endpoint: three octets are written, two are read.\<close>

definition uartRoot :: StreamID where "uartRoot = StreamID 2 0 0 0 0 1 0 1"

definition uartServer :: Server where
  "uartServer = fst (AddEndpoint (fst (ClaimRoot NewServer uartRoot)) uartRoot 5 EndpointTypeUART)"

definition uartConfig :: UartConfig where
  "uartConfig = zeroUartConfig\<lparr>uart_Enabled := True, uart_BaudRate := 9600, DataBits := 8\<rparr>"

definition uartWrite :: Message where
  "uartWrite = zeroMessage\<lparr>Kind := KindShort, ByteBusID := 5, Control := FlagWrite, Body := [1, 2, 3]\<rparr>"

definition uartRead :: Message where
  "uartRead = zeroMessage\<lparr>Kind := KindShort, ByteBusID := 5, Control := FlagRead, ReadSizeOrSegment := 2\<rparr>"

definition uartStarted :: "Server \<times> UartEndpoint \<times> rcp_error option" where
  "uartStarted = uart_Configure uartServer (uart_NewEndpoint 5) uartRoot uartConfig"

definition uartWritten :: "Server \<times> UartEndpoint \<times> Message go" where
  "uartWritten = uart_HandleRequest (fst uartStarted) (fst (snd uartStarted)) uartRoot uartWrite"

definition uartReading :: "Server \<times> UartEndpoint \<times> Message go" where
  "uartReading = uart_HandleRequest (fst uartWritten) (fst (snd uartWritten)) uartRoot uartRead"

theorem uart_stream_in_order_witness:
  "uart_run [1, 2, 3] [1, 2] (fst (snd uartReading)) \<and> rxFIFO (fst (snd uartReading)) = [3]"
proof -
  have cases: "uart_Configure uartServer (uart_NewEndpoint 5) uartRoot uartConfig = (fst uartStarted, fst (snd uartStarted), snd (snd uartStarted))"
    "uart_HandleRequest (fst uartStarted) (fst (snd uartStarted)) uartRoot uartWrite = (fst uartWritten, fst (snd uartWritten), snd (snd uartWritten))"
    "uart_HandleRequest (fst uartWritten) (fst (snd uartWritten)) uartRoot uartRead = (fst uartReading, fst (snd uartReading), snd (snd uartReading))"
    by (simp_all add: uartStarted_def uartWritten_def uartReading_def)
  note run = uart_run.request [OF uart_run.request [OF uart_run.configured [OF uart_run.start cases(1)] cases(2)] cases(3)]
  have eff: "snd (snd uartWritten) = Ok (uart_responseFor uartWrite [0, 3])" "snd (snd uartReading) = Ok (uart_responseFor uartRead [1, 1, 2])"
    "Message_EVTSelector uartWrite = 0" "Message_EVTSelector uartRead = 0" "Has (Control uartWrite) FlagWrite" "\<not> Has (Control uartRead) FlagWrite"
    by code_simp+
  have tr: "uart_transport (fst (snd uartStarted)) = None"
    by (simp add: uartStarted_def uart_Configure_def configureEndpoint_def uart_adopted_def uart_NewEndpoint_def split: option.split prod.split)
  have "looped (fst (snd uartStarted)) uartWrite (snd (snd uartWritten)) = [1, 2, 3]"
    "looped (fst (snd uartWritten)) uartRead (snd (snd uartReading)) = []"
    "deliveredBy uartWrite (snd (snd uartWritten)) = []" "deliveredBy uartRead (snd (snd uartReading)) = [1, 2]"
    unfolding eff(1,2) looped_def deliveredBy_def using eff(3-6) tr
    by (simp_all add: uart_responseFor_def responseWith_def uart_DecodeReadResponse_def readResponseHeaderLen_def uartWrite_def)
  then have "uart_run [1, 2, 3] [1, 2] (fst (snd uartReading))" using run by simp
  then show ?thesis using uart_stream_in_order by fastforce
qed

end
