(* ===== verification/Adc.thy ===== *)
theory Adc
  imports Ep_Config
begin

text \<open>
  The package \<open>adc\<close>: a measurement takes a number of samples, averages them and combines the average
  with the previous value. Each call is one step; the endpoint's mutex is not modelled. The
  transport is asked for one sample after the other: it is a function of the sample's index
  in the measurement.
\<close>

section \<open>Configuration\<close>

definition adc_EVTClass :: EVTClass where "adc_EVTClass = EVTClassConfigOnly"

definition MaxResolutionBits :: u8 where "MaxResolutionBits = 16"

definition CombineReplace :: u8 where "CombineReplace = 0"
definition CombineRollingAverage :: u8 where "CombineRollingAverage = 1"

definition CombineMode_Valid :: "u8 \<Rightarrow> bool" where "CombineMode_Valid m \<longleftrightarrow> m < 2"

definition TriggerModeOnDemand :: u8 where "TriggerModeOnDemand = 0"

definition TriggerMode_Valid :: "u8 \<Rightarrow> bool" where "TriggerMode_Valid m \<longleftrightarrow> m < 3"

record AdcConfig =
  adc_Enabled :: bool
  ResolutionBits :: u8
  SampleCount :: u8
  Combine :: u8
  adc_TriggerMode :: u8

definition zeroAdcConfig :: AdcConfig where
  "zeroAdcConfig = \<lparr>adc_Enabled = False, ResolutionBits = 0, SampleCount = 0, Combine = 0, adc_TriggerMode = 0\<rparr>"

definition adc_configLen :: nat where "adc_configLen = 5"

definition resolutionMask :: "u8 \<Rightarrow> u16" where
  "resolutionMask bits = (if bits \<ge> MaxResolutionBits then 0xFFFF else push_bit (unat bits) 1 - 1)"

definition AdcConfig_Validate :: "AdcConfig \<Rightarrow> rcp_error option" where
  "AdcConfig_Validate c =
     (if \<not> adc_Enabled c then None
      else if ResolutionBits c = 0 \<or> ResolutionBits c > MaxResolutionBits then Some (EAdc ErrInvalidResolution)
      else if SampleCount c = 0 then Some (EAdc ErrInvalidSampleCount)
      else if \<not> CombineMode_Valid (Combine c) then Some (EAdc ErrInvalidCombineMode)
      else if \<not> TriggerMode_Valid (adc_TriggerMode c) then Some (EAdc ErrInvalidTriggerMode)
      else None)"

definition adc_EncodeConfig :: "AdcConfig \<Rightarrow> bytes" where
  "adc_EncodeConfig c = [if adc_Enabled c then 1 else 0, ResolutionBits c, SampleCount c, Combine c, adc_TriggerMode c]"

definition adc_DecodeConfig :: "bytes \<Rightarrow> AdcConfig go" where
  "adc_DecodeConfig b =
     (if length b < adc_configLen then Err (EAdc ErrShortBuffer_adc)
      else if length b > adc_configLen then Err (EAdc ErrTrailingBytes_adc)
      else andThen (idx b 0) (\<lambda>en. andThen (idx b 1) (\<lambda>rb. andThen (idx b 2) (\<lambda>sc. andThen (idx b 3) (\<lambda>cm. andThen (idx b 4) (\<lambda>tm.
        Ok \<lparr>adc_Enabled = (en \<noteq> 0), ResolutionBits = rb, SampleCount = sc, Combine = cm, adc_TriggerMode = tm\<rparr>))))))"

section \<open>Values\<close>

definition adc_EncodeValue :: "u16 \<Rightarrow> bytes" where "adc_EncodeValue v = put16 v"

definition adc_DecodeValue :: "bytes \<Rightarrow> u16 go" where
  "adc_DecodeValue b =
     (if length b < 2 then Err (EAdc ErrShortBuffer_adc)
      else if length b > 2 then Err (EAdc ErrTrailingBytes_adc)
      else get16 b 0)"

section \<open>The endpoint\<close>

record AdcTriggerEvent =
  adc_Value :: u16

record AdcEndpoint =
  adc_addr :: ByteBusID
  adc_cfg :: AdcConfig
  adc_transport :: "(nat, u16) transport option"
  adc_value :: u16
  adc_triggers :: "AdcTriggerEvent list"

definition adc_NewEndpoint :: "ByteBusID \<Rightarrow> AdcEndpoint" where
  "adc_NewEndpoint addr = \<lparr>adc_addr = addr, adc_cfg = zeroAdcConfig, adc_transport = None, adc_value = 0, adc_triggers = []\<rparr>"

text \<open>\<open>Configure\<close> cuts the stored value to the new resolution; configuration access does not.\<close>

definition adc_configured :: "AdcConfig \<Rightarrow> AdcEndpoint \<Rightarrow> AdcEndpoint" where
  "adc_configured c e = e\<lparr>adc_cfg := c, adc_value := adc_value e AND resolutionMask (ResolutionBits c)\<rparr>"

definition adc_adopted :: "AdcConfig \<Rightarrow> AdcEndpoint \<Rightarrow> AdcEndpoint" where
  "adc_adopted c e = e\<lparr>adc_cfg := c\<rparr>"

definition adc_Configure :: "Server \<Rightarrow> AdcEndpoint \<Rightarrow> StreamID \<Rightarrow> AdcConfig \<Rightarrow> Server \<times> AdcEndpoint \<times> rcp_error option" where
  "adc_Configure s e rq c = configureEndpoint AdcConfig_Validate adc_EncodeConfig adc_configured s e (adc_addr e) rq c"

definition adc_SetTransport :: "AdcEndpoint \<Rightarrow> (nat, u16) transport option \<Rightarrow> AdcEndpoint" where
  "adc_SetTransport e t = e\<lparr>adc_transport := t\<rparr>"

definition adc_DrainTriggers :: "AdcEndpoint \<Rightarrow> AdcEndpoint \<times> AdcTriggerEvent list" where
  "adc_DrainTriggers e = (e\<lparr>adc_triggers := []\<rparr>, adc_triggers e)"

text \<open>The sampling loop: \<open>i\<close> samples taken, \<open>n\<close> to go. Without a transport every sample is zero.\<close>

definition adc_sample :: "(nat, u16) transport option \<Rightarrow> (nat, u16) transport" where
  "adc_sample t i = (case t of None \<Rightarrow> Inr 0 | Some f \<Rightarrow> f i)"

fun sampleSum :: "(nat, u16) transport \<Rightarrow> u16 \<Rightarrow> nat \<Rightarrow> nat \<Rightarrow> u32 \<Rightarrow> u32 go" where
  "sampleSum f m i 0 acc1 = Ok acc1"
| "sampleSum f m i (Suc n) acc1 =
     (case f i of
        Inl er \<Rightarrow> Err er
      | Inr raw \<Rightarrow> sampleSum f m (Suc i) n (acc1 + (ucast raw AND ucast m)))"

definition adc_combine :: "u8 \<Rightarrow> u16 \<Rightarrow> u16 \<Rightarrow> u16 go" where
  "adc_combine mode prev avg =
     (if mode = CombineReplace then Ok avg
      else if mode = CombineRollingAverage then Ok (ucast ((ucast prev + ucast avg :: u32) div 2))
      else Err (EAdc ErrInvalidCombineMode))"

definition adc_Trigger :: "AdcEndpoint \<Rightarrow> AdcEndpoint \<times> u16 go" where
  "adc_Trigger e =
     (let c = adc_cfg e; m = resolutionMask (ResolutionBits c) in
      if \<not> adc_Enabled c then (e, Err (EAdc ErrChannelNotConfigured_adc))
      else
        (case andThen (sampleSum (adc_sample (adc_transport e)) m 0 (unat (SampleCount c)) 0) (\<lambda>acc1.
             if SampleCount c = 0 then Panic
             else adc_combine (Combine c) (adc_value e) (ucast (acc1 div ucast (SampleCount c)))) of
           Err er \<Rightarrow> (e, Err er)
         | Panic \<Rightarrow> (e, Panic)
         | Ok v \<Rightarrow> (let final = v AND m in
             (e\<lparr>adc_value := final, adc_triggers := adc_triggers e @ [\<lparr>adc_Value = final\<rparr>]\<rparr>, Ok final))))"

definition adc_encodeConfigBlock :: "AdcEndpoint \<Rightarrow> bytes" where
  "adc_encodeConfigBlock = adc_EncodeConfig \<circ> adc_cfg"

definition adc_adoptConfigBlock :: "AdcEndpoint adopt" where
  "adc_adoptConfigBlock = adoptBlock adc_DecodeConfig AdcConfig_Validate adc_adopted"

definition adc_responseFor :: "Message \<Rightarrow> bytes \<Rightarrow> Message" where
  "adc_responseFor req body = responseWith req (Control req AND (FlagRead OR FlagWrite)) body"

definition adc_measureAndRespond :: "AdcEndpoint \<Rightarrow> Message \<Rightarrow> AdcEndpoint \<times> Message go" where
  "adc_measureAndRespond e req =
     (case adc_Trigger e of (e', r) \<Rightarrow> (e', andThen r (\<lambda>v. Ok (adc_responseFor req (adc_EncodeValue v)))))"

definition adc_plainRequest :: "AdcEndpoint \<Rightarrow> Message \<Rightarrow> EVTDisposition \<Rightarrow> AdcEndpoint \<times> Message go" where
  "adc_plainRequest e req disp =
     (if Has (Control req) FlagWrite then adc_measureAndRespond e req
      else if Has (Control req) FlagRead then
        (if adc_TriggerMode (adc_cfg e) = TriggerModeOnDemand then adc_measureAndRespond e req
         else if \<not> adc_Enabled (adc_cfg e) then (e, Err (EAdc ErrChannelNotConfigured_adc))
         else (e, Ok (adc_responseFor req (adc_EncodeValue (adc_value e)))))
      else (e, Err (EAdc ErrRequestMustReadOrWrite_adc)))"

definition adc_HandleRequest :: "Server \<Rightarrow> AdcEndpoint \<Rightarrow> StreamID \<Rightarrow> Message \<Rightarrow> Server \<times> AdcEndpoint \<times> Message go" where
  "adc_HandleRequest s e rq req =
     endpointRequest (EAdc ErrWrongEndpoint_adc) adc_EVTClass adc_encodeConfigBlock adc_adoptConfigBlock
       (adc_responseFor req) (adc_plainRequest e req) s e (adc_addr e) rq req"

section \<open>Laws\<close>

interpretation adc_config: body_codec adc_EncodeConfig adc_DecodeConfig "\<lambda>_. True"
  by unfold_locales (auto simp: adc_DecodeConfig_def adc_EncodeConfig_def adc_configLen_def put16_def put32_def wire_simps)

interpretation adc_ep: config_block adc_EncodeConfig adc_DecodeConfig AdcConfig_Validate adc_cfg adc_adopted
  by unfold_locales (simp add: adc_adopted_def)

lemma adc_adopted_addr [simp]: "adc_addr (fst (adc_adoptConfigBlock b e)) = adc_addr e"
  by (auto simp: adc_adoptConfigBlock_def adoptBlock_def adc_adopted_def split: outcome.split option.split)

interpretation adc_conf: config_block adc_EncodeConfig adc_DecodeConfig AdcConfig_Validate adc_cfg adc_configured
  by unfold_locales (simp add: adc_configured_def)

lemma adc_Trigger_keeps: "adc_cfg (fst (adc_Trigger e)) = adc_cfg e \<and> adc_addr (fst (adc_Trigger e)) = adc_addr e"
  by (simp add: adc_Trigger_def Let_def split: outcome.split)

lemma adc_plain_keeps: "adc_cfg (fst (adc_plainRequest e req disp)) = adc_cfg e \<and> adc_addr (fst (adc_plainRequest e req disp)) = adc_addr e"
  using adc_Trigger_keeps [of e] by (auto simp: adc_plainRequest_def adc_measureAndRespond_def split: prod.split)

text \<open>A configured endpoint: its configuration is valid and is what the register map has.\<close>

definition adc_in_step :: "Server \<Rightarrow> AdcEndpoint \<Rightarrow> bool" where
  "adc_in_step s e \<longleftrightarrow> AdcConfig_Validate (adc_cfg e) = None \<and>
     synced (reencode adc_EncodeConfig adc_DecodeConfig) adc_encodeConfigBlock s (adc_addr e) e"

lemma adc_request_in_step:
  assumes "adc_HandleRequest s e rq req = (s', e', r)" "adc_in_step s e"
  shows "adc_in_step s' e' \<and> adc_addr e' = adc_addr e"
proof -
  have "AdcConfig_Validate (adc_cfg e') = None \<and>
    synced (reencode adc_EncodeConfig adc_DecodeConfig) (adc_EncodeConfig \<circ> adc_cfg) s' (adc_addr e) e' \<and> adc_addr e' = adc_addr e"
    by (rule adc_ep.ep.request_in_step [where I = "\<lambda>x. adc_addr x = adc_addr e",
          OF assms(1) [unfolded adc_HandleRequest_def adc_encodeConfigBlock_def adc_adoptConfigBlock_def]])
      (use assms(2) adc_adopted_addr adc_plain_keeps in
        \<open>auto simp: adc_in_step_def adc_encodeConfigBlock_def adc_adoptConfigBlock_def\<close>)
  then show ?thesis by (simp add: adc_in_step_def adc_encodeConfigBlock_def)
qed

lemma adc_configure_in_step:
  "adc_Configure s e rq c = (s', e', None) \<Longrightarrow> adc_in_step s' e' \<and> adc_cfg e' = c \<and> adc_addr e' = adc_addr e"
  using adc_conf.configure_in_step [of s e "adc_addr e" rq c s' e']
  by (auto simp: adc_Configure_def adc_in_step_def adc_encodeConfigBlock_def adc_configured_def)

text \<open>The mask is the largest value of the resolution.\<close>

lemma resolutionMask_mask: "resolutionMask bits = (if bits \<ge> 16 then mask 16 else mask (unat bits))"
  by (simp add: resolutionMask_def MaxResolutionBits_def mask_eq_exp_minus_1 push_bit_of_1)

lemma and_resolutionMask: "v \<le> resolutionMask bits \<Longrightarrow> v AND resolutionMask bits = v"
proof -
  assume le: "v \<le> resolutionMask bits"
  have *: "v AND mask k = v" if "v \<le> mask k" "k \<le> 16" for k
  proof (cases "k = 16")
    case False
    then have "(2 :: u16) ^ k \<noteq> 0" using that by simp
    then have "unat (2 ^ k - 1 :: u16) = unat (2 ^ k :: u16) - 1" "0 < unat (2 ^ k :: u16)"
      using unat_minus_one unat_gt_0 by blast+
    then have "v < 2 ^ k" using that(1) by (simp add: mask_eq_exp_minus_1 word_le_nat_alt word_less_nat_alt)
    then show ?thesis unfolding take_bit_eq_mask [symmetric] take_bit_eq_mod by (rule mod_word_less)
  qed (use take_bit_length_eq [of v] in \<open>simp add: take_bit_eq_mask\<close>)
  show ?thesis
    using le * [of 16] * [of "unat bits"] by (auto simp: resolutionMask_mask word_le_nat_alt not_le split: if_splits)
qed

lemma masked_ucast: "(ucast raw AND ucast m :: u32) = ucast (raw AND m :: u16)"
  by (rule bit_word_eqI) (auto simp: bit_simps)

lemma unat_u16_less: "unat (w :: u16) < 65536"
  using unsigned_less [of w] by simp

lemma unat_u32_of_u16 [simp]: "unat (ucast (w :: u16) :: u32) = unat w"
  using unat_u16_less [of w] by (simp add: unsigned_ucast_eq take_bit_nat_eq_self_iff)

text \<open>The loop adds up the masked samples; with at most 255 of them nothing wraps.\<close>

definition maskedSum :: "(nat \<Rightarrow> u16) \<Rightarrow> u16 \<Rightarrow> nat \<Rightarrow> nat \<Rightarrow> nat" where
  "maskedSum raw m i n = (\<Sum>k\<leftarrow>[i..<i + n]. unat (raw k AND m))"

lemma maskedSum_Suc: "maskedSum raw m i (Suc n) = unat (raw i AND m) + maskedSum raw m (Suc i) n"
  unfolding maskedSum_def by (subst upt_conv_Cons) simp_all

lemma maskedSum_le: "maskedSum raw m i n \<le> n * unat m"
proof -
  have "unat (raw k AND m) \<le> unat m" for k using word_and_le1 [of "raw k" m] by (simp add: word_le_nat_alt)
  then have "maskedSum raw m i n \<le> (\<Sum>k\<leftarrow>[i..<i + n]. unat m)" unfolding maskedSum_def by (rule sum_list_mono)
  then show ?thesis by (simp add: sum_list_triv)
qed

lemma sampleSum_eq:
  assumes "\<And>k. i \<le> k \<Longrightarrow> k < i + n \<Longrightarrow> f k = Inr (raw k)" "unat acc + n * 65535 < 2 ^ 32"
  shows "\<exists>acc1. sampleSum f m i n acc = Ok acc1 \<and> unat acc1 = unat acc + maskedSum raw m i n"
  using assms
proof (induction n arbitrary: i acc)
  case 0
  then show ?case by (simp add: maskedSum_def)
next
  case (Suc n)
  let ?s = "acc + ucast (raw i AND m) :: u32"
  have le: "unat (raw i AND m) \<le> 65535" using unat_u16_less [of "raw i AND m"] by simp
  have u: "unat ?s = unat acc + unat (raw i AND m)"
    using le Suc.prems(2) by (simp add: unat_word_ariths)
  have "\<exists>acc1. sampleSum f m (Suc i) n ?s = Ok acc1 \<and> unat acc1 = unat ?s + maskedSum raw m (Suc i) n"
    by (rule Suc.IH) (use Suc.prems le u in auto)
  then show ?case using Suc.prems(1) [of i] u by (simp add: masked_ucast maskedSum_Suc add.assoc)
qed

section \<open>Properties\<close>

text \<open>The mean of the masked samples, and what the combining rule makes of it: the specification over the naturals.\<close>

definition adc_mean :: "AdcConfig \<Rightarrow> (nat \<Rightarrow> u16) \<Rightarrow> nat" where
  "adc_mean c raw = maskedSum raw (resolutionMask (ResolutionBits c)) 0 (unat (SampleCount c)) div unat (SampleCount c)"

lemma unat_u8_less: "unat (w :: u8) < 256"
  using unsigned_less [of w] by simp

lemma adc_mean_le: "SampleCount c \<noteq> 0 \<Longrightarrow> adc_mean c raw \<le> unat (resolutionMask (ResolutionBits c))"
  using maskedSum_le [of raw "resolutionMask (ResolutionBits c)" 0 "unat (SampleCount c)"]
  by (simp add: adc_mean_def div_le_mono flip: unat_gt_0) (metis div_le_mono nonzero_mult_div_cancel_left less_numeral_extra(3))

lemma unat_mean: "unat (ucast ((ucast a + ucast b :: u32) div 2) :: u16) = (unat (a :: u16) + unat (b :: u16)) div 2"
  using unat_u16_less [of a] unat_u16_less [of b]
  by (simp add: unsigned_ucast_eq unat_div unat_word_ariths take_bit_nat_eq_self_iff)

text \<open>What an ADC measurement computes. With a valid configuration and a transport that answers every
  sample, a measurement takes exactly the configured number of samples; the new value is the
  integer mean of the samples cut to the resolution, or the integer mean of that and the previous
  value, computed without any wrap-around, and is within the resolution; it is stored, reported
  once and returned.\<close>

theorem adc_measurement:
  assumes "AdcConfig_Validate (adc_cfg e) = None" "adc_Enabled (adc_cfg e)"
    and "\<forall>i < unat (SampleCount (adc_cfg e)). adc_sample (adc_transport e) i = Inr (raw i)"
    and "adc_value e \<le> resolutionMask (ResolutionBits (adc_cfg e))"
  shows "\<exists>v. adc_Trigger e = (e\<lparr>adc_value := v, adc_triggers := adc_triggers e @ [\<lparr>adc_Value = v\<rparr>]\<rparr>, Ok v) \<and>
    v \<le> resolutionMask (ResolutionBits (adc_cfg e)) \<and>
    unat v = (if Combine (adc_cfg e) = CombineReplace then adc_mean (adc_cfg e) raw
              else (unat (adc_value e) + adc_mean (adc_cfg e) raw) div 2)"
proof -
  let ?c = "adc_cfg e"
  let ?m = "resolutionMask (ResolutionBits ?c)"
  have sc: "SampleCount ?c \<noteq> 0" and cm: "Combine ?c = CombineReplace \<or> Combine ?c = CombineRollingAverage"
    using assms(1,2) word_of_nat_below [of "Combine ?c" 2]
    by (auto simp: AdcConfig_Validate_def CombineMode_Valid_def CombineReplace_def CombineRollingAverage_def word_less_nat_alt
        less_2_cases_iff split: if_splits)
  obtain acc where acc: "sampleSum (adc_sample (adc_transport e)) ?m 0 (unat (SampleCount ?c)) 0 = Ok acc"
      "unat acc = maskedSum raw ?m 0 (unat (SampleCount ?c))"
    using sampleSum_eq [of 0 "unat (SampleCount ?c)" "adc_sample (adc_transport e)" raw 0 ?m] assms(3)
      unat_u8_less [of "SampleCount ?c"] by auto
  let ?avg = "ucast (acc div ucast (SampleCount ?c)) :: u16"
  have sc32: "unat (ucast (SampleCount ?c) :: u32) = unat (SampleCount ?c)"
    using unat_u8_less [of "SampleCount ?c"] by (simp add: unsigned_ucast_eq take_bit_nat_eq_self_iff)
  have "unat (acc div ucast (SampleCount ?c)) = adc_mean ?c raw" by (simp add: unat_div acc(2) sc32 adc_mean_def)
  moreover have mean: "adc_mean ?c raw < 65536" using adc_mean_le [OF sc, of raw] unat_u16_less [of ?m] by linarith
  ultimately have avg: "unat ?avg = adc_mean ?c raw" by (simp add: unsigned_ucast_eq take_bit_nat_eq_self_iff)
  define v where "v = (if Combine ?c = CombineReplace then ?avg else ucast ((ucast (adc_value e) + ucast ?avg :: u32) div 2))"
  have roll: "unat (ucast ((ucast (adc_value e) + ucast ?avg :: u32) div 2) :: u16) = (unat (adc_value e) + adc_mean ?c raw) div 2"
    unfolding unat_mean avg ..
  have uv: "unat v = (if Combine ?c = CombineReplace then adc_mean ?c raw else (unat (adc_value e) + adc_mean ?c raw) div 2)"
    using avg roll by (simp add: v_def)
  then have "v \<le> ?m" using adc_mean_le [OF sc, of raw] assms(4) by (auto simp: word_le_nat_alt)
  moreover have "adc_combine (Combine ?c) (adc_value e) ?avg = Ok v" using cm by (auto simp: adc_combine_def v_def)
  ultimately have "adc_Trigger e = (e\<lparr>adc_value := v, adc_triggers := adc_triggers e @ [\<lparr>adc_Value = v\<rparr>]\<rparr>, Ok v)"
    using assms(2) acc(1) sc by (simp add: adc_Trigger_def Let_def and_resolutionMask)
  then show ?thesis using \<open>v \<le> ?m\<close> uv by blast
qed

text \<open>An endpoint that averages two samples of eight bits with its previous value.\<close>

definition adcSamples :: "nat \<Rightarrow> u16" where "adcSamples i = (if i = 0 then 0x1F0 else 0x10)"

definition adcEndpoint :: AdcEndpoint where
  "adcEndpoint = \<lparr>adc_addr = 6, adc_cfg = \<lparr>adc_Enabled = True, ResolutionBits = 8, SampleCount = 2, Combine = CombineRollingAverage, adc_TriggerMode = 1\<rparr>,
     adc_transport = Some (\<lambda>i. Inr (adcSamples i)), adc_value = 0x20, adc_triggers = []\<rparr>"

theorem adc_measurement_witness:
  "\<exists>v. adc_Trigger adcEndpoint = (adcEndpoint\<lparr>adc_value := v, adc_triggers := [\<lparr>adc_Value = v\<rparr>]\<rparr>, Ok v) \<and> v = 0x50"
proof -
  have "AdcConfig_Validate (adc_cfg adcEndpoint) = None" "adc_Enabled (adc_cfg adcEndpoint)"
    "adc_value adcEndpoint \<le> resolutionMask (ResolutionBits (adc_cfg adcEndpoint))"
    "adc_triggers adcEndpoint = []" "Combine (adc_cfg adcEndpoint) \<noteq> CombineReplace"
    "(unat (adc_value adcEndpoint) + adc_mean (adc_cfg adcEndpoint) adcSamples) div 2 = 80" by code_simp+
  moreover have "\<forall>i < unat (SampleCount (adc_cfg adcEndpoint)). adc_sample (adc_transport adcEndpoint) i = Inr (adcSamples i)"
    by (simp add: adcEndpoint_def adc_sample_def)
  ultimately obtain v where v: "adc_Trigger adcEndpoint = (adcEndpoint\<lparr>adc_value := v, adc_triggers := [] @ [\<lparr>adc_Value = v\<rparr>]\<rparr>, Ok v)"
    "unat v = 80"
    using adc_measurement [of adcEndpoint adcSamples] by auto
  have "v = 0x50" by (rule unsigned_word_eqI [where ?'a = nat]) (simp add: v(2))
  with v(1) show ?thesis by simp
qed

text \<open>Configuration access leaves the stored value as it is. After a configuration request of any content,
  a read in a mode without measurement on demand reports the value stored before, although
  the new resolution may be smaller than that value.\<close>

theorem adc_access_keeps_wide_value:
  assumes "adc_HandleRequest s e rq req = (s', e', r)" "Message_EVTSelector req = 7"
    and "adc_HandleRequest s' e' rq' rd = (s'', e'', Ok resp)" "Message_EVTSelector rd \<noteq> 7"
    and "\<not> Has (Control rd) FlagWrite" "adc_TriggerMode (adc_cfg e') \<noteq> TriggerModeOnDemand"
  shows "adc_value e' = adc_value e \<and> Body resp = adc_EncodeValue (adc_value e)"
proof -
  have "adc_value e' = adc_value e"
    using assms(1) unfolding adc_HandleRequest_def
  proof (cases rule: endpointRequest_cases)
    case (config body)
    show ?thesis
      by (rule adc_ep.ep.apply_keeps [where P = "\<lambda>x. adc_value x = adc_value e",
            OF config(2) [unfolded adc_encodeConfigBlock_def adc_adoptConfigBlock_def]])
        (auto simp: adoptBlock_def adc_adopted_def split: outcome.split option.split)
  qed (use assms(2) in auto)
  moreover have "Body resp = adc_EncodeValue (adc_value e')"
    using assms(3) unfolding adc_HandleRequest_def
  proof (cases rule: endpointRequest_cases)
    case (plain disp)
    then show ?thesis using assms(5,6) by (auto simp: adc_plainRequest_def adc_responseFor_def responseWith_def split: if_splits)
  qed (use assms(4) in auto)
  ultimately show ?thesis by simp
qed

text \<open>A value of 16 bits survives the change of the resolution to 8 bits.\<close>

definition adcRoot :: StreamID where "adcRoot = StreamID 2 0 0 0 0 1 0 1"

definition adcServer :: Server where
  "adcServer = fst (AddEndpoint (fst (ClaimRoot NewServer adcRoot)) adcRoot 6 EndpointTypeADC)"

definition adcWide :: AdcEndpoint where
  "adcWide = adcEndpoint\<lparr>adc_cfg := (adc_cfg adcEndpoint)\<lparr>ResolutionBits := 16\<rparr>, adc_value := 0xABCD\<rparr>"

definition adcNarrow :: Message where
  "adcNarrow = zeroMessage\<lparr>Kind := KindShort, ByteBusID := 6, Control := FlagWrite, EVT := 7, Body := EncodeConfigRequestBody 1 [8]\<rparr>"

definition adcRead :: Message where
  "adcRead = zeroMessage\<lparr>Kind := KindShort, ByteBusID := 6, Control := FlagRead\<rparr>"

definition adcNarrowed :: "Server \<times> AdcEndpoint \<times> Message go" where
  "adcNarrowed = adc_HandleRequest adcServer adcWide adcRoot adcNarrow"

definition adcReading :: "Server \<times> AdcEndpoint \<times> Message go" where
  "adcReading = adc_HandleRequest (fst adcNarrowed) (fst (snd adcNarrowed)) adcRoot adcRead"

theorem adc_access_keeps_wide_value_witness:
  "ResolutionBits (adc_cfg (fst (snd adcNarrowed))) = 8 \<and> snd (snd adcReading) = Ok (adc_responseFor adcRead [0xAB, 0xCD]) \<and>
   adc_value (fst (snd adcNarrowed)) = 0xABCD"
proof -
  have "adc_HandleRequest adcServer adcWide adcRoot adcNarrow = (fst adcNarrowed, fst (snd adcNarrowed), snd (snd adcNarrowed))"
    by (simp add: adcNarrowed_def)
  moreover have r: "snd (snd adcReading) = Ok (adc_responseFor adcRead [0xAB, 0xCD])" "Message_EVTSelector adcNarrow = 7"
    "Message_EVTSelector adcRead \<noteq> 7" "\<not> Has (Control adcRead) FlagWrite"
    "adc_TriggerMode (adc_cfg (fst (snd adcNarrowed))) \<noteq> TriggerModeOnDemand" "adc_value adcWide = 0xABCD"
    "ResolutionBits (adc_cfg (fst (snd adcNarrowed))) = 8" by code_simp+
  moreover have "adc_HandleRequest (fst adcNarrowed) (fst (snd adcNarrowed)) adcRoot adcRead =
    (fst adcReading, fst (snd adcReading), Ok (adc_responseFor adcRead [0xAB, 0xCD]))"
    using r(1) by (metis adcReading_def prod.collapse)
  ultimately show ?thesis using adc_access_keeps_wide_value by metis
qed

end
