(* ===== verification/Can.thy ===== *)
theory Can
  imports Ep_Config
begin

text \<open>
  The package \<open>can\<close>: frames of three formats with their checks and codec, and an endpoint that hands
  valid frames to its transport and reports the frame received last. Each call is one step; the
  endpoint's mutex is not modelled.
\<close>

section \<open>Frames\<close>

definition can_EVTClass :: EVTClass where "can_EVTClass = EVTClassConfigOnly"

type_synonym Format = u8

definition FormatClassical :: Format where "FormatClassical = 0"
definition FormatFD :: Format where "FormatFD = 1"
definition FormatXL :: Format where "FormatXL = 2"

lemmas can_formats = FormatClassical_def FormatFD_def FormatXL_def

definition Format_Valid :: "Format \<Rightarrow> bool" where "Format_Valid f \<longleftrightarrow> f < 3"

definition MaxPayload :: "Format \<Rightarrow> nat" where
  "MaxPayload f = (if f = FormatClassical then 8 else if f = FormatFD then 64 else if f = FormatXL then 2048 else 0)"

record XLHeader =
  SDT :: u8
  VCID :: u8
  AF :: u32

definition zeroXL :: XLHeader where "zeroXL = \<lparr>SDT = 0, VCID = 0, AF = 0\<rparr>"

record CanFrame =
  can_Format :: Format
  Extended :: bool
  can_ID :: u32
  BitRateSwitch :: bool
  XL :: XLHeader
  can_Data :: bytes

definition standardIDMax :: u32 where "standardIDMax = 0x7FF"
definition extendedIDMax :: u32 where "extendedIDMax = 0x1FFFFFFF"

definition CanFrame_Validate :: "CanFrame \<Rightarrow> rcp_error option" where
  "CanFrame_Validate f =
     (if \<not> Format_Valid (can_Format f) then Some (ECan ErrInvalidFormat)
      else if can_ID f > (if Extended f then extendedIDMax else standardIDMax) then Some (ECan ErrIDOutOfRange)
      else if length (can_Data f) > MaxPayload (can_Format f) then Some (ECan ErrPayloadTooLarge)
      else if can_Format f = FormatClassical \<and> BitRateSwitch f then Some (ECan ErrBitRateSwitchNotSupported)
      else if can_Format f = FormatClassical \<and> XL f \<noteq> zeroXL then Some (ECan ErrXLHeaderNotSupported)
      else if can_Format f = FormatFD \<and> XL f \<noteq> zeroXL then Some (ECan ErrXLHeaderNotSupported)
      else None)"

definition flagExtended :: u8 where "flagExtended = 1"
definition flagBitRateSwitch :: u8 where "flagBitRateSwitch = 2"

definition frameHeaderLen :: nat where "frameHeaderLen = 6"
definition xlHeaderLen :: nat where "xlHeaderLen = 6"
definition can_dataLenFieldLen :: nat where "can_dataLenFieldLen = 2"

lemmas can_lens = frameHeaderLen_def xlHeaderLen_def can_dataLenFieldLen_def

text \<open>The length of the data is cut to 16 bits.\<close>

definition can_EncodeFrame :: "CanFrame \<Rightarrow> bytes" where
  "can_EncodeFrame f =
     [can_Format f, (if Extended f then flagExtended else 0) OR (if BitRateSwitch f then flagBitRateSwitch else 0)] @
     put32 (can_ID f) @
     (if can_Format f = FormatXL then [SDT (XL f), VCID (XL f)] @ put32 (AF (XL f)) else []) @
     put16 (word_of_nat (length (can_Data f))) @ can_Data f"

definition can_xlHeader :: "bytes \<Rightarrow> XLHeader go" where
  "can_xlHeader b = andThen (idx b frameHeaderLen) (\<lambda>sdt. andThen (idx b (frameHeaderLen + 1)) (\<lambda>vcid.
     andThen (get32 b (frameHeaderLen + 2)) (\<lambda>af. Ok \<lparr>SDT = sdt, VCID = vcid, AF = af\<rparr>)))"

text \<open>The data length, the data and the end of the buffer, from offset \<open>off\<close> on.\<close>

definition can_payload :: "bytes \<Rightarrow> nat \<Rightarrow> bytes go" where
  "can_payload b off =
     (if length b < off + can_dataLenFieldLen then Err (ECan ErrShortBuffer_can)
      else andThen (get16 b off) (\<lambda>dataLen.
        let off' = off + can_dataLenFieldLen in
        if length b < off' + unat dataLen then Err (ECan ErrShortBuffer_can)
        else if length b > off' + unat dataLen then Err (ECan ErrTrailingBytes_can)
        else slice b off' (off' + unat dataLen)))"

definition can_DecodeFrame :: "bytes \<Rightarrow> CanFrame go" where
  "can_DecodeFrame b =
     (if length b < frameHeaderLen then Err (ECan ErrShortBuffer_can)
      else andThen (idx b 0) (\<lambda>format. andThen (idx b 1) (\<lambda>flags. andThen (get32 b 2) (\<lambda>cid.
        let f = \<lparr>can_Format = format, Extended = (flags AND flagExtended \<noteq> 0), can_ID = cid,
                 BitRateSwitch = (flags AND flagBitRateSwitch \<noteq> 0), XL = zeroXL, can_Data = []\<rparr> in
        if format = FormatXL then
          (if length b < frameHeaderLen + xlHeaderLen then Err (ECan ErrShortBuffer_can)
           else andThen (can_xlHeader b) (\<lambda>xl. andThen (can_payload b (frameHeaderLen + xlHeaderLen)) (\<lambda>d. Ok (f\<lparr>XL := xl, can_Data := d\<rparr>))))
        else andThen (can_payload b frameHeaderLen) (\<lambda>d. Ok (f\<lparr>can_Data := d\<rparr>))))))"

section \<open>Configuration\<close>

record CanConfig =
  can_Enabled :: bool
  NominalBitrateKbps :: u32
  DataBitrateKbps :: u32

definition zeroCanConfig :: CanConfig where
  "zeroCanConfig = \<lparr>can_Enabled = False, NominalBitrateKbps = 0, DataBitrateKbps = 0\<rparr>"

definition can_configLen :: nat where "can_configLen = 9"

definition CanConfig_Validate :: "CanConfig \<Rightarrow> rcp_error option" where
  "CanConfig_Validate c =
     (if \<not> can_Enabled c then None
      else if NominalBitrateKbps c = 0 then Some (ECan ErrInvalidBitrate) else None)"

definition can_EncodeConfig :: "CanConfig \<Rightarrow> bytes" where
  "can_EncodeConfig c = [if can_Enabled c then 1 else 0] @ put32 (NominalBitrateKbps c) @ put32 (DataBitrateKbps c)"

definition can_DecodeConfig :: "bytes \<Rightarrow> CanConfig go" where
  "can_DecodeConfig b =
     (if length b < can_configLen then Err (ECan ErrShortBuffer_can)
      else if length b > can_configLen then Err (ECan ErrTrailingBytes_can)
      else andThen (idx b 0) (\<lambda>en. andThen (get32 b 1) (\<lambda>nb. andThen (get32 b 5) (\<lambda>db.
        Ok \<lparr>can_Enabled = (en \<noteq> 0), NominalBitrateKbps = nb, DataBitrateKbps = db\<rparr>))))"

section \<open>The endpoint\<close>

record CanEndpoint =
  can_addr :: ByteBusID
  can_cfg :: CanConfig
  can_transport :: "(CanFrame, unit) transport option"
  received :: CanFrame
  hasReceived :: bool

definition zeroFrame :: CanFrame where
  "zeroFrame = \<lparr>can_Format = 0, Extended = False, can_ID = 0, BitRateSwitch = False, XL = zeroXL, can_Data = []\<rparr>"

definition can_NewEndpoint :: "ByteBusID \<Rightarrow> CanEndpoint" where
  "can_NewEndpoint addr = \<lparr>can_addr = addr, can_cfg = zeroCanConfig, can_transport = None, received = zeroFrame, hasReceived = False\<rparr>"

definition can_adopted :: "CanConfig \<Rightarrow> CanEndpoint \<Rightarrow> CanEndpoint" where
  "can_adopted c e = e\<lparr>can_cfg := c\<rparr>"

definition can_Configure :: "Server \<Rightarrow> CanEndpoint \<Rightarrow> StreamID \<Rightarrow> CanConfig \<Rightarrow> Server \<times> CanEndpoint \<times> rcp_error option" where
  "can_Configure s e rq c = configureEndpoint CanConfig_Validate can_EncodeConfig can_adopted s e (can_addr e) rq c"

definition can_SetTransport :: "CanEndpoint \<Rightarrow> (CanFrame, unit) transport option \<Rightarrow> CanEndpoint" where
  "can_SetTransport e t = e\<lparr>can_transport := t\<rparr>"

definition SetReceivedFrame :: "CanEndpoint \<Rightarrow> CanFrame \<Rightarrow> CanEndpoint" where
  "SetReceivedFrame e f = e\<lparr>received := f, hasReceived := True\<rparr>"

definition can_transmit :: "CanEndpoint \<Rightarrow> CanFrame \<Rightarrow> rcp_error option" where
  "can_transmit e f =
     (case can_transport e of
        None \<Rightarrow> None
      | Some t \<Rightarrow> (case t f of Inl er \<Rightarrow> Some er | Inr _ \<Rightarrow> None))"

definition lastReceived :: "CanEndpoint \<Rightarrow> CanFrame go" where
  "lastReceived e = (if \<not> hasReceived e then Err (ECan ErrNoFrameReceived) else Ok (received e))"

definition can_encodeConfigBlock :: "CanEndpoint \<Rightarrow> bytes" where
  "can_encodeConfigBlock = can_EncodeConfig \<circ> can_cfg"

definition can_adoptConfigBlock :: "CanEndpoint adopt" where
  "can_adoptConfigBlock = adoptBlock can_DecodeConfig CanConfig_Validate can_adopted"

definition can_responseFor :: "Message \<Rightarrow> ControlFlags \<Rightarrow> bytes \<Rightarrow> Message" where
  "can_responseFor req rw body = responseWith req rw body"

definition can_plainRequest :: "CanEndpoint \<Rightarrow> Message \<Rightarrow> EVTDisposition \<Rightarrow> CanEndpoint \<times> Message go" where
  "can_plainRequest e req disp =
     (e,
      if \<not> can_Enabled (can_cfg e) then Err (ECan ErrNotConfigured_can)
      else if Has (Control req) FlagWrite then
        andThen (can_DecodeFrame (Body req)) (\<lambda>f.
          case CanFrame_Validate f of
            Some er \<Rightarrow> Err er
          | None \<Rightarrow>
              (case can_transmit e f of
                 Some er \<Rightarrow> Err er
               | None \<Rightarrow> Ok (can_responseFor req FlagWrite (can_EncodeFrame f))))
      else if Has (Control req) FlagRead then
        andThen (lastReceived e) (\<lambda>f. Ok (can_responseFor req FlagRead (can_EncodeFrame f)))
      else Err (ECan ErrRequestMustReadOrWrite_can))"

definition can_HandleRequest :: "Server \<Rightarrow> CanEndpoint \<Rightarrow> StreamID \<Rightarrow> Message \<Rightarrow> Server \<times> CanEndpoint \<times> Message go" where
  "can_HandleRequest s e rq req =
     endpointRequest (ECan ErrWrongEndpoint_can) can_EVTClass can_encodeConfigBlock can_adoptConfigBlock
       (can_responseFor req (Control req AND (FlagRead OR FlagWrite))) (can_plainRequest e req) s e (can_addr e) rq req"

section \<open>Laws\<close>

interpretation can_config: body_codec can_EncodeConfig can_DecodeConfig "\<lambda>_. True"
  by unfold_locales (auto simp: can_DecodeConfig_def can_EncodeConfig_def can_configLen_def put16_def put32_def wire_simps)

interpretation can_ep: config_block can_EncodeConfig can_DecodeConfig CanConfig_Validate can_cfg can_adopted
  by unfold_locales (simp add: can_adopted_def)

lemma can_adopted_addr [simp]: "can_addr (fst (can_adoptConfigBlock b e)) = can_addr e"
  by (auto simp: can_adoptConfigBlock_def adoptBlock_def can_adopted_def split: outcome.split option.split)

lemma can_plain_keeps: "can_cfg (fst (can_plainRequest e req disp)) = can_cfg e \<and> can_addr (fst (can_plainRequest e req disp)) = can_addr e"
  by (simp add: can_plainRequest_def)

text \<open>A configured endpoint: its configuration is valid and is what the register map has.\<close>

definition can_in_step :: "Server \<Rightarrow> CanEndpoint \<Rightarrow> bool" where
  "can_in_step s e \<longleftrightarrow> CanConfig_Validate (can_cfg e) = None \<and>
     synced (reencode can_EncodeConfig can_DecodeConfig) can_encodeConfigBlock s (can_addr e) e"

lemma can_request_in_step:
  assumes "can_HandleRequest s e rq req = (s', e', r)" "can_in_step s e"
  shows "can_in_step s' e' \<and> can_addr e' = can_addr e"
proof -
  have "CanConfig_Validate (can_cfg e') = None \<and>
    synced (reencode can_EncodeConfig can_DecodeConfig) (can_EncodeConfig \<circ> can_cfg) s' (can_addr e) e' \<and> can_addr e' = can_addr e"
    by (rule can_ep.ep.request_in_step [where I = "\<lambda>x. can_addr x = can_addr e",
          OF assms(1) [unfolded can_HandleRequest_def can_encodeConfigBlock_def can_adoptConfigBlock_def]])
      (use assms(2) can_adopted_addr can_plain_keeps in
        \<open>auto simp: can_in_step_def can_encodeConfigBlock_def can_adoptConfigBlock_def\<close>)
  then show ?thesis by (simp add: can_in_step_def can_encodeConfigBlock_def)
qed

lemma can_configure_in_step:
  "can_Configure s e rq c = (s', e', None) \<Longrightarrow> can_in_step s' e' \<and> can_cfg e' = c \<and> can_addr e' = can_addr e"
  using can_ep.configure_in_step [of s e "can_addr e" rq c s' e']
  by (auto simp: can_Configure_def can_in_step_def can_encodeConfigBlock_def can_adopted_def)


text \<open>The frames that survive encoding.\<close>

definition frame_fits :: "CanFrame \<Rightarrow> bool" where
  "frame_fits f \<longleftrightarrow> length (can_Data f) < 65536 \<and> (can_Format f \<noteq> FormatXL \<longrightarrow> XL f = zeroXL)"

lemma can_flags:
  "(((if x then flagExtended else 0) OR (if b then flagBitRateSwitch else 0)) AND flagExtended \<noteq> 0) = x"
  "(((if x then flagExtended else 0) OR (if b then flagBitRateSwitch else 0)) AND flagBitRateSwitch \<noteq> 0) = b"
  by (cases x; cases b; simp add: flagExtended_def flagBitRateSwitch_def)+

lemma can_payload_append:
  assumes "length d < 65536"
  shows "can_payload (xs @ put16 (word_of_nat (length d)) @ d) (length xs) = Ok d"
proof -
  have "unat (word_of_nat (length d) :: u16) = length d" using assms by (simp add: unat_of_nat)
  then show ?thesis by (simp add: can_payload_def can_lens Let_def slice_def)
qed

lemma can_payload_no_panic: "can_payload b off \<noteq> Panic"
  by (auto simp: can_payload_def can_lens Let_def andThen_eq_Panic_iff slice_def get16_def)

interpretation can_frame: body_codec can_EncodeFrame can_DecodeFrame frame_fits
proof
  fix f :: CanFrame
  assume fits: "frame_fits f"
  let ?fl = "(if Extended f then flagExtended else 0) OR (if BitRateSwitch f then flagBitRateSwitch else 0)"
  let ?h = "[can_Format f, ?fl] @ put32 (can_ID f)"
  let ?x = "[SDT (XL f), VCID (XL f)] @ put32 (AF (XL f))"
  have pay: "can_payload (?h @ put16 (word_of_nat (length (can_Data f))) @ can_Data f) 6 = Ok (can_Data f)"
    "can_payload ((?h @ ?x) @ put16 (word_of_nat (length (can_Data f))) @ can_Data f) 12 = Ok (can_Data f)"
    using can_payload_append [of "can_Data f" ?h] can_payload_append [of "can_Data f" "?h @ ?x"] fits by (simp_all add: frame_fits_def)
  show "can_DecodeFrame (can_EncodeFrame f) = Ok f"
  proof (cases "can_Format f = FormatXL")
    case True
    then show ?thesis
      using pay(2) by (simp add: can_DecodeFrame_def can_EncodeFrame_def can_xlHeader_def can_lens can_flags Let_def nth_append put32_def)
  next
    case False
    then have "XL f = zeroXL" using fits by (simp add: frame_fits_def)
    then show ?thesis
      using False pay(1) by (simp add: can_DecodeFrame_def can_EncodeFrame_def can_lens can_flags Let_def nth_append put32_def)
  qed
next
  fix b
  show "can_DecodeFrame b \<noteq> Panic"
    using can_payload_no_panic
    by (auto simp: can_DecodeFrame_def can_xlHeader_def can_lens idx_def Let_def andThen_eq_Panic_iff split: if_splits)
qed

lemma valid_frame_fits: "CanFrame_Validate f = None \<Longrightarrow> frame_fits f"
proof -
  assume v: "CanFrame_Validate f = None"
  have "unat (can_Format f) < 3" using v by (auto simp: CanFrame_Validate_def Format_Valid_def word_less_nat_alt split: if_splits)
  then have "can_Format f = FormatClassical \<or> can_Format f = FormatFD \<or> can_Format f = FormatXL"
    using word_of_nat_below [of "can_Format f" 3] by (auto simp: can_formats less_Suc_eq eval_nat_numeral)
  moreover have "length (can_Data f) \<le> MaxPayload (can_Format f)" using v by (auto simp: CanFrame_Validate_def split: if_splits)
  moreover have "MaxPayload (can_Format f) \<le> 2048" by (simp add: MaxPayload_def)
  ultimately show ?thesis using v by (auto simp: frame_fits_def CanFrame_Validate_def split: if_splits)
qed

section \<open>Properties\<close>

text \<open>What a CAN request carries. A request that is no configuration request changes neither the server nor
  the endpoint. A successful one comes from a stream with access, to an endpoint in use. A
  successful write carried a frame that passes every check of its format, the transport took it,
  and the response is an encoding that decodes to that frame; a successful read returns the frame
  received last, and decodes to it whenever the frame fits the encoding.\<close>

theorem can_request_frames:
  assumes "can_HandleRequest s e rq req = (s', e', r)" "Message_EVTSelector req \<noteq> 7"
  shows "s' = s \<and> e' = e \<and>
    (\<forall>resp. r = Ok resp \<longrightarrow> CanAccess (acl s) rq (can_addr e) \<and> can_Enabled (can_cfg e) \<and>
      (if Has (Control req) FlagWrite
       then \<exists>f. can_DecodeFrame (Body req) = Ok f \<and> CanFrame_Validate f = None \<and> can_transmit e f = None \<and>
              can_DecodeFrame (Body resp) = Ok f
       else hasReceived e \<and> (frame_fits (received e) \<longrightarrow> can_DecodeFrame (Body resp) = Ok (received e))))"
  using assms(1) unfolding can_HandleRequest_def
proof (cases rule: endpointRequest_cases)
  case (plain disp)
  then show ?thesis
    using can_frame.dec_enc valid_frame_fits
    by (auto simp: can_plainRequest_def lastReceived_def can_responseFor_def responseWith_def andThen_eq_Ok_iff split: if_splits option.splits)
qed (use assms(2) in auto)

text \<open>A server with a CAN endpoint, and a request that sends an FD frame with bit-rate switch.\<close>

definition canRoot :: StreamID where "canRoot = StreamID 2 0 0 0 0 1 0 1"

definition canServer :: Server where
  "canServer = fst (AddEndpoint (fst (ClaimRoot NewServer canRoot)) canRoot 3 EndpointTypeCAN)"

definition canStarted :: "Server \<times> CanEndpoint \<times> rcp_error option" where
  "canStarted = can_Configure canServer (can_NewEndpoint 3) canRoot \<lparr>can_Enabled = True, NominalBitrateKbps = 500, DataBitrateKbps = 2000\<rparr>"

definition canFrame :: CanFrame where
  "canFrame = \<lparr>can_Format = FormatFD, Extended = True, can_ID = 0x12345, BitRateSwitch = True, XL = zeroXL, can_Data = [1, 2, 3]\<rparr>"

definition canWrite :: Message where
  "canWrite = zeroMessage\<lparr>Kind := KindShort, ByteBusID := 3, Control := FlagWrite, Body := can_EncodeFrame canFrame\<rparr>"

definition canWritten :: "Server \<times> CanEndpoint \<times> Message go" where
  "canWritten = can_HandleRequest (fst canStarted) (fst (snd canStarted)) canRoot canWrite"

theorem can_request_frames_witness:
  "fst (snd canWritten) = fst (snd canStarted) \<and>
   (\<exists>resp. snd (snd canWritten) = Ok resp \<and> can_DecodeFrame (Body resp) = Ok canFrame)"
proof -
  have ok: "case snd (snd canWritten) of Ok _ \<Rightarrow> True | _ \<Rightarrow> False" "Message_EVTSelector canWrite \<noteq> 7" "Has (Control canWrite) FlagWrite" by code_simp+
  then obtain resp where r: "snd (snd canWritten) = Ok resp" by (auto split: outcome.splits)
  then have "can_HandleRequest (fst canStarted) (fst (snd canStarted)) canRoot canWrite = (fst canWritten, fst (snd canWritten), Ok resp)"
    by (metis canWritten_def prod.collapse)
  from can_request_frames [OF this ok(2)] ok(3)
  have "fst (snd canWritten) = fst (snd canStarted)" "\<exists>f. can_DecodeFrame (Body canWrite) = Ok f \<and> can_DecodeFrame (Body resp) = Ok f" by auto
  moreover have "can_DecodeFrame (Body canWrite) = Ok canFrame"
    using can_frame.dec_enc [of canFrame] by (simp add: canWrite_def canFrame_def frame_fits_def)
  ultimately show ?thesis using r by auto
qed

end
