(* ===== verification/Mdio.thy ===== *)
theory Mdio
  imports Ep_Config
begin

text \<open>
  The package \<open>mdio\<close>: register accesses in four modes. Without a transport the endpoint keeps the
  registers itself, by mode and device address. Each call is one step; the endpoint's mutex is
  not modelled.
\<close>

section \<open>Requests\<close>

definition mdio_EVTClass :: EVTClass where "mdio_EVTClass = EVTClassConfigOnly"

type_synonym MdioMode = u8

definition ModeMMSSingleWord :: MdioMode where "ModeMMSSingleWord = 2"
definition ModeMMSMultiWord :: MdioMode where "ModeMMSMultiWord = 3"

definition MdioMode_Valid :: "MdioMode \<Rightarrow> bool" where "MdioMode_Valid m \<longleftrightarrow> m < 4"

definition devAddrMax :: u8 where "devAddrMax = 0x1F"
definition mmsWideIndexMax :: u8 where "mmsWideIndexMax = 1"

record MdioRequest =
  mdio_Mode :: MdioMode
  DevAddr :: u8

definition DataWidth :: "MdioRequest \<Rightarrow> nat" where
  "DataWidth r =
     (if (mdio_Mode r = ModeMMSSingleWord \<or> mdio_Mode r = ModeMMSMultiWord) \<and> DevAddr r \<le> mmsWideIndexMax then 4 else 2)"

definition MdioRequest_Validate :: "MdioRequest \<Rightarrow> rcp_error option" where
  "MdioRequest_Validate r =
     (if \<not> MdioMode_Valid (mdio_Mode r) then Some (EMdio ErrInvalidMode_mdio)
      else if DevAddr r > devAddrMax then Some (EMdio ErrDevAddrOutOfRange) else None)"

definition requestHeaderLen :: nat where "requestHeaderLen = 2"
definition modeShift :: nat where "modeShift = 6"
definition addrMask :: u8 where "addrMask = 0x3F"

definition encodeRequest :: "MdioRequest \<Rightarrow> bytes" where
  "encodeRequest r = [0, push_bit modeShift (mdio_Mode r) OR (DevAddr r AND addrMask)]"

definition decodeRequest :: "bytes \<Rightarrow> MdioRequest go" where
  "decodeRequest b =
     (if length b < requestHeaderLen then Err (EMdio ErrShortBuffer_mdio)
      else if length b > requestHeaderLen then Err (EMdio ErrTrailingBytes_mdio)
      else andThen (idx b 0) (\<lambda>z. andThen (idx b 1) (\<lambda>x.
        if z \<noteq> 0 then Err (EAvtp ErrReservedBitsSet)
        else Ok \<lparr>mdio_Mode = drop_bit modeShift x, DevAddr = x AND addrMask\<rparr>)))"

definition putData :: "nat \<Rightarrow> u32 \<Rightarrow> bytes" where
  "putData width data = (if width = 4 then put32 data else put16 (ucast data))"

definition getData :: "bytes \<Rightarrow> nat \<Rightarrow> u32 go" where
  "getData b width = (if width = 4 then get32 b 0 else andThen (get16 b 0) (\<lambda>x. Ok (ucast x)))"

definition mdio_EncodeReadRequest :: "MdioRequest \<Rightarrow> bytes" where "mdio_EncodeReadRequest r = encodeRequest r"

definition mdio_DecodeReadRequest :: "bytes \<Rightarrow> MdioRequest go" where "mdio_DecodeReadRequest b = decodeRequest b"

definition mdio_EncodeWriteRequest :: "MdioRequest \<Rightarrow> u32 \<Rightarrow> bytes" where
  "mdio_EncodeWriteRequest r data = encodeRequest r @ putData (DataWidth r) data"

definition mdio_EncodeResponse :: "MdioRequest \<Rightarrow> u32 \<Rightarrow> bytes" where
  "mdio_EncodeResponse r data = putData (DataWidth r) data"

definition mdio_DecodeResponse :: "MdioRequest \<Rightarrow> bytes \<Rightarrow> u32 go" where
  "mdio_DecodeResponse r b =
     (if length b < DataWidth r then Err (EMdio ErrShortBuffer_mdio)
      else if length b > DataWidth r then Err (EMdio ErrTrailingBytes_mdio)
      else getData b (DataWidth r))"

definition mdio_DecodeWriteRequest :: "bytes \<Rightarrow> (MdioRequest \<times> u32) go" where
  "mdio_DecodeWriteRequest b =
     (if length b < requestHeaderLen then Err (EMdio ErrShortBuffer_mdio)
      else andThen (slice b 0 requestHeaderLen) (\<lambda>h. andThen (decodeRequest h) (\<lambda>r.
        andThen (slice b requestHeaderLen (length b)) (\<lambda>rest.
          if length rest < DataWidth r then Err (EMdio ErrShortBuffer_mdio)
          else if length rest > DataWidth r then Err (EMdio ErrTrailingBytes_mdio)
          else andThen (getData rest (DataWidth r)) (\<lambda>d. Ok (r, d))))))"

section \<open>Configuration\<close>

record MdioConfig =
  mdio_Enabled :: bool

definition mdio_configLen :: nat where "mdio_configLen = 1"

definition MdioConfig_Validate :: "MdioConfig \<Rightarrow> rcp_error option" where "MdioConfig_Validate c = None"

definition mdio_EncodeConfig :: "MdioConfig \<Rightarrow> bytes" where
  "mdio_EncodeConfig c = [if mdio_Enabled c then 1 else 0]"

definition mdio_DecodeConfig :: "bytes \<Rightarrow> MdioConfig go" where
  "mdio_DecodeConfig b =
     (if length b < mdio_configLen then Err (EMdio ErrShortBuffer_mdio)
      else if length b > mdio_configLen then Err (EMdio ErrTrailingBytes_mdio)
      else andThen (idx b 0) (\<lambda>en. Ok \<lparr>mdio_Enabled = (en \<noteq> 0)\<rparr>))"

section \<open>The endpoint\<close>

record MdioTriggerEvent =
  TRequest :: MdioRequest
  TData :: u32
  TWrite :: bool

type_synonym registerKey = "MdioMode \<times> u8"

definition keyFor :: "MdioRequest \<Rightarrow> registerKey" where "keyFor r = (mdio_Mode r, DevAddr r)"

text \<open>The transport is a pair: \<open>ReadRegister\<close> and \<open>WriteRegister\<close>.\<close>

record MdioEndpoint =
  mdio_addr :: ByteBusID
  mdio_cfg :: MdioConfig
  mdio_transport :: "((MdioRequest, u32) transport \<times> (MdioRequest \<times> u32, unit) transport) option"
  registers :: "registerKey \<rightharpoonup> u32"
  mdio_triggers :: "MdioTriggerEvent list"

definition mdio_NewEndpoint :: "ByteBusID \<Rightarrow> MdioEndpoint" where
  "mdio_NewEndpoint addr = \<lparr>mdio_addr = addr, mdio_cfg = \<lparr>mdio_Enabled = False\<rparr>, mdio_transport = None, registers = Map.empty, mdio_triggers = []\<rparr>"

definition mdio_adopted :: "MdioConfig \<Rightarrow> MdioEndpoint \<Rightarrow> MdioEndpoint" where
  "mdio_adopted c e = e\<lparr>mdio_cfg := c\<rparr>"

definition mdio_Configure :: "Server \<Rightarrow> MdioEndpoint \<Rightarrow> StreamID \<Rightarrow> MdioConfig \<Rightarrow> Server \<times> MdioEndpoint \<times> rcp_error option" where
  "mdio_Configure s e rq c = configureEndpoint MdioConfig_Validate mdio_EncodeConfig mdio_adopted s e (mdio_addr e) rq c"

definition mdio_SetTransport ::
  "MdioEndpoint \<Rightarrow> ((MdioRequest, u32) transport \<times> (MdioRequest \<times> u32, unit) transport) option \<Rightarrow> MdioEndpoint" where
  "mdio_SetTransport e t = e\<lparr>mdio_transport := t\<rparr>"

definition mdio_DrainTriggers :: "MdioEndpoint \<Rightarrow> MdioEndpoint \<times> MdioTriggerEvent list" where
  "mdio_DrainTriggers e = (e\<lparr>mdio_triggers := []\<rparr>, mdio_triggers e)"

definition registerValue :: "MdioEndpoint \<Rightarrow> MdioRequest \<Rightarrow> u32" where
  "registerValue e r = (case registers e (keyFor r) of Some v \<Rightarrow> v | None \<Rightarrow> 0)"

definition mdio_read :: "MdioEndpoint \<Rightarrow> MdioRequest \<Rightarrow> MdioEndpoint \<times> u32 go" where
  "mdio_read e r =
     (case (case mdio_transport e of Some t \<Rightarrow> fst t r | None \<Rightarrow> Inr (registerValue e r)) of
        Inl er \<Rightarrow> (e, Err er)
      | Inr data \<Rightarrow> (e\<lparr>mdio_triggers := mdio_triggers e @ [\<lparr>TRequest = r, TData = data, TWrite = False\<rparr>]\<rparr>, Ok data))"

definition mdio_write :: "MdioEndpoint \<Rightarrow> MdioRequest \<Rightarrow> u32 \<Rightarrow> MdioEndpoint \<times> rcp_error option" where
  "mdio_write e r data =
     (case (case mdio_transport e of
              Some t \<Rightarrow> (case snd t (r, data) of Inl er \<Rightarrow> Inl er | Inr _ \<Rightarrow> Inr e)
            | None \<Rightarrow> Inr (e\<lparr>registers := (registers e)(keyFor r \<mapsto> data)\<rparr>)) of
        Inl er \<Rightarrow> (e, Some er)
      | Inr e1 \<Rightarrow> (e1\<lparr>mdio_triggers := mdio_triggers e1 @ [\<lparr>TRequest = r, TData = data, TWrite = True\<rparr>]\<rparr>, None))"

definition mdio_encodeConfigBlock :: "MdioEndpoint \<Rightarrow> bytes" where
  "mdio_encodeConfigBlock = mdio_EncodeConfig \<circ> mdio_cfg"

definition mdio_adoptConfigBlock :: "MdioEndpoint adopt" where
  "mdio_adoptConfigBlock = adoptBlock mdio_DecodeConfig MdioConfig_Validate mdio_adopted"

definition mdio_responseFor :: "Message \<Rightarrow> ControlFlags \<Rightarrow> bytes \<Rightarrow> Message" where
  "mdio_responseFor req rw body = responseWith req rw body"

definition mdio_checked :: "MdioRequest \<Rightarrow> 'a \<Rightarrow> 'a go" where
  "mdio_checked r x = (case MdioRequest_Validate r of Some er \<Rightarrow> Err er | None \<Rightarrow> Ok x)"

definition mdio_plainRequest :: "MdioEndpoint \<Rightarrow> Message \<Rightarrow> EVTDisposition \<Rightarrow> MdioEndpoint \<times> Message go" where
  "mdio_plainRequest e req disp =
     (if \<not> mdio_Enabled (mdio_cfg e) then (e, Err (EMdio ErrNotConfigured_mdio))
      else if Has (Control req) FlagWrite then
        (case andThen (mdio_DecodeWriteRequest (Body req)) (\<lambda>(r, data). mdio_checked r (r, data)) of
           Err er \<Rightarrow> (e, Err er)
         | Panic \<Rightarrow> (e, Panic)
         | Ok (r, data) \<Rightarrow>
             (case mdio_write e r data of
                (e', Some er) \<Rightarrow> (e', Err er)
              | (e', None) \<Rightarrow> (e', Ok (mdio_responseFor req FlagWrite (mdio_EncodeResponse r data)))))
      else if Has (Control req) FlagRead then
        (case andThen (mdio_DecodeReadRequest (Body req)) (\<lambda>r. mdio_checked r r) of
           Err er \<Rightarrow> (e, Err er)
         | Panic \<Rightarrow> (e, Panic)
         | Ok r \<Rightarrow> (case mdio_read e r of
             (e', data) \<Rightarrow> (e', andThen data (\<lambda>d. Ok (mdio_responseFor req FlagRead (mdio_EncodeResponse r d))))))
      else (e, Err (EMdio ErrRequestMustReadOrWrite_mdio)))"

definition mdio_HandleRequest :: "Server \<Rightarrow> MdioEndpoint \<Rightarrow> StreamID \<Rightarrow> Message \<Rightarrow> Server \<times> MdioEndpoint \<times> Message go" where
  "mdio_HandleRequest s e rq req =
     endpointRequest (EMdio ErrWrongEndpoint_mdio) mdio_EVTClass mdio_encodeConfigBlock mdio_adoptConfigBlock
       (mdio_responseFor req (Control req AND (FlagRead OR FlagWrite))) (mdio_plainRequest e req) s e (mdio_addr e) rq req"

section \<open>Laws\<close>

interpretation mdio_config: body_codec mdio_EncodeConfig mdio_DecodeConfig "\<lambda>_. True"
  by unfold_locales (auto simp: mdio_DecodeConfig_def mdio_EncodeConfig_def mdio_configLen_def put16_def put32_def wire_simps)

interpretation mdio_ep: config_block mdio_EncodeConfig mdio_DecodeConfig MdioConfig_Validate mdio_cfg mdio_adopted
  by unfold_locales (simp add: mdio_adopted_def)

lemma mdio_adopted_addr [simp]: "mdio_addr (fst (mdio_adoptConfigBlock b e)) = mdio_addr e"
  by (auto simp: mdio_adoptConfigBlock_def adoptBlock_def mdio_adopted_def split: outcome.split option.split)

lemma mdio_plain_keeps: "mdio_cfg (fst (mdio_plainRequest e req disp)) = mdio_cfg e \<and> mdio_addr (fst (mdio_plainRequest e req disp)) = mdio_addr e"
  by (auto simp: mdio_plainRequest_def mdio_read_def mdio_write_def split: sum.splits outcome.splits option.splits prod.splits)

text \<open>A configured endpoint: its configuration is valid and is what the register map has.\<close>

definition mdio_in_step :: "Server \<Rightarrow> MdioEndpoint \<Rightarrow> bool" where
  "mdio_in_step s e \<longleftrightarrow> MdioConfig_Validate (mdio_cfg e) = None \<and>
     synced (reencode mdio_EncodeConfig mdio_DecodeConfig) mdio_encodeConfigBlock s (mdio_addr e) e"

lemma mdio_request_in_step:
  assumes "mdio_HandleRequest s e rq req = (s', e', r)" "mdio_in_step s e"
  shows "mdio_in_step s' e' \<and> mdio_addr e' = mdio_addr e"
proof -
  have "MdioConfig_Validate (mdio_cfg e') = None \<and>
    synced (reencode mdio_EncodeConfig mdio_DecodeConfig) (mdio_EncodeConfig \<circ> mdio_cfg) s' (mdio_addr e) e' \<and> mdio_addr e' = mdio_addr e"
    by (rule mdio_ep.ep.request_in_step [where I = "\<lambda>x. mdio_addr x = mdio_addr e",
          OF assms(1) [unfolded mdio_HandleRequest_def mdio_encodeConfigBlock_def mdio_adoptConfigBlock_def]])
      (use assms(2) mdio_adopted_addr mdio_plain_keeps in
        \<open>auto simp: mdio_in_step_def mdio_encodeConfigBlock_def mdio_adoptConfigBlock_def\<close>)
  then show ?thesis by (simp add: mdio_in_step_def mdio_encodeConfigBlock_def)
qed

lemma mdio_configure_in_step:
  "mdio_Configure s e rq c = (s', e', None) \<Longrightarrow> mdio_in_step s' e' \<and> mdio_cfg e' = c \<and> mdio_addr e' = mdio_addr e"
  using mdio_ep.configure_in_step [of s e "mdio_addr e" rq c s' e']
  by (auto simp: mdio_Configure_def mdio_in_step_def mdio_encodeConfigBlock_def mdio_adopted_def)

text \<open>The request header and the data words are exact codecs of what fits them.\<close>

lemma decodeRequest_encode: "mdio_Mode r < 4 \<Longrightarrow> DevAddr r \<le> addrMask \<Longrightarrow> decodeRequest (encodeRequest r) = Ok r"
proof -
  assume m: "mdio_Mode r < 4" and a: "DevAddr r \<le> addrMask"
  have mb: "\<not> bit (mdio_Mode r) n" if "2 \<le> n" for n
    using m that by (intro unat_less_bit [where k = 2]) (simp_all add: word_less_nat_alt)
  have ab: "\<not> bit (DevAddr r) n" if "6 \<le> n" for n
    using a that by (intro unat_less_bit [where k = 6]) (simp_all add: addrMask_def word_le_nat_alt)
  have "drop_bit 6 (push_bit 6 (mdio_Mode r) OR (DevAddr r AND addrMask)) = mdio_Mode r"
    using mb by (simp add: u8_bits addrMask_def)
  moreover have "(push_bit 6 (mdio_Mode r) OR (DevAddr r AND addrMask)) AND addrMask = DevAddr r"
    using ab by (simp add: u8_bits addrMask_def)
  ultimately show ?thesis by (simp add: decodeRequest_def encodeRequest_def requestHeaderLen_def modeShift_def)
qed

lemma decodeRequest_no_panic: "decodeRequest b \<noteq> Panic"
  by (auto simp: decodeRequest_def requestHeaderLen_def idx_def)

lemma DataWidth_cases: "DataWidth r = 4 \<or> DataWidth r = 2"
  by (simp add: DataWidth_def)

lemma getData_no_panic: "\<not> length b < DataWidth r \<Longrightarrow> getData b (DataWidth r) \<noteq> Panic"
  using DataWidth_cases [of r] by (auto simp: getData_def)

lemma mdio_DecodeWriteRequest_no_panic: "mdio_DecodeWriteRequest b \<noteq> Panic"
  using decodeRequest_no_panic
  by (auto simp: mdio_DecodeWriteRequest_def requestHeaderLen_def slice_def getData_no_panic andThen_eq_Panic_iff)

lemma length_putData [simp]: "length (putData (DataWidth r) d) = DataWidth r"
  using DataWidth_cases [of r] by (auto simp: putData_def)

text \<open>A register holds data of its width.\<close>

definition fitsWidth :: "MdioRequest \<Rightarrow> u32 \<Rightarrow> bool" where
  "fitsWidth r d \<longleftrightarrow> DataWidth r = 4 \<or> d < 65536"

lemma ucast_u16_u32: "(d :: u32) < 65536 \<Longrightarrow> ucast (ucast d :: u16) = d"
proof -
  assume "d < 65536"
  then have "\<not> bit d n" if "16 \<le> n" for n
    using that by (intro unat_less_bit [where k = 16]) (simp_all add: word_less_nat_alt)
  then show ?thesis by (auto intro!: bit_word_eqI simp: bit_simps) (meson not_le)
qed

lemma getData_putData: "fitsWidth r d \<Longrightarrow> getData (putData (DataWidth r) d) (DataWidth r) = Ok d"
  using DataWidth_cases [of r] by (auto simp: fitsWidth_def getData_def putData_def ucast_u16_u32 put16_def put32_def)

lemma mdio_response: "fitsWidth r d \<Longrightarrow> mdio_DecodeResponse r (mdio_EncodeResponse r d) = Ok d"
  by (simp add: mdio_DecodeResponse_def mdio_EncodeResponse_def getData_putData)

lemma getData_fits: "getData b (DataWidth r) = Ok d \<Longrightarrow> fitsWidth r d"
proof -
  assume g: "getData b (DataWidth r) = Ok d"
  have "(ucast x :: u32) < 65536" for x :: u16 using unsigned_less [of x, where ?'a = nat] 
      by (simp add: word_less_nat_alt unsigned_ucast_eq order.strict_trans1 [OF take_bit_nat_less_eq_self])
  then show ?thesis using g by (auto simp: getData_def fitsWidth_def andThen_eq_Ok_iff split: if_splits)
qed

lemma mdio_DecodeWriteRequest_fits: "mdio_DecodeWriteRequest b = Ok (r, d) \<Longrightarrow> fitsWidth r d"
  by (auto simp: mdio_DecodeWriteRequest_def andThen_eq_Ok_iff dest: getData_fits split: if_splits)

section \<open>Properties\<close>

text \<open>What successful requests do to an endpoint that keeps the registers itself.\<close>

lemma mdio_plain_write:
  assumes "mdio_plainRequest e req disp = (e', Ok resp)" "Has (Control req) FlagWrite" "mdio_transport e = None"
  shows "\<exists>r d. mdio_DecodeWriteRequest (Body req) = Ok (r, d) \<and> MdioRequest_Validate r = None \<and> fitsWidth r d \<and>
    registers e' = (registers e)(keyFor r \<mapsto> d) \<and> mdio_transport e' = None \<and> Body resp = mdio_EncodeResponse r d"
  using assms
  by (auto simp: mdio_plainRequest_def mdio_write_def mdio_checked_def mdio_responseFor_def responseWith_def andThen_eq_Ok_iff
      split: if_splits outcome.splits option.splits dest: mdio_DecodeWriteRequest_fits)

lemma mdio_plain_read:
  assumes "mdio_plainRequest e req disp = (e', Ok resp)" "\<not> Has (Control req) FlagWrite" "mdio_transport e = None"
  shows "\<exists>r. mdio_DecodeReadRequest (Body req) = Ok r \<and> MdioRequest_Validate r = None \<and>
    registers e' = registers e \<and> Body resp = mdio_EncodeResponse r (registerValue e r)"
  using assms
  by (auto simp: mdio_plainRequest_def mdio_read_def mdio_checked_def mdio_responseFor_def responseWith_def andThen_eq_Ok_iff
      split: if_splits outcome.splits option.splits)

text \<open>MDIO registers keep what is written. On an endpoint without a transport, after a successful write
  request a successful read request of the same register answers with an encoding of the data
  written, at the register's width, and a successful read request of another register answers
  what that register held before.\<close>

theorem mdio_read_after_write:
  assumes "mdio_HandleRequest s e rq wr = (s1, e1, Ok wresp)" "Message_EVTSelector wr \<noteq> 7" "Has (Control wr) FlagWrite"
    and "mdio_transport e = None" "mdio_DecodeWriteRequest (Body wr) = Ok (r, d)"
    and "mdio_HandleRequest s1 e1 rq' rd = (s2, e2, Ok resp)" "Message_EVTSelector rd \<noteq> 7" "\<not> Has (Control rd) FlagWrite"
    and "mdio_DecodeReadRequest (Body rd) = Ok r'"
  shows "if r' = r then mdio_DecodeResponse r (Body resp) = Ok d else Body resp = mdio_EncodeResponse r' (registerValue e r')"
proof -
  obtain disp where "mdio_plainRequest e wr disp = (e1, Ok wresp)"
    using assms(1) unfolding mdio_HandleRequest_def by (cases rule: endpointRequest_cases) (use assms(2) in auto)
  then have w: "registers e1 = (registers e)(keyFor r \<mapsto> d)" "mdio_transport e1 = None" "fitsWidth r d"
    using mdio_plain_write [OF _ assms(3,4)] assms(5) by fastforce+
  obtain disp' where "mdio_plainRequest e1 rd disp' = (e2, Ok resp)"
    using assms(6) unfolding mdio_HandleRequest_def by (cases rule: endpointRequest_cases) (use assms(7) in auto)
  then have "Body resp = mdio_EncodeResponse r' (registerValue e1 r')"
    using mdio_plain_read [OF _ assms(8) w(2)] assms(9) by fastforce
  then show ?thesis using w by (auto simp: registerValue_def keyFor_def mdio_response)
qed

text \<open>A wide register: 32 bits are written and read back.\<close>

definition mdioRoot :: StreamID where "mdioRoot = StreamID 2 0 0 0 0 1 0 1"

definition mdioServer :: Server where
  "mdioServer = fst (AddEndpoint (fst (ClaimRoot NewServer mdioRoot)) mdioRoot 2 EndpointTypeMDIO)"

definition mdioRegister :: MdioRequest where "mdioRegister = \<lparr>mdio_Mode = ModeMMSSingleWord, DevAddr = 1\<rparr>"

definition mdioStarted :: "Server \<times> MdioEndpoint \<times> rcp_error option" where
  "mdioStarted = mdio_Configure mdioServer (mdio_NewEndpoint 2) mdioRoot \<lparr>mdio_Enabled = True\<rparr>"

definition mdioWrite :: Message where
  "mdioWrite = zeroMessage\<lparr>Kind := KindShort, ByteBusID := 2, Control := FlagWrite, Body := mdio_EncodeWriteRequest mdioRegister 0x12345678\<rparr>"

definition mdioRead :: Message where
  "mdioRead = zeroMessage\<lparr>Kind := KindShort, ByteBusID := 2, Control := FlagRead, Body := mdio_EncodeReadRequest mdioRegister\<rparr>"

definition mdioWritten :: "Server \<times> MdioEndpoint \<times> Message go" where
  "mdioWritten = mdio_HandleRequest (fst mdioStarted) (fst (snd mdioStarted)) mdioRoot mdioWrite"

definition mdioReading :: "Server \<times> MdioEndpoint \<times> Message go" where
  "mdioReading = mdio_HandleRequest (fst mdioWritten) (fst (snd mdioWritten)) mdioRoot mdioRead"

theorem mdio_read_after_write_witness:
  "\<exists>resp. snd (snd mdioReading) = Ok resp \<and> mdio_DecodeResponse mdioRegister (Body resp) = Ok 0x12345678"
proof -
  have "case snd (snd mdioWritten) of Ok _ \<Rightarrow> True | _ \<Rightarrow> False" "case snd (snd mdioReading) of Ok _ \<Rightarrow> True | _ \<Rightarrow> False"
    by code_simp+
  then obtain w r where wr: "snd (snd mdioWritten) = Ok w" "snd (snd mdioReading) = Ok r" by (auto split: outcome.splits)
  have h: "mdio_HandleRequest (fst mdioStarted) (fst (snd mdioStarted)) mdioRoot mdioWrite = (fst mdioWritten, fst (snd mdioWritten), Ok w)"
    "mdio_HandleRequest (fst mdioWritten) (fst (snd mdioWritten)) mdioRoot mdioRead = (fst mdioReading, fst (snd mdioReading), Ok r)"
    using wr by (metis mdioWritten_def mdioReading_def prod.collapse)+
  have c: "Message_EVTSelector mdioWrite \<noteq> 7" "Has (Control mdioWrite) FlagWrite" "Message_EVTSelector mdioRead \<noteq> 7" "\<not> Has (Control mdioRead) FlagWrite"
    "mdio_DecodeWriteRequest (Body mdioWrite) = Ok (mdioRegister, 0x12345678)" "mdio_DecodeReadRequest (Body mdioRead) = Ok mdioRegister"
    by code_simp+
  have "mdio_transport (fst (snd mdioStarted)) = None"
    by (simp add: mdioStarted_def mdio_Configure_def configureEndpoint_def mdio_adopted_def mdio_NewEndpoint_def split: option.split prod.split)
  from mdio_read_after_write [OF h(1) c(1,2) this c(5) h(2) c(3,4,6)] wr(2) show ?thesis by simp
qed

end
