(* ===== verification/Iseled.thy ===== *)
theory Iseled
  imports Ep_Config
begin

text \<open>
  The package \<open>iseled\<close>: commands and responses of a chain of devices, protected by an 8-bit CRC, and the
  endpoint that exchanges them. Each call is one step; the endpoint's mutex is not modelled.
\<close>

section \<open>The checksum\<close>

definition iseled_crcPoly :: u8 where "iseled_crcPoly = 0x1D"
definition iseled_crcInit :: u8 where "iseled_crcInit = 0xFF"
definition iseled_crcXorOut :: u8 where "iseled_crcXorOut = 0xFF"

definition crc8_shift :: "u8 \<Rightarrow> u8" where
  "crc8_shift crc = (if crc AND 0x80 \<noteq> 0 then push_bit 1 crc XOR iseled_crcPoly else push_bit 1 crc)"

definition crc8_octet :: "u8 \<Rightarrow> u8 \<Rightarrow> u8" where
  "crc8_octet crc b = (crc8_shift ^^ 8) (crc XOR b)"

definition ComputeCRC :: "bytes \<Rightarrow> u8" where
  "ComputeCRC data = foldl crc8_octet iseled_crcInit data XOR iseled_crcXorOut"

section \<open>Commands and responses\<close>

definition iseled_EVTClass :: EVTClass where "iseled_EVTClass = EVTClassConfigOnly"

definition DeviceBroadcast :: u8 where "DeviceBroadcast = 0xFF"

record Command =
  Address :: u8
  iseled_Data :: bytes

text \<open>\<open>DeviceResponse\<close> has the same fields; the code converts between the two.\<close>

type_synonym DeviceResponse = Command
type_synonym AggregatedResponse = "DeviceResponse list"

definition iseled_dataLenFieldLen :: nat where "iseled_dataLenFieldLen = 2"
definition crcLen :: nat where "crcLen = 1"
definition addrHeaderLen :: nat where "addrHeaderLen = 1 + iseled_dataLenFieldLen"

lemmas iseled_lens = iseled_dataLenFieldLen_def crcLen_def addrHeaderLen_def

text \<open>The length of the data is cut to 16 bits.\<close>

definition EncodeCommand :: "Command \<Rightarrow> bytes" where
  "EncodeCommand cmd = [Address cmd] @ put16 (word_of_nat (length (iseled_Data cmd))) @ iseled_Data cmd @
     [ComputeCRC (Address cmd # iseled_Data cmd)]"

definition decodeAddressedPayload :: "bytes \<Rightarrow> (u8 \<times> bytes) go" where
  "decodeAddressedPayload b =
     (if length b < addrHeaderLen + crcLen then Err (EIseled ErrShortBuffer_iseled)
      else andThen (idx b 0) (\<lambda>addr. andThen (get16 b 1) (\<lambda>dataLen.
        let want = addrHeaderLen + unat dataLen + crcLen in
        if length b < want then Err (EIseled ErrShortBuffer_iseled)
        else if length b > want then Err (EIseled ErrTrailingBytes_iseled)
        else andThen (slice b addrHeaderLen (addrHeaderLen + unat dataLen)) (\<lambda>data. andThen (idx b (want - 1)) (\<lambda>gotCRC.
          if gotCRC \<noteq> ComputeCRC (addr # data) then Err (EIseled ErrCRCMismatch_iseled) else Ok (addr, data))))))"

definition DecodeCommand :: "bytes \<Rightarrow> Command go" where
  "DecodeCommand b = andThen (decodeAddressedPayload b) (\<lambda>(addr, data). Ok \<lparr>Address = addr, iseled_Data = data\<rparr>)"

definition EncodeDeviceResponse :: "DeviceResponse \<Rightarrow> bytes" where "EncodeDeviceResponse r = EncodeCommand r"

definition DecodeDeviceResponse :: "bytes \<Rightarrow> DeviceResponse go" where
  "DecodeDeviceResponse b = andThen (decodeAddressedPayload b) (\<lambda>(addr, data). Ok \<lparr>Address = addr, iseled_Data = data\<rparr>)"

definition EncodeAggregatedResponse :: "AggregatedResponse \<Rightarrow> bytes" where
  "EncodeAggregatedResponse resp = [word_of_nat (length resp)] @ concat (map EncodeDeviceResponse resp)"

text \<open>The loop: \<open>n\<close> entries to go, what is left of the buffer, the responses so far.\<close>

fun decodeEntries :: "nat \<Rightarrow> bytes \<Rightarrow> AggregatedResponse \<Rightarrow> AggregatedResponse go" where
  "decodeEntries 0 rest resp = (if length rest > 0 then Err (EIseled ErrTrailingBytes_iseled) else Ok resp)"
| "decodeEntries (Suc n) rest resp =
     (if length rest < addrHeaderLen + crcLen then Err (EIseled ErrShortBuffer_iseled)
      else andThen (get16 rest 1) (\<lambda>dataLen.
        let entryLen = addrHeaderLen + unat dataLen + crcLen in
        if length rest < entryLen then Err (EIseled ErrShortBuffer_iseled)
        else andThen (slice rest 0 entryLen) (\<lambda>entry. andThen (DecodeDeviceResponse entry) (\<lambda>r.
          andThen (slice rest entryLen (length rest)) (\<lambda>rest'. decodeEntries n rest' (resp @ [r]))))))"

definition DecodeAggregatedResponse :: "bytes \<Rightarrow> AggregatedResponse go" where
  "DecodeAggregatedResponse b =
     (if length b < 1 then Err (EIseled ErrShortBuffer_iseled)
      else andThen (idx b 0) (\<lambda>count. andThen (slice b 1 (length b)) (\<lambda>rest. decodeEntries (unat count) rest [])))"

section \<open>Configuration\<close>

record IseledConfig =
  iseled_Enabled :: bool
  DeviceCount :: u8
  ResponseTimeoutMicros :: u32

definition zeroIseledConfig :: IseledConfig where
  "zeroIseledConfig = \<lparr>iseled_Enabled = False, DeviceCount = 0, ResponseTimeoutMicros = 0\<rparr>"

definition iseled_configLen :: nat where "iseled_configLen = 6"

definition IseledConfig_Validate :: "IseledConfig \<Rightarrow> rcp_error option" where
  "IseledConfig_Validate c =
     (if \<not> iseled_Enabled c then None
      else if DeviceCount c = 0 then Some (EIseled ErrInvalidDeviceCount) else None)"

definition iseled_EncodeConfig :: "IseledConfig \<Rightarrow> bytes" where
  "iseled_EncodeConfig c = [if iseled_Enabled c then 1 else 0, DeviceCount c] @ put32 (ResponseTimeoutMicros c)"

definition iseled_DecodeConfig :: "bytes \<Rightarrow> IseledConfig go" where
  "iseled_DecodeConfig b =
     (if length b < iseled_configLen then Err (EIseled ErrShortBuffer_iseled)
      else if length b > iseled_configLen then Err (EIseled ErrTrailingBytes_iseled)
      else andThen (idx b 0) (\<lambda>en. andThen (idx b 1) (\<lambda>n. andThen (get32 b 2) (\<lambda>t.
        Ok \<lparr>iseled_Enabled = (en \<noteq> 0), DeviceCount = n, ResponseTimeoutMicros = t\<rparr>))))"

section \<open>The endpoint\<close>

record IseledTriggerEvent =
  ResponseCount :: nat

record IseledEndpoint =
  iseled_addr :: ByteBusID
  iseled_cfg :: IseledConfig
  iseled_transport :: "(Command, AggregatedResponse) transport option"
  iseled_triggers :: "IseledTriggerEvent list"

definition iseled_NewEndpoint :: "ByteBusID \<Rightarrow> IseledEndpoint" where
  "iseled_NewEndpoint addr = \<lparr>iseled_addr = addr, iseled_cfg = zeroIseledConfig, iseled_transport = None, iseled_triggers = []\<rparr>"

definition iseled_adopted :: "IseledConfig \<Rightarrow> IseledEndpoint \<Rightarrow> IseledEndpoint" where
  "iseled_adopted c e = e\<lparr>iseled_cfg := c\<rparr>"

definition iseled_Configure :: "Server \<Rightarrow> IseledEndpoint \<Rightarrow> StreamID \<Rightarrow> IseledConfig \<Rightarrow> Server \<times> IseledEndpoint \<times> rcp_error option" where
  "iseled_Configure s e rq c = configureEndpoint IseledConfig_Validate iseled_EncodeConfig iseled_adopted s e (iseled_addr e) rq c"

definition iseled_SetTransport :: "IseledEndpoint \<Rightarrow> (Command, AggregatedResponse) transport option \<Rightarrow> IseledEndpoint" where
  "iseled_SetTransport e t = e\<lparr>iseled_transport := t\<rparr>"

definition iseled_DrainTriggers :: "IseledEndpoint \<Rightarrow> IseledEndpoint \<times> IseledTriggerEvent list" where
  "iseled_DrainTriggers e = (e\<lparr>iseled_triggers := []\<rparr>, iseled_triggers e)"

text \<open>The loop over the device addresses: the counter is a \<open>uint8\<close> below the device count.\<close>

definition defaultLoopback :: "Command \<Rightarrow> u8 \<Rightarrow> AggregatedResponse" where
  "defaultLoopback cmd deviceCount =
     (if Address cmd \<noteq> DeviceBroadcast then [\<lparr>Address = Address cmd, iseled_Data = iseled_Data cmd\<rparr>]
      else map (\<lambda>i. \<lparr>Address = word_of_nat i, iseled_Data = iseled_Data cmd\<rparr>) [0..<unat deviceCount])"

definition iseled_exchange :: "IseledEndpoint \<Rightarrow> Command \<Rightarrow> IseledEndpoint \<times> AggregatedResponse go" where
  "iseled_exchange e cmd =
     (if \<not> iseled_Enabled (iseled_cfg e) then (e, Err (EIseled ErrChainNotConfigured))
      else if Address cmd \<noteq> DeviceBroadcast \<and> Address cmd \<ge> DeviceCount (iseled_cfg e)
      then (e, Err (EIseled ErrDeviceAddressOutOfRange))
      else
        (case (case iseled_transport e of Some t \<Rightarrow> t cmd | None \<Rightarrow> Inr (defaultLoopback cmd (DeviceCount (iseled_cfg e)))) of
           Inl er \<Rightarrow> (e, Err er)
         | Inr resp \<Rightarrow> (e\<lparr>iseled_triggers := iseled_triggers e @ [\<lparr>ResponseCount = length resp\<rparr>]\<rparr>, Ok resp)))"

definition iseled_encodeConfigBlock :: "IseledEndpoint \<Rightarrow> bytes" where
  "iseled_encodeConfigBlock = iseled_EncodeConfig \<circ> iseled_cfg"

definition iseled_adoptConfigBlock :: "IseledEndpoint adopt" where
  "iseled_adoptConfigBlock = adoptBlock iseled_DecodeConfig IseledConfig_Validate iseled_adopted"

definition iseled_responseFor :: "Message \<Rightarrow> bytes \<Rightarrow> Message" where
  "iseled_responseFor req body = responseWith req (FlagWrite) body"

definition iseled_plainRequest :: "IseledEndpoint \<Rightarrow> Message \<Rightarrow> EVTDisposition \<Rightarrow> IseledEndpoint \<times> Message go" where
  "iseled_plainRequest e req disp =
     (if \<not> Has (Control req) FlagWrite then (e, Err (EIseled ErrRequestMustWrite_iseled))
      else
        (case DecodeCommand (Body req) of
           Err er \<Rightarrow> (e, Err er)
         | Panic \<Rightarrow> (e, Panic)
         | Ok cmd \<Rightarrow>
             (case iseled_exchange e cmd of
                (e', r) \<Rightarrow> (e', andThen r (\<lambda>resp. Ok (iseled_responseFor req (EncodeAggregatedResponse resp)))))))"

definition iseled_HandleRequest :: "Server \<Rightarrow> IseledEndpoint \<Rightarrow> StreamID \<Rightarrow> Message \<Rightarrow> Server \<times> IseledEndpoint \<times> Message go" where
  "iseled_HandleRequest s e rq req =
     endpointRequest (EIseled ErrWrongEndpoint_iseled) iseled_EVTClass iseled_encodeConfigBlock iseled_adoptConfigBlock
       (iseled_responseFor req) (iseled_plainRequest e req) s e (iseled_addr e) rq req"

section \<open>Laws\<close>

interpretation iseled_config: body_codec iseled_EncodeConfig iseled_DecodeConfig "\<lambda>_. True"
  by unfold_locales (auto simp: iseled_DecodeConfig_def iseled_EncodeConfig_def iseled_configLen_def put16_def put32_def wire_simps)

interpretation iseled_ep: config_block iseled_EncodeConfig iseled_DecodeConfig IseledConfig_Validate iseled_cfg iseled_adopted
  by unfold_locales (simp add: iseled_adopted_def)

lemma iseled_adopted_addr [simp]: "iseled_addr (fst (iseled_adoptConfigBlock b e)) = iseled_addr e"
  by (auto simp: iseled_adoptConfigBlock_def adoptBlock_def iseled_adopted_def split: outcome.split option.split)

lemma iseled_plain_keeps: "iseled_cfg (fst (iseled_plainRequest e req disp)) = iseled_cfg e \<and> iseled_addr (fst (iseled_plainRequest e req disp)) = iseled_addr e"
  by (auto simp: iseled_plainRequest_def iseled_exchange_def split: sum.splits outcome.splits option.splits prod.splits)

text \<open>A configured endpoint: its configuration is valid and is what the register map has.\<close>

definition iseled_in_step :: "Server \<Rightarrow> IseledEndpoint \<Rightarrow> bool" where
  "iseled_in_step s e \<longleftrightarrow> IseledConfig_Validate (iseled_cfg e) = None \<and>
     synced (reencode iseled_EncodeConfig iseled_DecodeConfig) iseled_encodeConfigBlock s (iseled_addr e) e"

lemma iseled_request_in_step:
  assumes "iseled_HandleRequest s e rq req = (s', e', r)" "iseled_in_step s e"
  shows "iseled_in_step s' e' \<and> iseled_addr e' = iseled_addr e"
proof -
  have "IseledConfig_Validate (iseled_cfg e') = None \<and>
    synced (reencode iseled_EncodeConfig iseled_DecodeConfig) (iseled_EncodeConfig \<circ> iseled_cfg) s' (iseled_addr e) e' \<and> iseled_addr e' = iseled_addr e"
    by (rule iseled_ep.ep.request_in_step [where I = "\<lambda>x. iseled_addr x = iseled_addr e",
          OF assms(1) [unfolded iseled_HandleRequest_def iseled_encodeConfigBlock_def iseled_adoptConfigBlock_def]])
      (use assms(2) iseled_adopted_addr iseled_plain_keeps in
        \<open>auto simp: iseled_in_step_def iseled_encodeConfigBlock_def iseled_adoptConfigBlock_def\<close>)
  then show ?thesis by (simp add: iseled_in_step_def iseled_encodeConfigBlock_def)
qed

lemma iseled_configure_in_step:
  "iseled_Configure s e rq c = (s', e', None) \<Longrightarrow> iseled_in_step s' e' \<and> iseled_cfg e' = c \<and> iseled_addr e' = iseled_addr e"
  using iseled_ep.configure_in_step [of s e "iseled_addr e" rq c s' e']
  by (auto simp: iseled_Configure_def iseled_in_step_def iseled_encodeConfigBlock_def iseled_adopted_def)

text \<open>One step of the division tells its arguments apart: the low bit of the result says which branch was taken.\<close>

lemma bit_shift1: "n < 7 \<Longrightarrow> bit (push_bit 1 c :: u8) (Suc n) = bit c n" "\<not> bit (push_bit 1 c :: u8) 0"
  by (simp_all only: bit_push_bit_iff) simp_all

lemma crc8_shift_inj: "inj crc8_shift"
proof (rule injI)
  fix a b
  assume eq: "crc8_shift a = crc8_shift b"
  have low: "bit (crc8_shift c) 0 \<longleftrightarrow> c AND 0x80 \<noteq> 0" for c
    by (cases "c AND 0x80 = 0") (simp_all only: crc8_shift_def iseled_crcPoly_def bit_xor_iff bit_shift1 if_True if_False not_True_eq_False simp_thms, simp)
  have top: "c AND 0x80 \<noteq> 0 \<longleftrightarrow> bit c 7" for c :: u8
    by (auto simp: u8_bits)
  have same: "a AND 0x80 \<noteq> 0 \<longleftrightarrow> b AND 0x80 \<noteq> 0" using eq low by metis
  have "x XOR p = y XOR p \<Longrightarrow> x = y" for x y p :: u8 by (metis xor.assoc xor_self_eq xor.right_neutral)
  then have sh: "push_bit 1 a = push_bit 1 b" using eq same unfolding crc8_shift_def by (metis (full_types))
  show "a = b"
  proof (rule bit_word_eqI)
    fix n
    assume "n < LENGTH(8)"
    then consider "n = 7" | "n < 7" by fastforce
    then show "bit a n = bit b n"
      using same top bit_shift1(1) [of n a] bit_shift1(1) [of n b] sh by cases metis+
  qed
qed

lemma crc8_octet_inj: "crc8_octet c x = crc8_octet d y \<longleftrightarrow> c XOR x = d XOR y"
  unfolding crc8_octet_def by (rule inj_eq [OF inj_fn [OF crc8_shift_inj]])

lemma foldl_crc8_inj: "foldl crc8_octet c xs = foldl crc8_octet d xs \<longleftrightarrow> c = d"
proof (induction xs arbitrary: c d)
  case (Cons x xs)
  have "c XOR x = d XOR x \<longleftrightarrow> c = d" by (metis xor.assoc xor_self_eq xor.right_neutral)
  then show ?case using Cons by (simp add: crc8_octet_inj)
qed simp

lemma ComputeCRC_octet: "ComputeCRC (xs @ x # ys) = ComputeCRC (xs @ y # ys) \<longleftrightarrow> x = y"
proof -
  have cancel: "a XOR b = a XOR c \<longleftrightarrow> b = c" "b XOR a = c XOR a \<longleftrightarrow> b = c" for a b c :: u8
    by (metis xor.assoc xor_self_eq xor.left_neutral, metis xor.assoc xor_self_eq xor.right_neutral)
  show ?thesis by (simp add: ComputeCRC_def cancel foldl_crc8_inj crc8_octet_inj)
qed

text \<open>Payloads that fit the length field survive; the decoder never panics.\<close>

definition command_fits :: "Command \<Rightarrow> bool" where "command_fits c \<longleftrightarrow> length (iseled_Data c) < 65536"

lemma decodeAddressedPayload_layout:
  assumes "length d < 65536"
  shows "decodeAddressedPayload ([a] @ put16 (word_of_nat (length d)) @ d @ [k]) =
    (if k \<noteq> ComputeCRC (a # d) then Err (EIseled ErrCRCMismatch_iseled) else Ok (a, d))"
proof -
  have "unat (word_of_nat (length d) :: u16) = length d" using assms by (simp add: unat_of_nat)
  then show ?thesis
    by (simp add: decodeAddressedPayload_def iseled_lens Let_def slice_def put16_def nth_append)
qed

lemma decodeAddressedPayload_encode:
  "command_fits c \<Longrightarrow> decodeAddressedPayload (EncodeCommand c) = Ok (Address c, iseled_Data c)"
  using decodeAddressedPayload_layout [of "iseled_Data c" "Address c" "ComputeCRC (Address c # iseled_Data c)"]
  by (simp add: EncodeCommand_def command_fits_def)

lemma decodeAddressedPayload_fits: "decodeAddressedPayload b = Ok (a, d) \<Longrightarrow> length d < 65536"
proof -
  assume "decodeAddressedPayload b = Ok (a, d)"
  then have "\<exists>w :: u16. length d \<le> unat w"
    by (auto simp: decodeAddressedPayload_def iseled_lens Let_def slice_def andThen_eq_Ok_iff split: if_splits)
  moreover have "unat w < 65536" for w :: u16 using unsigned_less [of w] by simp
  ultimately show ?thesis using le_less_trans by blast
qed

lemma decodeAddressedPayload_no_panic: "decodeAddressedPayload b \<noteq> Panic"
  by (auto simp: decodeAddressedPayload_def iseled_lens Let_def andThen_eq_Panic_iff slice_def idx_def)

interpretation command: body_codec EncodeCommand DecodeCommand command_fits
  by unfold_locales (auto simp: DecodeCommand_def decodeAddressedPayload_encode decodeAddressedPayload_no_panic andThen_eq_Panic_iff)

lemma length_EncodeCommand: "length (EncodeCommand c) = 4 + length (iseled_Data c)"
  by (simp add: EncodeCommand_def)

lemma decodeEntries_encode:
  "list_all command_fits rs \<Longrightarrow> decodeEntries (length rs) (concat (map EncodeDeviceResponse rs)) done = Ok (done @ rs)"
proof (induction rs arbitrary: "done")
  case (Cons r rs)
  let ?e = "EncodeDeviceResponse r" and ?rest = "concat (map EncodeDeviceResponse rs)"
  have u: "unat (word_of_nat (length (iseled_Data r)) :: u16) = length (iseled_Data r)"
    using Cons.prems by (simp add: command_fits_def unat_of_nat)
  have "get16 (?e @ ?rest) 1 = Ok (word_of_nat (length (iseled_Data r)) :: u16)"
    using get16_append [of "[Address r]" "word_of_nat (length (iseled_Data r))" "iseled_Data r @ [ComputeCRC (Address r # iseled_Data r)] @ ?rest"]
    by (simp add: EncodeDeviceResponse_def EncodeCommand_def)
  moreover have len: "length ?e = 4 + length (iseled_Data r)" by (simp add: EncodeDeviceResponse_def length_EncodeCommand)
  moreover have "DecodeDeviceResponse ?e = Ok r"
    using Cons.prems decodeAddressedPayload_encode [of r] by (simp add: DecodeDeviceResponse_def EncodeDeviceResponse_def)
  ultimately show ?case
    using Cons.IH [of "done @ [r]"] Cons.prems u by (simp add: iseled_lens Let_def slice_def)
qed simp

lemma aggregated_roundtrip:
  assumes "length rs < 256" "list_all command_fits rs"
  shows "DecodeAggregatedResponse (EncodeAggregatedResponse rs) = Ok rs"
proof -
  have "unat (word_of_nat (length rs) :: u8) = length rs" using assms(1) by (simp add: unat_of_nat)
  then show ?thesis
    using decodeEntries_encode [OF assms(2), of "[]"]
    by (simp add: DecodeAggregatedResponse_def EncodeAggregatedResponse_def slice_def)
qed

section \<open>Properties\<close>

text \<open>The checksum of an ISELED command detects every change of one octet. When one octet of an encoded command,
  other than the two of the length field, arrives with another value, decoding fails with
  \<open>ErrCRCMismatch\<close>; unchanged, it decodes to the command.\<close>

theorem iseled_detects_octet_errors:
  assumes "length (iseled_Data c) < 65536" "i < length (EncodeCommand c)" "i \<noteq> 1" "i \<noteq> 2"
  shows "DecodeCommand (EncodeCommand c) = Ok c \<and>
    (EncodeCommand c ! i \<noteq> v \<longrightarrow> DecodeCommand ((EncodeCommand c)[i := v]) = Err (EIseled ErrCRCMismatch_iseled))"
proof -
  let ?a = "Address c" and ?d = "iseled_Data c"
  let ?l = "put16 (word_of_nat (length ?d))" and ?k = "ComputeCRC (?a # ?d)"
  have enc: "EncodeCommand c = [?a] @ ?l @ ?d @ [?k]" by (simp add: EncodeCommand_def)
  have dec: "DecodeCommand ([a] @ put16 (word_of_nat (length ?d)) @ d @ [k]) = Err (EIseled ErrCRCMismatch_iseled)"
    if "length d = length ?d" "k \<noteq> ComputeCRC (a # d)" for a d k
    using decodeAddressedPayload_layout [of d a k] that assms(1) by (simp add: DecodeCommand_def)
  have "DecodeCommand ((EncodeCommand c)[i := v]) = Err (EIseled ErrCRCMismatch_iseled)" if v: "EncodeCommand c ! i \<noteq> v"
  proof -
    consider (addr) "i = 0" | (data) j where "i = 3 + j" "j < length ?d" | (crc) "i = 3 + length ?d"
    proof (cases "i < 3 \<or> i = 3 + length ?d")
      case True
      then show ?thesis using that(1,3) assms(3,4) by fastforce
    next
      case False
      then have "i = 3 + (i - 3)" "i - 3 < length ?d" using assms(2) by (auto simp: length_EncodeCommand)
      then show ?thesis using that(2) by blast
    qed
    then show ?thesis
    proof cases
      case addr
      then show ?thesis using dec [of ?d ?k v] v ComputeCRC_octet [of "[]" v ?d ?a] by (simp add: enc)
    next
      case (data j)
      have old: "?d ! j \<noteq> v" using v data by (simp add: enc nth_append put16_def)
      have upd: "(EncodeCommand c)[i := v] = [?a] @ ?l @ ?d[j := v] @ [?k]"
        using data by (simp add: enc put16_def list_update_append1)
      have "?k \<noteq> ComputeCRC (?a # ?d[j := v])"
        using ComputeCRC_octet [of "?a # take j ?d" "?d ! j" "drop (Suc j) ?d" v] old data(2)
        by (simp add: id_take_nth_drop [symmetric] upd_conv_take_nth_drop)
      then show ?thesis using dec [of "?d[j := v]" ?k ?a] upd by simp
    next
      case crc
      then have "(EncodeCommand c)[i := v] = [?a] @ ?l @ ?d @ [v]" by (simp add: enc put16_def)
      then show ?thesis using dec [of ?d v ?a] v crc by (simp add: enc nth_append)
    qed
  qed
  then show ?thesis using command.dec_enc [of c] assms(1) by (simp add: command_fits_def)
qed

definition iseledCommand :: Command where "iseledCommand = \<lparr>Address = DeviceBroadcast, iseled_Data = [1, 2]\<rparr>"

theorem iseled_detects_octet_errors_witness:
  "DecodeCommand ((EncodeCommand iseledCommand)[3 := 9]) = Err (EIseled ErrCRCMismatch_iseled)"
proof -
  have "length (EncodeCommand iseledCommand) = 6" "EncodeCommand iseledCommand ! 3 = 1" "length (iseled_Data iseledCommand) < 65536"
    by (simp_all add: iseledCommand_def EncodeCommand_def put16_def)
  then show ?thesis using iseled_detects_octet_errors [of iseledCommand 3 9] by simp
qed

text \<open>The loopback chain. On an endpoint without a transport, a successful request that is no configuration
  request is a write of a valid command to an existing device or to all of them; the response
  decodes to one answer from the addressed device, or to one from every device in the order of
  their addresses, each with the data of the command, and their number is reported once.\<close>

theorem iseled_loopback_answers:
  assumes "iseled_HandleRequest s e rq req = (s', e', Ok resp)" "Message_EVTSelector req \<noteq> 7" "iseled_transport e = None"
  shows "s' = s \<and> (\<exists>cmd. DecodeCommand (Body req) = Ok cmd \<and>
    (let devices = (if Address cmd = DeviceBroadcast then [0..<unat (DeviceCount (iseled_cfg e))] else [unat (Address cmd)]) in
     list_all (\<lambda>i. i < unat (DeviceCount (iseled_cfg e))) devices \<and>
     DecodeAggregatedResponse (Body resp) = Ok (map (\<lambda>i. \<lparr>Address = word_of_nat i, iseled_Data = iseled_Data cmd\<rparr>) devices) \<and>
     e' = e\<lparr>iseled_triggers := iseled_triggers e @ [\<lparr>ResponseCount = length devices\<rparr>]\<rparr>))"
proof -
  obtain disp where p: "iseled_plainRequest e req disp = (e', Ok resp)" "s' = s"
    using assms(1) unfolding iseled_HandleRequest_def by (cases rule: endpointRequest_cases) (use assms(2) in auto)
  obtain cmd where cmd: "DecodeCommand (Body req) = Ok cmd" using p(1) by (auto simp: iseled_plainRequest_def split: if_splits outcome.splits)
  then have fits: "command_fits cmd"
    using decodeAddressedPayload_fits by (fastforce simp: DecodeCommand_def command_fits_def andThen_eq_Ok_iff)
  let ?devices = "if Address cmd = DeviceBroadcast then [0..<unat (DeviceCount (iseled_cfg e))] else [unat (Address cmd)]"
  let ?answers = "map (\<lambda>i. \<lparr>Address = word_of_nat i :: u8, iseled_Data = iseled_Data cmd\<rparr>) ?devices"
  have loop: "defaultLoopback cmd (DeviceCount (iseled_cfg e)) = ?answers" by (simp add: defaultLoopback_def)
  have x: "iseled_Enabled (iseled_cfg e)" "Address cmd = DeviceBroadcast \<or> Address cmd < DeviceCount (iseled_cfg e)"
    "resp = iseled_responseFor req (EncodeAggregatedResponse ?answers)"
    "e' = e\<lparr>iseled_triggers := iseled_triggers e @ [\<lparr>ResponseCount = length ?devices\<rparr>]\<rparr>"
    using p(1) cmd assms(3) loop by (auto simp: iseled_plainRequest_def iseled_exchange_def split: if_splits)
  have "length ?answers < 256" using unsigned_less [of "DeviceCount (iseled_cfg e)", where ?'a = nat] by simp
  moreover have "list_all command_fits ?answers" using fits by (simp add: list_all_iff command_fits_def)
  ultimately have "DecodeAggregatedResponse (Body resp) = Ok ?answers"
    using x(3) aggregated_roundtrip by (simp add: iseled_responseFor_def responseWith_def)
  moreover have "list_all (\<lambda>i. i < unat (DeviceCount (iseled_cfg e))) ?devices"
    using x(2) by (auto simp: list_all_iff word_less_nat_alt)
  ultimately show ?thesis using cmd p(2) x(4) by (auto simp: Let_def)
qed

text \<open>A broadcast to a chain of three devices.\<close>

definition iseledRoot :: StreamID where "iseledRoot = StreamID 2 0 0 0 0 1 0 1"

definition iseledServer :: Server where
  "iseledServer = fst (AddEndpoint (fst (ClaimRoot NewServer iseledRoot)) iseledRoot 1 EndpointTypeISELED)"

definition iseledEndpoint :: IseledEndpoint where
  "iseledEndpoint = iseled_adopted \<lparr>iseled_Enabled = True, DeviceCount = 3, ResponseTimeoutMicros = 100\<rparr> (iseled_NewEndpoint 1)"

definition iseledRequest :: Message where
  "iseledRequest = zeroMessage\<lparr>Kind := KindShort, ByteBusID := 1, Control := FlagWrite, Body := EncodeCommand iseledCommand\<rparr>"

definition iseledAnswered :: "Server \<times> IseledEndpoint \<times> Message go" where
  "iseledAnswered = iseled_HandleRequest iseledServer iseledEndpoint iseledRoot iseledRequest"

lemma iseledAnswered_Ok: "\<exists>resp. snd (snd iseledAnswered) = Ok resp"
proof -
  have "\<exists>b. ReadEndpoint iseledServer iseledRoot 1 = Ok b"
  proof -
    have "case (ReadEndpoint iseledServer iseledRoot 1 :: bytes go) of Ok _ \<Rightarrow> True | _ \<Rightarrow> False" by code_simp
    then show ?thesis by (auto split: outcome.splits)
  qed
  moreover have "DecodeCommand (EncodeCommand iseledCommand) = Ok iseledCommand"
    using command.dec_enc [of iseledCommand] by (simp add: command_fits_def iseledCommand_def)
  moreover have "\<exists>d. Message_EVTDisposition iseledRequest EVTClassConfigOnly = Ok d \<and> Action d \<noteq> EVTActionConfigure"
    by (simp add: iseledRequest_def Message_EVTDisposition_def CheckEVTPayloadPresence_def ClassifyEVT_def EncodeCommand_def evt_consts zeroMessage_def Let_def EVTClass_Valid_def)
  ultimately show ?thesis
    by (auto simp: iseledAnswered_def iseled_HandleRequest_def endpointRequest_def iseled_EVTClass_def iseled_plainRequest_def
        iseled_exchange_def iseledEndpoint_def iseled_adopted_def iseled_NewEndpoint_def iseledRequest_def iseledCommand_def
        Has_def FlagWrite_def)
qed

theorem iseled_loopback_answers_witness:
  "\<exists>resp. snd (snd iseledAnswered) = Ok resp \<and>
    DecodeAggregatedResponse (Body resp) = Ok [\<lparr>Address = 0, iseled_Data = [1, 2]\<rparr>, \<lparr>Address = 1, iseled_Data = [1, 2]\<rparr>, \<lparr>Address = 2, iseled_Data = [1, 2]\<rparr>]"
proof -
  obtain resp where r: "snd (snd iseledAnswered) = Ok resp" using iseledAnswered_Ok by blast
  then have h: "iseled_HandleRequest iseledServer iseledEndpoint iseledRoot iseledRequest = (fst iseledAnswered, fst (snd iseledAnswered), Ok resp)"
    by (metis iseledAnswered_def prod.collapse)
  have "Message_EVTSelector iseledRequest \<noteq> 7" "iseled_transport iseledEndpoint = None" "DeviceCount (iseled_cfg iseledEndpoint) = 3"
    by (simp_all add: iseledRequest_def Message_EVTSelector_def zeroMessage_def iseledEndpoint_def iseled_adopted_def iseled_NewEndpoint_def)
  moreover have "DecodeCommand (Body iseledRequest) = Ok iseledCommand"
    using command.dec_enc [of iseledCommand] by (simp add: iseledRequest_def command_fits_def iseledCommand_def)
  ultimately show ?thesis
    using iseled_loopback_answers [OF h] r by (auto simp: Let_def iseledCommand_def upt_rec)
qed

end
