(* ===== verification/Udp.thy ===== *)
theory Udp
  imports Ep_Config Acf_Frame
begin

text \<open>
  The package \<open>udp\<close>: how datagrams become requests and responses become datagrams. \<open>annexj.go\<close> (the
  sequence number in front of a frame), \<open>errorcode.go\<close>, \<open>ep0.go\<close>, \<open>router.go\<close>, the loop of \<open>server.go\<close>
  for one datagram, the client side in \<open>controller.go\<close> and the \<open>registry.go\<close> of controllers.

  The handlers of the endpoints, and the objects they work on, are outside: a handler is a function
  on a world \<open>'w\<close>. The sockets are not modelled; a datagram is a list of octets. The text that
  \<open>err.Error()\<close> renders is the argument \<open>render\<close>; what \<open>fmt.Errorf\<close> adds to an error of the controller
  or the registry (the stream, the key) is left out.
\<close>

section \<open>The encapsulation of Annex J\<close>

definition AnnexJEncapSeqLen :: nat where "AnnexJEncapSeqLen = 4"
definition maxTimedHeaderLen :: nat where "maxTimedHeaderLen = 6 * 4"
definition MaxFrameLen :: nat where "MaxFrameLen = AnnexJEncapSeqLen + maxTimedHeaderLen + MaxDataLength"

definition prependEncapSeq :: "u32 \<Rightarrow> bytes \<Rightarrow> bytes" where
  "prependEncapSeq sq avtpdu = put32 sq @ avtpdu"

definition stripEncapSeq :: "bytes \<Rightarrow> (u32 \<times> bytes) go" where
  "stripEncapSeq b =
     (if length b < AnnexJEncapSeqLen then Err (EUdp ErrShortBuffer_udp)
      else andThen (get32 b 0) (\<lambda>sq. andThen (slice b AnnexJEncapSeqLen (length b)) (\<lambda>rest. Ok (sq, rest))))"

section \<open>Error codes\<close>

type_synonym ErrorCode = u8

definition ErrorCodeUnsupportedCommand :: ErrorCode where "ErrorCodeUnsupportedCommand = 1"
definition ErrorCodeSequencerNotKnown :: ErrorCode where "ErrorCodeSequencerNotKnown = 2"
definition ErrorCodeUnauthorizedAccess :: ErrorCode where "ErrorCodeUnauthorizedAccess = 3"
definition ErrorCodeLockedMemAccess :: ErrorCode where "ErrorCodeLockedMemAccess = 4"
definition ErrorCodeRequestCancelled :: ErrorCode where "ErrorCodeRequestCancelled = 5"
definition ErrorCodeRequestNotFound :: ErrorCode where "ErrorCodeRequestNotFound = 6"
definition ErrorCodeEPError :: ErrorCode where "ErrorCodeEPError = 7"
definition ErrorCodeEPNotFound :: ErrorCode where "ErrorCodeEPNotFound = 8"
definition ErrorCodePWMInNoSignal :: ErrorCode where "ErrorCodePWMInNoSignal = 9"
definition ErrorCodeRequestStorageOverflow :: ErrorCode where "ErrorCodeRequestStorageOverflow = 10"
definition ErrorCodeRequestRejected :: ErrorCode where "ErrorCodeRequestRejected = 11"
definition ErrorCodePOCIFailure :: ErrorCode where "ErrorCodePOCIFailure = 12"
definition ErrorCodePresentationTimeTooFarInFuture :: ErrorCode where "ErrorCodePresentationTimeTooFarInFuture = 13"
definition ErrorCodeGPTPFailure :: ErrorCode where "ErrorCodeGPTPFailure = 14"
definition ErrorCodeInvalidParameter :: ErrorCode where "ErrorCodeInvalidParameter = 15"
definition ErrorCodeChainAborted :: ErrorCode where "ErrorCodeChainAborted = 16"
definition ErrorCodeChainError :: ErrorCode where "ErrorCodeChainError = 17"

lemmas error_codes = ErrorCodeUnsupportedCommand_def ErrorCodeSequencerNotKnown_def ErrorCodeUnauthorizedAccess_def ErrorCodeLockedMemAccess_def
  ErrorCodeRequestCancelled_def ErrorCodeRequestNotFound_def ErrorCodeEPError_def ErrorCodeEPNotFound_def
  ErrorCodePWMInNoSignal_def ErrorCodeRequestStorageOverflow_def ErrorCodeRequestRejected_def ErrorCodePOCIFailure_def
  ErrorCodePresentationTimeTooFarInFuture_def ErrorCodeGPTPFailure_def ErrorCodeInvalidParameter_def ErrorCodeChainAborted_def
  ErrorCodeChainError_def

definition ErrorCode_Valid :: "ErrorCode \<Rightarrow> bool" where
  "ErrorCode_Valid c \<longleftrightarrow> c \<in> {ErrorCodeUnsupportedCommand, ErrorCodeSequencerNotKnown, ErrorCodeUnauthorizedAccess, ErrorCodeLockedMemAccess,
     ErrorCodeRequestCancelled, ErrorCodeRequestNotFound, ErrorCodeEPError, ErrorCodeEPNotFound,
     ErrorCodePWMInNoSignal, ErrorCodeRequestStorageOverflow, ErrorCodeRequestRejected, ErrorCodePOCIFailure,
     ErrorCodePresentationTimeTooFarInFuture, ErrorCodeGPTPFailure, ErrorCodeInvalidParameter, ErrorCodeChainAborted,
     ErrorCodeChainError}"

definition errorCodeFor :: "rcp_error \<Rightarrow> ErrorCode" where
  "errorCodeFor er =
     (if errors_is er (EUdp ErrUnknownEndpoint_udp) then ErrorCodeUnsupportedCommand
      else if errors_is er (EAcf ErrEVTReserved) \<or> errors_is er (EAcf ErrEVTMissingPayload) then ErrorCodeUnsupportedCommand
      else if errors_is er (ERequest ErrSafeStateNotConfigured) then ErrorCodeUnsupportedCommand
      else if errors_is er (ERequest ErrInvalidSegmentCount) then ErrorCodeChainError
      else if errors_is er (ERequest ErrChainedSegmentFailed) then ErrorCodeChainAborted
      else if errors_is er (ERequest ErrUnknownTicket) then ErrorCodeRequestNotFound
      else if errors_is er (ERequest ErrTicketCancelled) \<or> errors_is er (ERequest ErrPurgedByWatchdog) then ErrorCodeRequestCancelled
      else if errors_is er (EE2e ErrCRCMismatch) then ErrorCodePOCIFailure
      else if errors_is er (ERegmap ErrAccessDenied) \<or> errors_is er (ERegmap ErrNotRootClient) \<or>
        errors_is er (ERegmap ErrRootAlreadyClaimed) then ErrorCodeUnauthorizedAccess
      else if errors_is er (ERegmap ErrRegisterLocked) \<or> errors_is er (ERegmap ErrGeneralBlockReadOnly) then ErrorCodeLockedMemAccess
      else if errors_is er (ERegmap ErrUnknownEndpoint_regmap) then ErrorCodeEPNotFound
      else if errors_is er (EPwm ErrSignalLost) then ErrorCodePWMInNoSignal
      else ErrorCodeInvalidParameter)"

definition EncodeErrorBody :: "ErrorCode \<Rightarrow> bytes \<Rightarrow> bytes" where
  "EncodeErrorBody code diagnostic = code # diagnostic"

definition DecodeErrorBody :: "bytes \<Rightarrow> (ErrorCode \<times> bytes) go" where
  "DecodeErrorBody body =
     (if length body < 1 then Err (EUdp ErrShortBuffer_udp)
      else andThen (idx body 0) (\<lambda>c. andThen (slice body 1 (length body)) (\<lambda>d. Ok (c, d))))"

section \<open>EP0\<close>

definition udp_responseFor :: "Message \<Rightarrow> bytes \<Rightarrow> Message" where
  "udp_responseFor req body = responseWith req (Control req AND (FlagRead OR FlagWrite)) body"

definition EP0Handler_HandleRequest :: "Server \<Rightarrow> Header \<Rightarrow> Message \<Rightarrow> Server \<times> Message go" where
  "EP0Handler_HandleRequest s hdr req =
     (if ByteBusID req \<noteq> EP0 then (s, Err (EUdp ErrWrongEndpoint_udp))
      else if Has (Control req) FlagWrite then
        (case WriteEP0 s (HStreamID hdr) (Body req) of
           (s', Some er) \<Rightarrow> (s', Err er)
         | (s', None) \<Rightarrow> (s', Ok (udp_responseFor req [])))
      else if Has (Control req) FlagRead then
        (s, andThen (HandleDiscoveryRequest s hdr (Kind req = KindLong)) (\<lambda>body. Ok (udp_responseFor req body)))
      else (s, Err (EUdp ErrRequestMustReadOrWrite_udp)))"

section \<open>The router\<close>

type_synonym 'w rhandler = "'w \<Rightarrow> StreamID \<Rightarrow> Message \<Rightarrow> 'w \<times> Message go"
type_synonym 'w ep0handler = "'w \<Rightarrow> Header \<Rightarrow> Message \<Rightarrow> 'w \<times> Message go"

record 'w Router =
  ep0 :: "'w ep0handler"
  timeSyncSupported :: bool
  handlers :: "u16 \<rightharpoonup> 'w rhandler"

definition NewRouter :: "'w ep0handler \<Rightarrow> bool \<Rightarrow> 'w Router" where
  "NewRouter e ts = \<lparr>ep0 = e, timeSyncSupported = ts, handlers = Map.empty\<rparr>"

definition Router_Register :: "'w Router \<Rightarrow> u16 \<Rightarrow> 'w rhandler \<Rightarrow> 'w Router \<times> rcp_error option" where
  "Router_Register r a h =
     (if a = EP0 then (r, Some (EUdp ErrReservedAddress_udp))
      else if handlers r a \<noteq> None then (r, Some (EUdp ErrDuplicateEndpoint_udp))
      else (r\<lparr>handlers := (handlers r)(a \<mapsto> h)\<rparr>, None))"

definition Router_Deregister :: "'w Router \<Rightarrow> u16 \<Rightarrow> 'w Router" where
  "Router_Deregister r a = r\<lparr>handlers := (handlers r)(a := None)\<rparr>"

definition errorResponse :: "(rcp_error \<Rightarrow> bytes) \<Rightarrow> Message \<Rightarrow> rcp_error \<Rightarrow> Message" where
  "errorResponse render req er = zeroMessage\<lparr>Kind := Kind req, ByteBusID := ByteBusID req, TransactionNum := TransactionNum req,
     Control := FlagResponse OR FlagError OR (Control req AND (FlagRead OR FlagWrite)),
     Body := EncodeErrorBody (errorCodeFor er) (render er)\<rparr>"

text \<open>\<open>Route\<close> answers with a message, or not at all (\<open>Ok None\<close>); it never returns an error.\<close>

definition Route :: "(rcp_error \<Rightarrow> bytes) \<Rightarrow> 'w Router \<Rightarrow> 'w \<Rightarrow> Header \<Rightarrow> Message \<Rightarrow> 'w \<times> Message option go" where
  "Route render r w hdr req =
     (if Header_Disposition hdr (timeSyncSupported r) = DispositionDrop then (w, Ok None)
      else case CheckEVTPayloadPresence (EVT req) (length (Body req)) of
        Err er \<Rightarrow> (w, Ok (Some (errorResponse render req er)))
      | Panic \<Rightarrow> (w, Panic)
      | Ok _ \<Rightarrow>
          (case (if ByteBusID req = EP0 then ep0 r w hdr req
                 else case handlers r (ByteBusID req) of
                        None \<Rightarrow> (w, Err (EUdp ErrUnknownEndpoint_udp))
                      | Some h \<Rightarrow> h w (HStreamID hdr) req) of
             (w', Ok resp) \<Rightarrow> (w', Ok (Some resp))
           | (w', Panic) \<Rightarrow> (w', Panic)
           | (w', Err er) \<Rightarrow>
               if errors_is er (EDiscovery ErrDiscoveryRequiresUntimedHeader) \<or> errors_is er (EDiscovery ErrDiscoveryRequestIsACFGBB)
               then (w', Ok None) else (w', Ok (Some (errorResponse render req er)))))"

section \<open>The server loop\<close>

record UdpServer =
  us_streamID :: StreamID
  us_seq :: u32
  us_encapSeq :: u32

text \<open>The messages of a frame in order, each after the one before; only answers are collected.\<close>

fun routeAll :: "(rcp_error \<Rightarrow> bytes) \<Rightarrow> 'w Router \<Rightarrow> 'w \<Rightarrow> Header \<Rightarrow> Message list \<Rightarrow> 'w \<times> Message list go" where
  "routeAll render r w hdr [] = (w, Ok [])"
| "routeAll render r w hdr (msg # msgs) =
     (case Route render r w hdr msg of
        (w', Panic) \<Rightarrow> (w', Panic)
      | (w', Err er) \<Rightarrow> (w', Err er)
      | (w', Ok reply) \<Rightarrow>
          (case routeAll render r w' hdr msgs of
             (w'', rest) \<Rightarrow> (w'', andThen rest (\<lambda>rs. Ok ((case reply of Some m \<Rightarrow> [m] | None \<Rightarrow> []) @ rs)))))"

definition untimedHeader :: "StreamID \<Rightarrow> u8 \<Rightarrow> Header" where
  "untimedHeader sid sq = \<lparr>Timed = False, StreamIDValid = True, SequenceNum = sq, DataLength = 0, HStreamID = sid,
     HTimestamp = 0, HTimestampStatus = TimestampMissing\<rparr>"

text \<open>What a socket read into a buffer of \<open>MaxFrameLen\<close> octets leaves of a datagram, decoded.\<close>

definition receiveFrame :: "bytes \<Rightarrow> Frame go" where
  "receiveFrame datagram = andThen (stripEncapSeq (take MaxFrameLen datagram)) (\<lambda>(_, rest). DecodeFrame rest)"

text \<open>One turn of \<open>serve\<close>: a datagram comes in, at most one goes out.\<close>

definition serveDatagram ::
  "(rcp_error \<Rightarrow> bytes) \<Rightarrow> 'w Router \<Rightarrow> UdpServer \<Rightarrow> 'w \<Rightarrow> bytes \<Rightarrow> 'w \<times> UdpServer \<times> bytes option go" where
  "serveDatagram render r srv w datagram =
     (case receiveFrame datagram of
        Err _ \<Rightarrow> (w, srv, Ok None)
      | Panic \<Rightarrow> (w, srv, Panic)
      | Ok frame \<Rightarrow>
          (case routeAll render r w (FHeader frame) (FMessages frame) of
             (w', Panic) \<Rightarrow> (w', srv, Panic)
           | (w', Err er) \<Rightarrow> (w', srv, Err er)
           | (w', Ok responses) \<Rightarrow>
               if length responses = 0 then (w', srv, Ok None)
               else
                 (let srv1 = srv\<lparr>us_seq := us_seq srv + 1\<rparr> in
                  case EncodeFrame (untimedHeader (us_streamID srv) (ucast (us_seq srv1))) responses of
                    Err _ \<Rightarrow> (w', srv1, Ok None)
                  | Panic \<Rightarrow> (w', srv1, Panic)
                  | Ok out \<Rightarrow>
                      (let srv2 = srv1\<lparr>us_encapSeq := us_encapSeq srv + 1\<rparr>
                       in (w', srv2, Ok (Some (prependEncapSeq (us_encapSeq srv2) out)))))))"

section \<open>The controller\<close>

text \<open>A channel of capacity one is the option of the message in it.\<close>

record Controller =
  ct_streamID :: StreamID
  nextTxn :: u32
  ct_seq :: u32
  ct_encapSeq :: u32
  ct_closed :: bool
  ct_pending :: "TransactionNum \<rightharpoonup> Message option"

definition NewController :: "StreamID \<Rightarrow> Controller" where
  "NewController sid = \<lparr>ct_streamID = sid, nextTxn = 0, ct_seq = 0, ct_encapSeq = 0, ct_closed = False, ct_pending = Map.empty\<rparr>"

definition requestMessage :: "u16 \<Rightarrow> TransactionNum \<Rightarrow> ControlFlags \<Rightarrow> bytes \<Rightarrow> Message" where
  "requestMessage a txn control body = zeroMessage\<lparr>Kind := KindShort, ByteBusID := a, TransactionNum := txn, Control := control, Body := body\<rparr>"

definition ct_encode :: "Controller \<Rightarrow> Message \<Rightarrow> Controller \<times> bytes go" where
  "ct_encode c req = (let c1 = c\<lparr>ct_seq := ct_seq c + 1\<rparr>
     in (c1, EncodeFrame (untimedHeader (ct_streamID c) (ucast (ct_seq c1))) [req]))"

text \<open>
  \<open>Request\<close> up to the point where the datagram is handed to the socket: the transaction number and the
  datagram, or the error it returns with. \<open>ctxDone\<close> says whether the context has ended already.
\<close>

definition beginRequest ::
  "Controller \<Rightarrow> bool \<Rightarrow> u16 \<Rightarrow> ControlFlags \<Rightarrow> bytes \<Rightarrow> Controller \<times> (TransactionNum \<times> bytes) go" where
  "beginRequest c ctxDone a control body =
     (if ct_closed c then (c, Err (EUdp ErrClosed))
      else if ctxDone then (c, Err (EUdp ErrTimeout))
      else
        (let c1 = c\<lparr>nextTxn := nextTxn c + 1\<rparr>; txn = ucast (nextTxn c1) in
         case ct_encode c1 (requestMessage a txn control body) of
           (c2, Err er) \<Rightarrow> (c2, Err er)
         | (c2, Panic) \<Rightarrow> (c2, Panic)
         | (c2, Ok frame) \<Rightarrow>
             (let c3 = c2\<lparr>ct_encapSeq := ct_encapSeq c2 + 1\<rparr>
              in (c3\<lparr>ct_pending := (ct_pending c3)(txn \<mapsto> None)\<rparr>, Ok (txn, prependEncapSeq (ct_encapSeq c3) frame)))))"

text \<open>One message of a received frame: it goes to the channel of its transaction if that is empty.\<close>

definition deliverMessage :: "Message \<Rightarrow> Controller \<Rightarrow> Controller" where
  "deliverMessage msg c =
     (case ct_pending c (TransactionNum msg) of
        Some None \<Rightarrow> c\<lparr>ct_pending := (ct_pending c)(TransactionNum msg \<mapsto> Some msg)\<rparr>
      | _ \<Rightarrow> c)"

text \<open>One turn of \<open>readLoop\<close>.\<close>

definition readDatagram :: "Controller \<Rightarrow> bytes \<Rightarrow> Controller" where
  "readDatagram c datagram =
     (case receiveFrame datagram of
        Ok frame \<Rightarrow> fold deliverMessage (FMessages frame) c
      | _ \<Rightarrow> c)"

text \<open>
  The end of \<open>Request\<close>: with the message in the channel, or with the given error when the context ends,
  the connection closes or the write to the socket fails. The entry is removed either way.
  \<open>None\<close>: the call is still waiting.
\<close>

definition endRequest :: "Controller \<Rightarrow> TransactionNum \<Rightarrow> rcp_error option \<Rightarrow> Controller \<times> Message go option" where
  "endRequest c txn failure =
     (let c' = c\<lparr>ct_pending := (ct_pending c)(txn := None)\<rparr> in
      case failure of
        Some er \<Rightarrow> (c', Some (Err er))
      | None \<Rightarrow>
          (case ct_pending c txn of
             Some (Some msg) \<Rightarrow> (c', Some (Ok msg))
           | _ \<Rightarrow> (c, None)))"

definition Controller_Close :: "Controller \<Rightarrow> Controller" where
  "Controller_Close c = (if ct_closed c then c else c\<lparr>ct_closed := True, ct_pending := Map.empty\<rparr>)"

text \<open>\<open>Discover\<close> on the response of its read: the octets of the register map, or the failure.\<close>

definition discoverResult :: "Message \<Rightarrow> bytes option" where
  "discoverResult resp = (if Message_ResponseKind resp = ResponseError then None else Some (Body resp))"

section \<open>The registry\<close>

text \<open>
  A closing of the registry also closes controllers: the operations return what becomes of them.
  \<open>dialed\<close> is the error of resolving and dialing the address, if any.
\<close>

record Registry =
  ctrls :: "string \<rightharpoonup> Controller"
  rg_closed :: bool

definition NewRegistry :: Registry where "NewRegistry = \<lparr>ctrls = Map.empty, rg_closed = False\<rparr>"

definition Registry_Register :: "Registry \<Rightarrow> string \<Rightarrow> Controller \<Rightarrow> Registry \<times> rcp_error option" where
  "Registry_Register r k c =
     (if rg_closed r then (r, Some (EUdp ErrClosed))
      else if ctrls r k \<noteq> None then (r, Some (EUdp ErrAlreadyExists))
      else (r\<lparr>ctrls := (ctrls r)(k \<mapsto> c)\<rparr>, None))"

definition Registry_Dial :: "Registry \<Rightarrow> string \<Rightarrow> StreamID \<Rightarrow> rcp_error option \<Rightarrow> Registry \<times> Controller go" where
  "Registry_Dial r k sid dialed =
     (case dialed of
        Some er \<Rightarrow> (r, Err er)
      | None \<Rightarrow>
          (case Registry_Register r k (NewController sid) of
             (r', Some er) \<Rightarrow> (r', Err er)
           | (r', None) \<Rightarrow> (r', Ok (NewController sid))))"

definition Registry_Deregister :: "Registry \<Rightarrow> string \<Rightarrow> Registry \<times> Controller go" where
  "Registry_Deregister r k =
     (case ctrls r k of
        None \<Rightarrow> (r, Err (EUdp ErrNotFound))
      | Some c \<Rightarrow> (r\<lparr>ctrls := (ctrls r)(k := None)\<rparr>, Ok (Controller_Close c)))"

definition Registry_Lookup :: "Registry \<Rightarrow> string \<Rightarrow> Controller go" where
  "Registry_Lookup r k =
     (if rg_closed r then Err (EUdp ErrClosed)
      else case ctrls r k of None \<Rightarrow> Err (EUdp ErrNotFound) | Some c \<Rightarrow> Ok c)"

definition Registry_Close :: "Registry \<Rightarrow> Registry \<times> (string \<rightharpoonup> Controller)" where
  "Registry_Close r =
     (if rg_closed r then (r, Map.empty)
      else (r\<lparr>ctrls := Map.empty, rg_closed := True\<rparr>, map_option Controller_Close \<circ> ctrls r))"

section \<open>Laws\<close>

interpretation encap: exact_codec "\<lambda>(sq, rest). prependEncapSeq sq rest" stripEncapSeq "\<lambda>_. True"
proof
  fix b x
  assume x: "stripEncapSeq b = Ok x"
  then have "length b \<ge> 4" by (auto simp: stripEncapSeq_def AnnexJEncapSeqLen_def split: if_splits)
  with x split_at_nths [OF this] show "True \<and> (case x of (sq, rest) \<Rightarrow> prependEncapSeq sq rest) = b"
    by (auto simp: stripEncapSeq_def prependEncapSeq_def AnnexJEncapSeqLen_def eval_nat_numeral)
qed (auto simp: stripEncapSeq_def prependEncapSeq_def AnnexJEncapSeqLen_def put32_def wire_simps)

interpretation error_body: exact_codec "\<lambda>(c, d). EncodeErrorBody c d" DecodeErrorBody "\<lambda>_. True"
proof
  fix b x
  assume "DecodeErrorBody b = Ok x"
  then show "True \<and> (case x of (c, d) \<Rightarrow> EncodeErrorBody c d) = b"
    by (cases b) (auto simp: DecodeErrorBody_def EncodeErrorBody_def slice_def split: if_splits)
qed (auto simp: DecodeErrorBody_def EncodeErrorBody_def slice_def idx_def Suc_le_eq split: if_splits)

text \<open>A single message always fits into a frame.\<close>

lemma EncodeFrame_single: "encodable m \<Longrightarrow> \<exists>b. EncodeFrame (untimedHeader sid sq) [m] = Ok b"
proof -
  assume m: "encodable m"
  let ?pad = "(4 - unpaddedLen m mod 4) mod 4"
  obtain b where b: "EncodeMessage m = Ok b" using m EncodeMessage_Ok_iff by blast
  have "length b = unpaddedLen m + ?pad"
    using b EncodeMessage_encodable [OF m] by (auto simp: Let_def encodeRow1_def encodeRow2_def unpaddedLen_def message_consts)
  moreover have "(unpaddedLen m + ?pad) div 4 \<le> maxQuadlets" using m by (simp add: padded_div encodable_def)
  moreover have "(unpaddedLen m + ?pad) div 4 * 4 = unpaddedLen m + ?pad" by (rule padded_mod)
  ultimately have len: "length b \<le> 2044" by (simp add: maxQuadlets_def)
  then have "unat (word_of_nat (length b) :: u16) = length b" by (simp add: unat_of_nat)
  then have "\<exists>h. EncodeHeader ((untimedHeader sid sq)\<lparr>DataLength := word_of_nat (length b)\<rparr>) = Ok h"
    using len by (simp add: EncodeHeader_Ok_iff MaxDataLength_def)
  then show ?thesis using b len by (auto simp: EncodeFrame_def MaxDataLength_def)
qed

text \<open>The messages a controller sends and a server answers with fit on the wire when their body does.\<close>

lemma encodable_request:
  "control AND NOT knownFlags = 0 \<Longrightarrow> unat txn \<le> maxTransactionNum \<Longrightarrow> unat a \<le> maxByteBusID \<Longrightarrow> length body \<le> 2036 \<Longrightarrow>
   encodable (requestMessage a txn control body)"
  by (simp add: encodable_def requestMessage_def zeroMessage_def unpaddedLen_def message_consts kind_defs)

lemma encodable_response:
  assumes "encodable (requestMessage a txn control b)" "length body \<le> 2036"
  shows "encodable (udp_responseFor (wire_message (requestMessage a txn control b)) body)"
proof -
  have "(FlagResponse OR (x AND (FlagRead OR FlagWrite))) AND NOT knownFlags = 0" for x
    by (simp add: knownFlags_def flag_defs u8_bits)
  then show ?thesis
    using assms by (simp add: encodable_def requestMessage_def zeroMessage_def unpaddedLen_def message_consts kind_defs
        udp_responseFor_def responseWith_def wire_message_def)
qed

lemma encodable_errorResponse:
  assumes "encodable (requestMessage a txn control b)" "length (render er) \<le> 2035"
  shows "encodable (errorResponse render (wire_message (requestMessage a txn control b)) er)"
proof -
  have "(FlagResponse OR FlagError OR (x AND (FlagRead OR FlagWrite))) AND NOT knownFlags = 0" for x
    by (simp add: knownFlags_def flag_defs u8_bits)
  then show ?thesis
    using assms by (simp add: encodable_def requestMessage_def zeroMessage_def unpaddedLen_def message_consts kind_defs
        errorResponse_def EncodeErrorBody_def wire_message_def)
qed

text \<open>What was framed and sent arrives as it left.\<close>

lemma receiveFrame_sent:
  assumes "EncodeFrame hdr msgs = Ok b"
  shows "receiveFrame (prependEncapSeq sq b) =
    Ok \<lparr>FHeader = frame_header hdr (length b - wireLen hdr), FMessages = map wire_message msgs\<rparr>"
proof -
  note rt = DecodeFrame_EncodeFrame [OF assms]
  have "wireLen hdr \<le> 24" by (simp add: wireLen_def avtp_consts)
  moreover have "length b - wireLen hdr \<le> MaxDataLength" "wireLen hdr \<le> length b" using rt by auto
  ultimately have "length (prependEncapSeq sq b) \<le> MaxFrameLen"
    by (simp add: prependEncapSeq_def MaxFrameLen_def AnnexJEncapSeqLen_def maxTimedHeaderLen_def put32_def)
  then show ?thesis using rt encap.dec_enc [of "(sq, b)"] by (simp add: receiveFrame_def)
qed

lemma frame_header_untimed:
  "Timed (frame_header (untimedHeader sid sq) n) = False" "HStreamID (frame_header (untimedHeader sid sq) n) = sid"
  by (simp_all add: frame_header_def wire_header_def untimedHeader_def)

text \<open>\<open>Request\<close> gets as far as the socket exactly when its message can be encoded.\<close>

lemma beginRequest_cases:
  fixes txn :: TransactionNum
  assumes "\<not> ct_closed c" "txn = ucast (nextTxn c + 1)" "req = requestMessage a txn control body"
  shows "encodable req \<Longrightarrow> \<exists>c1 datagram sq n. beginRequest c False a control body = (c1, Ok (txn, datagram)) \<and>
      nextTxn c1 = nextTxn c + 1 \<and> \<not> ct_closed c1 \<and> ct_streamID c1 = ct_streamID c \<and> ct_pending c1 = (ct_pending c)(txn \<mapsto> None) \<and>
      receiveFrame datagram = Ok \<lparr>FHeader = frame_header (untimedHeader (ct_streamID c) sq) n, FMessages = [wire_message req]\<rparr>"
    and "\<not> encodable req \<Longrightarrow> \<exists>c1 er. beginRequest c False a control body = (c1, Err er) \<and>
      nextTxn c1 = nextTxn c + 1 \<and> \<not> ct_closed c1 \<and> ct_streamID c1 = ct_streamID c \<and> ct_pending c1 = ct_pending c"
proof -
  let ?hdr = "untimedHeader (ct_streamID c) (ucast (ct_seq c + 1))"
  { assume "encodable req"
    then obtain b where b: "EncodeFrame ?hdr [req] = Ok b" using EncodeFrame_single by blast
    then show "\<exists>c1 datagram sq n. beginRequest c False a control body = (c1, Ok (txn, datagram)) \<and>
      nextTxn c1 = nextTxn c + 1 \<and> \<not> ct_closed c1 \<and> ct_streamID c1 = ct_streamID c \<and> ct_pending c1 = (ct_pending c)(txn \<mapsto> None) \<and>
      receiveFrame datagram = Ok \<lparr>FHeader = frame_header (untimedHeader (ct_streamID c) sq) n, FMessages = [wire_message req]\<rparr>"
      using assms receiveFrame_sent [OF b] by (auto simp: beginRequest_def ct_encode_def Let_def) }
  { assume "\<not> encodable req"
    then obtain er where "EncodeMessage req = Err er" using EncodeMessage_Ok_iff EncodeMessage_no_panic by (cases "EncodeMessage req") auto
    then have "EncodeFrame ?hdr [req] = Err er" by (simp add: EncodeFrame_def)
    then show "\<exists>c1 er. beginRequest c False a control body = (c1, Err er) \<and>
      nextTxn c1 = nextTxn c + 1 \<and> \<not> ct_closed c1 \<and> ct_streamID c1 = ct_streamID c \<and> ct_pending c1 = ct_pending c"
      using assms by (auto simp: beginRequest_def ct_encode_def Let_def) }
qed

text \<open>What the router makes of the outcome of a handler.\<close>

definition silent :: "rcp_error \<Rightarrow> bool" where
  "silent er \<longleftrightarrow> errors_is er (EDiscovery ErrDiscoveryRequiresUntimedHeader) \<or> errors_is er (EDiscovery ErrDiscoveryRequestIsACFGBB)"

definition handled :: "'w Router \<Rightarrow> 'w \<Rightarrow> Header \<Rightarrow> Message \<Rightarrow> 'w \<times> Message go" where
  "handled r w hdr req =
     (if ByteBusID req = EP0 then ep0 r w hdr req
      else case handlers r (ByteBusID req) of
             None \<Rightarrow> (w, Err (EUdp ErrUnknownEndpoint_udp))
           | Some h \<Rightarrow> h w (HStreamID hdr) req)"

lemma Route_untimed:
  assumes "\<not> Timed hdr" "EVT req = 0"
  shows "Route render r w hdr req =
    (case handled r w hdr req of
       (w', Ok resp) \<Rightarrow> (w', Ok (Some resp))
     | (w', Panic) \<Rightarrow> (w', Panic)
     | (w', Err er) \<Rightarrow> (w', Ok (if silent er then None else Some (errorResponse render req er))))"
  using assms
  by (simp add: Route_def handled_def silent_def Header_Disposition_def CheckEVTPayloadPresence_def
      split: prod.split outcome.split)

lemma serveDatagram_reply:
  assumes "receiveFrame datagram = Ok \<lparr>FHeader = hdr, FMessages = [req]\<rparr>" "Route render r w hdr req = (w', Ok (Some resp))" "encodable resp"
  shows "\<exists>srv' out. serveDatagram render r srv w datagram = (w', srv', Ok (Some out)) \<and>
    (\<exists>h. receiveFrame out = Ok \<lparr>FHeader = h, FMessages = [wire_message resp]\<rparr>)"
proof -
  obtain b where b: "EncodeFrame (untimedHeader (us_streamID srv) (ucast (us_seq srv + 1))) [resp] = Ok b"
    using EncodeFrame_single [OF assms(3)] by blast
  then show ?thesis using assms(1,2) receiveFrame_sent [OF b] by (simp add: serveDatagram_def Let_def)
qed

lemma errorCodeFor_Valid: "ErrorCode_Valid (errorCodeFor er)"
  by (simp add: errorCodeFor_def ErrorCode_Valid_def)

lemma Has_FlagError:
  "Has ((FlagResponse OR FlagError OR x) AND NOT FlagRead) FlagError" "Has ((FlagResponse OR FlagError OR x) OR FlagRead) FlagError"
  by (simp_all add: Has_def flag_defs u8_bits)

text \<open>What a client sees of an error response.\<close>

lemma errorResponse_received:
  "Message_ResponseKind (wire_message (errorResponse render req er)) = ResponseError"
  "DecodeErrorBody (Body (wire_message (errorResponse render req er))) = Ok (errorCodeFor er, render er)"
  using error_body.dec_enc [of "(errorCodeFor er, render er)"] Has_FlagError
  by (simp_all add: Message_ResponseKind_def wire_message_def errorResponse_def zeroMessage_def evtResponseAcknowledge_def)

lemma Route_never_fails: "Route render r w hdr req \<noteq> (w', Err er)"
  unfolding Route_def handled_def [symmetric]
  by (cases "handled r w hdr req"; cases "snd (handled r w hdr req)") (auto split: outcome.split)

lemma routeAll_Ok:
  assumes "\<And>w hdr req w' out. Route render r w hdr req = (w', out) \<Longrightarrow> out \<noteq> Panic" "routeAll render r w hdr msgs = (w', out)"
  shows "\<exists>rs. out = Ok rs \<and> length rs \<le> length msgs"
  using assms(2)
proof (induction msgs arbitrary: w w' out)
  case (Cons m msgs)
  obtain w1 o1 where r: "Route render r w hdr m = (w1, o1)" by (cases "Route render r w hdr m")
  moreover obtain w2 o2 where rs: "routeAll render r w1 hdr msgs = (w2, o2)" by (cases "routeAll render r w1 hdr msgs")
  moreover have "o1 \<noteq> Panic" using assms(1) r by blast
  moreover have "o1 \<noteq> Err er" for er using r Route_never_fails [of render r w hdr m] by auto
  ultimately show ?case using Cons.IH [OF rs] Cons.prems by (cases o1) (auto split: option.splits)
qed simp

section \<open>Properties\<close>

text \<open>The registry is a dictionary until it is closed: it finds what was registered last, and no key twice.\<close>

lemma Registry_laws:
  "Registry_Register r k c = (r', None) \<Longrightarrow> Registry_Lookup r' k = Ok c \<and> (\<forall>k'. k' \<noteq> k \<longrightarrow> Registry_Lookup r' k' = Registry_Lookup r k')"
  "Registry_Lookup r k = Ok c \<Longrightarrow> Registry_Register r k c' = (r, Some (EUdp ErrAlreadyExists))"
  "Registry_Deregister r k = (r', Ok c) \<Longrightarrow> ct_closed c \<and> \<not> (\<exists>c. Registry_Lookup r' k = Ok c)"
  "Registry_Lookup (fst (Registry_Close r)) k = Err (EUdp ErrClosed)"
  "snd (Registry_Register (fst (Registry_Close r)) k c) = Some (EUdp ErrClosed)"
  by (auto simp: Registry_Register_def Registry_Lookup_def Registry_Deregister_def Registry_Close_def Controller_Close_def
      split: if_splits option.splits)

text \<open>
  The whole way of a request. \<open>exchange\<close> runs a request through the controller, the server and back:
  the datagram \<open>Request\<close> sends is served, the datagram the server answers with is read, and the waiting
  call ends. The result is that of \<open>Request\<close>; \<open>None\<close> is a call that is left waiting for its context.
\<close>

definition exchange :: "(rcp_error \<Rightarrow> bytes) \<Rightarrow> 'w Router \<Rightarrow> UdpServer \<Rightarrow> Controller \<Rightarrow> 'w \<Rightarrow> u16 \<Rightarrow> ControlFlags \<Rightarrow> bytes
    \<Rightarrow> Controller \<times> UdpServer \<times> 'w \<times> Message go option" where
  "exchange render r srv c w a control body =
     (case beginRequest c False a control body of
        (c1, Err er) \<Rightarrow> (c1, srv, w, Some (Err er))
      | (c1, Panic) \<Rightarrow> (c1, srv, w, Some Panic)
      | (c1, Ok (txn, datagram)) \<Rightarrow>
          (case serveDatagram render r srv w datagram of
             (w', srv', Ok (Some out)) \<Rightarrow>
               (case endRequest (readDatagram c1 out) txn None of (c2, res) \<Rightarrow> (c2, srv', w', res))
           | (w', srv', _) \<Rightarrow> (c1, srv', w', None)))"

lemma exchange_routed:
  fixes txn :: TransactionNum
  assumes c: "\<not> ct_closed c" "txn = ucast (nextTxn c + 1)" "req = requestMessage a txn control body" "encodable req"
    and route: "\<And>hdr. \<not> Timed hdr \<Longrightarrow> HStreamID hdr = ct_streamID c \<Longrightarrow> Route render r w hdr (wire_message req) = (w', Ok (Some resp))"
    and resp: "encodable resp" "TransactionNum resp = txn"
  shows "\<exists>c' srv'. exchange render r srv c w a control body = (c', srv', w', Some (Ok (wire_message resp))) \<and>
    nextTxn c' = nextTxn c + 1 \<and> ct_pending c' = (ct_pending c)(txn := None)"
proof -
  obtain c1 datagram sq n where b: "beginRequest c False a control body = (c1, Ok (txn, datagram))"
    and c1: "nextTxn c1 = nextTxn c + 1" "ct_pending c1 = (ct_pending c)(txn \<mapsto> None)"
    and d: "receiveFrame datagram = Ok \<lparr>FHeader = frame_header (untimedHeader (ct_streamID c) sq) n, FMessages = [wire_message req]\<rparr>"
    using beginRequest_cases(1) [OF c] by blast
  obtain srv' out h where s: "serveDatagram render r srv w datagram = (w', srv', Ok (Some out))"
    and o: "receiveFrame out = Ok \<lparr>FHeader = h, FMessages = [wire_message resp]\<rparr>"
    using serveDatagram_reply [OF d route resp(1)] frame_header_untimed by metis
  have "TransactionNum (wire_message resp) = txn" using resp(2) by (simp add: wire_message_def)
  then show ?thesis
    using b s o c1 by (simp add: exchange_def readDatagram_def deliverMessage_def endRequest_def Let_def)
qed

text \<open>C3: a request comes back answered. On an open controller whose message can be encoded, \<open>Request\<close>
  for an endpoint other than EP0 with a handler returns the handler's response, if that fits on the wire and
  carries the transaction number; if the handler fails with an error the router does not keep silent about,
  it returns an error response whose body decodes to the code of that error. The world is the one the
  handler left, and the transaction is no longer pending.\<close>

theorem request_answered:
  fixes txn :: TransactionNum
  assumes "\<not> ct_closed c" "txn = ucast (nextTxn c + 1)" "req = requestMessage a txn control body" "encodable req"
    and "a \<noteq> EP0" "handlers r a = Some h" "h w (ct_streamID c) (wire_message req) = (w', out)"
    and "case out of Ok m \<Rightarrow> encodable m \<and> TransactionNum m = txn
         | Err er \<Rightarrow> \<not> silent er \<and> encodable (errorResponse render (wire_message req) er) | Panic \<Rightarrow> False"
  shows "\<exists>c' srv' resp. exchange render r srv c w a control body = (c', srv', w', Some (Ok resp)) \<and>
    ct_pending c' = (ct_pending c)(txn := None) \<and> TransactionNum resp = txn \<and>
    (case out of Ok m \<Rightarrow> resp = wire_message m
     | Err er \<Rightarrow> Message_ResponseKind resp = ResponseError \<and> DecodeErrorBody (Body resp) = Ok (errorCodeFor er, render er)
     | Panic \<Rightarrow> False)"
proof -
  have evt: "EVT (wire_message req) = 0" "ByteBusID (wire_message req) = a" "TransactionNum (wire_message req) = txn"
    using assms(3) by (simp_all add: wire_message_def requestMessage_def zeroMessage_def)
  have hd: "handled r w hdr (wire_message req) = (w', out)" if "HStreamID hdr = ct_streamID c" for hdr
    using assms(5-7) evt(2) that by (simp add: handled_def)
  show ?thesis
  proof (cases out)
    case (Ok m)
    then show ?thesis
      using exchange_routed [OF assms(1-4), of render r w w' m srv] assms(8) hd evt
      by (auto simp: Route_untimed wire_message_def)
  next
    case (Err er)
    let ?m = "errorResponse render (wire_message req) er"
    have "Message_ResponseKind (wire_message ?m) = ResponseError" "DecodeErrorBody (Body (wire_message ?m)) = Ok (errorCodeFor er, render er)"
      by (rule errorResponse_received)+
    then show ?thesis
      using Err exchange_routed [OF assms(1-4), of render r w w' ?m srv] assms(8) hd evt
      by (auto simp: Route_untimed wire_message_def errorResponse_def)
  qed (use assms(8) in simp)
qed

text \<open>A controller stops working after 255 requests. \<open>Request\<close> counts transactions in 16 bits, but the
  field of a message holds 8: when between 255 and 65534 requests have been made, whatever they were, the next
  one fails before anything is sent.\<close>

theorem controller_exhausts_transactions:
  assumes "255 \<le> length reqs" "length reqs < 65535"
  shows "\<exists>er. snd (beginRequest (fold (\<lambda>(a, control, body) c. fst (beginRequest c False a control body)) reqs (NewController sid))
    False a control body) = Err er"
proof -
  let ?run = "\<lambda>reqs c. fold (\<lambda>(a, control, body) c. fst (beginRequest c False a control body)) reqs c"
  have one: "nextTxn (fst (beginRequest c False a control body)) = nextTxn c + 1 \<and> \<not> ct_closed (fst (beginRequest c False a control body))"
    if "\<not> ct_closed c" for c a control body
    using beginRequest_cases [OF that refl refl, of a control body] by (cases "encodable (requestMessage a (ucast (nextTxn c + 1)) control body)") auto
  have run: "nextTxn (?run reqs c) = nextTxn c + of_nat (length reqs) \<and> \<not> ct_closed (?run reqs c)" if "\<not> ct_closed c" for reqs c
    using that by (induction reqs arbitrary: c) (auto simp: one split: prod.split)
  have n: "nextTxn (?run reqs (NewController sid)) + 1 = of_nat (Suc (length reqs))"
    using run [of "NewController sid" reqs] by (simp add: NewController_def)
  have "unat (ucast (nextTxn (?run reqs (NewController sid)) + 1) :: TransactionNum) = Suc (length reqs)"
    unfolding n using assms by (simp add: unsigned_ucast_eq unsigned_of_nat take_bit_nat_eq_self del: of_nat_Suc)
  then have "\<not> encodable (requestMessage a (ucast (nextTxn (?run reqs (NewController sid)) + 1)) control body)"
    using assms by (simp add: encodable_def requestMessage_def maxTransactionNum_def)
  then show ?thesis
    using beginRequest_cases(2) [of "?run reqs (NewController sid)", OF _ refl refl] run [of "NewController sid" reqs] by (fastforce simp: NewController_def)
qed

text \<open>
  The conditions that the comments of \<open>errorcode.go\<close> name for the codes of Table 27 of the specification, with the
  number of the code on the wire. Every other error is an invalid parameter (15).
\<close>

definition codeTable :: "(rcp_error \<times> u8) list" where
  "codeTable = [(EUdp ErrUnknownEndpoint_udp, 1), (EAcf ErrEVTReserved, 1), (EAcf ErrEVTMissingPayload, 1), (ERequest ErrSafeStateNotConfigured, 1),
     (ERegmap ErrAccessDenied, 3), (ERegmap ErrNotRootClient, 3), (ERegmap ErrRootAlreadyClaimed, 3),
     (ERegmap ErrRegisterLocked, 4), (ERegmap ErrGeneralBlockReadOnly, 4),
     (ERequest ErrTicketCancelled, 5), (ERequest ErrPurgedByWatchdog, 5), (ERequest ErrUnknownTicket, 6),
     (ERegmap ErrUnknownEndpoint_regmap, 8), (EPwm ErrSignalLost, 9), (EE2e ErrCRCMismatch, 12),
     (ERequest ErrChainedSegmentFailed, 16), (ERequest ErrInvalidSegmentCount, 17)]"

text \<open>An error has one cause at most.\<close>

lemma errors_is_unique:
  "errors_is e s \<Longrightarrow> errors_is e t \<Longrightarrow> (\<And>e d. s \<noteq> EWrap e d) \<Longrightarrow> (\<And>e d. t \<noteq> EWrap e d) \<Longrightarrow> s = t"
  by (induction e t rule: errors_is.induct) auto

lemma codeTable_distinct: "distinct (map fst codeTable)" "(s, n) \<in> set codeTable \<Longrightarrow> s \<noteq> EWrap e d"
  by (auto simp: codeTable_def)

lemma errorCodeFor_table:
  "(s, n) \<in> set codeTable \<Longrightarrow> errors_is e s \<Longrightarrow> errorCodeFor e = n"
  "(\<And>s n. (s, n) \<in> set codeTable \<Longrightarrow> \<not> errors_is e s) \<Longrightarrow> errorCodeFor e = 15"
proof -
  assume s: "(s, n) \<in> set codeTable" "errors_is e s"
  have only: "errors_is e t \<longleftrightarrow> s = t" if "(t, m) \<in> set codeTable" for t m
    using that s errors_is_unique [of e s t] codeTable_distinct(2) by blast
  note only = only [where m = 1] only [where m = 3] only [where m = 4] only [where m = 5] only [where m = 6] only [where m = 8] only [where m = 9]
    only [where m = 12] only [where m = 16] only [where m = 17]
  show "errorCodeFor e = n"
    using s(1) unfolding errorCodeFor_def by (auto simp: only codeTable_def error_codes)
next
  assume "\<And>s n. (s, n) \<in> set codeTable \<Longrightarrow> \<not> errors_is e s"
  then show "errorCodeFor e = 15" by (auto simp: errorCodeFor_def codeTable_def error_codes)
qed

text \<open>C36: a failed request is reported with the code of its cause. When the handler of the addressed endpoint fails, or there is none, with an error
  that the router does not keep silent about, the client gets an error response to its request with the text of the error, and
  with the number that the table has for the cause of the error, however deep that is wrapped; if the
  table has none, with the number for an invalid parameter.\<close>

theorem error_reported_with_its_code:
  fixes txn :: TransactionNum
  assumes "\<not> ct_closed c" "txn = ucast (nextTxn c + 1)" "req = requestMessage a txn control body" "encodable req" "a \<noteq> EP0"
    and "(case handlers r a of None \<Rightarrow> (w, Err (EUdp ErrUnknownEndpoint_udp)) | Some h \<Rightarrow> h w (ct_streamID c) (wire_message req)) = (w', Err er)"
    and "\<not> silent er" "encodable (errorResponse render (wire_message req) er)"
  shows "\<exists>c' srv' resp code. exchange render r srv c w a control body = (c', srv', w', Some (Ok resp)) \<and>
    Message_ResponseKind resp = ResponseError \<and> ByteBusID resp = a \<and> TransactionNum resp = txn \<and>
    DecodeErrorBody (Body resp) = Ok (code, render er) \<and>
    (\<forall>(cause, n) \<in> set codeTable. errors_is er cause \<longrightarrow> code = n) \<and>
    ((\<forall>(cause, n) \<in> set codeTable. \<not> errors_is er cause) \<longrightarrow> code = 15)"
proof -
  let ?m = "errorResponse render (wire_message req) er"
  have req: "EVT (wire_message req) = 0" "ByteBusID (wire_message req) = a" "TransactionNum (wire_message req) = txn"
    using assms(3) by (simp_all add: wire_message_def requestMessage_def zeroMessage_def)
  have route: "Route render r w hdr (wire_message req) = (w', Ok (Some ?m))" if "\<not> Timed hdr" "HStreamID hdr = ct_streamID c" for hdr
    using that assms(5-7) req by (cases "handlers r a") (simp_all add: Route_untimed handled_def)
  have m: "TransactionNum ?m = txn" "ByteBusID (wire_message ?m) = a" "TransactionNum (wire_message ?m) = txn"
    using req by (simp_all add: errorResponse_def wire_message_def)
  obtain c' srv' where "exchange render r srv c w a control body = (c', srv', w', Some (Ok (wire_message ?m)))"
    using exchange_routed [OF assms(1-4) route assms(8) m(1)] by blast
  then show ?thesis
    using m errorResponse_received [of render "wire_message req" er] errorCodeFor_table(1) [of _ _ er] errorCodeFor_table(2) [of er] by fastforce
qed

text \<open>The requests of a controller in examples: its second one is for an endpoint that echoes.\<close>

definition clientID :: StreamID where "clientID = StreamID 2 0 0 0 0 1 0 1"

definition echo :: "nat rhandler" where
  "echo w sid req = (if Body req = [] then (w, Err (EUdp ErrRequestMustReadOrWrite_udp)) else (Suc w, Ok (udp_responseFor req (rev (Body req)))))"

definition echoRouter :: "nat Router" where
  "echoRouter = fst (Router_Register (NewRouter (\<lambda>w hdr req. (w, Err (EUdp ErrWrongEndpoint_udp))) False) 5 echo)"

theorem request_answered_witness:
  "\<exists>c' srv' resp. exchange (\<lambda>_. []) echoRouter \<lparr>us_streamID = clientID, us_seq = 0, us_encapSeq = 0\<rparr> (NewController clientID) 7 5 FlagWrite [1, 2] =
     (c', srv', 8, Some (Ok resp)) \<and> Body resp = [2, 1]"
proof -
  let ?req = "requestMessage 5 1 FlagWrite [1, 2]"
  have "encodable ?req"
    by (intro encodable_request) (simp_all add: message_consts knownFlags_def flag_defs)
  moreover have "handlers echoRouter 5 = Some echo" by (simp add: echoRouter_def Router_Register_def NewRouter_def EP0_def)
  moreover have "echo 7 (ct_streamID (NewController clientID)) (wire_message ?req) = (8, Ok (udp_responseFor (wire_message ?req) [2, 1]))"
    by (simp add: echo_def wire_message_def requestMessage_def)
  moreover have "encodable (udp_responseFor (wire_message ?req) [2, 1])" "TransactionNum (udp_responseFor (wire_message ?req) [2, 1]) = 1"
    using calculation(1) by (simp_all add: encodable_response) (simp add: udp_responseFor_def responseWith_def wire_message_def requestMessage_def)
  ultimately show ?thesis
    using request_answered [of "NewController clientID" 1 ?req 5 FlagWrite "[1, 2]" echoRouter echo 7 8
        "Ok (udp_responseFor (wire_message ?req) [2, 1])" "\<lambda>_. []" "\<lparr>us_streamID = clientID, us_seq = 0, us_encapSeq = 0\<rparr>"]
    by (fastforce simp: NewController_def EP0_def udp_responseFor_def responseWith_def wire_message_def)
qed

theorem error_reported_with_its_code_witness:
  "\<exists>c' srv' resp. exchange (\<lambda>_. []) echoRouter \<lparr>us_streamID = clientID, us_seq = 0, us_encapSeq = 0\<rparr> (NewController clientID) 7 6 FlagWrite [1, 2] =
     (c', srv', 7, Some (Ok resp)) \<and> DecodeErrorBody (Body resp) = Ok (1, [])"
proof -
  let ?req = "requestMessage 6 1 FlagWrite [1, 2]" let ?er = "EUdp ErrUnknownEndpoint_udp"
  have req: "encodable ?req" by (intro encodable_request) (simp_all add: message_consts knownFlags_def flag_defs)
  have h: "handlers echoRouter 6 = None" by (simp add: echoRouter_def Router_Register_def NewRouter_def EP0_def)
  have enc: "encodable (errorResponse (\<lambda>_. []) (wire_message ?req) ?er)"
    by (simp add: encodable_def errorResponse_def EncodeErrorBody_def wire_message_def requestMessage_def zeroMessage_def unpaddedLen_def kind_defs message_consts
        knownFlags_def flag_defs Has_def)
  have "(?er, 1) \<in> set codeTable" "errors_is ?er ?er" "\<not> silent ?er" by (simp_all add: codeTable_def silent_def)
  then show ?thesis
    using error_reported_with_its_code [where c = "NewController clientID" and txn = 1 and req = ?req and a = 6 and control = FlagWrite and body = "[1, 2]"
        and r = echoRouter and w = 7 and w' = 7 and er = ?er and render = "\<lambda>_. []" and srv = "\<lparr>us_streamID = clientID, us_seq = 0, us_encapSeq = 0\<rparr>"] req h enc
    by (fastforce simp: NewController_def EP0_def)
qed

theorem controller_exhausts_transactions_witness:
  "\<exists>er. snd (beginRequest (fold (\<lambda>(a, control, body) c. fst (beginRequest c False a control body))
    (replicate 300 (5, FlagRead, [])) (NewController clientID)) False 5 FlagRead []) = Err er"
  by (rule controller_exhausts_transactions) simp_all

text \<open>C13: a controller discovers a server. For every server the configuration operations can reach, in every
  lifecycle state, a discovery read by a controller whose counter is within one octet returns the encoding of the
  register map, if that fits into one message; the server is left as it was, and the client decodes the same pins,
  limits, queues and endpoints.\<close>

theorem discover_end_to_end:
  assumes "sreachable s" "fits_regmap (rmap s)" "length (EncodeRegisterMap (rmap s)) \<le> 2036"
    and "\<not> ct_closed c" "unat (ucast (nextTxn c + 1) :: TransactionNum) \<le> 255" "ep0 r = EP0Handler_HandleRequest"
  shows "\<exists>c' srv' resp m. exchange render r srv c s EP0 FlagRead [] = (c', srv', s, Some (Ok resp)) \<and>
    discoverResult resp = Some (EncodeRegisterMap (rmap s)) \<and> DecodeRegisterMap (Body resp) = Ok m \<and>
    hwConfig m = hwConfig (rmap s) \<and> swConfig m = swConfig (rmap s) \<and> RegisterMap_Endpoint m = RegisterMap_Endpoint (rmap s)"
proof -
  let ?txn = "ucast (nextTxn c + 1) :: TransactionNum"
  let ?req = "requestMessage EP0 ?txn FlagRead []"
  let ?resp = "udp_responseFor (wire_message ?req) (EncodeRegisterMap (rmap s))"
  have req: "encodable ?req"
    using assms(5) by (intro encodable_request) (simp_all add: message_consts EP0_def knownFlags_def flag_defs)
  have "Has (Control (wire_message ?req)) FlagRead" "\<not> Has (Control (wire_message ?req)) FlagWrite" "ByteBusID (wire_message ?req) = EP0"
    "Kind (wire_message ?req) = KindShort" "EVT (wire_message ?req) = 0"
    by (simp_all add: wire_message_def requestMessage_def zeroMessage_def Has_def flag_defs)
  then have "Route render r s hdr (wire_message ?req) = (s, Ok (Some ?resp))" if "\<not> Timed hdr" for hdr
    using that assms(6) by (simp add: Route_untimed handled_def EP0Handler_HandleRequest_def HandleDiscoveryRequest_def ReadDiscovery_def kind_defs)
  moreover have "encodable ?resp" by (rule encodable_response [OF req assms(3)])
  moreover have "TransactionNum ?resp = ?txn" by (simp add: udp_responseFor_def responseWith_def wire_message_def requestMessage_def)
  ultimately obtain c' srv' where ex: "exchange render r srv c s EP0 FlagRead [] = (c', srv', s, Some (Ok (wire_message ?resp)))"
    using exchange_routed [OF assms(4) refl refl req, of render r s s ?resp srv] by auto
  have wf: "wf_regmap (rmap s)" using sreachable_inv [OF assms(1)] by (simp add: server_inv_def)
  obtain g where dec: "DecodeRegisterMap (EncodeRegisterMap (rmap s)) = Ok \<lparr>General = g, RPinMap = RPinMap (rmap s),
      Streams = Streams (rmap s), Queues = Queues (rmap s), endpoints = canonEndpoints (rmap s)\<rparr>" (is "_ = Ok ?m")
    using DecodeRegisterMap_Encode [OF wf assms(2)] by blast
  have "RegisterMap_Endpoint ?m = RegisterMap_Endpoint (rmap s)"
    using wf by (simp add: fun_eq_iff RegisterMap_Endpoint_def canonEndpoints_def map_of_sort_key wf_regmap_def)
  moreover have "discoverResult (wire_message ?resp) = Some (EncodeRegisterMap (rmap s))" "Body (wire_message ?resp) = EncodeRegisterMap (rmap s)"
    by (simp_all add: discoverResult_def Message_ResponseKind_def wire_message_def udp_responseFor_def responseWith_def requestMessage_def
        zeroMessage_def evtResponseAcknowledge_def Has_def flag_defs)
  ultimately show ?thesis
    using ex dec by (intro exI conjI) (assumption | simp add: hwConfig_def swConfig_def generics_def fun_eq_iff)+
qed

theorem discover_end_to_end_witness:
  "\<exists>c' srv' resp. exchange (\<lambda>_. []) (NewRouter EP0Handler_HandleRequest False) \<lparr>us_streamID = clientID, us_seq = 0, us_encapSeq = 0\<rparr>
     (NewController clientID) NewServer EP0 FlagRead [] = (c', srv', NewServer, Some (Ok resp)) \<and>
     discoverResult resp = Some (EncodeRegisterMap NewRegisterMap)"
proof -
  have "fits_regmap (rmap NewServer)" "length (EncodeRegisterMap (rmap NewServer)) \<le> 2036" "rmap NewServer = NewRegisterMap"
    by (simp_all add: NewServer_def NewRegisterMap_def fits_regmap_def EncodeRegisterMap_def Let_def EncodeGeneralBlock_def encodeEndpointTable_def Addresses_def encodePinMap_def encodeStreamLimits_def encodeQueueConfig_def)
  then show ?thesis
    using discover_end_to_end [OF sreachable.s_init, of "NewController clientID" "NewRouter EP0Handler_HandleRequest False" "\<lambda>_. []"
        "\<lparr>us_streamID = clientID, us_seq = 0, us_encapSeq = 0\<rparr>"]
    by (fastforce simp: NewController_def NewRouter_def)
qed

text \<open>The handlers of a router do not panic.\<close>

definition calm :: "'w Router \<Rightarrow> bool" where
  "calm r \<longleftrightarrow> (\<forall>w hdr m. snd (ep0 r w hdr m) \<noteq> Panic) \<and> (\<forall>a h w sid m. handlers r a = Some h \<longrightarrow> snd (h w sid m) \<noteq> Panic)"

lemma calm_handled: "calm r \<Longrightarrow> snd (handled r w hdr req) \<noteq> Panic"
  by (auto simp: handled_def calm_def split: option.split)

lemma calm_Route: "calm r \<Longrightarrow> Route render r w hdr req \<noteq> (w', Panic)"
  unfolding Route_def handled_def [symmetric]
  by (cases "handled r w hdr req"; cases "snd (handled r w hdr req)")
     (use calm_handled [of r w hdr req] in \<open>auto simp: CheckEVTPayloadPresence_def split: outcome.split\<close>)

lemma EP0Handler_no_panic: "snd (EP0Handler_HandleRequest s hdr req) \<noteq> Panic"
  by (auto simp: EP0Handler_HandleRequest_def HandleDiscoveryRequest_def split: prod.split option.split)

lemma calm_Register: "calm (NewRouter EP0Handler_HandleRequest ts)"
  "calm r \<Longrightarrow> (\<And>w sid m. snd (h w sid m) \<noteq> Panic) \<Longrightarrow> calm (fst (Router_Register r a h))" "calm r \<Longrightarrow> calm (Router_Deregister r a)"
  by (auto simp: calm_def NewRouter_def Router_Register_def Router_Deregister_def EP0Handler_no_panic)

text \<open>C35: the server survives every datagram. With handlers that do not panic, a turn of the loop ends without
  a panic or an error on any octets at all, and sends at most one datagram; octets that are no frame change
  neither the objects behind the handlers nor the counters.\<close>

theorem server_survives_any_datagram:
  assumes "calm r"
  shows "(\<exists>w' srv' reply. serveDatagram render r srv w datagram = (w', srv', Ok reply)) \<and>
    ((\<nexists>f. receiveFrame datagram = Ok f) \<longrightarrow> serveDatagram render r srv w datagram = (w, srv, Ok None))"
proof -
  have rf: "receiveFrame datagram \<noteq> Panic"
    using encap.dec_no_panic DecodeFrame_never_panics by (auto simp: receiveFrame_def andThen_eq_Panic_iff)
  have ef: "EncodeFrame h ms \<noteq> Panic" for h ms
    using acf_stream.encs_no_panic EncodeHeader_no_panic by (auto simp: EncodeFrame_def andThen_eq_Panic_iff)
  show ?thesis
  proof (cases "receiveFrame datagram")
    case (Ok f)
    obtain w' out where ra: "routeAll render r w (FHeader f) (FMessages f) = (w', out)" by (cases "routeAll render r w (FHeader f) (FMessages f)")
    then obtain rs where "out = Ok rs" using routeAll_Ok [OF _ ra] calm_Route [OF assms] by blast
    then show ?thesis
      using Ok ra ef by (auto simp: serveDatagram_def Let_def split: outcome.split)
  qed (use rf in \<open>auto simp: serveDatagram_def\<close>)
qed

theorem server_survives_any_datagram_witness:
  "\<exists>w' srv' reply. serveDatagram (\<lambda>_. []) (NewRouter EP0Handler_HandleRequest False) \<lparr>us_streamID = clientID, us_seq = 0, us_encapSeq = 0\<rparr>
     NewServer [1, 2, 3] = (w', srv', Ok reply)"
  using server_survives_any_datagram [OF calm_Register(1)] by blast

end
