(* ===== verification/Prioqueue.thy ===== *)
theory Prioqueue
  imports Request_Kind Acf_Message "HOL-Library.Product_Lexorder" "HOL-Library.Multiset"
begin

text \<open>
  The package \<open>prioqueue\<close>: a queue of requests ordered by the priority of their kind and, among equals, by
  arrival. It keeps a binary heap in a slice and works on it with \<open>container/heap\<close> of the Go library, whose
  \<open>up\<close>, \<open>down\<close>, \<open>Push\<close> and \<open>Pop\<close> are modelled here as they are written there: loops over indices of a list.
  The mutex is not modelled: a call is one step.
\<close>

section \<open>The heap of the Go library\<close>

definition swap :: "'a list \<Rightarrow> nat \<Rightarrow> nat \<Rightarrow> 'a list" where
  "swap xs i j = xs[i := xs ! j, j := xs ! i]"

text \<open>The parent of 0 is 0 in Go too, where \<open>(0-1)/2\<close> is rounded to zero.\<close>

function heap_up :: "('a \<Rightarrow> 'a \<Rightarrow> bool) \<Rightarrow> 'a list \<Rightarrow> nat \<Rightarrow> 'a list" where
  "heap_up lt xs j =
     (let i = (j - 1) div 2 in
      if i = j \<or> \<not> lt (xs ! j) (xs ! i) then xs else heap_up lt (swap xs i j) i)"
  by pat_completeness auto
termination by (relation "measure (\<lambda>(lt, xs, j). j)") auto

function heap_down :: "('a \<Rightarrow> 'a \<Rightarrow> bool) \<Rightarrow> 'a list \<Rightarrow> nat \<Rightarrow> nat \<Rightarrow> 'a list" where
  "heap_down lt xs i n =
     (let j1 = 2 * i + 1 in
      if j1 \<ge> n then xs
      else let j2 = j1 + 1; j = (if j2 < n \<and> lt (xs ! j2) (xs ! j1) then j2 else j1) in
        if \<not> lt (xs ! j) (xs ! i) then xs else heap_down lt (swap xs i j) j n)"
  by pat_completeness auto
termination by (relation "measure (\<lambda>(lt, xs, i, n). n - i)") (auto simp: Let_def split: if_splits)

declare heap_up.simps [simp del] heap_down.simps [simp del]

lemma parent_less: "0 < k \<Longrightarrow> (k - 1) div 2 < (k :: nat)" by auto

lemma heap_down_step:
  "2 * i + 1 < n \<Longrightarrow> j = (if 2 * i + 2 < n \<and> lt (xs ! (2 * i + 2)) (xs ! (2 * i + 1)) then 2 * i + 2 else 2 * i + 1) \<Longrightarrow>
   heap_down lt xs i n = (if lt (xs ! j) (xs ! i) then heap_down lt (swap xs i j) j n else xs)"
  by (subst heap_down.simps) (auto simp: Let_def)

text \<open>The methods \<open>Push\<close> and \<open>Pop\<close> that the library calls work at the end of the slice.\<close>

definition itemHeap_Push :: "'a list \<Rightarrow> 'a \<Rightarrow> 'a list" where
  "itemHeap_Push h x = h @ [x]"

definition itemHeap_Pop :: "'a list \<Rightarrow> 'a \<times> 'a list" where
  "itemHeap_Pop old = (let n = length old in (old ! (n - 1), take (n - 1) old))"

definition heap_Push :: "('a \<Rightarrow> 'a \<Rightarrow> bool) \<Rightarrow> 'a list \<Rightarrow> 'a \<Rightarrow> 'a list" where
  "heap_Push lt xs x = (let ys = itemHeap_Push xs x in heap_up lt ys (length ys - 1))"

definition heap_Pop :: "('a \<Rightarrow> 'a \<Rightarrow> bool) \<Rightarrow> 'a list \<Rightarrow> 'a \<times> 'a list" where
  "heap_Pop lt xs = (let n = length xs - 1 in itemHeap_Pop (heap_down lt (swap xs 0 n) 0 n))"

lemmas heap_ops = heap_Push_def heap_Pop_def itemHeap_Push_def itemHeap_Pop_def Let_def

section \<open>The queue\<close>

record Item =
  IKind :: RKind
  IRequester :: StreamID
  IMessage :: Message
  iseq :: u64

record Queue =
  qheap :: "Item list"
  qseq :: u64

definition NewQueue :: Queue where "NewQueue = \<lparr>qheap = [], qseq = 0\<rparr>"

definition validKind :: "RKind \<Rightarrow> bool" where
  "validKind k \<longleftrightarrow> k = KindPlain \<or> Kind_Valid k"

definition Item_Less :: "Item \<Rightarrow> Item \<Rightarrow> bool" where
  "Item_Less a b =
     (let pi = Priority (IKind a); pj = Priority (IKind b) in if pi \<noteq> pj then pi < pj else iseq a < iseq b)"

datatype prioqueue_error = ErrInvalidKind

definition Queue_Push :: "Queue \<Rightarrow> RKind \<Rightarrow> StreamID \<Rightarrow> Message \<Rightarrow> Queue \<times> prioqueue_error option" where
  "Queue_Push q kind requester msg =
     (if \<not> validKind kind then (q, Some ErrInvalidKind)
      else
        (let q1 = q\<lparr>qseq := qseq q + 1\<rparr>;
             it = \<lparr>IKind = kind, IRequester = requester, IMessage = msg, iseq = qseq q1\<rparr>
         in (q1\<lparr>qheap := heap_Push Item_Less (qheap q1) it\<rparr>, None)))"

definition Queue_Pop :: "Queue \<Rightarrow> Queue \<times> Item option" where
  "Queue_Pop q =
     (if length (qheap q) = 0 then (q, None)
      else case heap_Pop Item_Less (qheap q) of (it, h) \<Rightarrow> (q\<lparr>qheap := h\<rparr>, Some it))"

definition Queue_Len :: "Queue \<Rightarrow> nat" where "Queue_Len q = length (qheap q)"

lemma length_swap [simp]: "length (swap xs i j) = length xs" by (simp add: swap_def)

lemma length_heap_up [simp]: "length (heap_up lt xs j) = length xs"
  by (induction lt xs j rule: heap_up.induct) (subst heap_up.simps, simp add: Let_def)

lemma length_heap_down [simp]: "length (heap_down lt xs i n) = length xs"
  by (induction lt xs i n rule: heap_down.induct) (subst heap_down.simps, simp add: Let_def)

lemma length_heap_Pop: "xs \<noteq> [] \<Longrightarrow> length (snd (heap_Pop lt xs)) = length xs - 1"
  by (simp add: heap_ops)

text \<open>The loop of \<open>PopAll\<close> takes the items out one by one; it ends because the heap gets shorter.\<close>

function popLoop :: "Item list \<Rightarrow> Item list" where
  "popLoop h = (if length h > 0 then case heap_Pop Item_Less h of (it, h') \<Rightarrow> it # popLoop h' else [])"
  by pat_completeness auto
termination
proof (relation "measure length")
  fix h x y z
  assume "0 < length h" "(y, z) = heap_Pop Item_Less h"
  then show "(z, h) \<in> measure length" using length_heap_Pop [of h Item_Less] by (metis in_measure snd_conv length_greater_0_conv diff_less zero_less_one)
qed simp

declare popLoop.simps [simp del]

definition Queue_PopAll :: "Queue \<Rightarrow> Queue \<times> Item list" where
  "Queue_PopAll q = (if length (qheap q) = 0 then (q, []) else (q\<lparr>qheap := []\<rparr>, popLoop (qheap q)))"

section \<open>The heap is a priority queue\<close>

lemma mset_swapped: "i < length xs \<Longrightarrow> j < length xs \<Longrightarrow> mset (swap xs i j) = mset xs"
  by (simp add: swap_def mset_swap)

lemma nth_swap:
  "i < length xs \<Longrightarrow> j < length xs \<Longrightarrow> k < length xs \<Longrightarrow>
   swap xs i j ! k = (if k = j then xs ! i else if k = i then xs ! j else xs ! k)"
  by (auto simp: swap_def nth_list_update)

text \<open>
  \<open>lt\<close> compares keys. In a heap no node is below its parent; while \<open>up\<close> runs, the node it is at may be, and
  while \<open>down\<close> runs, the children of the node it is at may be.
\<close>

locale keyed_heap =
  fixes lt :: "'a \<Rightarrow> 'a \<Rightarrow> bool" and key :: "'a \<Rightarrow> 'k :: linorder"
  assumes lt_key: "lt a b \<longleftrightarrow> key a < key b"
begin

definition in_order :: "'a list \<Rightarrow> nat \<Rightarrow> nat \<Rightarrow> bool" where
  "in_order xs i k \<longleftrightarrow> key (xs ! i) \<le> key (xs ! k)"

definition is_heap :: "'a list \<Rightarrow> nat \<Rightarrow> bool" where
  "is_heap xs n \<longleftrightarrow> (\<forall>k. 0 < k \<and> k < n \<longrightarrow> in_order xs ((k - 1) div 2) k)"

definition heap_but_up :: "'a list \<Rightarrow> nat \<Rightarrow> bool" where
  "heap_but_up xs j \<longleftrightarrow> (\<forall>k. 0 < k \<and> k < length xs \<and> k \<noteq> j \<longrightarrow> in_order xs ((k - 1) div 2) k) \<and>
     (\<forall>k. 0 < k \<and> k < length xs \<and> (k - 1) div 2 = j \<and> 0 < j \<longrightarrow> in_order xs ((j - 1) div 2) k)"

definition heap_but_down :: "'a list \<Rightarrow> nat \<Rightarrow> nat \<Rightarrow> bool" where
  "heap_but_down xs i n \<longleftrightarrow> (\<forall>k. 0 < k \<and> k < n \<and> (k - 1) div 2 \<noteq> i \<longrightarrow> in_order xs ((k - 1) div 2) k) \<and>
     (\<forall>k. 0 < k \<and> k < n \<and> (k - 1) div 2 = i \<and> 0 < i \<longrightarrow> in_order xs ((i - 1) div 2) k)"

lemma heap_but_up_step:
  assumes up: "heap_but_up xs j" and j: "j < length xs" "0 < j" and lt: "key (xs ! j) < key (xs ! ((j - 1) div 2))"
  shows "heap_but_up (swap xs ((j - 1) div 2) j) ((j - 1) div 2)"
proof -
  let ?i = "(j - 1) div 2"
  have i: "?i < j" using j(2) by auto
  note nth = nth_swap [of ?i xs j]
  have ok: "key (xs ! ((k - 1) div 2)) \<le> key (xs ! k)" if "0 < k" "k < length xs" "k \<noteq> j" for k
    using up that by (simp add: heap_but_up_def in_order_def)
  have grand: "key (xs ! ?i) \<le> key (xs ! k)" if "0 < k" "k < length xs" "(k - 1) div 2 = j" for k
    using up that j(2) by (simp add: heap_but_up_def in_order_def)
  have "in_order (swap xs ?i j) ((k - 1) div 2) k" if k: "0 < k" "k < length xs" "k \<noteq> ?i" for k
  proof -
    have p: "(k - 1) div 2 < length xs" using k by linarith
    consider "k = j" | "k \<noteq> j" "(k - 1) div 2 = j" | "k \<noteq> j" "(k - 1) div 2 = ?i" | "k \<noteq> j" "(k - 1) div 2 \<noteq> j" "(k - 1) div 2 \<noteq> ?i" by blast
    then show ?thesis
    proof cases
      case 3
      then show ?thesis using nth j i k lt ok [of k] by (simp add: in_order_def)
    qed (use nth j i k p lt ok [of k] grand [of k] in \<open>simp_all add: in_order_def\<close>)
  qed
  moreover have "in_order (swap xs ?i j) ((?i - 1) div 2) k" if k: "0 < k" "k < length xs" "(k - 1) div 2 = ?i" "0 < ?i" for k
  proof -
    have g: "(?i - 1) div 2 < ?i" "?i < k" using k parent_less [of ?i] parent_less [of k] by simp_all
    have "key (xs ! ((?i - 1) div 2)) \<le> key (xs ! ?i)" using ok [of ?i] k i j by simp
    moreover have "k \<noteq> j \<Longrightarrow> key (xs ! ?i) \<le> key (xs ! k)" using ok [of k] k by simp
    ultimately show ?thesis using nth j i k g by (auto simp: in_order_def)
  qed
  ultimately show ?thesis by (simp add: heap_but_up_def)
qed

lemma heap_up_correct:
  assumes "heap_but_up xs j" "j < length xs"
  shows "is_heap (heap_up lt xs j) (length xs) \<and> mset (heap_up lt xs j) = mset xs"
  using assms
proof (induction j arbitrary: xs rule: less_induct)
  case (less j)
  let ?i = "(j - 1) div 2"
  show ?case
  proof (cases "?i = j \<or> \<not> lt (xs ! j) (xs ! ?i)")
    case True
    then have "heap_up lt xs j = xs" by (subst heap_up.simps) (simp add: Let_def)
    moreover have "0 < j \<Longrightarrow> in_order xs ?i j" using True by (auto simp: in_order_def lt_key)
    ultimately show ?thesis using less.prems by (fastforce simp: is_heap_def heap_but_up_def)
  next
    case False
    then have j: "0 < j" "?i < j" and lt: "key (xs ! j) < key (xs ! ?i)" by (auto simp: lt_key)
    have step: "heap_up lt xs j = heap_up lt (swap xs ?i j) ?i" using False by (subst heap_up.simps) (simp add: Let_def)
    have "heap_but_up (swap xs ?i j) ?i" using less.prems j lt by (intro heap_but_up_step) auto
    then show ?thesis using less.IH [OF j(2), of "swap xs ?i j"] less.prems j step by (simp add: mset_swapped)
  qed
qed

lemma heap_but_down_step:
  assumes down: "heap_but_down xs i n" and n: "n \<le> length xs" and j: "j < n" "0 < j" "(j - 1) div 2 = i"
    and lt: "key (xs ! j) < key (xs ! i)" and least: "\<And>k. 0 < k \<Longrightarrow> k < n \<Longrightarrow> (k - 1) div 2 = i \<Longrightarrow> key (xs ! j) \<le> key (xs ! k)"
  shows "heap_but_down (swap xs i j) j n"
proof -
  have i: "i < j" using j by auto
  note nth = nth_swap [of i xs j]
  have ok: "key (xs ! ((k - 1) div 2)) \<le> key (xs ! k)" if "0 < k" "k < n" "(k - 1) div 2 \<noteq> i" for k
    using down that by (simp add: heap_but_down_def in_order_def)
  have "in_order (swap xs i j) ((k - 1) div 2) k" if k: "0 < k" "k < n" "(k - 1) div 2 \<noteq> j" for k
  proof -
    have p: "(k - 1) div 2 < length xs" "(k - 1) div 2 < k" using k n by linarith+
    have grand: "key (xs ! ((i - 1) div 2)) \<le> key (xs ! j)" if "0 < i"
      using down that j by (simp add: heap_but_down_def in_order_def)
    consider "k = j" | "k = i" | "k \<noteq> j" "k \<noteq> i" "(k - 1) div 2 = i" | "k \<noteq> j" "k \<noteq> i" "(k - 1) div 2 \<noteq> i" by blast
    then show ?thesis
      by cases (use nth j i k p n lt least [of k] ok [of k] grand in \<open>simp_all add: in_order_def\<close>)
  qed
  moreover have "in_order (swap xs i j) ((j - 1) div 2) k" if k: "0 < k" "k < n" "(k - 1) div 2 = j" for k
    using nth j i k n ok [of k] by (auto simp: in_order_def)
  ultimately show ?thesis by (simp add: heap_but_down_def)
qed

lemma heap_down_correct:
  assumes "heap_but_down xs i n" "n \<le> length xs"
  shows "is_heap (heap_down lt xs i n) n \<and> mset (heap_down lt xs i n) = mset xs \<and>
    (\<forall>k. n \<le> k \<and> k < length xs \<longrightarrow> heap_down lt xs i n ! k = xs ! k)"
  using assms
proof (induction "n - i" arbitrary: xs i rule: less_induct)
  case less
  define j where "j = (if 2 * i + 2 < n \<and> lt (xs ! (2 * i + 2)) (xs ! (2 * i + 1)) then 2 * i + 2 else 2 * i + 1)"
  have children: "(k - 1) div 2 = i \<longleftrightarrow> k = 2 * i + 1 \<or> k = 2 * i + 2" if "0 < k" for k using that by auto
  have least: "key (xs ! j) \<le> key (xs ! k)" if "0 < k" "k < n" "(k - 1) div 2 = i" for k
    using that children [of k] by (auto simp: j_def lt_key)
  consider "n \<le> 2 * i + 1" | "2 * i + 1 < n" "\<not> lt (xs ! j) (xs ! i)" | "2 * i + 1 < n" "lt (xs ! j) (xs ! i)" by linarith
  then show ?case
  proof cases
    case 1
    then have "heap_down lt xs i n = xs" by (subst heap_down.simps) simp
    then show ?thesis using less.prems 1 children by (force simp: is_heap_def heap_but_down_def)
  next
    case 2
    have "heap_down lt xs i n = xs" using 2 heap_down_step [of i n j lt xs, OF _ j_def] by simp
    moreover have "in_order xs i k" if "0 < k" "k < n" "(k - 1) div 2 = i" for k
      using 2 least [OF that] by (simp add: in_order_def lt_key)
    ultimately show ?thesis using less.prems by (auto simp: is_heap_def heap_but_down_def)
  next
    case 3
    have step: "heap_down lt xs i n = heap_down lt (swap xs i j) j n" using 3 heap_down_step [of i n j lt xs, OF _ j_def] by simp
    have j: "j < n" "i < j" "(j - 1) div 2 = i" using 3(1) by (auto simp: j_def)
    have "heap_but_down (swap xs i j) j n"
      using less.prems 3 j least by (intro heap_but_down_step) (auto simp: lt_key)
    then show ?thesis
      using less.hyps [of j "swap xs i j"] less.prems j step by (simp add: mset_swapped nth_swap)
  qed
qed

lemma heap_least: "is_heap xs n \<Longrightarrow> k < n \<Longrightarrow> key (xs ! 0) \<le> key (xs ! k)"
proof (induction k rule: less_induct)
  case (less k)
  show ?case
  proof (cases "k = 0")
    case False
    then have "key (xs ! 0) \<le> key (xs ! ((k - 1) div 2))" using less by (intro less.IH) auto
    also have "\<dots> \<le> key (xs ! k)" using less False by (auto simp: is_heap_def in_order_def)
    finally show ?thesis .
  qed simp
qed

lemma heap_Push_correct:
  assumes "is_heap xs (length xs)"
  shows "is_heap (heap_Push lt xs x) (Suc (length xs)) \<and> mset (heap_Push lt xs x) = add_mset x (mset xs)"
proof -
  have "in_order (xs @ [x]) ((k - 1) div 2) k" if "0 < k" "k < length xs" for k
    using assms that parent_less [of k] by (simp add: is_heap_def in_order_def nth_append)
  moreover have "(k - 1) div 2 \<noteq> length xs" if "0 < k" "k < Suc (length xs)" for k
    using parent_less [OF that(1)] that(2) by simp
  ultimately have "heap_but_up (xs @ [x]) (length xs)" by (auto simp: heap_but_up_def less_Suc_eq)
  then show ?thesis using heap_up_correct [of "xs @ [x]" "length xs"] by (simp add: heap_ops)
qed

lemma heap_Pop_correct:
  assumes "is_heap xs (length xs)" "xs \<noteq> []" "heap_Pop lt xs = (x, ys)"
  shows "is_heap ys (length ys) \<and> mset xs = add_mset x (mset ys) \<and> (\<forall>y\<in>set xs. key x \<le> key y)"
proof -
  define n where "n = length xs - 1"
  have n: "n < length xs" "length xs = Suc n" "0 < length xs" using assms(2) by (auto simp: n_def)
  define zs where "zs = heap_down lt (swap xs 0 n) 0 n"
  have "in_order (swap xs 0 n) ((k - 1) div 2) k" if "0 < k" "k < n" "(k - 1) div 2 \<noteq> 0" for k
    using assms(1) that n parent_less [of k] by (simp add: is_heap_def in_order_def nth_swap)
  then have "heap_but_down (swap xs 0 n) 0 n" by (simp add: heap_but_down_def)
  then have zs: "is_heap zs n" "mset zs = mset xs" "zs ! n = xs ! 0"
    using heap_down_correct [of "swap xs 0 n" 0 n] n by (auto simp: zs_def mset_swapped nth_swap)
  have len: "length zs = Suc n" using n by (simp add: zs_def)
  have xy: "x = xs ! 0" "ys = take n zs" using assms(3) zs(3) by (auto simp: heap_ops n_def zs_def)
  have "zs = ys @ [x]" using len xy zs(3) take_Suc_conv_app_nth [of n zs] by simp
  then have "mset xs = add_mset x (mset ys)" using zs(2) by (metis union_mset_add_mset_right mset_append mset_single_iff_right mset.simps add.right_neutral)
  moreover have "is_heap ys (length ys)"
    using zs(1) xy(2) len by (auto simp: is_heap_def in_order_def)
  moreover have "\<forall>y\<in>set xs. key x \<le> key y"
    using heap_least [OF assms(1)] by (auto simp: xy(1) in_set_conv_nth)
  ultimately show ?thesis by blast
qed

text \<open>With different keys the heap is a list sorted by key, of which \<open>Pop\<close> takes the first element.\<close>

lemma sorted_Push:
  assumes "is_heap xs (length xs)" "inj_on key (set (x # xs))"
  shows "sort_key key (heap_Push lt xs x) = insort_key key x (sort_key key xs)"
proof -
  have m: "mset (heap_Push lt xs x) = mset (insort_key key x (sort_key key xs))" using heap_Push_correct [OF assms(1)] by simp
  moreover have "set (heap_Push lt xs x) = set (x # xs)" using m by (metis mset_eq_setD set_insort_key set_sort list.simps(15))
  ultimately show ?thesis using assms(2) by (intro sort_key_inj_key_eq) (simp_all add: sorted_insort_key)
qed

lemma sorted_Pop:
  assumes "is_heap xs (length xs)" "xs \<noteq> []" "heap_Pop lt xs = (x, ys)" "inj_on key (set xs)"
  shows "sort_key key xs = x # sort_key key ys"
proof (rule sort_key_inj_key_eq [OF _ assms(4)])
  note pop = heap_Pop_correct [OF assms(1-3)]
  then show "mset xs = mset (x # sort_key key ys)" by simp
  then have "set xs = insert x (set ys)" by (metis mset_eq_setD list.simps(15) set_sort)
  then show "sorted (map key (x # sort_key key ys))" using pop by simp
qed

end

section \<open>The queue is a list sorted by priority and arrival\<close>

definition item_key :: "Item \<Rightarrow> nat \<times> u64" where
  "item_key it = (Priority (IKind it), iseq it)"

interpretation item_heap: keyed_heap Item_Less item_key
  by unfold_locales (auto simp: Item_Less_def item_key_def Let_def)

definition queue_inv :: "Queue \<Rightarrow> bool" where
  "queue_inv q \<longleftrightarrow> item_heap.is_heap (qheap q) (length (qheap q)) \<and> distinct (map iseq (qheap q)) \<and> (\<forall>it\<in>set (qheap q). iseq it \<le> qseq q)"

definition queue_abs :: "Queue \<Rightarrow> Item list" where
  "queue_abs q = sort_key item_key (qheap q)"

lemma inj_item_key: "distinct (map iseq h) \<Longrightarrow> inj_on item_key (set h)"
  by (auto simp: item_key_def distinct_map inj_on_def)

lemma queue_inv_New: "queue_inv NewQueue" by (simp add: queue_inv_def NewQueue_def item_heap.is_heap_def)

lemma Queue_Push_refines:
  assumes "queue_inv q" "validKind k" "qseq q \<noteq> - 1" "it = \<lparr>IKind = k, IRequester = r, IMessage = m, iseq = qseq q + 1\<rparr>"
  shows "\<exists>q'. Queue_Push q k r m = (q', None) \<and> queue_inv q' \<and> qseq q' = qseq q + 1 \<and> queue_abs q' = insort_key item_key it (queue_abs q)"
proof -
  let ?h = "heap_Push Item_Less (qheap q) it"
  have "1 + qseq q \<noteq> 0" using assms(3) by (metis add.commute eq_neg_iff_add_eq_0)
  then have ls: "qseq q < qseq q + 1" by (simp add: word_less_nat_alt unatSuc add.commute)
  have push: "item_heap.is_heap ?h (Suc (length (qheap q)))" "mset ?h = add_mset it (mset (qheap q))"
    using item_heap.heap_Push_correct [of "qheap q" it] assms(1) by (simp_all add: queue_inv_def)
  then have "set ?h = set (it # qheap q)" "length ?h = Suc (length (qheap q))" "mset (map iseq ?h) = mset (map iseq (it # qheap q))"
    by (metis mset_eq_setD mset.simps(2), metis size_mset size_add_mset, simp)
  moreover have "distinct (map iseq (it # qheap q))"
    using assms(1,4) ls by (force simp: queue_inv_def)
  moreover have "iseq x \<le> qseq q + 1" if "x \<in> set (it # qheap q)" for x
    using that assms(1,4) ls by (auto simp: queue_inv_def intro: order.trans less_imp_le)
  moreover from calculation have "distinct (map iseq ?h)" using mset_eq_imp_distinct_iff by blast
  ultimately have "queue_inv \<lparr>qheap = ?h, qseq = qseq q + 1\<rparr>" using push(1) by (simp add: queue_inv_def)
  moreover have "sort_key item_key ?h = insort_key item_key it (queue_abs q)"
    using item_heap.sorted_Push [of "qheap q" it] inj_item_key [OF \<open>distinct (map iseq (it # qheap q))\<close>] assms(1)
    by (simp add: queue_inv_def queue_abs_def)
  ultimately show ?thesis using assms(2,4) by (cases q) (simp add: Queue_Push_def Let_def queue_abs_def)
qed

lemma distinct_rest:
  assumes "mset xs = add_mset x (mset ys)" "distinct (map f xs)"
  shows "distinct (map f ys)"
proof -
  have "mset (map f xs) = mset (map f (x # ys))" using assms(1) by simp
  then have "distinct (map f (x # ys))" using assms(2) mset_eq_imp_distinct_iff by blast
  then show ?thesis by simp
qed

lemma Queue_Pop_refines:
  assumes "queue_inv q"
  shows "case queue_abs q of
      [] \<Rightarrow> Queue_Pop q = (q, None)
    | it # rest \<Rightarrow> \<exists>q'. Queue_Pop q = (q', Some it) \<and> queue_inv q' \<and> queue_abs q' = rest \<and> qseq q' = qseq q"
proof (cases "qheap q = []")
  case False
  obtain it h where pop: "heap_Pop Item_Less (qheap q) = (it, h)" by (cases "heap_Pop Item_Less (qheap q)")
  note inv = assms [unfolded queue_inv_def]
  have abs: "queue_abs q = it # sort_key item_key h"
    using item_heap.sorted_Pop [OF _ False pop] inv inj_item_key by (simp add: queue_abs_def)
  have h: "item_heap.is_heap h (length h)" "mset (qheap q) = add_mset it (mset h)"
    using item_heap.heap_Pop_correct [OF _ False pop] inv by auto
  have "set (qheap q) = set (it # h)" using h(2) by (metis mset_eq_setD mset.simps(2))
  moreover have "distinct (map iseq h)" by (rule distinct_rest [OF h(2)]) (use inv in simp)
  ultimately have "queue_inv (q\<lparr>qheap := h\<rparr>)" using inv h(1) by (simp add: queue_inv_def)
  then show ?thesis using abs pop False by (simp add: Queue_Pop_def queue_abs_def)
qed (simp add: Queue_Pop_def queue_abs_def)

lemma popLoop_sorted: "item_heap.is_heap h (length h) \<Longrightarrow> distinct (map iseq h) \<Longrightarrow> popLoop h = sort_key item_key h"
proof (induction h rule: popLoop.induct)
  case (1 h)
  show ?case
  proof (cases "h = []")
    case False
    obtain it h' where pop: "heap_Pop Item_Less h = (it, h')" by (cases "heap_Pop Item_Less h")
    note ok = item_heap.heap_Pop_correct [OF 1(2) False pop]
    have "popLoop h' = sort_key item_key h'"
      using 1(1) [OF _ pop [symmetric]] ok distinct_rest [OF _ 1(3)] False by simp
    then show ?thesis
      using item_heap.sorted_Pop [OF 1(2) False pop inj_item_key [OF 1(3)]] pop False by (simp add: popLoop.simps [of h])
  qed (simp add: popLoop.simps)
qed

section \<open>Properties\<close>

text \<open>Sorting by a pair is sorting by its first component, when the second grows along the list.\<close>

lemma insort_key_pair: "\<forall>y\<in>set ys. g x \<le> g y \<Longrightarrow> insort_key (\<lambda>x. (f x, g x)) x ys = insort_key f x ys"
  by (induction ys) auto

lemma sort_key_pair: "sorted (map g xs) \<Longrightarrow> sort_key (\<lambda>x. (f x, g x)) xs = sort_key f xs"
  by (induction xs) (simp_all add: insort_key_pair)

lemma sort_key_map: "sort_key f (map h xs) = map h (sort_key (f \<circ> h) xs)"
proof -
  have "insort_key f (h x) (map h ys) = map h (insort_key (f \<circ> h) x ys)" for x ys by (induction ys) auto
  then show ?thesis by (induction xs) auto
qed

type_synonym push = "RKind \<times> StreamID \<times> Message"

definition pushAll :: "push list \<Rightarrow> Queue \<Rightarrow> Queue" where
  "pushAll reqs q = fold (\<lambda>(k, r, m) q. fst (Queue_Push q k r m)) reqs q"

definition released :: "Item \<Rightarrow> push" where
  "released it = (IKind it, IRequester it, IMessage it)"

lemma pushAll_items:
  assumes "\<forall>(k, r, m)\<in>set reqs. validKind k" "length reqs < 2 ^ 64"
  shows "\<exists>items. map released items = reqs \<and> sorted_wrt (<) (map iseq items) \<and> queue_inv (pushAll reqs NewQueue) \<and>
    qseq (pushAll reqs NewQueue) = of_nat (length reqs) \<and> queue_abs (pushAll reqs NewQueue) = sort_key item_key items \<and>
    (\<forall>it\<in>set items. iseq it \<le> of_nat (length reqs))"
  using assms
proof (induction reqs rule: rev_induct)
  case Nil
  then show ?case using queue_inv_New by (auto simp: pushAll_def NewQueue_def queue_abs_def)
next
  case (snoc req reqs)
  obtain k r m where req: "req = (k, r, m)" by (cases req) auto
  let ?q = "pushAll reqs NewQueue"
  obtain items where items: "map released items = reqs" "sorted_wrt (<) (map iseq items)" "queue_inv ?q" "qseq ?q = of_nat (length reqs)"
    "queue_abs ?q = sort_key item_key items" "\<forall>it\<in>set items. iseq it \<le> of_nat (length reqs)"
    using snoc by auto
  define it where "it = \<lparr>IKind = k, IRequester = r, IMessage = m, iseq = qseq ?q + 1\<rparr>"
  have n: "unat (of_nat (length reqs) :: u64) = length reqs" "unat (of_nat (Suc (length reqs)) :: u64) = Suc (length reqs)"
    using snoc.prems(2) by (simp_all add: unat_of_nat del: of_nat_Suc)
  then have lt: "(of_nat (length reqs) :: u64) < of_nat (Suc (length reqs))" by (simp add: word_less_nat_alt del: of_nat_Suc)
  have "qseq ?q \<noteq> - 1" using n items(4) by (metis add.commute eq_neg_iff_add_eq_0 of_nat_Suc unat_0 nat.simps(3))
  then obtain q' where q': "Queue_Push ?q k r m = (q', None)" "queue_inv q'" "qseq q' = qseq ?q + 1" "queue_abs q' = insort_key item_key it (queue_abs ?q)"
    using Queue_Push_refines [OF items(3), of k it r m] snoc.prems(1) req it_def by auto
  have push: "pushAll (reqs @ [req]) NewQueue = q'" using q'(1) req by (simp add: pushAll_def)
  have grow: "iseq x < iseq it" if "x \<in> set items" for x
    using items(4,6) that lt by (auto simp: it_def add.commute intro: order.strict_trans1)
  then have wrt: "sorted_wrt (<) (map iseq (items @ [it]))" using items(2) by (auto simp: sorted_wrt_append)
  then have "distinct (map iseq (items @ [it]))" using strict_sorted_iff by blast
  then have "sort_key item_key (items @ [it]) = queue_abs q'"
    using items(5) q'(4) by (intro sort_key_inj_key_eq inj_item_key) (simp_all add: sorted_insort_key)
  moreover have "map released (items @ [it]) = reqs @ [req]" using items(1) by (simp add: released_def it_def req)
  moreover have "\<forall>x\<in>set (items @ [it]). iseq x \<le> of_nat (length (reqs @ [req]))"
    using grow items(4) by (auto simp: it_def add.commute intro: less_imp_le)
  ultimately show ?case using push q' items(4) wrt by (intro exI [of _ "items @ [it]"]) (simp add: add.commute)
qed

text \<open>C37: the queue releases what was pushed in order. Whatever requests are pushed, fewer than \<open>2 ^ 64\<close> of
  them and of valid kinds, \<open>PopAll\<close> ends and returns exactly them, sorted by the priority of their kind and, among
  requests of equal priority, in the order they came; the queue is empty then.\<close>

theorem prioqueue_releases_in_order:
  assumes "\<forall>(k, r, m)\<in>set reqs. validKind k" "length reqs < 2 ^ 64"
  shows "map released (snd (Queue_PopAll (pushAll reqs NewQueue))) = sort_key (\<lambda>p. Priority (fst p)) reqs \<and>
    Queue_Len (fst (Queue_PopAll (pushAll reqs NewQueue))) = 0"
proof -
  let ?q = "pushAll reqs NewQueue"
  obtain items where items: "map released items = reqs" "sorted_wrt (<) (map iseq items)" "queue_inv ?q" "queue_abs ?q = sort_key item_key items"
    using pushAll_items [OF assms] by blast
  have "snd (Queue_PopAll ?q) = queue_abs ?q"
    using items(3) popLoop_sorted [of "qheap ?q"] by (simp add: Queue_PopAll_def queue_abs_def queue_inv_def)
  also have "\<dots> = sort_key (\<lambda>it. Priority (IKind it)) items"
    using items(2,4) sort_key_pair [of iseq items "\<lambda>it. Priority (IKind it)"] by (simp add: item_key_def [abs_def] strict_sorted_iff)
  also have "map released \<dots> = sort_key (\<lambda>p. Priority (fst p)) reqs"
    using sort_key_map [of "\<lambda>p. Priority (fst p)" released items] items(1) by (simp add: comp_def released_def)
  finally show ?thesis by (simp add: Queue_PopAll_def Queue_Len_def split: if_split_asm)
qed

theorem prioqueue_releases_in_order_witness:
  "map fst (map released (snd (Queue_PopAll (pushAll [(KindPlain, zeroStreamID, zeroMessage), (KindTimed, zeroStreamID, zeroMessage),
      (KindCancelAll, zeroStreamID, zeroMessage)] NewQueue)))) = [KindCancelAll, KindTimed, KindPlain]"
  by (subst prioqueue_releases_in_order [THEN conjunct1]) (simp_all add: Priority_values validKind_def Kind_Valid_iff)

end
