(* ===== verification/Watchdog_Keeper.thy ===== *)
theory Watchdog_Keeper
  imports Dispatcher_Machine E2e_Watchdog
begin

text \<open>
  The package \<open>watchdog\<close>: a keeper ties the supervisor of package \<open>e2e\<close> to the dispatchers of package \<open>request\<close>.
  Dispatchers are shared: a reference is a number, and the store maps references to dispatchers. Go ranges over
  a map in an order of its own; that order is the argument \<open>streamOrder\<close> of \<open>Tick\<close>. The mutexes are not
  modelled: a call is one step.
\<close>

section \<open>The keeper\<close>

type_synonym dispatcherRef = nat
type_synonym 'w store = "dispatcherRef \<rightharpoonup> 'w Dispatcher"

record PurgeEvent =
  PStream :: StreamID
  Purged :: "TicketID list"

record Keeper =
  watch :: "StreamID \<rightharpoonup> dispatcherRef list"

definition NewKeeper :: Keeper where "NewKeeper = \<lparr>watch = Map.empty\<rparr>"

text \<open>A stream that is not in the map has no dispatchers.\<close>

definition watched :: "Keeper \<Rightarrow> StreamID \<Rightarrow> dispatcherRef list" where
  "watched k stream = (case watch k stream of None \<Rightarrow> [] | Some ds \<Rightarrow> ds)"

definition Watch :: "Keeper \<Rightarrow> StreamID \<Rightarrow> dispatcherRef \<Rightarrow> Keeper" where
  "Watch k stream d =
     (if d \<in> set (watched k stream) then k
      else k\<lparr>watch := (watch k)(stream \<mapsto> watched k stream @ [d])\<rparr>)"

text \<open>The inner loop of \<open>Tick\<close>. A reference with no dispatcher is a nil pointer.\<close>

fun purgeAll :: "'w store \<Rightarrow> dispatcherRef list \<Rightarrow> ('w store \<times> TicketID list) go" where
  "purgeAll st [] = Ok (st, [])"
| "purgeAll st (r # rs) =
     (case st r of
        None \<Rightarrow> Panic
      | Some d \<Rightarrow> andThen (PurgeNonSafety d) (\<lambda>(d', ids).
          andThen (purgeAll (st(r \<mapsto> d')) rs) (\<lambda>(st', ids'). Ok (st', ids @ ids'))))"

fun tickLoop :: "Keeper \<Rightarrow> Supervisor \<Rightarrow> nanos \<Rightarrow> StreamID list \<Rightarrow> 'w store \<Rightarrow> ('w store \<times> PurgeEvent list) go" where
  "tickLoop k spv now [] st = Ok (st, [])"
| "tickLoop k spv now (s # ss) st =
     (if \<not> InSafeState spv now s then tickLoop k spv now ss st
      else andThen (purgeAll st (watched k s)) (\<lambda>(st1, purged).
        andThen (tickLoop k spv now ss st1) (\<lambda>(st2, events). Ok (st2, \<lparr>PStream = s, Purged = purged\<rparr> # events))))"

definition Tick :: "Keeper \<Rightarrow> Supervisor \<Rightarrow> nanos \<Rightarrow> StreamID list \<Rightarrow> 'w store \<Rightarrow> ('w store \<times> PurgeEvent list) go" where
  "Tick k spv now streamOrder st = tickLoop k spv now streamOrder st"

section \<open>Purging as a function of the dispatcher\<close>

definition unsafePending :: "'w Dispatcher \<Rightarrow> TicketID set" where
  "unsafePending d = {i. \<exists>t. tickets d i = Some t \<and> tstate t \<noteq> StateFinalized \<and> \<not> IsSafety (tkind t)}"

definition purged :: "'w Dispatcher \<Rightarrow> 'w Dispatcher" where
  "purged d = d\<lparr>tickets := finalizeIn (ERequest ErrPurgedByWatchdog) (unsafePending d) (tickets d)\<rparr>"

lemma PurgeNonSafety_purged:
  assumes "wf_dispatcher d"
  shows "\<exists>ids. PurgeNonSafety d = Ok (purged d, ids) \<and> distinct ids \<and> set ids = unsafePending d"
proof -
  obtain d' ids where p: "PurgeNonSafety d = Ok (d', ids)"
    using wf_held [OF assms] by (auto simp: PurgeNonSafety_def) (metis surj_pair)
  moreover have "set ids = unsafePending d"
    using PurgeNonSafety_spec [OF p] assms by (auto simp: unsafePending_def wf_dispatcher_def)
  ultimately show ?thesis using PurgeNonSafety_spec [OF p] by (auto simp: purged_def)
qed

lemma unsafePending_purged [simp]: "unsafePending (purged d) = {}"
  by (auto simp: unsafePending_def purged_def finalizeIn_def split: if_splits)

lemma purged_purged [simp]: "purged (purged d) = purged d"
  by (simp add: purged_def [of "purged d"])

lemma wf_purged [simp]: "wf_dispatcher d \<Longrightarrow> wf_dispatcher (purged d)"
  using PurgeNonSafety_purged PurgeNonSafety_evolves evolves_wf by metis

definition wf_store :: "'w store \<Rightarrow> bool" where
  "wf_store st \<longleftrightarrow> (\<forall>r d. st r = Some d \<longrightarrow> wf_dispatcher d)"

definition purgeIn :: "dispatcherRef set \<Rightarrow> 'w store \<Rightarrow> 'w store" where
  "purgeIn R st = (\<lambda>r. if r \<in> R then map_option purged (st r) else st r)"

lemma purgeIn_simps [simp]:
  "purgeIn {} st = st" "dom (purgeIn R st) = dom st" "wf_store st \<Longrightarrow> wf_store (purgeIn R st)"
  "purgeIn R (purgeIn S st) = purgeIn (R \<union> S) st"
  by (auto simp: purgeIn_def wf_store_def fun_eq_iff dom_def option.map_comp comp_def split: if_splits)

lemma purgeAll_spec:
  assumes "wf_store st" "set rs \<subseteq> dom st"
  shows "\<exists>ids. purgeAll st rs = Ok (purgeIn (set rs) st, ids) \<and> set ids = (\<Union>r\<in>set rs. unsafePending (the (st r)))"
  using assms
proof (induction rs arbitrary: st)
  case (Cons r rs)
  then obtain d where d: "st r = Some d" "wf_dispatcher d" by (auto simp: wf_store_def)
  obtain ids where p: "PurgeNonSafety d = Ok (purged d, ids)" "set ids = unsafePending d"
    using PurgeNonSafety_purged [OF d(2)] by blast
  let ?st = "purgeIn {r} st"
  have st: "st(r \<mapsto> purged d) = ?st" using d by (auto simp: purgeIn_def fun_eq_iff)
  obtain ids' where rest: "purgeAll ?st rs = Ok (purgeIn (set rs) ?st, ids')"
    "set ids' = (\<Union>r\<in>set rs. unsafePending (the (?st r)))"
    using Cons.IH [of ?st] Cons.prems by auto
  have "unsafePending (the (?st x)) = (if x = r then {} else unsafePending (the (st x)))" for x
    using d by (auto simp: purgeIn_def)
  then have "set ids' = (\<Union>r'\<in>set rs - {r}. unsafePending (the (st r')))" using rest(2) by auto
  then show ?case using d p rest by (auto simp: st Un_commute)
qed simp

lemma tickLoop_spec:
  assumes "wf_store st" "\<forall>s\<in>set ss. set (watched k s) \<subseteq> dom st"
  shows "\<exists>events. tickLoop k spv now ss st = Ok (purgeIn (\<Union>s\<in>{s\<in>set ss. InSafeState spv now s}. set (watched k s)) st, events) \<and>
    map PStream events = filter (InSafeState spv now) ss"
  using assms
proof (induction ss arbitrary: st)
  case (Cons s ss)
  show ?case
  proof (cases "InSafeState spv now s")
    case True
    obtain ids where p: "purgeAll st (watched k s) = Ok (purgeIn (set (watched k s)) st, ids)"
      using purgeAll_spec [of st "watched k s"] Cons.prems by auto
    have "{s'. (s' = s \<or> s' \<in> set ss) \<and> InSafeState spv now s'} = insert s {s \<in> set ss. InSafeState spv now s}" using True by auto
    then show ?thesis
      using Cons.IH [of "purgeIn (set (watched k s)) st"] Cons.prems True p by (auto simp: Un_commute)
  next
    case False
    then have "{s'. (s' = s \<or> s' \<in> set ss) \<and> InSafeState spv now s'} = {s \<in> set ss. InSafeState spv now s}" by auto
    then show ?thesis using Cons False by simp
  qed
qed simp

text \<open>Registering a pair twice is registering it once, and keeps what was registered.\<close>

lemma watched_Watch: "set (watched (Watch k x d) y) = set (watched k y) \<union> (if y = x then {d} else {})"
  by (auto simp: Watch_def watched_def split: option.splits)

lemma distinct_Watch: "(\<And>y. distinct (watched k y)) \<Longrightarrow> distinct (watched (Watch k x d) y)"
  by (auto simp: Watch_def watched_def split: option.splits)

section \<open>Properties\<close>

text \<open>C10: silence is answered by a purge. Let a supervisor have seen any arrivals and resets, and let the
  dispatchers be in any well-formed states. One tick, in whatever order it visits the watched streams, ends without
  a panic, reports exactly the streams that must be in their safe state, and leaves every dispatcher as it was
  unless such a stream is registered for it; in those dispatchers every pending request that is not a safety request
  is finalized with the watchdog's error, whoever sent it, and nothing else changes.\<close>

theorem tick_purges_silent_streams:
  assumes "set streamOrder = dom (watch k)" "\<forall>x\<in>dom (watch k). set (watched k x) \<subseteq> dom st" "wf_store st"
    and "spv = fold applyEvent es (s\<lparr>streams := Map.empty\<rparr>)" "mustTrip = (\<lambda>x. mustBeSafe (configForLocked s x) (historyOf x es) now)"
  shows "\<exists>st' events. Tick k spv now streamOrder st = Ok (st', events) \<and> map PStream events = filter mustTrip streamOrder \<and>
    (\<forall>r d. st r = Some d \<longrightarrow>
      (if \<exists>x. mustTrip x \<and> r \<in> set (watched k x) then \<exists>d'. st' r = Some d' \<and> PurgeNonSafety d' = Ok (d', []) \<and>
         (\<forall>i. tickets d' i = (if i \<in> unsafePending d then map_option (finalizedWith (ERequest ErrPurgedByWatchdog)) (tickets d i) else tickets d i))
       else st' r = Some d))"
proof -
  have trip: "InSafeState spv now = mustTrip" using InSafeState_history assms(4,5) by blast
  define R where "R = (\<Union>x\<in>{x\<in>set streamOrder. mustTrip x}. set (watched k x))"
  obtain events where ev: "Tick k spv now streamOrder st = Ok (purgeIn R st, events)" "map PStream events = filter mustTrip streamOrder"
    using tickLoop_spec [of st streamOrder k spv now] assms(1-3) by (auto simp: Tick_def trip R_def)
  have R: "r \<in> R \<longleftrightarrow> (\<exists>x. mustTrip x \<and> r \<in> set (watched k x))" for r
  proof -
    have "x \<in> dom (watch k)" if "r \<in> set (watched k x)" for x using that by (cases "watch k x") (auto simp: watched_def)
    then show ?thesis unfolding R_def assms(1) by blast
  qed
  have idem: "PurgeNonSafety (purged d) = Ok (purged d, [])" if "st r = Some d" for r d
    using PurgeNonSafety_purged [of "purged d"] assms(3) that by (auto simp: wf_store_def)
  have "tickets (purged d) i = (if i \<in> unsafePending d then map_option (finalizedWith (ERequest ErrPurgedByWatchdog)) (tickets d i) else tickets d i)" for d :: "'a Dispatcher" and i
    by (simp add: purged_def finalizeIn_def)
  then show ?thesis using ev R idem by (intro exI conjI) (assumption | auto simp: purgeIn_def)+
qed

text \<open>Two streams, of which only the first is silent, and a dispatcher for each.\<close>

definition keptStream :: "u8 \<Rightarrow> StreamID" where "keptStream n = StreamID 2 0 0 0 0 n 0 1"

definition sampleKeeper :: Keeper where
  "sampleKeeper = Watch (Watch NewKeeper (keptStream 1) 0) (keptStream 2) 1"

definition sampleStore :: "unit store" where
  "sampleStore = [0 \<mapsto> NewDispatcher (\<lambda>w rq m. (w, m, None)) 5 NewSequencer None, 1 \<mapsto> NewDispatcher (\<lambda>w rq m. (w, m, None)) 6 NewSequencer None]"

definition sampleSupervisor :: Supervisor where
  "sampleSupervisor = NewSupervisor \<lparr>Timeout = 10, RequireMonotonicSequence = False, SequenceOverflowWraps = False\<rparr>"

theorem tick_purges_silent_streams_witness:
  "\<exists>st' events. Tick sampleKeeper (fold applyEvent [Arrival 0 (keptStream 1) 0, Arrival 15 (keptStream 2) 0] (sampleSupervisor\<lparr>streams := Map.empty\<rparr>))
     20 [keptStream 1, keptStream 2] sampleStore = Ok (st', events) \<and> map PStream events = [keptStream 1]"
proof -
  have "set [keptStream 1, keptStream 2] = dom (watch sampleKeeper)" "\<forall>x\<in>dom (watch sampleKeeper). set (watched sampleKeeper x) \<subseteq> dom sampleStore"
    by (auto simp: sampleKeeper_def Watch_def NewKeeper_def watched_def keptStream_def sampleStore_def)
  moreover have "wf_store sampleStore" by (auto simp: wf_store_def sampleStore_def NewDispatcher_wf split: if_splits)
  ultimately show ?thesis
    using tick_purges_silent_streams [OF _ _ _ refl refl, of "[keptStream 1, keptStream 2]" sampleKeeper sampleStore
        "[Arrival 0 (keptStream 1) 0, Arrival 15 (keptStream 2) 0]" sampleSupervisor 20]
    by (auto simp: mustBeSafe_def historyOf_def keptStream_def sampleSupervisor_def NewSupervisor_def configForLocked_def)
qed

end
