(* ===== verification/Wakeup.thy ===== *)
theory Wakeup
  imports Ep_Config
begin

text \<open>
  The package \<open>wakeup\<close>: the power states of an endpoint and the wake handshake. This endpoint type reads no
  event field and offers no configuration access. Each call is one step; the endpoint's mutex is
  not modelled.
\<close>

section \<open>Power states\<close>

type_synonym PowerState = u8

definition PowerNormal :: PowerState where "PowerNormal = 0"
definition PowerStandBy :: PowerState where "PowerStandBy = 1"
definition PowerSleep :: PowerState where "PowerSleep = 2"
definition PowerUnpowered :: PowerState where "PowerUnpowered = 3"

lemmas power_states = PowerNormal_def PowerStandBy_def PowerSleep_def PowerUnpowered_def

definition PowerState_Valid :: "PowerState \<Rightarrow> bool" where "PowerState_Valid s \<longleftrightarrow> s < 4"

type_synonym StartKind = u8

definition StartUnknown :: StartKind where "StartUnknown = 0"
definition StartHot :: StartKind where "StartHot = 1"
definition StartCold :: StartKind where "StartCold = 2"

record WakeHandshake =
  Start :: StartKind
  wakeup_Sequence :: u16

section \<open>Configuration and bodies\<close>

record WakeupConfig =
  wakeup_Enabled :: bool
  WakeHandshakeIntervalMillis :: u32
  WakeHandshakeRepeatCount :: u16

definition zeroWakeupConfig :: WakeupConfig where
  "zeroWakeupConfig = \<lparr>wakeup_Enabled = False, WakeHandshakeIntervalMillis = 0, WakeHandshakeRepeatCount = 0\<rparr>"

definition wakeup_configLen :: nat where "wakeup_configLen = 7"

definition WakeupConfig_Validate :: "WakeupConfig \<Rightarrow> rcp_error option" where
  "WakeupConfig_Validate c =
     (if \<not> wakeup_Enabled c then None
      else if WakeHandshakeIntervalMillis c = 0 then Some (EWakeup ErrInvalidHandshakeInterval)
      else if WakeHandshakeRepeatCount c = 0 then Some (EWakeup ErrInvalidHandshakeRepeatCount) else None)"

definition wakeup_EncodeConfig :: "WakeupConfig \<Rightarrow> bytes" where
  "wakeup_EncodeConfig c = [if wakeup_Enabled c then 1 else 0] @ put32 (WakeHandshakeIntervalMillis c) @ put16 (WakeHandshakeRepeatCount c)"

definition wakeup_DecodeConfig :: "bytes \<Rightarrow> WakeupConfig go" where
  "wakeup_DecodeConfig b =
     (if length b < wakeup_configLen then Err (EWakeup ErrShortBuffer_wakeup)
      else if length b > wakeup_configLen then Err (EWakeup ErrTrailingBytes_wakeup)
      else andThen (idx b 0) (\<lambda>en. andThen (get32 b 1) (\<lambda>iv. andThen (get16 b 5) (\<lambda>rc.
        Ok \<lparr>wakeup_Enabled = (en \<noteq> 0), WakeHandshakeIntervalMillis = iv, WakeHandshakeRepeatCount = rc\<rparr>))))"

definition powerStateLen :: nat where "powerStateLen = 1"

definition EncodePowerStateRequest :: "PowerState \<Rightarrow> bytes" where "EncodePowerStateRequest target = [target]"

definition DecodePowerStateRequest :: "bytes \<Rightarrow> PowerState go" where
  "DecodePowerStateRequest b =
     (if length b < powerStateLen then Err (EWakeup ErrShortBuffer_wakeup)
      else if length b > powerStateLen then Err (EWakeup ErrTrailingBytes_wakeup)
      else idx b 0)"

definition EncodePowerStateResponse :: "PowerState \<Rightarrow> bytes" where
  "EncodePowerStateResponse st = EncodePowerStateRequest st"

definition DecodePowerStateResponse :: "bytes \<Rightarrow> PowerState go" where
  "DecodePowerStateResponse b = DecodePowerStateRequest b"

definition wakeHandshakeLen :: nat where "wakeHandshakeLen = 3"

definition EncodeWakeHandshake :: "WakeHandshake \<Rightarrow> bytes" where
  "EncodeWakeHandshake h = [Start h] @ put16 (wakeup_Sequence h)"

definition DecodeWakeHandshake :: "bytes \<Rightarrow> WakeHandshake go" where
  "DecodeWakeHandshake b =
     (if length b < wakeHandshakeLen then Err (EWakeup ErrShortBuffer_wakeup)
      else if length b > wakeHandshakeLen then Err (EWakeup ErrTrailingBytes_wakeup)
      else andThen (idx b 0) (\<lambda>k. andThen (get16 b 1) (\<lambda>q. Ok \<lparr>Start = k, wakeup_Sequence = q\<rparr>)))"

section \<open>The endpoint\<close>

datatype WakeupTriggerKind = TriggerPowerStateChanged | TriggerWakeHandshake

record WakeupTriggerEvent =
  wakeup_TKind :: WakeupTriggerKind
  TState :: PowerState
  THandshake :: WakeHandshake

record WakeupEndpoint =
  wakeup_addr :: ByteBusID
  wakeup_cfg :: WakeupConfig
  wakeup_state :: PowerState
  lastStartKind :: StartKind
  retentionLost :: bool
  wakeup_triggers :: "WakeupTriggerEvent list"

definition wakeup_NewEndpoint :: "ByteBusID \<Rightarrow> WakeupEndpoint" where
  "wakeup_NewEndpoint addr = \<lparr>wakeup_addr = addr, wakeup_cfg = zeroWakeupConfig, wakeup_state = PowerNormal,
     lastStartKind = StartUnknown, retentionLost = False, wakeup_triggers = []\<rparr>"

definition wakeup_adopted :: "WakeupConfig \<Rightarrow> WakeupEndpoint \<Rightarrow> WakeupEndpoint" where
  "wakeup_adopted c e = e\<lparr>wakeup_cfg := c\<rparr>"

definition wakeup_Configure :: "Server \<Rightarrow> WakeupEndpoint \<Rightarrow> StreamID \<Rightarrow> WakeupConfig \<Rightarrow> Server \<times> WakeupEndpoint \<times> rcp_error option" where
  "wakeup_Configure s e rq c = configureEndpoint WakeupConfig_Validate wakeup_EncodeConfig wakeup_adopted s e (wakeup_addr e) rq c"

definition SetRetentionLost :: "WakeupEndpoint \<Rightarrow> WakeupEndpoint" where
  "SetRetentionLost e = e\<lparr>retentionLost := True\<rparr>"

definition AcknowledgeWake :: "WakeupEndpoint \<Rightarrow> WakeupEndpoint" where
  "AcknowledgeWake e = e\<lparr>wakeup_triggers := filter (\<lambda>t. wakeup_TKind t \<noteq> TriggerWakeHandshake) (wakeup_triggers e)\<rparr>"

definition wakeup_DrainTriggers :: "WakeupEndpoint \<Rightarrow> WakeupEndpoint \<times> WakeupTriggerEvent list" where
  "wakeup_DrainTriggers e = (e\<lparr>wakeup_triggers := []\<rparr>, wakeup_triggers e)"

definition stateChanged :: "PowerState \<Rightarrow> WakeupTriggerEvent" where
  "stateChanged target = \<lparr>wakeup_TKind = TriggerPowerStateChanged, TState = target, THandshake = \<lparr>Start = 0, wakeup_Sequence = 0\<rparr>\<rparr>"

definition handshake :: "StartKind \<Rightarrow> u16 \<Rightarrow> WakeupTriggerEvent" where
  "handshake k sq = \<lparr>wakeup_TKind = TriggerWakeHandshake, TState = 0, THandshake = \<lparr>Start = k, wakeup_Sequence = sq\<rparr>\<rparr>"

lemma u16_Suc: "sq < n \<Longrightarrow> unat (sq + 1 :: u16) = Suc (unat sq)"
proof -
  assume "sq < n"
  moreover have "unat n < 65536" using unsigned_less [of n] by simp
  ultimately have "unat sq + 1 < 65536" by (simp add: word_less_nat_alt)
  then show ?thesis by (simp add: unat_word_ariths)
qed

text \<open>The loop \<open>for seq := uint16(0); seq < n; seq++\<close>; the counter is a word and could wrap.\<close>

function handshakesFrom :: "StartKind \<Rightarrow> u16 \<Rightarrow> u16 \<Rightarrow> WakeupTriggerEvent list" where
  "handshakesFrom k sq n = (if sq < n then handshake k sq # handshakesFrom k (sq + 1) n else [])"
  by pat_completeness auto

termination
  by (relation "measure (\<lambda>(k, sq, n). unat n - unat sq)") (auto simp: u16_Suc word_less_nat_alt)

declare handshakesFrom.simps [simp del]

definition transitionTo :: "WakeupEndpoint \<Rightarrow> PowerState \<Rightarrow> WakeupEndpoint \<times> rcp_error option" where
  "transitionTo e target =
     (if target = PowerUnpowered then (e, Some (EWakeup ErrCannotRequestUnpowered))
      else if \<not> PowerState_Valid target then (e, Some (EWakeup ErrInvalidPowerState))
      else if wakeup_state e = target then (e, None)
      else
        (let waking = (wakeup_state e = PowerSleep \<and> target = PowerNormal);
             e1 = e\<lparr>wakeup_state := target, wakeup_triggers := wakeup_triggers e @ [stateChanged target]\<rparr>
         in if waking then
              (let startKind = (if retentionLost e then StartCold else StartHot)
               in (e1\<lparr>retentionLost := False, lastStartKind := startKind,
                      wakeup_triggers := wakeup_triggers e1 @ handshakesFrom startKind 0 (WakeHandshakeRepeatCount (wakeup_cfg e))\<rparr>, None))
            else (e1, None)))"

definition wakeup_responseFor :: "Message \<Rightarrow> ControlFlags \<Rightarrow> bytes \<Rightarrow> Message" where
  "wakeup_responseFor req rw body = responseWith req rw body"

definition wakeup_HandleRequest :: "Server \<Rightarrow> WakeupEndpoint \<Rightarrow> StreamID \<Rightarrow> Message \<Rightarrow> WakeupEndpoint \<times> Message go" where
  "wakeup_HandleRequest s e rq req =
     (if ByteBusID req \<noteq> wakeup_addr e then (e, Err (EWakeup ErrWrongEndpoint_wakeup))
      else case ReadEndpoint s rq (wakeup_addr e) of
        Err er \<Rightarrow> (e, Err er)
      | Panic \<Rightarrow> (e, Panic)
      | Ok _ \<Rightarrow>
          if \<not> wakeup_Enabled (wakeup_cfg e) then (e, Err (EWakeup ErrNotConfigured_wakeup))
          else if Has (Control req) FlagWrite then
            (case DecodePowerStateRequest (Body req) of
               Err er \<Rightarrow> (e, Err er)
             | Panic \<Rightarrow> (e, Panic)
             | Ok target \<Rightarrow>
                 (case transitionTo e target of
                    (e', Some er) \<Rightarrow> (e', Err er)
                  | (e', None) \<Rightarrow> (e', Ok (wakeup_responseFor req FlagWrite (EncodePowerStateResponse target)))))
          else if Has (Control req) FlagRead
          then (e, Ok (wakeup_responseFor req FlagRead (EncodePowerStateResponse (wakeup_state e))))
          else (e, Err (EWakeup ErrRequestMustReadOrWrite_wakeup)))"

section \<open>Laws\<close>

interpretation wakeup_config: body_codec wakeup_EncodeConfig wakeup_DecodeConfig "\<lambda>_. True"
  by unfold_locales (auto simp: wakeup_DecodeConfig_def wakeup_EncodeConfig_def wakeup_configLen_def put16_def put32_def wire_simps)

interpretation wakeup_ep: config_block wakeup_EncodeConfig wakeup_DecodeConfig WakeupConfig_Validate wakeup_cfg wakeup_adopted
  by unfold_locales (simp add: wakeup_adopted_def)

interpretation power_state: exact_codec EncodePowerStateRequest DecodePowerStateRequest "\<lambda>_. True"
proof
  fix b x
  assume "DecodePowerStateRequest b = Ok x"
  then show "True \<and> EncodePowerStateRequest x = b"
    by (cases b) (auto simp: DecodePowerStateRequest_def EncodePowerStateRequest_def powerStateLen_def split: if_splits)
qed (auto simp: DecodePowerStateRequest_def EncodePowerStateRequest_def powerStateLen_def idx_def)

interpretation wake_handshake: exact_codec EncodeWakeHandshake DecodeWakeHandshake "\<lambda>_. True"
proof
  fix b x
  assume x: "DecodeWakeHandshake b = Ok x"
  then have "length b = 3" by (auto simp: DecodeWakeHandshake_def wakeHandshakeLen_def split: if_splits)
  with x nths_of [OF this] show "True \<and> EncodeWakeHandshake x = b"
    by (auto simp: DecodeWakeHandshake_def EncodeWakeHandshake_def wakeHandshakeLen_def eval_nat_numeral)
qed (auto simp: DecodeWakeHandshake_def EncodeWakeHandshake_def wakeHandshakeLen_def put16_def wire_simps)

lemma handshakesFrom_upt: "handshakesFrom k sq n = map (\<lambda>i. handshake k (word_of_nat i)) [unat sq..<unat n]"
proof (induction k sq n rule: handshakesFrom.induct)
  case (1 k sq n)
  show ?case
  proof (cases "sq < n")
    case True
    then show ?thesis
      using 1 by (subst handshakesFrom.simps) (simp add: u16_Suc upt_conv_Cons word_less_nat_alt)
  next
    case False
    then show ?thesis by (subst handshakesFrom.simps) (simp add: word_less_nat_alt)
  qed
qed

section \<open>Runs\<close>

inductive wakeup_step :: "WakeupEndpoint \<Rightarrow> WakeupEndpoint \<Rightarrow> bool" where
  configure: "wakeup_Configure s e rq c = (s', e', err) \<Longrightarrow> wakeup_step e e'"
| request: "wakeup_HandleRequest s e rq req = (e', r) \<Longrightarrow> wakeup_step e e'"
| retention: "wakeup_step e (SetRetentionLost e)"
| acknowledge: "wakeup_step e (AcknowledgeWake e)"
| drain: "wakeup_step e (fst (wakeup_DrainTriggers e))"

definition wakeup_inv :: "WakeupEndpoint \<Rightarrow> bool" where
  "wakeup_inv e \<longleftrightarrow> wakeup_state e \<in> {PowerNormal, PowerStandBy, PowerSleep}"

lemma valid_power_states: "PowerState_Valid p \<Longrightarrow> p \<noteq> PowerUnpowered \<Longrightarrow> p \<in> {PowerNormal, PowerStandBy, PowerSleep}"
proof -
  assume "PowerState_Valid p" and not3: "p \<noteq> PowerUnpowered"
  then have "unat p < 4" by (simp add: PowerState_Valid_def word_less_nat_alt)
  then obtain k where k: "p = word_of_nat k" "k < 4" using word_of_nat_below by blast
  from k(2) have "k \<in> {0, 1, 2, 3}" by auto
  then show ?thesis using k(1) not3 by (auto simp: power_states)
qed

text \<open>What a request does: nothing, or one transition that was asked for.\<close>

lemma wakeup_HandleRequest_cases:
  assumes "wakeup_HandleRequest s e rq req = (e', r)"
  obtains (failed) er where "e' = e" "r = Err er"
  | (reading) "e' = e" "\<not> Has (Control req) FlagWrite" "r = Ok (wakeup_responseFor req FlagRead [wakeup_state e])"
  | (transition) target where "Has (Control req) FlagWrite" "Body req = [target]" "CanAccess (acl s) rq (wakeup_addr e)"
      "wakeup_Enabled (wakeup_cfg e)" "target \<in> {PowerNormal, PowerStandBy, PowerSleep}" "transitionTo e target = (e', None)"
      "r = Ok (wakeup_responseFor req FlagWrite [target])"
proof (cases "ByteBusID req = wakeup_addr e \<and> (\<exists>b. ReadEndpoint s rq (wakeup_addr e) = Ok b) \<and> wakeup_Enabled (wakeup_cfg e)")
  case False
  then show ?thesis using assms failed by (auto simp: wakeup_HandleRequest_def ReadEndpoint_def split: if_splits option.splits)
next
  case True
  then have acc: "CanAccess (acl s) rq (wakeup_addr e)" by (auto simp: ReadEndpoint_def split: if_splits)
  note bodies = EncodePowerStateResponse_def EncodePowerStateRequest_def
  show ?thesis
  proof (cases "Has (Control req) FlagWrite")
    case False
    then show ?thesis using assms True failed reading by (auto simp: wakeup_HandleRequest_def bodies split: if_splits)
  next
    case wr: True
    show ?thesis
    proof (cases "DecodePowerStateRequest (Body req)")
      case (Ok target)
      then have body: "Body req = [target]" using power_state.enc_dec by (fastforce simp: EncodePowerStateRequest_def)
      show ?thesis
      proof (cases "PowerState_Valid target \<and> target \<noteq> PowerUnpowered")
        case valid: True
        then have "transitionTo e target = (e', None)" "r = Ok (wakeup_responseFor req FlagWrite [target])"
          using assms True wr Ok by (auto simp: wakeup_HandleRequest_def transitionTo_def Let_def bodies split: if_splits)
        then show ?thesis using transition [OF wr body acc] True valid valid_power_states by blast
      qed (use assms True wr Ok failed in \<open>auto simp: wakeup_HandleRequest_def transitionTo_def split: if_splits\<close>)
    qed (use assms True wr failed power_state.dec_no_panic in \<open>auto simp: wakeup_HandleRequest_def\<close>)
  qed
qed

lemma transitionTo_state: "transitionTo e target = (e', None) \<Longrightarrow> wakeup_state e' = target"
  by (auto simp: transitionTo_def Let_def split: if_splits)

interpretation wakeup: invariant_steps wakeup_step wakeup_inv
proof
  fix e e'
  assume "wakeup_inv e" "wakeup_step e e'"
  from this(2,1) show "wakeup_inv e'"
  proof cases
    case (configure s rq c s' err)
    then show ?thesis using \<open>wakeup_inv e\<close>
      by (auto simp: wakeup_Configure_def configureEndpoint_def wakeup_adopted_def wakeup_inv_def split: option.splits prod.splits)
  next
    case (request s rq req r)
    then show ?thesis using \<open>wakeup_inv e\<close>
      by (cases rule: wakeup_HandleRequest_cases) (auto simp: wakeup_inv_def dest: transitionTo_state)
  qed (auto simp: wakeup_inv_def SetRetentionLost_def AcknowledgeWake_def wakeup_DrainTriggers_def)
qed

section \<open>Properties\<close>

text \<open>The power states. From a new endpoint, whatever is configured, requested, acknowledged or drained,
  the state is never \<open>PowerUnpowered\<close> or unknown. A request that succeeds with a write puts the endpoint
  into the state it asks for and reports the change exactly when there is one; waking from sleep, and
  only that, adds one handshake for each number below the repeat count, in order, marked cold exactly
  when retention was lost, and clears that mark.\<close>

theorem wakeup_power_states:
  assumes "wakeup_step\<^sup>*\<^sup>* (wakeup_NewEndpoint addr) e"
    and "wakeup_HandleRequest s e rq req = (e', Ok resp)" "Has (Control req) FlagWrite"
  shows "wakeup_state e \<in> {PowerNormal, PowerStandBy, PowerSleep} \<and> wakeup_state e' \<in> {PowerNormal, PowerStandBy, PowerSleep} \<and>
    Body req = [wakeup_state e'] \<and>
    (let waking = wakeup_state e = PowerSleep \<and> wakeup_state e' = PowerNormal;
         kind = (if retentionLost e then StartCold else StartHot) in
     wakeup_triggers e' = wakeup_triggers e @
       (if wakeup_state e' = wakeup_state e then [] else [stateChanged (wakeup_state e')]) @
       (if waking then map (\<lambda>i. handshake kind (word_of_nat i)) [0..<unat (WakeHandshakeRepeatCount (wakeup_cfg e))] else []) \<and>
     retentionLost e' = (retentionLost e \<and> \<not> waking) \<and> lastStartKind e' = (if waking then kind else lastStartKind e))"
proof -
  have "wakeup_inv (wakeup_NewEndpoint addr)" by (simp add: wakeup_inv_def wakeup_NewEndpoint_def)
  then have inv: "wakeup_inv e" using wakeup.steps_inv [OF assms(1)] by blast
  from assms(2) show ?thesis
  proof (cases rule: wakeup_HandleRequest_cases)
    case (transition target)
    then show ?thesis
      using inv by (auto simp: transitionTo_def wakeup_inv_def handshakesFrom_upt power_states Let_def split: if_splits)
  qed (use assms(3) in auto)
qed

text \<open>An endpoint goes to sleep, loses its memory and is woken: two cold handshakes.\<close>

definition wakeupRoot :: StreamID where "wakeupRoot = StreamID 2 0 0 0 0 1 0 1"

definition wakeupServer :: Server where
  "wakeupServer = fst (AddEndpoint (fst (ClaimRoot NewServer wakeupRoot)) wakeupRoot 8 EndpointTypeWakeup)"

definition wakeupRequest :: "PowerState \<Rightarrow> Message" where
  "wakeupRequest p = zeroMessage\<lparr>Kind := KindShort, ByteBusID := 8, Control := FlagWrite, Body := [p]\<rparr>"

definition wakeupConfig :: WakeupConfig where
  "wakeupConfig = \<lparr>wakeup_Enabled = True, WakeHandshakeIntervalMillis = 10, WakeHandshakeRepeatCount = 2\<rparr>"

definition wakeupStarted :: "Server \<times> WakeupEndpoint \<times> rcp_error option" where
  "wakeupStarted = wakeup_Configure wakeupServer (wakeup_NewEndpoint 8) wakeupRoot wakeupConfig"

definition wakeupAsleep :: "WakeupEndpoint \<times> Message go" where
  "wakeupAsleep = wakeup_HandleRequest (fst wakeupStarted) (fst (snd wakeupStarted)) wakeupRoot (wakeupRequest PowerSleep)"

definition wakeupAwake :: "WakeupEndpoint \<times> Message go" where
  "wakeupAwake = wakeup_HandleRequest (fst wakeupStarted) (SetRetentionLost (fst wakeupAsleep)) wakeupRoot (wakeupRequest PowerNormal)"

theorem wakeup_power_states_witness:
  "wakeup_state (fst wakeupAwake) = PowerNormal \<and> \<not> retentionLost (fst wakeupAwake) \<and>
   wakeup_triggers (fst wakeupAwake) =
     [stateChanged PowerSleep, stateChanged PowerNormal, handshake StartCold 0, handshake StartCold 1]"
proof -
  have "wakeup_Configure wakeupServer (wakeup_NewEndpoint 8) wakeupRoot wakeupConfig =
    (fst wakeupStarted, fst (snd wakeupStarted), snd (snd wakeupStarted))" by (simp add: wakeupStarted_def)
  note s1 = wakeup_step.configure [OF this]
  have "wakeup_HandleRequest (fst wakeupStarted) (fst (snd wakeupStarted)) wakeupRoot (wakeupRequest PowerSleep) =
    (fst wakeupAsleep, snd wakeupAsleep)" by (simp add: wakeupAsleep_def)
  note s2 = wakeup_step.request [OF this]
  note run = rtranclp.rtrancl_into_rtrancl [OF rtranclp.rtrancl_into_rtrancl [OF r_into_rtranclp [of wakeup_step, OF s1] s2]
      wakeup_step.retention]
  have c: "case snd wakeupAwake of Ok _ \<Rightarrow> True | _ \<Rightarrow> False" "Has (Control (wakeupRequest PowerNormal)) FlagWrite"
    "Body (wakeupRequest PowerNormal) = [PowerNormal]"
    "wakeup_state (SetRetentionLost (fst wakeupAsleep)) = PowerSleep" "retentionLost (SetRetentionLost (fst wakeupAsleep))"
    "wakeup_cfg (SetRetentionLost (fst wakeupAsleep)) = wakeupConfig" "WakeHandshakeRepeatCount wakeupConfig = 2"
    "wakeup_triggers (SetRetentionLost (fst wakeupAsleep)) = [stateChanged PowerSleep]" "PowerSleep \<noteq> PowerNormal"
    by code_simp+
  then obtain resp where "snd wakeupAwake = Ok resp" by (auto split: outcome.splits)
  then have "wakeup_HandleRequest (fst wakeupStarted) (SetRetentionLost (fst wakeupAsleep)) wakeupRoot (wakeupRequest PowerNormal) =
    (fst wakeupAwake, Ok resp)" by (metis wakeupAwake_def prod.collapse)
  from wakeup_power_states [OF run this c(2)] c(3-) show ?thesis by (auto simp: Let_def upt_rec)
qed

end
