(* ===== verification/Powerstate.thy ===== *)
theory Powerstate
  imports Wakeup
begin

text \<open>
  The package \<open>powerstate\<close>: a driver that takes the triggers of a wake-up endpoint and sends the wake handshakes one by
  one. The endpoint is shared with the requests that change its power state, so it is passed and returned. The
  transmitter is outside: a function on a world \<open>'w\<close>. \<open>Pump\<close> holds the driver's mutex throughout; a call is one
  step.
\<close>

section \<open>The driver\<close>

type_synonym 'w Transmitter = "'w \<Rightarrow> StreamID \<Rightarrow> WakeHandshake \<Rightarrow> 'w \<times> rcp_error option"

record Driver =
  dr_target :: StreamID
  dr_pending :: "WakeHandshake list"

definition NewDriver :: "StreamID \<Rightarrow> Driver" where "NewDriver t = \<lparr>dr_target = t, dr_pending = []\<rparr>"

text \<open>The loop of \<open>Pump\<close> over the drained triggers.\<close>

fun sortTriggers :: "WakeupTriggerEvent list \<Rightarrow> PowerState list \<Rightarrow> WakeHandshake list \<Rightarrow> PowerState list \<times> WakeHandshake list" where
  "sortTriggers [] evs pending = (evs, pending)"
| "sortTriggers (tr # trs) evs pending =
     (case wakeup_TKind tr of
        TriggerPowerStateChanged \<Rightarrow> sortTriggers trs (evs @ [TState tr]) pending
      | TriggerWakeHandshake \<Rightarrow> sortTriggers trs evs (pending @ [THandshake tr]))"

definition Driver_Pump ::
  "'w Transmitter \<Rightarrow> Driver \<Rightarrow> WakeupEndpoint \<Rightarrow> 'w \<Rightarrow> Driver \<times> WakeupEndpoint \<times> 'w \<times> PowerState list \<times> rcp_error option" where
  "Driver_Pump send d e w =
     (case wakeup_DrainTriggers e of (e', drained) \<Rightarrow>
        case sortTriggers drained [] (dr_pending d) of (evs, pending) \<Rightarrow>
          (case pending of
             [] \<Rightarrow> (d\<lparr>dr_pending := []\<rparr>, e', w, evs, None)
           | nxt # rest \<Rightarrow>
               (case send w (dr_target d) nxt of
                  (w', Some er) \<Rightarrow> (d\<lparr>dr_pending := pending\<rparr>, e', w', evs, Some er)
                | (w', None) \<Rightarrow> (d\<lparr>dr_pending := rest\<rparr>, e', w', evs, None))))"

definition Driver_Acknowledge :: "Driver \<Rightarrow> WakeupEndpoint \<Rightarrow> Driver \<times> WakeupEndpoint" where
  "Driver_Acknowledge d e = (d\<lparr>dr_pending := []\<rparr>, AcknowledgeWake e)"

definition Driver_Pending :: "Driver \<Rightarrow> nat" where "Driver_Pending d = length (dr_pending d)"

section \<open>Laws\<close>

definition statesIn :: "WakeupTriggerEvent list \<Rightarrow> PowerState list" where
  "statesIn trs = map TState (filter (\<lambda>t. wakeup_TKind t = TriggerPowerStateChanged) trs)"

definition handshakesIn :: "WakeupTriggerEvent list \<Rightarrow> WakeHandshake list" where
  "handshakesIn trs = map THandshake (filter (\<lambda>t. wakeup_TKind t = TriggerWakeHandshake) trs)"

lemma sortTriggers_split: "sortTriggers trs evs pending = (evs @ statesIn trs, pending @ handshakesIn trs)"
  by (induction trs evs pending rule: sortTriggers.induct) (auto simp: statesIn_def handshakesIn_def split: WakeupTriggerKind.split)

text \<open>Handshakes that are on their way: pulled by the driver, or still in the queue of the endpoint.\<close>

definition outstanding :: "Driver \<Rightarrow> WakeupEndpoint \<Rightarrow> WakeHandshake list" where
  "outstanding d e = dr_pending d @ handshakesIn (wakeup_triggers e)"

lemma Driver_Pump_cases:
  assumes "Driver_Pump send d e w = (d', e', w', evs, err)"
  shows "dr_target d' = dr_target d \<and> evs = statesIn (wakeup_triggers e) \<and> e' = e\<lparr>wakeup_triggers := []\<rparr> \<and>
    (case outstanding d e of
       [] \<Rightarrow> dr_pending d' = [] \<and> w' = w \<and> err = None
     | h # hs \<Rightarrow> send w (dr_target d) h = (w', err) \<and> dr_pending d' = (if err = None then hs else h # hs))"
  using assms
  by (auto simp: Driver_Pump_def wakeup_DrainTriggers_def sortTriggers_split outstanding_def
      split: list.splits prod.splits option.splits)

section \<open>A link that loses messages\<close>

text \<open>The world of a link: for each attempt whether it succeeds, and what arrived, in order.\<close>

type_synonym link = "bool list \<times> (StreamID \<times> WakeHandshake) list"

definition lossySend :: "link Transmitter" where
  "lossySend l target h =
     (case fst l of
        True # rest \<Rightarrow> ((rest, snd l @ [(target, h)]), None)
      | _ # rest \<Rightarrow> ((rest, snd l), Some (EUdp ErrTimeout))
      | [] \<Rightarrow> (l, Some (EUdp ErrTimeout)))"

fun pumps :: "nat \<Rightarrow> Driver \<times> WakeupEndpoint \<times> link \<Rightarrow> Driver \<times> WakeupEndpoint \<times> link" where
  "pumps 0 s = s"
| "pumps (Suc n) (d, e, l) = (case Driver_Pump lossySend d e l of (d', e', l', _) \<Rightarrow> pumps n (d', e', l'))"

lemma pumps_idle: "outstanding d e = [] \<Longrightarrow> pumps n (d, e, l) = (d', e', l') \<Longrightarrow> l' = l \<and> outstanding d' e' = [] \<and> wakeup_state e' = wakeup_state e"
proof (induction n arbitrary: d e)
  case (Suc n)
  obtain d1 e1 l1 evs err where p: "Driver_Pump lossySend d e l = (d1, e1, l1, evs, err)" by (cases "Driver_Pump lossySend d e l") auto
  from Driver_Pump_cases [OF p] Suc.prems(1)
  have "l1 = l" "outstanding d1 e1 = []" "wakeup_state e1 = wakeup_state e" by (auto simp: outstanding_def handshakesIn_def)
  then show ?case using Suc p by simp
qed simp

lemma pumps_send:
  assumes "pumps (length ok) (d, e, (ok, got)) = (d', e', (rest, got'))"
  shows "got' = got @ map (Pair (dr_target d)) (take (count_list ok True) (outstanding d e)) \<and>
    outstanding d' e' = drop (count_list ok True) (outstanding d e) \<and> wakeup_state e' = wakeup_state e"
  using assms
proof (induction ok arbitrary: d e got)
  case (Cons b ok)
  show ?case
  proof (cases "outstanding d e")
    case Nil
    then show ?thesis using pumps_idle [OF Nil Cons.prems] by simp
  next
    case (Cons h hs)
    obtain d1 e1 l1 evs err where p: "Driver_Pump lossySend d e (b # ok, got) = (d1, e1, l1, evs, err)"
      by (cases "Driver_Pump lossySend d e (b # ok, got)") auto
    from Driver_Pump_cases [OF p] Cons
    have "l1 = (ok, got @ (if b then [(dr_target d, h)] else []))" "outstanding d1 e1 = (if b then hs else h # hs)"
      "dr_target d1 = dr_target d" "wakeup_state e1 = wakeup_state e"
      by (auto simp: outstanding_def handshakesIn_def lossySend_def split: bool.splits)
    then show ?thesis using Cons Cons.IH [of d1 e1 "got @ (if b then [(dr_target d, h)] else [])"] Cons.prems p by (auto split: if_splits)
  qed
qed (simp add: outstanding_def)

section \<open>Properties\<close>

lemma handshakesIn_append [simp]: "handshakesIn (xs @ ys) = handshakesIn xs @ handshakesIn ys"
  by (simp add: handshakesIn_def)

lemma handshakesIn_triggers [simp]: "handshakesIn [stateChanged p] = []" "handshakesIn (map (handshake k) sqs) = map (\<lambda>sq. \<lparr>Start = k, wakeup_Sequence = sq\<rparr>) sqs"
  by (simp_all add: handshakesIn_def stateChanged_def handshake_def filter_map comp_def)

text \<open>C38: a wake is announced in order and without loss. When a request wakes an endpoint from sleep and no earlier
  handshake is outstanding, then after any number of pumps over a link that fails at will the messages that
  arrived are the first handshakes of this wake, one for every attempt that succeeded, numbered from 0, marked cold exactly when
  retention was lost, and addressed to the driver's target; the others are still outstanding, so that with enough
  successes all of them arrive and nothing remains. Acknowledging discards whatever is outstanding.\<close>

theorem wake_handshakes_delivered:
  assumes "wakeup_state e = PowerSleep" "wakeup_HandleRequest s e rq req = (e1, Ok resp)" "Has (Control req) FlagWrite" "Body req = [PowerNormal]"
    and "outstanding d e = []" "pumps (length ok) (d, e1, (ok, [])) = (d', e', (rest, got))"
    and "hs = map (\<lambda>i. \<lparr>Start = (if retentionLost e then StartCold else StartHot), wakeup_Sequence = word_of_nat i\<rparr>)
      [0..<unat (WakeHandshakeRepeatCount (wakeup_cfg e))]"
  shows "got = map (Pair (dr_target d)) (take (count_list ok True) hs) \<and> outstanding d' e' = drop (count_list ok True) hs \<and>
    wakeup_state e' = PowerNormal \<and> (case Driver_Acknowledge d' e' of (d'', e'') \<Rightarrow> outstanding d'' e'' = [])"
proof -
  have tr: "transitionTo e PowerNormal = (e1, None)"
    using assms(2) by (cases rule: wakeup_HandleRequest_cases) (use assms(3,4) in auto)
  let ?k = "if retentionLost e then StartCold else StartHot"
  have "wakeup_triggers e1 = wakeup_triggers e @ [stateChanged PowerNormal] @
      map (handshake ?k) (map word_of_nat [0..<unat (WakeHandshakeRepeatCount (wakeup_cfg e))])"
    using tr assms(1) by (auto simp: transitionTo_def Let_def power_states PowerState_Valid_def handshakesFrom_upt comp_def split: if_splits)
  then have "outstanding d e1 = outstanding d e @ hs"
    by (simp only: outstanding_def handshakesIn_append handshakesIn_triggers assms(7)) (simp add: comp_def)
  then have "outstanding d e1 = hs" using assms(5) by simp
  moreover have "wakeup_state e1 = PowerNormal" using tr by (rule transitionTo_state)
  moreover have "outstanding (d'\<lparr>dr_pending := []\<rparr>) (AcknowledgeWake e') = []"
    by (simp add: outstanding_def handshakesIn_def AcknowledgeWake_def)
  ultimately show ?thesis using pumps_send [OF assms(6)] by (simp add: Driver_Acknowledge_def)
qed

theorem wake_handshakes_delivered_witness:
  "fst (snd (snd (pumps 3 (NewDriver wakeupRoot, fst wakeupAwake, ([False, True, True], []))))) = [] \<and>
   snd (snd (snd (pumps 3 (NewDriver wakeupRoot, fst wakeupAwake, ([False, True, True], []))))) =
     [(wakeupRoot, \<lparr>Start = StartCold, wakeup_Sequence = 0\<rparr>), (wakeupRoot, \<lparr>Start = StartCold, wakeup_Sequence = 1\<rparr>)]"
proof -
  have c: "case snd wakeupAwake of Ok _ \<Rightarrow> True | _ \<Rightarrow> False" "Has (Control (wakeupRequest PowerNormal)) FlagWrite"
    "Body (wakeupRequest PowerNormal) = [PowerNormal]"
    "wakeup_state (SetRetentionLost (fst wakeupAsleep)) = PowerSleep" "retentionLost (SetRetentionLost (fst wakeupAsleep))"
    "wakeup_cfg (SetRetentionLost (fst wakeupAsleep)) = wakeupConfig" "WakeHandshakeRepeatCount wakeupConfig = 2"
    "outstanding (NewDriver wakeupRoot) (SetRetentionLost (fst wakeupAsleep)) = []" "dr_target (NewDriver wakeupRoot) = wakeupRoot"
    "fst (snd (snd (pumps 3 (NewDriver wakeupRoot, fst wakeupAwake, ([False, True, True], []))))) = []"
    by code_simp+
  then obtain resp where "snd wakeupAwake = Ok resp" by (auto split: outcome.splits)
  then have "wakeup_HandleRequest (fst wakeupStarted) (SetRetentionLost (fst wakeupAsleep)) wakeupRoot (wakeupRequest PowerNormal) =
    (fst wakeupAwake, Ok resp)" by (metis wakeupAwake_def prod.collapse)
  note awake = this
  obtain d' e' rest got where p: "pumps 3 (NewDriver wakeupRoot, fst wakeupAwake, ([False, True, True], [])) = (d', e', (rest, got))"
    by (metis prod.collapse)
  have "3 = length [False, True, True]" "[0..<unat (2 :: u16)] = [0, 1]" by (simp_all add: upt_rec)
  from wake_handshakes_delivered [OF c(4) awake c(2,3,8) p [unfolded this(1)] refl] this(2) c(5-7,9)
  have "got = [(wakeupRoot, \<lparr>Start = StartCold, wakeup_Sequence = 0\<rparr>), (wakeupRoot, \<lparr>Start = StartCold, wakeup_Sequence = 1\<rparr>)]"
    by simp
  then show ?thesis using p c(10) by simp
qed

end
