(* ===== verification/Deadline.thy ===== *)
theory Deadline
  imports Regmap
begin

text \<open>
  The package \<open>deadline\<close>: the liveness of a stream from the triggers and heartbeats a client sees of it. The
  injected clock is the argument \<open>now\<close>. Times are unbounded integers; the product in \<open>DeadlineForQueue\<close> is taken
  in 64 bits, as the type \<open>time.Duration\<close> does. Each call is one step; the mutex is not modelled.
\<close>

section \<open>The monitor\<close>

datatype LivenessState = LivenessDead | LivenessIdle | LivenessAlive

datatype deadline_error = ErrInvalidDeadline | ErrNoHeartbeatConfigured | ErrInvalidMissedHeartbeats

record DeadlineConfig = Deadline :: nanos

definition DeadlineConfig_Validate :: "DeadlineConfig \<Rightarrow> deadline_error option" where
  "DeadlineConfig_Validate c = (if Deadline c \<le> 0 then Some ErrInvalidDeadline else None)"

record livenessState =
  lastAny :: nanos
  lastTrigger :: nanos
  haveTrigger :: bool

record Monitor =
  mon_cfg :: DeadlineConfig
  mon_state :: "StreamID \<rightharpoonup> livenessState"

definition NewMonitor :: "DeadlineConfig \<Rightarrow> deadline_error + Monitor" where
  "NewMonitor c =
     (case DeadlineConfig_Validate c of
        Some er \<Rightarrow> Inl er
      | None \<Rightarrow> Inr \<lparr>mon_cfg = c, mon_state = Map.empty\<rparr>)"

text \<open>The zero value of a time, which no test reads before the field is set.\<close>

definition stateForLocked :: "Monitor \<Rightarrow> StreamID \<Rightarrow> livenessState" where
  "stateForLocked m stream =
     (case mon_state m stream of None \<Rightarrow> \<lparr>lastAny = 0, lastTrigger = 0, haveTrigger = False\<rparr> | Some st \<Rightarrow> st)"

definition ObserveTrigger :: "Monitor \<Rightarrow> nanos \<Rightarrow> StreamID \<Rightarrow> Monitor" where
  "ObserveTrigger m now stream = m\<lparr>mon_state := (mon_state m)(stream \<mapsto>
     (stateForLocked m stream)\<lparr>lastAny := now, lastTrigger := now, haveTrigger := True\<rparr>)\<rparr>"

definition ObserveHeartbeat :: "Monitor \<Rightarrow> nanos \<Rightarrow> StreamID \<Rightarrow> Monitor" where
  "ObserveHeartbeat m now stream = m\<lparr>mon_state := (mon_state m)(stream \<mapsto> (stateForLocked m stream)\<lparr>lastAny := now\<rparr>)\<rparr>"

definition Monitor_State :: "Monitor \<Rightarrow> nanos \<Rightarrow> StreamID \<Rightarrow> LivenessState" where
  "Monitor_State m now stream =
     (case mon_state m stream of
        None \<Rightarrow> LivenessDead
      | Some st \<Rightarrow>
          if now - lastAny st > Deadline (mon_cfg m) then LivenessDead
          else if haveTrigger st \<and> now - lastTrigger st \<le> Deadline (mon_cfg m) then LivenessAlive
          else LivenessIdle)"

definition Monitor_Alive :: "Monitor \<Rightarrow> nanos \<Rightarrow> StreamID \<Rightarrow> bool" where
  "Monitor_Alive m now stream \<longleftrightarrow> Monitor_State m now stream \<noteq> LivenessDead"

definition Monitor_Forget :: "Monitor \<Rightarrow> StreamID \<Rightarrow> Monitor" where
  "Monitor_Forget m stream = m\<lparr>mon_state := (mon_state m)(stream := None)\<rparr>"

section \<open>Deadlines from the heartbeat of a queue\<close>

text \<open>The value of a 64-bit signed product.\<close>

definition int64 :: "int \<Rightarrow> int" where "int64 x = signed_take_bit 63 x"

definition DeadlineForQueue :: "QueueConfig \<Rightarrow> int \<Rightarrow> deadline_error + nanos" where
  "DeadlineForQueue q missedHeartbeats =
     (if HeartbeatIntervalMillis q = 0 then Inl ErrNoHeartbeatConfigured
      else if missedHeartbeats < 1 then Inl ErrInvalidMissedHeartbeats
      else Inr (int64 (int64 (uint (HeartbeatIntervalMillis q) * missedHeartbeats) * 1000000)))"

section \<open>Histories\<close>

datatype live_event = Triggered nanos StreamID | Heartbeat nanos StreamID | Forgotten StreamID

fun applyLive :: "live_event \<Rightarrow> Monitor \<Rightarrow> Monitor" where
  "applyLive (Triggered now stream) m = ObserveTrigger m now stream"
| "applyLive (Heartbeat now stream) m = ObserveHeartbeat m now stream"
| "applyLive (Forgotten stream) m = Monitor_Forget m stream"

fun liveStream :: "live_event \<Rightarrow> StreamID" where
  "liveStream (Triggered now stream) = stream"
| "liveStream (Heartbeat now stream) = stream"
| "liveStream (Forgotten stream) = stream"

text \<open>
  The signals of a stream since it was last forgotten, the latest first: when, and whether it was a trigger.
\<close>

fun signals :: "StreamID \<Rightarrow> live_event list \<Rightarrow> (nanos \<times> bool) list" where
  "signals x [] = []"
| "signals x (Triggered t y # es) = (if y = x then (t, True) # signals x es else signals x es)"
| "signals x (Heartbeat t y # es) = (if y = x then (t, False) # signals x es else signals x es)"
| "signals x (Forgotten y # es) = (if y = x then [] else signals x es)"

text \<open>The verdict on a history: what the last signal and the last trigger say.\<close>

definition liveness :: "nanos \<Rightarrow> nanos \<Rightarrow> (nanos \<times> bool) list \<Rightarrow> LivenessState" where
  "liveness d now h =
     (if h = [] \<or> now - fst (hd h) > d then LivenessDead
      else case filter snd h of
             (t, _) # _ \<Rightarrow> if now - t \<le> d then LivenessAlive else LivenessIdle
           | [] \<Rightarrow> LivenessIdle)"

definition recorded :: "(nanos \<times> bool) list \<Rightarrow> livenessState option \<Rightarrow> bool" where
  "recorded h st \<longleftrightarrow> (case st of
     None \<Rightarrow> h = []
   | Some s \<Rightarrow> h \<noteq> [] \<and> lastAny s = fst (hd h) \<and> haveTrigger s = (filter snd h \<noteq> []) \<and>
       (filter snd h \<noteq> [] \<longrightarrow> lastTrigger s = fst (hd (filter snd h))))"

lemma monitor_records:
  "recorded (signals x (rev es)) (mon_state (fold applyLive es \<lparr>mon_cfg = c, mon_state = Map.empty\<rparr>) x) \<and>
   mon_cfg (fold applyLive es \<lparr>mon_cfg = c, mon_state = Map.empty\<rparr>) = c"
proof (induction es rule: rev_induct)
  case (snoc e es)
  then show ?case
    by (cases e) (auto simp: recorded_def ObserveTrigger_def ObserveHeartbeat_def Monitor_Forget_def stateForLocked_def split: option.splits)
qed (simp add: recorded_def)

lemma Monitor_State_history:
  "Monitor_State (fold applyLive es \<lparr>mon_cfg = c, mon_state = Map.empty\<rparr>) now x = liveness (Deadline c) now (signals x (rev es))"
  using monitor_records [of x es c]
  by (cases "filter snd (signals x (rev es))") (auto simp: Monitor_State_def liveness_def recorded_def split: option.splits prod.splits)

lemma DeadlineForQueue_exact:
  assumes "HeartbeatIntervalMillis q \<noteq> 0" "1 \<le> k" "uint (HeartbeatIntervalMillis q) * k * 1000000 < 2 ^ 63"
  shows "DeadlineForQueue q k = Inr (uint (HeartbeatIntervalMillis q) * k * 1000000)"
proof -
  have "int64 x = x" if "0 \<le> x" "x < 2 ^ 63" for x using that by (simp add: int64_def signed_take_bit_int_eq_self)
  moreover have "0 \<le> uint (HeartbeatIntervalMillis q) * k" using assms(2) by simp
  moreover have "uint (HeartbeatIntervalMillis q) * k < 2 ^ 63" using assms(2,3) calculation(2) by linarith
  ultimately show ?thesis using assms by (simp add: DeadlineForQueue_def)
qed

section \<open>Properties\<close>

text \<open>The verdict on a stream. After any signals of any streams, and whatever was forgotten, a monitor calls a
  stream dead exactly when it has no signal since it was last forgotten or the last one is older than the deadline;
  otherwise it is alive when the last trigger is recent enough, and idle when only heartbeats are. With a deadline that
  \<open>DeadlineForQueue\<close> makes of the heartbeat interval of a queue, without overflow, a stream is dead exactly when
  nothing came for more than that many intervals.\<close>

theorem liveness_verdict:
  assumes "NewMonitor c = Inr m"
  shows "Monitor_State (fold applyLive es m) now x = liveness (Deadline c) now (signals x (rev es)) \<and>
    (DeadlineForQueue q k = Inr (Deadline c) \<and> uint (HeartbeatIntervalMillis q) * k * 1000000 < 2 ^ 63 \<longrightarrow>
     (Monitor_Alive (fold applyLive es m) now x \<longleftrightarrow>
      (\<exists>t b rest. signals x (rev es) = (t, b) # rest \<and> now - t \<le> uint (HeartbeatIntervalMillis q) * k * 1000000)))"
proof -
  have st: "Monitor_State (fold applyLive es m) now x = liveness (Deadline c) now (signals x (rev es))"
    using assms Monitor_State_history by (auto simp: NewMonitor_def split: option.splits)
  moreover have "(Monitor_Alive (fold applyLive es m) now x \<longleftrightarrow>
      (\<exists>t b rest. signals x (rev es) = (t, b) # rest \<and> now - t \<le> Deadline c))"
    by (cases "signals x (rev es)") (auto simp: Monitor_Alive_def st liveness_def split: list.split)
  moreover have "Deadline c = uint (HeartbeatIntervalMillis q) * k * 1000000"
    if "DeadlineForQueue q k = Inr (Deadline c)" "uint (HeartbeatIntervalMillis q) * k * 1000000 < 2 ^ 63"
    using that DeadlineForQueue_exact [of q k] by (auto simp: DeadlineForQueue_def split: if_splits)
  ultimately show ?thesis by auto
qed

definition monitoredStream :: StreamID where "monitoredStream = StreamID 2 0 0 0 0 1 0 1"

theorem liveness_verdict_witness:
  "Monitor_State (fold applyLive [Triggered 0 monitoredStream, Heartbeat 30000000 monitoredStream] \<lparr>mon_cfg = \<lparr>Deadline = 20000000\<rparr>, mon_state = Map.empty\<rparr>)
     45000000 monitoredStream = LivenessIdle \<and>
   Monitor_Alive (fold applyLive [Triggered 0 monitoredStream, Heartbeat 30000000 monitoredStream] \<lparr>mon_cfg = \<lparr>Deadline = 20000000\<rparr>, mon_state = Map.empty\<rparr>)
     45000000 monitoredStream"
proof -
  have m: "NewMonitor \<lparr>Deadline = 20000000\<rparr> = Inr \<lparr>mon_cfg = \<lparr>Deadline = 20000000\<rparr>, mon_state = Map.empty\<rparr>"
    by (simp add: NewMonitor_def DeadlineConfig_Validate_def)
  moreover have "DeadlineForQueue \<lparr>FlushThreshold = 0, FlushTimeMillis = 0, HeartbeatIntervalMillis = 10\<rparr> 2 = Inr 20000000"
    by (subst DeadlineForQueue_exact) simp_all
  ultimately show ?thesis
    using liveness_verdict [OF m, of "[Triggered 0 monitoredStream, Heartbeat 30000000 monitoredStream]" 45000000 monitoredStream
        "\<lparr>FlushThreshold = 0, FlushTimeMillis = 0, HeartbeatIntervalMillis = 10\<rparr>" 2]
    by (auto simp: liveness_def)
qed

text \<open>The product can overflow: an interval of 49 days and 2148 missed heartbeats give a negative deadline.\<close>

lemma DeadlineForQueue_overflows:
  "DeadlineForQueue \<lparr>FlushThreshold = 0, FlushTimeMillis = 0, HeartbeatIntervalMillis = 4294967295\<rparr> 2148 = Inr (- 9221154324049551616)"
  by (simp add: DeadlineForQueue_def int64_def signed_take_bit_eq_take_bit_shift take_bit_eq_mod)

end
