(* ===== verification/Mdns.thy ===== *)
theory Mdns
  imports Regmap
begin

text \<open>
  The package \<open>mdns\<close>: servers announce themselves and clients find them over multicast DNS. \<open>dns.go\<close> (names, records
  and messages), and what \<open>announcer.go\<close> sends and \<open>browser.go\<close> does with a packet. Go strings are octet strings here.
  Sockets, deadlines and the resolution of the local address are outside: an announcer is given four octets and
  a port. Go ranges over a map in no fixed order; the model lists the services in the order their pointers came.
\<close>

section \<open>Strings\<close>

definition ascii :: "string \<Rightarrow> bytes" where "ascii s = map of_char s"

abbreviation dot :: u8 where "dot \<equiv> 46"

definition trimDot :: "bytes \<Rightarrow> bytes" where
  "trimDot name = (if name \<noteq> [] \<and> last name = dot then butlast name else name)"

fun splitDots :: "bytes \<Rightarrow> bytes list" where
  "splitDots [] = [[]]"
| "splitDots (c # cs) =
     (if c = dot then [] # splitDots cs
      else case splitDots cs of l # ls \<Rightarrow> (c # l) # ls | [] \<Rightarrow> [[c]])"

fun joinDots :: "bytes list \<Rightarrow> bytes" where
  "joinDots [] = []"
| "joinDots [l] = l"
| "joinDots (l # ls) = l @ dot # joinDots ls"

definition hasPrefix :: "bytes \<Rightarrow> bytes \<Rightarrow> bool" where "hasPrefix s p \<longleftrightarrow> take (length p) s = p"
definition hasSuffix :: "bytes \<Rightarrow> bytes \<Rightarrow> bool" where "hasSuffix s p \<longleftrightarrow> hasPrefix (rev s) (rev p)"

section \<open>Names\<close>

datatype dns_error = errTruncated | errBadPointer

type_synonym 'a dns = "(dns_error, 'a) outcome"

definition serviceType :: bytes where "serviceType = ascii ''_rcp._udp.local.''"
definition dnsTypeA :: u16 where "dnsTypeA = 1"
definition dnsTypePTR :: u16 where "dnsTypePTR = 12"
definition dnsTypeTXT :: u16 where "dnsTypeTXT = 16"
definition dnsTypeSRV :: u16 where "dnsTypeSRV = 33"
definition dnsClassIN :: u16 where "dnsClassIN = 1"
definition flagResponse :: u16 where "flagResponse = 0x8400"
definition flagQuery :: u16 where "flagQuery = 0"
definition ttlAnnounce :: u32 where "ttlAnnounce = 120"

lemmas dns_consts = dnsTypeA_def dnsTypePTR_def dnsTypeTXT_def dnsTypeSRV_def dnsClassIN_def flagResponse_def flagQuery_def ttlAnnounce_def

definition encodeLabel :: "bytes \<Rightarrow> bytes" where "encodeLabel l = word_of_nat (length l) # l"

definition encodeName :: "bytes \<Rightarrow> bytes" where
  "encodeName name0 =
     (let name = trimDot name0 in
      if name = [] then [0] else concat (map encodeLabel (splitDots name)) @ [0])"

text \<open>
  The loop of \<open>decodeName\<close>. A label moves the offset forward, a pointer moves it back; the number of pointers is
  bounded, which makes the loop end.
\<close>

function decodeNameLoop :: "bytes \<Rightarrow> nat \<Rightarrow> bytes list \<Rightarrow> nat \<Rightarrow> nat option \<Rightarrow> (bytes \<times> nat) dns" where
  "decodeNameLoop msg off parts visited origOff =
     (if off \<ge> length msg then Err errTruncated
      else andThen (idx msg off) (\<lambda>ln.
        if ln = 0 then Ok (joinDots parts @ [dot], case origOff of None \<Rightarrow> off + 1 | Some oo \<Rightarrow> oo)
        else if ln AND 0xC0 = 0xC0 then
          if off + 1 \<ge> length msg then Err errTruncated
          else andThen (get16 msg off) (\<lambda>word.
            let ptr = unat (word AND 0x3FFF) in
            if ptr \<ge> off then Err errBadPointer
            else if visited + 1 > 64 then Err errBadPointer
            else decodeNameLoop msg ptr parts (visited + 1) (case origOff of None \<Rightarrow> Some (off + 2) | Some oo \<Rightarrow> Some oo))
        else if off + 1 + unat ln > length msg then Err errTruncated
        else andThen (slice msg (off + 1) (off + 1 + unat ln)) (\<lambda>part.
          decodeNameLoop msg (off + 1 + unat ln) (parts @ [part]) visited origOff)))"
  by pat_completeness auto
termination
  by (relation "measures [\<lambda>(msg, off, parts, visited, origOff). 65 - visited, \<lambda>(msg, off, parts, visited, origOff). length msg - off]") auto

declare decodeNameLoop.simps [simp del]

definition decodeName :: "bytes \<Rightarrow> nat \<Rightarrow> (bytes \<times> nat) dns" where
  "decodeName msg off = decodeNameLoop msg off [] 0 None"

section \<open>Messages\<close>

record dnsHeader =
  dns_id :: u16
  dns_flags :: u16
  qdCount :: u16
  anCount :: u16
  nsCount :: u16
  arCount :: u16

definition dnsHeader_encode :: "dnsHeader \<Rightarrow> bytes" where
  "dnsHeader_encode h = put16 (dns_id h) @ put16 (dns_flags h) @ put16 (qdCount h) @ put16 (anCount h) @ put16 (nsCount h) @ put16 (arCount h)"

definition dns_decodeHeader :: "bytes \<Rightarrow> dnsHeader dns" where
  "dns_decodeHeader b =
     (if length b < 12 then Err errTruncated
      else andThen (get16 b 0) (\<lambda>i. andThen (get16 b 2) (\<lambda>f. andThen (get16 b 4) (\<lambda>qd. andThen (get16 b 6) (\<lambda>an.
        andThen (get16 b 8) (\<lambda>ns. andThen (get16 b 10) (\<lambda>ar.
          Ok \<lparr>dns_id = i, dns_flags = f, qdCount = qd, anCount = an, nsCount = ns, arCount = ar\<rparr>)))))))"

record dnsRR =
  rr_name :: bytes
  rr_typ :: u16
  rr_class :: u16
  rr_ttl :: u32
  rdata :: bytes

definition buildPTRQuery :: bytes where
  "buildPTRQuery = dnsHeader_encode \<lparr>dns_id = 0, dns_flags = flagQuery, qdCount = 1, anCount = 0, nsCount = 0, arCount = 0\<rparr> @
     encodeName serviceType @ put16 dnsTypePTR @ put16 dnsClassIN"

definition encodeRR :: "bytes \<Rightarrow> u16 \<Rightarrow> u32 \<Rightarrow> bytes \<Rightarrow> bytes" where
  "encodeRR name ty ttl rd =
     encodeName name @ put16 ty @ put16 dnsClassIN @ put32 ttl @ put16 (word_of_nat (length rd)) @ rd"

definition buildAnnouncement :: "bytes \<Rightarrow> bytes \<Rightarrow> bytes \<Rightarrow> u16 \<Rightarrow> bytes \<Rightarrow> bytes dns" where
  "buildAnnouncement instanceName host ip4 port zoneTXT =
     andThen (slice ip4 0 4) (\<lambda>ip.
       Ok (dnsHeader_encode \<lparr>dns_id = 0, dns_flags = flagResponse, qdCount = 0, anCount = 3, nsCount = 0, arCount = 1\<rparr> @
         encodeRR serviceType dnsTypePTR ttlAnnounce (encodeName instanceName) @
         encodeRR instanceName dnsTypeSRV ttlAnnounce (put16 0 @ put16 0 @ put16 port @ encodeName host) @
         encodeRR instanceName dnsTypeTXT ttlAnnounce (word_of_nat (length zoneTXT) # zoneTXT) @
         encodeRR host dnsTypeA ttlAnnounce ip))"

definition parseOneRR :: "bytes \<Rightarrow> nat \<Rightarrow> (dnsRR \<times> nat) dns" where
  "parseOneRR msg off0 =
     andThen (decodeName msg off0) (\<lambda>(name, off).
       if off + 10 > length msg then Err errTruncated
       else andThen (get16 msg off) (\<lambda>ty. andThen (get16 msg (off + 2)) (\<lambda>class. andThen (get32 msg (off + 4)) (\<lambda>ttl.
         andThen (get16 msg (off + 8)) (\<lambda>rdLen.
           if off + 10 + unat rdLen > length msg then Err errTruncated
           else andThen (slice msg (off + 10) (off + 10 + unat rdLen)) (\<lambda>rd.
             Ok (\<lparr>rr_name = name, rr_typ = ty, rr_class = class, rr_ttl = ttl, rdata = rd\<rparr>, off + 10 + unat rdLen)))))))"

fun skipQuestions :: "bytes \<Rightarrow> nat \<Rightarrow> nat \<Rightarrow> nat dns" where
  "skipQuestions msg 0 off = Ok off"
| "skipQuestions msg (Suc n) off = andThen (decodeName msg off) (\<lambda>(_, off'). skipQuestions msg n (off' + 4))"

text \<open>A record that cannot be parsed ends the loop with what there is.\<close>

fun parseLoop :: "bytes \<Rightarrow> nat \<Rightarrow> nat \<Rightarrow> dnsRR list dns" where
  "parseLoop msg 0 off = Ok []"
| "parseLoop msg (Suc n) off =
     (case parseOneRR msg off of
        Err _ \<Rightarrow> Ok []
      | Panic \<Rightarrow> Panic
      | Ok (rr, off') \<Rightarrow> andThen (parseLoop msg n off') (\<lambda>rrs. Ok (rr # rrs)))"

definition parseRRs :: "bytes \<Rightarrow> dnsRR list dns" where
  "parseRRs msg =
     andThen (dns_decodeHeader msg) (\<lambda>hdr.
     andThen (skipQuestions msg (unat (qdCount hdr)) 12) (\<lambda>off.
       parseLoop msg (unat (anCount hdr) + unat (nsCount hdr) + unat (arCount hdr)) off))"

section \<open>Services\<close>

definition streamTXTKey :: bytes where "streamTXTKey = ascii ''stream=''"
definition streamHexLen :: nat where "streamHexLen = 16"

record ServiceInfo =
  Instance :: bytes
  SStream :: StreamID
  SAddr :: bytes

definition hexDigit :: "u8 \<Rightarrow> u8" where
  "hexDigit n = ascii ''0123456789abcdef'' ! unat n"

definition encodeStreamHex :: "StreamID \<Rightarrow> bytes" where
  "encodeStreamHex s = concat (map (\<lambda>b. [hexDigit (drop_bit 4 b), hexDigit (b AND 0x0F)]) (sid_bytes s))"

definition hexNibble :: "u8 \<Rightarrow> u8 option" where
  "hexNibble c =
     (if 48 \<le> c \<and> c \<le> 57 then Some (c - 48)
      else if 97 \<le> c \<and> c \<le> 102 then Some (c - 97 + 10) else None)"

text \<open>The loop of \<open>decodeStreamHex\<close> over the indices that remain.\<close>

fun hexLoop :: "bytes \<Rightarrow> nat list \<Rightarrow> bytes option dns" where
  "hexLoop s [] = Ok (Some [])"
| "hexLoop s (i # is) =
     andThen (idx s (i * 2)) (\<lambda>c1. andThen (idx s (i * 2 + 1)) (\<lambda>c2.
       case (hexNibble c1, hexNibble c2) of
         (Some hi, Some lo) \<Rightarrow> andThen (hexLoop s is) (\<lambda>r. Ok (map_option (\<lambda>bs. (push_bit 4 hi OR lo) # bs) r))
       | _ \<Rightarrow> Ok None))"

definition decodeStreamHex :: "bytes \<Rightarrow> StreamID option dns" where
  "decodeStreamHex s =
     (if length s \<noteq> streamHexLen then Ok None
      else andThen (hexLoop s [0..<8]) (\<lambda>r. Ok (case r of
        Some [a, b, c, d, e, f, g, h] \<Rightarrow> Some (StreamID a b c d e f g h)
      | _ \<Rightarrow> None)))"

record tables =
  ptrTargets :: "bytes list"
  srvPorts :: "bytes \<rightharpoonup> u16"
  srvHosts :: "bytes \<rightharpoonup> bytes"
  aRecords :: "bytes \<rightharpoonup> bytes"
  txtStreams :: "bytes \<rightharpoonup> StreamID"

text \<open>The loop over the strings of a text record.\<close>

function txtLoop :: "bytes \<Rightarrow> nat \<Rightarrow> StreamID option \<Rightarrow> StreamID option dns" where
  "txtLoop rd off found =
     (if off < length rd then
        andThen (idx rd off) (\<lambda>l.
          if off + 1 + unat l > length rd then Ok found
          else andThen (slice rd (off + 1) (off + 1 + unat l)) (\<lambda>kv.
            andThen (if hasPrefix kv streamTXTKey
                     then andThen (slice kv (length streamTXTKey) (length kv)) (\<lambda>hex.
                       andThen (decodeStreamHex hex) (\<lambda>r. Ok (case r of Some s \<Rightarrow> Some s | None \<Rightarrow> found)))
                     else Ok found)
              (\<lambda>found'. txtLoop rd (off + 1 + unat l) found')))
      else Ok found)"
  by pat_completeness auto
termination by (relation "measure (\<lambda>(rd, off, found). length rd - off)") auto

declare txtLoop.simps [simp del]

definition dotted :: "bytes \<Rightarrow> bytes" where
  "dotted ip = joinDots (map (\<lambda>b. ascii (decimal (unat b))) ip)"

definition addRecord :: "dnsRR \<Rightarrow> tables \<Rightarrow> tables dns" where
  "addRecord rr t =
     (if rr_typ rr = dnsTypePTR then
        if hasSuffix (rr_name rr) serviceType \<or> rr_name rr = serviceType then
          (case decodeName (rdata rr @ [0]) 0 of
             Ok (name, _) \<Rightarrow> Ok (t\<lparr>ptrTargets := List.insert name (ptrTargets t)\<rparr>)
           | Err _ \<Rightarrow> Ok t
           | Panic \<Rightarrow> Panic)
        else Ok t
      else if rr_typ rr = dnsTypeSRV then
        if length (rdata rr) \<ge> 7 then
          andThen (get16 (rdata rr) 4) (\<lambda>port.
          andThen (slice (rdata rr) 6 (length (rdata rr))) (\<lambda>rest.
            case decodeName (rest @ [0]) 0 of
              Ok (host, _) \<Rightarrow> Ok (t\<lparr>srvPorts := (srvPorts t)(rr_name rr \<mapsto> port), srvHosts := (srvHosts t)(rr_name rr \<mapsto> host)\<rparr>)
            | Err _ \<Rightarrow> Ok t
            | Panic \<Rightarrow> Panic))
        else Ok t
      else if rr_typ rr = dnsTypeTXT then
        andThen (txtLoop (rdata rr) 0 None) (\<lambda>r.
          Ok (case r of Some s \<Rightarrow> t\<lparr>txtStreams := (txtStreams t)(rr_name rr \<mapsto> s)\<rparr> | None \<Rightarrow> t))
      else if rr_typ rr = dnsTypeA then
        if length (rdata rr) = 4 then
          andThen (idx (rdata rr) 0) (\<lambda>a. andThen (idx (rdata rr) 1) (\<lambda>b. andThen (idx (rdata rr) 2) (\<lambda>c. andThen (idx (rdata rr) 3) (\<lambda>d.
            Ok (t\<lparr>aRecords := (aRecords t)(rr_name rr \<mapsto> dotted [a, b, c, d])\<rparr>)))))
        else Ok t
      else Ok t)"

fun addRecords :: "dnsRR list \<Rightarrow> tables \<Rightarrow> tables dns" where
  "addRecords [] t = Ok t"
| "addRecords (rr # rrs) t = andThen (addRecord rr t) (addRecords rrs)"

definition service :: "tables \<Rightarrow> bytes \<Rightarrow> ServiceInfo list" where
  "service t inst =
     (case (srvHosts t inst, srvPorts t inst) of
        (Some host, Some port) \<Rightarrow>
          (case (aRecords t host, txtStreams t inst) of
             (Some ip, Some stream) \<Rightarrow> [\<lparr>Instance = inst, SStream = stream, SAddr = ip @ ascii '':'' @ ascii (decimal (unat port))\<rparr>]
           | _ \<Rightarrow> [])
      | _ \<Rightarrow> [])"

definition extractServices :: "dnsRR list \<Rightarrow> ServiceInfo list dns" where
  "extractServices rrs =
     andThen (addRecords rrs \<lparr>ptrTargets = [], srvPorts = Map.empty, srvHosts = Map.empty, aRecords = Map.empty, txtStreams = Map.empty\<rparr>)
       (\<lambda>t. Ok (concat (map (service t) (ptrTargets t))))"

text \<open>The packet of an announcer.\<close>

definition announcement :: "StreamID \<Rightarrow> bytes \<Rightarrow> u16 \<Rightarrow> bytes dns" where
  "announcement stream ip port =
     (let streamHex = encodeStreamHex stream;
          instanceName = streamHex @ ascii ''.'' @ serviceType;
          host = streamHex @ ascii ''.local.'';
          txtKV = streamTXTKey @ streamHex
      in buildAnnouncement instanceName host ip port txtKV)"

text \<open>What a browser does with a packet: the calls of its handler.\<close>

definition browse :: "bytes \<Rightarrow> (StreamID \<times> bytes) list dns" where
  "browse msg =
     (case parseRRs msg of
        Panic \<Rightarrow> Panic
      | Err _ \<Rightarrow> Ok []
      | Ok rrs \<Rightarrow>
          if length rrs = 0 then Ok []
          else (case dns_decodeHeader msg of
                  Panic \<Rightarrow> Panic
                | Err _ \<Rightarrow> Ok []
                | Ok hdr \<Rightarrow>
                    if dns_flags hdr AND 0x8000 = 0 then Ok []
                    else andThen (extractServices rrs) (\<lambda>sis. Ok (map (\<lambda>si. (SStream si, SAddr si)) sis))))"

section \<open>Names on the wire\<close>

definition weight :: "bytes list \<Rightarrow> nat" where "weight ls = sum_list (map (\<lambda>l. length l + 1) ls)"

lemma length_joinDots: "length (joinDots ls) \<le> weight ls"
  by (induction ls rule: joinDots.induct) (auto simp: weight_def)

text \<open>The guards of the loop keep every access in range.\<close>

lemma decodeNameLoop_unfold:
  "decodeNameLoop msg off parts visited oo =
     (if off \<ge> length msg then Err errTruncated
      else if msg ! off = 0 then Ok (joinDots parts @ [dot], case oo of None \<Rightarrow> off + 1 | Some x \<Rightarrow> x)
      else if msg ! off AND 0xC0 = 0xC0 then
        if off + 1 \<ge> length msg then Err errTruncated
        else let ptr = unat (be16 (msg ! off) (msg ! (off + 1)) AND 0x3FFF) in
          if ptr \<ge> off \<or> visited + 1 > 64 then Err errBadPointer
          else decodeNameLoop msg ptr parts (visited + 1) (case oo of None \<Rightarrow> Some (off + 2) | Some x \<Rightarrow> Some x)
      else if off + 1 + unat (msg ! off) > length msg then Err errTruncated
      else decodeNameLoop msg (off + 1 + unat (msg ! off)) (parts @ [take (unat (msg ! off)) (drop (off + 1) msg)]) visited oo)"
  by (subst decodeNameLoop.simps) (simp add: Let_def)

lemma decodeNameLoop_no_panic: "decodeNameLoop msg off parts visited oo \<noteq> Panic"
  by (induction msg off parts visited oo rule: decodeNameLoop.induct) (subst decodeNameLoop.simps, simp add: Let_def)

lemma decodeNameLoop_bounds:
  assumes "decodeNameLoop msg off parts visited oo = Ok (name, e)" "visited \<le> 64" "\<forall>x. oo = Some x \<longrightarrow> x \<le> length msg"
  shows "length name \<le> weight parts + 1 + (length msg - off) + (64 - visited) * length msg \<and> e \<le> length msg"
  using assms
proof (induction msg off parts visited oo rule: decodeNameLoop.induct)
  case (1 msg off parts visited oo)
  note IH = 1(1,2) and run = 1(3) and visited = 1(4) and oo = 1(5)
  define ln where "ln = msg ! off"
  define ptr where "ptr = unat (be16 ln (msg ! (off + 1)) AND 0x3FFF)"
  from run have off: "off < length msg" by (subst (asm) decodeNameLoop_unfold) (auto split: if_splits)
  consider "ln = 0" | "ln \<noteq> 0" "ln AND 0xC0 = 0xC0" | "ln \<noteq> 0" "ln AND 0xC0 \<noteq> 0xC0" by blast
  then show ?case
  proof cases
    case 1
    then have "name = joinDots parts @ [dot]" "e = (case oo of None \<Rightarrow> off + 1 | Some x \<Rightarrow> x)"
      using run off
      by (auto simp: decodeNameLoop_unfold [of msg off] ln_def)
    then show ?thesis using length_joinDots [of parts] off oo by (auto split: option.splits)
  next
    case 2
    let ?oo = "case oo of None \<Rightarrow> Some (off + 2) | Some x \<Rightarrow> Some x"
    have step: "off + 1 < length msg" "ptr < off" "visited + 1 \<le> 64" "decodeNameLoop msg ptr parts (visited + 1) ?oo = Ok (name, e)"
      using run off 2
      by (auto simp: decodeNameLoop_unfold [of msg off] ln_def ptr_def Let_def split: if_splits)
    have "length name \<le> weight parts + 1 + (length msg - ptr) + (64 - (visited + 1)) * length msg \<and> e \<le> length msg"
      using 2 off step oo by (intro IH(1) [of ln "be16 ln (msg ! (off + 1))" ptr]) (auto simp: ln_def ptr_def split: option.splits)
    moreover have "(64 - (visited + 1)) * length msg + length msg = (64 - visited) * length msg" using step(3) by (simp add: algebra_simps Suc_diff_le flip: mult_Suc)
    ultimately show ?thesis by linarith
  next
    case 3
    let ?parts = "parts @ [take (unat ln) (drop (off + 1) msg)]"
    have step: "off + 1 + unat ln \<le> length msg" "decodeNameLoop msg (off + 1 + unat ln) ?parts visited oo = Ok (name, e)"
      using run off 3 by (auto simp: decodeNameLoop_unfold [of msg off] ln_def Let_def split: if_splits)
    have "length name \<le> weight ?parts + 1 + (length msg - (off + 1 + unat ln)) + (64 - visited) * length msg \<and> e \<le> length msg"
      using IH(2) [of ln "take (unat ln) (drop (off + 1) msg)", OF _ _ 3(1,2) _ _ step(2) visited oo] off step(1) by (simp add: ln_def)
    moreover have "weight ?parts = weight parts + unat ln + 1" using step(1) by (simp add: weight_def)
    ultimately show ?thesis using step(1) by linarith
  qed
qed

lemma length_encodeLabel [simp]: "length (encodeLabel l) = Suc (length l)"
  by (simp add: encodeLabel_def)

text \<open>A name is a list of labels that are not empty, hold no dot, and are short enough not to look like a pointer.\<close>

definition wf_labels :: "bytes list \<Rightarrow> bool" where
  "wf_labels ls \<longleftrightarrow> ls \<noteq> [] \<and> (\<forall>l\<in>set ls. l \<noteq> [] \<and> dot \<notin> set l \<and> length l < 64)"

definition dnsName :: "bytes list \<Rightarrow> bytes" where "dnsName ls = joinDots ls @ [dot]"

lemma splitDots_label: "dot \<notin> set l \<Longrightarrow> splitDots l = [l]"
  by (induction l) auto

lemma splitDots_append: "dot \<notin> set l \<Longrightarrow> splitDots (l @ dot # rest) = l # splitDots rest"
  by (induction l) auto

lemma splitDots_joinDots: "wf_labels ls \<Longrightarrow> splitDots (joinDots ls) = ls"
proof (induction ls rule: joinDots.induct)
  case (3 l l' ls)
  then show ?case by (simp add: wf_labels_def splitDots_append)
qed (auto simp: wf_labels_def splitDots_label)

lemma joinDots_nonempty: "wf_labels ls \<Longrightarrow> joinDots ls \<noteq> []"
  by (cases ls rule: joinDots.cases) (auto simp: wf_labels_def)

lemma encodeName_dnsName: "wf_labels ls \<Longrightarrow> encodeName (dnsName ls) = concat (map encodeLabel ls) @ [0]"
  by (simp add: encodeName_def dnsName_def trimDot_def joinDots_nonempty splitDots_joinDots)

lemma short_label: "0 < n \<Longrightarrow> n < 64 \<Longrightarrow> unat (word_of_nat n :: u8) = n \<and> (word_of_nat n :: u8) \<noteq> 0 \<and> (word_of_nat n :: u8) AND 0xC0 \<noteq> 0xC0"
proof -
  assume n: "0 < n" "n < 64"
  then have u: "unat (word_of_nat n :: u8) = n" by (simp add: unat_of_nat)
  then have "\<not> bit (word_of_nat n :: u8) 7" using n by (intro unat_less_bit [where k = 6]) simp_all
  then have "\<not> bit ((word_of_nat n :: u8) AND 0xC0) 7" by (simp only: bit_and_iff) simp
  moreover have "bit (0xC0 :: u8) 7" by (simp add: bit_simps)
  ultimately show ?thesis using u n by (metis unat_0 less_irrefl)
qed

lemma decodeNameLoop_labels:
  assumes "\<forall>l\<in>set ls. l \<noteq> [] \<and> length l < 64"
  shows "decodeNameLoop (pre @ concat (map encodeLabel ls) @ 0 # post) (length pre) parts visited oo =
    Ok (joinDots (parts @ ls) @ [dot], case oo of None \<Rightarrow> length pre + length (concat (map encodeLabel ls)) + 1 | Some x \<Rightarrow> x)"
  using assms
proof (induction ls arbitrary: pre parts)
  case Nil
  then show ?case by (subst decodeNameLoop_unfold) (simp add: nth_append split: option.split)
next
  case (Cons l ls)
  let ?msg = "pre @ concat (map encodeLabel (l # ls)) @ 0 # post"
  have l: "l \<noteq> []" "length l < 64" using Cons.prems by auto
  then have n: "unat (word_of_nat (length l) :: u8) = length l" "(word_of_nat (length l) :: u8) \<noteq> 0" "(word_of_nat (length l) :: u8) AND 0xC0 \<noteq> 0xC0"
    using short_label [of "length l"] by auto
  have "decodeNameLoop ?msg (length pre) parts visited oo = decodeNameLoop ?msg (length pre + 1 + length l) (parts @ [l]) visited oo"
    using l n by (subst decodeNameLoop_unfold) (simp add: encodeLabel_def nth_append Let_def)
  also have "\<dots> = decodeNameLoop ((pre @ encodeLabel l) @ concat (map encodeLabel ls) @ 0 # post) (length (pre @ encodeLabel l)) (parts @ [l]) visited oo"
    by simp
  also have "\<dots> = Ok (joinDots (parts @ l # ls) @ [dot], case oo of None \<Rightarrow> length pre + length (concat (map encodeLabel (l # ls))) + 1 | Some x \<Rightarrow> x)"
    using Cons.IH [of "pre @ encodeLabel l" "parts @ [l]"] Cons.prems by (simp split: option.splits)
  finally show ?case .
qed

lemma decodeName_encoded:
  "wf_labels ls \<Longrightarrow> decodeName (pre @ encodeName (dnsName ls) @ post) (length pre) = Ok (dnsName ls, length pre + length (encodeName (dnsName ls)))"
  using decodeNameLoop_labels [of ls pre post "[]" 0 None] encodeName_dnsName [of ls]
  by (simp add: decodeName_def wf_labels_def) (simp add: dnsName_def)

section \<open>Records on the wire\<close>

interpretation dns_header: body_codec dnsHeader_encode dns_decodeHeader "\<lambda>_. True"
  by unfold_locales (auto simp: dns_decodeHeader_def dnsHeader_encode_def put16_def wire_simps)

lemma dns_decodeHeader_prefix: "dns_decodeHeader (dnsHeader_encode h @ rest) = Ok h"
  by (simp add: dns_decodeHeader_def dnsHeader_encode_def put16_def wire_simps)

lemma length_dnsHeader [simp]: "length (dnsHeader_encode h) = 12" by (simp add: dnsHeader_encode_def)

type_synonym rr = "bytes list \<times> u16 \<times> u32 \<times> bytes"

definition wireRR :: "rr \<Rightarrow> bytes" where "wireRR r = (case r of (ls, ty, ttl, rd) \<Rightarrow> encodeRR (dnsName ls) ty ttl rd)"

definition readRR :: "rr \<Rightarrow> dnsRR" where
  "readRR r = (case r of (ls, ty, ttl, rd) \<Rightarrow> \<lparr>rr_name = dnsName ls, rr_typ = ty, rr_class = dnsClassIN, rr_ttl = ttl, rdata = rd\<rparr>)"

definition wf_rr :: "rr \<Rightarrow> bool" where "wf_rr r \<longleftrightarrow> (case r of (ls, ty, ttl, rd) \<Rightarrow> wf_labels ls \<and> length rd < 65536)"

lemma parseOneRR_encoded:
  assumes "wf_rr r"
  shows "parseOneRR (pre @ wireRR r @ post) (length pre) = Ok (readRR r, length pre + length (wireRR r))"
proof -
  obtain ls ty ttl rd where r: "r = (ls, ty, ttl, rd)" by (cases r) auto
  then have wf: "wf_labels ls" "length rd < 65536" using assms by (auto simp: wf_rr_def)
  let ?n = "word_of_nat (length rd) :: u16" let ?xs = "pre @ encodeName (dnsName ls)"
  let ?msg = "?xs @ put16 ty @ put16 dnsClassIN @ put32 ttl @ put16 ?n @ rd @ post"
  have n: "unat ?n = length rd" using wf(2) by (simp add: unat_of_nat)
  have msg: "pre @ wireRR r @ post = ?msg" by (simp add: r wireRR_def encodeRR_def)
  have "decodeName ?msg (length pre) = Ok (dnsName ls, length ?xs)"
    using decodeName_encoded [OF wf(1), of pre] by simp
  moreover have "get16 ?msg (length ?xs) = (Ok ty :: u16 dns)" by (rule get16_append)
  moreover have "get16 ?msg (length ?xs + 2) = (Ok dnsClassIN :: u16 dns)"
    using get16_append [of "?xs @ put16 ty" dnsClassIN "put32 ttl @ put16 ?n @ rd @ post"] by (simp add: add.assoc del: get_no_panic)
  moreover have "get32 ?msg (length ?xs + 4) = (Ok ttl :: u32 dns)"
    using get32_append [of "?xs @ put16 ty @ put16 dnsClassIN" ttl "put16 ?n @ rd @ post"] by (simp add: add.assoc del: get_no_panic)
  moreover have "get16 ?msg (length ?xs + 8) = (Ok ?n :: u16 dns)"
    using get16_append [of "?xs @ put16 ty @ put16 dnsClassIN @ put32 ttl" ?n "rd @ post"] by (simp add: add.assoc del: get_no_panic)
  moreover have "slice ?msg (length ?xs + 10) (length ?xs + 10 + length rd) = (Ok rd :: bytes dns)"
    by (simp add: slice_def)
  ultimately show ?thesis
    unfolding msg parseOneRR_def by (simp add: n r readRR_def wireRR_def encodeRR_def del: get_no_panic slice_Ok)
qed

lemma parseLoop_encoded:
  "\<forall>r\<in>set rrs. wf_rr r \<Longrightarrow> parseLoop (pre @ concat (map wireRR rrs) @ post) (length rrs) (length pre) = Ok (map readRR rrs)"
proof (induction rrs arbitrary: pre)
  case (Cons r rrs)
  then show ?case
    using parseOneRR_encoded [of r pre "concat (map wireRR rrs) @ post"] Cons.IH [of "pre @ wireRR r"] by simp
qed simp

lemma parseRRs_encoded:
  assumes "\<forall>r\<in>set rrs. wf_rr r" "qdCount h = 0" "unat (anCount h) + unat (nsCount h) + unat (arCount h) = length rrs"
  shows "parseRRs (dnsHeader_encode h @ concat (map wireRR rrs)) = Ok (map readRR rrs)"
  using parseLoop_encoded [OF assms(1), of "dnsHeader_encode h" "[]"] assms(2,3) by (simp add: parseRRs_def dns_decodeHeader_prefix)

text \<open>No packet makes the browser panic.\<close>

lemma parseLoop_no_panic: "parseLoop msg n off \<noteq> Panic"
proof (induction n arbitrary: off)
  case (Suc n)
  have "parseOneRR msg off \<noteq> Panic"
    using decodeNameLoop_no_panic by (auto simp: parseOneRR_def decodeName_def andThen_eq_Panic_iff wire_simps)
  then show ?case using Suc by (auto simp: andThen_eq_Panic_iff split: outcome.split)
qed simp

lemma skipQuestions_no_panic: "skipQuestions msg n off \<noteq> Panic"
  using decodeNameLoop_no_panic by (induction n arbitrary: off) (auto simp: decodeName_def andThen_eq_Panic_iff)

lemma hexLoop_no_panic: "\<forall>i\<in>set is. i * 2 + 1 < length s \<Longrightarrow> hexLoop s is \<noteq> Panic"
  by (induction "is") (auto simp: andThen_eq_Panic_iff split: option.split)

lemma decodeStreamHex_no_panic: "decodeStreamHex s \<noteq> Panic"
  using hexLoop_no_panic [of "[0..<8]" s] by (auto simp: decodeStreamHex_def streamHexLen_def andThen_eq_Panic_iff)

lemma hasPrefix_length: "hasPrefix s p \<Longrightarrow> length p \<le> length s"
  by (auto simp: hasPrefix_def dest: arg_cong [of _ _ length])

lemma txtLoop_no_panic: "txtLoop rd off found \<noteq> Panic"
  by (induction rd off found rule: txtLoop.induct)
    (subst txtLoop.simps, auto simp: andThen_eq_Panic_iff decodeStreamHex_no_panic dest: hasPrefix_length)

lemma addRecords_no_panic: "addRecords rrs t \<noteq> Panic"
proof (induction rrs arbitrary: t)
  case (Cons rr rrs)
  have "addRecord rr t \<noteq> Panic"
    using decodeNameLoop_no_panic txtLoop_no_panic by (auto simp: addRecord_def decodeName_def andThen_eq_Panic_iff split: outcome.split)
  then show ?case using Cons by (auto simp: andThen_eq_Panic_iff)
qed simp

lemma browse_no_panic: "browse msg \<noteq> Panic"
proof -
  have "parseRRs msg \<noteq> Panic"
    using dns_header.dec_no_panic skipQuestions_no_panic parseLoop_no_panic by (auto simp: parseRRs_def andThen_eq_Panic_iff)
  moreover have "extractServices rrs \<noteq> Panic" for rrs using addRecords_no_panic by (auto simp: extractServices_def andThen_eq_Panic_iff)
  ultimately show ?thesis using dns_header.dec_no_panic by (auto simp: browse_def andThen_eq_Panic_iff split: outcome.split)
qed

section \<open>Services on the wire\<close>

lemma hexNibble_hexDigit: "unat n < 16 \<Longrightarrow> hexNibble (hexDigit n) = Some n"
proof -
  assume "unat n < 16"
  then obtain k where k: "n = word_of_nat k" "k < 16" using word_of_nat_below by blast
  have "\<forall>k<16. hexNibble (hexDigit (word_of_nat k)) = Some (word_of_nat k)"
    by (simp add: all_less_16 hexDigit_def hexNibble_def ascii_def)
  then show ?thesis using k by blast
qed

lemma nibbles: "unat (drop_bit 4 (b :: u8)) < 16" "unat (b AND 0x0F) < 16" "push_bit 4 (drop_bit 4 b) OR (b AND 0x0F) = b"
proof -
  have le: "unat (w AND 0x0F) < 16" for w :: u8
    using unat_and_less [of w "0x0F"] by simp
  then show "unat (b AND 0x0F) < 16" .
  have "drop_bit 4 b = drop_bit 4 b AND 0x0F" by (simp add: u8_bits)
  then show "unat (drop_bit 4 b) < 16" using le [of "drop_bit 4 b"] by simp
  show "push_bit 4 (drop_bit 4 b) OR (b AND 0x0F) = b" by (simp add: u8_bits)
qed

lemma length_encodeStreamHex [simp]: "length (encodeStreamHex s) = 16"
  by (cases s) (simp add: encodeStreamHex_def)

lemma decodeStreamHex_encoded: "decodeStreamHex (encodeStreamHex s) = Ok (Some s)"
  by (cases s) (simp add: decodeStreamHex_def streamHexLen_def encodeStreamHex_def upt_rec hexNibble_hexDigit nibbles)

lemma hexDigit_not_dot: "unat n < 16 \<Longrightarrow> hexDigit n \<noteq> dot"
  using hexNibble_hexDigit [of n] by (auto simp: hexNibble_def)

lemma encodeStreamHex_label: "dot \<notin> set (encodeStreamHex s)" "encodeStreamHex s \<noteq> []"
proof -
  show "dot \<notin> set (encodeStreamHex s)"
    using hexDigit_not_dot nibbles(1,2) by (fastforce simp: encodeStreamHex_def)
  show "encodeStreamHex s \<noteq> []" using length_encodeStreamHex [of s] by (metis list.size(3) zero_neq_numeral)
qed

lemma andThen_id: "andThen r (\<lambda>x. Ok (case x of Some s \<Rightarrow> Some s | None \<Rightarrow> None)) = r" "andThen r Ok = r"
  by (cases r; auto split: option.split)+

lemma txtLoop_single:
  assumes "length kv < 256" "0 < length kv"
  shows "txtLoop (word_of_nat (length kv) # kv) 0 None =
    (if hasPrefix kv streamTXTKey then decodeStreamHex (drop (length streamTXTKey) kv) else Ok None)"
proof -
  have "unat (word_of_nat (length kv) :: u8) = length kv" using assms(1) by (simp add: unat_of_nat)
  moreover have ended: "txtLoop (word_of_nat (length kv) # kv) (Suc (length kv)) = Ok"
    by (rule ext) (simp add: txtLoop.simps)
  ultimately show ?thesis
    using hasPrefix_length [of kv streamTXTKey] assms(2)
    by (subst txtLoop.simps) (auto simp: ended andThen_id)
qed

abbreviation instanceLabels :: "StreamID \<Rightarrow> bytes list" where
  "instanceLabels s \<equiv> [encodeStreamHex s, ascii ''_rcp'', ascii ''_udp'', ascii ''local'']"

abbreviation hostLabels :: "StreamID \<Rightarrow> bytes list" where
  "hostLabels s \<equiv> [encodeStreamHex s, ascii ''local'']"

lemma labels_wf: "wf_labels (instanceLabels s)" "wf_labels (hostLabels s)" "wf_labels [ascii ''_rcp'', ascii ''_udp'', ascii ''local'']"
  by (simp_all add: wf_labels_def encodeStreamHex_label ascii_def)

lemma names_of_labels:
  "serviceType = dnsName [ascii ''_rcp'', ascii ''_udp'', ascii ''local'']"
  "encodeStreamHex s @ ascii ''.'' @ serviceType = dnsName (instanceLabels s)"
  "encodeStreamHex s @ ascii ''.local.'' = dnsName (hostLabels s)"
  by (simp_all add: serviceType_def dnsName_def ascii_def)

text \<open>The records of an announcement.\<close>

definition announcedRRs :: "StreamID \<Rightarrow> bytes \<Rightarrow> u16 \<Rightarrow> rr list" where
  "announcedRRs s ip port =
     [([ascii ''_rcp'', ascii ''_udp'', ascii ''local''], dnsTypePTR, ttlAnnounce, encodeName (dnsName (instanceLabels s))),
      (instanceLabels s, dnsTypeSRV, ttlAnnounce, put16 0 @ put16 0 @ put16 port @ encodeName (dnsName (hostLabels s))),
      (instanceLabels s, dnsTypeTXT, ttlAnnounce, word_of_nat (length (streamTXTKey @ encodeStreamHex s)) # streamTXTKey @ encodeStreamHex s),
      (hostLabels s, dnsTypeA, ttlAnnounce, ip)]"

abbreviation announcedHeader :: dnsHeader where
  "announcedHeader \<equiv> \<lparr>dns_id = 0, dns_flags = flagResponse, qdCount = 0, anCount = 3, nsCount = 0, arCount = 1\<rparr>"

lemma announcement_records:
  "length ip = 4 \<Longrightarrow> announcement s ip port = Ok (dnsHeader_encode announcedHeader @ concat (map wireRR (announcedRRs s ip port)))"
  unfolding announcement_def Let_def buildAnnouncement_def names_of_labels(2,3) unfolding names_of_labels(1)
  by (simp add: announcedRRs_def wireRR_def)

lemma length_names: "length (encodeName (dnsName (instanceLabels s))) = 34" "length (encodeName (dnsName (hostLabels s))) = 24"
  by (subst encodeName_dnsName [OF labels_wf(1)], simp add: ascii_def) (subst encodeName_dnsName [OF labels_wf(2)], simp add: ascii_def)

lemma announcedRRs_wf: "length ip = 4 \<Longrightarrow> \<forall>r\<in>set (announcedRRs s ip port). wf_rr r"
  using length_names labels_wf by (simp add: announcedRRs_def wf_rr_def) (simp add: streamTXTKey_def ascii_def)

lemma extract_announced:
  assumes "length ip = 4"
  shows "extractServices (map readRR (announcedRRs s ip port)) =
    Ok [\<lparr>Instance = dnsName (instanceLabels s), SStream = s, SAddr = dotted ip @ ascii '':'' @ ascii (decimal (unat port))\<rparr>]"
proof -
  let ?inst = "dnsName (instanceLabels s)" let ?host = "dnsName (hostLabels s)"
  have "decodeName (encodeName ?inst @ [0]) 0 = Ok (?inst, length (encodeName ?inst))"
    using decodeName_encoded [OF labels_wf(1), of "[]" s "[0]"] by simp
  moreover have "decodeName (encodeName ?host @ [0]) 0 = Ok (?host, length (encodeName ?host))"
    using decodeName_encoded [OF labels_wf(2), of "[]" s "[0]"] by simp
  moreover have "get16 (put16 0 @ put16 0 @ put16 port @ encodeName ?host) 4 = (Ok port :: u16 dns)"
    using get16_append [of "put16 0 @ put16 0" port "encodeName ?host"] by (simp del: get_no_panic)
  moreover have "txtLoop (word_of_nat (length (streamTXTKey @ encodeStreamHex s)) # streamTXTKey @ encodeStreamHex s) 0 None = Ok (Some s)"
    by (subst txtLoop_single) (simp_all add: hasPrefix_def decodeStreamHex_encoded, simp_all add: streamTXTKey_def ascii_def)
  moreover have "[ip ! 0, ip ! Suc 0, ip ! 2, ip ! 3] = ip" using assms by (auto simp: eval_nat_numeral length_Suc_conv)
  moreover have "drop 6 (put16 0 @ put16 0 @ put16 port @ encodeName ?host) = encodeName ?host" by simp
  ultimately show ?thesis
    using assms names_of_labels(1) length_names(2) [of s]
    by (simp add: extractServices_def announcedRRs_def readRR_def addRecord_def dns_consts service_def del: get_no_panic)
qed

section \<open>Properties\<close>

text \<open>C39: reading a name ends. On every message and at every offset, decoding a name returns a name or an error, never
  a panic: pointers cannot send it round in circles. The name it returns has at most 65 times as many octets as the
  message, and one more, and the offset behind it lies within the message.\<close>

theorem decoding_a_name_ends:
  "(\<exists>er. decodeName msg off = Err er) \<or>
   (\<exists>name next. decodeName msg off = Ok (name, next) \<and> length name \<le> 65 * length msg + 1 \<and> next \<le> length msg)"
proof (cases "decodeName msg off")
  case (Ok r)
  then have "length (fst r) \<le> weight [] + 1 + (length msg - off) + (64 - 0) * length msg \<and> snd r \<le> length msg"
    by (intro decodeNameLoop_bounds [of _ _ _ _ None]) (simp_all add: decodeName_def)
  then show ?thesis using Ok by (cases r) (auto simp: weight_def)
qed (use decodeNameLoop_no_panic in \<open>simp_all add: decodeName_def\<close>)

text \<open>C40: an announced server is found. Whatever the stream, the four octets of the address and the port, the packet an
  announcer sends makes a browser call its handler exactly once, with that stream and that address; and no packet of any
  octets makes the browser panic.\<close>

theorem announced_server_is_found:
  assumes "length ip = 4"
  shows "(\<exists>pkt. announcement s ip port = Ok pkt \<and> browse pkt = Ok [(s, dotted ip @ ascii '':'' @ ascii (decimal (unat port)))]) \<and>
    browse msg \<noteq> Panic"
proof -
  let ?pkt = "dnsHeader_encode announcedHeader @ concat (map wireRR (announcedRRs s ip port))"
  have "parseRRs ?pkt = Ok (map readRR (announcedRRs s ip port))"
    by (rule parseRRs_encoded [OF announcedRRs_wf [OF assms]]) (simp_all add: announcedRRs_def)
  moreover have "length (map readRR (announcedRRs s ip port)) \<noteq> 0" by (simp add: announcedRRs_def)
  moreover have "flagResponse AND 0x8000 \<noteq> 0" by (simp add: flagResponse_def)
  ultimately have "browse ?pkt = Ok [(s, dotted ip @ ascii '':'' @ ascii (decimal (unat port)))]"
    by (simp add: browse_def dns_decodeHeader_prefix extract_announced [OF assms])
  then show ?thesis using announcement_records [OF assms] browse_no_panic by blast
qed

theorem announced_server_is_found_witness:
  "\<exists>pkt. announcement (StreamID 2 0 0 0 0 1 0 1) [192, 168, 1, 10] 7777 = Ok pkt \<and>
     browse pkt = Ok [(StreamID 2 0 0 0 0 1 0 1, ascii ''192.168.1.10:7777'')]"
proof -
  have "dotted [192, 168, 1, 10] @ ascii '':'' @ ascii (decimal (unat (7777 :: u16))) = ascii ''192.168.1.10:7777''"
    by (simp add: dotted_def ascii_def decimal.simps char_of_def of_char_def bit_0)
  then show ?thesis using announced_server_is_found [of "[192, 168, 1, 10]" "StreamID 2 0 0 0 0 1 0 1" 7777] by simp
qed

end
