(* ===== verification/Recording.thy ===== *)
theory Recording
  imports E2e_Crc Udp
begin

text \<open>
  The package \<open>record\<close>: the black box that keeps the last requests and responses of a handler in a
  ring buffer, writes them to a checksummed log, reads such a log back and replays it.

  An \<open>io.Writer\<close> is a function on a state of its own, an \<open>io.Reader\<close> the octets it will still
  deliver together with the error that ends them (none for \<open>io.EOF\<close>). A time stamp is the \<open>int64\<close>
  of \<open>UnixNano\<close> as a 64-bit word, an error text is the octets of the Go string. The ring is proved
  to refine the list of the last entries, and the log to be read back as it was written.
\<close>

section \<open>Entries and the ring\<close>

text \<open>The errors of a read: the two of the package \<open>io\<close>, or another of the reader's own.\<close>

datatype io_error = EOF | ErrUnexpectedEOF | ErrReader nat

datatype record_error =
    ErrCorrupted
  | ErrPayloadTooShort
  | ErrTruncatedPrefix
  | ErrTruncatedField
  | ErrEncodeRequest rcp_error
  | ErrEncodeResponse rcp_error
  | ErrDecodeRequest rcp_error
  | ErrDecodeResponse rcp_error
  | ErrReplay u64 rcp_error
  | ErrRead io_error
  | ErrWrite nat

record Entry =
  en_Timestamp :: u64
  Requester :: StreamID
  Request :: Message
  Response :: Message
  en_Err :: bytes

definition zeroEntry :: Entry where
  "zeroEntry = \<lparr>en_Timestamp = 0, Requester = zeroStreamID, Request = zeroMessage,
     Response = zeroMessage, en_Err = []\<rparr>"

record Recorder =
  entries :: "Entry list"
  maxEntries :: nat
  head :: nat
  count :: nat
  written :: u64

definition Recorder_New :: "int \<Rightarrow> Recorder" where
  "Recorder_New m =
     (if m > 0
      then \<lparr>entries = replicate (nat m) zeroEntry, maxEntries = nat m, head = 0, count = 0, written = 0\<rparr>
      else \<lparr>entries = [], maxEntries = 0, head = 0, count = 0, written = 0\<rparr>)"

definition Recorder_append :: "Recorder \<Rightarrow> Entry \<Rightarrow> (record_error, Recorder) outcome" where
  "Recorder_append r e =
     (if maxEntries r > 0
      then
        if head r < length (entries r)
        then
          let head' = (head r + 1) mod maxEntries r;
              count' = (if count r < maxEntries r then count r + 1 else count r) in
          Ok (r\<lparr>entries := (entries r)[head r := e], head := head', count := count', written := written r + 1\<rparr>)
        else Panic
      else Ok (r\<lparr>entries := entries r @ [e], count := count r + 1, written := written r + 1\<rparr>))"

text \<open>The loop of \<open>Snapshot\<close> over the indices of the ring that remain.\<close>

fun readRing :: "Entry list \<Rightarrow> nat list \<Rightarrow> (record_error, Entry list) outcome" where
  "readRing es [] = Ok []"
| "readRing es (i # is) = andThen (idx es i) (\<lambda>e. andThen (readRing es is) (\<lambda>out. Ok (e # out)))"

definition Snapshot :: "Recorder \<Rightarrow> (record_error, Entry list) outcome" where
  "Snapshot r =
     (if count r = 0 then Ok []
      else if maxEntries r > 0
      then
        let start = (head r + maxEntries r - count r) mod maxEntries r in
        readRing (entries r) (map (\<lambda>i. (start + i) mod maxEntries r) [0..<count r])
      else slice (entries r) 0 (count r))"

definition Written :: "Recorder \<Rightarrow> u64" where "Written r = written r"

section \<open>The log\<close>

definition IEEE :: u32 where "IEEE = 0xEDB88320"

definition ChecksumIEEE :: "bytes \<Rightarrow> u32" where
  "ChecksumIEEE p = simpleUpdate (MakeTable IEEE) 0 p"

definition appendLenPrefixed :: "bytes \<Rightarrow> bytes \<Rightarrow> bytes" where
  "appendLenPrefixed buf data = buf @ put32 (word_of_nat (length data)) @ data"

text \<open>An error of another package under the text that \<open>fmt.Errorf\<close> puts around it.\<close>

fun under :: "(rcp_error \<Rightarrow> record_error) \<Rightarrow> 'a go \<Rightarrow> (record_error, 'a) outcome" where
  "under f (Ok x) = Ok x"
| "under f (Err er) = Err (f er)"
| "under f Panic = Panic"

definition marshalEntry :: "Entry \<Rightarrow> (record_error, bytes) outcome" where
  "marshalEntry e =
     andThen (under ErrEncodeRequest (EncodeMessage (Request e))) (\<lambda>reqBytes.
     let hasErr = en_Err e \<noteq> [] in
     andThen (if \<not> hasErr then under ErrEncodeResponse (EncodeMessage (Response e)) else Ok []) (\<lambda>respBytes.
     let buf = sid_bytes (Requester e) @ [if hasErr then 1 else 0];
         buf = appendLenPrefixed buf reqBytes;
         buf = appendLenPrefixed buf respBytes;
         buf = appendLenPrefixed buf (en_Err e) in
     Ok buf))"

definition readLenPrefixed :: "bytes \<Rightarrow> nat \<Rightarrow> (record_error, bytes \<times> nat) outcome" where
  "readLenPrefixed payload off =
     (if length payload < off + 4 then Err ErrTruncatedPrefix
      else
        andThen (get32 payload off) (\<lambda>n.
        if length payload < off + 4 + unat n then Err ErrTruncatedField
        else andThen (slice payload (off + 4) (off + 4 + unat n)) (\<lambda>field. Ok (field, off + 4 + unat n))))"

definition unmarshalEntry :: "bytes \<Rightarrow> (record_error, Entry) outcome" where
  "unmarshalEntry payload =
     (if length payload < 8 + 1 + 4 then Err ErrPayloadTooShort
      else
        andThen (under (\<lambda>_. ErrPayloadTooShort) (get_sid payload 0)) (\<lambda>sid.
        andThen (idx payload 8) (\<lambda>flag.
        let hasErr = (flag = 1) in
        andThen (readLenPrefixed payload 9) (\<lambda>(reqBytes, off).
        andThen (under ErrDecodeRequest (DecodeMessage reqBytes)) (\<lambda>req.
        andThen (readLenPrefixed payload off) (\<lambda>(respBytes, off).
        andThen (if \<not> hasErr then under ErrDecodeResponse (DecodeMessage respBytes) else Ok zeroMessage) (\<lambda>resp.
        andThen (readLenPrefixed payload off) (\<lambda>(errBytes, off).
          Ok \<lparr>en_Timestamp = 0, Requester = sid, Request = req, Response = resp,
              en_Err = (if hasErr then errBytes else [])\<rparr>))))))))"

type_synonym 'w writer = "'w \<Rightarrow> bytes \<Rightarrow> 'w \<times> nat \<times> record_error option"

text \<open>The three writes of one entry, with the count of the octets written; the first failure ends them.\<close>

fun writeParts :: "'w writer \<Rightarrow> 'w \<Rightarrow> nat \<Rightarrow> bytes list \<Rightarrow> 'w \<times> nat \<times> (record_error, unit) outcome" where
  "writeParts wr w tot [] = (w, tot, Ok ())"
| "writeParts wr w tot (p # ps) =
     (case wr w p of
        (w', n, Some er) \<Rightarrow> (w', tot + n, Err er)
      | (w', n, None) \<Rightarrow> writeParts wr w' (tot + n) ps)"

definition logParts :: "Entry \<Rightarrow> bytes \<Rightarrow> bytes list" where
  "logParts e payload =
     [put64 (en_Timestamp e) @ put32 (word_of_nat (length payload)), payload, put32 (ChecksumIEEE payload)]"

fun writeEntries :: "'w writer \<Rightarrow> 'w \<Rightarrow> nat \<Rightarrow> Entry list \<Rightarrow> 'w \<times> nat \<times> (record_error, unit) outcome" where
  "writeEntries wr w tot [] = (w, tot, Ok ())"
| "writeEntries wr w tot (e # es) =
     (case marshalEntry e of
        Err er \<Rightarrow> (w, tot, Err er)
      | Panic \<Rightarrow> (w, tot, Panic)
      | Ok payload \<Rightarrow>
          (case writeParts wr w tot (logParts e payload) of
             (w', tot', Ok _) \<Rightarrow> writeEntries wr w' tot' es
           | stopped \<Rightarrow> stopped))"

definition WriteTo :: "'w writer \<Rightarrow> 'w \<Rightarrow> Recorder \<Rightarrow> 'w \<times> nat \<times> (record_error, unit) outcome" where
  "WriteTo wr w r =
     (case Snapshot r of
        Ok es \<Rightarrow> writeEntries wr w 0 es
      | Err er \<Rightarrow> (w, 0, Err er)
      | Panic \<Rightarrow> (w, 0, Panic))"

text \<open>A reader: what it still delivers and the error after that, none for \<open>io.EOF\<close>; \<open>io.ReadFull\<close> on it.\<close>

type_synonym reader = "bytes \<times> nat option"

fun ReadFull :: "(io_error \<Rightarrow> 'e) \<Rightarrow> reader \<Rightarrow> nat \<Rightarrow> ('e, bytes \<times> reader) outcome" where
  "ReadFull f (bs, end_err) n =
     (if n \<le> length bs then Ok (take n bs, drop n bs, end_err)
      else
        case end_err of
          Some er \<Rightarrow> Err (f (ErrReader er))
        | None \<Rightarrow> Err (f (if bs = [] then EOF else ErrUnexpectedEOF)))"

lemma ReadFull_shorter: "ReadFull f rd n = Ok (b, rd') \<Longrightarrow> length (fst rd') + n = length (fst rd)"
  by (cases rd) (auto split: if_splits option.splits)

text \<open>The loop of \<open>ReadFrom\<close>, with the entries it has read so far.\<close>

function readEntries :: "Entry list \<Rightarrow> reader \<Rightarrow> (record_error, Entry list) outcome" where
  "readEntries acc rd =
     (case ReadFull ErrRead rd (8 + 4) of
        Panic \<Rightarrow> Panic
      | Err er \<Rightarrow> (if er = ErrRead EOF \<or> er = ErrRead ErrUnexpectedEOF then Ok acc else Err er)
      | Ok (hdr, rd1) \<Rightarrow>
          andThen (get64 hdr 0) (\<lambda>tsNs.
          andThen (get32 hdr 8) (\<lambda>payloadLen.
          andThen (ReadFull ErrRead rd1 (unat payloadLen)) (\<lambda>(payload, rd2).
          andThen (ReadFull ErrRead rd2 4) (\<lambda>(crcBuf, rd3).
          andThen (get32 crcBuf 0) (\<lambda>crc.
            if ChecksumIEEE payload \<noteq> crc then Err ErrCorrupted
            else
              andThen (unmarshalEntry payload) (\<lambda>e.
                readEntries (acc @ [e\<lparr>en_Timestamp := tsNs\<rparr>]) rd3)))))))"
  by pat_completeness auto

termination
proof (relation "measure (\<lambda>(acc, rd). length (fst rd))", simp)
  fix acc :: "Entry list" and rd hdrrd hdr rd1 ts n prd p rd2 crd c rd3 crc e
  assume "ReadFull ErrRead rd (8 + 4) = Ok hdrrd" "(hdr, rd1) = hdrrd" "ReadFull ErrRead rd1 (unat n) = Ok prd" "(p, rd2) = prd"
    "ReadFull ErrRead rd2 4 = Ok crd" "(c, rd3) = crd"
  then show "((acc @ [e\<lparr>en_Timestamp := ts\<rparr>], rd3), acc, rd) \<in> measure (\<lambda>(acc, rd). length (fst rd))"
    by (auto dest!: ReadFull_shorter)
qed

definition ReadFrom :: "reader \<Rightarrow> (record_error, Entry list) outcome" where
  "ReadFrom rd = readEntries [] rd"

section \<open>The recording handler and replay\<close>

definition Handler_HandleRequest ::
    "(rcp_error \<Rightarrow> bytes) \<Rightarrow> 'w rhandler \<Rightarrow> u64 \<Rightarrow> 'w \<times> Recorder \<Rightarrow> StreamID \<Rightarrow> Message \<Rightarrow> ('w \<times> Recorder) \<times> Message go" where
  "Handler_HandleRequest render inner now s sid req =
     (let (w, rec) = s; (w', result) = inner w sid req;
          base = zeroEntry\<lparr>en_Timestamp := now, Requester := sid, Request := req\<rparr> in
      case result of
        Panic \<Rightarrow> ((w', rec), Panic)
      | Err er \<Rightarrow>
          (case Recorder_append rec (base\<lparr>en_Err := render er\<rparr>) of
             Ok rec' \<Rightarrow> ((w', rec'), Err er)
           | _ \<Rightarrow> ((w', rec), Panic))
      | Ok resp \<Rightarrow>
          (case Recorder_append rec (base\<lparr>Response := resp\<rparr>) of
             Ok rec' \<Rightarrow> ((w', rec'), Ok resp)
           | _ \<Rightarrow> ((w', rec), Panic)))"

fun replayAll :: "'w rhandler \<Rightarrow> 'w \<Rightarrow> Message list \<Rightarrow> Entry list \<Rightarrow> 'w \<times> Message list \<times> (record_error, unit) outcome" where
  "replayAll target w resps [] = (w, resps, Ok ())"
| "replayAll target w resps (e # es) =
     (case target w (Requester e) (Request e) of
        (w', Ok resp) \<Rightarrow> replayAll target w' (resps @ [resp]) es
      | (w', Err er) \<Rightarrow> (w', resps, Err (ErrReplay (en_Timestamp e) er))
      | (w', Panic) \<Rightarrow> (w', resps, Panic))"

definition Replay :: "'w rhandler \<Rightarrow> 'w \<Rightarrow> Entry list \<Rightarrow> 'w \<times> Message list \<times> (record_error, unit) outcome" where
  "Replay target w es = replayAll target w [] es"

section \<open>The ring keeps the last entries\<close>

definition lastn :: "nat \<Rightarrow> 'a list \<Rightarrow> 'a list" where
  "lastn n xs = drop (length xs - n) xs"

text \<open>
  What a bounded log promises to its clients: it always takes one more entry, and what it shows is a
  function of all entries that it was given.
\<close>

locale bounded_log =
  fixes init :: 's and add :: "'s \<Rightarrow> 'a \<Rightarrow> ('e, 's) outcome" and view :: "'s \<Rightarrow> ('e, 'a list) outcome"
    and holds :: "'s \<Rightarrow> 'a list \<Rightarrow> bool" and keep :: "'a list \<Rightarrow> 'a list"
  assumes init_holds: "holds init []"
    and add_holds: "holds s xs \<Longrightarrow> \<exists>s'. add s x = Ok s' \<and> holds s' (xs @ [x])"
    and view_holds: "holds s xs \<Longrightarrow> view s = Ok (keep xs)"
begin

lemma run_holds:
  "holds s xs \<Longrightarrow> \<exists>s'. foldl (\<lambda>r x. andThen r (\<lambda>s. add s x)) (Ok s) ys = Ok s' \<and> holds s' (xs @ ys)"
proof (induction ys arbitrary: s xs)
  case (Cons y ys)
  obtain s1 where "add s y = Ok s1" "holds s1 (xs @ [y])" using add_holds [OF Cons.prems] by blast
  then show ?case using Cons.IH [of s1 "xs @ [y]"] by simp
qed simp

lemma run_view:
  "\<exists>s'. foldl (\<lambda>r x. andThen r (\<lambda>s. add s x)) (Ok init) ys = Ok s' \<and> holds s' ys \<and> view s' = Ok (keep ys)"
  using run_holds [OF init_holds, of ys] view_holds by fastforce

end

definition ring_holds :: "int \<Rightarrow> Recorder \<Rightarrow> Entry list \<Rightarrow> bool" where
  "ring_holds m r es \<longleftrightarrow>
     maxEntries r = nat m \<and> written r = word_of_nat (length es) \<and>
     (if m > 0
      then length (entries r) = nat m \<and> head r = length es mod nat m \<and> count r = min (length es) (nat m) \<and>
        (\<forall>j<length es. length es \<le> j + nat m \<longrightarrow> entries r ! (j mod nat m) = es ! j)
      else entries r = es \<and> count r = length es)"

lemma mod_neq_close: "(a :: nat) < b \<Longrightarrow> b < a + m \<Longrightarrow> a mod m \<noteq> b mod m"
proof
  assume "a < b" "b < a + m" "a mod m = b mod m"
  then obtain q where "b - a = m * q" by (metis mod_eq_dvd_iff_nat dvdE less_imp_le)
  then show False using \<open>a < b\<close> \<open>b < a + m\<close> by (cases q) auto
qed

lemma ring_append:
  assumes "ring_holds m r es"
  shows "\<exists>r'. Recorder_append r e = Ok r' \<and> ring_holds m r' (es @ [e])"
proof (cases "m > 0")
  case True
  let ?m = "nat m" and ?n = "length es"
  let ?r = "r\<lparr>entries := (entries r)[head r := e], head := (head r + 1) mod ?m,
     count := (if count r < ?m then count r + 1 else count r), written := written r + 1\<rparr>"
  have r: "maxEntries r = ?m" "length (entries r) = ?m" "head r = ?n mod ?m" "count r = min ?n ?m"
    "written r = word_of_nat ?n" and
    es: "\<And>j. j < ?n \<Longrightarrow> ?n \<le> j + ?m \<Longrightarrow> entries r ! (j mod ?m) = es ! j"
    using assms True by (auto simp: ring_holds_def)
  have "entries ?r ! (j mod ?m) = (es @ [e]) ! j" if "j < ?n + 1" "?n + 1 \<le> j + ?m" for j
  proof (cases "j = ?n")
    case False
    then have "?n mod ?m \<noteq> j mod ?m" using mod_neq_close [of j ?n ?m] that by simp
    then show ?thesis using es [of j] that False by (simp add: r nth_append)
  qed (use True r in simp)
  then have "ring_holds m ?r (es @ [e])"
    using True by (auto simp: ring_holds_def r mod_Suc_eq)
  moreover have "Recorder_append r e = Ok ?r" using True by (simp add: Recorder_append_def Let_def r)
  ultimately show ?thesis by blast
qed (use assms in \<open>auto simp: ring_holds_def Recorder_append_def\<close>)

lemma readRing_map: "list_all (\<lambda>i. i < length es) is \<Longrightarrow> readRing es is = Ok (map ((!) es) is)"
  by (induction "is") simp_all

lemma ring_Snapshot:
  assumes "ring_holds m r es"
  shows "Snapshot r = Ok (if m > 0 then lastn (nat m) es else es)"
proof (cases "m > 0 \<and> es \<noteq> []")
  case True
  let ?m = "nat m" and ?n = "length es" and ?c = "min (length es) (nat m)"
  have m: "0 < ?m" using True by simp
  have r: "maxEntries r = ?m" "length (entries r) = ?m" "head r = ?n mod ?m" "count r = ?c" and
    es: "\<And>j. j < ?n \<Longrightarrow> ?n \<le> j + ?m \<Longrightarrow> entries r ! (j mod ?m) = es ! j"
    using assms True by (auto simp: ring_holds_def)
  let ?s = "(?n mod ?m + ?m - ?c) mod ?m"
  have ix: "(?s + i) mod ?m = (?n - ?c + i) mod ?m" for i
  proof (cases "?n < ?m")
    case False
    then show ?thesis using le_mod_geq [of ?m "?n + i"] by (simp add: mod_add_left_eq)
  qed simp
  have "Snapshot r = readRing (entries r) (map (\<lambda>i. (?s + i) mod ?m) [0..<?c])"
    using True by (auto simp: Snapshot_def r Let_def)
  also have "\<dots> = Ok (map (\<lambda>i. entries r ! ((?s + i) mod ?m)) [0..<?c])"
    using m by (subst readRing_map) (auto simp: list_all_iff r)
  also have "map (\<lambda>i. entries r ! ((?s + i) mod ?m)) [0..<?c] = lastn ?m es"
  proof (rule nth_equalityI)
    fix i assume "i < length (map (\<lambda>i. entries r ! ((?s + i) mod ?m)) [0..<?c])"
    then have i: "i < ?c" by simp
    then have "entries r ! ((?n - ?c + i) mod ?m) = es ! (?n - ?c + i)" by (intro es) auto
    moreover have "?n - ?c = ?n - ?m" by simp
    ultimately show "map (\<lambda>i. entries r ! ((?s + i) mod ?m)) [0..<?c] ! i = lastn ?m es ! i"
      using i by (simp add: ix lastn_def)
  qed (simp add: lastn_def)
  finally show ?thesis using True by simp
qed (use assms in \<open>auto simp: ring_holds_def Snapshot_def lastn_def\<close>)

interpretation recorder: bounded_log "Recorder_New m" Recorder_append Snapshot "ring_holds m"
    "\<lambda>es. if m > 0 then lastn (nat m) es else es" for m :: int
  by unfold_locales
    (simp_all add: ring_append ring_Snapshot, simp add: ring_holds_def Recorder_New_def)

section \<open>The log is read back as it was written\<close>

text \<open>A \<open>bytes.Buffer\<close> as the writer; what the log keeps of an entry; the entries that it can keep.\<close>

definition bufWrite :: "bytes writer" where
  "bufWrite w p = (w @ p, length p, None)"

definition wire_entry :: "Entry \<Rightarrow> Entry" where
  "wire_entry e = e\<lparr>Request := wire_message (Request e),
     Response := (if en_Err e = [] then wire_message (Response e) else zeroMessage)\<rparr>"

definition loggable :: "Entry \<Rightarrow> bool" where
  "loggable e \<longleftrightarrow> encodable (Request e) \<and> (en_Err e = [] \<longrightarrow> encodable (Response e)) \<and> length (en_Err e) < 2 ^ 31"

definition logged :: "Entry \<Rightarrow> bytes" where
  "logged e = (case marshalEntry e of Ok payload \<Rightarrow> concat (logParts e payload) | _ \<Rightarrow> [])"

lemma EncodeMessage_small: "EncodeMessage m = Ok bs \<Longrightarrow> length bs \<le> 2044"
  by (erule EncodeMessage_OkE) simp

lemma unat_length: "length l < 2 ^ 32 \<Longrightarrow> unat (word_of_nat (length l) :: u32) = length l"
  by (simp add: unat_of_nat)

lemma readLenPrefixed_append:
  assumes "length d < 2 ^ 32" "off = length xs"
  shows "readLenPrefixed (xs @ put32 (word_of_nat (length d)) @ d @ ys) off = Ok (d, off + 4 + length d)"
proof -
  have "unat (word_of_nat (length d) :: u32) = length d" using assms(1) by (rule unat_length)
  then show ?thesis using assms by (simp add: readLenPrefixed_def slice_def del: get_no_panic)
qed

lemma marshalled:
  assumes "loggable e"
  obtains req resp where "EncodeMessage (Request e) = Ok req" "length req \<le> 2044" "length resp \<le> 2044"
    "if en_Err e = [] then EncodeMessage (Response e) = Ok resp else resp = []"
    "marshalEntry e = Ok (sid_bytes (Requester e) @ [if en_Err e \<noteq> [] then 1 else 0] @
       put32 (word_of_nat (length req)) @ req @ put32 (word_of_nat (length resp)) @ resp @
       put32 (word_of_nat (length (en_Err e))) @ en_Err e)"
proof -
  obtain req where req: "EncodeMessage (Request e) = Ok req"
    using assms EncodeMessage_Ok_iff by (auto simp: loggable_def)
  have "\<exists>resp. if en_Err e = [] then EncodeMessage (Response e) = Ok resp else resp = []"
    using assms EncodeMessage_Ok_iff [of "Response e"] by (cases "en_Err e = []") (auto simp: loggable_def)
  then obtain resp where resp: "if en_Err e = [] then EncodeMessage (Response e) = Ok resp else resp = []" by blast
  show ?thesis
    by (rule that [of req resp])
      (use req resp EncodeMessage_small in \<open>auto simp: marshalEntry_def appendLenPrefixed_def Let_def split: if_splits\<close>)
qed

lemma marshal_roundtrip:
  assumes "loggable e"
  shows "\<exists>payload. marshalEntry e = Ok payload \<and> length payload < 2 ^ 32 \<and>
    unmarshalEntry payload = Ok (wire_entry e\<lparr>en_Timestamp := 0\<rparr>)"
proof -
  obtain req resp where req: "EncodeMessage (Request e) = Ok req" "length req \<le> 2044" "length resp \<le> 2044"
    and resp: "if en_Err e = [] then EncodeMessage (Response e) = Ok resp else resp = []"
    and ok: "marshalEntry e = Ok (sid_bytes (Requester e) @ [if en_Err e \<noteq> [] then 1 else 0] @
       put32 (word_of_nat (length req)) @ req @ put32 (word_of_nat (length resp)) @ resp @
       put32 (word_of_nat (length (en_Err e))) @ en_Err e)"
    by (rule marshalled [OF assms])
  define err where "err = en_Err e"
  define flag :: u8 where "flag = (if err \<noteq> [] then 1 else 0)"
  let ?h = "sid_bytes (Requester e) @ [flag]"
  define p where "p = ?h @ put32 (word_of_nat (length req)) @ req @ put32 (word_of_nat (length resp)) @ resp @
       put32 (word_of_nat (length err)) @ err"
  have err: "length err < 2 ^ 31" using assms by (simp add: loggable_def err_def)
  have sid: "get_sid p 0 = Ok (Requester e)" using get_sid_append [of "[]" "Requester e"] by (simp add: p_def)
  have f8: "p ! 8 = flag" by (simp add: p_def nth_append)
  have r1: "readLenPrefixed p 9 = Ok (req, 13 + length req)"
    using req readLenPrefixed_append [of req 9 ?h] by (simp add: p_def)
  have r2: "readLenPrefixed p (13 + length req) = Ok (resp, 17 + length req + length resp)"
    using req readLenPrefixed_append [of resp "13 + length req" "?h @ put32 (word_of_nat (length req)) @ req"] by (simp add: p_def)
  have r3: "readLenPrefixed p (17 + length req + length resp) = Ok (err, 21 + length req + length resp + length err)"
    using err readLenPrefixed_append [of err "17 + length req + length resp"
        "?h @ put32 (word_of_nat (length req)) @ req @ put32 (word_of_nat (length resp)) @ resp" "[]"] by (simp add: p_def)
  have len: "13 \<le> length p" by (simp add: p_def)
  have "unmarshalEntry p = Ok (wire_entry e\<lparr>en_Timestamp := 0\<rparr>)"
    unfolding unmarshalEntry_def sid r1 idx_def f8
    using len req resp by (auto simp: Let_def r2 r3 DecodeMessage_EncodeMessage flag_def err_def wire_entry_def)
  moreover have "length p < 2 ^ 32" using req err by (simp add: p_def)
  ultimately show ?thesis using ok by (simp add: err_def flag_def p_def)
qed

lemma writeEntries_buffer:
  "list_all loggable es \<Longrightarrow>
     writeEntries bufWrite w n es = (w @ concat (map logged es), n + length (concat (map logged es)), Ok ())"
proof (induction es arbitrary: w n)
  case (Cons e es)
  then obtain payload where "marshalEntry e = Ok payload" using marshal_roundtrip [of e] by auto
  then show ?case using Cons by (simp add: logged_def logParts_def bufWrite_def)
qed simp

lemma header_fields:
  "length (put64 a @ put32 b) = 12" "get64 (put64 a @ put32 b) 0 = Ok a" "get32 (put64 a @ put32 b) 8 = Ok b"
  "get32 (put32 b) 0 = Ok b"
  using get64_append [of "[]" a "put32 b"] get32_append [of "put64 a" b "[]"] get32_append [of "[]" b "[]"]
  by (simp_all del: get_no_panic)

lemma readEntries_header:
  assumes "length hdr = 12" "get64 hdr 0 = (Ok ts :: (record_error, u64) outcome)"
    "get32 hdr 8 = (Ok n :: (record_error, u32) outcome)" "unat n = length payload"
  shows "readEntries acc (hdr @ payload @ put32 crc @ rest, ee) =
    (if ChecksumIEEE payload \<noteq> crc then Err ErrCorrupted
     else andThen (unmarshalEntry payload) (\<lambda>e. readEntries (acc @ [e\<lparr>en_Timestamp := ts\<rparr>]) (rest, ee)))"
  using assms by (subst readEntries.simps) (simp add: header_fields(4) del: readEntries.simps get_no_panic)

lemma readEntries_logged:
  assumes "loggable e"
  shows "readEntries acc (logged e @ rest, ee) = readEntries (acc @ [wire_entry e]) (rest, ee)"
proof -
  obtain p where p: "marshalEntry e = Ok p" "length p < 2 ^ 32"
    "unmarshalEntry p = Ok (wire_entry e\<lparr>en_Timestamp := 0\<rparr>)" using marshal_roundtrip [OF assms] by blast
  have n: "unat (word_of_nat (length p) :: u32) = length p" using p(2) by (rule unat_length)
  show ?thesis
    using readEntries_header [OF header_fields(1-3) n, of acc "en_Timestamp e" "ChecksumIEEE p" rest ee] p(1,3)
    by (simp add: logged_def logParts_def wire_entry_def del: readEntries.simps)
qed

lemma readEntries_all:
  "list_all loggable es \<Longrightarrow>
     readEntries acc (concat (map logged es) @ rest, ee) = readEntries (acc @ map wire_entry es) (rest, ee)"
  by (induction es arbitrary: acc) (simp_all add: readEntries_logged del: readEntries.simps)

lemma readEntries_end: "length rest < 12 \<Longrightarrow> readEntries acc (rest, None) = Ok acc"
  by (simp add: eval_nat_numeral)

text \<open>A change within four octets of the payload changes its checksum.\<close>

lemma ChecksumIEEE_bits: "ChecksumIEEE p = NOT (crcRegister IEEE (NOT 0) p)"
  by (simp add: ChecksumIEEE_def simpleUpdate_def tableByte_bitByte crcRegister_def foldl_conv_fold)

lemma ChecksumIEEE_burst:
  assumes "length a = length b" "length a \<le> 4" "ChecksumIEEE (xs @ a @ ys) = ChecksumIEEE (xs @ b @ ys)"
  shows "a = b"
proof (rule crcRegister_burst [of IEEE])
  show "bit IEEE 31" by (simp add: IEEE_def)
  show "crcRegister IEEE (NOT 0) (xs @ a @ ys) = crcRegister IEEE (NOT 0) (xs @ b @ ys)"
    using assms(3) by (simp add: ChecksumIEEE_bits)
qed (use assms in auto)

text \<open>The ring is the list of the last entries. Whatever entries are appended to a new recorder, no append
  panics, and the snapshot holds in order all of them, or the last \<open>m\<close> of them when the recorder was made for
  \<open>m > 0\<close> entries; \<open>Written\<close> counts all of them modulo \<open>2 ^ 64\<close>.\<close>

theorem recorder_keeps_last:
  "\<exists>r. foldl (\<lambda>rec e. andThen rec (\<lambda>r. Recorder_append r e)) (Ok (Recorder_New m)) es = Ok r \<and>
     Snapshot r = Ok (if m > 0 then drop (length es - nat m) es else es) \<and>
     Written r = word_of_nat (length es)"
  using recorder.run_view [where m = m and ys = es] by (auto simp: ring_holds_def Written_def lastn_def)

text \<open>C27: what \<open>WriteTo\<close> writes, \<open>ReadFrom\<close> reads back. For a recorder whose entries have messages that the wire
  format can carry, the write succeeds and reports the length of the log, and reading the log returns the entries
  in order, each with its time stamp and requester, its messages as the wire keeps them and its error text (the
  response of an entry with an error text is not kept). Up to eleven further octets at the end of the log do not
  change what is read. A log with a payload in which at most four consecutive octets differ from what was written
  is refused as corrupted, whatever follows it.\<close>

theorem record_log_roundtrip:
  assumes "Snapshot r = Ok es" "list_all loggable es"
  shows "\<exists>log. WriteTo bufWrite [] r = (log, length log, Ok ()) \<and>
      (\<forall>cut. length cut < 12 \<longrightarrow> ReadFrom (log @ cut, None) = Ok (map wire_entry es)) \<and>
      (\<forall>e xs a b ys rest end_err. loggable e \<and> marshalEntry e = Ok (xs @ a @ ys) \<and> length b = length a \<and>
         length a \<le> 4 \<and> a \<noteq> b \<longrightarrow>
         ReadFrom (log @ put64 (en_Timestamp e) @ put32 (word_of_nat (length (xs @ a @ ys))) @ (xs @ b @ ys) @
           put32 (ChecksumIEEE (xs @ a @ ys)) @ rest, end_err) = Err ErrCorrupted)"
proof (intro exI conjI allI impI)
  let ?log = "concat (map logged es)"
  show "WriteTo bufWrite [] r = (?log, length ?log, Ok ())"
    using assms by (simp add: WriteTo_def writeEntries_buffer)
  show "ReadFrom (?log @ cut, None) = Ok (map wire_entry es)" if "length cut < 12" for cut
    using readEntries_all [OF assms(2), of "[]" cut] readEntries_end [OF that]
    by (simp add: ReadFrom_def del: readEntries.simps)
  fix e xs a b ys rest end_err
  assume *: "loggable e \<and> marshalEntry e = Ok (xs @ a @ ys) \<and> length b = length a \<and> length a \<le> 4 \<and> a \<noteq> b"
  let ?n = "word_of_nat (length (xs @ a @ ys)) :: u32"
  have "length (xs @ a @ ys) < 2 ^ 32" using marshal_roundtrip [of e] * by auto
  then have "unat ?n = length (xs @ a @ ys)" by (rule unat_length)
  then have n: "unat ?n = length (xs @ b @ ys)" using * by simp
  have "ChecksumIEEE (xs @ b @ ys) \<noteq> ChecksumIEEE (xs @ a @ ys)" using ChecksumIEEE_burst [of b a xs ys] * by auto
  then show "ReadFrom (?log @ put64 (en_Timestamp e) @ put32 ?n @ (xs @ b @ ys) @
       put32 (ChecksumIEEE (xs @ a @ ys)) @ rest, end_err) = Err ErrCorrupted"
    using readEntries_all [OF assms(2), of "[]" "(put64 (en_Timestamp e) @ put32 ?n) @ (xs @ b @ ys) @
       put32 (ChecksumIEEE (xs @ a @ ys)) @ rest" end_err]
      readEntries_header [OF header_fields(1-3) n, of "map wire_entry es" "en_Timestamp e"
       "ChecksumIEEE (xs @ a @ ys)" rest end_err]
    by (simp add: ReadFrom_def del: readEntries.simps)
qed

definition sample_entry :: Entry where
  "sample_entry = zeroEntry\<lparr>en_Timestamp := 7, Requester := clientID, Request := sample_message, Response := sample_message\<rparr>"

theorem record_log_roundtrip_witness:
  "\<exists>r es. Recorder_append (Recorder_New 2) sample_entry = Ok r \<and> Snapshot r = Ok es \<and> es = [sample_entry] \<and>
     list_all loggable es \<and> (\<exists>log. WriteTo bufWrite [] r = (log, length log, Ok ()) \<and>
       ReadFrom (log @ [], None) = Ok [wire_entry sample_entry])"
proof -
  obtain r where r: "Recorder_append (Recorder_New 2) sample_entry = Ok r" "Snapshot r = Ok [sample_entry]"
    by (simp add: Recorder_append_def Recorder_New_def Snapshot_def)
  have ok: "list_all loggable [sample_entry]"
    by (simp add: loggable_def sample_entry_def sample_message_def zeroMessage_def zeroEntry_def encodable_def message_consts
        kind_defs flag_defs knownFlags_def unpaddedLen_def)
  obtain log where "WriteTo bufWrite [] r = (log, length log, Ok ())"
    "\<forall>cut. length cut < 12 \<longrightarrow> ReadFrom (log @ cut, None) = Ok (map wire_entry [sample_entry])"
    using record_log_roundtrip [OF r(2) ok] by (elim exE conjE) (rule that)
  then have "\<exists>log. WriteTo bufWrite [] r = (log, length log, Ok ()) \<and>
      ReadFrom (log @ [], None) = Ok [wire_entry sample_entry]"
    by (intro exI [of _ log]) (auto dest: spec [of _ "[]"])
  then show ?thesis using r ok by blast
qed

section \<open>Recording changes nothing, and replay repeats it\<close>

text \<open>A handler under a list of calls, each with its time; the entries that these calls leave.\<close>

fun handleAll :: "(u64 \<Rightarrow> 's rhandler) \<Rightarrow> 's \<Rightarrow> (u64 \<times> StreamID \<times> Message) list \<Rightarrow> 's \<times> Message go list" where
  "handleAll h s [] = (s, [])"
| "handleAll h s ((now, sid, req) # calls) =
     (let (s', res) = h now s sid req; (s'', out) = handleAll h s' calls in (s'', res # out))"

fun entryOf :: "(rcp_error \<Rightarrow> bytes) \<Rightarrow> (u64 \<times> StreamID \<times> Message) \<times> Message go \<Rightarrow> Entry" where
  "entryOf render ((now, sid, req), res) =
     \<lparr>en_Timestamp = now, Requester = sid, Request = req,
      Response = (case res of Ok resp \<Rightarrow> resp | _ \<Rightarrow> zeroMessage),
      en_Err = (case res of Err er \<Rightarrow> render er | _ \<Rightarrow> [])\<rparr>"

lemma recorded_call:
  assumes "ring_holds m rec es" "inner w sid req = (w', res)" "res \<noteq> Panic"
  shows "\<exists>rec'. Handler_HandleRequest render inner now (w, rec) sid req = ((w', rec'), res) \<and>
    ring_holds m rec' (es @ [entryOf render ((now, sid, req), res)])"
  using assms ring_append [OF assms(1), of "entryOf render ((now, sid, req), res)"]
  by (cases res) (auto simp: Handler_HandleRequest_def zeroEntry_def)

lemma recorded_calls:
  assumes "ring_holds m rec es" "handleAll (\<lambda>_. inner) w calls = (w', out)" "Panic \<notin> set out"
  shows "\<exists>rec'. handleAll (Handler_HandleRequest render inner) (w, rec) calls = ((w', rec'), out) \<and>
    ring_holds m rec' (es @ map (entryOf render) (zip calls out))"
  using assms
proof (induction calls arbitrary: w rec es out)
  case (Cons c calls)
  obtain now sid req where c: "c = (now, sid, req)" by (cases c)
  obtain w1 res where res: "inner w sid req = (w1, res)" by (cases "inner w sid req")
  obtain out' where out': "handleAll (\<lambda>_. inner) w1 calls = (w', out')" "out = res # out'"
    using Cons.prems(2) by (auto simp: c res split: prod.splits)
  obtain rec1 where "Handler_HandleRequest render inner now (w, rec) sid req = ((w1, rec1), res)"
    "ring_holds m rec1 (es @ [entryOf render (c, res)])"
    using recorded_call [where inner = inner and w = w, OF Cons.prems(1) res] Cons.prems(3) out' c by auto
  then show ?case using Cons.IH [of rec1 _ w1 out'] out' Cons.prems(3) by (fastforce simp: c)
qed simp

lemma replay_calls:
  "handleAll (\<lambda>_. inner) w calls = (w', map Ok resps) \<Longrightarrow>
     replayAll inner w acc (map (entryOf render) (zip calls (map Ok resps))) = (w', acc @ resps, Ok ())"
proof (induction calls arbitrary: w resps acc)
  case (Cons c calls)
  then show ?case by (cases c; cases resps) (auto simp: split: prod.splits)
qed simp

text \<open>A recorded handler answers as the handler does, and a recording can be replayed. For any calls that do not
  make the handler panic, the recording handler ends in the same state with the same answers, and the snapshot
  holds one entry for each of the last calls that fit the ring. When the handler answered all calls and the ring
  held them all, replaying the snapshot from the first state ends in the same state with the same responses.\<close>

theorem recording_can_be_replayed:
  assumes "handleAll (\<lambda>_. inner) w calls = (w', out)" "Panic \<notin> set out"
  shows "\<exists>rec es. handleAll (Handler_HandleRequest render inner) (w, Recorder_New m) calls = ((w', rec), out) \<and>
     Snapshot rec = Ok es \<and> es = (let all = map (entryOf render) (zip calls out) in
       if m > 0 then drop (length all - nat m) all else all) \<and>
     (\<forall>resps. out = map Ok resps \<and> (m \<le> 0 \<or> length calls \<le> nat m) \<longrightarrow>
        Replay inner w es = (w', resps, Ok ()))"
proof -
  let ?all = "map (entryOf render) (zip calls out)"
  obtain rec where rec: "handleAll (Handler_HandleRequest render inner) (w, Recorder_New m) calls = ((w', rec), out)"
    "ring_holds m rec ?all"
    using recorded_calls [where render = render, OF recorder.init_holds [of m] assms] by auto
  moreover have "Snapshot rec = Ok (if m > 0 then drop (length ?all - nat m) ?all else ?all)"
    using ring_Snapshot [OF rec(2)] by (simp add: lastn_def)
  moreover have "Replay inner w (if m > 0 then drop (length ?all - nat m) ?all else ?all) = (w', resps, Ok ())"
    if "out = map Ok resps \<and> (m \<le> 0 \<or> length calls \<le> nat m)" for resps
    using that assms(1) replay_calls [of inner w calls w' resps "[]" render] by (auto simp: Replay_def)
  ultimately show ?thesis by (auto simp: Let_def)
qed

definition tally :: "nat rhandler" where
  "tally w sid req = (Suc w, Ok (req\<lparr>Body := [word_of_nat w]\<rparr>))"

theorem recording_can_be_replayed_witness:
  "\<exists>rec es. handleAll (Handler_HandleRequest (\<lambda>_. []) tally) (0, Recorder_New 4) [(5, clientID, sample_message)] =
       ((1, rec), [Ok (sample_message\<lparr>Body := [0]\<rparr>)]) \<and> Snapshot rec = Ok es \<and>
     Replay tally 0 es = (1, [sample_message\<lparr>Body := [0]\<rparr>], Ok ())"
proof -
  have "handleAll (\<lambda>_. tally) 0 [(5, clientID, sample_message)] = (1, [Ok (sample_message\<lparr>Body := [0]\<rparr>)])"
    by (simp add: tally_def)
  moreover have "Panic \<notin> set [Ok (sample_message\<lparr>Body := [0]\<rparr>)]" by simp
  ultimately show ?thesis
    by (rule recording_can_be_replayed [where render = "\<lambda>_. []" and m = 4, THEN exE])
      (elim exE conjE allE [of _ "[sample_message\<lparr>Body := [0]\<rparr>]"], intro exI conjI; simp)
qed

end
