(* ===== verification/Upstream.thy ===== *)
theory Upstream
  imports Udp
begin

text \<open>
  What the packages above the transport see of a \<open>udp.Controller\<close>: its blocking \<open>Request\<close> with \<open>Read\<close> and
  \<open>Write\<close>. The clients and wrappers take any function of the type of \<open>Request\<close>, on the state of whatever is
  behind it; \<open>Controller_Request\<close> is the controller of the theory \<open>Udp\<close> together with the server it talks to,
  so that statements about a client can be joined with those about the transport and the endpoints.
\<close>

type_synonym 'w request = "'w \<Rightarrow> u16 \<Rightarrow> ControlFlags \<Rightarrow> bytes \<Rightarrow> 'w \<times> Message go"

definition Controller_Read :: "'w request \<Rightarrow> 'w \<Rightarrow> u16 \<Rightarrow> 'w \<times> Message go" where
  "Controller_Read request w a = request w a FlagRead []"

definition Controller_Write :: "'w request \<Rightarrow> 'w \<Rightarrow> u16 \<Rightarrow> bytes \<Rightarrow> 'w \<times> Message go" where
  "Controller_Write request w a body = request w a FlagWrite body"

text \<open>
  A call of \<open>Request\<close> from its beginning to its end: the datagram is served, the answer is read, and the call
  returns the message or, when none came, the error of its context.
\<close>

definition Controller_Request :: "(rcp_error \<Rightarrow> bytes) \<Rightarrow> 'w Router \<Rightarrow> (Controller \<times> UdpServer \<times> 'w) request" where
  "Controller_Request render r s a control body =
     (let (c, srv, w) = s in
      case beginRequest c False a control body of
        (c1, Err er) \<Rightarrow> ((c1, srv, w), Err er)
      | (c1, Panic) \<Rightarrow> ((c1, srv, w), Panic)
      | (c1, Ok (txn, datagram)) \<Rightarrow>
          (case serveDatagram render r srv w datagram of
             (w', srv', reply) \<Rightarrow>
               (let c2 = (case reply of Ok (Some out) \<Rightarrow> readDatagram c1 out | _ \<Rightarrow> c1) in
                case endRequest c2 txn None of
                  (c3, Some res) \<Rightarrow> ((c3, srv', w'), res)
                | (c3, None) \<Rightarrow> ((fst (endRequest c3 txn (Some (EUdp ErrTimeout))), srv', w'), Err (EUdp ErrTimeout)))))"

lemma readDatagram_keeps:
  "nextTxn (readDatagram c d) = nextTxn c" "ct_closed (readDatagram c d) = ct_closed c"
  "ct_streamID (readDatagram c d) = ct_streamID c"
proof -
  have one: "nextTxn (deliverMessage m c) = nextTxn c" "ct_closed (deliverMessage m c) = ct_closed c"
    "ct_streamID (deliverMessage m c) = ct_streamID c" for m c
    by (simp_all add: deliverMessage_def split: option.split)
  have "nextTxn (fold deliverMessage ms c) = nextTxn c \<and> ct_closed (fold deliverMessage ms c) = ct_closed c \<and>
    ct_streamID (fold deliverMessage ms c) = ct_streamID c" for ms c
    by (induction ms arbitrary: c) (simp_all add: one)
  then show "nextTxn (readDatagram c d) = nextTxn c" "ct_closed (readDatagram c d) = ct_closed c"
    "ct_streamID (readDatagram c d) = ct_streamID c"
    by (simp_all add: readDatagram_def split: outcome.split)
qed

lemma endRequest_keeps:
  "endRequest c txn failure = (c', res) \<Longrightarrow>
     nextTxn c' = nextTxn c \<and> ct_closed c' = ct_closed c \<and> ct_streamID c' = ct_streamID c"
  by (auto simp: endRequest_def Let_def split: option.splits)

text \<open>Every call on an open controller takes one transaction number; it fails when the message does not fit.\<close>

lemma Controller_Request_counts:
  assumes "Controller_Request render r (c, srv, w) a control body = ((c', srv', w'), res)" "\<not> ct_closed c"
  shows "nextTxn c' = nextTxn c + 1 \<and> \<not> ct_closed c' \<and> ct_streamID c' = ct_streamID c \<and>
    (encodable (requestMessage a (ucast (nextTxn c + 1)) control body) \<or> (\<exists>er. res = Err er))"
proof (cases "encodable (requestMessage a (ucast (nextTxn c + 1)) control body)")
  case True
  obtain c1 datagram where b: "beginRequest c False a control body = (c1, Ok (ucast (nextTxn c + 1), datagram))"
    "nextTxn c1 = nextTxn c + 1" "\<not> ct_closed c1" "ct_streamID c1 = ct_streamID c"
    using beginRequest_cases(1) [OF assms(2) refl refl True] by blast
  obtain w1 srv1 reply where s: "serveDatagram render r srv w datagram = (w1, srv1, reply)" by (cases "serveDatagram render r srv w datagram")
  define c2 where "c2 = (case reply of Ok (Some out) \<Rightarrow> readDatagram c1 out | _ \<Rightarrow> c1)"
  have c2: "nextTxn c2 = nextTxn c + 1" "\<not> ct_closed c2" "ct_streamID c2 = ct_streamID c"
    by (simp_all add: c2_def b readDatagram_keeps split: outcome.split option.split)
  show ?thesis
    using assms(1) b(1) s c2 True endRequest_keeps [of c2] endRequest_keeps
    by (auto simp: Controller_Request_def Let_def c2_def [symmetric] split: prod.splits option.splits dest!: endRequest_keeps)
      (metis endRequest_keeps prod.collapse)+
next
  case False
  then show ?thesis
    using assms beginRequest_cases(2) [OF assms(2) refl refl False] by (auto simp: Controller_Request_def)
qed

lemma Controller_Request_exchange:
  assumes e: "exchange render r srv c w a control body = (c', srv', w', Some res)"
  shows "Controller_Request render r (c, srv, w) a control body = ((c', srv', w'), res)"
proof -
  obtain c1 out where b: "beginRequest c False a control body = (c1, out)" by fastforce
  show ?thesis
  proof (cases out)
    case (Ok p)
    obtain txn d where p: "p = (txn, d)" by fastforce
    obtain w1 srv1 reply where s: "serveDatagram render r srv w d = (w1, srv1, reply)" by (cases "serveDatagram render r srv w d")
    obtain dg where "reply = Ok (Some dg)"
      using e b s Ok p by (cases reply) (auto simp: exchange_def split: option.splits)
    then show ?thesis using e b s Ok p by (auto simp: exchange_def Controller_Request_def split: prod.splits)
  qed (use e b in \<open>auto simp: exchange_def Controller_Request_def\<close>)
qed

text \<open>The message that answers a request when its handler returned \<open>out\<close>; the errors the router is silent about aside.\<close>

definition replyFor :: "(rcp_error \<Rightarrow> bytes) \<Rightarrow> Message \<Rightarrow> Message go \<Rightarrow> Message" where
  "replyFor render req out = (case out of Ok m \<Rightarrow> m | Err er \<Rightarrow> errorResponse render req er | Panic \<Rightarrow> zeroMessage)"

lemma replyFor_simps [simp]: "replyFor render req (Ok m) = m" "replyFor render req (Err er) = errorResponse render req er"
  by (simp_all add: replyFor_def)

definition deliverable :: "(rcp_error \<Rightarrow> bytes) \<Rightarrow> Message \<Rightarrow> Message go \<Rightarrow> bool" where
  "deliverable render req out \<longleftrightarrow> out \<noteq> Panic \<and> (\<forall>er. out = Err er \<longrightarrow> \<not> silent er) \<and>
     encodable (replyFor render req out) \<and> TransactionNum (replyFor render req out) = TransactionNum req"

lemma Controller_Request_replied:
  fixes txn :: TransactionNum
  assumes "\<not> ct_closed c" "txn = ucast (nextTxn c + 1)" "req = requestMessage a txn control body" "encodable req"
    and "a \<noteq> EP0" "handlers r a = Some h" "h w (ct_streamID c) (wire_message req) = (w', out)" "deliverable render (wire_message req) out"
  shows "\<exists>c' srv'. Controller_Request render r (c, srv, w) a control body = ((c', srv', w'), Ok (wire_message (replyFor render (wire_message req) out)))"
proof -
  have req: "EVT (wire_message req) = 0" "ByteBusID (wire_message req) = a" "TransactionNum (wire_message req) = txn"
    using assms(3) by (simp_all add: wire_message_def requestMessage_def zeroMessage_def)
  have route: "Route render r w hdr (wire_message req) = (w', Ok (Some (replyFor render (wire_message req) out)))"
    if "\<not> Timed hdr" "HStreamID hdr = ct_streamID c" for hdr
    using that assms(5-8) req by (cases out) (simp_all add: Route_untimed handled_def deliverable_def)
  show ?thesis
    using exchange_routed [OF assms(1-4) route, of srv] assms(8) req(3) by (auto simp: deliverable_def dest: Controller_Request_exchange)
qed

text \<open>A request that fits reaches the handler of its endpoint, and the handler's response comes back.\<close>

lemma Controller_Request_handled:
  fixes txn :: TransactionNum
  assumes "\<not> ct_closed c" "txn = ucast (nextTxn c + 1)" "req = requestMessage a txn control body" "encodable req"
    and "a \<noteq> EP0" "handlers r a = Some h" "h w (ct_streamID c) (wire_message req) = (w', Ok m)"
    and "encodable m" "TransactionNum m = txn"
  shows "\<exists>c' srv'. Controller_Request render r (c, srv, w) a control body = ((c', srv', w'), Ok (wire_message m))"
  using Controller_Request_replied [OF assms(1-7), of render srv] assms(3,8,9)
  by (simp add: deliverable_def wire_message_def requestMessage_def)

end
