(* ===== verification/Firmware.thy ===== *)
theory Firmware
  imports Upstream Recording
begin

text \<open>
  The package \<open>firmware\<close>: the delivery of an image in chunks over a transport function, each chunk with the
  size, the offset and the checksum of the image, followed by a request to verify it. The loop over the
  chunks is a partial function, for a chunk size of zero would never end; that it ends for the sizes that
  \<open>NewUpdater\<close> lets through is proved. With \<open>Write\<close> of a \<open>udp.Controller\<close> as its transport an update is also
  bounded by the transaction numbers of the controller.
\<close>

section \<open>Chunks\<close>

definition MaxImageSize :: nat where "MaxImageSize = 4 * 2 ^ 20"
definition DefaultChunkSize :: int where "DefaultChunkSize = 256"

record ChunkPayload =
  TotalSize :: u32
  cp_Offset :: u32
  cp_CRC32 :: u32
  cp_Data :: bytes

definition ChunkPayload_Marshal :: "ChunkPayload \<Rightarrow> bytes" where
  "ChunkPayload_Marshal cp = put32 (TotalSize cp) @ put32 (cp_Offset cp) @ put32 (cp_CRC32 cp) @ cp_Data cp"

definition UnmarshalChunkPayload :: "bytes \<Rightarrow> ChunkPayload go" where
  "UnmarshalChunkPayload b =
     (if length b < 12 then Err (EBridge (BFirmware ErrPayloadTooShort_firmware))
      else andThen (get32 b 0) (\<lambda>t. andThen (get32 b 4) (\<lambda>off. andThen (get32 b 8) (\<lambda>crc.
        andThen (slice b 12 (length b)) (\<lambda>data.
        Ok \<lparr>TotalSize = t, cp_Offset = off, cp_CRC32 = crc, cp_Data = data\<rparr>)))))"

interpretation chunk: exact_codec ChunkPayload_Marshal UnmarshalChunkPayload "\<lambda>_. True"
proof
  show "UnmarshalChunkPayload (ChunkPayload_Marshal cp) = Ok cp" for cp
    by (simp add: UnmarshalChunkPayload_def ChunkPayload_Marshal_def put32_def)
  show "UnmarshalChunkPayload b \<noteq> Panic" for b
    by (simp add: UnmarshalChunkPayload_def)
  show "True \<and> ChunkPayload_Marshal cp = b" if "UnmarshalChunkPayload b = Ok cp" for b cp
  proof -
    have "12 \<le> length b" using that by (simp add: UnmarshalChunkPayload_def split: if_splits)
    then show ?thesis
      using that split_at_nths [of 12 b] by (auto simp: UnmarshalChunkPayload_def ChunkPayload_Marshal_def upt_rec eval_nat_numeral)
  qed
qed

section \<open>The updater\<close>

record Updater =
  up_ChunkSize :: int
  up_active :: bool

definition NewUpdater :: "int \<Rightarrow> Updater" where
  "NewUpdater chunkSize =
     \<lparr>up_ChunkSize = (if chunkSize \<le> 0 then DefaultChunkSize else chunkSize), up_active = False\<rparr>"

type_synonym 'w firmware_transport = "'w \<Rightarrow> bytes \<Rightarrow> 'w \<times> Message go"

text \<open>What \<open>Update\<close> makes of the answer to a chunk, and of that to the request to verify.\<close>

definition chunkAnswer :: "rcp_error \<Rightarrow> Message go \<Rightarrow> unit go" where
  "chunkAnswer rejected answer =
     (case answer of
        Err er \<Rightarrow> Err er
      | Panic \<Rightarrow> Panic
      | Ok resp \<Rightarrow> if Has (Control resp) FlagError then Err rejected else Ok ())"

partial_function (option) sendChunks ::
    "'w firmware_transport \<Rightarrow> bytes \<Rightarrow> u32 \<Rightarrow> u32 \<Rightarrow> nat \<Rightarrow> 'w \<Rightarrow> nat \<Rightarrow> ('w \<times> unit go) option" where
  "sendChunks transport img crc tot chunkSize w offset =
     (if offset < length img
      then
        let stop = (if offset + chunkSize > length img then length img else offset + chunkSize);
            chunk = take (stop - offset) (drop offset img);
            sent = transport w (ChunkPayload_Marshal
              \<lparr>TotalSize = tot, cp_Offset = word_of_nat offset, cp_CRC32 = crc, cp_Data = chunk\<rparr>);
            answer = chunkAnswer (EBridge (BFirmware ErrEndpointRejected)) (snd sent) in
        if answer = Ok () then sendChunks transport img crc tot chunkSize (fst sent) (offset + chunkSize)
        else Some (fst sent, answer)
      else Some (w, Ok ()))"

definition Update :: "Updater \<Rightarrow> 'w firmware_transport \<Rightarrow> 'w \<Rightarrow> bytes \<Rightarrow> ('w \<times> unit go) option" where
  "Update u transport w img =
     (if length img = 0 then Some (w, Err (EBridge (BFirmware ErrImageEmpty)))
      else if length img > MaxImageSize then Some (w, Err (EBridge (BFirmware ErrImageTooLarge)))
      else if up_active u then Some (w, Err (EBridge (BFirmware ErrUpdateInProgress)))
      else
        let crc = ChecksumIEEE img; tot = word_of_nat (length img) in
        case sendChunks transport img crc tot (nat (up_ChunkSize u)) w 0 of
          None \<Rightarrow> None
        | Some (w', Ok _) \<Rightarrow>
            (let sent = transport w' (ChunkPayload_Marshal \<lparr>TotalSize = tot, cp_Offset = tot, cp_CRC32 = crc, cp_Data = []\<rparr>)
             in Some (fst sent, chunkAnswer (EBridge (BFirmware ErrCRCMismatch_firmware)) (snd sent)))
        | Some stopped \<Rightarrow> Some stopped)"

section \<open>What is sent\<close>

text \<open>The payloads of a whole update, in order: one for each chunk, then the one that asks to verify.\<close>

definition chunkAt :: "bytes \<Rightarrow> nat \<Rightarrow> nat \<Rightarrow> bytes" where
  "chunkAt img n k = take n (drop (k * n) img)"

definition chunkCount :: "bytes \<Rightarrow> nat \<Rightarrow> nat" where
  "chunkCount img n = (length img + n - 1) div n"

definition chunkPayload :: "bytes \<Rightarrow> nat \<Rightarrow> nat \<Rightarrow> ChunkPayload" where
  "chunkPayload img n k = \<lparr>TotalSize = word_of_nat (length img), cp_Offset = word_of_nat (k * n),
     cp_CRC32 = ChecksumIEEE img, cp_Data = chunkAt img n k\<rparr>"

definition verifyPayload :: "bytes \<Rightarrow> ChunkPayload" where
  "verifyPayload img = \<lparr>TotalSize = word_of_nat (length img), cp_Offset = word_of_nat (length img),
     cp_CRC32 = ChecksumIEEE img, cp_Data = []\<rparr>"

lemma chunkCount_less: "0 < n \<Longrightarrow> k < chunkCount img n \<longleftrightarrow> k * n < length img"
proof -
  assume n: "0 < n"
  have "k < (length img + n - 1) div n \<longleftrightarrow> Suc k * n \<le> length img + n - 1"
    using n by (simp add: Suc_le_eq [symmetric] less_eq_div_iff_mult_less_eq del: mult_Suc)
  also have "\<dots> \<longleftrightarrow> k * n < length img" using n by auto
  finally show ?thesis by (simp add: chunkCount_def)
qed

lemma concat_chunks: "0 < n \<Longrightarrow> concat (map (chunkAt img n) [0..<chunkCount img n]) = img"
proof -
  assume n: "0 < n"
  have "concat (map (chunkAt img n) [0..<k]) = take (k * n) img" for k
    by (induction k) (simp_all add: chunkAt_def take_add [symmetric] add.commute)
  moreover have "length img \<le> chunkCount img n * n" using chunkCount_less [OF n, of "chunkCount img n" img] by simp
  ultimately show ?thesis by simp
qed

text \<open>A transport with the list of what it was given.\<close>

definition traced :: "'w firmware_transport \<Rightarrow> ('w \<times> bytes list) firmware_transport" where
  "traced tr s b = ((fst (tr (fst s) b), snd s @ [b]), snd (tr (fst s) b))"

lemma sendChunks_step:
  assumes "k * n < length img"
    "b = ChunkPayload_Marshal \<lparr>TotalSize = tot, cp_Offset = word_of_nat (k * n), cp_CRC32 = crc, cp_Data = chunkAt img n k\<rparr>"
    "ans = chunkAnswer (EBridge (BFirmware ErrEndpointRejected)) (snd (tr w b))"
  shows "sendChunks tr img crc tot n w (k * n) =
    (if ans = Ok () then sendChunks tr img crc tot n (fst (tr w b)) (Suc k * n) else Some (fst (tr w b), ans))"
  using assms by (subst sendChunks.simps) (simp add: Let_def chunkAt_def min_def add.commute)

lemma sendChunks_traced:
  assumes "0 < n" "k \<le> chunkCount img n"
  shows "\<exists>w' j res. sendChunks (traced tr) img (ChecksumIEEE img) (word_of_nat (length img)) n (w, log) (k * n) =
      Some ((w', log @ map (ChunkPayload_Marshal \<circ> chunkPayload img n) [k..<j]), res) \<and>
    k \<le> j \<and> j \<le> chunkCount img n \<and> (res = Ok () \<longrightarrow> j = chunkCount img n)"
  using assms(2)
proof (induction "chunkCount img n - k" arbitrary: k w log)
  case 0
  then have "\<not> k * n < length img" using chunkCount_less [OF assms(1), of k img] by auto
  then show ?case using 0 by (subst sendChunks.simps) auto
next
  case (Suc d)
  then have lt: "k * n < length img" using chunkCount_less [OF assms(1), of k img] by auto
  let ?p = "ChunkPayload_Marshal (chunkPayload img n k)"
  let ?ans = "chunkAnswer (EBridge (BFirmware ErrEndpointRejected)) (snd (tr w ?p))"
  have step: "sendChunks (traced tr) img (ChecksumIEEE img) (word_of_nat (length img)) n (w, log) (k * n) =
    (if ?ans = Ok ()
     then sendChunks (traced tr) img (ChecksumIEEE img) (word_of_nat (length img)) n (fst (tr w ?p), log @ [?p]) (Suc k * n)
     else Some ((fst (tr w ?p), log @ [?p]), ?ans))"
    using sendChunks_step [OF lt refl refl, of "traced tr" "ChecksumIEEE img" "word_of_nat (length img)" "(w, log)"]
    by (simp add: traced_def chunkPayload_def)
  show ?case
  proof (cases "?ans = Ok ()")
    case True
    obtain w' j res where ih: "sendChunks (traced tr) img (ChecksumIEEE img) (word_of_nat (length img)) n
        (fst (tr w ?p), log @ [?p]) (Suc k * n) =
      Some ((w', (log @ [?p]) @ map (ChunkPayload_Marshal \<circ> chunkPayload img n) [Suc k..<j]), res)"
      "Suc k \<le> j" "j \<le> chunkCount img n" "res = Ok () \<longrightarrow> j = chunkCount img n"
      using Suc.hyps(1) [of "Suc k" "fst (tr w ?p)" "log @ [?p]"] Suc.hyps(2) by fastforce
    then have "[k..<j] = k # [Suc k..<j]" by (simp add: upt_conv_Cons)
    then show ?thesis using ih True by (intro exI [of _ w'] exI [of _ j] exI [of _ res]) (simp add: step)
  next
    case False
    then show ?thesis
      using Suc.hyps(2) by (intro exI [of _ "fst (tr w ?p)"] exI [of _ "Suc k"] exI [of _ ?ans]) (simp add: step)
  qed
qed

lemma Update_new:
  assumes "img \<noteq> []" "length img \<le> MaxImageSize" "n = nat (up_ChunkSize (NewUpdater cs))"
    "sendChunks tr img (ChecksumIEEE img) (word_of_nat (length img)) n w 0 = Some (w', res)"
  shows "Update (NewUpdater cs) tr w img = Some (if res = Ok ()
    then (let sent = tr w' (ChunkPayload_Marshal (verifyPayload img)) in
          (fst sent, chunkAnswer (EBridge (BFirmware ErrCRCMismatch_firmware)) (snd sent)))
    else (w', res))"
proof -
  have "\<not> up_active (NewUpdater cs)" by (simp add: NewUpdater_def)
  then show ?thesis
    using assms by (cases res) (simp_all add: Update_def Let_def assms(3) [symmetric] verifyPayload_def)
qed

text \<open>C26: an update sends the image. For any chunk size, any image of at most 4 MiB and any transport, \<open>Update\<close> of a
  new updater returns. What it sent is a beginning of the payloads of the chunks in order followed by the payload that
  asks to verify, and all of them when it returns no error; each payload decodes to what was sent, and the data of the
  chunks joined is the image.\<close>

theorem firmware_update_sends_image:
  assumes "img \<noteq> []" "length img \<le> MaxImageSize" "n = nat (up_ChunkSize (NewUpdater cs))"
    "payloads = map (chunkPayload img n) [0..<chunkCount img n] @ [verifyPayload img]"
  shows "\<exists>w' log res. Update (NewUpdater cs) (traced tr) (w, []) img = Some ((w', log), res) \<and>
    (\<exists>j. log = take j (map ChunkPayload_Marshal payloads)) \<and>
    (res = Ok () \<longrightarrow> log = map ChunkPayload_Marshal payloads) \<and>
    map UnmarshalChunkPayload (map ChunkPayload_Marshal payloads) = map Ok payloads \<and>
    concat (map cp_Data payloads) = img"
proof -
  have n: "0 < n" using assms(3) by (simp add: NewUpdater_def DefaultChunkSize_def)
  let ?c = "chunkCount img n" and ?f = "ChunkPayload_Marshal \<circ> chunkPayload img n"
  obtain w1 j res where s: "sendChunks (traced tr) img (ChecksumIEEE img) (word_of_nat (length img)) n (w, []) 0 =
      Some ((w1, map ?f [0..<j]), res)" "j \<le> ?c" "res = Ok () \<longrightarrow> j = ?c"
    using sendChunks_traced [OF n, of 0 img tr w "[]"] by auto
  have all: "map ChunkPayload_Marshal payloads = map ?f [0..<?c] @ [ChunkPayload_Marshal (verifyPayload img)]"
    by (simp add: assms(4))
  have "concat (map cp_Data payloads) = img"
    using concat_chunks [OF n, of img] by (simp add: assms(4) verifyPayload_def chunkPayload_def comp_def)
  moreover have "map UnmarshalChunkPayload (map ChunkPayload_Marshal payloads) = map Ok payloads"
    by (simp add: chunk.dec_enc)
  moreover have "\<exists>w' log res. Update (NewUpdater cs) (traced tr) (w, []) img = Some ((w', log), res) \<and>
    (\<exists>j. log = take j (map ChunkPayload_Marshal payloads)) \<and> (res = Ok () \<longrightarrow> log = map ChunkPayload_Marshal payloads)"
  proof (cases "res = Ok ()")
    case True
    let ?v = "ChunkPayload_Marshal (verifyPayload img)"
    have "Update (NewUpdater cs) (traced tr) (w, []) img = Some ((fst (tr w1 ?v), map ?f [0..<?c] @ [?v]),
        chunkAnswer (EBridge (BFirmware ErrCRCMismatch_firmware)) (snd (tr w1 ?v)))"
      using Update_new [OF assms(1-3) s(1)] True s(3) by (simp add: traced_def Let_def)
    moreover have "map ?f [0..<?c] @ [?v] = take (Suc ?c) (map ChunkPayload_Marshal payloads)" by (simp add: all)
    ultimately show ?thesis using all by metis
  next
    case False
    have "map ?f [0..<j] = take j (map ChunkPayload_Marshal payloads)" using s(2) by (simp add: all take_map)
    moreover have "Update (NewUpdater cs) (traced tr) (w, []) img = Some ((w1, map ?f [0..<j]), res)"
      using Update_new [OF assms(1-3) s(1)] False by simp
    ultimately show ?thesis using False by blast
  qed
  ultimately show ?thesis by blast
qed

theorem firmware_update_sends_image_witness:
  "\<exists>w' log res. Update (NewUpdater 2) (traced (\<lambda>w b. (w, Ok zeroMessage))) ((), []) [1, 2, 3] = Some ((w', log), res) \<and>
    (res = Ok () \<longrightarrow> length log = 3)"
proof -
  have "chunkCount [1, 2, 3] 2 = 2" by (simp add: chunkCount_def)
  then show ?thesis
    using firmware_update_sends_image [of "[1, 2, 3]" 2 2 _ "\<lambda>w b. (w, Ok zeroMessage)" "()", OF _ _ _ refl]
    by (fastforce simp: NewUpdater_def MaxImageSize_def)
qed

section \<open>Updates over a controller\<close>

definition overController :: "(rcp_error \<Rightarrow> bytes) \<Rightarrow> 'w Router \<Rightarrow> u16 \<Rightarrow> (Controller \<times> UdpServer \<times> 'w) firmware_transport" where
  "overController render r a s b = Controller_Write (Controller_Request render r) s a b"

lemma overController_counts:
  assumes "overController render r a s b = (s', res)" "\<not> ct_closed (fst s)" "nextTxn (fst s) = word_of_nat k" "k \<le> 255"
  shows "nextTxn (fst s') = word_of_nat (Suc k) \<and> \<not> ct_closed (fst s') \<and> (chunkAnswer er res = Ok () \<longrightarrow> k < 255)"
proof -
  obtain c srv w c' srv' w' where s: "s = (c, srv, w)" "s' = (c', srv', w')" by (cases s; cases s') auto
  have txn: "nextTxn c + 1 = word_of_nat (Suc k)" using assms(3) s by simp
  have "unat (ucast (word_of_nat (Suc k) :: u32) :: TransactionNum) = Suc k"
    using assms(4) by (simp add: unsigned_ucast_eq unsigned_of_nat take_bit_nat_eq_self del: of_nat_Suc)
  then have "encodable (requestMessage a (ucast (nextTxn c + 1)) FlagWrite b) \<Longrightarrow> k < 255"
    unfolding txn by (simp add: encodable_def requestMessage_def maxTransactionNum_def)
  then show ?thesis
    using Controller_Request_counts [of render r c srv w a FlagWrite b c' srv' w' res] assms(1,2) s txn
    by (auto simp: overController_def Controller_Write_def chunkAnswer_def)
qed

lemma sendChunks_overController:
  assumes "0 < n" "k \<le> 255" "k \<le> chunkCount img n" "\<not> ct_closed (fst s)" "nextTxn (fst s) = word_of_nat k"
  shows "\<exists>s' res. sendChunks (overController render r a) img crc tot n s (k * n) = Some (s', res) \<and>
    (res = Ok () \<longrightarrow> chunkCount img n \<le> 255 \<and> \<not> ct_closed (fst s') \<and> nextTxn (fst s') = word_of_nat (chunkCount img n))"
  using assms(2-)
proof (induction "chunkCount img n - k" arbitrary: k s)
  case 0
  then have "\<not> k * n < length img" using chunkCount_less [OF assms(1), of k img] by auto
  then show ?case using 0 by (subst sendChunks.simps) auto
next
  case (Suc d)
  then have lt: "k * n < length img" using chunkCount_less [OF assms(1), of k img] by auto
  let ?rej = "EBridge (BFirmware ErrEndpointRejected)"
  define b where "b = ChunkPayload_Marshal
    \<lparr>TotalSize = tot, cp_Offset = word_of_nat (k * n), cp_CRC32 = crc, cp_Data = chunkAt img n k\<rparr>"
  obtain s1 ans where step: "overController render r a s b = (s1, ans)" by fastforce
  have one: "nextTxn (fst s1) = word_of_nat (Suc k) \<and> \<not> ct_closed (fst s1) \<and> (chunkAnswer ?rej ans = Ok () \<longrightarrow> k < 255)"
    by (rule overController_counts [OF step Suc.prems(3,4,1)])
  have go: "sendChunks (overController render r a) img crc tot n s (k * n) =
    (if chunkAnswer ?rej ans = Ok () then sendChunks (overController render r a) img crc tot n s1 (Suc k * n)
     else Some (s1, chunkAnswer ?rej ans))"
    using sendChunks_step [OF lt b_def refl, of "overController render r a" s] unfolding step by simp
  show ?case
  proof (cases "chunkAnswer ?rej ans = Ok ()")
    case True
    then show ?thesis using Suc.hyps(1) [of "Suc k" s1] Suc.hyps(2) one go by auto
  qed (simp add: go del: split_paired_Ex)
qed

text \<open>C25: a controller carries at most 254 chunks. When an image has more chunks than that, an update over \<open>Write\<close> of a
  new controller always returns an error, whatever the server answers: the controller has no transaction number left
  for the chunk after the 255th request. With the default chunk size this is every image of more than 65024 octets,
  although \<open>MaxImageSize\<close> allows for 4194304.\<close>

theorem firmware_over_controller_bounded:
  assumes "img \<noteq> []" "length img \<le> MaxImageSize" "n = nat (up_ChunkSize (NewUpdater cs))"
    and "254 * n < length img"
  shows "\<exists>s' res. Update (NewUpdater cs) (overController render r a) (NewController sid, srv, w) img = Some (s', res) \<and> res \<noteq> Ok ()"
proof -
  have n: "0 < n" using assms(3) by (simp add: NewUpdater_def DefaultChunkSize_def)
  let ?s = "(NewController sid, srv, w)" and ?tot = "word_of_nat (length img)"
  have c: "254 < chunkCount img n" using chunkCount_less [OF n] assms(4) by simp
  have new: "\<not> ct_closed (fst ?s)" "nextTxn (fst ?s) = word_of_nat 0" by (simp_all add: NewController_def)
  obtain s1 res where s: "sendChunks (overController render r a) img (ChecksumIEEE img) ?tot n ?s 0 = Some (s1, res)"
    "res = Ok () \<longrightarrow> chunkCount img n \<le> 255 \<and> \<not> ct_closed (fst s1) \<and> nextTxn (fst s1) = word_of_nat (chunkCount img n)"
    using sendChunks_overController [OF n _ _ new, of img render r a "ChecksumIEEE img" ?tot] unfolding mult_0
    by (elim meta_impE exE conjE) (rule le0 | erule (1) that)+
  show ?thesis
  proof (cases "res = Ok ()")
    case True
    then have "chunkCount img n = 255" using s(2) c by simp
    then have k: "\<not> ct_closed (fst s1)" "nextTxn (fst s1) = word_of_nat 255" using s(2) True by simp_all
    obtain s2 ans where v: "overController render r a s1 (ChunkPayload_Marshal (verifyPayload img)) = (s2, ans)" by fastforce
    then have "chunkAnswer (EBridge (BFirmware ErrCRCMismatch_firmware)) ans \<noteq> Ok ()"
      using overController_counts [OF v k, of "EBridge (BFirmware ErrCRCMismatch_firmware)"] by auto
    then show ?thesis
      using True v Update_new [OF assms(1-3) s(1)] by (simp add: Let_def del: split_paired_Ex)
  next
    case False
    then show ?thesis
      using Update_new [OF assms(1-3) s(1)] by (simp del: split_paired_Ex)
  qed
qed

theorem firmware_over_controller_bounded_witness:
  "\<exists>s' res. Update (NewUpdater 0) (overController (\<lambda>_. []) echoRouter 4) (NewController clientID, \<lparr>us_streamID = clientID, us_seq = 0, us_encapSeq = 0\<rparr>, 0) (replicate 65025 0) =
    Some (s', res) \<and> res \<noteq> Ok ()"
  by (rule firmware_over_controller_bounded [OF _ _ refl])
    (simp_all add: MaxImageSize_def NewUpdater_def DefaultChunkSize_def)

end
