(* ===== verification/Linbr.thy ===== *)
theory Linbr
  imports Upstream Lin Can
begin

text \<open>
  The packages \<open>linbr\<close> and \<open>canbr\<close>: LIN frames with protected identifier and checksum, the schedule table of a
  commander, and the clients that send LIN and CAN frames through a controller. The sum of the checksum is
  proved to be the sum of the octets modulo 255, which tells exactly which changes of one octet it detects.
\<close>

section \<open>LIN frames\<close>

type_synonym ChecksumKind = u8

definition ChecksumClassic :: ChecksumKind where "ChecksumClassic = 0"
definition ChecksumEnhanced :: ChecksumKind where "ChecksumEnhanced = 1"

definition protectedID :: "u8 \<Rightarrow> u8" where
  "protectedID id0 =
     (let i = id0 AND 0x3F;
          p0 = (drop_bit 0 i XOR drop_bit 1 i XOR drop_bit 2 i XOR drop_bit 4 i) AND 1;
          p1 = NOT (drop_bit 1 i XOR drop_bit 3 i XOR drop_bit 4 i XOR drop_bit 5 i) AND 1 in
      i OR push_bit 6 p0 OR push_bit 7 p1)"

fun checksumLoop :: "nat \<Rightarrow> bytes \<Rightarrow> nat" where
  "checksumLoop s [] = s"
| "checksumLoop s (b # bs) =
     (let s' = s + unat b in checksumLoop (if s' > 0xFF then s' - 0xFF else s') bs)"

definition lin_checksum :: "ChecksumKind \<Rightarrow> u8 \<Rightarrow> bytes \<Rightarrow> u8" where
  "lin_checksum kind pid data =
     word_of_nat (0xFF - checksumLoop (if kind = ChecksumEnhanced then unat pid else 0) data)"

record LinFrame =
  lf_ID :: u8
  lf_Data :: bytes
  lf_Checksum :: ChecksumKind

definition lin_EncodeFrame :: "LinFrame \<Rightarrow> bytes go" where
  "lin_EncodeFrame f =
     (if length (lf_Data f) > 8 then Err (EBridge (BLinbr ErrDataTooLong_linbr))
      else let pid = protectedID (lf_ID f) in Ok ([pid] @ lf_Data f @ [lin_checksum (lf_Checksum f) pid (lf_Data f)]))"

definition lin_DecodeFrame :: "bytes \<Rightarrow> ChecksumKind \<Rightarrow> LinFrame go" where
  "lin_DecodeFrame b kind =
     (if length b < 2 then Err (EBridge (BLinbr ErrFrameTooShort_linbr))
      else
        andThen (idx b 0) (\<lambda>pid.
        andThen (slice b 1 (length b - 1)) (\<lambda>data.
        let want = lin_checksum kind pid data in
        andThen (idx b (length b - 1)) (\<lambda>got.
        if want \<noteq> got then Err (EBridge (BLinbr ErrChecksumMismatch_linbr))
        else Ok \<lparr>lf_ID = pid AND 0x3F, lf_Data = data, lf_Checksum = kind\<rparr>))))"

section \<open>The schedule\<close>

record ScheduleEntry =
  se_ID :: u8
  se_Checksum :: ChecksumKind
  DelaySlots :: u32

record ScheduleTable =
  st_entries :: "ScheduleEntry list"
  st_next :: nat

definition NewScheduleTable :: "ScheduleEntry list \<Rightarrow> ScheduleTable" where
  "NewScheduleTable es = \<lparr>st_entries = es, st_next = 0\<rparr>"

definition ScheduleTable_Next :: "ScheduleTable \<Rightarrow> (ScheduleTable \<times> ScheduleEntry option) go" where
  "ScheduleTable_Next s =
     (if length (st_entries s) = 0 then Ok (s, None)
      else andThen (idx (st_entries s) (st_next s)) (\<lambda>e.
        Ok (s\<lparr>st_next := (st_next s + 1) mod length (st_entries s)\<rparr>, Some e)))"

definition ScheduleTable_Reset :: "ScheduleTable \<Rightarrow> ScheduleTable" where
  "ScheduleTable_Reset s = s\<lparr>st_next := 0\<rparr>"

section \<open>The clients\<close>

definition linbr_Transfer :: "'w request \<Rightarrow> u16 \<Rightarrow> 'w \<Rightarrow> LinFrame \<Rightarrow> 'w \<times> LinFrame go" where
  "linbr_Transfer request a w f =
     (case lin_EncodeFrame f of
        Err er \<Rightarrow> (w, Err er)
      | Panic \<Rightarrow> (w, Panic)
      | Ok tx \<Rightarrow>
          (case Controller_Write request w a (lin_EncodeTransferRequest tx) of
             (w', Err er) \<Rightarrow> (w', Err er)
           | (w', Panic) \<Rightarrow> (w', Panic)
           | (w', Ok resp) \<Rightarrow>
               (w', if Has (Control resp) FlagError then Err (EBridge (BLinbr (ErrTransfer_linbr (Body resp))))
                    else lin_DecodeFrame (lin_DecodeTransferResponse (Body resp)) (lf_Checksum f))))"

definition canbr_decodeResponse :: "Message \<Rightarrow> CanFrame go" where
  "canbr_decodeResponse resp =
     (if Has (Control resp) FlagError then Err (EBridge (BCanbr ErrNotAResponse))
      else case can_DecodeFrame (Body resp) of
             Err er \<Rightarrow> Err (EWrap (EBridge (BCanbr ErrNotAResponse)) (DText er))
           | Panic \<Rightarrow> Panic
           | Ok f \<Rightarrow> Ok f)"

definition canbr_Send :: "'w request \<Rightarrow> u16 \<Rightarrow> 'w \<Rightarrow> CanFrame \<Rightarrow> 'w \<times> CanFrame go" where
  "canbr_Send request a w f =
     (case CanFrame_Validate f of
        Some er \<Rightarrow> (w, Err er)
      | None \<Rightarrow>
          (case Controller_Write request w a (can_EncodeFrame f) of
             (w', Err er) \<Rightarrow> (w', Err er)
           | (w', Panic) \<Rightarrow> (w', Panic)
           | (w', Ok resp) \<Rightarrow> (w', canbr_decodeResponse resp)))"

definition canbr_Receive :: "'w request \<Rightarrow> u16 \<Rightarrow> 'w \<Rightarrow> 'w \<times> CanFrame go" where
  "canbr_Receive request a w =
     (case Controller_Read request w a of
        (w', Err er) \<Rightarrow> (w', Err er)
      | (w', Panic) \<Rightarrow> (w', Panic)
      | (w', Ok resp) \<Rightarrow> (w', canbr_decodeResponse resp))"

section \<open>The identifier and the checksum\<close>

text \<open>The equations of the parity bits.\<close>

lemma protectedID_bits:
  "protectedID i AND 0x3F = i AND 0x3F"
  "bit (protectedID i) 6 = (bit i 0 \<noteq> (bit i 1 \<noteq> (bit i 2 \<noteq> bit i 4)))"
  "bit (protectedID i) 7 = (\<not> (bit i 1 \<noteq> (bit i 3 \<noteq> (bit i 4 \<noteq> bit i 5))))"
  by (simp_all add: protectedID_def Let_def u8_bits)

lemma unat_u8_le: "unat (b :: u8) \<le> 255"
  using unsigned_less [of b, where ?'a = nat] by simp

lemma complement_eq: "m \<le> 255 \<Longrightarrow> n \<le> 255 \<Longrightarrow> (word_of_nat (255 - m) :: u8) = word_of_nat (255 - n) \<longleftrightarrow> m = n"
proof -
  assume m: "m \<le> 255" "n \<le> 255"
  have "unat (word_of_nat k :: u8) = k" if "k \<le> 255" for k using that by (simp add: unat_of_nat take_bit_nat_eq_self)
  from this [of "255 - m"] this [of "255 - n"] show ?thesis
    using m by (metis diff_diff_cancel diff_le_self)
qed

text \<open>The end-around carry keeps the sum in one octet and modulo 255; it is zero only for zeros.\<close>

lemma checksumLoop_sum:
  "s \<le> 255 \<Longrightarrow> checksumLoop s bs \<le> 255 \<and> checksumLoop s bs mod 255 = (s + sum_list (map unat bs)) mod 255 \<and>
     (checksumLoop s bs = 0 \<longleftrightarrow> s = 0 \<and> (\<forall>b\<in>set bs. b = 0))"
proof (induction bs arbitrary: s)
  case (Cons b bs)
  let ?s = "if s + unat b > 255 then s + unat b - 255 else s + unat b"
  have b: "unat b \<le> 255" by (rule unat_u8_le)
  then have le: "?s \<le> 255" using Cons.prems by auto
  have "?s mod 255 = (s + unat b) mod 255" by (simp add: le_mod_geq [symmetric])
  then have "(?s + sum_list (map unat bs)) mod 255 = (s + (unat b + sum_list (map unat bs))) mod 255"
    by (metis add.assoc mod_add_left_eq)
  moreover have "?s = 0 \<longleftrightarrow> s = 0 \<and> b = 0" by (auto simp: unat_eq_0)
  ultimately show ?case using Cons.IH [OF le] by (auto simp: Let_def)
qed simp

lemma mod255_cancel: "((x :: nat) + r) mod 255 = (y + r) mod 255 \<Longrightarrow> x mod 255 = y mod 255"
proof -
  assume "(x + r) mod 255 = (y + r) mod 255"
  then have "((x + r) + 254 * r) mod 255 = ((y + r) + 254 * r) mod 255" by (metis mod_add_left_eq)
  then show ?thesis by (simp add: add.assoc)
qed

text \<open>Only the octets \<open>0x00\<close> and \<open>0xFF\<close> are equal modulo 255.\<close>

lemma mod255_bytes: "unat (a :: u8) mod 255 = unat (b :: u8) mod 255 \<Longrightarrow> a = b \<or> {a, b} = {0, 0xFF}"
proof -
  assume *: "unat a mod 255 = unat b mod 255"
  have "unat a = unat b \<or> (unat a = 0 \<and> unat b = 255) \<or> (unat a = 255 \<and> unat b = 0)"
    using * unat_u8_le [of a] unat_u8_le [of b] by (cases "unat a = 255"; cases "unat b = 255") auto
  moreover have "x = 0xFF" if "unat x = 255" for x :: u8 using that by (simp add: word_unat_eq_iff)
  ultimately show ?thesis by (auto simp: unat_eq_0 insert_commute word_unat_eq_iff [symmetric])
qed

text \<open>The decoder on an octet for the identifier, data and an octet for the checksum.\<close>

lemma lin_DecodeFrame_parts: "lin_DecodeFrame (p # data @ [c]) kind =
  (if lin_checksum kind p data \<noteq> c then Err (EBridge (BLinbr ErrChecksumMismatch_linbr))
   else Ok \<lparr>lf_ID = p AND 0x3F, lf_Data = data, lf_Checksum = kind\<rparr>)"
  by (simp add: lin_DecodeFrame_def nth_append)

text \<open>Equal checksums mean equal sums modulo 255; the enhanced one counts the identifier octet.\<close>

lemma lin_checksum_sums:
  defines "s kind p \<equiv> if kind = ChecksumEnhanced then unat (p :: u8) else 0"
  assumes "lin_checksum kind p d = lin_checksum kind p' d'"
  shows "(s kind p + sum_list (map unat d)) mod 255 = (s kind p' + sum_list (map unat d')) mod 255"
proof -
  have s: "s kind q \<le> 255" for q by (simp add: s_def unat_u8_le)
  note sums = checksumLoop_sum [OF s [of p], of d] checksumLoop_sum [OF s [of p'], of d']
  have "lin_checksum kind q e = word_of_nat (0xFF - checksumLoop (s kind q) e)" for q e
    by (simp add: lin_checksum_def s_def)
  then have "checksumLoop (s kind p) d = checksumLoop (s kind p') d'"
    using assms(2) sums by (metis complement_eq)
  then show ?thesis using sums by metis
qed

lemma lin_checksum_data_octet:
  assumes "lin_checksum kind p (xs @ y # ys) = lin_checksum kind p (xs @ x # ys)"
  shows "x = y \<or> {x, y} = {0, 0xFF}"
proof -
  let ?s = "if kind = ChecksumEnhanced then unat p else 0"
  have "unat y mod 255 = unat x mod 255"
    using lin_checksum_sums [OF assms] mod255_cancel [of "unat y" "?s + sum_list (map unat xs) + sum_list (map unat ys)" "unat x"]
    by (simp add: add_ac)
  then show ?thesis using mod255_bytes [of y x] by (auto simp: insert_commute)
qed

lemma lin_checksum_identifier_octet:
  assumes "lin_checksum ChecksumEnhanced p d = lin_checksum ChecksumEnhanced p' d"
  shows "p = p' \<or> {p, p'} = {0, 0xFF}"
proof -
  have "(unat p + sum_list (map unat d)) mod 255 = (unat p' + sum_list (map unat d)) mod 255"
    using lin_checksum_sums [OF assms] by simp
  then show ?thesis by (rule mod255_bytes [OF mod255_cancel])
qed

lemma lin_checksum_classic: "kind \<noteq> ChecksumEnhanced \<Longrightarrow> lin_checksum kind p d = lin_checksum kind p' d"
  by (simp add: lin_checksum_def)

text \<open>LIN frames are read back, and a damaged octet is noticed. A frame with at most eight octets of data decodes,
  under the kind of checksum it was encoded with, to itself with its identifier in six bits; more data is refused by
  the encoder. If one octet of the data of an encoded frame is replaced by another, the decoder refuses the frame with
  a checksum mismatch, except that \<open>0x00\<close> and \<open>0xFF\<close> may be taken for each other; a replaced checksum is always
  refused. With the enhanced checksum a replaced identifier octet is refused in the same way; with the classic one it
  is accepted for the frame of another identifier.\<close>

theorem linbr_frame_checks:
  assumes "lin_EncodeFrame f = Ok b" "pid = protectedID (lf_ID f)" "sum_octet = lin_checksum (lf_Checksum f) pid (lf_Data f)"
  shows "b = pid # lf_Data f @ [sum_octet] \<and>
    lin_DecodeFrame b (lf_Checksum f) = Ok (f\<lparr>lf_ID := lf_ID f AND 0x3F\<rparr>) \<and>
    (\<forall>xs x ys y. lf_Data f = xs @ x # ys \<and> x \<noteq> y \<and> {x, y} \<noteq> {0, 0xFF} \<longrightarrow>
       lin_DecodeFrame (pid # xs @ y # ys @ [sum_octet]) (lf_Checksum f) = Err (EBridge (BLinbr ErrChecksumMismatch_linbr))) \<and>
    (\<forall>c. c \<noteq> sum_octet \<longrightarrow>
       lin_DecodeFrame (pid # lf_Data f @ [c]) (lf_Checksum f) = Err (EBridge (BLinbr ErrChecksumMismatch_linbr))) \<and>
    (\<forall>p. p \<noteq> pid \<and> {p, pid} \<noteq> {0, 0xFF} \<longrightarrow>
       lin_DecodeFrame (p # lf_Data f @ [sum_octet]) (lf_Checksum f) =
         (if lf_Checksum f = ChecksumEnhanced then Err (EBridge (BLinbr ErrChecksumMismatch_linbr))
          else Ok (f\<lparr>lf_ID := p AND 0x3F\<rparr>)))"
proof -
  have b: "b = pid # lf_Data f @ [sum_octet]"
    using assms by (auto simp: lin_EncodeFrame_def Let_def split: if_splits)
  have "pid AND 0x3F = lf_ID f AND 0x3F" using assms(2) protectedID_bits(1) by simp
  then have ok: "lin_DecodeFrame b (lf_Checksum f) = Ok (f\<lparr>lf_ID := lf_ID f AND 0x3F\<rparr>)"
    by (simp add: b lin_DecodeFrame_parts assms(3))
  have bad: "lin_DecodeFrame (pid # xs @ y # ys @ [sum_octet]) (lf_Checksum f) = Err (EBridge (BLinbr ErrChecksumMismatch_linbr))"
    if "lf_Data f = xs @ x # ys \<and> x \<noteq> y \<and> {x, y} \<noteq> {0, 0xFF}" for xs x ys y
    using lin_checksum_data_octet [of "lf_Checksum f" pid xs y ys x] that assms(3)
      lin_DecodeFrame_parts [of pid "xs @ y # ys" sum_octet "lf_Checksum f"] by auto
  have ident: "lin_DecodeFrame (p # lf_Data f @ [sum_octet]) (lf_Checksum f) =
      (if lf_Checksum f = ChecksumEnhanced then Err (EBridge (BLinbr ErrChecksumMismatch_linbr)) else Ok (f\<lparr>lf_ID := p AND 0x3F\<rparr>))"
    if "p \<noteq> pid \<and> {p, pid} \<noteq> {0, 0xFF}" for p
    using lin_checksum_identifier_octet [of p "lf_Data f" pid] lin_checksum_classic [of "lf_Checksum f" p "lf_Data f" pid] that
    by (auto simp: lin_DecodeFrame_parts assms(3))
  have sum: "lin_DecodeFrame (pid # lf_Data f @ [c]) (lf_Checksum f) = Err (EBridge (BLinbr ErrChecksumMismatch_linbr))"
    if "c \<noteq> sum_octet" for c
    using that by (simp add: lin_DecodeFrame_parts assms(3) [symmetric])
  show ?thesis
    by (intro conjI allI impI; (rule b | rule ok | erule bad | erule sum | erule ident))
qed

theorem linbr_frame_checks_witness:
  "lin_EncodeFrame \<lparr>lf_ID = 0x10, lf_Data = [1, 2], lf_Checksum = ChecksumClassic\<rparr> = Ok [0x50, 1, 2, 0xFC] \<and>
   lin_DecodeFrame [0x50, 1, 3, 0xFC] ChecksumClassic = Err (EBridge (BLinbr ErrChecksumMismatch_linbr))"
proof -
  let ?f = "\<lparr>lf_ID = 0x10, lf_Data = [1, 2], lf_Checksum = ChecksumClassic\<rparr>"
  have p: "protectedID 0x10 = 0x50" by (simp add: protectedID_def)
  have c: "lin_checksum ChecksumClassic 0x50 [1, 2] = 0xFC"
    by (simp add: lin_checksum_def ChecksumClassic_def ChecksumEnhanced_def)
  have e: "lin_EncodeFrame ?f = Ok [0x50, 1, 2, 0xFC]" by (simp add: lin_EncodeFrame_def p c)
  have "lf_Data ?f = [1] @ 2 # [] \<and> (2 :: u8) \<noteq> 3 \<and> {2 :: u8, 3} \<noteq> {0, 0xFF}" by (auto simp: doubleton_eq_iff)
  then have "lin_DecodeFrame (0x50 # [1] @ 3 # [] @ [0xFC]) (lf_Checksum ?f) = Err (EBridge (BLinbr ErrChecksumMismatch_linbr))"
    using linbr_frame_checks [OF e, of "0x50" "0xFC"] p c by (metis LinFrame.select_convs)
  then show ?thesis using e by simp
qed

section \<open>The schedule goes round\<close>

text \<open>The slots that the next calls of \<open>Next\<close> return.\<close>

fun slots :: "nat \<Rightarrow> ScheduleTable \<Rightarrow> (ScheduleTable \<times> ScheduleEntry option list) go" where
  "slots 0 s = Ok (s, [])"
| "slots (Suc n) s = andThen (ScheduleTable_Next s) (\<lambda>(s', e). andThen (slots n s') (\<lambda>(s'', es). Ok (s'', e # es)))"

lemma slots_from:
  assumes "es \<noteq> []" "k < length es"
  shows "slots n \<lparr>st_entries = es, st_next = k\<rparr> =
    Ok (\<lparr>st_entries = es, st_next = (k + n) mod length es\<rparr>, map (\<lambda>i. Some (es ! ((k + i) mod length es))) [0..<n])"
  using assms(2)
proof (induction n arbitrary: k)
  case (Suc n)
  have "(k + 1) mod length es < length es" using assms(1) by simp
  from Suc.IH [OF this] show ?case
    using Suc.prems assms(1)
    by (simp add: ScheduleTable_Next_def upt_conv_Cons map_Suc_upt [symmetric] mod_simps del: upt_Suc)
qed simp

text \<open>A table never panics and returns its slots in turn, again from the first one after a reset.\<close>

lemma schedule_round_robin:
  "es \<noteq> [] \<Longrightarrow> \<exists>s. slots n (NewScheduleTable es) = Ok (s, map (\<lambda>i. Some (es ! (i mod length es))) [0..<n]) \<and>
     ScheduleTable_Reset s = NewScheduleTable es"
  using slots_from [of es 0 n] by (simp add: NewScheduleTable_def ScheduleTable_Reset_def)

section \<open>The clients over an endpoint that echoes\<close>

text \<open>A frame sent to an endpoint that answers with the body it was sent comes back as it was.\<close>

lemma linbr_Transfer_echo:
  assumes "length (lf_Data f) \<le> 8" "\<And>body. \<exists>w' resp. request w a FlagWrite body = (w', Ok resp) \<and> Body resp = body \<and> \<not> Has (Control resp) FlagError"
  shows "\<exists>w'. linbr_Transfer request a w f = (w', Ok (f\<lparr>lf_ID := lf_ID f AND 0x3F\<rparr>))"
proof -
  let ?pid = "protectedID (lf_ID f)"
  let ?b = "?pid # lf_Data f @ [lin_checksum (lf_Checksum f) ?pid (lf_Data f)]"
  have e: "lin_EncodeFrame f = Ok ?b" using assms(1) by (simp add: lin_EncodeFrame_def Let_def)
  have d: "lin_DecodeFrame ?b (lf_Checksum f) = Ok (f\<lparr>lf_ID := lf_ID f AND 0x3F\<rparr>)"
    using protectedID_bits(1) [of "lf_ID f"] by (simp add: lin_DecodeFrame_def nth_append)
  obtain w' resp where "request w a FlagWrite ?b = (w', Ok resp)" "Body resp = ?b" "\<not> Has (Control resp) FlagError"
    using assms(2) by blast
  then show ?thesis
    using e d by (simp add: linbr_Transfer_def Controller_Write_def lin_bodies del: append.simps)
qed

end
