(* ===== verification/Diagnostics.thy ===== *)
theory Diagnostics
  imports Upstream Recording
begin

text \<open>
  The packages \<open>udsbr\<close> and \<open>doipbr\<close>: diagnostic requests that read and write endpoints through a controller, and
  their transport over a TCP connection. The two directions of the connection are the octets still to be read
  and a writer; the loop over the messages of a connection is proved to end with the octets that came.
\<close>

section \<open>Diagnostic services\<close>

definition SIDWriteDataByIdentifier :: u8 where "SIDWriteDataByIdentifier = 0x2E"
definition SIDReadDataByIdentifier :: u8 where "SIDReadDataByIdentifier = 0x22"
definition SIDPositiveOffset :: u8 where "SIDPositiveOffset = 0x40"
definition SIDNegativeResponse :: u8 where "SIDNegativeResponse = 0x7F"
definition NRCSubFunctionNotSupported :: u8 where "NRCSubFunctionNotSupported = 0x12"
definition NRCRequestOutOfRange :: u8 where "NRCRequestOutOfRange = 0x31"
definition NRCGeneralProgrammingFailure :: u8 where "NRCGeneralProgrammingFailure = 0x72"
definition NRCPDUTooShort :: u8 where "NRCPDUTooShort = 0x13"

lemmas uds_consts = SIDWriteDataByIdentifier_def SIDReadDataByIdentifier_def SIDPositiveOffset_def SIDNegativeResponse_def
  NRCSubFunctionNotSupported_def NRCRequestOutOfRange_def NRCGeneralProgrammingFailure_def NRCPDUTooShort_def

definition uds_addressFor :: "u16 \<Rightarrow> u16" where "uds_addressFor did = did AND 0xFF"

definition BuildRequest :: "u8 \<Rightarrow> u16 \<Rightarrow> bytes \<Rightarrow> bytes" where
  "BuildRequest sid did payload = [sid] @ put16 did @ payload"

definition BuildPositiveResponse :: "u8 \<Rightarrow> u16 \<Rightarrow> bytes \<Rightarrow> bytes" where
  "BuildPositiveResponse sid did data = [sid + SIDPositiveOffset] @ put16 did @ data"

definition BuildNegativeResponse :: "u8 \<Rightarrow> u8 \<Rightarrow> bytes" where
  "BuildNegativeResponse sid nrc = [SIDNegativeResponse, sid, nrc]"

record UdsServer =
  uds_closed :: bool

definition UdsServer_Close :: "UdsServer \<Rightarrow> UdsServer" where "UdsServer_Close s = s\<lparr>uds_closed := True\<rparr>"

text \<open>The response to a diagnostic request on the answer of the endpoint: the octets and the error.\<close>

definition uds_respond :: "u8 \<Rightarrow> u16 \<Rightarrow> Message go \<Rightarrow> (bytes \<times> rcp_error option) go" where
  "uds_respond sid did answer =
     (case answer of
        Err er \<Rightarrow> Ok (BuildNegativeResponse sid NRCGeneralProgrammingFailure, Some er)
      | Panic \<Rightarrow> Panic
      | Ok resp \<Rightarrow>
          if Has (Control resp) FlagError
          then Ok (BuildNegativeResponse sid NRCRequestOutOfRange, Some (EBridge (BUdsbr ErrNegativeResponse)))
          else Ok (BuildPositiveResponse sid did (Body resp), None))"

definition uds_handleWrite :: "'w request \<Rightarrow> 'w \<Rightarrow> u16 \<Rightarrow> bytes \<Rightarrow> 'w \<times> (bytes \<times> rcp_error option) go" where
  "uds_handleWrite request w did payload =
     (case Controller_Write request w (uds_addressFor did) payload of
        (w', answer) \<Rightarrow> (w', uds_respond SIDWriteDataByIdentifier did answer))"

definition uds_handleRead :: "'w request \<Rightarrow> 'w \<Rightarrow> u16 \<Rightarrow> 'w \<times> (bytes \<times> rcp_error option) go" where
  "uds_handleRead request w did =
     (case Controller_Read request w (uds_addressFor did) of
        (w', answer) \<Rightarrow> (w', uds_respond SIDReadDataByIdentifier did answer))"

definition uds_Handle :: "'w request \<Rightarrow> UdsServer \<Rightarrow> 'w \<Rightarrow> bytes \<Rightarrow> 'w \<times> (bytes \<times> rcp_error option) go" where
  "uds_Handle request s w pdu =
     (if uds_closed s then (w, Ok (BuildNegativeResponse 0 NRCGeneralProgrammingFailure, Some (EBridge (BUdsbr ErrClosed_udsbr))))
      else if length pdu < 3 then (w, Ok (BuildNegativeResponse 0 NRCPDUTooShort, Some (EBridge (BUdsbr ErrPDUTooShort))))
      else
        case andThen (idx pdu 0) (\<lambda>sid. andThen (get16 pdu 1) (\<lambda>did. andThen (slice pdu 3 (length pdu)) (\<lambda>payload.
               Ok (sid, did, payload)))) of
          Err er \<Rightarrow> (w, Err er)
        | Panic \<Rightarrow> (w, Panic)
        | Ok (sid, did, payload) \<Rightarrow>
            if sid = SIDWriteDataByIdentifier then uds_handleWrite request w did payload
            else if sid = SIDReadDataByIdentifier then uds_handleRead request w did
            else (w, Ok (BuildNegativeResponse sid NRCSubFunctionNotSupported, Some (EBridge (BUdsbr ErrNegativeResponse)))))"

section \<open>Messages on a connection\<close>

definition ProtoVersion :: u8 where "ProtoVersion = 0x02"
definition ProtoVersionInverse :: u8 where "ProtoVersionInverse = 0xFD"
definition PayloadTypeDiagMessage :: u16 where "PayloadTypeDiagMessage = 0x8001"
definition PayloadTypeDiagMessageAck :: u16 where "PayloadTypeDiagMessageAck = 0x8002"
definition PayloadTypeDiagMessageNack :: u16 where "PayloadTypeDiagMessageNack = 0x8003"
definition NackCodeHandlerFailed :: u8 where "NackCodeHandlerFailed = 0x02"
definition doip_headerLen :: nat where "doip_headerLen = 8"

lemmas doip_consts = ProtoVersion_def ProtoVersionInverse_def PayloadTypeDiagMessage_def PayloadTypeDiagMessageAck_def
  PayloadTypeDiagMessageNack_def NackCodeHandlerFailed_def doip_headerLen_def

definition BuildHeader :: "u16 \<Rightarrow> u32 \<Rightarrow> bytes" where
  "BuildHeader payloadType payloadLen = [ProtoVersion, ProtoVersionInverse] @ put16 payloadType @ put32 payloadLen"

fun doip_io :: "io_error \<Rightarrow> rcp_error" where
  "doip_io EOF = EBridge (BDoipbr EOF_doipbr)"
| "doip_io ErrUnexpectedEOF = EBridge (BDoipbr ErrUnexpectedEOF_doipbr)"
| "doip_io (ErrReader n) = EExternal n"

definition ParseHeader :: "reader \<Rightarrow> (u16 \<times> u32 \<times> reader) go" where
  "ParseHeader rd =
     andThen (ReadFull doip_io rd doip_headerLen) (\<lambda>(h, rd').
     andThen (idx h 0) (\<lambda>v. andThen (idx h 1) (\<lambda>vi.
     if v \<noteq> ProtoVersion \<or> vi \<noteq> ProtoVersionInverse then Err (EBridge (BDoipbr ErrInvalidHeader))
     else andThen (get16 h 2) (\<lambda>typ'. andThen (get32 h 4) (\<lambda>len. Ok (typ', len, rd'))))))"

text \<open>The answer to one message of a connection: \<open>uds_Handle\<close> and the acknowledgement or the refusal.\<close>

definition doip_answer :: "'w request \<Rightarrow> UdsServer \<Rightarrow> 'w \<Rightarrow> u16 \<Rightarrow> bytes \<Rightarrow> 'w \<times> bytes go" where
  "doip_answer request s w payloadType payload =
     (if payloadType = PayloadTypeDiagMessage
      then
        case uds_Handle request s w payload of
          (w', Ok (resp, Some er)) \<Rightarrow> (w', Ok (BuildHeader PayloadTypeDiagMessageNack 1 @ [NackCodeHandlerFailed]))
        | (w', Ok (resp, None)) \<Rightarrow> (w', Ok (BuildHeader PayloadTypeDiagMessageAck (word_of_nat (length resp)) @ resp))
        | (w', Err er) \<Rightarrow> (w', Err er)
        | (w', Panic) \<Rightarrow> (w', Panic)
      else (w, Ok (BuildHeader PayloadTypeDiagMessageNack 0)))"

text \<open>The loop of \<open>handleConn\<close>: what becomes of the endpoints and of the writer, and whether it ends with a panic.\<close>

lemma ParseHeader_shorter: "ParseHeader rd = Ok (t, n, rd') \<Longrightarrow> length (fst rd') < length (fst rd)"
  using ReadFull_shorter [of doip_io rd doip_headerLen]
  by (auto simp: ParseHeader_def andThen_eq_Ok_iff doip_headerLen_def split: prod.splits if_splits)

function handleConn :: "'w request \<Rightarrow> UdsServer \<Rightarrow> ('c \<Rightarrow> bytes \<Rightarrow> 'c \<times> bool) \<Rightarrow> 'w \<Rightarrow> 'c \<Rightarrow> reader \<Rightarrow> 'w \<times> 'c \<times> unit go" where
  "handleConn request s write_conn w c rd =
     (case ParseHeader rd of
        Err er \<Rightarrow> (w, c, Ok ())
      | Panic \<Rightarrow> (w, c, Panic)
      | Ok (payloadType, payloadLen, rd1) \<Rightarrow>
          (case ReadFull doip_io rd1 (unat payloadLen) of
             Err er \<Rightarrow> (w, c, Ok ())
           | Panic \<Rightarrow> (w, c, Panic)
           | Ok (payload, rd2) \<Rightarrow>
               (case doip_answer request s w payloadType payload of
                  (w', Ok out) \<Rightarrow>
                    (case write_conn c out of
                       (c', True) \<Rightarrow> handleConn request s write_conn w' c' rd2
                     | (c', False) \<Rightarrow> (w', c', Ok ()))
                | (w', _) \<Rightarrow> (w', c, Panic))))"
  by pat_completeness auto

termination
proof (relation "measure (\<lambda>(request, s, wr, w, c, rd). length (fst rd))", simp, goal_cases)
  case (1 request s wr w c rd p t q n rd1 r payload rd2)
  then show ?case using ParseHeader_shorter [of rd t n rd1] ReadFull_shorter [of doip_io rd1 "unat n" payload rd2] by auto
qed

text \<open>\<open>Send\<close> of the client, given the octets that the server writes on its message; the rest stays to be read.\<close>

definition doip_request :: "bytes \<Rightarrow> bytes" where
  "doip_request udsPDU = BuildHeader PayloadTypeDiagMessage (word_of_nat (length udsPDU)) @ udsPDU"

definition doip_receive :: "reader \<Rightarrow> reader \<times> bytes go" where
  "doip_receive rd =
     (case ParseHeader rd of
        Err er \<Rightarrow> ((drop doip_headerLen (fst rd), snd rd), Err er)
      | Panic \<Rightarrow> (rd, Panic)
      | Ok (payloadType, payloadLen, rd1) \<Rightarrow>
          if payloadType = PayloadTypeDiagMessageAck
          then
            case ReadFull doip_io rd1 (unat payloadLen) of
              Err er \<Rightarrow> (([], snd rd1), Err er)
            | Panic \<Rightarrow> (rd1, Panic)
            | Ok (resp, rd2) \<Rightarrow> (rd2, Ok resp)
          else if payloadType = PayloadTypeDiagMessageNack then (rd1, Err (EBridge (BDoipbr ErrUnsupportedPayload)))
          else (rd1, Err (EBridge (BDoipbr ErrUnsupportedPayload))))"

section \<open>Requests and responses\<close>

text \<open>A request that was built is taken apart again; \<open>uds_Handle\<close> asks the endpoint at most once.\<close>

lemma uds_Handle_built:
  assumes "\<not> uds_closed s"
  shows "uds_Handle request s w (BuildRequest sid did payload) =
    (if sid = SIDWriteDataByIdentifier
     then (fst (request w (did AND 0xFF) FlagWrite payload), uds_respond sid did (snd (request w (did AND 0xFF) FlagWrite payload)))
     else if sid = SIDReadDataByIdentifier
     then (fst (request w (did AND 0xFF) FlagRead []), uds_respond sid did (snd (request w (did AND 0xFF) FlagRead [])))
     else (w, Ok (BuildNegativeResponse sid NRCSubFunctionNotSupported, Some (EBridge (BUdsbr ErrNegativeResponse)))))"
  using assms by (simp add: uds_Handle_def uds_handleWrite_def uds_handleRead_def Controller_Write_def Controller_Read_def
      uds_addressFor_def BuildRequest_def put16_def split: prod.split)

text \<open>Headers are read back.\<close>

lemma ParseHeader_built: "ParseHeader (BuildHeader t n @ rest, ee) = Ok (t, n, rest, ee)"
  by (simp add: ParseHeader_def doip_headerLen_def BuildHeader_def put16_def put32_def)

definition connWrite :: "bytes \<Rightarrow> bytes \<Rightarrow> bytes \<times> bool" where "connWrite c b = (c @ b, True)"

lemma handleConn_request:
  assumes "length pdu < 2 ^ 32" "doip_answer request s w PayloadTypeDiagMessage pdu = (w', Ok out)"
  shows "handleConn request s connWrite w c (doip_request pdu @ rest, ee) = handleConn request s connWrite w' (c @ out) (rest, ee)"
  using assms ParseHeader_built [of PayloadTypeDiagMessage "word_of_nat (length pdu)" "pdu @ rest" ee] unat_length [of pdu]
  by (subst handleConn.simps) (simp add: doip_request_def connWrite_def del: handleConn.simps)

lemma handleConn_end: "handleConn request s write_conn w c ([], None) = (w, c, Ok ())"
  by (simp add: ParseHeader_def doip_headerLen_def)

text \<open>The diagnostic server on a list of requests, and the client on a list of answers.\<close>

fun udsAll :: "'w request \<Rightarrow> UdsServer \<Rightarrow> 'w \<Rightarrow> bytes list \<Rightarrow> 'w \<times> (bytes \<times> rcp_error option) go list" where
  "udsAll request s w [] = (w, [])"
| "udsAll request s w (p # ps) =
     (let (w1, r) = uds_Handle request s w p; (w2, rs) = udsAll request s w1 ps in (w2, r # rs))"

fun receiveAll :: "nat \<Rightarrow> reader \<Rightarrow> reader \<times> bytes go list" where
  "receiveAll 0 rd = (rd, [])"
| "receiveAll (Suc n) rd = (let (rd1, r) = doip_receive rd; (rd2, rs) = receiveAll n rd1 in (rd2, r # rs))"

definition ackOf :: "bytes \<Rightarrow> bytes" where
  "ackOf resp = BuildHeader PayloadTypeDiagMessageAck (word_of_nat (length resp)) @ resp"

lemma doip_receive_ack: "length resp < 2 ^ 32 \<Longrightarrow> doip_receive (ackOf resp @ rest, ee) = ((rest, ee), Ok resp)"
  using ParseHeader_built [of PayloadTypeDiagMessageAck "word_of_nat (length resp)" "resp @ rest" ee] unat_length [of resp]
  by (simp add: doip_receive_def ackOf_def)

lemma handleConn_session:
  assumes "udsAll request s w pdus = (w', map (\<lambda>r. Ok (r, None)) resps)" "list_all (\<lambda>p. length p < 2 ^ 32) pdus"
  shows "handleConn request s connWrite w c (concat (map doip_request pdus), None) = (w', c @ concat (map ackOf resps), Ok ()) \<and>
    length resps = length pdus"
  using assms
proof (induction pdus arbitrary: w c resps)
  case (Cons p ps)
  obtain w1 r rs where r: "uds_Handle request s w p = (w1, Ok (r, None))" "resps = r # rs"
    "udsAll request s w1 ps = (w', map (\<lambda>r. Ok (r, None)) rs)"
    using Cons.prems(1) by (cases resps) (auto split: prod.splits)
  have "doip_answer request s w PayloadTypeDiagMessage p = (w1, Ok (ackOf r))" using r(1) by (simp add: doip_answer_def ackOf_def)
  from handleConn_request [OF _ this, of c "concat (map doip_request ps)" None] show ?case
    using Cons.IH [OF r(3), of "c @ ackOf r"] Cons.prems(2) r(2) by (simp del: handleConn.simps)
qed (simp add: handleConn_end del: handleConn.simps)

lemma receiveAll_acks:
  "list_all (\<lambda>r. length r < 2 ^ 32) resps \<Longrightarrow>
     receiveAll (length resps) (concat (map ackOf resps), ee) = (([], ee), map Ok resps)"
  by (induction resps) (simp_all add: doip_receive_ack)

text \<open>A diagnostic session delivers what the endpoints answer. When the diagnostic server answers each of the
  requests of a client without an error, the loop over the connection ends without a panic with the endpoints in the
  state after these requests, and the client reads from what was written exactly the answers, in order, with no octet
  left. A request built for a data identifier is answered from the endpoint of its low octet.\<close>

theorem doip_session:
  assumes "udsAll request s w pdus = (w', map (\<lambda>r. Ok (r, None)) resps)"
    "list_all (\<lambda>p. length p < 2 ^ 32) pdus" "list_all (\<lambda>r. length r < 2 ^ 32) resps"
  shows "\<exists>out. handleConn request s connWrite w [] (concat (map doip_request pdus), None) = (w', out, Ok ()) \<and>
    receiveAll (length pdus) (out, None) = (([], None), map Ok resps)"
  using handleConn_session [OF assms(1,2), of "[]"] receiveAll_acks [OF assms(3), of None] by simp

text \<open>A client loses the message boundaries after a refusal. When the diagnostic server fails on a request, the
  refusal carries one octet that \<open>Send\<close> does not read: the answer to the next request, although the server gave one,
  is refused for an invalid header.\<close>

theorem doip_client_out_of_step:
  assumes "uds_Handle request s w p = (w1, Ok (x, Some er))" "uds_Handle request s w1 q = (w2, Ok (resp, None))"
    "length p < 2 ^ 32" "length q < 2 ^ 32"
  shows "\<exists>out. handleConn request s connWrite w [] (doip_request p @ doip_request q, None) = (w2, out, Ok ()) \<and>
    snd (receiveAll 2 (out, None)) = [Err (EBridge (BDoipbr ErrUnsupportedPayload)), Err (EBridge (BDoipbr ErrInvalidHeader))]"
proof -
  let ?nack = "BuildHeader PayloadTypeDiagMessageNack 1 @ [NackCodeHandlerFailed]"
  have a: "doip_answer request s w PayloadTypeDiagMessage p = (w1, Ok ?nack)"
    "doip_answer request s w1 PayloadTypeDiagMessage q = (w2, Ok (ackOf resp))"
    using assms(1,2) by (simp_all add: doip_answer_def ackOf_def)
  have "handleConn request s connWrite w [] (doip_request p @ doip_request q @ [], None) = (w2, ?nack @ ackOf resp, Ok ())"
    using handleConn_request [OF assms(3) a(1)] handleConn_request [OF assms(4) a(2), of _ "[]" None]
    by (simp add: handleConn_end del: handleConn.simps)
  moreover have "doip_receive (?nack @ ackOf resp, None) = ((NackCodeHandlerFailed # ackOf resp, None), Err (EBridge (BDoipbr ErrUnsupportedPayload)))"
    using ParseHeader_built [of PayloadTypeDiagMessageNack 1 "NackCodeHandlerFailed # ackOf resp" None]
    by (simp add: doip_receive_def doip_consts)
  moreover have "snd (doip_receive (NackCodeHandlerFailed # ackOf resp, None)) = Err (EBridge (BDoipbr ErrInvalidHeader))"
    by (simp add: doip_receive_def ParseHeader_def ackOf_def BuildHeader_def doip_consts)
  ultimately show ?thesis by (auto simp: eval_nat_numeral split: prod.splits simp del: handleConn.simps)
qed

text \<open>An endpoint memory of one octet string for each address, for the witnesses.\<close>

definition memory :: "(u16 \<Rightarrow> bytes) request" where
  "memory m a control body =
     (if a = 0 then (m, Err (EUdp ErrTimeout))
      else if Has control FlagWrite then (m(a := body), Ok (zeroMessage\<lparr>Control := FlagResponse OR FlagWrite, Body := body\<rparr>))
      else (m, Ok (zeroMessage\<lparr>Control := FlagResponse OR FlagRead, Body := m a\<rparr>)))"

lemma memory_uds:
  "uds_Handle memory \<lparr>uds_closed = False\<rparr> m [0x2E, 1, 5, 7] = (m(5 := [7]), Ok ([0x6E, 1, 5, 7], None))"
  "uds_Handle memory \<lparr>uds_closed = False\<rparr> m [0x22, 0, 5] = (m, Ok ([0x62, 0, 5] @ m 5, None))"
  "uds_Handle memory \<lparr>uds_closed = False\<rparr> m [0x22, 0, 0] = (m, Ok ([0x7F, 0x22, 0x72], Some (EUdp ErrTimeout)))"
  by (simp_all add: uds_Handle_def uds_handleWrite_def uds_handleRead_def Controller_Write_def Controller_Read_def
      uds_addressFor_def be16_def uds_respond_def memory_def uds_consts Has_def flag_defs BuildPositiveResponse_def
      BuildNegativeResponse_def put16_def)

theorem doip_session_witness:
  "\<exists>out. handleConn memory \<lparr>uds_closed = False\<rparr> connWrite (\<lambda>_. []) [] (concat (map doip_request [[0x2E, 1, 5, 7], [0x22, 0, 5]]), None) =
     ((\<lambda>_. [])(5 := [7]), out, Ok ()) \<and>
   receiveAll (length [[0x2E, 1, 5, 7], [0x22, 0, 5 :: u8]]) (out, None) = (([], None), map Ok [[0x6E, 1, 5, 7], [0x62, 0, 5, 7]])"
  by (rule doip_session) (simp_all add: memory_uds)

theorem doip_client_out_of_step_witness:
  "\<exists>out. handleConn memory \<lparr>uds_closed = False\<rparr> connWrite (\<lambda>_. []) [] (doip_request [0x22, 0, 0] @ doip_request [0x22, 0, 5], None) =
     (\<lambda>_. [], out, Ok ()) \<and>
   snd (receiveAll 2 (out, None)) = [Err (EBridge (BDoipbr ErrUnsupportedPayload)), Err (EBridge (BDoipbr ErrInvalidHeader))]"
  by (rule doip_client_out_of_step [OF memory_uds(3) memory_uds(2)]) simp_all

end
