(* ===== verification/Someip.thy ===== *)
theory Someip
  imports Upstream
begin

text \<open>
  The package \<open>someip\<close>: a server that turns SOME/IP requests into requests of a controller, and the client that
  reaches an endpoint through such a server. The codec, a turn of each loop and the life cycle of a request are
  modelled as in the theory \<open>Udp\<close>; the session number takes the place of the transaction number.
\<close>

section \<open>Frames\<close>

definition someip_headerLen :: nat where "someip_headerLen = 16"
definition msgTypeRequest :: u8 where "msgTypeRequest = 0x00"
definition msgTypeResponse :: u8 where "msgTypeResponse = 0x80"
definition retCodeOK :: u8 where "retCodeOK = 0x00"
definition retCodeNotOK :: u8 where "retCodeNotOK = 0x01"

lemmas someip_consts = someip_headerLen_def msgTypeRequest_def msgTypeResponse_def retCodeOK_def retCodeNotOK_def

record SomeipHeader =
  ServiceID :: u16
  MethodID :: u16
  sh_Length :: u32
  ClientID :: u16
  SessionID :: u16
  ProtoVer :: u8
  IfaceVer :: u8
  MsgType :: u8
  ReturnCode :: u8

definition someip_addressFor :: "u16 \<Rightarrow> u16" where "someip_addressFor methodID = methodID AND 0xFF"

definition controlFor :: "bytes \<Rightarrow> ControlFlags" where
  "controlFor payload = (if length payload = 0 then FlagRead else FlagWrite)"

definition someip_encodeFrame :: "SomeipHeader \<Rightarrow> bytes \<Rightarrow> bytes" where
  "someip_encodeFrame hdr payload =
     put16 (ServiceID hdr) @ put16 (MethodID hdr) @ put32 (word_of_nat (8 + length payload)) @
     put16 (ClientID hdr) @ put16 (SessionID hdr) @ [ProtoVer hdr, IfaceVer hdr, MsgType hdr, ReturnCode hdr] @ payload"

definition someip_decodeFrame :: "bytes \<Rightarrow> (SomeipHeader \<times> bytes) go" where
  "someip_decodeFrame b =
     (if length b < someip_headerLen then Err (EBridge (BSomeip ErrMalformedFrame))
      else
        andThen (get16 b 0) (\<lambda>svc. andThen (get16 b 2) (\<lambda>meth. andThen (get32 b 4) (\<lambda>len.
        andThen (get16 b 8) (\<lambda>cl. andThen (get16 b 10) (\<lambda>sess.
        andThen (idx b 12) (\<lambda>pv. andThen (idx b 13) (\<lambda>iv. andThen (idx b 14) (\<lambda>mt. andThen (idx b 15) (\<lambda>rc.
        andThen (slice b someip_headerLen (length b)) (\<lambda>payload.
          Ok (\<lparr>ServiceID = svc, MethodID = meth, sh_Length = len, ClientID = cl, SessionID = sess, ProtoVer = pv,
               IfaceVer = iv, MsgType = mt, ReturnCode = rc\<rparr>, payload))))))))))))"

section \<open>The server\<close>

text \<open>\<open>handle\<close> on one datagram: what becomes of the endpoints, and the datagram it answers with, if any.\<close>

definition someip_handle :: "'w request \<Rightarrow> u16 \<Rightarrow> 'w \<Rightarrow> bytes \<Rightarrow> 'w \<times> bytes option go" where
  "someip_handle request serviceID w frame =
     (case someip_decodeFrame frame of
        Err er \<Rightarrow> (w, Ok None)
      | Panic \<Rightarrow> (w, Panic)
      | Ok (hdr, payload) \<Rightarrow>
          if MsgType hdr \<noteq> msgTypeRequest \<or> ServiceID hdr \<noteq> serviceID then (w, Ok None)
          else
            case request w (someip_addressFor (MethodID hdr)) (controlFor payload) payload of
              (w', Panic) \<Rightarrow> (w', Panic)
            | (w', answer) \<Rightarrow>
                (let failed = (case answer of Ok resp \<Rightarrow> Has (Control resp) FlagError | _ \<Rightarrow> True);
                     respPayload = (case answer of Ok resp \<Rightarrow> if failed then [] else Body resp | _ \<Rightarrow> []);
                     respHdr = \<lparr>ServiceID = ServiceID hdr, MethodID = MethodID hdr, sh_Length = 0, ClientID = ClientID hdr,
                       SessionID = SessionID hdr, ProtoVer = 1, IfaceVer = 1, MsgType = msgTypeResponse,
                       ReturnCode = (if failed then retCodeNotOK else retCodeOK)\<rparr> in
                 (w', Ok (Some (someip_encodeFrame respHdr respPayload)))))"

section \<open>The client\<close>

record SomeipController =
  sc_serviceID :: u16
  sc_nextSess :: u32
  sc_closed :: bool
  sc_pending :: "u16 \<rightharpoonup> (SomeipHeader \<times> bytes) option"

definition someip_NewController :: "u16 \<Rightarrow> SomeipController" where
  "someip_NewController serviceID = \<lparr>sc_serviceID = serviceID, sc_nextSess = 0, sc_closed = False, sc_pending = Map.empty\<rparr>"

definition someip_begin :: "SomeipController \<Rightarrow> u16 \<Rightarrow> bytes \<Rightarrow> SomeipController \<times> (u16 \<times> bytes) go" where
  "someip_begin c a body =
     (if sc_closed c then (c, Err (EBridge (BSomeip ErrClosed_someip)))
      else
        let c1 = c\<lparr>sc_nextSess := sc_nextSess c + 1\<rparr>; sessID = ucast (sc_nextSess c1);
            reqHdr = \<lparr>ServiceID = sc_serviceID c, MethodID = a, sh_Length = 0, ClientID = 1, SessionID = sessID,
              ProtoVer = 1, IfaceVer = 1, MsgType = msgTypeRequest, ReturnCode = 0\<rparr> in
        (c1\<lparr>sc_pending := (sc_pending c1)(sessID \<mapsto> None)\<rparr>, Ok (sessID, someip_encodeFrame reqHdr body)))"

text \<open>One turn of \<open>readLoop\<close>.\<close>

definition someip_deliver :: "SomeipController \<Rightarrow> bytes \<Rightarrow> SomeipController" where
  "someip_deliver c datagram =
     (case someip_decodeFrame datagram of
        Ok (hdr, payload) \<Rightarrow>
          if MsgType hdr \<noteq> msgTypeResponse then c
          else
            (case sc_pending c (SessionID hdr) of
               Some None \<Rightarrow> c\<lparr>sc_pending := (sc_pending c)(SessionID hdr \<mapsto> Some (hdr, payload))\<rparr>
             | _ \<Rightarrow> c)
      | _ \<Rightarrow> c)"

definition someip_message :: "u16 \<Rightarrow> ControlFlags \<Rightarrow> SomeipHeader \<times> bytes \<Rightarrow> Message" where
  "someip_message a control result =
     (let respControl = FlagResponse OR (control AND (FlagRead OR FlagWrite));
          respControl = (if ReturnCode (fst result) \<noteq> retCodeOK then respControl OR FlagError else respControl) in
      zeroMessage\<lparr>ByteBusID := a, Control := respControl, Body := snd result\<rparr>)"

definition someip_end :: "SomeipController \<Rightarrow> u16 \<Rightarrow> u16 \<Rightarrow> ControlFlags \<Rightarrow> rcp_error option \<Rightarrow> SomeipController \<times> Message go option" where
  "someip_end c sessID a control failure =
     (let c' = c\<lparr>sc_pending := (sc_pending c)(sessID := None)\<rparr> in
      case failure of
        Some er \<Rightarrow> (c', Some (Err er))
      | None \<Rightarrow>
          (case sc_pending c sessID of
             Some (Some result) \<Rightarrow> (c', Some (Ok (someip_message a control result)))
           | _ \<Rightarrow> (c, None)))"

definition someip_Close :: "SomeipController \<Rightarrow> SomeipController" where
  "someip_Close c = c\<lparr>sc_closed := True\<rparr>"

text \<open>A whole request: the datagram is handled, the answer is read, and the call returns.\<close>

definition someip_Request :: "'w request \<Rightarrow> u16 \<Rightarrow> (SomeipController \<times> 'w) request" where
  "someip_Request request serviceID s a control body =
     (let (c, w) = s in
      case someip_begin c a body of
        (c1, Err er) \<Rightarrow> ((c1, w), Err er)
      | (c1, Panic) \<Rightarrow> ((c1, w), Panic)
      | (c1, Ok (sessID, datagram)) \<Rightarrow>
          (case someip_handle request serviceID w datagram of
             (w', reply) \<Rightarrow>
               (let c2 = (case reply of Ok (Some out) \<Rightarrow> someip_deliver c1 out | _ \<Rightarrow> c1) in
                case someip_end c2 sessID a control None of
                  (c3, Some res) \<Rightarrow> ((c3, w'), res)
                | (c3, None) \<Rightarrow> ((fst (someip_end c3 sessID a control (Some (EUdp ErrTimeout))), w'), Err (EUdp ErrTimeout)))))"

section \<open>What a request through the bridge does\<close>

interpretation someip_frame: body_codec "\<lambda>(hdr, payload). someip_encodeFrame hdr payload" someip_decodeFrame
    "\<lambda>(hdr, payload). sh_Length hdr = word_of_nat (8 + length payload)"
proof
  fix x :: "SomeipHeader \<times> bytes"
  assume "case x of (hdr, payload) \<Rightarrow> sh_Length hdr = word_of_nat (8 + length payload)"
  then show "someip_decodeFrame (case x of (hdr, payload) \<Rightarrow> someip_encodeFrame hdr payload) = Ok x"
    by (cases x) (simp add: someip_decodeFrame_def someip_encodeFrame_def someip_headerLen_def put16_def put32_def)
next
  show "someip_decodeFrame b \<noteq> Panic" for b
    by (simp add: someip_decodeFrame_def someip_headerLen_def)
qed

lemma someip_decode_encode:
  "someip_decodeFrame (someip_encodeFrame hdr payload) = Ok (hdr\<lparr>sh_Length := word_of_nat (8 + length payload)\<rparr>, payload)"
  using someip_frame.dec_enc [of "(hdr\<lparr>sh_Length := word_of_nat (8 + length payload)\<rparr>, payload)"]
  by (simp add: someip_encodeFrame_def)

text \<open>A request through the bridge is one request of the controller. A request of an open client with the service
  of the server makes exactly one request of the server's controller: to the endpoint of the low octet of the
  address, as a read when the body is empty and as a write otherwise. Its answer comes back for the address that was
  asked: with the body of the response, or with the error flag and no body when the controller failed or the response
  was an error. The session is no longer pending. So the request is the one that was asked exactly for addresses
  below 256 and for reads without and writes with a body: a write of nothing becomes a read.\<close>

theorem someip_request_forwarded:
  assumes "\<not> sc_closed c" "sc_serviceID c = serviceID"
    and "request w (a AND 0xFF) (if body = [] then FlagRead else FlagWrite) body = (w', answer)" "answer \<noteq> Panic"
    and "failed \<longleftrightarrow> (case answer of Ok resp \<Rightarrow> Has (Control resp) FlagError | _ \<Rightarrow> True)"
  shows "\<exists>c' m. someip_Request request serviceID (c, w) a control body = ((c', w'), Ok m) \<and>
    ByteBusID m = a \<and> Has (Control m) FlagError = failed \<and> Has (Control m) FlagResponse \<and>
    Body m = (case answer of Ok resp \<Rightarrow> if failed then [] else Body resp | _ \<Rightarrow> []) \<and>
    sc_nextSess c' = sc_nextSess c + 1 \<and> sc_pending c' = (sc_pending c)(ucast (sc_nextSess c + 1) := None) \<and>
    (unat a < 256 \<and> (control = FlagRead \<and> body = [] \<or> control = FlagWrite \<and> body \<noteq> []) \<longrightarrow>
       request w a control body = (w', answer))"
proof -
  define sess :: u16 where "sess = ucast (sc_nextSess c + 1)"
  define reqHdr where "reqHdr = \<lparr>ServiceID = serviceID, MethodID = a, sh_Length = 0, ClientID = 1, SessionID = sess,
    ProtoVer = 1, IfaceVer = 1, MsgType = msgTypeRequest, ReturnCode = 0\<rparr>"
  define c1 where "c1 = c\<lparr>sc_nextSess := sc_nextSess c + 1, sc_pending := (sc_pending c)(sess \<mapsto> None)\<rparr>"
  define out where "out = (case answer of Ok resp \<Rightarrow> if failed then [] else Body resp | _ \<Rightarrow> [])"
  define respHdr where "respHdr = \<lparr>ServiceID = serviceID, MethodID = a, sh_Length = 0, ClientID = 1, SessionID = sess,
    ProtoVer = 1, IfaceVer = 1, MsgType = msgTypeResponse, ReturnCode = (if failed then retCodeNotOK else retCodeOK)\<rparr>"
  define got where "got = (respHdr\<lparr>sh_Length := word_of_nat (8 + length out)\<rparr>, out)"
  have begin_ok: "someip_begin c a body = (c1, Ok (sess, someip_encodeFrame reqHdr body))"
    using assms(1,2) by (simp add: someip_begin_def Let_def c1_def sess_def reqHdr_def)
  have handled: "someip_handle request serviceID w (someip_encodeFrame reqHdr body) = (w', Ok (Some (someip_encodeFrame respHdr out)))"
    using assms(3-5)
    by (cases answer) (simp_all add: someip_handle_def someip_decode_encode reqHdr_def respHdr_def out_def controlFor_def
        someip_addressFor_def Let_def)
  have delivered: "someip_deliver c1 (someip_encodeFrame respHdr out) = c1\<lparr>sc_pending := (sc_pending c1)(sess \<mapsto> Some got)\<rparr>"
    by (simp add: someip_deliver_def someip_decode_encode respHdr_def c1_def got_def)
  have res: "someip_Request request serviceID (c, w) a control body =
      ((c1\<lparr>sc_pending := (sc_pending c)(sess := None)\<rparr>, w'), Ok (someip_message a control got))"
    using begin_ok handled delivered by (simp add: someip_Request_def someip_end_def c1_def)
  have flags: "Has (Control (someip_message a control got)) FlagError = failed" "Has (Control (someip_message a control got)) FlagResponse"
    by (simp_all add: someip_message_def got_def respHdr_def someip_consts Has_def flag_defs u8_bits)
  have "\<not> bit a n" if "unat a < 256" "8 \<le> n" for n using unat_less_bit [of a 8 n] that by simp
  then have "unat a < 256 \<Longrightarrow> a AND 0xFF = a" by (simp add: u16_bits)
  then have asked: "unat a < 256 \<and> (control = FlagRead \<and> body = [] \<or> control = FlagWrite \<and> body \<noteq> []) \<longrightarrow> request w a control body = (w', answer)"
    using assms(3) by auto
  have fields: "ByteBusID (someip_message a control got) = a"
    "Body (someip_message a control got) = (case answer of Ok resp \<Rightarrow> if failed then [] else Body resp | _ \<Rightarrow> [])"
    "sc_nextSess (c1\<lparr>sc_pending := (sc_pending c)(sess := None)\<rparr>) = sc_nextSess c + 1"
    "sc_pending (c1\<lparr>sc_pending := (sc_pending c)(sess := None)\<rparr>) = (sc_pending c)(ucast (sc_nextSess c + 1) := None)"
    by (simp_all add: someip_message_def got_def out_def [symmetric] c1_def sess_def Let_def)
  show ?thesis by (intro exI conjI) (rule res flags fields asked)+
qed

definition sevens :: "nat request" where
  "sevens w a control body = (Suc w, Ok (zeroMessage\<lparr>Body := [7]\<rparr>))"

theorem someip_request_forwarded_witness:
  "\<exists>c' m. someip_Request sevens 3 (someip_NewController 3, 0) 5 FlagRead [] = ((c', 1), Ok m) \<and> ByteBusID m = 5 \<and> Body m = [7]"
  using someip_request_forwarded [of "someip_NewController 3" 3 sevens 0 5 "[]" 1 "Ok (zeroMessage\<lparr>Body := [7]\<rparr>)" False FlagRead]
  by (auto simp: sevens_def someip_NewController_def zeroMessage_def Has_def flag_defs)

end
