(* ===== verification/Wrappers.thy ===== *)
theory Wrappers
  imports Upstream
begin

text \<open>
  The packages that wrap controllers: \<open>authz\<close> (a policy in front of one), \<open>proxy\<close> (a handler that forwards to one),
  \<open>redundancy\<close> (a pair with failover), \<open>zonegroup\<close> (one request to many) and \<open>federation\<close> (who owns which server).
  A wrapped controller is its function \<open>Request\<close> on a state of its own; the packages that hold several of them name
  them by keys, which stand for the pointers of the sources.
\<close>

section \<open>A policy in front of a controller\<close>

datatype PolicyAction = Allow | Deny

record PolicyEntry =
  Principal :: string
  pe_Stream :: StreamID
  pe_Endpoint :: u16
  pe_Action :: PolicyAction

definition EndpointAny :: u16 where "EndpointAny = 0xFF"

definition StreamAny :: StreamID where "StreamAny = StreamID 0xFF 0xFF 0xFF 0xFF 0xFF 0xFF 0xFF 0xFF"

type_synonym Policy = "PolicyEntry list"

definition NewPolicy :: Policy where "NewPolicy = []"

definition Policy_Allow :: "Policy \<Rightarrow> string \<Rightarrow> StreamID \<Rightarrow> u16 \<Rightarrow> Policy" where
  "Policy_Allow p who stream endpoint =
     p @ [\<lparr>Principal = who, pe_Stream = stream, pe_Endpoint = endpoint, pe_Action = Allow\<rparr>]"

definition Policy_Deny :: "Policy \<Rightarrow> string \<Rightarrow> StreamID \<Rightarrow> u16 \<Rightarrow> Policy" where
  "Policy_Deny p who stream endpoint =
     p @ [\<lparr>Principal = who, pe_Stream = stream, pe_Endpoint = endpoint, pe_Action = Deny\<rparr>]"

definition Policy_SetEntries :: "Policy \<Rightarrow> PolicyEntry list \<Rightarrow> Policy" where "Policy_SetEntries p es = es"

definition matchPrincipal :: "string \<Rightarrow> string \<Rightarrow> bool" where
  "matchPrincipal pattern actual \<longleftrightarrow> pattern = [] \<or> pattern = actual"

definition matchStream :: "StreamID \<Rightarrow> StreamID \<Rightarrow> bool" where
  "matchStream pattern actual \<longleftrightarrow> pattern = StreamAny \<or> pattern = actual"

definition matchEndpoint :: "u16 \<Rightarrow> u16 \<Rightarrow> bool" where
  "matchEndpoint pattern actual \<longleftrightarrow> pattern = EndpointAny \<or> pattern = actual"

fun Policy_Evaluate :: "Policy \<Rightarrow> string \<Rightarrow> StreamID \<Rightarrow> u16 \<Rightarrow> bool" where
  "Policy_Evaluate [] who stream endpoint = False"
| "Policy_Evaluate (e # es) who stream endpoint =
     (if \<not> matchPrincipal (Principal e) who then Policy_Evaluate es who stream endpoint
      else if \<not> matchStream (pe_Stream e) stream then Policy_Evaluate es who stream endpoint
      else if \<not> matchEndpoint (pe_Endpoint e) endpoint then Policy_Evaluate es who stream endpoint
      else pe_Action e = Allow)"

record AuthzController =
  az_policy :: Policy
  az_principal :: string
  az_closed :: bool

text \<open>The principal in the context of a call takes the place of the controller's own, unless it is empty.\<close>

definition principalFromCtx :: "string option \<Rightarrow> string option" where
  "principalFromCtx v = (case v of Some p \<Rightarrow> if p \<noteq> [] then Some p else None | None \<Rightarrow> None)"

definition authz_Request :: "StreamID \<Rightarrow> 'w request \<Rightarrow> AuthzController \<Rightarrow> string option \<Rightarrow> 'w request" where
  "authz_Request stream inner c ctx w a control body =
     (if az_closed c then (w, Err (EUdp ErrClosed))
      else
        let who = (case principalFromCtx ctx of Some p \<Rightarrow> p | None \<Rightarrow> az_principal c) in
        if \<not> Policy_Evaluate (az_policy c) who stream a then (w, Err (EBridge (BAuthz ErrDenied)))
        else inner w a control body)"

definition authz_Close :: "AuthzController \<Rightarrow> AuthzController" where "authz_Close c = c\<lparr>az_closed := True\<rparr>"

section \<open>A handler that forwards\<close>

type_synonym transform = "StreamID \<Rightarrow> u16 \<Rightarrow> ControlFlags \<Rightarrow> bytes \<Rightarrow> (u16 \<times> bytes) go"

record ProxyHandler =
  px_transform :: "transform option"
  px_closed :: bool


definition proxy_Close :: "ProxyHandler \<Rightarrow> ProxyHandler" where "proxy_Close h = h\<lparr>px_closed := True\<rparr>"

section \<open>A pair with failover\<close>

record 'k Redundant =
  rd_primary :: 'k
  rd_standby :: 'k
  rd_policy :: "(rcp_error \<Rightarrow> bool) option"
  rd_failovers :: u32
  rd_closed :: bool

definition redundancy_NewController :: "'k \<Rightarrow> 'k \<Rightarrow> (rcp_error \<Rightarrow> bool) option \<Rightarrow> 'k Redundant" where
  "redundancy_NewController p s policy =
     \<lparr>rd_primary = p, rd_standby = s, rd_policy = policy, rd_failovers = 0, rd_closed = False\<rparr>"

text \<open>The two critical sections of \<open>Request\<close>: the choice of the active controller, and what its answer leads to.\<close>

definition redundancy_begin :: "'k Redundant \<Rightarrow> 'k go" where
  "redundancy_begin c = (if rd_closed c then Err (EUdp ErrClosed) else Ok (rd_primary c))"

definition redundancy_finish :: "'k \<Rightarrow> Message go \<Rightarrow> 'k Redundant \<Rightarrow> 'k Redundant" where
  "redundancy_finish active answer c =
     (case answer of
        Err er \<Rightarrow>
          if (case rd_policy c of Some f \<Rightarrow> \<not> f er | None \<Rightarrow> False) then c
          else if rd_primary c = active
          then c\<lparr>rd_primary := rd_standby c, rd_standby := rd_primary c, rd_failovers := rd_failovers c + 1\<rparr>
          else c
      | _ \<Rightarrow> c)"

definition redundancy_Request :: "('k \<Rightarrow> 'w request) \<Rightarrow> 'k Redundant \<times> 'w \<Rightarrow> u16 \<Rightarrow> ControlFlags \<Rightarrow> bytes \<Rightarrow> ('k Redundant \<times> 'w) \<times> Message go" where
  "redundancy_Request requests s a control body =
     (let (c, w) = s in
      case redundancy_begin c of
        Err er \<Rightarrow> ((c, w), Err er)
      | Panic \<Rightarrow> ((c, w), Panic)
      | Ok active \<Rightarrow> (case requests active w a control body of (w', answer) \<Rightarrow> ((redundancy_finish active answer c, w'), answer)))"

definition redundancy_Close :: "'k Redundant \<Rightarrow> 'k Redundant" where "redundancy_Close c = c\<lparr>rd_closed := True\<rparr>"

section \<open>One request to many\<close>





record 'k Group =
  gr_members :: "'k list"
  gr_closed :: bool

fun firstNil :: "nat \<Rightarrow> 'k option list \<Rightarrow> nat option" where
  "firstNil i [] = None"
| "firstNil i (None # ms) = Some i"
| "firstNil i (Some m # ms) = firstNil (Suc i) ms"

definition NewGroup :: "'k option list \<Rightarrow> 'k Group go" where
  "NewGroup ms =
     (if length ms = 0 then Err (EBridge (BZonegroup ErrNoMembers))
      else case firstNil 0 ms of
             Some i \<Rightarrow> Err (EBridge (BZonegroup (ErrNilMember i)))
           | None \<Rightarrow> Ok \<lparr>gr_members = List.map_filter id ms, gr_closed = False\<rparr>)"



section \<open>Ownership of servers\<close>

type_synonym 'k Federation = "string \<rightharpoonup> 'k"

definition federation_Register :: "'k Federation \<Rightarrow> string \<Rightarrow> 'k \<Rightarrow> 'k Federation \<times> unit go" where
  "federation_Register r key c =
     (if r key \<noteq> None then (r, Err (EBridge (BFederation ErrAlreadyOwned))) else (r(key \<mapsto> c), Ok ()))"

definition federation_Release :: "'k Federation \<Rightarrow> string \<Rightarrow> 'k Federation \<times> unit go" where
  "federation_Release r key =
     (if r key = None then (r, Err (EBridge (BFederation ErrNotOwned))) else (r(key := None), Ok ()))"

definition federation_Lookup :: "'k Federation \<Rightarrow> string \<Rightarrow> 'k go" where
  "federation_Lookup r key = (case r key of Some c \<Rightarrow> Ok c | None \<Rightarrow> Err (EBridge (BFederation ErrNotOwned)))"

definition federation_Owner :: "'k Federation \<Rightarrow> string \<Rightarrow> 'k option" where "federation_Owner r key = r key"

definition TransferOwnership :: "'k Federation \<Rightarrow> string \<Rightarrow> 'k \<Rightarrow> 'k \<Rightarrow> 'k Federation \<times> unit go" where
  "TransferOwnership r key old new =
     (case r key of
        None \<Rightarrow> (r, Err (EBridge (BFederation ErrNotOwned)))
      | Some current \<Rightarrow>
          if current \<noteq> old then (r, Err (EBridge (BFederation ErrNotOwned))) else (r(key \<mapsto> new), Ok ()))"

section \<open>What the wrappers promise\<close>

text \<open>The policy decides by its first entry that matches.\<close>

definition covers :: "string \<Rightarrow> StreamID \<Rightarrow> u16 \<Rightarrow> PolicyEntry \<Rightarrow> bool" where
  "covers who stream endpoint e \<longleftrightarrow>
     matchPrincipal (Principal e) who \<and> matchStream (pe_Stream e) stream \<and> matchEndpoint (pe_Endpoint e) endpoint"

lemma Policy_Evaluate_first:
  "Policy_Evaluate p who stream endpoint =
     (case find (covers who stream endpoint) p of Some e \<Rightarrow> pe_Action e = Allow | None \<Rightarrow> False)"
  by (induction p) (simp_all add: covers_def)

text \<open>A policy lets through what its first matching entry allows, and nothing else. A request through an open
  policy controller is that of the wrapped controller when the first entry that covers the principal, the stream and
  the endpoint is an allowing one; otherwise, or when the controller is closed, nothing reaches the wrapped controller
  and the call fails. An entry for the endpoint 255 covers every endpoint.\<close>

theorem policy_gates_requests:
  "authz_Request stream inner c ctx w a control body =
     (let who = (case ctx of Some p \<Rightarrow> if p = [] then az_principal c else p | None \<Rightarrow> az_principal c) in
      if az_closed c then (w, Err (EUdp ErrClosed))
      else case find (covers who stream a) (az_policy c) of
             Some e \<Rightarrow> if pe_Action e = Allow then inner w a control body else (w, Err (EBridge (BAuthz ErrDenied)))
           | None \<Rightarrow> (w, Err (EBridge (BAuthz ErrDenied)))) \<and>
   Policy_Evaluate (Policy_Allow NewPolicy who stream 255 @ p) who stream endpoint"
  by (simp add: authz_Request_def principalFromCtx_def Policy_Evaluate_first Policy_Allow_def NewPolicy_def covers_def
      matchPrincipal_def matchStream_def matchEndpoint_def EndpointAny_def Let_def split: option.split)

text \<open>The runs of a pair with the requests that are under way and the log of those that have finished.\<close>

inductive red_run :: "'k \<Rightarrow> 'k \<Rightarrow> (rcp_error \<Rightarrow> bool) option \<Rightarrow> ('k \<times> Message go) list \<Rightarrow> 'k Redundant \<times> 'k list \<Rightarrow> bool" for p s policy where
  run_new: "red_run p s policy [] (redundancy_NewController p s policy, [])"
| run_begin: "red_run p s policy log (c, fl) \<Longrightarrow> redundancy_begin c = Ok k \<Longrightarrow> red_run p s policy log (c, fl @ [k])"
| run_finish: "red_run p s policy log (c, xs @ k # ys) \<Longrightarrow>
    red_run p s policy (log @ [(k, answer)]) (redundancy_finish k answer c, xs @ ys)"
| run_close: "red_run p s policy log (c, fl) \<Longrightarrow> red_run p s policy log (redundancy_Close c, fl)"

text \<open>The controllers whose requests failed with an error that calls for a failover, in the order of the failures.\<close>

fun failures :: "(rcp_error \<Rightarrow> bool) option \<Rightarrow> ('k \<times> Message go) list \<Rightarrow> 'k list" where
  "failures policy [] = []"
| "failures policy ((k, Err er) # log) =
     (if (case policy of None \<Rightarrow> True | Some f \<Rightarrow> f er) then k # failures policy log else failures policy log)"
| "failures policy (_ # log) = failures policy log"

lemma failures_append: "failures policy (xs @ ys) = failures policy xs @ failures policy ys"
  by (induction policy xs rule: failures.induct) simp_all

text \<open>The bursts: runs of failures of the same controller, from the first of the primary on.\<close>

definition bursts :: "'k \<Rightarrow> 'k list \<Rightarrow> 'k list" where
  "bursts s ks = remdups_adj (dropWhile (\<lambda>k. k = s) ks)"

lemma bursts_snoc: "bursts s (ks @ [k]) =
  (if bursts s ks = [] then (if k = s then [] else [k]) else if last (bursts s ks) = k then bursts s ks else bursts s ks @ [k])"
proof (cases "\<forall>x\<in>set ks. x = s")
  case True
  then have "dropWhile (\<lambda>k. k = s) ks = []" by simp
  then show ?thesis using True by (auto simp: bursts_def dropWhile_append)
next
  case False
  then have "dropWhile (\<lambda>k. k = s) ks \<noteq> []" by (auto simp: dropWhile_eq_Nil_conv)
  moreover have "dropWhile (\<lambda>k. k = s) (ks @ [k]) = dropWhile (\<lambda>k. k = s) ks @ [k]" using False by (auto simp: dropWhile_append)
  ultimately show ?thesis by (simp only: bursts_def remdups_adj_snoc last_remdups_adj remdups_adj_Nil_iff if_False simp_thms split: if_splits)
qed

lemma red_run_state:
  assumes "red_run p s policy log x" "p \<noteq> s"
  shows "rd_policy (fst x) = policy \<and> set (snd x) \<subseteq> {p, s} \<and> set (bursts s (failures policy log)) \<subseteq> {p, s} \<and>
    rd_failovers (fst x) = word_of_nat (length (bursts s (failures policy log))) \<and>
    rd_standby (fst x) = (if bursts s (failures policy log) = [] then s else last (bursts s (failures policy log))) \<and>
    rd_primary (fst x) \<noteq> rd_standby (fst x) \<and> {rd_primary (fst x), rd_standby (fst x)} = {p, s}"
  using assms(1)
proof (induction rule: red_run.induct)
  case run_new
  then show ?case using assms(2) by (simp add: redundancy_NewController_def bursts_def)
next
  case (run_begin log c fl k)
  then show ?case by (auto simp: redundancy_begin_def split: if_splits)
next
  case (run_finish log c xs k ys answer)
  have fl: "failures policy (log @ [(k, answer)]) = failures policy log @
      (case answer of Err er \<Rightarrow> if (case policy of None \<Rightarrow> True | Some f \<Rightarrow> f er) then [k] else [] | _ \<Rightarrow> [])"
    by (simp add: failures_append split: outcome.split)
  have k: "k = rd_primary c \<or> k = rd_standby c" using run_finish.IH by auto
  show ?case unfolding fl
    using run_finish.IH k assms(2)
    by (auto simp: redundancy_finish_def bursts_snoc split: outcome.splits option.splits if_splits)
next
  case (run_close log c fl)
  then show ?case by (auto simp: redundancy_Close_def split: if_splits)
qed

text \<open>C23: a burst of failures costs one failover. In every run of a pair, however its requests overlap, take the
  controllers whose requests failed with an error that calls for a failover, in the order in which these failures came in,
  leave out those of the standby before the first one of the primary, and count successive failures of one controller
  once: that is the number of failovers so far (in 32 bits), and the last of them is the standby now. In particular any number of overlapping
  requests that fail on one controller cost at most one failover; answers, errors that the policy lets pass, and new requests
  cost none; and the members are always the two controllers the pair was made of.\<close>

theorem redundancy_fails_over_per_burst:
  assumes "red_run p s policy log (c, fl)" "p \<noteq> s"
  shows "rd_failovers c = word_of_nat (length (bursts s (failures policy log))) \<and>
    rd_standby c = last (s # bursts s (failures policy log)) \<and> rd_primary c = (if rd_standby c = s then p else s) \<and>
    (\<forall>k. set (failures policy log) \<subseteq> {k} \<longrightarrow> rd_failovers c = (if k \<noteq> s \<and> failures policy log \<noteq> [] then 1 else 0))"
proof -
  note st = red_run_state [OF assms, simplified]
  have "rd_failovers c = (if k \<noteq> s \<and> failures policy log \<noteq> [] then 1 else 0)" if "set (failures policy log) \<subseteq> {k}" for k
  proof -
    have "failures policy log = replicate (length (failures policy log)) k" using that by (intro replicate_eqI) auto
    then obtain n where n: "failures policy log = replicate n k" by blast
    have "dropWhile (\<lambda>k. k = s) (replicate n k) = (if k = s then [] else replicate n k)" by (cases n) auto
    then have "bursts s (failures policy log) = (if k \<noteq> s \<and> failures policy log \<noteq> [] then [k] else [])"
      using n by (simp add: bursts_def remdups_adj_replicate)
    then show ?thesis using st by simp
  qed
  then show ?thesis using st assms(2) by (auto simp: doubleton_eq_iff)
qed

text \<open>Two requests overlap on the first controller and both fail: one failover.\<close>

theorem redundancy_fails_over_per_burst_witness:
  "\<exists>c. red_run (0 :: nat) 1 None [(0, Err (EUdp ErrTimeout)), (0, Err (EUdp ErrClosed))] (c, []) \<and> rd_failovers c = 1 \<and> rd_primary c = 1"
proof -
  let ?c = "redundancy_NewController (0 :: nat) 1 None" let ?t = "Err (EUdp ErrTimeout)" let ?e = "Err (EUdp ErrClosed)"
  have b: "redundancy_begin ?c = Ok 0" by (simp add: redundancy_begin_def redundancy_NewController_def)
  have "red_run 0 1 None [] (?c, [] @ 0 # [0])" using run_begin [OF run_begin [OF run_new b] b] by simp
  then have "red_run 0 1 None ([] @ [(0, ?t)]) (redundancy_finish 0 ?t ?c, [] @ 0 # [])" by (rule run_finish)
  then have "red_run 0 1 None (([] @ [(0, ?t)]) @ [(0, ?e)]) (redundancy_finish 0 ?e (redundancy_finish 0 ?t ?c), [] @ [])" by (rule run_finish)
  then obtain c2 where run: "red_run (0 :: nat) 1 None [(0, ?t), (0, ?e)] (c2, [])" by auto
  from redundancy_fails_over_per_burst [OF run] show ?thesis using run by (intro exI [of _ c2]) (simp add: bursts_def)
qed




section \<open>Two hops\<close>










section \<open>Owners keep their servers\<close>

text \<open>What each operation of a registry does to the owner of a server.\<close>

lemma federation_owner_changes:
  "federation_Owner (fst (federation_Register r key c)) key' = (if key' = key \<and> r key = None then Some c else r key')"
  "federation_Owner (fst (federation_Release r key)) key' = (if key' = key then None else r key')"
  "federation_Owner (fst (TransferOwnership r key old new)) key' = (if key' = key \<and> r key = Some old then Some new else r key')"
  "federation_Lookup r key = Ok c \<longleftrightarrow> federation_Owner r key = Some c"
  by (auto simp: federation_Owner_def federation_Register_def federation_Release_def TransferOwnership_def federation_Lookup_def
      split: option.split)

end
