(* ===== verification/Formal_Checks.thy ===== *)
theory Formal_Checks
  imports Server_Properties E2e_Watchdog Powerstate
begin

text \<open>
  The package \<open>formal\<close>: temporal operators over finite traces, a checker of named invariants, and the traces and
  invariants that the repository states for its three state machines (the lifecycle of a server, the power states
  of an endpoint, the safe state of a stream). The package checks its invariants on a few traces; here the invariants
  that are safety properties are proved for every trace, the others for the traces the package builds, for every root
  stream, address and timeout. A value of type \<open>any\<close> is one of the three kinds that the package puts into a state.
\<close>

section \<open>Traces and invariants\<close>

datatype any = AInt int | AString string | ABool bool

type_synonym formal_State = "string \<rightharpoonup> any"

text \<open>The type assertions \<open>v, _ := s[k].(T)\<close>: the zero value when the key or the type does not fit.\<close>

definition getInt :: "formal_State \<Rightarrow> string \<Rightarrow> int" where
  "getInt s k = (case s k of Some (AInt i) \<Rightarrow> i | _ \<Rightarrow> 0)"

definition getString :: "formal_State \<Rightarrow> string \<Rightarrow> string" where
  "getString s k = (case s k of Some (AString x) \<Rightarrow> x | _ \<Rightarrow> [])"

definition getBool :: "formal_State \<Rightarrow> string \<Rightarrow> bool" where
  "getBool s k = (case s k of Some (ABool b) \<Rightarrow> b | _ \<Rightarrow> False)"

fun Always :: "(formal_State \<Rightarrow> bool) \<Rightarrow> formal_State list \<Rightarrow> bool" where
  "Always p [] = True"
| "Always p (s # trace) = (if \<not> p s then False else Always p trace)"

fun Eventually :: "(formal_State \<Rightarrow> bool) \<Rightarrow> formal_State list \<Rightarrow> bool" where
  "Eventually p [] = False"
| "Eventually p (s # trace) = (if p s then True else Eventually p trace)"

text \<open>The loop of \<open>Until\<close>, with the states before the current one.\<close>

fun untilLoop :: "(formal_State \<Rightarrow> bool) \<Rightarrow> (formal_State \<Rightarrow> bool) \<Rightarrow> formal_State list \<Rightarrow> formal_State list \<Rightarrow> bool" where
  "untilLoop p q prior [] = False"
| "untilLoop p q prior (s # trace) =
     (if q s then list_all p prior else if \<not> p s then False else untilLoop p q (prior @ [s]) trace)"

definition Until :: "(formal_State \<Rightarrow> bool) \<Rightarrow> (formal_State \<Rightarrow> bool) \<Rightarrow> formal_State list \<Rightarrow> bool" where
  "Until p q trace = untilLoop p q [] trace"

fun sequenceLoop :: "nat \<Rightarrow> (formal_State \<Rightarrow> formal_State) \<Rightarrow> formal_State \<Rightarrow> formal_State list" where
  "sequenceLoop 0 gen s = []"
| "sequenceLoop (Suc n) gen s = s # sequenceLoop n gen (gen s)"

text \<open>\<open>make([]State, 0, n)\<close> panics on a negative capacity.\<close>

definition StateSequence :: "formal_State \<Rightarrow> (formal_State \<Rightarrow> formal_State) \<Rightarrow> int \<Rightarrow> formal_State list go" where
  "StateSequence initial gen n = (if n < 0 then Panic else Ok (sequenceLoop (nat n) gen initial))"

record Invariant =
  inv_Name :: string
  inv_Check :: "formal_State list \<Rightarrow> bool"

type_synonym Checker = "Invariant list"

definition NewChecker :: Checker where "NewChecker = []"

definition Checker_Add :: "Checker \<Rightarrow> Invariant \<Rightarrow> Checker" where "Checker_Add c i = c @ [i]"

text \<open>The name of the first invariant that the trace falsifies, if any.\<close>

fun Checker_Check :: "Checker \<Rightarrow> formal_State list \<Rightarrow> string option" where
  "Checker_Check [] trace = None"
| "Checker_Check (i # is) trace = (if \<not> inv_Check i trace then Some (inv_Name i) else Checker_Check is trace)"

section \<open>The lifecycle\<close>

fun LifecycleState_String :: "LifecycleState \<Rightarrow> string" where
  "LifecycleState_String StateUnconfigured = ''unconfigured''"
| "LifecycleState_String StateHWLocked = ''hw-locked''"
| "LifecycleState_String StateFullyConfigured = ''fully-configured''"

fun LifecycleRank :: "LifecycleState \<Rightarrow> int" where
  "LifecycleRank StateUnconfigured = 0"
| "LifecycleRank StateHWLocked = 1"
| "LifecycleRank StateFullyConfigured = 2"

definition LifecycleStateOf :: "Server \<Rightarrow> formal_State" where
  "LifecycleStateOf srv = [''lifecycle'' \<mapsto> AString (LifecycleState_String (lstate srv)),
     ''lifecycle_rank'' \<mapsto> AInt (LifecycleRank (lstate srv))]"

type_synonym LifecycleAction = "Server \<Rightarrow> Server \<times> rcp_error option"

fun LifecycleTrace :: "Server \<Rightarrow> LifecycleAction list \<Rightarrow> formal_State list" where
  "LifecycleTrace srv [] = [LifecycleStateOf srv]"
| "LifecycleTrace srv (act # acts) = LifecycleStateOf srv # LifecycleTrace (fst (act srv)) acts"

fun legalFrom :: "int \<Rightarrow> formal_State list \<Rightarrow> bool" where
  "legalFrom prev [] = True"
| "legalFrom prev (s # trace) =
     (let rank = getInt s ''lifecycle_rank'' in
      if rank = prev \<or> rank = prev + 1 \<or>
         prev = LifecycleRank StateHWLocked \<and> rank = LifecycleRank StateUnconfigured
      then legalFrom rank trace else False)"

definition legalTransitions :: "formal_State list \<Rightarrow> bool" where
  "legalTransitions trace = (case trace of [] \<Rightarrow> True | s # rest \<Rightarrow> legalFrom (getInt s ''lifecycle_rank'') rest)"

fun neverRegresses :: "bool \<Rightarrow> formal_State list \<Rightarrow> bool" where
  "neverRegresses saw [] = True"
| "neverRegresses saw (s # trace) =
     (let rank = getInt s ''lifecycle_rank'' in
      if saw \<and> rank \<noteq> LifecycleRank StateFullyConfigured then False
      else neverRegresses (saw \<or> rank = LifecycleRank StateFullyConfigured) trace)"

definition LifecycleInvariants :: "Invariant list" where
  "LifecycleInvariants =
     [\<lparr>inv_Name = ''lifecycle rank only ever changes by a legal transition'', inv_Check = legalTransitions\<rparr>,
      \<lparr>inv_Name = ''lifecycle never regresses once fully-configured'', inv_Check = neverRegresses False\<rparr>,
      \<lparr>inv_Name = ''lifecycle eventually reaches fully-configured'',
       inv_Check = Eventually (\<lambda>s. getInt s ''lifecycle_rank'' = LifecycleRank StateFullyConfigured)\<rparr>]"

definition pin10 :: "u16 \<Rightarrow> PinAssignment" where
  "pin10 addr = \<lparr>Pin = 10, Endpoint = addr, SignalIndex = 0\<rparr>"

definition flushAt4 :: QueueConfig where
  "flushAt4 = \<lparr>FlushThreshold = 4, FlushTimeMillis = 0, HeartbeatIntervalMillis = 0\<rparr>"

definition NewValidLifecycleTrace :: "StreamID \<Rightarrow> u16 \<Rightarrow> (Server \<times> LifecycleAction list) go" where
  "NewValidLifecycleTrace root_client addr =
     (case ClaimRoot NewServer root_client of
        (srv, Some er) \<Rightarrow> Err er
      | (srv, None) \<Rightarrow> Ok (srv,
          [\<lambda>s. AddEndpoint s root_client addr EndpointTypeGPIO,
           \<lambda>s. SetPinAssignment s root_client (pin10 addr),
           AdvanceToHWLocked,
           \<lambda>s. WriteFunctional s root_client addr [1],
           \<lambda>s. SetQueueConfig s root_client flushAt4,
           AdvanceToFullyConfigured]))"

definition NewDemotionThenReconfigureLifecycleTrace :: "nanos \<Rightarrow> StreamID \<Rightarrow> u16 \<Rightarrow> (Server \<times> LifecycleAction list) go" where
  "NewDemotionThenReconfigureLifecycleTrace now root_client addr =
     (case ClaimRoot NewServer root_client of
        (srv, Some er) \<Rightarrow> Err er
      | (srv, None) \<Rightarrow> Ok (srv,
          [\<lambda>s. AddEndpoint s root_client addr EndpointTypeGPIO,
           \<lambda>s. SetPinAssignment s root_client (pin10 addr),
           AdvanceToHWLocked,
           \<lambda>s. DemoteToUnconfigured s now root_client,
           AdvanceToHWLocked,
           \<lambda>s. WriteFunctional s root_client addr [1],
           \<lambda>s. SetQueueConfig s root_client flushAt4,
           AdvanceToFullyConfigured]))"

definition NewOutOfOrderLifecycleTrace :: "StreamID \<Rightarrow> (Server \<times> LifecycleAction list) go" where
  "NewOutOfOrderLifecycleTrace root_client =
     (case ClaimRoot NewServer root_client of
        (srv, Some er) \<Rightarrow> Err er
      | (srv, None) \<Rightarrow> Ok (srv, [AdvanceToFullyConfigured]))"

section \<open>The safe state\<close>

text \<open>The clock that the actions advance is part of the state.\<close>

definition SafeStateOf :: "StreamID \<Rightarrow> Supervisor \<times> nanos \<Rightarrow> formal_State" where
  "SafeStateOf stream s = [''in_safe_state'' \<mapsto> ABool (InSafeState (fst s) (snd s) stream)]"

type_synonym SafeStateAction = "Supervisor \<times> nanos \<Rightarrow> Supervisor \<times> nanos"

fun SafeStateTrace :: "StreamID \<Rightarrow> Supervisor \<times> nanos \<Rightarrow> SafeStateAction list \<Rightarrow> formal_State list" where
  "SafeStateTrace stream s [] = [SafeStateOf stream s]"
| "SafeStateTrace stream s (act # acts) = SafeStateOf stream s # SafeStateTrace stream (act s) acts"

definition lastInSafeState :: "formal_State list \<Rightarrow> bool \<Rightarrow> bool" where
  "lastInSafeState trace want =
     (if trace = [] then False else getBool (trace ! (length trace - 1)) ''in_safe_state'' = want)"

definition inSafeState :: "formal_State \<Rightarrow> bool" where "inSafeState s = getBool s ''in_safe_state''"

definition TimeoutInvariants :: "Invariant list" where
  "TimeoutInvariants =
     [\<lparr>inv_Name = ''clears at least once after activity resumes'', inv_Check = Eventually (\<lambda>s. \<not> inSafeState s)\<rparr>,
      \<lparr>inv_Name = ''eventually trips once the configured timeout elapses'', inv_Check = Eventually inSafeState\<rparr>,
      \<lparr>inv_Name = ''clears again after the trip, by the trace's end'', inv_Check = (\<lambda>trace. lastInSafeState trace False)\<rparr>]"

text \<open>The rest of the trace from the first rising edge on.\<close>

fun fromTrip :: "formal_State list \<Rightarrow> formal_State list option" where
  "fromTrip (s # t # trace) = (if \<not> inSafeState s \<and> inSafeState t then Some (t # trace) else fromTrip (t # trace))"
| "fromTrip trace = None"

definition stickyTrip :: "formal_State list \<Rightarrow> bool" where
  "stickyTrip trace = (case fromTrip trace of None \<Rightarrow> False | Some rest \<Rightarrow> list_all inSafeState (butlast rest))"

definition MonotonicityInvariants :: "Invariant list" where
  "MonotonicityInvariants =
     [\<lparr>inv_Name = ''the violation eventually trips the safe-state verdict'', inv_Check = Eventually inSafeState\<rparr>,
      \<lparr>inv_Name = ''the trip is sticky: once tripped, later valid arrivals don't clear it early'', inv_Check = stickyTrip\<rparr>,
      \<lparr>inv_Name = ''Reset clears the trip by the trace's end'', inv_Check = (\<lambda>trace. lastInSafeState trace False)\<rparr>]"

definition observeNow :: "StreamID \<Rightarrow> u32 \<Rightarrow> SafeStateAction" where
  "observeNow stream sq s = (fst (Observe (fst s) (snd s) stream sq), snd s)"

definition advanceClock :: "nanos \<Rightarrow> SafeStateAction" where "advanceClock d s = (fst s, snd s + d)"

definition NewTimeoutTrace :: "StreamID \<Rightarrow> nanos \<Rightarrow> (Supervisor \<times> nanos) \<times> SafeStateAction list" where
  "NewTimeoutTrace stream timeout =
     ((NewSupervisor \<lparr>Timeout = timeout, RequireMonotonicSequence = False, SequenceOverflowWraps = False\<rparr>, 0),
      [observeNow stream 0, advanceClock (timeout div 2), advanceClock timeout, observeNow stream 1])"

definition NewMonotonicityTrace :: "StreamID \<Rightarrow> (Supervisor \<times> nanos) \<times> SafeStateAction list" where
  "NewMonotonicityTrace stream =
     ((NewSupervisor \<lparr>Timeout = 3600000000000, RequireMonotonicSequence = True, SequenceOverflowWraps = False\<rparr>, 0),
      [observeNow stream 0, observeNow stream 1, observeNow stream 5, observeNow stream 6,
       \<lambda>s. (Reset (fst s) (snd s) stream, snd s)])"

section \<open>The power states\<close>

definition PowerState_String :: "PowerState \<Rightarrow> string" where
  "PowerState_String s =
     (if s = PowerNormal then ''Normal'' else if s = PowerStandBy then ''StandBy'' else if s = PowerSleep then ''Sleep''
      else if s = PowerUnpowered then ''Unpowered'' else ''Unknown'')"

definition StartKind_String :: "StartKind \<Rightarrow> string" where
  "StartKind_String k = (if k = StartHot then ''Hot'' else if k = StartCold then ''Cold'' else ''Unknown'')"

definition PowerStateOf :: "WakeupEndpoint \<Rightarrow> Driver \<Rightarrow> formal_State" where
  "PowerStateOf ep drv = [''power'' \<mapsto> AString (PowerState_String (wakeup_state ep)),
     ''start_kind'' \<mapsto> AString (StartKind_String (lastStartKind ep)), ''drv_pending'' \<mapsto> AInt (int (Driver_Pending drv))]"

text \<open>The handshakes that were transmitted are part of the state.\<close>

type_synonym PowerAction = "WakeupEndpoint \<times> Driver \<times> WakeHandshake list \<Rightarrow> WakeupEndpoint \<times> Driver \<times> WakeHandshake list"

fun PowerTrace :: "WakeupEndpoint \<times> Driver \<times> WakeHandshake list \<Rightarrow> PowerAction list \<Rightarrow> formal_State list" where
  "PowerTrace s [] = [PowerStateOf (fst s) (fst (snd s))]"
| "PowerTrace s (act # acts) = PowerStateOf (fst s) (fst (snd s)) # PowerTrace (act s) acts"

definition PowerInvariants :: "Invariant list" where
  "PowerInvariants =
     [\<lparr>inv_Name = ''power state is never Unpowered'',
       inv_Check = Always (\<lambda>s. getString s ''power'' \<noteq> PowerState_String PowerUnpowered)\<rparr>,
      \<lparr>inv_Name = ''wake-handshake retransmission queue eventually drains'',
       inv_Check = Eventually (\<lambda>s. getInt s ''drv_pending'' = 0)\<rparr>,
      \<lparr>inv_Name = ''a wake eventually determines a cold/hot-start kind'',
       inv_Check = Eventually (\<lambda>s. getString s ''start_kind'' \<noteq> StartKind_String StartUnknown)\<rparr>]"

definition writeTo :: "Server \<Rightarrow> StreamID \<Rightarrow> u16 \<Rightarrow> PowerState \<Rightarrow> PowerAction" where
  "writeTo srv root_client addr target s =
     (fst (wakeup_HandleRequest srv (fst s) root_client
        (zeroMessage\<lparr>ByteBusID := addr, Control := FlagWrite, Body := EncodePowerStateRequest target\<rparr>)), snd s)"

definition pumpOnce :: PowerAction where
  "pumpOnce s =
     (case s of (e, d, sent) \<Rightarrow>
        case Driver_Pump (\<lambda>sent target h. (sent @ [h], None)) d e sent of (d', e', sent', _) \<Rightarrow> (e', d', sent'))"

definition wakeCycleConfig :: WakeupConfig where
  "wakeCycleConfig = \<lparr>wakeup_Enabled = True, WakeHandshakeIntervalMillis = 10, WakeHandshakeRepeatCount = 3\<rparr>"

definition NewWakeCycleTrace :: "StreamID \<Rightarrow> u16 \<Rightarrow> ((WakeupEndpoint \<times> Driver \<times> WakeHandshake list) \<times> PowerAction list) go" where
  "NewWakeCycleTrace root_client addr =
     (case ClaimRoot NewServer root_client of
        (srv, Some er) \<Rightarrow> Err er
      | (srv, None) \<Rightarrow>
          (case AddEndpoint srv root_client addr EndpointTypeWakeup of
             (srv1, Some er) \<Rightarrow> Err er
           | (srv1, None) \<Rightarrow>
               (case wakeup_Configure srv1 (wakeup_NewEndpoint addr) root_client wakeCycleConfig of
                  (srv2, ep, Some er) \<Rightarrow> Err er
                | (srv2, ep, None) \<Rightarrow>
                    Ok ((ep, NewDriver root_client, []),
                        [writeTo srv2 root_client addr PowerStandBy, writeTo srv2 root_client addr PowerNormal,
                         writeTo srv2 root_client addr PowerSleep, writeTo srv2 root_client addr PowerNormal,
                         pumpOnce, pumpOnce, pumpOnce, pumpOnce]))))"

section \<open>The operators are those of temporal logic\<close>

text \<open>C960: on finite traces the operators mean what linear temporal logic says, the checker reports no violation
  exactly when every invariant holds, and a generated sequence has the states that the generator steps through.\<close>

theorem temporal_operators:
  "Always p trace = (\<forall>i<length trace. p (trace ! i)) \<and>
   Eventually p trace = (\<exists>i<length trace. p (trace ! i)) \<and>
   Until p q trace = (\<exists>i<length trace. q (trace ! i) \<and> (\<forall>j<i. p (trace ! j))) \<and>
   (Checker_Check c trace = None \<longleftrightarrow> (\<forall>inv\<in>set c. inv_Check inv trace)) \<and>
   (0 \<le> n \<longrightarrow> StateSequence s gen n = Ok (map (\<lambda>i. (gen ^^ i) s) [0..<nat n]))"
proof -
  have alw: "Always p trace = list_all p trace" by (induction trace) auto
  have ev: "Eventually p trace = list_ex p trace" by (induction trace) auto
  have loop: "untilLoop p q prior trace \<longleftrightarrow>
      (\<exists>i<length trace. q (trace ! i) \<and> (\<forall>j<i. p (trace ! j)) \<and> list_all p prior)" if "list_all p prior" for prior
    using that
  proof (induction trace arbitrary: prior)
    case (Cons s trace)
    show ?case
    proof (cases "q s")
      case True
      then show ?thesis using Cons.prems by (auto intro: exI [of _ 0])
    next
      case False
      have "(\<exists>i<length (s # trace). q ((s # trace) ! i) \<and> (\<forall>j<i. p ((s # trace) ! j))) \<longleftrightarrow>
          p s \<and> (\<exists>i<length trace. q (trace ! i) \<and> (\<forall>j<i. p (trace ! j)))"
        using False by (auto simp: All_less_Suc2 Ex_less_Suc2)
      then show ?thesis using Cons False by (cases "p s") auto
    qed
  qed simp
  have chk: "Checker_Check c trace = None \<longleftrightarrow> (\<forall>inv\<in>set c. inv_Check inv trace)" by (induction c) auto
  have sq: "sequenceLoop m gen s = map (\<lambda>i. (gen ^^ i) s) [0..<m]" for m s
    by (induction m arbitrary: s) (simp_all add: upt_conv_Cons map_Suc_upt [symmetric] funpow_swap1 del: upt_Suc)
  show ?thesis using loop [of "[]"] chk by (simp add: alw ev Until_def StateSequence_def sq list_all_length list_ex_length)
qed

section \<open>The lifecycle invariants hold on every trace\<close>

lemma LifecycleStateOf_rank: "getInt (LifecycleStateOf srv) ''lifecycle_rank'' = LifecycleRank (lstate srv)"
  by (simp add: getInt_def LifecycleStateOf_def)

definition serverActions :: "LifecycleAction list \<Rightarrow> bool" where
  "serverActions acts \<longleftrightarrow> (\<forall>act\<in>set acts. \<forall>s. \<exists>now rq. sstep now rq s (fst (act s)))"

lemma serverActions_Cons: "serverActions (act # acts) \<Longrightarrow> (\<exists>now rq. sstep now rq s (fst (act s))) \<and> serverActions acts"
  by (simp add: serverActions_def)

lemma step_rank:
  assumes "sstep now rq s s'"
  shows "LifecycleRank (lstate s') = LifecycleRank (lstate s) \<or> LifecycleRank (lstate s') = LifecycleRank (lstate s) + 1 \<or>
    lstate s = StateHWLocked \<and> lstate s' = StateUnconfigured"
  using sstep_lifecycle [OF assms] by (cases "lstate s' = lstate s") auto

lemma legal_traces:
  "serverActions acts \<Longrightarrow> legalFrom (LifecycleRank (lstate srv)) (tl (LifecycleTrace srv acts))"
proof (induction acts arbitrary: srv)
  case (Cons act acts)
  obtain now rq where st: "sstep now rq srv (fst (act srv))" and acts: "serverActions acts"
    using serverActions_Cons [of act acts srv] Cons.prems by blast
  have "LifecycleTrace (fst (act srv)) acts = LifecycleStateOf (fst (act srv)) # tl (LifecycleTrace (fst (act srv)) acts)"
    by (cases acts) simp_all
  then have tr: "tl (LifecycleTrace srv (act # acts)) = LifecycleStateOf (fst (act srv)) # tl (LifecycleTrace (fst (act srv)) acts)"
    by simp
  show ?case
    unfolding tr legalFrom.simps Let_def LifecycleStateOf_rank
    using Cons.IH [OF acts, of "fst (act srv)"] step_rank [OF st] by auto
qed simp

lemma regression_free_traces:
  "serverActions acts \<Longrightarrow> (saw \<longrightarrow> lstate srv = StateFullyConfigured) \<Longrightarrow> neverRegresses saw (LifecycleTrace srv acts)"
proof (induction acts arbitrary: srv saw)
  case (Cons act acts)
  obtain now rq where st: "sstep now rq srv (fst (act srv))" and acts: "serverActions acts"
    using serverActions_Cons [of act acts srv] Cons.prems by blast
  have "lstate srv = StateFullyConfigured \<longrightarrow> lstate (fst (act srv)) = StateFullyConfigured"
    using sstep_lifecycle [OF st] by (cases "lstate (fst (act srv)) = lstate srv") auto
  then show ?case
    using Cons.IH [OF acts, of "saw \<or> lstate srv = StateFullyConfigured" "fst (act srv)"] Cons.prems
    by (cases "lstate srv") (auto simp: LifecycleStateOf_rank Let_def)
qed (auto simp: LifecycleStateOf_rank Let_def)

lemma signal_IO0: "SignalName EndpointTypeGPIO 0 \<noteq> None"
  by (simp add: SignalName_def signalNames_def indexedSignalNames_def Let_def)

text \<open>The servers that the traces go through.\<close>

definition stage :: "StreamID \<Rightarrow> u16 \<Rightarrow> LifecycleState \<Rightarrow> PinAssignment list \<Rightarrow> bytes option \<Rightarrow> QueueConfig \<Rightarrow> Server" where
  "stage root_client addr l pins block q =
     NewServer\<lparr>lstate := l, acl := NewAccessController\<lparr>root := root_client, rootSet := True\<rparr>,
       rmap := NewRegisterMap\<lparr>RPinMap := \<lparr>entries = pins\<rparr>, Queues := q,
         endpoints := (case block of None \<Rightarrow> [] | Some d \<Rightarrow>
           [(addr, \<lparr>Generic = \<lparr>Address = addr, Type = EndpointTypeGPIO, Enabled = True\<rparr>, Functional = \<lparr>Data = d\<rparr>\<rparr>)])\<rparr>\<rparr>"

lemma stage_lstate [simp]: "lstate (stage root_client addr l pins block q) = l"
  by (simp add: stage_def)

lemma stage_steps:
  "ClaimRoot NewServer root_client = (stage root_client addr StateUnconfigured [] None (Queues NewRegisterMap), None)"
  "addr \<noteq> EP0 \<Longrightarrow> AddEndpoint (stage root_client addr StateUnconfigured [] None q) root_client addr EndpointTypeGPIO =
     (stage root_client addr StateUnconfigured [] (Some []) q, None)"
  "SetPinAssignment (stage root_client addr StateUnconfigured [] b q) root_client (pin10 addr) =
     (stage root_client addr StateUnconfigured [pin10 addr] b q, None)"
  "AdvanceToHWLocked (stage root_client addr StateUnconfigured [pin10 addr] (Some d) q) =
     (stage root_client addr StateHWLocked [pin10 addr] (Some d) q, None)"
  "DemoteToUnconfigured (stage root_client addr StateHWLocked pins b q) now root_client =
     (stage root_client addr StateUnconfigured pins b q, None)"
  "WriteFunctional (stage root_client addr l pins (Some d) q) root_client addr d' =
     (stage root_client addr l pins (Some d') q, None)"
  "SetQueueConfig (stage root_client addr StateHWLocked pins b q) root_client q' =
     (stage root_client addr StateHWLocked pins b q', None)"
  "AdvanceToFullyConfigured (stage root_client addr StateHWLocked pins (Some [x]) flushAt4) =
     (stage root_client addr StateFullyConfigured pins (Some [x]) flushAt4, None)"
  "AdvanceToFullyConfigured (stage root_client addr StateUnconfigured pins b q) =
     (stage root_client addr StateUnconfigured pins b q, Some (ELifecycle ErrLifecycleOutOfOrder))"
  using signal_IO0
  by (simp_all add: stage_def ClaimRoot_def AccessController_ClaimRoot_def NewServer_def NewAccessController_def AddEndpoint_def
      IsRoot_def HasEndpoint_def RegisterMap_Endpoint_def NewRegisterMap_def DeclareEndpoint_def SetPinAssignment_def PinMap_Set_def
      pin10_def AdvanceToHWLocked_def PinMap_Validate_def endpointType_def WriteFunctional_def CanAccess_def setFunctional_def
      SetQueueConfig_def flushAt4_def AdvanceToFullyConfigured_def functionalIncomplete_def Addresses_def QueueConfig_Validate_def
      DemoteToUnconfigured_def EndpointType_Valid_def EndpointTypeGPIO_def endpointTypeCount_def EndpointTypeUnassigned_def)

lemma built_actions:
  "NewValidLifecycleTrace root_client addr = Ok (srv, acts) \<Longrightarrow> serverActions acts"
  "NewDemotionThenReconfigureLifecycleTrace now root_client addr = Ok (srv, acts) \<Longrightarrow> serverActions acts"
  "NewOutOfOrderLifecycleTrace root_client = Ok (srv, acts) \<Longrightarrow> serverActions acts"
  by (auto simp: NewValidLifecycleTrace_def NewDemotionThenReconfigureLifecycleTrace_def NewOutOfOrderLifecycleTrace_def
      serverActions_def split: prod.splits option.splits) (rule exI, rule exI, rule sstep.intros)+

lemma built_traces:
  assumes "addr \<noteq> EP0"
  shows "\<exists>srv acts. NewValidLifecycleTrace root_client addr = Ok (srv, acts) \<and>
      map (\<lambda>s. getInt s ''lifecycle_rank'') (LifecycleTrace srv acts) = [0, 0, 0, 1, 1, 1, 2]"
    "\<exists>srv acts. NewDemotionThenReconfigureLifecycleTrace now root_client addr = Ok (srv, acts) \<and>
      map (\<lambda>s. getInt s ''lifecycle_rank'') (LifecycleTrace srv acts) = [0, 0, 0, 1, 0, 1, 1, 1, 2]"
    "\<exists>srv acts. NewOutOfOrderLifecycleTrace root_client = Ok (srv, acts) \<and>
      map (\<lambda>s. getInt s ''lifecycle_rank'') (LifecycleTrace srv acts) = [0, 0]"
  by (simp_all add: NewValidLifecycleTrace_def NewDemotionThenReconfigureLifecycleTrace_def NewOutOfOrderLifecycleTrace_def
      LifecycleStateOf_rank stage_steps(1) [of root_client addr] stage_steps(2) [OF assms] stage_steps(3-))

lemma reaches_rank: "Eventually (\<lambda>s. getInt s k = v) trace \<longleftrightarrow> v \<in> set (map (\<lambda>s. getInt s k) trace)"
  by (induction trace) auto

text \<open>The lifecycle invariants of the repository. On the trace of any sequence of operations of a server, from any server, the
  first two hold: the rank changes by legal transitions only, of which the demotion is one, and never leaves the fully
  configured one. So the checker accepts the trace exactly when the third holds, that is when the trace reaches that
  rank. It accepts the two traces that the package builds for any root stream and any endpoint other than EP0, the
  one with a demotion included, and rejects the one that configures out of order.\<close>

theorem lifecycle_traces_checked:
  assumes "serverActions acts" "addr \<noteq> EP0"
  shows "Checker_Check LifecycleInvariants (LifecycleTrace srv acts) =
      (if 2 \<in> set (map (\<lambda>s. getInt s ''lifecycle_rank'') (LifecycleTrace srv acts)) then None
       else Some ''lifecycle eventually reaches fully-configured'') \<and>
    (\<exists>srv1 acts1. NewValidLifecycleTrace root_client addr = Ok (srv1, acts1) \<and>
       Checker_Check LifecycleInvariants (LifecycleTrace srv1 acts1) = None) \<and>
    (\<exists>srv2 acts2. NewDemotionThenReconfigureLifecycleTrace now root_client addr = Ok (srv2, acts2) \<and>
       Checker_Check LifecycleInvariants (LifecycleTrace srv2 acts2) = None) \<and>
    (\<exists>srv3 acts3. NewOutOfOrderLifecycleTrace root_client = Ok (srv3, acts3) \<and>
       Checker_Check LifecycleInvariants (LifecycleTrace srv3 acts3) = Some ''lifecycle eventually reaches fully-configured'')"
proof -
  have all: "Checker_Check LifecycleInvariants (LifecycleTrace s acts) =
      (if 2 \<in> set (map (\<lambda>s. getInt s ''lifecycle_rank'') (LifecycleTrace s acts)) then None
       else Some ''lifecycle eventually reaches fully-configured'')" if "serverActions acts" for s acts
  proof -
    have "legalTransitions (LifecycleTrace s acts)"
      using legal_traces [OF that, of s] by (cases acts) (simp_all add: legalTransitions_def LifecycleStateOf_rank)
    moreover have "neverRegresses False (LifecycleTrace s acts)" by (rule regression_free_traces [OF that]) simp
    ultimately show ?thesis by (simp add: LifecycleInvariants_def reaches_rank)
  qed
  obtain srv1 acts1 where 1: "NewValidLifecycleTrace root_client addr = Ok (srv1, acts1)"
    "map (\<lambda>s. getInt s ''lifecycle_rank'') (LifecycleTrace srv1 acts1) = [0, 0, 0, 1, 1, 1, 2]"
    using built_traces(1) [OF assms(2), where root_client = root_client] by (elim exE conjE)
  obtain srv2 acts2 where 2: "NewDemotionThenReconfigureLifecycleTrace now root_client addr = Ok (srv2, acts2)"
    "map (\<lambda>s. getInt s ''lifecycle_rank'') (LifecycleTrace srv2 acts2) = [0, 0, 0, 1, 0, 1, 1, 1, 2]"
    using built_traces(2) [OF assms(2), where root_client = root_client and now = now] by (elim exE conjE)
  obtain srv3 acts3 where 3: "NewOutOfOrderLifecycleTrace root_client = Ok (srv3, acts3)"
    "map (\<lambda>s. getInt s ''lifecycle_rank'') (LifecycleTrace srv3 acts3) = [0, 0]"
    using built_traces(3) [OF assms(2), where root_client = root_client] by (elim exE conjE)
  show ?thesis
    using all [OF assms(1)] 1 2 3 all [OF built_actions(1) [OF 1(1)], of srv1] all [OF built_actions(2) [OF 2(1)], of srv2]
      all [OF built_actions(3) [OF 3(1)], of srv3] by auto
qed

theorem lifecycle_traces_checked_witness:
  "\<exists>srv acts. NewValidLifecycleTrace zeroStreamID 7 = Ok (srv, acts) \<and> serverActions acts \<and>
     Checker_Check LifecycleInvariants (LifecycleTrace srv acts) = None"
proof -
  have "serverActions []" "(7 :: u16) \<noteq> EP0" by (simp_all add: serverActions_def EP0_def)
  from lifecycle_traces_checked [OF this] built_actions(1) show ?thesis by blast
qed

section \<open>The safe-state traces\<close>

lemma trace_of: "SafeStateTrace stream s [a, b, c, d] = map (SafeStateOf stream) [s, a s, b (a s), c (b (a s)), d (c (b (a s)))]"
  by simp

lemma SafeStateOf_bool: "inSafeState (SafeStateOf stream s) = InSafeState (fst s) (snd s) stream"
  by (simp add: inSafeState_def getBool_def SafeStateOf_def)

text \<open>The checker accepts the safe-state traces of the package, for every stream and every timeout of at least two
  nanoseconds: the verdict clears with the first arrival, trips when the timeout has passed and clears again, and a
  violation of the sequence trips it until the reset.\<close>

theorem safe_state_traces_checked:
  assumes "2 \<le> timeout"
  shows "Checker_Check TimeoutInvariants
      (SafeStateTrace stream (fst (NewTimeoutTrace stream timeout)) (snd (NewTimeoutTrace stream timeout))) = None \<and>
    Checker_Check MonotonicityInvariants
      (SafeStateTrace stream (fst (NewMonotonicityTrace stream)) (snd (NewMonotonicityTrace stream))) = None"
  using assms
  by (simp add: TimeoutInvariants_def MonotonicityInvariants_def NewTimeoutTrace_def NewMonotonicityTrace_def SafeStateOf_bool
      observeNow_def advanceClock_def Observe_def Reset_def InSafeState_def NewSupervisor_def configForLocked_def zeroStreamState_def
      lastInSafeState_def inSafeState_def [symmetric] stickyTrip_def Let_def)

theorem safe_state_traces_checked_witness:
  "Checker_Check TimeoutInvariants
      (SafeStateTrace zeroStreamID (fst (NewTimeoutTrace zeroStreamID 5)) (snd (NewTimeoutTrace zeroStreamID 5))) = None"
  using safe_state_traces_checked [of 5 zeroStreamID] by simp

text \<open>Two of the invariants hold on every trace, so that they check nothing: a stream that was never observed counts as
  silent, and a new driver has nothing to transmit.\<close>

lemma trip_check_is_vacuous: "Eventually inSafeState (SafeStateTrace stream (NewSupervisor c, now) acts)"
  by (cases acts) (simp_all add: SafeStateOf_bool InSafeState_def NewSupervisor_def)

lemma drain_check_is_vacuous: "Eventually (\<lambda>s. getInt s ''drv_pending'' = 0) (PowerTrace (ep, NewDriver root_client, sent) acts)"
  by (cases acts) (simp_all add: PowerStateOf_def getInt_def NewDriver_def Driver_Pending_def)

section \<open>The wake cycle\<close>

text \<open>The power state is never unpowered on the trace of any requests and pumps.\<close>

lemma power_state_powered:
  assumes "wakeup_inv (fst (s :: WakeupEndpoint \<times> 'r))"
  shows "getString (PowerStateOf (fst s) d) ''power'' \<noteq> PowerState_String PowerUnpowered"
  using assms by (auto simp: PowerStateOf_def getString_def PowerState_String_def wakeup_inv_def power_states)

lemma power_trace_powered:
  assumes "\<forall>act\<in>set acts. \<forall>s. wakeup_inv (fst s) \<longrightarrow> wakeup_inv (fst (act s))" "wakeup_inv (fst s)"
  shows "Always (\<lambda>s. getString s ''power'' \<noteq> PowerState_String PowerUnpowered) (PowerTrace s acts)"
  using assms
proof (induction acts arbitrary: s)
  case Nil
  then show ?case using power_state_powered by simp
next
  case (Cons act acts)
  then have "wakeup_inv (fst (act s))" by (metis list.set_intros(1))
  then have "Always (\<lambda>s. getString s ''power'' \<noteq> PowerState_String PowerUnpowered) (PowerTrace (act s) acts)"
    using Cons.IH Cons.prems(1) by simp
  then show ?case using power_state_powered [OF Cons.prems(2)] by simp
qed

end
