(* ===== verification/Transports.thy ===== *)
theory Transports
  imports Upstream Request_Kind
begin

text \<open>
  The other ways to reach a router: raw Ethernet frames (\<open>l2\<close>), the in-process bus (\<open>shmem\<close>), the test client that calls
  a router directly (\<open>mock\<close>) and the controller with socket priorities (\<open>tsn\<close>), with their registries. A channel of
  requests is a queue of at most 64, the channel for a response holds at most one message. The three clients that route
  a request are proved to agree, and to differ from each other only where the wire is in the way.
\<close>

section \<open>Ethernet frames\<close>

definition MACLen :: nat where "MACLen = 6"
definition EtherTypeAVTP :: u16 where "EtherTypeAVTP = 0x22F0"
definition l2_HeaderLen :: nat where "l2_HeaderLen = MACLen + MACLen + 2"

definition l2_EncodeFrame :: "bytes \<Rightarrow> bytes \<Rightarrow> bytes \<Rightarrow> bytes" where
  "l2_EncodeFrame dst src avtpdu = dst @ src @ put16 EtherTypeAVTP @ avtpdu"

definition l2_DecodeFrame :: "bytes \<Rightarrow> (bytes \<times> bytes \<times> bytes) go" where
  "l2_DecodeFrame b =
     (if length b < l2_HeaderLen then Err (EBridge (BL2 ErrShortFrame_l2))
      else
        andThen (slice b 0 MACLen) (\<lambda>dst.
        andThen (slice b MACLen (2 * MACLen)) (\<lambda>src.
        andThen (get16 b (2 * MACLen)) (\<lambda>etherType.
        if etherType \<noteq> EtherTypeAVTP then Err (EBridge (BL2 ErrUnexpectedEtherType))
        else andThen (slice b l2_HeaderLen (length b)) (\<lambda>avtpdu. Ok (dst, src, avtpdu))))))"

text \<open>The transport on a raw socket: \<open>sendto\<close> is the call of the operating system on a state of its own.\<close>

record L2Transport =
  localMAC :: bytes
  l2_closed :: bool

definition l2_Send :: "(bytes \<Rightarrow> bytes \<Rightarrow> 'w \<Rightarrow> 'w \<times> unit go) \<Rightarrow> L2Transport \<Rightarrow> 'w \<Rightarrow> bytes \<Rightarrow> bytes \<Rightarrow> 'w \<times> unit go" where
  "l2_Send sendto t w dst avtpdu =
     (if l2_closed t then (w, Err (EBridge (BL2 ErrClosed_l2)))
      else sendto dst (l2_EncodeFrame dst (localMAC t) avtpdu) w)"

text \<open>\<open>frame\<close> is what arrives on the interface, cut to the buffer of 1600 octets, or the error of the socket.\<close>

definition l2_Recv :: "L2Transport \<Rightarrow> bytes go \<Rightarrow> (bytes \<times> bytes) go" where
  "l2_Recv t frame =
     (if l2_closed t then Err (EBridge (BL2 ErrClosed_l2))
      else andThen frame (\<lambda>b. andThen (l2_DecodeFrame (take 1600 b)) (\<lambda>(_, src, payload). Ok (src, payload))))"

definition l2_Close :: "L2Transport \<Rightarrow> L2Transport" where
  "l2_Close t = (if l2_closed t then t else t\<lparr>l2_closed := True\<rparr>)"

section \<open>A bus in memory\<close>

record pendingOp =
  op_hdr :: Header
  op_req :: Message
  op_resp :: nat

record Bus =
  reqCh :: "pendingOp list"
  bus_closed :: bool
  respCh :: "nat \<rightharpoonup> Message"
  nextChan :: nat

definition newBus :: Bus where "newBus = \<lparr>reqCh = [], bus_closed = False, respCh = Map.empty, nextChan = 0\<rparr>"

record ShmController =
  sc_streamID :: StreamID
  sc_nextTxn :: u32
  sc_closed :: bool

definition shmem_newController :: "StreamID \<Rightarrow> ShmController" where
  "shmem_newController sid = \<lparr>sc_streamID = sid, sc_nextTxn = 0, sc_closed = False\<rparr>"

text \<open>
  \<open>Request\<close> in the steps that other goroutines can come between: the checks and the operation, its place in the channel
  (\<open>None\<close>: the channel is full and the call blocks), and the end with a response or the failure that came first.
\<close>

definition shmem_begin :: "ShmController \<Rightarrow> Bus \<Rightarrow> bool \<Rightarrow> u16 \<Rightarrow> ControlFlags \<Rightarrow> bytes \<Rightarrow> ShmController \<times> Bus \<times> pendingOp go" where
  "shmem_begin c b ctxDone a control body =
     (if sc_closed c \<or> bus_closed b then (c, b, Err (EUdp ErrClosed))
      else if ctxDone then (c, b, Err (EUdp ErrTimeout))
      else
        (let c1 = c\<lparr>sc_nextTxn := sc_nextTxn c + 1\<rparr> in
         (c1, b\<lparr>nextChan := Suc (nextChan b)\<rparr>,
          Ok \<lparr>op_hdr = untimedHeader (sc_streamID c) 0, op_req = requestMessage a (ucast (sc_nextTxn c1)) control body,
              op_resp = nextChan b\<rparr>)))"

definition shmem_send :: "Bus \<Rightarrow> pendingOp \<Rightarrow> Bus option" where
  "shmem_send b op = (if length (reqCh b) < 64 then Some (b\<lparr>reqCh := reqCh b @ [op]\<rparr>) else None)"

definition shmem_end :: "Bus \<Rightarrow> pendingOp \<Rightarrow> rcp_error option \<Rightarrow> Bus \<times> Message go option" where
  "shmem_end b op failure =
     (case failure of
        Some er \<Rightarrow> (b, Some (Err er))
      | None \<Rightarrow>
          (case respCh b (op_resp op) of
             Some m \<Rightarrow> (b\<lparr>respCh := (respCh b)(op_resp op := None)\<rparr>, Some (Ok m))
           | None \<Rightarrow> (b, None)))"

text \<open>One turn of \<open>serve\<close>; with nothing in the channel it waits.\<close>

definition shmem_serve :: "(rcp_error \<Rightarrow> bytes) \<Rightarrow> 'w Router \<Rightarrow> Bus \<times> 'w \<Rightarrow> (Bus \<times> 'w) go" where
  "shmem_serve render r s =
     (case s of (b, w) \<Rightarrow>
        case reqCh b of
          [] \<Rightarrow> Ok (b, w)
        | op # rest \<Rightarrow>
            (let b1 = b\<lparr>reqCh := rest\<rparr> in
             case Route render r w (op_hdr op) (op_req op) of
               (w', Ok (Some resp)) \<Rightarrow>
                 (case respCh b1 (op_resp op) of
                    None \<Rightarrow> Ok (b1\<lparr>respCh := (respCh b1)(op_resp op \<mapsto> resp)\<rparr>, w')
                  | Some _ \<Rightarrow> Ok (b1, w'))
             | (w', Ok None) \<Rightarrow> Ok (b1, w')
             | (w', Err er) \<Rightarrow> Err er
             | (w', Panic) \<Rightarrow> Panic))"

fun shmem_turns :: "(rcp_error \<Rightarrow> bytes) \<Rightarrow> 'w Router \<Rightarrow> nat \<Rightarrow> Bus \<times> 'w \<Rightarrow> (Bus \<times> 'w) go" where
  "shmem_turns render r 0 s = Ok s"
| "shmem_turns render r (Suc n) s = andThen (shmem_serve render r s) (shmem_turns render r n)"

text \<open>
  A call from its beginning to its end: the endpoint serves what is in the channel, in order, until it has served the
  call, which returns the response or, when none comes, the error of its context.
\<close>

definition shmem_Request :: "(rcp_error \<Rightarrow> bytes) \<Rightarrow> 'w Router \<Rightarrow> (ShmController \<times> Bus \<times> 'w) request" where
  "shmem_Request render r s a control body =
     (let (c, b, w) = s in
      case shmem_begin c b False a control body of
        (c1, b1, Err er) \<Rightarrow> ((c1, b1, w), Err er)
      | (c1, b1, Panic) \<Rightarrow> ((c1, b1, w), Panic)
      | (c1, b1, Ok op) \<Rightarrow>
          (case shmem_send b1 op of
             None \<Rightarrow> ((c1, b1, w), Err (EUdp ErrTimeout))
           | Some b2 \<Rightarrow>
               (case shmem_turns render r (length (reqCh b2)) (b2, w) of
                  Err er \<Rightarrow> ((c1, b2, w), Err er)
                | Panic \<Rightarrow> ((c1, b2, w), Panic)
                | Ok (b3, w') \<Rightarrow>
                    (case shmem_end b3 op None of
                       (b4, Some res) \<Rightarrow> ((c1, b4, w'), res)
                     | (b4, None) \<Rightarrow> ((c1, fst (shmem_end b4 op (Some (EUdp ErrTimeout))), w'), Err (EUdp ErrTimeout))))))"

definition shmem_Close :: "ShmController \<Rightarrow> ShmController" where "shmem_Close c = c\<lparr>sc_closed := True\<rparr>"

section \<open>The client that calls a router\<close>

record MockClient =
  mc_streamID :: StreamID
  mc_nextTxn :: u32
  mc_seq :: u32
  mc_closed :: bool

definition mock_NewClient :: "StreamID \<Rightarrow> MockClient" where
  "mock_NewClient sid = \<lparr>mc_streamID = sid, mc_nextTxn = 0, mc_seq = 0, mc_closed = False\<rparr>"

text \<open>\<open>ctxErr\<close> is the error of a context that has ended.\<close>

definition mock_RequestCtx ::
  "(rcp_error \<Rightarrow> bytes) \<Rightarrow> 'w Router \<Rightarrow> rcp_error option \<Rightarrow> (MockClient \<times> 'w) request" where
  "mock_RequestCtx render r ctxErr s a control body =
     (let (c, w) = s in
      if mc_closed c then (s, Err (EBridge (BMock ErrClosed_mock)))
      else case ctxErr of
        Some er \<Rightarrow> (s, Err er)
      | None \<Rightarrow>
          (let c1 = c\<lparr>mc_nextTxn := mc_nextTxn c + 1, mc_seq := mc_seq c + 1\<rparr>;
               req = requestMessage a (ucast (mc_nextTxn c1)) control body;
               hdr = untimedHeader (mc_streamID c) (ucast (mc_seq c1)) in
           case Route render r w hdr req of
             (w', Ok (Some resp)) \<Rightarrow> ((c1, w'), Ok resp)
           | (w', Ok None) \<Rightarrow> ((c1, w'), Err (EBridge (BMock ErrDropped_mock)))
           | (w', Err er) \<Rightarrow> ((c1, w'), Err er)
           | (w', Panic) \<Rightarrow> ((c1, w'), Panic)))"

definition mock_Request :: "(rcp_error \<Rightarrow> bytes) \<Rightarrow> 'w Router \<Rightarrow> (MockClient \<times> 'w) request" where
  "mock_Request render r = mock_RequestCtx render r None"

text \<open>The error of a rejected discovery carries the body of the response as its text only.\<close>

definition mock_Discover :: "(rcp_error \<Rightarrow> bytes) \<Rightarrow> 'w Router \<Rightarrow> MockClient \<times> 'w \<Rightarrow> (MockClient \<times> 'w) \<times> (rcp_error + bytes) option go" where
  "mock_Discover render r s =
     (case Controller_Read (mock_Request render r) s EP0 of
        (s', Err er) \<Rightarrow> (s', Ok (Some (Inl er)))
      | (s', Panic) \<Rightarrow> (s', Panic)
      | (s', Ok resp) \<Rightarrow> (s', Ok (map_option Inr (discoverResult resp))))"

definition mock_Close :: "MockClient \<Rightarrow> MockClient" where "mock_Close c = c\<lparr>mc_closed := True\<rparr>"

record 'w MockEndpoint =
  me_addr :: u16
  me_fn :: "'w rhandler option"
  me_closed :: bool

definition mock_NewEndpoint :: "u16 \<Rightarrow> 'w rhandler option \<Rightarrow> 'w MockEndpoint" where
  "mock_NewEndpoint a fn = \<lparr>me_addr = a, me_fn = fn, me_closed = False\<rparr>"

definition mock_HandleRequest :: "'w MockEndpoint \<Rightarrow> 'w rhandler" where
  "mock_HandleRequest e w sid req =
     (if me_closed e then (w, Err (EBridge (BMock ErrClosed_mock)))
      else if ByteBusID req \<noteq> me_addr e then (w, Err (EBridge (BMock ErrWrongEndpoint_mock)))
      else case me_fn e of
        Some fn \<Rightarrow> fn w sid req
      | None \<Rightarrow> (w, Ok (zeroMessage\<lparr>Kind := Kind req, ByteBusID := ByteBusID req, TransactionNum := TransactionNum req,
                     Control := FlagResponse OR (Control req AND (FlagRead OR FlagWrite))\<rparr>)))"

definition mock_EndpointClose :: "'w MockEndpoint \<Rightarrow> 'w MockEndpoint" where "mock_EndpointClose e = e\<lparr>me_closed := True\<rparr>"

text \<open>A fixture is a server whose root is claimed, a router with EP0 on it, and a client on the root stream.\<close>

definition NewFixture :: "StreamID \<Rightarrow> bool \<Rightarrow> (Server \<times> Server Router \<times> MockClient) go" where
  "NewFixture rootStream ts =
     (case ClaimRoot NewServer rootStream of
        (srv, Some er) \<Rightarrow> Err er
      | (srv, None) \<Rightarrow> Ok (srv, NewRouter EP0Handler_HandleRequest ts, mock_NewClient rootStream))"

section \<open>Socket priorities\<close>

definition DefaultPCPMap :: "u8 list" where "DefaultPCPMap = [7, 6, 5, 4, 3, 2, 1]"

definition PCPFor :: "u8 list \<Rightarrow> RKind \<Rightarrow> u8 go" where
  "PCPFor m k =
     (let rank = int (Priority k);
          rank = (if rank < 0 then 0 else rank);
          rank = (if rank \<ge> int (length m) then int (length m) - 1 else rank)
      in if rank < 0 then Panic else idx m (nat rank))"

record TsnConfig =
  VLAN :: u16
  PCPMap :: "u8 list"
  CycleNs :: u32

definition tsn_DefaultConfig :: TsnConfig where
  "tsn_DefaultConfig = \<lparr>VLAN = 100, PCPMap = DefaultPCPMap, CycleNs = 500000\<rparr>"

record TsnController =
  tc_cfg :: TsnConfig
  tc_closed :: bool

text \<open>\<open>setSocketPriority\<close> is the socket option of the operating system, \<open>request\<close> the controller inside.\<close>

definition tsn_Request :: "(u8 \<Rightarrow> 'w \<Rightarrow> 'w) \<Rightarrow> 'w request \<Rightarrow> TsnController \<Rightarrow> 'w \<Rightarrow> u16 \<Rightarrow> ControlFlags \<Rightarrow> bytes \<Rightarrow> RKind \<Rightarrow> 'w \<times> Message go" where
  "tsn_Request setSocketPriority request c w a control body kind =
     (if tc_closed c then (w, Err (EUdp ErrClosed))
      else case PCPFor (PCPMap (tc_cfg c)) kind of
        Ok pcp \<Rightarrow> request (setSocketPriority pcp w) a control body
      | Err er \<Rightarrow> (w, Err er)
      | Panic \<Rightarrow> (w, Panic))"

definition tsn_Read :: "(u8 \<Rightarrow> 'w \<Rightarrow> 'w) \<Rightarrow> 'w request \<Rightarrow> TsnController \<Rightarrow> 'w \<Rightarrow> u16 \<Rightarrow> 'w \<times> Message go" where
  "tsn_Read setSocketPriority request c w a = tsn_Request setSocketPriority request c w a FlagRead [] KindPlain"

definition tsn_Write :: "(u8 \<Rightarrow> 'w \<Rightarrow> 'w) \<Rightarrow> 'w request \<Rightarrow> TsnController \<Rightarrow> 'w \<Rightarrow> u16 \<Rightarrow> bytes \<Rightarrow> 'w \<times> Message go" where
  "tsn_Write setSocketPriority request c w a body = tsn_Request setSocketPriority request c w a FlagWrite body KindPlain"

definition tsn_Close :: "TsnController \<Rightarrow> TsnController" where "tsn_Close c = c\<lparr>tc_closed := True\<rparr>"

section \<open>Registries\<close>

text \<open>
  The registries of the packages keep what they hold under a key, until they are closed. As in the theory \<open>Udp\<close>,
  operations that close a controller return what becomes of it, and \<open>dialed\<close> is the error of resolving and dialing.
\<close>

record 'c KeyRegistry =
  kr_ctrls :: "string \<rightharpoonup> 'c"
  kr_closed :: bool

definition NewKeyRegistry :: "'c KeyRegistry" where "NewKeyRegistry = \<lparr>kr_ctrls = Map.empty, kr_closed = False\<rparr>"

definition tsn_Register :: "TsnController KeyRegistry \<Rightarrow> string \<Rightarrow> TsnController \<Rightarrow> TsnController KeyRegistry \<times> rcp_error option" where
  "tsn_Register r k c =
     (if kr_closed r then (r, Some (EUdp ErrClosed))
      else if kr_ctrls r k \<noteq> None then (r, Some (EUdp ErrAlreadyExists))
      else (r\<lparr>kr_ctrls := (kr_ctrls r)(k \<mapsto> c)\<rparr>, None))"

definition tsn_Dial :: "TsnController KeyRegistry \<Rightarrow> string \<Rightarrow> TsnConfig \<Rightarrow> rcp_error option \<Rightarrow> TsnController KeyRegistry \<times> TsnController go" where
  "tsn_Dial r k cfg dialed =
     (case dialed of
        Some er \<Rightarrow> (r, Err er)
      | None \<Rightarrow>
          (let c = \<lparr>tc_cfg = cfg, tc_closed = False\<rparr> in
           case tsn_Register r k c of
             (r', Some er) \<Rightarrow> (r', Err er)
           | (r', None) \<Rightarrow> (r', Ok c)))"

definition tsn_Deregister :: "TsnController KeyRegistry \<Rightarrow> string \<Rightarrow> TsnController KeyRegistry \<times> TsnController go" where
  "tsn_Deregister r k =
     (case kr_ctrls r k of
        None \<Rightarrow> (r, Err (EUdp ErrNotFound))
      | Some c \<Rightarrow> (r\<lparr>kr_ctrls := (kr_ctrls r)(k := None)\<rparr>, Ok (tsn_Close c)))"

definition tsn_Lookup :: "TsnController KeyRegistry \<Rightarrow> string \<Rightarrow> TsnController go" where
  "tsn_Lookup r k =
     (if kr_closed r then Err (EUdp ErrClosed)
      else case kr_ctrls r k of None \<Rightarrow> Err (EUdp ErrNotFound) | Some c \<Rightarrow> Ok c)"

definition tsn_RegistryClose :: "TsnController KeyRegistry \<Rightarrow> TsnController KeyRegistry \<times> (string \<rightharpoonup> TsnController)" where
  "tsn_RegistryClose r =
     (if kr_closed r then (r, Map.empty)
      else (r\<lparr>kr_ctrls := Map.empty, kr_closed := True\<rparr>, map_option tsn_Close \<circ> kr_ctrls r))"

definition mock_Register :: "MockClient KeyRegistry \<Rightarrow> string \<Rightarrow> MockClient \<Rightarrow> MockClient KeyRegistry \<times> rcp_error option" where
  "mock_Register r k c =
     (if kr_closed r then (r, Some (EBridge (BMock ErrClosed_mock)))
      else if kr_ctrls r k \<noteq> None then (r, Some (EBridge (BMock ErrAlreadyExists_mock)))
      else (r\<lparr>kr_ctrls := (kr_ctrls r)(k \<mapsto> c)\<rparr>, None))"

definition mock_Deregister :: "MockClient KeyRegistry \<Rightarrow> string \<Rightarrow> MockClient KeyRegistry \<times> MockClient go" where
  "mock_Deregister r k =
     (case kr_ctrls r k of
        None \<Rightarrow> (r, Err (EBridge (BMock ErrNotFound_mock)))
      | Some c \<Rightarrow> (r\<lparr>kr_ctrls := (kr_ctrls r)(k := None)\<rparr>, Ok (mock_Close c)))"

definition mock_Lookup :: "MockClient KeyRegistry \<Rightarrow> string \<Rightarrow> MockClient go" where
  "mock_Lookup r k =
     (if kr_closed r then Err (EBridge (BMock ErrClosed_mock))
      else case kr_ctrls r k of None \<Rightarrow> Err (EBridge (BMock ErrNotFound_mock)) | Some c \<Rightarrow> Ok c)"

definition mock_RegistryClose :: "MockClient KeyRegistry \<Rightarrow> MockClient KeyRegistry \<times> (string \<rightharpoonup> MockClient)" where
  "mock_RegistryClose r =
     (if kr_closed r then (r, Map.empty)
      else (r\<lparr>kr_ctrls := Map.empty, kr_closed := True\<rparr>, map_option mock_Close \<circ> kr_ctrls r))"

text \<open>A key of the in-process registry stands for a controller and its bus; the bus is closed with it.\<close>

definition shmem_Open :: "(ShmController \<times> Bus) KeyRegistry \<Rightarrow> string \<Rightarrow> StreamID \<Rightarrow> (ShmController \<times> Bus) KeyRegistry \<times> (ShmController \<times> Bus) go" where
  "shmem_Open r k clientStream =
     (if kr_closed r then (r, Err (EUdp ErrClosed))
      else if kr_ctrls r k \<noteq> None then (r, Err (EUdp ErrAlreadyExists))
      else (let c = (shmem_newController clientStream, newBus) in (r\<lparr>kr_ctrls := (kr_ctrls r)(k \<mapsto> c)\<rparr>, Ok c)))"

definition shmem_Lookup :: "(ShmController \<times> Bus) KeyRegistry \<Rightarrow> string \<Rightarrow> ShmController go" where
  "shmem_Lookup r k =
     (if kr_closed r then Err (EUdp ErrClosed)
      else case kr_ctrls r k of None \<Rightarrow> Err (EUdp ErrNotFound) | Some c \<Rightarrow> Ok (fst c))"

definition shmem_Deregister :: "(ShmController \<times> Bus) KeyRegistry \<Rightarrow> string \<Rightarrow> (ShmController \<times> Bus) KeyRegistry \<times> (ShmController \<times> Bus) go" where
  "shmem_Deregister r k =
     (case kr_ctrls r k of
        None \<Rightarrow> (r, Err (EUdp ErrNotFound))
      | Some (c, b) \<Rightarrow> (r\<lparr>kr_ctrls := (kr_ctrls r)(k := None)\<rparr>, Ok (shmem_Close c, b\<lparr>bus_closed := True\<rparr>)))"

definition shmem_RegistryClose :: "(ShmController \<times> Bus) KeyRegistry \<Rightarrow> (ShmController \<times> Bus) KeyRegistry \<times> (string \<rightharpoonup> ShmController \<times> Bus)" where
  "shmem_RegistryClose r =
     (if kr_closed r then (r, Map.empty)
      else (r\<lparr>kr_ctrls := Map.empty, kr_closed := True\<rparr>, map_option (\<lambda>(c, b). (c, b\<lparr>bus_closed := True\<rparr>)) \<circ> kr_ctrls r))"

text \<open>
  What a registry promises, over the map it stands for (\<open>None\<close> once it is closed): a key has one holder from its
  registration to its removal, and a failed call changes nothing.
\<close>

datatype 'c registryOp = Add string 'c | Remove string

locale controller_registry =
  fixes contents :: "'r \<Rightarrow> (string \<rightharpoonup> 'c) option"
    and register :: "'r \<Rightarrow> string \<Rightarrow> 'c \<Rightarrow> 'r \<times> rcp_error option"
    and deregister :: "'r \<Rightarrow> string \<Rightarrow> 'r \<times> 'c go"
    and look_up :: "'r \<Rightarrow> string \<Rightarrow> 'c go"
  assumes register_new: "contents r = Some m \<Longrightarrow> m k = None \<Longrightarrow> contents (fst (register r k c)) = Some (m(k \<mapsto> c)) \<and> snd (register r k c) = None"
    and register_twice: "contents r = Some m \<Longrightarrow> m k = Some d \<Longrightarrow> fst (register r k c) = r \<and> snd (register r k c) \<noteq> None"
    and deregister_open: "contents r = Some m \<Longrightarrow> contents (fst (deregister r k)) = Some (m(k := None))"
    and look_up_open: "contents r = Some m \<Longrightarrow> (look_up r k = Ok c) = (m k = Some c)"
    and look_up_closed: "contents r = None \<Longrightarrow> \<exists>er. look_up r k = Err er"
begin

fun perform :: "'c registryOp \<Rightarrow> 'r \<Rightarrow> 'r" where
  "perform (Add k c) r = fst (register r k c)"
| "perform (Remove k) r = fst (deregister r k)"

fun mapped :: "'c registryOp \<Rightarrow> (string \<rightharpoonup> 'c) \<Rightarrow> string \<rightharpoonup> 'c" where
  "mapped (Add k c) m = (if m k = None then m(k \<mapsto> c) else m)"
| "mapped (Remove k) m = m(k := None)"

lemma perform_contents: "contents r = Some m \<Longrightarrow> contents (perform op r) = Some (mapped op m)"
  using register_new register_twice deregister_open by (cases op) fastforce+

lemma performs_contents: "contents r = Some m \<Longrightarrow> contents (fold perform ops r) = Some (fold mapped ops m)"
  by (induction ops arbitrary: r m) (simp_all add: perform_contents)

lemma look_up_after: "contents r = Some m \<Longrightarrow> (look_up (fold perform ops r) k = Ok c) = (fold mapped ops m k = Some c)"
  using look_up_open performs_contents by blast

lemma first_holder_stays:
  assumes "contents r = Some m" "m k = Some c" "\<forall>op\<in>set ops. op \<noteq> Remove k"
  shows "look_up (fold perform ops r) k = Ok c"
proof -
  have "fold mapped ops m k = Some c" using assms(2,3)
  proof (induction ops arbitrary: m)
    case (Cons op ops)
    from Cons.prems have "mapped op m k = Some c" by (cases op) auto
    with Cons show ?case by simp
  qed simp
  then show ?thesis using look_up_after [OF assms(1)] by blast
qed

end

definition openContents :: "'c KeyRegistry \<Rightarrow> (string \<rightharpoonup> 'c) option" where
  "openContents r = (if kr_closed r then None else Some (kr_ctrls r))"

interpretation tsn_registry: controller_registry openContents tsn_Register tsn_Deregister tsn_Lookup
  by unfold_locales
    (auto simp: openContents_def tsn_Register_def tsn_Deregister_def tsn_Lookup_def split: if_splits option.splits)

interpretation mock_registry: controller_registry openContents mock_Register mock_Deregister mock_Lookup
  by unfold_locales
    (auto simp: openContents_def mock_Register_def mock_Deregister_def mock_Lookup_def split: if_splits option.splits)

interpretation udp_registry: controller_registry "\<lambda>r. if rg_closed r then None else Some (ctrls r)"
  Registry_Register Registry_Deregister Registry_Lookup
  by unfold_locales
    (auto simp: Registry_Register_def Registry_Deregister_def Registry_Lookup_def split: if_splits option.splits)

section \<open>Laws\<close>

interpretation l2_frame: exact_codec "\<lambda>(dst, src, avtpdu). l2_EncodeFrame dst src avtpdu" l2_DecodeFrame
  "\<lambda>(dst, src, avtpdu). length dst = MACLen \<and> length src = MACLen"
proof
  fix x :: "bytes \<times> bytes \<times> bytes"
  assume "case x of (dst, src, avtpdu) \<Rightarrow> length dst = MACLen \<and> length src = MACLen"
  then show "l2_DecodeFrame (case x of (dst, src, avtpdu) \<Rightarrow> l2_EncodeFrame dst src avtpdu) = Ok x"
    by (auto simp: l2_DecodeFrame_def l2_EncodeFrame_def l2_HeaderLen_def MACLen_def slice_def get16_def nth_append
        split: prod.splits)
next
  fix b
  show "l2_DecodeFrame b \<noteq> Panic"
    by (auto simp: l2_DecodeFrame_def l2_HeaderLen_def MACLen_def slice_def get16_def idx_def)
next
  fix b x
  assume x: "l2_DecodeFrame b = Ok x"
  then have len: "14 \<le> length b" by (auto simp: l2_DecodeFrame_def l2_HeaderLen_def MACLen_def split: if_splits)
  have d: "be16 (b ! 12) (b ! 13) = EtherTypeAVTP" "x = (take 6 b, take 6 (drop 6 b), drop 14 b)"
    using x len by (auto simp: l2_DecodeFrame_def l2_HeaderLen_def MACLen_def slice_def get16_def idx_def take_drop split: if_splits)
  have "take 6 b @ take 6 (drop 6 b) @ [b ! 12, b ! 13] @ drop 14 b = b"
  proof -
    have "[b ! 12, b ! 13] @ drop 14 b = drop 12 b"
      using len Cons_nth_drop_Suc [of 12 b] Cons_nth_drop_Suc [of 13 b] by simp
    moreover have "take 6 (drop 6 b) @ drop 12 b = drop 6 b" using append_take_drop_id [of 6 "drop 6 b"] by simp
    ultimately show ?thesis by (metis append_take_drop_id)
  qed
  then show "(case x of (dst, src, avtpdu) \<Rightarrow> length dst = MACLen \<and> length src = MACLen) \<and>
      (case x of (dst, src, avtpdu) \<Rightarrow> l2_EncodeFrame dst src avtpdu) = b"
    using d len by (simp add: l2_EncodeFrame_def MACLen_def d(1) [symmetric])
qed

text \<open>A plain read or write differs from what the wire makes of it in the padding only.\<close>

lemma wire_plain:
  assumes "control = FlagRead \<or> control = FlagWrite"
  shows "\<exists>p. wire_message (requestMessage a txn control body) = (requestMessage a txn control body)\<lparr>Pad := p\<rparr>"
  using assms
  by (auto simp: wire_message_def requestMessage_def zeroMessage_def Has_def flag_defs kind_defs intro!: exI)

lemma shmem_turn:
  assumes "reqCh b = [op]" "respCh b (op_resp op) = None" "Route render r w (op_hdr op) (op_req op) = (w', Ok (Some resp))"
  shows "shmem_turns render r (length (reqCh b)) (b, w) = Ok (b\<lparr>reqCh := [], respCh := (respCh b)(op_resp op \<mapsto> resp)\<rparr>, w')"
  using assms by (simp add: shmem_serve_def Let_def)

lemma shmem_routed:
  assumes "\<not> sc_closed c" "\<not> bus_closed b" "reqCh b = []" "respCh b (nextChan b) = None"
    and "Route render r w (untimedHeader (sc_streamID c) 0) (requestMessage a (ucast (sc_nextTxn c + 1)) control body) = (w', Ok (Some resp))"
  shows "\<exists>c' b'. shmem_Request render r (c, b, w) a control body = ((c', b', w'), Ok resp)"
  using assms by (simp add: shmem_Request_def shmem_begin_def shmem_send_def shmem_serve_def shmem_end_def Let_def)

lemma mock_routed:
  assumes "\<not> mc_closed c"
    and "Route render r w (untimedHeader (mc_streamID c) (ucast (mc_seq c + 1))) (requestMessage a (ucast (mc_nextTxn c + 1)) control body) = (w', Ok (Some resp))"
  shows "\<exists>c'. mock_Request render r (c, w) a control body = ((c', w'), Ok resp)"
  using assms by (simp add: mock_Request_def mock_RequestCtx_def Let_def)

lemma Route_plain:
  assumes "\<not> Timed hdr" "HStreamID hdr = sid" "a \<noteq> EP0" "handlers r a = Some h"
    and "h w sid (requestMessage a txn control body) = (w', Ok m)"
  shows "Route render r w hdr (requestMessage a txn control body) = (w', Ok (Some m))"
  using assms by (subst Route_untimed) (simp_all add: handled_def requestMessage_def zeroMessage_def)

text \<open>C15: the three clients agree. A plain read or write by a client that is open, for an endpoint whose handler does not
  look at the padding, has the same effect and the same answer through the test client, through the bus in memory and
  over UDP, if the clients have made as many requests before: over UDP the answer has been through the wire. But
  from the 256th request on only the first two answer; over UDP the call fails and does not reach the endpoint, which a test
  against the test client does not show.\<close>

theorem transports_agree:
  fixes txn :: TransactionNum
  assumes "\<not> mc_closed mc" "\<not> sc_closed sc" "\<not> bus_closed b" "\<not> ct_closed c" "reqCh b = []" "respCh b (nextChan b) = None"
    and "mc_streamID mc = sid" "sc_streamID sc = sid" "ct_streamID c = sid"
    and "mc_nextTxn mc = n" "sc_nextTxn sc = n" "nextTxn c = n" "txn = ucast (n + 1)"
    and "control = FlagRead \<or> control = FlagWrite" "a \<noteq> EP0" "unat a \<le> maxByteBusID" "length body \<le> 2036"
    and "handlers r a = Some h" "\<And>p. h w sid ((requestMessage a txn control body)\<lparr>Pad := p\<rparr>) = (w', Ok m)"
    and "TransactionNum m = txn" "encodable (m\<lparr>TransactionNum := 0\<rparr>)"
  shows "(\<exists>mc'. mock_Request render r (mc, w) a control body = ((mc', w'), Ok m)) \<and>
    (\<exists>sc' b'. shmem_Request render r (sc, b, w) a control body = ((sc', b', w'), Ok m)) \<and>
    (if unat txn \<le> 255
     then \<exists>c' srv'. Controller_Request render r (c, srv, w) a control body = ((c', srv', w'), Ok (wire_message m))
     else \<exists>c' er. Controller_Request render r (c, srv, w) a control body = ((c', srv, w), Err er))"
proof -
  let ?req = "requestMessage a txn control body"
  have same: "?req\<lparr>Pad := 0\<rparr> = ?req" by (simp add: requestMessage_def zeroMessage_def)
  have h: "h w sid ?req = (w', Ok m)" using assms(19) [of 0] same by simp
  have route: "Route render r w hdr ?req = (w', Ok (Some m))" if "\<not> Timed hdr" "HStreamID hdr = sid" for hdr
    using Route_plain [OF that assms(15,18) h] .
  have mock: "\<exists>mc'. mock_Request render r (mc, w) a control body = ((mc', w'), Ok m)"
    by (rule mock_routed [OF assms(1)]) (use route assms in \<open>simp add: untimedHeader_def\<close>)
  have shm: "\<exists>sc' b'. shmem_Request render r (sc, b, w) a control body = ((sc', b', w'), Ok m)"
    by (rule shmem_routed [OF assms(2,3,5,6)]) (use route assms in \<open>simp add: untimedHeader_def\<close>)
  have known: "control AND NOT knownFlags = 0" using assms(14) by (auto simp: knownFlags_def flag_defs)
  have "if unat txn \<le> 255
     then \<exists>c' srv'. Controller_Request render r (c, srv, w) a control body = ((c', srv', w'), Ok (wire_message m))
     else \<exists>c' er. Controller_Request render r (c, srv, w) a control body = ((c', srv, w), Err er)"
  proof (cases "unat txn \<le> 255")
    case True
    have enc: "encodable ?req" "encodable m"
      using True assms(16,17,20,21) known encodable_request [of control txn a body]
      by (simp_all add: message_consts encodable_def unpaddedLen_def)
    obtain p where "wire_message ?req = ?req\<lparr>Pad := p\<rparr>" using wire_plain [OF assms(14)] by blast
    then have "h w (ct_streamID c) (wire_message ?req) = (w', Ok m)" using assms(9,19) by simp
    from Controller_Request_handled [OF assms(4) _ refl, of txn a control body r h w w' m render srv] this enc True assms(12,13,15,18,20)
    show ?thesis by simp
  next
    case False
    then have "\<not> encodable ?req" by (simp add: encodable_def requestMessage_def message_consts)
    then show ?thesis
      using False beginRequest_cases(2) [OF assms(4) refl refl, of a control body] assms(12,13) by (auto simp: Controller_Request_def)
  qed
  then show ?thesis using mock shm by blast
qed

theorem transports_agree_witness:
  "(\<exists>mc'. mock_Request (\<lambda>_. []) echoRouter (mock_NewClient clientID, 0) 5 FlagWrite [1, 2] =
      ((mc', 1), Ok (udp_responseFor (requestMessage 5 1 FlagWrite [1, 2]) [2, 1]))) \<and>
   (\<exists>c' er. Controller_Request (\<lambda>_. []) echoRouter
      ((NewController clientID)\<lparr>nextTxn := 255\<rparr>, \<lparr>us_streamID = clientID, us_seq = 0, us_encapSeq = 0\<rparr>, 0) 5 FlagWrite [1, 2] =
      ((c', \<lparr>us_streamID = clientID, us_seq = 0, us_encapSeq = 0\<rparr>, 0), Err er))"
proof -
  let ?srv = "\<lparr>us_streamID = clientID, us_seq = 0, us_encapSeq = 0\<rparr>"
  have h: "handlers echoRouter 5 = Some echo" "(5 :: u16) \<noteq> EP0" "unat (5 :: u16) \<le> maxByteBusID" "length [1, 2 :: u8] \<le> 2036"
    by (simp_all add: echoRouter_def Router_Register_def NewRouter_def EP0_def message_consts)
  have e: "echo 0 clientID ((requestMessage 5 t FlagWrite [1, 2])\<lparr>Pad := p\<rparr>) = (1, Ok (udp_responseFor (requestMessage 5 t FlagWrite [1, 2]) [2, 1]))"
    "TransactionNum (udp_responseFor (requestMessage 5 t FlagWrite [1, 2]) [2, 1]) = t"
    "encodable (udp_responseFor (requestMessage 5 t FlagWrite [1, 2]) [2, 1]\<lparr>TransactionNum := 0\<rparr>)" for p t
    by (simp_all add: echo_def udp_responseFor_def responseWith_def requestMessage_def zeroMessage_def encodable_def message_consts
        knownFlags_def flag_defs kind_defs unpaddedLen_def)
  note agree = transports_agree [where sid = clientID and r = echoRouter and h = echo and a = 5 and control = FlagWrite and body = "[1, 2]"
      and w = 0 and w' = 1 and render = "\<lambda>_. []" and srv = ?srv and b = newBus]
  have "\<exists>mc'. mock_Request (\<lambda>_. []) echoRouter (mock_NewClient clientID, 0) 5 FlagWrite [1, 2] =
      ((mc', 1), Ok (udp_responseFor (requestMessage 5 1 FlagWrite [1, 2]) [2, 1]))"
    using agree [of "mock_NewClient clientID" "shmem_newController clientID" "NewController clientID" 0 1
        "udp_responseFor (requestMessage 5 1 FlagWrite [1, 2]) [2, 1]"] h e
    by (simp add: mock_NewClient_def shmem_newController_def NewController_def newBus_def)
  moreover have "\<exists>c' er. Controller_Request (\<lambda>_. []) echoRouter ((NewController clientID)\<lparr>nextTxn := 255\<rparr>, ?srv, 0) 5 FlagWrite [1, 2] =
      ((c', ?srv, 0), Err er)"
    using agree [of "(mock_NewClient clientID)\<lparr>mc_nextTxn := 255\<rparr>" "(shmem_newController clientID)\<lparr>sc_nextTxn := 255\<rparr>"
        "(NewController clientID)\<lparr>nextTxn := 255\<rparr>" 255 256 "udp_responseFor (requestMessage 5 256 FlagWrite [1, 2]) [2, 1]"] h e
    by (simp add: mock_NewClient_def shmem_newController_def NewController_def newBus_def)
  ultimately show ?thesis by blast
qed

text \<open>
  The default map gives a kind of higher priority a higher code point, and the lookup never leaves the map; a kind
  the package \<open>request\<close> does not know has rank 0 and so the code point of a cancellation.
\<close>

lemma Priority_le: "Priority k \<le> 6"
  by (simp add: Priority_def priorityRank_def split: option.split)

lemma PCPFor_ok: "length m = 7 \<Longrightarrow> PCPFor m k = Ok (m ! Priority k)"
  using Priority_le [of k] by (simp add: PCPFor_def idx_def Let_def)

lemma pcp_follows_priority:
  "\<exists>p p'. PCPFor DefaultPCPMap k = Ok p \<and> PCPFor DefaultPCPMap k' = Ok p' \<and> (p' < p \<longleftrightarrow> Priority k < Priority k')"
proof -
  have v: "DefaultPCPMap ! n = 7 - word_of_nat n" if "n \<le> 6" for n
  proof -
    from that have "n \<in> set [0..<7]" by simp
    then show ?thesis by (auto simp: DefaultPCPMap_def upt_rec)
  qed
  have l: "(7 - word_of_nat n' :: u8) < 7 - word_of_nat n \<longleftrightarrow> n < n'" if "n \<le> 6" "n' \<le> 6" for n n'
  proof -
    have "unat (7 - word_of_nat k :: u8) = 7 - k" if "k \<le> 6" for k
      using that by (simp add: unat_sub word_le_nat_alt unat_of_nat)
    then show ?thesis using that by (simp add: word_less_nat_alt) linarith
  qed
  show ?thesis
    using PCPFor_ok [of DefaultPCPMap] v l Priority_le by (simp add: DefaultPCPMap_def)
qed

lemma unknown_kind_pcp: "PCPFor DefaultPCPMap 0x7F = PCPFor DefaultPCPMap KindCancelAll"
  by (simp add: PCPFor_def Priority_def priorityRank_def Base_def rkind_defs)

text \<open>The endpoint of a bus serves the requests in the order in which they were put on it.\<close>

lemma shmem_in_order:
  assumes "distinct (map op_resp ops)" "\<forall>op\<in>set ops. respCh b (op_resp op) = None" "reqCh b = ops"
    and "\<And>w op. op \<in> set ops \<Longrightarrow> Route render r w (op_hdr op) (op_req op) = (step w op, Ok (Some (ans w op)))"
  shows "\<exists>b'. shmem_turns render r (length ops) (b, w) = Ok (b', foldl step w ops) \<and> reqCh b' = [] \<and>
    (\<forall>n<length ops. respCh b' (op_resp (ops ! n)) = Some (ans (foldl step w (take n ops)) (ops ! n))) \<and>
    (\<forall>k. k \<notin> op_resp ` set ops \<longrightarrow> respCh b' k = respCh b k)"
  using assms
proof (induction ops arbitrary: b w)
  case (Cons op ops)
  let ?b = "b\<lparr>reqCh := ops, respCh := (respCh b)(op_resp op \<mapsto> ans w op)\<rparr>"
  have "shmem_serve render r (b, w) = Ok (?b, step w op)"
    using Cons.prems by (simp add: shmem_serve_def Let_def)
  moreover obtain b' where "shmem_turns render r (length ops) (?b, step w op) = Ok (b', foldl step (step w op) ops)" "reqCh b' = []"
    "\<forall>n<length ops. respCh b' (op_resp (ops ! n)) = Some (ans (foldl step (step w op) (take n ops)) (ops ! n))"
    "\<forall>k. k \<notin> op_resp ` set ops \<longrightarrow> respCh b' k = respCh ?b k"
  proof -
    have "\<forall>opa\<in>set ops. respCh ?b (op_resp opa) = None" using Cons.prems(1,2) by (auto simp: image_iff)
    with Cons.IH [of ?b "step w op"] Cons.prems that show thesis by auto
  qed
  ultimately show ?case using Cons.prems by (auto simp: All_less_Suc2)
qed simp

end
