(* ===== verification/Adapter.thy ===== *)
theory Adapter
  imports Upstream Regmap
begin

text \<open>
  The front ends for programs: the adapter of the root package to the messages of RELAY (\<open>adapt.go\<close>, \<open>optional.go\<close>), the
  handles for callers in C (\<open>capi\<close>) and the controller with typed payloads (\<open>dyndata\<close>). Counters are 64-bit words; a call
  through the adapter is modelled in two steps, so that calls can overlap. The encoder of JSON is a parameter. Of
  the messages of RELAY only the fields that the adapter sets or reads are modelled, without the time stamp.
\<close>

section \<open>Messages of RELAY\<close>

record RelayMessage =
  rm_ID :: string
  rm_Payload :: bytes
  rm_Meta :: "string \<rightharpoonup> string"

text \<open>\<open>strconv.Atoi\<close>: an optional sign and decimal digits, in the range of 64 bits.\<close>

definition digitValue :: "char \<Rightarrow> nat option" where
  "digitValue c = (let n = of_char c :: nat in if 48 \<le> n \<and> n \<le> 57 then Some (n - 48) else None)"

fun digitsValue :: "nat \<Rightarrow> string \<Rightarrow> nat option" where
  "digitsValue acc [] = Some acc"
| "digitsValue acc (c # cs) = (case digitValue c of None \<Rightarrow> None | Some d \<Rightarrow> digitsValue (10 * acc + d) cs)"

definition unsignedValue :: "string \<Rightarrow> nat option" where
  "unsignedValue s = (if s = [] then None else digitsValue 0 s)"

definition Atoi :: "string \<Rightarrow> int option" where
  "Atoi s =
     (let v = (if s \<noteq> [] \<and> hd s = CHR ''-'' then map_option (\<lambda>n. - int n) (unsignedValue (tl s))
               else if s \<noteq> [] \<and> hd s = CHR ''+'' then map_option int (unsignedValue (tl s))
               else map_option int (unsignedValue s))
      in case v of None \<Rightarrow> None | Some n \<Rightarrow> if - (2 ^ 63) \<le> n \<and> n < 2 ^ 63 then Some n else None)"

definition EndpointIDString :: "u16 \<Rightarrow> string" where
  "EndpointIDString a = decimal (unat a)"

definition ParseEndpointID :: "string \<Rightarrow> u16 go" where
  "ParseEndpointID s =
     (case Atoi s of
        None \<Rightarrow> Err (EBridge (BRoot ErrNotFound_rcp))
      | Some n \<Rightarrow> if n < 0 \<or> n > 255 then Err (EBridge (BRoot ErrNotFound_rcp)) else Ok (word_of_int n))"

definition RequestFromMessage :: "RelayMessage \<Rightarrow> (u16 \<times> ControlFlags \<times> bytes) go" where
  "RequestFromMessage m =
     andThen (ParseEndpointID (rm_ID m)) (\<lambda>a.
       let control = (if rm_Meta m ''rcp.op'' = Some ''read'' then FlagRead
                      else if rm_Meta m ''rcp.op'' = Some ''write'' then FlagWrite
                      else if length (rm_Payload m) > 0 then FlagWrite else FlagRead)
       in Ok (a, control, rm_Payload m))"

definition FormatBool :: "bool \<Rightarrow> string" where "FormatBool b = (if b then ''true'' else ''false'')"

definition ResponseToMessage :: "u16 \<Rightarrow> Message \<Rightarrow> RelayMessage" where
  "ResponseToMessage a resp =
     \<lparr>rm_ID = EndpointIDString a, rm_Payload = Body resp,
      rm_Meta = [''rcp.op'' \<mapsto> (if Has (Control resp) FlagWrite then ''write'' else ''read''),
        ''rcp.error'' \<mapsto> FormatBool (Has (Control resp) FlagError),
        ''rcp.transaction_num'' \<mapsto> decimal (unat (TransactionNum resp)),
        ''rcp.read_size_or_segment'' \<mapsto> decimal (unat (ReadSizeOrSegment resp))]\<rparr>"

section \<open>The adapter\<close>

text \<open>A channel of a subscriber is its number; nothing is ever sent to one.\<close>

record rcpAdapter =
  writeCount :: u64
  deliverCount :: u64
  dropCount :: u64
  bytesWritten :: u64
  bytesDelivered :: u64
  errorCount :: u64
  inFlight :: int
  ad_closed :: bool
  ad_subs :: "nat list"
  ad_closedChans :: "nat list"

definition Adapt :: rcpAdapter where
  "Adapt = \<lparr>writeCount = 0, deliverCount = 0, dropCount = 0, bytesWritten = 0, bytesDelivered = 0, errorCount = 0,
     inFlight = 0, ad_closed = False, ad_subs = [], ad_closedChans = []\<rparr>"

text \<open>What \<open>Send\<close> and \<open>Call\<close> do before and after the call of the controller.\<close>

definition adapter_begin :: "rcpAdapter \<Rightarrow> RelayMessage \<Rightarrow> rcpAdapter \<times> (u16 \<times> ControlFlags \<times> bytes) go" where
  "adapter_begin a msg =
     (case RequestFromMessage msg of
        Err er \<Rightarrow> (a\<lparr>errorCount := errorCount a + 1\<rparr>, Err er)
      | Panic \<Rightarrow> (a, Panic)
      | Ok (addr, control, body) \<Rightarrow>
          (a\<lparr>inFlight := inFlight a + 1, writeCount := writeCount a + 1, bytesWritten := bytesWritten a + word_of_nat (length body)\<rparr>,
           Ok (addr, control, body)))"

definition adapter_endSend :: "rcpAdapter \<Rightarrow> Message go \<Rightarrow> rcpAdapter \<times> unit go" where
  "adapter_endSend a res =
     (case res of
        Ok _ \<Rightarrow> (a\<lparr>inFlight := inFlight a - 1\<rparr>, Ok ())
      | Err er \<Rightarrow> (a\<lparr>errorCount := errorCount a + 1, inFlight := inFlight a - 1\<rparr>, Err er)
      | Panic \<Rightarrow> (a\<lparr>inFlight := inFlight a - 1\<rparr>, Panic))"

definition adapter_endCall :: "rcpAdapter \<Rightarrow> u16 \<Rightarrow> Message go \<Rightarrow> rcpAdapter \<times> RelayMessage go" where
  "adapter_endCall a addr res =
     (case res of
        Ok resp \<Rightarrow> (a\<lparr>deliverCount := deliverCount a + 1, bytesDelivered := bytesDelivered a + word_of_nat (length (Body resp)),
                     inFlight := inFlight a - 1\<rparr>, Ok (ResponseToMessage addr resp))
      | Err er \<Rightarrow> (a\<lparr>errorCount := errorCount a + 1, inFlight := inFlight a - 1\<rparr>, Err er)
      | Panic \<Rightarrow> (a\<lparr>inFlight := inFlight a - 1\<rparr>, Panic))"

definition adapter_Send :: "'w request \<Rightarrow> rcpAdapter \<times> 'w \<Rightarrow> RelayMessage \<Rightarrow> (rcpAdapter \<times> 'w) \<times> unit go" where
  "adapter_Send request s msg =
     (let (a, w) = s in
      case adapter_begin a msg of
        (a1, Err er) \<Rightarrow> ((a1, w), Err er)
      | (a1, Panic) \<Rightarrow> ((a1, w), Panic)
      | (a1, Ok (addr, control, body)) \<Rightarrow>
          (case request w addr control body of
             (w', res) \<Rightarrow> (case adapter_endSend a1 res of (a2, out) \<Rightarrow> ((a2, w'), out))))"

definition adapter_Call :: "'w request \<Rightarrow> rcpAdapter \<times> 'w \<Rightarrow> RelayMessage \<Rightarrow> (rcpAdapter \<times> 'w) \<times> RelayMessage go" where
  "adapter_Call request s msg =
     (let (a, w) = s in
      case adapter_begin a msg of
        (a1, Err er) \<Rightarrow> ((a1, w), Err er)
      | (a1, Panic) \<Rightarrow> ((a1, w), Panic)
      | (a1, Ok (addr, control, body)) \<Rightarrow>
          (case request w addr control body of
             (w', res) \<Rightarrow> (case adapter_endCall a1 addr res of (a2, out) \<Rightarrow> ((a2, w'), out))))"

text \<open>\<open>closedMeanwhile\<close>: the adapter was closed after the first check, before the lock was taken.\<close>

definition adapter_Subscribe :: "rcpAdapter \<Rightarrow> nat \<Rightarrow> bool \<Rightarrow> rcpAdapter \<times> nat go" where
  "adapter_Subscribe a ch closedMeanwhile =
     (if ad_closed a then (a, Err (EBridge (BRoot ErrClosed_rcp)))
      else if closedMeanwhile then (a\<lparr>ad_closedChans := ad_closedChans a @ [ch]\<rparr>, Ok ch)
      else (a\<lparr>ad_subs := ad_subs a @ [ch]\<rparr>, Ok ch))"

definition adapter_Close :: "(rcpAdapter \<times> 'w) \<Rightarrow> ('w \<Rightarrow> 'w \<times> unit go) \<Rightarrow> (rcpAdapter \<times> 'w) \<times> unit go" where
  "adapter_Close s close =
     (let (a, w) = s in
      if ad_closed a then (s, Ok ())
      else case close w of
        (w', out) \<Rightarrow> ((a\<lparr>ad_closed := True, ad_closedChans := ad_closedChans a @ ad_subs a, ad_subs := []\<rparr>, w'), out))"

datatype Health = HealthOK | HealthDegraded string | HealthDown string

definition adapter_Health :: "rcpAdapter \<Rightarrow> Health" where
  "adapter_Health a =
     (if ad_closed a then HealthDown ''adapter closed''
      else if errorCount a > 0 then HealthDegraded (decimal (unat (errorCount a)) @ '' errors recorded'')
      else HealthOK)"

text \<open>
  The loop of \<open>CloseWithDrain\<close> over what happens between two looks at the counter: the context ends, or other
  calls have taken their steps when the ticker fires. \<open>None\<close>: it is still waiting.
\<close>

fun CloseWithDrain ::
  "('w \<Rightarrow> 'w \<times> unit go) \<Rightarrow> rcpAdapter \<times> 'w \<Rightarrow> (rcpAdapter \<times> 'w \<Rightarrow> rcpAdapter \<times> 'w) option list \<Rightarrow> ((rcpAdapter \<times> 'w) \<times> unit go) option" where
  "CloseWithDrain close s ticks =
     (if inFlight (fst s) > 0 then
        (case ticks of
           [] \<Rightarrow> None
         | None # _ \<Rightarrow> Some (fst (adapter_Close s close), Err (EBridge (BRoot ErrTimeout_rcp)))
         | Some others # ticks' \<Rightarrow> CloseWithDrain close (others s) ticks')
      else Some (adapter_Close s close))"

declare CloseWithDrain.simps [simp del]

section \<open>Handles for C\<close>

definition ErrCodeOK :: int where "ErrCodeOK = 0"
definition ErrCodeInvalidHandle :: int where "ErrCodeInvalidHandle = - 1"
definition ErrCodeDialFailed :: int where "ErrCodeDialFailed = - 2"
definition ErrCodeRequestFailed :: int where "ErrCodeRequestFailed = - 3"

text \<open>A handle is an \<open>int32\<close>; controllers are named by keys, which stand for the pointers of the source.\<close>

record 'k Handles =
  hd_ctrls :: "u32 \<rightharpoonup> 'k"
  ctrlSeq :: u32

definition noHandles :: "'k Handles" where "noHandles = \<lparr>hd_ctrls = Map.empty, ctrlSeq = 0\<rparr>"

definition newHandle :: "'k Handles \<Rightarrow> 'k \<Rightarrow> 'k Handles \<times> u32" where
  "newHandle t c = (let h = ctrlSeq t + 1 in (t\<lparr>ctrlSeq := h, hd_ctrls := (hd_ctrls t)(h \<mapsto> c)\<rparr>, h))"

definition capi_NewController :: "'k Handles \<Rightarrow> 'k go \<Rightarrow> 'k Handles \<times> u32 \<times> int" where
  "capi_NewController t dialed =
     (case dialed of
        Ok c \<Rightarrow> (case newHandle t c of (t', h) \<Rightarrow> (t', h, ErrCodeOK))
      | _ \<Rightarrow> (t, - 1, ErrCodeDialFailed))"

definition capi_Request :: "('k \<Rightarrow> 'w request) \<Rightarrow> 'k Handles \<Rightarrow> 'w \<Rightarrow> u32 \<Rightarrow> u16 \<Rightarrow> ControlFlags \<Rightarrow> bytes \<Rightarrow> 'w \<times> (Message \<times> int) go" where
  "capi_Request request t w h a control body =
     (case hd_ctrls t h of
        None \<Rightarrow> (w, Ok (zeroMessage, ErrCodeInvalidHandle))
      | Some c \<Rightarrow>
          (case request c w a control body of
             (w', Ok resp) \<Rightarrow> (w', Ok (resp, ErrCodeOK))
           | (w', Err _) \<Rightarrow> (w', Ok (zeroMessage, ErrCodeRequestFailed))
           | (w', Panic) \<Rightarrow> (w', Panic)))"

definition capi_Read :: "('k \<Rightarrow> 'w request) \<Rightarrow> 'k Handles \<Rightarrow> 'w \<Rightarrow> u32 \<Rightarrow> u16 \<Rightarrow> 'w \<times> (Message \<times> int) go" where
  "capi_Read request t w h a = capi_Request request t w h a FlagRead []"

definition capi_Write :: "('k \<Rightarrow> 'w request) \<Rightarrow> 'k Handles \<Rightarrow> 'w \<Rightarrow> u32 \<Rightarrow> u16 \<Rightarrow> bytes \<Rightarrow> 'w \<times> (Message \<times> int) go" where
  "capi_Write request t w h a body = capi_Request request t w h a FlagWrite body"

text \<open>The controller that is to be closed, if the handle names one.\<close>

definition capi_Close :: "'k Handles \<Rightarrow> u32 \<Rightarrow> 'k Handles \<times> 'k option" where
  "capi_Close t h = (t\<lparr>hd_ctrls := (hd_ctrls t)(h := None)\<rparr>, hd_ctrls t h)"

section \<open>Typed payloads\<close>

text \<open>A field kind is a string in the source; one that is none of the five constants accepts every value.\<close>

datatype FieldKind = KindString | KindInt | KindFloat | KindBool | KindBytes | OtherKind string

record Field =
  fd_Name :: string
  fd_Kind :: FieldKind
  fd_Required :: bool

record Schema =
  sch_Name :: string
  sch_Version :: int
  sch_Fields :: "Field list"

text \<open>The dynamic types that the checks tell apart; the values themselves only matter to the encoder.\<close>

datatype 'v goValue = GString 'v | GInteger 'v | GFloat32 'v | GFloat64 'v | GBool 'v | GBytes 'v | GOther 'v

type_synonym 'v Payload = "(string \<times> 'v goValue) list"

type_synonym SchemaRegistry = "string \<rightharpoonup> Schema"

definition schema_Register :: "SchemaRegistry \<Rightarrow> Schema \<Rightarrow> SchemaRegistry \<times> rcp_error option" where
  "schema_Register r s =
     (if r (sch_Name s) \<noteq> None then (r, Some (EBridge (BDyndata ErrAlreadyRegistered_dyndata)))
      else (r(sch_Name s \<mapsto> s), None))"

definition schema_Lookup :: "SchemaRegistry \<Rightarrow> string \<Rightarrow> Schema go" where
  "schema_Lookup r name = (case r name of None \<Rightarrow> Err (EBridge (BDyndata ErrSchemaNotFound)) | Some s \<Rightarrow> Ok s)"

fun checkKind :: "FieldKind \<Rightarrow> 'v goValue \<Rightarrow> bool" where
  "checkKind KindString v = (case v of GString _ \<Rightarrow> True | _ \<Rightarrow> False)"
| "checkKind KindInt v = (case v of GInteger _ \<Rightarrow> True | GFloat64 _ \<Rightarrow> True | _ \<Rightarrow> False)"
| "checkKind KindFloat v = (case v of GFloat32 _ \<Rightarrow> True | GFloat64 _ \<Rightarrow> True | _ \<Rightarrow> False)"
| "checkKind KindBool v = (case v of GBool _ \<Rightarrow> True | _ \<Rightarrow> False)"
| "checkKind KindBytes v = (case v of GString _ \<Rightarrow> True | GBytes _ \<Rightarrow> True | _ \<Rightarrow> False)"
| "checkKind (OtherKind _) v = True"

fun checkFields :: "'v Payload \<Rightarrow> Field list \<Rightarrow> unit go" where
  "checkFields p [] = Ok ()"
| "checkFields p (f # fs) =
     (case map_of p (fd_Name f) of
        None \<Rightarrow> if fd_Required f then Err (EBridge (BDyndata ErrMissingField)) else checkFields p fs
      | Some v \<Rightarrow> if checkKind (fd_Kind f) v then checkFields p fs else Err (EBridge (BDyndata ErrFieldTypeMismatch)))"

definition dyndata_Encode :: "('v Payload \<Rightarrow> bytes go) \<Rightarrow> Schema \<Rightarrow> 'v Payload \<Rightarrow> bytes go" where
  "dyndata_Encode marshal s p =
     (if list_ex (\<lambda>key. key \<notin> set (map fd_Name (sch_Fields s))) (map fst p) then Err (EBridge (BDyndata ErrUnknownField))
      else andThen (checkFields p (sch_Fields s)) (\<lambda>_. marshal p))"

definition SendTyped :: "('v Payload \<Rightarrow> bytes go) \<Rightarrow> 'w request \<Rightarrow> SchemaRegistry \<Rightarrow> 'w \<Rightarrow> u16 \<Rightarrow> ControlFlags \<Rightarrow> string \<Rightarrow> 'v Payload \<Rightarrow> 'w \<times> Message go" where
  "SendTyped marshal request r w a control schemaName p =
     (case schema_Lookup r schemaName of
        Err er \<Rightarrow> (w, Err er)
      | Panic \<Rightarrow> (w, Panic)
      | Ok s \<Rightarrow>
          (case dyndata_Encode marshal s p of
             Err er \<Rightarrow> (w, Err er)
           | Panic \<Rightarrow> (w, Panic)
           | Ok encoded \<Rightarrow> request w a control encoded))"

section \<open>Messages there and back\<close>

lemma digitsValue_append: "digitsValue acc (xs @ ys) = (case digitsValue acc xs of None \<Rightarrow> None | Some n \<Rightarrow> digitsValue n ys)"
  by (induction xs arbitrary: acc) (simp_all split: option.split)

lemma digitValue_char: "(d :: nat) < 10 \<Longrightarrow> digitValue (char_of (48 + d)) = Some d"
  by (simp add: digitValue_def of_char_of Let_def)

lemma digitsValue_decimal: "digitsValue 0 (decimal n) = Some n"
proof (induction n rule: decimal.induct)
  case (1 n)
  show ?case
  proof (cases "n < 10")
    case True
    then show ?thesis by (simp add: decimal.simps digitValue_char)
  next
    case False
    then show ?thesis
      using 1 digitValue_char [of "n mod 10"] by (subst decimal.simps) (simp add: digitsValue_append)
  qed
qed

lemma decimal_first: "\<exists>(d :: nat) cs. d < 10 \<and> decimal n = char_of (48 + d) # cs"
proof (induction n rule: decimal.induct)
  case (1 n)
  show ?case
  proof (cases "n < 10")
    case True
    then show ?thesis by (subst decimal.simps) auto
  next
    case False
    with 1 show ?thesis by (subst decimal.simps) fastforce
  qed
qed

lemma Atoi_decimal: "int n < 2 ^ 63 \<Longrightarrow> Atoi (decimal n) = Some (int n)"
proof -
  assume n: "int n < 2 ^ 63"
  obtain d :: nat and cs where d: "d < 10" "decimal n = char_of (48 + d) # cs" using decimal_first by blast
  have "(of_char (char_of (48 + d)) :: nat) = 48 + d" using d(1) by (simp add: of_char_of)
  then have o: "(of_char (char_of (48 + d)) :: nat) \<noteq> of_char (CHR ''-'')" "(of_char (char_of (48 + d)) :: nat) \<noteq> of_char (CHR ''+'')"
    by (simp_all add: of_char_def)
  have "char_of (48 + d) \<noteq> CHR ''-''" "char_of (48 + d) \<noteq> CHR ''+''" using o by metis+
  then show "Atoi (decimal n) = Some (int n)"
    using n d digitsValue_decimal [of n] by (simp add: Atoi_def unsignedValue_def)
qed

text \<open>A response as a RELAY message becomes the request it answers. Turned into a message of RELAY and read as a request, a
  response addresses the same endpoint with the same direction and body, if the address is at most 255; for an
  address above, which the protocol allows up to 2047, the message that the adapter has built itself is rejected.\<close>

theorem relay_roundtrip:
  "RequestFromMessage (ResponseToMessage a resp) =
     (if unat a \<le> 255 then Ok (a, if Has (Control resp) FlagWrite then FlagWrite else FlagRead, Body resp)
      else Err (EBridge (BRoot ErrNotFound_rcp)))"
proof -
  have "int (unat a) < 2 ^ 63" using unsigned_less [of a, where 'a = int] by simp
  then have "Atoi (EndpointIDString a) = Some (int (unat a))" unfolding EndpointIDString_def by (rule Atoi_decimal)
  moreover have wide: "255 < uint a \<longleftrightarrow> 255 < unat a" using uint_nat [of a] by linarith
  ultimately have "ParseEndpointID (EndpointIDString a) = (if unat a \<le> 255 then Ok a else Err (EBridge (BRoot ErrNotFound_rcp)))"
    using wide by (simp add: ParseEndpointID_def not_less)
  then show ?thesis by (simp add: RequestFromMessage_def ResponseToMessage_def)
qed

section \<open>What the counters count\<close>

text \<open>
  Overlapping calls: a call begins and ends, in any order with others. The second component is the ghost state:
  how many calls have begun, are under way, were answered to \<open>Call\<close>, and failed.
\<close>

record ghost =
  g_begun :: nat
  g_open :: nat
  g_answered :: nat
  g_failed :: nat

inductive adapter_step :: "rcpAdapter \<times> ghost \<Rightarrow> rcpAdapter \<times> ghost \<Rightarrow> bool" where
  refuse: "adapter_begin a msg = (a', Err er) \<Longrightarrow> adapter_step (a, g) (a', g\<lparr>g_failed := Suc (g_failed g)\<rparr>)"
| start: "adapter_begin a msg = (a', Ok req) \<Longrightarrow> adapter_step (a, g) (a', g\<lparr>g_begun := Suc (g_begun g), g_open := Suc (g_open g)\<rparr>)"
| sent: "g_open g > 0 \<Longrightarrow> adapter_endSend a (Ok m) = (a', out) \<Longrightarrow> adapter_step (a, g) (a', g\<lparr>g_open := g_open g - 1\<rparr>)"
| sendFailed: "g_open g > 0 \<Longrightarrow> adapter_endSend a (Err er) = (a', out) \<Longrightarrow>
    adapter_step (a, g) (a', g\<lparr>g_open := g_open g - 1, g_failed := Suc (g_failed g)\<rparr>)"
| called: "g_open g > 0 \<Longrightarrow> adapter_endCall a addr (Ok m) = (a', answer) \<Longrightarrow>
    adapter_step (a, g) (a', g\<lparr>g_open := g_open g - 1, g_answered := Suc (g_answered g)\<rparr>)"
| callFailed: "g_open g > 0 \<Longrightarrow> adapter_endCall a addr (Err er) = (a', answer) \<Longrightarrow>
    adapter_step (a, g) (a', g\<lparr>g_open := g_open g - 1, g_failed := Suc (g_failed g)\<rparr>)"
| subscribe: "adapter_Subscribe a ch meanwhile = (a', chan) \<Longrightarrow> adapter_step (a, g) (a', g)"
| shut: "adapter_Close (a, ()) f = ((a', w'), out) \<Longrightarrow> adapter_step (a, g) (a', g)"

definition adapter_inv :: "rcpAdapter \<times> ghost \<Rightarrow> bool" where
  "adapter_inv s \<longleftrightarrow> (case s of (a, g) \<Rightarrow>
     writeCount a = word_of_nat (g_begun g) \<and> inFlight a = int (g_open g) \<and> deliverCount a = word_of_nat (g_answered g) \<and>
     errorCount a = word_of_nat (g_failed g) \<and> dropCount a = 0 \<and> (ad_closed a \<longrightarrow> ad_subs a = []))"

lemma adapter_step_inv:
  assumes "adapter_step s s'" "adapter_inv s"
  shows "adapter_inv s'"
  using assms
  by (induction s s' rule: adapter_step.induct)
    (auto simp: adapter_inv_def adapter_begin_def adapter_endSend_def adapter_endCall_def adapter_Subscribe_def adapter_Close_def Let_def
      split: outcome.splits if_splits prod.splits)

interpretation adapter: invariant_steps adapter_step adapter_inv
  by unfold_locales (rule adapter_step_inv)

text \<open>A drain that ends without an error has closed the adapter at a moment when no call was under way.\<close>

lemma drain_waits:
  assumes "CloseWithDrain f s ticks = Some (s', Ok ())"
  shows "ad_closed (fst s') \<and> (\<exists>t. inFlight (fst t) \<le> 0 \<and> s' = fst (adapter_Close t f))"
  using assms
proof (induction f s ticks rule: CloseWithDrain.induct)
  case (1 f s ticks)
  show ?case
  proof (cases "inFlight (fst s) > 0")
    case True
    then obtain others ticks' where "ticks = Some others # ticks'" "CloseWithDrain f (others s) ticks' = Some (s', Ok ())"
      using 1(2) by (subst (asm) CloseWithDrain.simps) (auto split: list.splits option.splits)
    then show ?thesis using 1(1) [OF True] by blast
  next
    case False
    then have "s' = fst (adapter_Close s f)" using 1(2) by (subst (asm) CloseWithDrain.simps) auto
    moreover have "ad_closed (fst (fst (adapter_Close s f)))"
      by (simp add: adapter_Close_def Let_def split: prod.split)
    ultimately show ?thesis using False by (intro conjI exI [of _ s]) auto
  qed
qed

text \<open>The counters of the adapter are exact. However the calls of \<open>Send\<close> and \<open>Call\<close>, subscriptions and a close overlap, the adapter
  counts the requests that were begun, those answered to \<open>Call\<close> and the failures, modulo \<open>2 ^ 64\<close>, and the calls under
  way; its health is down when it is closed and otherwise degraded exactly when a call has failed, as long as the
  number of failures is below \<open>2 ^ 64\<close>.\<close>

theorem adapter_counts_exactly:
  assumes "adapter_step\<^sup>*\<^sup>* (Adapt, \<lparr>g_begun = 0, g_open = 0, g_answered = 0, g_failed = 0\<rparr>) (a, g)"
  shows "writeCount a = word_of_nat (g_begun g) \<and> inFlight a = int (g_open g) \<and> deliverCount a = word_of_nat (g_answered g) \<and>
    errorCount a = word_of_nat (g_failed g) \<and>
    (g_failed g < 2 ^ 64 \<longrightarrow> adapter_Health a =
       (if ad_closed a then HealthDown ''adapter closed''
        else if g_failed g > 0 then HealthDegraded (decimal (g_failed g) @ '' errors recorded'') else HealthOK))"
proof -
  have inv: "adapter_inv (a, g)"
    by (rule adapter.steps_inv [OF assms]) (simp add: adapter_inv_def Adapt_def)
  have "unat (errorCount a) = g_failed g" if "g_failed g < 2 ^ 64"
    using inv that by (simp add: adapter_inv_def unsigned_of_nat take_bit_nat_eq_self)
  moreover have "errorCount a > 0 \<longleftrightarrow> unat (errorCount a) > 0" by (simp add: word_less_nat_alt)
  ultimately show ?thesis using inv by (simp add: adapter_inv_def adapter_Health_def)
qed

theorem adapter_counts_exactly_witness:
  "\<exists>a g. adapter_step\<^sup>*\<^sup>* (Adapt, \<lparr>g_begun = 0, g_open = 0, g_answered = 0, g_failed = 0\<rparr>) (a, g) \<and>
     inFlight a = 0 \<and> writeCount a = 1 \<and> adapter_Health a = HealthDegraded ''1 errors recorded''"
proof -
  let ?msg = "\<lparr>rm_ID = ''5'', rm_Payload = [1], rm_Meta = Map.empty\<rparr>"
  let ?g = "\<lparr>g_begun = 0, g_open = 0, g_answered = 0, g_failed = 0\<rparr>"
  let ?a = "fst (adapter_begin Adapt ?msg)"
  let ?b = "fst (adapter_endSend ?a (Err (EUdp ErrTimeout)))"
  have "RequestFromMessage ?msg = Ok (5, FlagWrite, [1])"
    by (simp add: RequestFromMessage_def ParseEndpointID_def Atoi_def unsignedValue_def digitValue_def of_char_def Let_def)
  then have 1: "adapter_step (Adapt, ?g) (?a, ?g\<lparr>g_begun := 1, g_open := 1\<rparr>)"
    using adapter_step.start [of Adapt ?msg ?a "(5, FlagWrite, [1])" ?g] by (simp add: adapter_begin_def)
  have 2: "adapter_step (?a, ?g\<lparr>g_begun := 1, g_open := 1\<rparr>) (?b, \<lparr>g_begun = 1, g_open = 0, g_answered = 0, g_failed = 1\<rparr>)"
    using adapter_step.sendFailed [of "?g\<lparr>g_begun := 1, g_open := 1\<rparr>" ?a "EUdp ErrTimeout" ?b "Err (EUdp ErrTimeout)"]
    by (simp add: adapter_endSend_def)
  from 1 2 have run: "adapter_step\<^sup>*\<^sup>* (Adapt, ?g) (?b, \<lparr>g_begun = 1, g_open = 0, g_answered = 0, g_failed = 1\<rparr>)" by simp
  have "\<not> ad_closed ?b" by (simp add: adapter_endSend_def adapter_begin_def Adapt_def split: outcome.split)
  then have "inFlight ?b = 0 \<and> writeCount ?b = 1 \<and> adapter_Health ?b = HealthDegraded (decimal 1 @ '' errors recorded'')"
    using adapter_counts_exactly [OF run] by simp
  moreover have "decimal 1 @ '' errors recorded'' = ''1 errors recorded''" by (simp add: decimal.simps char_of_def bit_0 bit_Suc)
  ultimately show ?thesis using run by metis
qed

section \<open>Handles and schemas\<close>

text \<open>
  Until the counter wraps the handles are positive and new: the controllers of other handles stay reachable. After
  \<open>2 ^ 32\<close> allocations a handle that is still in use is given out again, and its controller is lost.
\<close>

definition handles_inv :: "nat \<Rightarrow> 'k Handles \<Rightarrow> bool" where
  "handles_inv n t \<longleftrightarrow> ctrlSeq t = word_of_nat n \<and> (\<forall>h \<in> dom (hd_ctrls t). 0 < h \<and> unat h \<le> n)"

lemma handles_inv_steps:
  assumes "handles_inv n t"
  shows "Suc n < 2 ^ 32 \<Longrightarrow> handles_inv (Suc n) (fst (newHandle t c))" "handles_inv n (fst (capi_Close t h))"
proof -
  assume n: "Suc n < 2 ^ 32"
  then have "unat (word_of_nat (Suc n) :: u32) = Suc n" by (simp add: unsigned_of_nat take_bit_nat_eq_self del: of_nat_Suc)
  then show "handles_inv (Suc n) (fst (newHandle t c))"
    using assms by (auto simp: handles_inv_def newHandle_def Let_def word_less_nat_alt le_SucI add.commute)
qed (use assms in \<open>auto simp: handles_inv_def capi_Close_def\<close>)

lemma fresh_handle:
  assumes "handles_inv n t" "Suc n < 2 ^ 31" "newHandle t c = (t', h)"
  shows "hd_ctrls t h = None \<and> 0 <s h \<and> hd_ctrls t' h = Some c \<and> (\<forall>h'. hd_ctrls t h' \<noteq> None \<longrightarrow> hd_ctrls t' h' = hd_ctrls t h')"
proof -
  have h: "h = word_of_nat (Suc n)" "t' = t\<lparr>ctrlSeq := h, hd_ctrls := (hd_ctrls t)(h \<mapsto> c)\<rparr>"
    using assms(1,3) by (auto simp: newHandle_def handles_inv_def Let_def)
  have u: "unat h = Suc n" using assms(2) unfolding h(1) by (simp add: unsigned_of_nat take_bit_nat_eq_self del: of_nat_Suc)
  have "hd_ctrls t h = None"
  proof (rule ccontr)
    assume "hd_ctrls t h \<noteq> None"
    then have "unat h \<le> n" using assms(1) by (auto simp: handles_inv_def)
    with u show False by simp
  qed
  moreover have "sint h = int (Suc n)"
    using signed_take_bit_int_eq_self [of 31 "uint h"] u assms(2) uint_nat [of h] by (simp add: sint_uint)
  then have "0 <s h" by (simp add: word_sless_alt)
  ultimately show ?thesis using h by auto
qed

text \<open>A typed request reaches the controller exactly when its schema is known and the payload conforms to it.\<close>

definition conforms :: "Schema \<Rightarrow> 'v Payload \<Rightarrow> bool" where
  "conforms s p \<longleftrightarrow> fst ` set p \<subseteq> fd_Name ` set (sch_Fields s) \<and>
     (\<forall>f \<in> set (sch_Fields s). case map_of p (fd_Name f) of None \<Rightarrow> \<not> fd_Required f | Some v \<Rightarrow> checkKind (fd_Kind f) v)"

lemma checkFields_iff:
  "checkFields p fs = Ok () \<longleftrightarrow> (\<forall>f \<in> set fs. case map_of p (fd_Name f) of None \<Rightarrow> \<not> fd_Required f | Some v \<Rightarrow> checkKind (fd_Kind f) v)"
  "checkFields p fs \<noteq> Panic"
  by (induction fs) (auto split: option.splits)

lemma Encode_conforms:
  "if conforms s p then dyndata_Encode marshal s p = marshal p else \<exists>er. dyndata_Encode marshal s p = Err er"
  using checkFields_iff [of p "sch_Fields s"]
  by (cases "checkFields p (sch_Fields s)") (auto simp: conforms_def dyndata_Encode_def list_ex_iff image_iff subset_iff)

lemma SendTyped_conforms:
  "SendTyped marshal request r w a control name p = (w', Ok m) \<Longrightarrow>
     \<exists>s body. r name = Some s \<and> conforms s p \<and> marshal p = Ok body \<and> request w a control body = (w', Ok m)"
  using Encode_conforms [of "the (r name)" p marshal]
  by (auto simp: SendTyped_def schema_Lookup_def split: option.splits outcome.splits if_splits) metis

end
