(* ===== verification/Pubsub.thy ===== *)
theory Pubsub
  imports Upstream
begin

text \<open>
  The bridges to publish and subscribe, \<open>mqttbr\<close> and \<open>ddsbr\<close>. A channel is the queue of what was sent to it and not yet
  received; both packages use channels of 32 places and drop what does not fit. The broker of \<open>mqttbr\<close> keeps its subscribers
  in slices whose arrays are changed in place, so its model has the arrays; they are proved to implement lists of
  subscribers, as long as nothing comes between the steps of a publication. What happens otherwise is proved as well.
\<close>

datatype mqttbr_error = ErrShortMessage

section \<open>Channels\<close>

definition offer :: "'m list \<Rightarrow> 'm \<Rightarrow> 'm list" where
  "offer q m = (if length q < 32 then q @ [m] else q)"

section \<open>The broker of \<open>mqttbr\<close>\<close>

text \<open>
  A slice is an array and a length, the length of the array is the capacity of its slices. The array 0 is empty, for the
  slice \<open>nil\<close>. Subscriptions are numbers, \<open>chans\<close> are their channels. \<open>grow\<close> is the capacity that the runtime gives an array of
  the length it needs, which the language leaves open.
\<close>

record Slice =
  sl_arr :: nat
  sl_len :: nat

record Broker =
  br_subs :: "string \<Rightarrow> Slice"
  arrays :: "nat \<Rightarrow> nat list"
  nextArr :: nat
  chans :: "nat \<Rightarrow> bytes list"
  nextSub :: nat

definition NewBroker :: Broker where
  "NewBroker = \<lparr>br_subs = (\<lambda>_. \<lparr>sl_arr = 0, sl_len = 0\<rparr>), arrays = (\<lambda>_. []), nextArr = 1, chans = (\<lambda>_. []), nextSub = 0\<rparr>"

definition Broker_subscribe :: "(nat \<Rightarrow> nat) \<Rightarrow> Broker \<Rightarrow> string \<Rightarrow> nat \<Rightarrow> Broker" where
  "Broker_subscribe grow b topic s =
     (let sl = br_subs b topic; xs = arrays b (sl_arr sl) in
      if sl_len sl < length xs
      then b\<lparr>arrays := (arrays b)(sl_arr sl := xs[sl_len sl := s]),
             br_subs := (br_subs b)(topic := sl\<lparr>sl_len := Suc (sl_len sl)\<rparr>)\<rparr>
      else b\<lparr>arrays := (arrays b)(nextArr b := take (sl_len sl) xs @ [s] @ replicate (grow (Suc (sl_len sl)) - Suc (sl_len sl)) 0),
             br_subs := (br_subs b)(topic := \<lparr>sl_arr = nextArr b, sl_len = Suc (sl_len sl)\<rparr>),
             nextArr := Suc (nextArr b)\<rparr>)"

fun position :: "nat \<Rightarrow> nat list \<Rightarrow> nat option" where
  "position s [] = None"
| "position s (x # xs) = (if x = s then Some 0 else map_option Suc (position s xs))"

text \<open>\<open>append(list[:i], list[i+1:]...)\<close> moves the elements behind the position down in the array.\<close>

definition Broker_unsubscribe :: "Broker \<Rightarrow> string \<Rightarrow> nat \<Rightarrow> Broker" where
  "Broker_unsubscribe b topic s =
     (let sl = br_subs b topic; xs = arrays b (sl_arr sl); n = sl_len sl in
      case position s (take n xs) of
        None \<Rightarrow> b
      | Some i \<Rightarrow> b\<lparr>arrays := (arrays b)(sl_arr sl := take i xs @ drop (Suc i) (take n xs) @ drop (n - 1) xs),
                    br_subs := (br_subs b)(topic := sl\<lparr>sl_len := n - 1\<rparr>)\<rparr>)"

text \<open>
  \<open>publish\<close> reads the slice under the lock and then walks it without: the step for one index reads the array as it
  is by then.
\<close>

definition publishStep :: "Slice \<Rightarrow> bytes \<Rightarrow> nat \<Rightarrow> Broker \<Rightarrow> Broker" where
  "publishStep list msg i b =
     (let s = arrays b (sl_arr list) ! i in b\<lparr>chans := (chans b)(s := offer (chans b s) msg)\<rparr>)"

definition Broker_publish :: "string \<Rightarrow> bytes \<Rightarrow> Broker \<Rightarrow> Broker" where
  "Broker_publish topic msg b = (let list = br_subs b topic in fold (publishStep list msg) [0..<sl_len list] b)"

section \<open>Clients of the broker\<close>

record MqttClient =
  cl_subs :: "(string \<times> nat) list"
  cl_closed :: bool

definition mqtt_NewClient :: MqttClient where "mqtt_NewClient = \<lparr>cl_subs = [], cl_closed = False\<rparr>"

definition mqtt_Publish :: "MqttClient \<Rightarrow> Broker \<Rightarrow> string \<Rightarrow> bytes \<Rightarrow> Broker" where
  "mqtt_Publish c b topic msg = (if cl_closed c then b else Broker_publish topic msg b)"

definition mqtt_Subscribe :: "(nat \<Rightarrow> nat) \<Rightarrow> MqttClient \<Rightarrow> Broker \<Rightarrow> string \<Rightarrow> MqttClient \<times> Broker \<times> nat" where
  "mqtt_Subscribe grow c b topic =
     (case map_of (cl_subs c) topic of
        Some s \<Rightarrow> (c, b, s)
      | None \<Rightarrow>
          (let s = nextSub b; b1 = b\<lparr>nextSub := Suc s, chans := (chans b)(s := [])\<rparr> in
           (c\<lparr>cl_subs := (topic, s) # cl_subs c\<rparr>, Broker_subscribe grow b1 topic s, s)))"

definition mqtt_Unsubscribe :: "MqttClient \<Rightarrow> Broker \<Rightarrow> string \<Rightarrow> MqttClient \<times> Broker" where
  "mqtt_Unsubscribe c b topic =
     (case map_of (cl_subs c) topic of
        None \<Rightarrow> (c, b)
      | Some s \<Rightarrow> (c\<lparr>cl_subs := filter (\<lambda>e. fst e \<noteq> topic) (cl_subs c)\<rparr>, Broker_unsubscribe b topic s))"

definition mqtt_Close :: "MqttClient \<Rightarrow> Broker \<Rightarrow> MqttClient \<times> Broker" where
  "mqtt_Close c b =
     (if cl_closed c then (c, b)
      else (c\<lparr>cl_closed := True, cl_subs := []\<rparr>, fold (\<lambda>(topic, s) b. Broker_unsubscribe b topic s) (cl_subs c) b))"

section \<open>The messages of the bridge\<close>

definition commandHeaderLen :: nat where "commandHeaderLen = 2"

definition mqttbr_EncodeCommand :: "u16 \<Rightarrow> ControlFlags \<Rightarrow> bytes \<Rightarrow> bytes" where
  "mqttbr_EncodeCommand a control body = [ucast a, control] @ body"

definition decodeCommand :: "bytes \<Rightarrow> (mqttbr_error, u16 \<times> ControlFlags \<times> bytes) outcome" where
  "decodeCommand msg =
     (if length msg < commandHeaderLen then Err ErrShortMessage
      else andThen (idx msg 0) (\<lambda>a. andThen (idx msg 1) (\<lambda>control. andThen (slice msg commandHeaderLen (length msg)) (\<lambda>body.
        Ok (ucast a, control, body)))))"

definition statusTagResponse :: u8 where "statusTagResponse = 0"
definition statusTagTrigger :: u8 where "statusTagTrigger = 1"
definition responseHeaderLen :: nat where "responseHeaderLen = 5"
definition triggerMsgLen :: nat where "triggerMsgLen = 4"

record StatusMessage =
  IsTrigger :: bool
  st_ByteBusID :: u16
  st_TransactionNum :: TransactionNum
  st_Control :: ControlFlags
  st_Body :: bytes
  st_Count :: int

definition encodeResponseStatus :: "Message \<Rightarrow> bytes" where
  "encodeResponseStatus resp = [statusTagResponse, ucast (ByteBusID resp)] @ put16 (TransactionNum resp) @ [Control resp] @ Body resp"

definition encodeTriggerStatus :: "u16 \<Rightarrow> int \<Rightarrow> bytes" where
  "encodeTriggerStatus source count =
     (let c = (if count < 0 then 0 else if count > 0xFFFF then 0xFFFF else count)
      in [statusTagTrigger, ucast source] @ put16 (word_of_int c))"

definition DecodeStatus :: "bytes \<Rightarrow> (mqttbr_error, StatusMessage) outcome" where
  "DecodeStatus msg =
     (if length msg < 2 then Err ErrShortMessage
      else andThen (idx msg 0) (\<lambda>tag. andThen (idx msg 1) (\<lambda>a.
        if tag = statusTagTrigger then
          (if length msg \<noteq> triggerMsgLen then Err ErrShortMessage
           else andThen (get16 msg 2) (\<lambda>n.
             Ok \<lparr>IsTrigger = True, st_ByteBusID = ucast a, st_TransactionNum = 0, st_Control = 0, st_Body = [], st_Count = uint n\<rparr>))
        else
          (if length msg < responseHeaderLen then Err ErrShortMessage
           else andThen (get16 msg 2) (\<lambda>txn. andThen (idx msg 4) (\<lambda>control. andThen (slice msg responseHeaderLen (length msg)) (\<lambda>body.
             Ok \<lparr>IsTrigger = False, st_ByteBusID = ucast a, st_TransactionNum = txn, st_Control = control, st_Body = body, st_Count = 0\<rparr>)))))))"

definition mqtt_PublishResponse :: "MqttClient \<Rightarrow> string \<Rightarrow> Broker \<Rightarrow> Message \<Rightarrow> Broker" where
  "mqtt_PublishResponse c statusTopic b resp = mqtt_Publish c b statusTopic (encodeResponseStatus resp)"

definition mqtt_PublishTrigger :: "MqttClient \<Rightarrow> string \<Rightarrow> Broker \<Rightarrow> u16 \<Rightarrow> int \<Rightarrow> Broker" where
  "mqtt_PublishTrigger c statusTopic b source count = mqtt_Publish c b statusTopic (encodeTriggerStatus source count)"

text \<open>One turn of \<open>runCmd\<close>: a message that does not decode is skipped, the answer to a request is not used.\<close>

definition mqtt_forward :: "'w request \<Rightarrow> 'w \<Rightarrow> bytes \<Rightarrow> 'w go" where
  "mqtt_forward request w msg =
     (case decodeCommand msg of
        Err _ \<Rightarrow> Ok w
      | Panic \<Rightarrow> Panic
      | Ok (a, control, body) \<Rightarrow>
          (case request w a control body of (w', Panic) \<Rightarrow> Panic | (w', _) \<Rightarrow> Ok w'))"

section \<open>The topics of \<open>ddsbr\<close>\<close>

datatype Sample =
    ResponseSample u16 TransactionNum ControlFlags bytes
  | TriggerSample u16 int
  | CommandSample u16 ControlFlags bytes

record Topic =
  tp_subs :: "nat list"
  tp_chans :: "nat \<Rightarrow> Sample list"
  tp_closed :: "nat list"
  tp_next :: nat

definition newTopic :: Topic where
  "newTopic = \<lparr>tp_subs = [], tp_chans = (\<lambda>_. []), tp_closed = [], tp_next = 0\<rparr>"

definition Topic_Write :: "Sample \<Rightarrow> Topic \<Rightarrow> Topic" where
  "Topic_Write sample t = t\<lparr>tp_chans := (\<lambda>ch. if ch \<in> set (tp_subs t) then offer (tp_chans t ch) sample else tp_chans t ch)\<rparr>"

definition Topic_subscribe :: "Topic \<Rightarrow> Topic \<times> nat" where
  "Topic_subscribe t = (t\<lparr>tp_subs := tp_next t # tp_subs t, tp_chans := (tp_chans t)(tp_next t := []), tp_next := Suc (tp_next t)\<rparr>, tp_next t)"

text \<open>Closing a channel a second time panics.\<close>

definition Topic_unsubscribe :: "Topic \<Rightarrow> nat \<Rightarrow> Topic go" where
  "Topic_unsubscribe t ch =
     (if ch \<in> set (tp_closed t) then Panic
      else Ok (t\<lparr>tp_subs := filter (\<lambda>c. c \<noteq> ch) (tp_subs t), tp_closed := ch # tp_closed t\<rparr>))"

definition Domain_NewTopic :: "(string \<rightharpoonup> Topic) \<Rightarrow> string \<Rightarrow> (string \<rightharpoonup> Topic) \<times> Topic" where
  "Domain_NewTopic d name = (case d name of Some t \<Rightarrow> (d, t) | None \<Rightarrow> (d(name \<mapsto> newTopic), newTopic))"

text \<open>\<open>None\<close> is the error \<open>ErrTopicNotFound\<close>.\<close>

definition Domain_Lookup :: "(string \<rightharpoonup> Topic) \<Rightarrow> string \<Rightarrow> Topic option" where
  "Domain_Lookup d name = d name"

definition dds_PublishResponse :: "Message \<Rightarrow> Topic \<Rightarrow> Topic" where
  "dds_PublishResponse resp = Topic_Write (ResponseSample (ByteBusID resp) (TransactionNum resp) (Control resp) (Body resp))"

definition dds_PublishTrigger :: "u16 \<Rightarrow> int \<Rightarrow> Topic \<Rightarrow> Topic" where
  "dds_PublishTrigger source count = Topic_Write (TriggerSample source count)"

definition dds_forward :: "'w request \<Rightarrow> 'w \<Rightarrow> Sample \<Rightarrow> 'w go" where
  "dds_forward request w sample =
     (case sample of
        CommandSample a control body \<Rightarrow> (case request w a control body of (w', Panic) \<Rightarrow> Panic | (w', _) \<Rightarrow> Ok w')
      | _ \<Rightarrow> Ok w)"

section \<open>What a subscriber receives\<close>

text \<open>
  What both promise of a publication: it is offered to the channel of every subscriber once, and to no other. Then a
  channel keeps the first messages for which it has room, in order, and loses the later ones.
\<close>

locale fan_out =
  fixes valid :: "'s \<Rightarrow> bool" and live :: "'s \<Rightarrow> nat list" and queue :: "'s \<Rightarrow> nat \<Rightarrow> 'm list" and publish :: "'m \<Rightarrow> 's \<Rightarrow> 's"
  assumes publish_live: "valid s \<Longrightarrow> valid (publish m s) \<and> live (publish m s) = live s"
    and publish_queue: "valid s \<Longrightarrow> queue (publish m s) c = (if c \<in> set (live s) then offer (queue s c) m else queue s c)"
begin

lemma publish_all:
  assumes "valid s" "length (queue s c) \<le> 32"
  shows "valid (fold publish ms s) \<and> live (fold publish ms s) = live s \<and>
    queue (fold publish ms s) c = (if c \<in> set (live s) then take 32 (queue s c @ ms) else queue s c)"
  using assms
proof (induction ms arbitrary: s)
  case (Cons m ms)
  have "length (queue (publish m s) c) \<le> 32" using Cons.prems by (simp add: publish_queue offer_def)
  moreover have "take 32 (offer (queue s c) m @ ms) = take 32 (queue s c @ m # ms)"
    using Cons.prems(2) by (auto simp: offer_def take_Cons')
  ultimately show ?case using Cons.IH [of "publish m s"] Cons.prems(1) by (simp add: publish_live publish_queue)
qed simp

end

interpretation dds: fan_out "\<lambda>_. True" tp_subs tp_chans Topic_Write
  by unfold_locales (simp_all add: Topic_Write_def)

text \<open>The broker is valid when the slices of the topics lie in arrays of their own and name each subscription once.\<close>

definition live :: "string \<Rightarrow> Broker \<Rightarrow> nat list" where
  "live topic b = take (sl_len (br_subs b topic)) (arrays b (sl_arr (br_subs b topic)))"

definition broker_valid :: "Broker \<Rightarrow> bool" where
  "broker_valid b \<longleftrightarrow> 0 < nextArr b \<and> arrays b 0 = [] \<and>
     (\<forall>t. sl_len (br_subs b t) \<le> length (arrays b (sl_arr (br_subs b t))) \<and> sl_arr (br_subs b t) < nextArr b \<and> distinct (live t b)) \<and>
     (\<forall>t t'. t \<noteq> t' \<longrightarrow> sl_arr (br_subs b t) = sl_arr (br_subs b t') \<longrightarrow> sl_arr (br_subs b t) = 0)"

lemma position_Some: "position s xs = Some i \<Longrightarrow> i < length xs \<and> xs ! i = s \<and> remove1 s xs = take i xs @ drop (Suc i) xs"
  by (induction xs arbitrary: i) (auto split: if_splits)

lemma position_None: "position s xs = None \<longleftrightarrow> s \<notin> set xs"
  by (induction xs) auto

lemma take_set_next: "n < length xs \<Longrightarrow> take (Suc n) (xs[n := x]) = take n xs @ [x]"
  by (simp add: take_Suc_conv_app_nth)

lemma NewBroker_valid: "broker_valid NewBroker"
  by (simp add: broker_valid_def NewBroker_def live_def)

lemma subscribe_live:
  assumes "broker_valid b" "s \<notin> set (live topic b)"
  shows "broker_valid (Broker_subscribe grow b topic s) \<and>
    live t (Broker_subscribe grow b topic s) = (if t = topic then live topic b @ [s] else live t b)"
proof -
  let ?sl = "br_subs b topic" and ?xs = "arrays b (sl_arr (br_subs b topic))"
  have v: "0 < nextArr b" "arrays b 0 = []" "\<And>t. sl_len (br_subs b t) \<le> length (arrays b (sl_arr (br_subs b t)))"
    "\<And>t. sl_arr (br_subs b t) < nextArr b" "\<And>t. distinct (live t b)"
    "\<And>t t'. t \<noteq> t' \<Longrightarrow> sl_arr (br_subs b t) = sl_arr (br_subs b t') \<Longrightarrow> sl_arr (br_subs b t) = 0"
    using assms(1) unfolding broker_valid_def by blast+
  have zero: "sl_len (br_subs b t) = 0" if "sl_arr (br_subs b t) = 0" for t using v(2) v(3) [of t] that by simp
  have live: "live t (Broker_subscribe grow b topic s) = (if t = topic then live topic b @ [s] else live t b)" for t
  proof (cases "sl_len ?sl < length ?xs")
    case True
    have "sl_arr ?sl \<noteq> 0" by (rule notI) (use True v(2) in simp)
    then show ?thesis
      using True v(6) [of t topic] by (auto simp: Broker_subscribe_def live_def Let_def take_set_next)
  next
    case False
    then show ?thesis
      using v(3) [of t] v(4) [of t] v(3) [of topic] by (auto simp: Broker_subscribe_def live_def Let_def)
  qed
  have "distinct (live t (Broker_subscribe grow b topic s))" for t
    using live [of t] v(5) assms(2) by simp
  moreover have "sl_len (br_subs (Broker_subscribe grow b topic s) t) \<le> length (arrays (Broker_subscribe grow b topic s) (sl_arr (br_subs (Broker_subscribe grow b topic s) t)))"
    "sl_arr (br_subs (Broker_subscribe grow b topic s) t) < nextArr (Broker_subscribe grow b topic s)" for t
    using v(3) [of t] v(4) [of t] v(3) [of topic] v(4) [of topic] by (auto simp: Broker_subscribe_def Let_def)
  moreover have "0 < nextArr (Broker_subscribe grow b topic s)" "arrays (Broker_subscribe grow b topic s) 0 = []"
    using v(1,2) by (auto simp: Broker_subscribe_def Let_def)
  moreover have "sl_arr (br_subs (Broker_subscribe grow b topic s) t) = 0"
    if "t \<noteq> t'" "sl_arr (br_subs (Broker_subscribe grow b topic s) t) = sl_arr (br_subs (Broker_subscribe grow b topic s) t')" for t t'
    using that v(6) [of t t'] v(4) [of t] v(4) [of t'] by (auto simp: Broker_subscribe_def Let_def split: if_splits)
  ultimately show ?thesis using live [of t] unfolding broker_valid_def by blast
qed

lemma unsubscribe_live:
  assumes "broker_valid b"
  shows "broker_valid (Broker_unsubscribe b topic s) \<and>
    live t (Broker_unsubscribe b topic s) = (if t = topic then remove1 s (live topic b) else live t b)"
proof (cases "position s (live topic b)")
  case None
  then have "Broker_unsubscribe b topic s = b" by (simp add: Broker_unsubscribe_def live_def Let_def)
  then show ?thesis using assms None by (simp add: position_None remove1_idem)
next
  case (Some i)
  let ?b = "Broker_unsubscribe b topic s" and ?sl = "br_subs b topic" and ?xs = "arrays b (sl_arr (br_subs b topic))"
  have v: "0 < nextArr b" "arrays b 0 = []" "\<And>t. sl_len (br_subs b t) \<le> length (arrays b (sl_arr (br_subs b t)))"
    "\<And>t. sl_arr (br_subs b t) < nextArr b" "\<And>t. distinct (live t b)"
    "\<And>t t'. t \<noteq> t' \<Longrightarrow> sl_arr (br_subs b t) = sl_arr (br_subs b t') \<Longrightarrow> sl_arr (br_subs b t) = 0"
    using assms unfolding broker_valid_def by blast+
  have i: "i < sl_len ?sl" "remove1 s (live topic b) = take i ?xs @ drop (Suc i) (take (sl_len ?sl) ?xs)"
  proof -
    have "length (live topic b) = sl_len ?sl" using v(3) [of topic] by (simp add: live_def)
    then show "i < sl_len ?sl" using position_Some [OF Some] by simp
    then have "take i (live topic b) = take i ?xs" by (simp add: live_def min_absorb1)
    then show "remove1 s (live topic b) = take i ?xs @ drop (Suc i) (take (sl_len ?sl) ?xs)"
      using position_Some [OF Some] by (simp add: live_def)
  qed
  have "sl_arr ?sl \<noteq> 0" by (rule notI) (use i(1) v(2) v(3) [of topic] in simp)
  have b: "?b = b\<lparr>arrays := (arrays b)(sl_arr ?sl := remove1 s (live topic b) @ drop (sl_len ?sl - 1) ?xs),
      br_subs := (br_subs b)(topic := ?sl\<lparr>sl_len := sl_len ?sl - 1\<rparr>)\<rparr>"
    using Some i(2) by (simp add: Broker_unsubscribe_def live_def Let_def)
  have len: "length (remove1 s (live topic b)) = sl_len ?sl - 1"
    using i v(3) [of topic] by simp
  have other: "sl_arr (br_subs b t) \<noteq> sl_arr ?sl" if "t \<noteq> topic" for t
    using v(6) [OF that] \<open>sl_arr ?sl \<noteq> 0\<close> by auto
  have live: "live t ?b = (if t = topic then remove1 s (live topic b) else live t b)" for t
    using len other [of t] by (simp add: b live_def [of _ "b\<lparr>arrays := a, br_subs := c\<rparr>" for a c]) (simp add: live_def)
  have "distinct (live t ?b)" for t using live [of t] v(5) by simp
  moreover have "sl_len (br_subs ?b t) \<le> length (arrays ?b (sl_arr (br_subs ?b t)))" "sl_arr (br_subs ?b t) < nextArr ?b" for t
    using v(3) [of t] v(4) [of t] other [of t] len by (auto simp: b)
  moreover have "sl_arr (br_subs ?b t) = 0" if "t \<noteq> t'" "sl_arr (br_subs ?b t) = sl_arr (br_subs ?b t')" for t t'
    using that v(6) [of t t'] by (auto simp: b split: if_splits)
  moreover have "0 < nextArr ?b" "arrays ?b 0 = []" using v(1,2) \<open>sl_arr ?sl \<noteq> 0\<close> by (simp_all add: b)
  ultimately show ?thesis using live [of t] unfolding broker_valid_def by blast
qed

lemma publishStep_keeps [simp]:
  "arrays (publishStep sl msg i b) = arrays b" "br_subs (publishStep sl msg i b) = br_subs b" "nextArr (publishStep sl msg i b) = nextArr b"
  by (simp_all add: publishStep_def Let_def)

lemma publishSteps_keep:
  "arrays (fold (publishStep sl msg) is b) = arrays b \<and> br_subs (fold (publishStep sl msg) is b) = br_subs b \<and>
   nextArr (fold (publishStep sl msg) is b) = nextArr b"
  by (induction "is" arbitrary: b) simp_all

text \<open>The steps of a publication over some positions of an array offer the message to what is there, one after the other.\<close>

lemma publishSteps_chans:
  "chans (fold (publishStep sl msg) is b) =
     fold (\<lambda>s f. f(s := offer (f s) msg)) (map (\<lambda>i. arrays b (sl_arr sl) ! i) is) (chans b)"
  by (induction "is" arbitrary: b) (simp_all add: publishStep_def Let_def)

lemma offers_once:
  "distinct ss \<Longrightarrow> fold (\<lambda>s f. f(s := offer (f s) msg)) ss f c = (if c \<in> set ss then offer (f c) msg else f c)"
  by (induction ss arbitrary: f) auto

lemma publish_spec:
  assumes "broker_valid b"
  shows "arrays (Broker_publish topic msg b) = arrays b" "br_subs (Broker_publish topic msg b) = br_subs b"
    "broker_valid (Broker_publish topic msg b)" "live t (Broker_publish topic msg b) = live t b"
    "chans (Broker_publish topic msg b) c = (if c \<in> set (live topic b) then offer (chans b c) msg else chans b c)"
proof -
  show keep: "arrays (Broker_publish topic msg b) = arrays b" "br_subs (Broker_publish topic msg b) = br_subs b"
    by (simp_all add: Broker_publish_def Let_def publishSteps_keep)
  then show "broker_valid (Broker_publish topic msg b)" "live t (Broker_publish topic msg b) = live t b"
    using assms by (simp_all add: broker_valid_def live_def) (simp add: Broker_publish_def Let_def publishSteps_keep)
  have "sl_len (br_subs b topic) \<le> length (arrays b (sl_arr (br_subs b topic)))" "distinct (live topic b)"
    using assms by (auto simp: broker_valid_def)
  moreover from this have "map (\<lambda>i. arrays b (sl_arr (br_subs b topic)) ! i) [0..<sl_len (br_subs b topic)] = live topic b"
    by (simp add: live_def list_eq_iff_nth_eq)
  ultimately show "chans (Broker_publish topic msg b) c = (if c \<in> set (live topic b) then offer (chans b c) msg else chans b c)"
    by (simp add: Broker_publish_def Let_def publishSteps_chans offers_once)
qed

interpretation mqtt: fan_out broker_valid "live topic" chans "Broker_publish topic" for topic
  using publish_spec by unfold_locales blast+

text \<open>C28: the slices of the broker implement lists of subscribers. Whatever subscriptions came and went, on arrays shared and reused
  as the runtime likes, a topic has the subscribers in the order in which they came, without those who left; other
  topics are not touched. Of the messages published to a topic a subscriber's channel keeps those that fit after
  what it holds, the first ones in order, and no other channel receives any.\<close>

theorem broker_fans_out:
  assumes "broker_valid b" "s \<notin> set (live topic b)" "length (chans b c) \<le> 32"
  shows "broker_valid (Broker_subscribe grow b topic s) \<and>
    live t (Broker_subscribe grow b topic s) = (if t = topic then live topic b @ [s] else live t b) \<and>
    broker_valid (Broker_unsubscribe b topic x) \<and>
    live t (Broker_unsubscribe b topic x) = (if t = topic then remove1 x (live topic b) else live t b) \<and>
    chans (fold (Broker_publish topic) msgs b) c = (if c \<in> set (live topic b) then take 32 (chans b c @ msgs) else chans b c)"
  using subscribe_live [OF assms(1,2)] unsubscribe_live [OF assms(1)] mqtt.publish_all [OF assms(1,3)] by blast

definition threeSubscribers :: Broker where
  "threeSubscribers = foldl (\<lambda>b s. Broker_subscribe (\<lambda>n. 2 * n) b ''cmd'' s) NewBroker [10, 11, 12]"

lemma threeSubscribers_live: "broker_valid threeSubscribers" "live ''cmd'' threeSubscribers = [10, 11, 12]" "chans threeSubscribers c = []"
proof -
  have e: "live t NewBroker = []" for t by (simp add: live_def NewBroker_def)
  have "broker_valid threeSubscribers \<and> live ''cmd'' threeSubscribers = [10, 11, 12]"
    by (simp add: threeSubscribers_def subscribe_live NewBroker_valid e)
  then show "broker_valid threeSubscribers" "live ''cmd'' threeSubscribers = [10, 11, 12]" by blast+
  have "chans (Broker_subscribe g b t s) = chans b" for g b t s by (simp add: Broker_subscribe_def Let_def)
  then show "chans threeSubscribers c = []" by (simp add: threeSubscribers_def NewBroker_def)
qed

theorem broker_fans_out_witness:
  "live ''cmd'' (Broker_unsubscribe threeSubscribers ''cmd'' 10) = [11, 12] \<and>
   chans (fold (Broker_publish ''cmd'') [[1], [2]] threeSubscribers) 11 = [[1], [2]]"
  using broker_fans_out [OF threeSubscribers_live(1), of 9 "''cmd''" 11 "\<lambda>n. n" "''cmd''" 10 "[[1], [2]]"]
  by (simp add: threeSubscribers_live)

text \<open>What the rest of a walk reads after the first element was taken out of the array.\<close>

lemma shifted_walk:
  assumes xs: "take n xs = x # y # zs" and n: "n = length (x # y # zs)" and zs: "zs \<noteq> []"
  shows "map (\<lambda>i. ((y # zs) @ drop (n - 1) xs) ! i) [1..<n] = zs @ [last zs]"
proof -
  have "take n xs ! Suc (length zs) = xs ! Suc (length zs)" by (rule nth_take) (simp add: n)
  then have l: "xs ! Suc (length zs) = last zs" using zs unfolding xs by (simp add: last_conv_nth)
  have "length (take n xs) = Suc (Suc (length zs))" unfolding xs by simp
  then have "Suc (length zs) < length xs" by simp
  from Cons_nth_drop_Suc [OF this] l have a: "drop (n - 1) xs = last zs # drop n xs" by (simp add: n)
  have "map (\<lambda>i. ((y # zs) @ drop (n - 1) xs) ! i) [1..<n] = map (\<lambda>i. ((zs @ [last zs]) @ drop n xs) ! i) [0..<Suc (length zs)]"
    unfolding a by (simp add: n map_Suc_upt [symmetric] del: upt_Suc)
  also have "\<dots> = take (length (zs @ [last zs])) ((zs @ [last zs]) @ drop n xs)"
    by (rule nth_equalityI) (simp_all add: nth_append del: upt_Suc)
  finally show ?thesis by simp
qed

text \<open>C29: an unsubscription during a publication loses a message. When the first of at least three subscribers leaves after the
  message was offered to it, the array is changed under the walk: the second subscriber, which stays subscribed, is not
  offered the message, and the last one is offered it twice.\<close>

theorem unsubscribe_races_publish:
  assumes "broker_valid b" "live topic b = x # y # zs" "zs \<noteq> []" "sl = br_subs b topic"
    and "b1 = Broker_unsubscribe (publishStep sl msg 0 b) topic x" "b2 = fold (publishStep sl msg) [1..<sl_len sl] b1"
  shows "y \<in> set (live topic b2) \<and> chans b2 y = chans b y \<and> chans b2 (last zs) = offer (offer (chans b (last zs)) msg) msg"
proof -
  let ?xs = "arrays b (sl_arr sl)" and ?p = "publishStep sl msg 0 b"
  have p: "broker_valid ?p" "live topic ?p = x # y # zs" "br_subs ?p = br_subs b" "arrays ?p = arrays b"
    using assms(1,2) by (simp_all add: broker_valid_def live_def)
  have len: "sl_len sl = length (x # y # zs)" and d: "distinct (x # y # zs)" and xs: "take (sl_len sl) ?xs = x # y # zs"
  proof -
    show "take (sl_len sl) ?xs = x # y # zs" using assms(2,4) by (simp add: live_def)
    moreover have "sl_len sl \<le> length ?xs" "distinct (live topic b)" using assms(1,4) by (auto simp: broker_valid_def)
    ultimately show "sl_len sl = length (x # y # zs)" "distinct (x # y # zs)" using assms(2) by (metis length_take min.absorb2, simp)
  qed
  have b1: "arrays b1 (sl_arr sl) = (y # zs) @ drop (sl_len sl - 1) ?xs" "chans b1 = chans ?p" "live topic b1 = y # zs"
    using xs assms(4) unsubscribe_live [OF p(1), of topic x topic] p by (simp_all add: assms(5) Broker_unsubscribe_def Let_def)
  have nth: "map (\<lambda>i. arrays b1 (sl_arr sl) ! i) [1..<sl_len sl] = zs @ [last zs]"
    unfolding b1(1) by (rule shifted_walk [OF xs len assms(3)])
  have first: "chans ?p = (chans b)(x := offer (chans b x) msg)"
  proof -
    have "take (sl_len sl) ?xs ! 0 = ?xs ! 0" by (rule nth_take) (simp add: len)
    then have "?xs ! 0 = x" unfolding xs by simp
    then show ?thesis by (simp add: publishStep_def Let_def)
  qed
  have "chans b2 = fold (\<lambda>s f. f(s := offer (f s) msg)) (zs @ [last zs]) (chans ?p)"
    unfolding assms(6) publishSteps_chans nth b1(2) ..
  then have c: "chans b2 = (fold (\<lambda>s f. f(s := offer (f s) msg)) zs (chans ?p))
      (last zs := offer (fold (\<lambda>s f. f(s := offer (f s) msg)) zs (chans ?p) (last zs)) msg)" by simp
  have "last zs \<in> set zs" using assms(3) by simp
  then have "chans b2 y = chans b y" "chans b2 (last zs) = offer (offer (chans b (last zs)) msg) msg"
    using d unfolding c by (auto simp: offers_once first)
  moreover have "live topic b2 = y # zs" using b1(3) by (simp add: assms(6) live_def publishSteps_keep)
  ultimately show ?thesis by simp
qed

theorem unsubscribe_races_publish_witness:
  "chans (fold (publishStep (br_subs threeSubscribers ''cmd'') [1]) [1..<sl_len (br_subs threeSubscribers ''cmd'')]
     (Broker_unsubscribe (publishStep (br_subs threeSubscribers ''cmd'') [1] 0 threeSubscribers) ''cmd'' 10)) 11 = []"
  using unsubscribe_races_publish [OF threeSubscribers_live(1,2) _ refl refl refl, of "[1]"] by (simp add: threeSubscribers_live)

section \<open>The messages of the bridges\<close>

text \<open>The upper octet of an address above 255 is lost on the way, so that the command goes to another endpoint.\<close>

lemma low_octet: "(ucast (ucast a :: u8) :: u16) = a AND 0xFF"
proof -
  have "(0xFF :: u16) = mask 8" by (simp add: mask_eq_exp_minus_1)
  then show ?thesis by (simp only: flip: take_bit_eq_mask) (rule bit_word_eqI, auto simp: bit_simps)
qed

lemma command_roundtrip: "decodeCommand (mqttbr_EncodeCommand a control body) = Ok (a AND 0xFF, control, body)"
  by (simp add: decodeCommand_def mqttbr_EncodeCommand_def commandHeaderLen_def slice_def idx_def low_octet)

lemma status_roundtrip:
  "DecodeStatus (encodeResponseStatus resp) =
     Ok \<lparr>IsTrigger = False, st_ByteBusID = ByteBusID resp AND 0xFF, st_TransactionNum = TransactionNum resp, st_Control = Control resp,
         st_Body = Body resp, st_Count = 0\<rparr>"
  "DecodeStatus (encodeTriggerStatus source count) =
     Ok \<lparr>IsTrigger = True, st_ByteBusID = source AND 0xFF, st_TransactionNum = 0, st_Control = 0, st_Body = [],
         st_Count = max 0 (min 0xFFFF count)\<rparr>"
  using get16_append [of "[statusTagResponse, ucast (ByteBusID resp)]" "TransactionNum resp" "Control resp # Body resp"]
    get16_append [of "[statusTagTrigger, ucast source]" "word_of_int (max 0 (min 0xFFFF count))" "[]"]
  by (auto simp: DecodeStatus_def encodeResponseStatus_def encodeTriggerStatus_def responseHeaderLen_def triggerMsgLen_def
      statusTagResponse_def statusTagTrigger_def slice_def idx_def low_octet put16_def Let_def max_def min_def unsigned_of_int take_bit_int_eq_self)

text \<open>A reader that is closed twice brings the program down.\<close>

lemma reader_closed_twice:
  "Topic_unsubscribe t ch = Ok t' \<Longrightarrow> Topic_unsubscribe t' ch = Panic"
  by (auto simp: Topic_unsubscribe_def split: if_splits)

end
