(* ===== verification/Throttling.thy ===== *)
theory Throttling
  imports Complex_Main Upstream Request_Kind
begin

text \<open>
  The packages that ration, lend and disturb: \<open>ratelimit\<close> (token buckets in front of a controller), \<open>loan\<close> (request bodies in
  recycled buffers), \<open>faultinject\<close> (injected faults in front of a handler) and the pacer of \<open>sim\<close>. A \<open>float64\<close> is a rational
  number, each operation of it the exact result followed by a rounding that is a parameter; infinities, NaN and the fused operations
  that the language permits are left out. The buffers
  of \<open>loan\<close> are arrays in a store, so that sharing shows.
\<close>

section \<open>Token buckets\<close>

type_synonym rounding = "rat \<Rightarrow> rat"

record RateConfig =
  Rate :: rat
  Burst :: int
  ExemptCancellation :: bool

definition ratelimit_DefaultConfig :: RateConfig where
  "ratelimit_DefaultConfig = \<lparr>Rate = 100, Burst = 20, ExemptCancellation = True\<rparr>"

record bucket =
  tokens :: rat
  b_last :: int

record RateController =
  rl_cfg :: RateConfig
  buckets :: "u16 \<rightharpoonup> bucket"
  rl_closed :: bool

definition ratelimit_NewController :: "RateConfig \<Rightarrow> RateController" where
  "ratelimit_NewController cfg = \<lparr>rl_cfg = cfg, buckets = Map.empty, rl_closed = False\<rparr>"

text \<open>\<open>Duration.Seconds\<close>: whole seconds and the rest of the nanoseconds, both truncated towards zero.\<close>

definition Seconds :: "rounding \<Rightarrow> int \<Rightarrow> rat" where
  "Seconds rnd d =
     (let sec = sgn d * (\<bar>d\<bar> div 10 ^ 9); nsec = sgn d * (\<bar>d\<bar> mod 10 ^ 9)
      in rnd (rnd (of_int sec) + rnd (rnd (of_int nsec) / 10 ^ 9)))"

text \<open>The clock is read once for a new bucket and once for the refill: \<open>t0\<close> and \<open>now\<close>.\<close>

definition rl_take :: "rounding \<Rightarrow> int \<Rightarrow> int \<Rightarrow> RateController \<Rightarrow> u16 \<Rightarrow> RateController \<times> bool" where
  "rl_take rnd t0 now c a =
     (let b = (case buckets c a of Some b \<Rightarrow> b | None \<Rightarrow> \<lparr>tokens = rnd (of_int (Burst (rl_cfg c))), b_last = t0\<rparr>);
          elapsed = Seconds rnd (now - b_last b);
          t = rnd (tokens b + rnd (elapsed * Rate (rl_cfg c)));
          t = (if t > rnd (of_int (Burst (rl_cfg c))) then rnd (of_int (Burst (rl_cfg c))) else t)
      in if t < 1 then (c\<lparr>buckets := (buckets c)(a \<mapsto> \<lparr>tokens = t, b_last = now\<rparr>)\<rparr>, False)
         else (c\<lparr>buckets := (buckets c)(a \<mapsto> \<lparr>tokens = rnd (t - 1), b_last = now\<rparr>)\<rparr>, True))"

text \<open>\<open>Inl ()\<close> is the error \<open>ErrBusy\<close>.\<close>

definition ratelimit_Request ::
  "rounding \<Rightarrow> int \<Rightarrow> int \<Rightarrow> 'w request \<Rightarrow> RateController \<times> 'w \<Rightarrow> u16 \<Rightarrow> ControlFlags \<Rightarrow> bytes \<Rightarrow> RKind
    \<Rightarrow> (RateController \<times> 'w) \<times> (unit + Message go)" where
  "ratelimit_Request rnd t0 now request s a control body kind =
     (let (c, w) = s in
      if rl_closed c then (s, Inr (Err (EUdp ErrClosed)))
      else
        (let (c1, allowed) = (if ExemptCancellation (rl_cfg c) \<and> IsCancellation kind then (c, True) else rl_take rnd t0 now c a) in
         if \<not> allowed then ((c1, w), Inl ())
         else case request w a control body of (w', res) \<Rightarrow> ((c1, w'), Inr res)))"

definition ratelimit_Close :: "RateController \<Rightarrow> RateController" where "ratelimit_Close c = c\<lparr>rl_closed := True\<rparr>"

section \<open>Injected faults\<close>

datatype FaultType = FaultDrop | FaultSlow | FaultCRCFailure | FaultSafeStateEntry | FaultDiscoveryClaimTimeout | FaultCancellation | OtherFault u8

record Rule =
  fr_Type :: FaultType
  fr_Latency :: int
  fr_Count :: int
  fr_fired :: int

definition AddRule :: "Rule list \<Rightarrow> Rule \<Rightarrow> Rule list" where "AddRule rules r = rules @ [r]"
definition ClearRules :: "Rule list \<Rightarrow> Rule list" where "ClearRules rules = []"

fun pickRule :: "Rule list \<Rightarrow> Rule list \<times> Rule option" where
  "pickRule [] = ([], None)"
| "pickRule (r # rules) =
     (if fr_Count r > 0 \<and> fr_fired r \<ge> fr_Count r then (case pickRule rules of (rules', p) \<Rightarrow> (r # rules', p))
      else
        (let r' = r\<lparr>fr_fired := fr_fired r + 1\<rparr> in
         if fr_Count r' > 0 \<and> fr_fired r' \<ge> fr_Count r' then (rules, Some r') else (r' # rules, Some r')))"

text \<open>The error texts around the sentinels are left out; a delay has no effect on the result.\<close>

definition faultinject_HandleRequest :: "'w rhandler \<Rightarrow> (Rule list \<times> 'w) rhandler" where
  "faultinject_HandleRequest inner s sid req =
     (let (rules, w) = s; (rules', rule) = pickRule rules; forward = (case inner w sid req of (w', out) \<Rightarrow> ((rules', w'), out)) in
      case rule of
        None \<Rightarrow> forward
      | Some r \<Rightarrow>
          (case fr_Type r of
             FaultDrop \<Rightarrow> ((rules', w), Err (EBridge (BFault ErrInjectedDrop)))
           | FaultSlow \<Rightarrow> forward
           | FaultCRCFailure \<Rightarrow> ((rules', w), Err (EE2e ErrCRCMismatch))
           | FaultSafeStateEntry \<Rightarrow> ((rules', w), Err (ERequest ErrPurgedByWatchdog))
           | FaultDiscoveryClaimTimeout \<Rightarrow> ((rules', w), Err (EDiscovery ErrNotConfigurationClaimant))
           | FaultCancellation \<Rightarrow> ((rules', w), Err (ERequest ErrTicketCancelled))
           | OtherFault _ \<Rightarrow> forward))"

section \<open>The pacer\<close>

record Pacer =
  pc_interval :: int
  pc_last :: int
  pc_armed :: bool

definition NewPacer :: "int \<Rightarrow> Pacer" where "NewPacer interval = \<lparr>pc_interval = interval, pc_last = 0, pc_armed = False\<rparr>"

definition Pacer_Pump :: "('w \<Rightarrow> StreamID \<Rightarrow> 'w \<times> unit go) \<Rightarrow> int \<Rightarrow> StreamID \<Rightarrow> Pacer \<times> 'w \<Rightarrow> (Pacer \<times> 'w) \<times> bool \<times> unit go" where
  "Pacer_Pump fire now sid s =
     (let (p, w) = s in
      if pc_armed p \<and> now - pc_last p < pc_interval p then (s, False, Ok ())
      else case fire w sid of (w', out) \<Rightarrow> ((p\<lparr>pc_armed := True, pc_last := now\<rparr>, w'), True, out))"

definition Pacer_Reset :: "Pacer \<Rightarrow> Pacer" where "Pacer_Reset p = p\<lparr>pc_armed := False\<rparr>"

section \<open>Buffers on loan\<close>

text \<open>
  The pool holds references (\<open>*[]byte\<close>) to slices; a slice starts at the beginning of its array, so that the array is also the
  address of its first octet. The length of an array is the capacity. \<open>pick\<close> says which of the references in the pool
  \<open>sync.Pool\<close> returns, or that it makes a new one.
\<close>

record LoanController =
  ln_closed :: bool
  pool :: "nat list"
  slots :: "nat \<Rightarrow> nat \<times> nat"
  mem :: "nat \<Rightarrow> bytes"
  loaned :: "nat \<rightharpoonup> nat"
  fresh :: nat

record Loan =
  lo_buf :: nat
  lo_len :: nat
  lo_bp :: nat

definition loan_New :: LoanController where
  "loan_New = \<lparr>ln_closed = False, pool = [], slots = (\<lambda>_. (0, 0)), mem = (\<lambda>_. []), loaned = Map.empty, fresh = 0\<rparr>"

definition pool_Get :: "nat option \<Rightarrow> LoanController \<Rightarrow> LoanController \<times> nat" where
  "pool_Get pick c =
     (case pick of
        Some i \<Rightarrow> if i < length (pool c) then (c\<lparr>pool := take i (pool c) @ drop (Suc i) (pool c)\<rparr>, pool c ! i)
          else (c\<lparr>slots := (slots c)(fresh c := (fresh c, 0)), mem := (mem c)(fresh c := replicate 256 0), fresh := Suc (fresh c)\<rparr>, fresh c)
      | None \<Rightarrow> (c\<lparr>slots := (slots c)(fresh c := (fresh c, 0)), mem := (mem c)(fresh c := replicate 256 0), fresh := Suc (fresh c)\<rparr>, fresh c))"

definition loan_Loan :: "nat option \<Rightarrow> LoanController \<Rightarrow> int \<Rightarrow> LoanController \<times> Loan go" where
  "loan_Loan pick c sz =
     (if ln_closed c then (c, Err (EUdp ErrClosed))
      else if sz < 0 then (c, Err (EBridge (BLoan ErrNegativeSize_loan)))
      else
        (let (c1, bp) = pool_Get pick c; arr = fst (slots c1 bp); n = nat sz;
             (c2, buf) = (if length (mem c1 arr) \<ge> n then (c1\<lparr>slots := (slots c1)(bp := (arr, n))\<rparr>, arr)
               else (c1\<lparr>mem := (mem c1)(fresh c1 := replicate n 0), fresh := Suc (fresh c1)\<rparr>, fresh c1));
             c3 = c2\<lparr>mem := (mem c2)(buf := replicate n 0 @ drop n (mem c2 buf))\<rparr>;
             c4 = (if n > 0 then c3\<lparr>loaned := (loaned c3)(buf \<mapsto> bp)\<rparr> else c3)
         in (c4, Ok \<lparr>lo_buf = buf, lo_len = n, lo_bp = bp\<rparr>)))"

definition untrack :: "nat option \<Rightarrow> LoanController \<Rightarrow> LoanController" where
  "untrack k c = (case k of None \<Rightarrow> c | Some arr \<Rightarrow> c\<lparr>loaned := (loaned c)(arr := None)\<rparr>)"

definition Loan_Return :: "LoanController \<Rightarrow> Loan \<Rightarrow> LoanController" where
  "Loan_Return c l =
     (let c1 = untrack (if lo_len l > 0 then Some (lo_buf l) else None) c
      in c1\<lparr>slots := (slots c1)(lo_bp l := (lo_buf l, 0)), pool := lo_bp l # pool c1\<rparr>)"

text \<open>What \<open>RequestLoaned\<close> does with the buffer when the request is over.\<close>

definition recycle :: "LoanController \<Rightarrow> nat \<Rightarrow> nat \<Rightarrow> LoanController" where
  "recycle c arr len =
     (if len > 0 then
        (case loaned c arr of
           None \<Rightarrow> c
         | Some bp \<Rightarrow> c\<lparr>loaned := (loaned c)(arr := None), slots := (slots c)(bp := (fst (slots c bp), 0)), pool := bp # pool c\<rparr>)
      else c)"

definition RequestLoaned :: "'w request \<Rightarrow> LoanController \<times> 'w \<Rightarrow> u16 \<Rightarrow> ControlFlags \<Rightarrow> nat \<times> nat \<Rightarrow> (LoanController \<times> 'w) \<times> Message go" where
  "RequestLoaned request s a control body =
     (let (c, w) = s in
      if ln_closed c then (s, Err (EUdp ErrClosed))
      else case request w a control (take (snd body) (mem c (fst body))) of
        (w', res) \<Rightarrow> ((recycle c (fst body) (snd body), w'), res))"

definition loan_Close :: "LoanController \<Rightarrow> LoanController" where "loan_Close c = c\<lparr>ln_closed := True\<rparr>"

section \<open>A burst\<close>

fun rl_takes :: "rounding \<Rightarrow> int \<Rightarrow> u16 \<Rightarrow> nat \<Rightarrow> RateController \<Rightarrow> RateController \<times> bool list" where
  "rl_takes rnd now a 0 c = (c, [])"
| "rl_takes rnd now a (Suc k) c =
     (case rl_take rnd now now c a of (c1, ok) \<Rightarrow> (case rl_takes rnd now a k c1 of (c2, oks) \<Rightarrow> (c2, ok # oks)))"

lemma snd_rl_takes: "snd (rl_takes rnd now a (Suc k) c) = snd (rl_take rnd now now c a) # snd (rl_takes rnd now a k (fst (rl_take rnd now now c a)))"
  by (simp split: prod.split)

definition exactUpTo :: "int \<Rightarrow> rounding \<Rightarrow> bool" where
  "exactUpTo m rnd \<longleftrightarrow> (\<forall>n. 0 \<le> n \<and> n \<le> m \<longrightarrow> rnd (of_int n) = of_int n)"

lemma rl_take_instant:
  assumes "exactUpTo m rnd" "Burst (rl_cfg c) \<le> m" "0 \<le> n" "n \<le> Burst (rl_cfg c)"
    and "buckets c a = Some \<lparr>tokens = of_int n, b_last = now\<rparr>"
  shows "rl_take rnd t0 now c a =
    (c\<lparr>buckets := (buckets c)(a \<mapsto> \<lparr>tokens = of_int (if n = 0 then 0 else n - 1), b_last = now\<rparr>)\<rparr>, n \<noteq> 0)"
proof -
  have i: "rnd (of_int k) = of_int k" if "0 \<le> k" "k \<le> m" for k using assms(1) that by (simp add: exactUpTo_def)
  have z: "rnd 0 = 0" using i [of 0] assms(2-4) by simp
  have b: "rnd (of_int (Burst (rl_cfg c))) = of_int (Burst (rl_cfg c))" "rnd (of_int n) = of_int n" using i assms(2-4) by simp_all
  have p: "rnd (of_int n - 1) = of_int (n - 1)" if "n \<noteq> 0" using i [of "n - 1"] assms(2-4) that by simp
  have l: "(of_int n :: rat) < 1 \<longleftrightarrow> n = 0" using assms(3) by auto
  show ?thesis
    using assms(3-5) p by (cases "n = 0") (simp_all add: rl_take_def Seconds_def z b l Let_def)
qed

lemma rl_takes_instant:
  assumes "exactUpTo m rnd" "Burst (rl_cfg c) \<le> m" "0 \<le> n" "n \<le> Burst (rl_cfg c)"
    and "buckets c a = Some \<lparr>tokens = of_int n, b_last = now\<rparr>"
  shows "snd (rl_takes rnd now a k c) = replicate (min k (nat n)) True @ replicate (k - nat n) False"
  using assms(2-)
proof (induction k arbitrary: c n)
  case (Suc k)
  let ?c = "c\<lparr>buckets := (buckets c)(a \<mapsto> \<lparr>tokens = of_int (if n = 0 then 0 else n - 1), b_last = now\<rparr>)\<rparr>"
  have t: "rl_take rnd now now c a = (?c, n \<noteq> 0)" by (rule rl_take_instant [OF assms(1) Suc.prems])
  have "snd (rl_takes rnd now a k ?c) = replicate (min k (nat (if n = 0 then 0 else n - 1))) True @ replicate (k - nat (if n = 0 then 0 else n - 1)) False"
    by (rule Suc.IH) (use Suc.prems in auto)
  moreover have "nat n = Suc (nat (n - 1))" if "n \<noteq> 0" using that Suc.prems(2) by simp
  ultimately show ?case using Suc.prems(2) unfolding snd_rl_takes t by (cases "n = 0") simp_all
qed simp

text \<open>A burst is what the configuration says. At one reading of the clock, of the requests to an endpoint without a bucket exactly the
  first \<open>Burst\<close> get a token and the others are refused, whatever the rate and the way the machine rounds, if it is exact
  on the integers up to the size of the bucket.\<close>

theorem ratelimit_burst:
  assumes "exactUpTo m rnd" "0 \<le> Burst (rl_cfg c)" "Burst (rl_cfg c) \<le> m" "buckets c a = None"
  shows "snd (rl_takes rnd now a k c) = replicate (min k (nat (Burst (rl_cfg c)))) True @ replicate (k - nat (Burst (rl_cfg c))) False"
proof -
  let ?c = "c\<lparr>buckets := (buckets c)(a \<mapsto> \<lparr>tokens = of_int (Burst (rl_cfg c)), b_last = now\<rparr>)\<rparr>"
  have "rnd (of_int (Burst (rl_cfg c))) = of_int (Burst (rl_cfg c))" using assms by (simp add: exactUpTo_def)
  then have "rl_take rnd now now c a = rl_take rnd now now ?c a" using assms(4) by (simp add: rl_take_def Let_def)
  then have "snd (rl_takes rnd now a k c) = snd (rl_takes rnd now a k ?c)"
    by (cases k) (simp_all split: prod.split)
  then show ?thesis using rl_takes_instant [OF assms(1), of ?c "Burst (rl_cfg c)" a now k] assms by simp
qed

theorem ratelimit_burst_witness:
  "snd (rl_takes (\<lambda>x. of_int \<lfloor>x * 2 ^ 32\<rfloor> / 2 ^ 32) 1000 7 22 (ratelimit_NewController ratelimit_DefaultConfig)) =
     replicate 20 True @ replicate 2 False"
proof -
  have "exactUpTo 20 (\<lambda>x. of_int \<lfloor>x * 2 ^ 32\<rfloor> / 2 ^ 32)"
  proof -
    have "\<lfloor>(of_int n :: rat) * 2 ^ 32\<rfloor> = n * 2 ^ 32" for n by (metis floor_of_int of_int_mult of_int_numeral of_int_power)
    then show ?thesis by (simp add: exactUpTo_def)
  qed
  from ratelimit_burst [OF this, of "ratelimit_NewController ratelimit_DefaultConfig" 7 1000 22] show ?thesis
    by (simp add: ratelimit_NewController_def ratelimit_DefaultConfig_def)
qed

section \<open>The schedule of faults\<close>

fun picks :: "nat \<Rightarrow> Rule list \<Rightarrow> Rule list \<times> FaultType option list" where
  "picks 0 rules = (rules, [])"
| "picks (Suc k) rules =
     (case pickRule rules of (rules1, p) \<Rightarrow> (case picks k rules1 of (rules2, ps) \<Rightarrow> (rules2, map_option fr_Type p # ps)))"

lemma snd_picks: "snd (picks (Suc k) rules) = map_option fr_Type (snd (pickRule rules)) # snd (picks k (fst (pickRule rules)))"
  by (simp split: prod.split)

definition remaining :: "Rule \<Rightarrow> FaultType list" where
  "remaining r = replicate (nat (fr_Count r - fr_fired r)) (fr_Type r)"

definition pending_rule :: "Rule \<Rightarrow> bool" where
  "pending_rule r \<longleftrightarrow> 0 < fr_Count r \<and> fr_fired r < fr_Count r"

lemma pickRule_pending:
  assumes "\<forall>r \<in> set rules. pending_rule r"
  shows "case pickRule rules of (rules', p) \<Rightarrow> (\<forall>r \<in> set rules'. pending_rule r) \<and>
    concat (map remaining rules) = (case p of None \<Rightarrow> [] | Some r \<Rightarrow> [fr_Type r]) @ concat (map remaining rules') \<and>
    (p = None \<longrightarrow> rules = [])"
proof (cases rules)
  case (Cons r rs)
  then have r: "0 < fr_Count r" "fr_fired r < fr_Count r" and rs: "\<forall>r \<in> set rs. pending_rule r"
    using assms by (auto simp: pending_rule_def)
  have "nat (fr_Count r - fr_fired r) = Suc (nat (fr_Count r - (fr_fired r + 1)))" using r by simp
  then have "remaining r = fr_Type r # replicate (nat (fr_Count r - (fr_fired r + 1))) (fr_Type r)" by (simp add: remaining_def)
  then show ?thesis using Cons r rs by (auto simp: pending_rule_def remaining_def Let_def)
qed simp

text \<open>Faults are injected as often as the rules say. With rules that have each something left of a positive count, the requests
  meet the faults of the first rule for what is left of its count, then those of the second, and so on; when all
  are used up the requests go through.\<close>

theorem faults_follow_the_schedule:
  assumes "\<forall>r \<in> set rules. pending_rule r"
  shows "snd (picks k rules) = map Some (take k (concat (map remaining rules))) @ replicate (k - length (concat (map remaining rules))) None"
  using assms
proof (induction k arbitrary: rules)
  case (Suc k)
  obtain rules' p where p: "pickRule rules = (rules', p)" by fastforce
  with pickRule_pending [OF Suc.prems] have r: "\<forall>r \<in> set rules'. pending_rule r"
    "concat (map remaining rules) = (case p of None \<Rightarrow> [] | Some r \<Rightarrow> [fr_Type r]) @ concat (map remaining rules')" "p = None \<longrightarrow> rules = []"
    by auto
  show ?case
  proof (cases p)
    case None
    then have "rules = []" "rules' = []" using r(3) p by auto
    then show ?thesis using Suc.IH [of "[]"] unfolding snd_picks by simp
  next
    case (Some q)
    then show ?thesis using Suc.IH [OF r(1)] r(2) unfolding snd_picks p by simp
  qed
qed simp

theorem faults_follow_the_schedule_witness:
  "snd (picks 4 [\<lparr>fr_Type = FaultDrop, fr_Latency = 0, fr_Count = 2, fr_fired = 0\<rparr>,
     \<lparr>fr_Type = FaultCRCFailure, fr_Latency = 0, fr_Count = 1, fr_fired = 0\<rparr>]) = [Some FaultDrop, Some FaultDrop, Some FaultCRCFailure, None]"
  using faults_follow_the_schedule [of "[\<lparr>fr_Type = FaultDrop, fr_Latency = 0, fr_Count = 2, fr_fired = 0\<rparr>,
     \<lparr>fr_Type = FaultCRCFailure, fr_Latency = 0, fr_Count = 1, fr_fired = 0\<rparr>]" 4]
  by (simp add: pending_rule_def remaining_def eval_nat_numeral)

text \<open>A rule with another count than a positive one is never used up and hides all rules behind it.\<close>

lemma endless_rule: "fr_Count r \<le> 0 \<Longrightarrow> pickRule (r # rules) = (r\<lparr>fr_fired := fr_fired r + 1\<rparr> # rules, Some (r\<lparr>fr_fired := fr_fired r + 1\<rparr>))"
  by (simp add: Let_def)

section \<open>Loans do not share buffers\<close>

text \<open>
  The steps of a controller and its clients: a loan, a write to a buffer by its borrower, the two ways to give it back, each once,
  and the collector, which may take references out of the pool. The second component is what is on loan.
\<close>

inductive loan_step :: "LoanController \<times> Loan list \<Rightarrow> LoanController \<times> Loan list \<Rightarrow> bool" where
  lend: "loan_Loan pick c sz = (c', Ok l) \<Longrightarrow> loan_step (c, out) (c', l # out)"
| fill: "l \<in> set out \<Longrightarrow> length bs = length (mem c (lo_buf l)) \<Longrightarrow> loan_step (c, out) (c\<lparr>mem := (mem c)(lo_buf l := bs)\<rparr>, out)"
| give_back: "loan_step (c, xs @ l # ys) (Loan_Return c l, xs @ ys)"
| send: "loan_step (c, xs @ l # ys) (recycle c (lo_buf l) (lo_len l), xs @ ys)"
| collect: "loan_step (c, out) (c\<lparr>pool := take i (pool c) @ drop (Suc i) (pool c)\<rparr>, out)"
| shut: "loan_step (c, out) (loan_Close c, out)"

text \<open>A reference on loan may still hold its old array while the borrower has a larger one.\<close>

definition own :: "LoanController \<Rightarrow> Loan \<Rightarrow> nat list" where
  "own c l = (if fst (slots c (lo_bp l)) = lo_buf l then [lo_buf l] else [lo_buf l, fst (slots c (lo_bp l))])"

definition arrs :: "LoanController \<Rightarrow> Loan list \<Rightarrow> nat list" where
  "arrs c out = map (\<lambda>p. fst (slots c p)) (pool c) @ concat (map (own c) out)"

definition loan_inv :: "LoanController \<times> Loan list \<Rightarrow> bool" where
  "loan_inv s \<longleftrightarrow> (case s of (c, out) \<Rightarrow>
     distinct (pool c @ map lo_bp out) \<and> distinct (arrs c out) \<and>
     (\<forall>p \<in> set (pool c @ map lo_bp out). p < fresh c) \<and> (\<forall>a \<in> set (arrs c out). a < fresh c) \<and>
     (\<forall>l \<in> set out. 0 < lo_len l \<longrightarrow> loaned c (lo_buf l) = Some (lo_bp l)))"

lemma own_cong: "slots c' (lo_bp l) = slots c (lo_bp l) \<Longrightarrow> own c' l = own c l"
  by (simp add: own_def)

lemma own_update [simp]:
  "own (c\<lparr>pool := a\<rparr>) = own c" "own (c\<lparr>mem := b\<rparr>) = own c" "own (c\<lparr>loaned := d\<rparr>) = own c" "own (c\<lparr>fresh := e\<rparr>) = own c"
  "own (c\<lparr>ln_closed := f\<rparr>) = own c"
  by (simp_all add: own_def fun_eq_iff)

lemma own_buf: "lo_buf l \<in> set (own c l)"
  by (simp add: own_def)

lemma take_out: "i < length xs \<Longrightarrow> \<exists>as bs. xs = as @ xs ! i # bs \<and> take i xs @ drop (Suc i) xs = as @ bs"
  by (metis id_take_nth_drop)

text \<open>A reference from the pool: one of those in it, or a new one with a new array.\<close>

lemma pool_Get_cases:
  obtains (old) as bp bs where "pool c = as @ bp # bs" "pool_Get pick c = (c\<lparr>pool := as @ bs\<rparr>, bp)"
  | (new) "pool_Get pick c =
      (c\<lparr>slots := (slots c)(fresh c := (fresh c, 0)), mem := (mem c)(fresh c := replicate 256 0), fresh := Suc (fresh c)\<rparr>, fresh c)"
proof (cases pick)
  case (Some i)
  show thesis
  proof (cases "i < length (pool c)")
    case True
    from take_out [OF this] obtain as bs where "pool c = as @ pool c ! i # bs" "take i (pool c) @ drop (Suc i) (pool c) = as @ bs" by blast
    with True Some show thesis by (intro old [of as "pool c ! i" bs]) (simp_all add: pool_Get_def)
  qed (use Some new in \<open>simp add: pool_Get_def\<close>)
qed (use new in \<open>simp add: pool_Get_def\<close>)

text \<open>Taking a reference keeps the invariant if the reference counts as a loan without an array of its own.\<close>

lemma loan_inv_Get:
  assumes "loan_inv (c, out)" "pool_Get pick c = (c1, bp)"
  shows "loan_inv (c1, out) \<and> bp \<notin> set (pool c1 @ map lo_bp out) \<and> bp < fresh c1 \<and>
    fst (slots c1 bp) \<notin> set (arrs c1 out) \<and> fst (slots c1 bp) < fresh c1 \<and> loaned c1 = loaned c \<and>
    (\<forall>l \<in> set out. mem c1 (lo_buf l) = mem c (lo_buf l))"
proof (cases rule: pool_Get_cases [of c pick])
  case (old as bp' bs)
  then show ?thesis using assms by (auto simp: loan_inv_def arrs_def)
next
  case new
  have f: "p \<noteq> fresh c" if "p \<in> set (pool c @ map lo_bp out)" for p using assms(1) that by (auto simp: loan_inv_def)
  have c1: "c1 = c\<lparr>slots := (slots c)(fresh c := (fresh c, 0)), mem := (mem c)(fresh c := replicate 256 0), fresh := Suc (fresh c)\<rparr>" "bp = fresh c"
    using assms(2) new by auto
  have "map (own c1) out = map (own c) out" "map (\<lambda>p. fst (slots c1 p)) (pool c1) = map (\<lambda>p. fst (slots c p)) (pool c)"
    using f by (auto simp: c1 own_def intro!: own_cong)
  then have a: "arrs c1 out = arrs c out" unfolding arrs_def by (simp only:)
  have "lo_buf l \<noteq> fresh c" if "l \<in> set out" for l
  proof -
    have "lo_buf l \<in> set (arrs c out)" using that own_buf by (force simp: arrs_def)
    then show ?thesis using assms(1) by (auto simp: loan_inv_def)
  qed
  then show ?thesis
    using assms(1) a f by (auto simp: loan_inv_def c1 less_SucI)
qed

lemma loan_inv_Cons:
  assumes "loan_inv (c1, out)" "pool c' = pool c1" "fresh c1 \<le> fresh c'" "lo_bp l \<notin> set (pool c1 @ map lo_bp out)" "lo_bp l < fresh c'"
    and "arrs c' (l # out) = map (\<lambda>p. fst (slots c1 p)) (pool c1) @ new @ concat (map (own c1) out)"
    and "distinct new" "set new \<inter> set (arrs c1 out) = {}" "\<forall>a \<in> set new. a < fresh c'"
    and "\<forall>l' \<in> set out. loaned c' (lo_buf l') = loaned c1 (lo_buf l')" "0 < lo_len l \<longrightarrow> loaned c' (lo_buf l) = Some (lo_bp l)"
  shows "loan_inv (c', l # out)"
proof -
  have old: "distinct (pool c1 @ map lo_bp out)" "\<forall>p \<in> set (pool c1 @ map lo_bp out). p < fresh c1" "\<forall>a \<in> set (arrs c1 out). a < fresh c1"
    "\<forall>l' \<in> set out. 0 < lo_len l' \<longrightarrow> loaned c1 (lo_buf l') = Some (lo_bp l')" "distinct (arrs c1 out)"
    using assms(1) unfolding loan_inv_def prod.case by blast+
  have set: "set (arrs c' (l # out)) = set new \<union> set (arrs c1 out)" unfolding assms(6) by (auto simp: arrs_def)
  show ?thesis
    unfolding loan_inv_def prod.case
  proof (intro conjI)
    show "distinct (pool c' @ map lo_bp (l # out))" using old(1) assms(2,4) by auto
    show "distinct (arrs c' (l # out))" using old(5) assms(7,8) unfolding assms(6) by (auto simp: arrs_def)
    show "\<forall>p \<in> set (pool c' @ map lo_bp (l # out)). p < fresh c'" using old(2) assms(2,3,5) by (auto simp: image_iff dest: less_le_trans [OF _ assms(3)])
    show "\<forall>a \<in> set (arrs c' (l # out)). a < fresh c'" using old(3) assms(9) unfolding set by (auto dest: less_le_trans [OF _ assms(3)])
    show "\<forall>l' \<in> set (l # out). 0 < lo_len l' \<longrightarrow> loaned c' (lo_buf l') = Some (lo_bp l')" using old(4) assms(10,11) by simp
  qed
qed

lemma loan_Loan_inv:
  assumes "loan_inv (c, out)" "loan_Loan pick c sz = (c', Ok l)"
  shows "loan_inv (c', l # out) \<and> lo_buf l \<notin> set (map lo_buf out) \<and> lo_len l = nat sz \<and>
    take (lo_len l) (mem c' (lo_buf l)) = replicate (nat sz) 0 \<and> length (mem c' (lo_buf l)) \<ge> nat sz \<and>
    (\<forall>l' \<in> set out. mem c' (lo_buf l') = mem c (lo_buf l'))"
proof -
  obtain c1 bp where g: "pool_Get pick c = (c1, bp)" by fastforce
  have i: "loan_inv (c1, out)" "bp \<notin> set (pool c1 @ map lo_bp out)" "bp < fresh c1" "fst (slots c1 bp) \<notin> set (arrs c1 out)"
    "fst (slots c1 bp) < fresh c1" "\<forall>l \<in> set out. mem c1 (lo_buf l) = mem c (lo_buf l)"
    using loan_inv_Get [OF assms(1) g] by blast+
  have bufs: "lo_buf l' \<in> set (arrs c1 out)" if "l' \<in> set out" for l'
    using that own_buf [of l' c1] by (force simp: arrs_def)
  have newest: "fresh c1 \<notin> set (arrs c1 out)" using i(1) by (auto simp: loan_inv_def)
  have slots: "map (own (c1\<lparr>slots := (slots c1)(bp := x)\<rparr>)) out = map (own c1) out"
    "map (\<lambda>p. fst (if p = bp then x else slots c1 p)) (pool c1) = map (\<lambda>p. fst (slots c1 p)) (pool c1)" for x
    using i(2) by (auto intro!: own_cong)
  show ?thesis
  proof (cases "length (mem c1 (fst (slots c1 bp))) \<ge> nat sz")
    case True
    let ?a = "fst (slots c1 bp)"
    define c2 where "c2 = c1\<lparr>slots := (slots c1)(bp := (?a, nat sz)), mem := (mem c1)(?a := replicate (nat sz) 0 @ drop (nat sz) (mem c1 ?a))\<rparr>"
    have c': "c' = (if nat sz > 0 then c2\<lparr>loaned := (loaned c2)(?a \<mapsto> bp)\<rparr> else c2)" "l = \<lparr>lo_buf = ?a, lo_len = nat sz, lo_bp = bp\<rparr>"
      using assms(2) True g by (auto simp: loan_Loan_def c2_def Let_def split: if_splits)
    have "arrs c' (l # out) = map (\<lambda>p. fst (slots c1 p)) (pool c1) @ ?a # concat (map (own c1) out)"
      by (simp add: slots arrs_def c' c2_def own_def [of _ "\<lparr>lo_buf = b, lo_len = n, lo_bp = p\<rparr>" for b n p])
    moreover have other: "lo_buf l' \<noteq> ?a" if "l' \<in> set out" for l' using bufs [OF that] i(4) by auto
    ultimately have "loan_inv (c', l # out)"
      by (intro loan_inv_Cons [OF i(1), of c' l "[?a]"]) (use i in \<open>auto simp: c' c2_def\<close>)
    moreover have "?a \<notin> set (map lo_buf out)" unfolding set_map image_iff using other by metis
    ultimately show ?thesis using i(6) True other by (auto simp: c' c2_def)
  next
    case False
    let ?a = "fresh c1"
    have c': "c' = c1\<lparr>mem := (mem c1)(?a := replicate (nat sz) 0), fresh := Suc ?a, loaned := (loaned c1)(?a \<mapsto> bp)\<rparr>"
      "l = \<lparr>lo_buf = ?a, lo_len = nat sz, lo_bp = bp\<rparr>"
      using assms(2) False g by (auto simp: loan_Loan_def Let_def split: if_splits)
    have "arrs c' (l # out) = map (\<lambda>p. fst (slots c1 p)) (pool c1) @ ?a # fst (slots c1 bp) # concat (map (own c1) out)"
      using i(5) by (simp add: arrs_def c' own_def [of _ "\<lparr>lo_buf = b, lo_len = n, lo_bp = p\<rparr>" for b n p])
    moreover have other: "lo_buf l' \<noteq> ?a" if "l' \<in> set out" for l' using bufs [OF that] newest by auto
    ultimately have "loan_inv (c', l # out)"
      by (intro loan_inv_Cons [OF i(1), of c' l "[?a, fst (slots c1 bp)]"]) (use i newest in \<open>auto simp: c'\<close>)
    moreover have "?a \<notin> set (map lo_buf out)" unfolding set_map image_iff using other by metis
    ultimately show ?thesis using i(6) other by (auto simp: c')
  qed
qed

lemma others_differ:
  assumes "distinct (map f (xs @ l # ys))" "x \<in> set (xs @ ys)"
  shows "f x \<noteq> f l"
proof -
  have "f l \<notin> f ` set (xs @ ys)" using assms(1) by auto
  then show ?thesis using assms(2) by (metis imageI)
qed

lemma loan_inv_drop:
  assumes "loan_inv (c, xs @ l # ys)"
  shows "loan_inv (c, xs @ ys)"
proof -
  have old: "distinct (pool c @ map lo_bp (xs @ l # ys))" "distinct (arrs c (xs @ l # ys))"
    "\<forall>p \<in> set (pool c @ map lo_bp (xs @ l # ys)). p < fresh c" "\<forall>a \<in> set (arrs c (xs @ l # ys)). a < fresh c"
    "\<forall>l' \<in> set (xs @ l # ys). 0 < lo_len l' \<longrightarrow> loaned c (lo_buf l') = Some (lo_bp l')"
    using assms unfolding loan_inv_def prod.case by blast+
  show ?thesis
    unfolding loan_inv_def prod.case
  proof (intro conjI)
    show "distinct (pool c @ map lo_bp (xs @ ys))" using old(1) by auto
    show "distinct (arrs c (xs @ ys))" using old(2) by (auto simp: arrs_def)
    show "\<forall>p \<in> set (pool c @ map lo_bp (xs @ ys)). p < fresh c" using old(3) by auto
    show "\<forall>a \<in> set (arrs c (xs @ ys)). a < fresh c" using old(4) by (auto simp: arrs_def)
    show "\<forall>l' \<in> set (xs @ ys). 0 < lo_len l' \<longrightarrow> loaned c (lo_buf l') = Some (lo_bp l')" using old(5) by simp
  qed
qed

text \<open>A loan that is given back leaves its reference, with one of its arrays, in the pool.\<close>

lemma loan_inv_back:
  assumes "loan_inv (c, xs @ l # ys)" "a \<in> set (own c l)" "c' = c\<lparr>slots := (slots c)(lo_bp l := (a, 0)), pool := lo_bp l # pool c, loaned := m\<rparr>"
    and "\<forall>l' \<in> set (xs @ ys). m (lo_buf l') = loaned c (lo_buf l')"
  shows "loan_inv (c', xs @ ys)"
proof -
  have old: "distinct (pool c @ map lo_bp (xs @ l # ys))" "distinct (arrs c (xs @ l # ys))"
    "\<forall>p \<in> set (pool c @ map lo_bp (xs @ l # ys)). p < fresh c" "\<forall>a \<in> set (arrs c (xs @ l # ys)). a < fresh c"
    "\<forall>l' \<in> set (xs @ l # ys). 0 < lo_len l' \<longrightarrow> loaned c (lo_buf l') = Some (lo_bp l')"
    using assms(1) unfolding loan_inv_def prod.case by blast+
  have "distinct (map lo_bp (xs @ l # ys))" using old(1) by simp
  from others_differ [OF this] have "map (own c') (xs @ ys) = map (own c) (xs @ ys)"
    by (intro map_cong [OF refl] own_cong) (simp add: assms(3))
  moreover have "map (\<lambda>p. fst (slots c' p)) (pool c) = map (\<lambda>p. fst (slots c p)) (pool c)" using old(1) by (auto simp: assms(3))
  moreover have "pool c' = lo_bp l # pool c" "fst (slots c' (lo_bp l)) = a" by (simp_all add: assms(3))
  ultimately have a: "arrs c' (xs @ ys) = a # map (\<lambda>p. fst (slots c p)) (pool c) @ concat (map (own c) (xs @ ys))"
    unfolding arrs_def by (simp only: list.map append_Cons)
  show ?thesis
    unfolding loan_inv_def prod.case
  proof (intro conjI)
    show "distinct (pool c' @ map lo_bp (xs @ ys))" using old(1) by (auto simp: assms(3))
    show "distinct (arrs c' (xs @ ys))" using old(2) assms(2) unfolding a by (auto simp: arrs_def)
    show "\<forall>p \<in> set (pool c' @ map lo_bp (xs @ ys)). p < fresh c'" using old(3) by (auto simp: assms(3))
    show "\<forall>a \<in> set (arrs c' (xs @ ys)). a < fresh c'" using old(4) assms(2) unfolding a by (auto simp: arrs_def assms(3))
    show "\<forall>l' \<in> set (xs @ ys). 0 < lo_len l' \<longrightarrow> loaned c' (lo_buf l') = Some (lo_bp l')" using old(5) assms(4) by (simp add: assms(3))
  qed
qed

lemma loan_inv_bufs:
  assumes "loan_inv (c, out)"
  shows "distinct (map lo_buf out)"
proof -
  have "distinct (concat (map (own c) out)) \<Longrightarrow> distinct (map lo_buf out)" for out
    using own_buf by (induction out) (auto, metis Int_iff UN_I disjoint_iff own_buf)
  then show ?thesis using assms by (simp add: loan_inv_def arrs_def)
qed

lemma loan_step_inv:
  assumes "loan_step s s'" "loan_inv s"
  shows "loan_inv s'"
  using assms
proof (induction s s' rule: loan_step.induct)
  case (lend pick c sz c' l out)
  then show ?case using loan_Loan_inv by blast
next
  case (fill l out bs c)
  then show ?case by (simp add: loan_inv_def arrs_def)
next
  case (give_back c xs l ys)
  have "\<forall>l' \<in> set (xs @ ys). lo_buf l' \<noteq> lo_buf l" using others_differ [OF loan_inv_bufs [OF give_back]] by blast
  then show ?case
    by (intro loan_inv_back [OF give_back own_buf, where m = "if lo_len l > 0 then (loaned c)(lo_buf l := None) else loaned c"])
      (auto simp: Loan_Return_def untrack_def Let_def)
next
  case (send c xs l ys)
  have other: "\<forall>l' \<in> set (xs @ ys). lo_buf l' \<noteq> lo_buf l" using others_differ [OF loan_inv_bufs [OF send]] by blast
  show ?case
  proof (cases "lo_len l > 0")
    case True
    then have "loaned c (lo_buf l) = Some (lo_bp l)" using send by (simp add: loan_inv_def)
    moreover have "fst (slots c (lo_bp l)) \<in> set (own c l)" by (simp add: own_def)
    ultimately show ?thesis
      using True other
      by (intro loan_inv_back [OF send, where a = "fst (slots c (lo_bp l))" and m = "(loaned c)(lo_buf l := None)"]) (auto simp: recycle_def)
  next
    case False
    then have "recycle c (lo_buf l) (lo_len l) = c" by (simp add: recycle_def)
    then show ?thesis using loan_inv_drop [OF send] by simp
  qed
next
  case (collect c out i)
  show ?case
  proof (cases "i < length (pool c)")
    case True
    then show ?thesis using loan_inv_Get [OF collect, of "Some i"] by (simp add: pool_Get_def)
  qed (use collect in simp)
next
  case (shut c out)
  then show ?case by (simp add: loan_Close_def loan_inv_def arrs_def)
qed

interpretation loans: invariant_steps loan_step loan_inv
  by unfold_locales (rule loan_step_inv)

text \<open>C22: buffers on loan are not shared. Whatever loans, writes, returns, requests and collections came before, in any order, as
  long as each loan is given back at most once, no two loans that are out have the same buffer; and a further loan, whichever
  reference the pool gives, is a zeroed buffer of the size asked for, not that of another loan, whose contents stay as they are.\<close>

theorem loans_never_alias:
  assumes "loan_step\<^sup>*\<^sup>* (loan_New, []) (c, out)" "loan_Loan pick c sz = (c', Ok l)"
  shows "distinct (map lo_buf out) \<and> lo_buf l \<notin> set (map lo_buf out) \<and>
    take (lo_len l) (mem c' (lo_buf l)) = replicate (nat sz) 0 \<and> lo_len l = nat sz \<and>
    (\<forall>l' \<in> set out. mem c' (lo_buf l') = mem c (lo_buf l'))"
proof -
  have "loan_inv (c, out)" by (rule loans.steps_inv [OF assms(1)]) (simp add: loan_inv_def loan_New_def arrs_def)
  then show ?thesis using loan_Loan_inv [OF _ assms(2)] loan_inv_bufs by blast
qed

theorem loans_never_alias_witness:
  "\<exists>c l c' l'. loan_Loan None loan_New 2 = (c, Ok l) \<and> loan_Loan (Some 0) c 300 = (c', Ok l') \<and> lo_buf l' \<noteq> lo_buf l"
proof -
  obtain c l where l: "loan_Loan None loan_New 2 = (c, Ok l)" by (simp add: loan_Loan_def loan_New_def pool_Get_def Let_def)
  obtain c' l' where l': "loan_Loan (Some 0) c 300 = (c', Ok l')"
    using l by (auto simp: loan_Loan_def loan_New_def pool_Get_def Let_def)
  have "loan_step\<^sup>*\<^sup>* (loan_New, []) (c, [l])" using loan_step.lend [OF l] by blast
  from loans_never_alias [OF this l'] l l' show ?thesis by auto
qed

text \<open>A loan that is given back twice is in the pool twice: the next two loans have the same buffer.\<close>

lemma returned_twice:
  "\<exists>c l c1 l1 c2 l2. loan_Loan None loan_New 8 = (c, Ok l) \<and>
     loan_Loan (Some 0) (Loan_Return (Loan_Return c l) l) 8 = (c1, Ok l1) \<and> loan_Loan (Some 0) c1 8 = (c2, Ok l2) \<and> lo_buf l1 = lo_buf l2"
  by (simp add: loan_Loan_def loan_New_def pool_Get_def Loan_Return_def untrack_def Let_def)

end
