(* ===== verification/Spec2Isabelle.thy ===== *)
theory Spec2Isabelle
  imports Acf_Frame Acf_Evt Dispatcher_Properties Server_Properties E2e_Watchdog Fragment_Properties
    Gpio Pwm I2c Lin Spi Uart Adc Can Mdio Iseled Udp Prioqueue Watchdog_Keeper Powerstate Deadline Mdns
    Recording Firmware Linbr Diagnostics Someip Wrappers Formal_Checks Transports Adapter Pubsub Throttling
begin

text \<open>
  A verification of go-RCP, the Go implementation of the OPEN Alliance Remote Control Protocol: clients read, write and
  configure the hardware endpoints of a server over AVTP frames.

  \<^bold>\<open>The program and its parts.\<close> A client request is an \<open>acf.Message\<close>; one or more of them and an AVTP header make a frame
  (\<open>acf\<close>, \<open>avtp\<close>), which a transport carries in a datagram (\<open>udp\<close>). The router of the receiving side hands each message to EP0, which reads and
  writes the register map of the server (\<open>server\<close>, \<open>regmap\<close>, \<open>lifecycle\<close>, \<open>discovery\<close>), or to the handler of an endpoint (\<open>gpio\<close>, \<open>pwm\<close>, \<open>i2c\<close>, \<open>lin\<close>,
  \<open>spi\<close>, \<open>uart\<close>, \<open>adc\<close>, \<open>can\<close>, \<open>mdio\<close>, \<open>iseled\<close>, \<open>wakeup\<close>). In front of a handler a dispatcher (\<open>request\<close>) may hold conditional, triggered, timed,
  chained and cancelling requests. End-to-end checks (\<open>e2e\<close>) protect messages by a checksum and watch the streams; \<open>watchdog\<close> purges the dispatchers
  of silent ones. Long messages are cut and put together by \<open>fragment\<close>. Around this stand \<open>prioqueue\<close> (requests by priority), \<open>powerstate\<close> (sending wake
  handshakes), \<open>deadline\<close> (liveness as a client sees it) and \<open>mdns\<close> (finding servers). Above the controller of \<open>udp\<close> are wrappers (\<open>authz\<close>, \<open>proxy\<close>,
  \<open>redundancy\<close>, \<open>zonegroup\<close>, \<open>federation\<close>, \<open>ratelimit\<close>, \<open>loan\<close>, \<open>tsn\<close>), bridges to other protocols (\<open>linbr\<close>, \<open>canbr\<close>, \<open>udsbr\<close>, \<open>doipbr\<close>, \<open>someip\<close>, \<open>mqttbr\<close>, \<open>ddsbr\<close>), services
  (\<open>record\<close>, \<open>firmware\<close>) and front ends (the root package, \<open>capi\<close>, \<open>dyndata\<close>); beside it are other transports (\<open>shmem\<close>, \<open>l2\<close>, \<open>mock\<close>) and test tools (\<open>formal\<close>,
  \<open>faultinject\<close>, \<open>sim\<close>).

  \<^bold>\<open>Conventions.\<close> Go's fixed-width integers are words, slices of octets are lists of 8-bit words, structs are records, and a Go map is a map or,
  where its keys are listed in order, an association list. A call that can fail returns an \<open>outcome\<close>: \<open>Ok\<close>, \<open>Err\<close> with an error of \<open>RCP_Errors\<close> (wrapped
  errors keep what \<open>errors.Is\<close> finds), or \<open>Panic\<close> for an index out of range, so that the absence of panics is a theorem and not an assumption.
  Methods that change an object return it. Mutexes are not modelled, because the methods concerned hold them throughout: a call is one step, and an interleaving
  is a sequence of calls. Clocks are arguments; times are unbounded integers except where the code multiplies them. What is outside the repository is a parameter:
  the transports of the endpoints, the handlers behind dispatchers and routers (functions on a world \<open>'w\<close>), the rendering of error texts.

  \<^bold>\<open>The library.\<close>
  \<^item> \<open>RCP_Prelude\<close>, \<open>RCP_Errors\<close>: outcomes, index and slice expressions, big-endian accessors, words; the locales \<open>body_codec\<close> and \<open>exact_codec\<close> (an encoder and a
    decoder fit together; the encoding is unique), interpreted for every message body, and \<open>invariant_steps\<close> (a step relation keeps an invariant), interpreted for
    every state machine.
  \<^item> \<open>Avtp\<close>, \<open>Acf_Message\<close>, \<open>Acf_Evt\<close>, \<open>Acf_Frame\<close>: \<open>avtp/*.go\<close> and \<open>acf/*.go\<close>. Encoders and decoders of headers, messages and frames, the evt field and its write
    operations. The locales \<open>prefix_codec\<close> and \<open>codec_stream\<close> lift the laws of one message to the messages of a frame.
  \<^item> \<open>Request_Kind\<close>, \<open>Request_Envelope\<close>, \<open>Request_Dispatcher\<close>: \<open>request/*.go\<close>. Kinds and priorities, the sequencer bank, envelopes, tickets, and every operation of the
    dispatcher. \<open>Dispatcher_Lemmas\<close>, \<open>Dispatcher_Machine\<close>, \<open>Dispatcher_Properties\<close>: how tickets evolve, reachable dispatchers and their invariant, and the claims.
  \<^item> \<open>Regmap\<close>, \<open>Regmap_Lemmas\<close>: \<open>regmap/*.go\<close>. The register map with its blocks, the pin map, queues and access control, and the codec of the whole map.
  \<^item> \<open>Server\<close>, \<open>Server_Machine\<close>, \<open>Server_Properties\<close>: \<open>server/*.go\<close>, \<open>lifecycle/*.go\<close>, \<open>discovery/*.go\<close>. Every operation of the server, its steps and invariant.
  \<^item> \<open>Ep_Config\<close>: the steps all endpoint types share (access check, evt disposition, configuration access), with the locale \<open>ep_config\<close> for what an endpoint's
    configuration promises and \<open>config_block\<close>, from which it follows. \<open>Gpio\<close>, \<open>Pwm\<close>, \<open>I2c\<close>, \<open>Lin\<close>, \<open>Spi\<close>, \<open>Uart\<close>, \<open>Adc\<close>, \<open>Can\<close>, \<open>Mdio\<close>, \<open>Iseled\<close>, \<open>Wakeup\<close>: one theory for
    each package of that name, with an interpretation of \<open>config_block\<close>.
  \<^item> \<open>E2e_Crc\<close>, \<open>E2e_Watchdog\<close>: \<open>e2e/*.go\<close>, with the table-driven checksum of the Go library. \<open>Fragment\<close>, \<open>Fragment_Lemmas\<close>, \<open>Fragment_Properties\<close>: \<open>fragment/*.go\<close>; the locale
    \<open>splitter\<close> holds for \<open>Split\<close> and for the gateway.
  \<^item> \<open>Udp\<close>: \<open>udp/*.go\<close>. Encapsulation, error codes, EP0, the router, a turn of the server loop, the life of a request in a controller, the registry.
  \<^item> \<open>Prioqueue\<close> (\<open>prioqueue/queue.go\<close> with \<open>container/heap\<close>; locale \<open>keyed_heap\<close>), \<open>Watchdog_Keeper\<close> (\<open>watchdog/keeper.go\<close>), \<open>Powerstate\<close> (\<open>powerstate/driver.go\<close>),
    \<open>Deadline\<close> (\<open>deadline/*.go\<close>), \<open>Mdns\<close> (\<open>mdns/dns.go\<close>, the packet of an announcer and the reaction of a browser).
  \<^item> \<open>Upstream\<close>: a request of a controller from its beginning to its end, which the theories below take as a parameter or join with their own.
    \<open>Recording\<close> (\<open>record/record.go\<close>; locale \<open>bounded_log\<close>), \<open>Firmware\<close> (\<open>firmware/firmware.go\<close>), \<open>Linbr\<close> (\<open>linbr\<close>, \<open>canbr\<close>), \<open>Diagnostics\<close> (\<open>udsbr\<close>, \<open>doipbr\<close>), \<open>Someip\<close> (\<open>someip\<close>),
    \<open>Wrappers\<close> (\<open>authz\<close>, \<open>proxy\<close>, \<open>redundancy\<close>, \<open>zonegroup\<close>, \<open>federation\<close>), \<open>Transports\<close> (\<open>l2\<close>, \<open>shmem\<close>, \<open>mock\<close>, \<open>tsn\<close>; locale \<open>controller_registry\<close> for their registries and that of \<open>udp\<close>),
    \<open>Adapter\<close> (\<open>adapt.go\<close>, \<open>optional.go\<close>, \<open>capi\<close>, \<open>dyndata\<close>), \<open>Pubsub\<close> (\<open>mqttbr\<close>, \<open>ddsbr\<close>; locale \<open>fan_out\<close>), \<open>Throttling\<close> (\<open>ratelimit\<close>, \<open>faultinject\<close>, \<open>sim/pacer.go\<close>, \<open>loan\<close>).
  \<^item> \<open>Formal_Checks\<close>: \<open>formal/*.go\<close>, the trace checks of the repository over the models of the server, the watchdog and the wakeup endpoint.
  \<^item> This theory: a GPIO endpoint behind the router of a UDP server, and rejected operations of the server and of all endpoint types.

  \<^bold>\<open>What is shown.\<close>
  \<^item> Wire formats: decoding inverts encoding for headers, messages, frames, envelopes, register maps, configurations and DNS packets; no input makes a decoder panic;
    what the wire loses is written out (\<open>wire_header\<close>, \<open>wire_message\<close>).
  \<^item> Dispatcher: invariant of reachable dispatchers; outcomes are final; safety requests run only in the safe state; a purge spares them; one pump leaves only tickets
    with a reason to wait; cancel-all comes before everything else.
  \<^item> Server: invariant of the configuration; what each lifecycle state freezes; only the root client configures; rejected operations change nothing, neither on the server nor, for a
    configuration request, in the endpoint.
  \<^item> Endpoints: what a request may change; configuration and register map stay in step; validity of waveforms; order of a byte stream; masks and means; power states.
  \<^item> Safety: the table-driven checksum equals its bitwise definition; protected messages verify, and a guarded handler runs exactly on messages with a valid safe point;
    the watchdog's verdict against its documented rule, with the two cases in which they differ, and the purge it leads to.
  \<^item> Composition: a request of a controller comes back with the answer of its handler; discovery yields the register map of the server; a write of a client reaches exactly
    the output pins, or is refused and changes nothing; a split message is put together again, also with a safe point in it, and nothing
    else is ever put together; a failure arrives with the code of its cause.
  \<^item> Services: the heap-based queue is a stable sort by priority; wake handshakes arrive in order over a link that fails; the liveness verdict; announced servers are found.
  \<^item> Above the controller: a request through a proxy is answered over two hops; the test client, the bus in memory and UDP agree up to the 255th request; the ring
    buffer of a recorder holds the last entries, its log is read back and can be replayed; an update sends the whole image, and over UDP ends at 254 chunks; a pair of controllers fails
    over once per burst of failures; the order of the goroutines of a broadcast does not matter; a policy gates; the slices of a broker implement lists of subscribers, and what an unsubscription during a publication does; buffers on loan are never shared;
    which of the trace invariants of the repository hold on all traces, and when the others do.

  \<^bold>\<open>Termination and bounds.\<close> No function needs fuel: the loops whose recursion is not structural (\<open>decodeMessages\<close>, \<open>handshakesFrom\<close>, \<open>heap_up\<close>, \<open>heap_down\<close>, \<open>popLoop\<close>,
  \<open>decodeNameLoop\<close>, \<open>txtLoop\<close>, \<open>readEntries\<close>, \<open>handleConn\<close>) come with a measure, and the one that can run forever (\<open>sendChunks\<close>, for a chunk size of zero) is partial and proved to end
  for every size that \<open>NewUpdater\<close> lets through. Counters are words and wrap; where a statement needs a counter not to wrap (ticket identifiers, the numbers of a priority
  queue, 64 bits each) it says so. The counter of transactions does overflow its field, and a theorem shows the effect.

  \<^bold>\<open>Not modelled.\<close> Sockets, goroutines, contexts and their scheduling, except as the order of steps; the \<open>String\<close> methods that no check reads; \<open>encoding/json\<close> (topology files,
  the payloads of \<open>dyndata\<close>, which take the encoder as a parameter). \<open>restbridge\<close>, \<open>grpcbridge\<close>, \<open>admin\<close>, \<open>config\<close> and \<open>observe\<close> are handlers of \<open>net/http\<close>, gRPC, JSON, YAML and
  OpenTelemetry around calls that are modelled; \<open>codegen\<close> prints source text through templates; \<open>cmd\<close> parses flags; \<open>certgap\<close>, \<open>iso21434\<close> and \<open>safety\<close> are tables and documents of a
  safety process; the examples only call the packages.
\<close>

section \<open>A GPIO endpoint behind a UDP server\<close>

text \<open>A GPIO endpoint behind the router of a UDP server: the world of its handler is the server and the endpoint.\<close>

definition gpioHandler :: "(Server \<times> GEndpoint) rhandler" where
  "gpioHandler w sid req = (case w of (s, e) \<Rightarrow> case gpio_HandleRequest s e sid req of (s', e', r) \<Rightarrow> ((s', e'), r))"

lemma gpioHandler_write:
  assumes "req = wire_message (requestMessage (gaddr e) txn FlagWrite (gpio_EncodeWriteRequest v))"
  shows "gpioHandler (s, e) sid req =
    (if \<not> CanAccess (acl s) sid (gaddr e) then ((s, e), Err (ERegmap ErrAccessDenied))
     else if RegisterMap_Endpoint (rmap s) (gaddr e) = None then ((s, e), Err (ERegmap ErrUnknownEndpoint_regmap))
     else let e' = fst (applyWrite e EVTWriteSet v) in ((s, e'), Ok (gpio_responseFor req (gpio_EncodeValue (pins e')))))"
proof -
  have req: "ByteBusID req = gaddr e" "EVT req = 0" "Body req = put32 v" "Has (Control req) FlagWrite"
    by (simp_all add: assms wire_message_def requestMessage_def zeroMessage_def gpio_EncodeWriteRequest_def Has_def flag_defs)
  have disp: "Message_EVTDisposition req gpio_EVTClass = Ok \<lparr>Action = EVTActionInterface, Channel = 0, WriteOp = 0\<rparr>"
    by (simp add: Message_EVTDisposition_def CheckEVTPayloadPresence_def ClassifyEVT_def req gpio_EVTClass_def evt_consts EVTWriteOp_Valid_def)
  have dec: "gpio_DecodeWriteRequest (put32 v) = Ok v"
    by (simp add: gpio_DecodeWriteRequest_def gpio_requestLen_def put32_def)
  have "applyWrite e 0 v = (fst (applyWrite e EVTWriteSet v), Ok (pins (fst (applyWrite e EVTWriteSet v))))"
    using applyWrite_Ok [of EVTWriteSet e v] by (simp add: EVTWriteOp_Valid_def evt_consts prod_eq_iff)
  then show ?thesis
    using req disp dec
    by (simp add: gpioHandler_def gpio_HandleRequest_def endpointRequest_def ReadEndpoint_def gpio_plainRequest_def Let_def split: option.split)
qed

lemma applyWrite_set:
  "bit (pins (fst (applyWrite e EVTWriteSet v))) n = (if bit (Direction (gcfg e) AND activeMask (gcfg e)) n then bit v n else bit (pins e) n)"
  by (auto simp: applyWrite_def applyValue_def ApplyEVTWriteOp_def Let_def bit_mergeMask evt_consts bit_and_iff)

text \<open>C2: from a client to the pins of a server. A controller on whose stream the server grants access writes a value to a GPIO
  endpoint: the request travels through the datagram, the router and the endpoint and comes back, every output pin
  in use has its bit of the value, all others keep theirs, and the response carries the resulting value. Without the grant
  the client gets an error response whose code is that of an unauthorized access, and neither the server nor a pin has
  changed.\<close>

theorem gpio_write_over_the_wire:
  assumes "\<not> ct_closed c" "unat (ucast (nextTxn c + 1) :: TransactionNum) \<le> 255" "gaddr e \<noteq> EP0" "unat (gaddr e) \<le> 2047"
    and "handlers r (gaddr e) = Some gpioHandler" "HasEndpoint (rmap s) (gaddr e)" "length (render (ERegmap ErrAccessDenied)) \<le> 2035"
  shows "\<exists>c' srv' e' resp. exchange render r srv c (s, e) (gaddr e) FlagWrite (gpio_EncodeWriteRequest v) = (c', srv', (s, e'), Some (Ok resp)) \<and>
    (if CanAccess (acl s) (ct_streamID c) (gaddr e) then
       gpio_DecodeValue (Body resp) = Ok (pins e') \<and>
       (\<forall>n. bit (pins e') n = (if bit (Direction (gcfg e) AND activeMask (gcfg e)) n then bit v n else bit (pins e) n))
     else e' = e \<and> Message_ResponseKind resp = ResponseError \<and>
       DecodeErrorBody (Body resp) = Ok (ErrorCodeUnauthorizedAccess, render (ERegmap ErrAccessDenied)))"
proof -
  let ?txn = "ucast (nextTxn c + 1) :: TransactionNum"
  let ?req = "requestMessage (gaddr e) ?txn FlagWrite (gpio_EncodeWriteRequest v)"
  let ?e = "fst (applyWrite e EVTWriteSet v)"
  have req: "encodable ?req"
    using assms(2,4) by (intro encodable_request) (simp_all add: message_consts knownFlags_def flag_defs gpio_EncodeWriteRequest_def)
  have wire: "EVT (wire_message ?req) = 0" "ByteBusID (wire_message ?req) = gaddr e" "TransactionNum (wire_message ?req) = ?txn"
    by (simp_all add: wire_message_def requestMessage_def zeroMessage_def)
  have route: "Route render r (s, e) hdr (wire_message ?req) =
      (case gpioHandler (s, e) (ct_streamID c) (wire_message ?req) of
         (w', Ok resp) \<Rightarrow> (w', Ok (Some resp)) | (w', Panic) \<Rightarrow> (w', Panic)
       | (w', Err er) \<Rightarrow> (w', Ok (if silent er then None else Some (errorResponse render (wire_message ?req) er))))"
    if "\<not> Timed hdr" "HStreamID hdr = ct_streamID c" for hdr
    using that wire assms(3,5) by (simp add: Route_untimed handled_def)
  have here: "RegisterMap_Endpoint (rmap s) (gaddr e) \<noteq> None" using assms(6) by (simp add: HasEndpoint_def)
  show ?thesis
  proof (cases "CanAccess (acl s) (ct_streamID c) (gaddr e)")
    case True
    let ?resp = "gpio_responseFor (wire_message ?req) (gpio_EncodeValue (pins ?e))"
    have r1: "Route render r (s, e) hdr (wire_message ?req) = ((s, ?e), Ok (Some ?resp))" if "\<not> Timed hdr" "HStreamID hdr = ct_streamID c" for hdr
      using route [OF that] gpioHandler_write [OF refl, of s e "ct_streamID c" ?txn v] True here by (simp add: Let_def)
    have r2: "encodable ?resp" using encodable_response [OF req, of "gpio_EncodeValue (pins ?e)"]
      by (simp add: gpio_responseFor_def udp_responseFor_def gpio_EncodeValue_def)
    have r3: "TransactionNum ?resp = ?txn" using wire(3) by (simp add: gpio_responseFor_def responseWith_def)
    obtain c' srv' where "exchange render r srv c (s, e) (gaddr e) FlagWrite (gpio_EncodeWriteRequest v) = (c', srv', (s, ?e), Some (Ok (wire_message ?resp)))"
      using exchange_routed [OF assms(1) refl refl req r1 r2 r3] by blast
    moreover have "gpio_DecodeValue (Body (wire_message ?resp)) = Ok (pins ?e)"
      by (simp add: gpio_responseFor_def responseWith_def wire_message_def gpio_EncodeValue_def gpio_DecodeValue_def put32_def)
    ultimately show ?thesis using True applyWrite_set [of e v] by auto
  next
    case False
    let ?resp = "errorResponse render (wire_message ?req) (ERegmap ErrAccessDenied)"
    have code: "errorCodeFor (ERegmap ErrAccessDenied) = ErrorCodeUnauthorizedAccess" "\<not> silent (ERegmap ErrAccessDenied)"
      by (simp_all add: errorCodeFor_def silent_def)
    have r1: "Route render r (s, e) hdr (wire_message ?req) = ((s, e), Ok (Some ?resp))" if "\<not> Timed hdr" "HStreamID hdr = ct_streamID c" for hdr
      using route [OF that] gpioHandler_write [OF refl, of s e "ct_streamID c" ?txn v] False code(2) by simp
    have r2: "encodable ?resp" using encodable_errorResponse [OF req] assms(7) by simp
    have r3: "TransactionNum ?resp = ?txn" using wire(3) by (simp add: errorResponse_def)
    obtain c' srv' where "exchange render r srv c (s, e) (gaddr e) FlagWrite (gpio_EncodeWriteRequest v) = (c', srv', (s, e), Some (Ok (wire_message ?resp)))"
      using exchange_routed [OF assms(1) refl refl req r1 r2 r3] by blast
    then show ?thesis using False errorResponse_received [of render "wire_message ?req" "ERegmap ErrAccessDenied"] code(1) by auto
  qed
qed

text \<open>A client that the root client has granted access, and one that it has not.\<close>

definition wireServer :: "Server \<times> GEndpoint" where "wireServer = (gpioServer, gpioEndpoint)"

definition wireRouter :: "(Server \<times> GEndpoint) Router" where
  "wireRouter = fst (Router_Register (NewRouter (\<lambda>w hdr req. case EP0Handler_HandleRequest (fst w) hdr req of (s, m) \<Rightarrow> ((s, snd w), m)) False) 7 gpioHandler)"

theorem gpio_write_over_the_wire_witness:
  "(\<exists>c' srv' e' resp. exchange (\<lambda>_. []) wireRouter \<lparr>us_streamID = gpioRoot, us_seq = 0, us_encapSeq = 0\<rparr> (NewController gpioRoot) wireServer 7 FlagWrite
      (gpio_EncodeWriteRequest 6) = (c', srv', (gpioServer, e'), Some (Ok resp)) \<and> gpio_DecodeValue (Body resp) = Ok (pins e')) \<and>
   (\<exists>c' srv' resp. exchange (\<lambda>_. []) wireRouter \<lparr>us_streamID = gpioRoot, us_seq = 0, us_encapSeq = 0\<rparr> (NewController zeroStreamID) wireServer 7 FlagWrite
      (gpio_EncodeWriteRequest 6) = (c', srv', wireServer, Some (Ok resp)) \<and> DecodeErrorBody (Body resp) = Ok (ErrorCodeUnauthorizedAccess, []))"
proof -
  have a: "CanAccess (acl gpioServer) gpioRoot 7" "\<not> CanAccess (acl gpioServer) zeroStreamID 7" "HasEndpoint (rmap gpioServer) 7" "gaddr gpioEndpoint = 7"
    by code_simp+
  moreover have "handlers wireRouter 7 = Some gpioHandler" by (simp add: wireRouter_def Router_Register_def NewRouter_def EP0_def)
  ultimately show ?thesis
    using gpio_write_over_the_wire [of "NewController gpioRoot" gpioEndpoint wireRouter gpioServer "\<lambda>_. []" "\<lparr>us_streamID = gpioRoot, us_seq = 0, us_encapSeq = 0\<rparr>" 6]
      gpio_write_over_the_wire [of "NewController zeroStreamID" gpioEndpoint wireRouter gpioServer "\<lambda>_. []" "\<lparr>us_streamID = gpioRoot, us_seq = 0, us_encapSeq = 0\<rparr>" 6]
    by (fastforce simp: NewController_def wireServer_def EP0_def)
qed

section \<open>Rejected operations\<close>

text \<open>The same for a configuration request, which works on the server and on an endpoint with a valid configuration.\<close>

definition unchanged_on_refusal :: "('c \<Rightarrow> rcp_error option) \<Rightarrow> ('e \<Rightarrow> 'c) \<Rightarrow> ('e \<Rightarrow> bytes) \<Rightarrow> 'e adopt \<Rightarrow> Server \<Rightarrow> 'e \<Rightarrow> u16 \<Rightarrow> StreamID \<Rightarrow> Message \<Rightarrow> bool" where
  "unchanged_on_refusal validate get encode adopt s e bus rq req \<longleftrightarrow>
     (case ApplyConfigRequest s e rq bus req encode adopt of
        (s', e', Err er) \<Rightarrow> validate (get e) = None \<longrightarrow> s' = s \<and> get e' = get e
      | _ \<Rightarrow> True)"

lemma endpoint_refusals:
  "unchanged_on_refusal GConfig_Validate gcfg gpio_encodeConfigBlock gpio_adoptConfigBlock s e1 bus rq req"
  "unchanged_on_refusal PwmConfig_Validate pwm_cfg pwm_encodeConfigBlock pwm_adoptConfigBlock s e2 bus rq req"
  "unchanged_on_refusal I2cConfig_Validate i2c_cfg i2c_encodeConfigBlock i2c_adoptConfigBlock s e3 bus rq req"
  "unchanged_on_refusal LinConfig_Validate lin_cfg lin_encodeConfigBlock lin_adoptConfigBlock s e4 bus rq req"
  "unchanged_on_refusal SpiConfig_Validate spi_cfg spi_encodeConfigBlock spi_adoptConfigBlock s e5 bus rq req"
  "unchanged_on_refusal UartConfig_Validate uart_cfg uart_encodeConfigBlock uart_adoptConfigBlock s e6 bus rq req"
  "unchanged_on_refusal AdcConfig_Validate adc_cfg adc_encodeConfigBlock adc_adoptConfigBlock s e7 bus rq req"
  "unchanged_on_refusal CanConfig_Validate can_cfg can_encodeConfigBlock can_adoptConfigBlock s e8 bus rq req"
  "unchanged_on_refusal MdioConfig_Validate mdio_cfg mdio_encodeConfigBlock mdio_adoptConfigBlock s e9 bus rq req"
  "unchanged_on_refusal IseledConfig_Validate iseled_cfg iseled_encodeConfigBlock iseled_adoptConfigBlock s e10 bus rq req"
  unfolding unchanged_on_refusal_def gpio_encodeConfigBlock_def gpio_adoptConfigBlock_def pwm_encodeConfigBlock_def pwm_adoptConfigBlock_def
    i2c_encodeConfigBlock_def i2c_adoptConfigBlock_def lin_encodeConfigBlock_def lin_adoptConfigBlock_def spi_encodeConfigBlock_def spi_adoptConfigBlock_def
    uart_encodeConfigBlock_def uart_adoptConfigBlock_def adc_encodeConfigBlock_def adc_adoptConfigBlock_def can_encodeConfigBlock_def can_adoptConfigBlock_def
    mdio_encodeConfigBlock_def mdio_adoptConfigBlock_def iseled_encodeConfigBlock_def iseled_adoptConfigBlock_def
  using gpio_ep.apply_refused pwm_ep.apply_refused i2c_ep.apply_refused lin_ep.apply_refused spi_ep.apply_refused uart_ep.apply_refused
    adc_ep.apply_refused can_ep.apply_refused mdio_ep.apply_refused iseled_ep.apply_refused
  by (auto split: prod.split outcome.split)

text \<open>C31: a rejected operation has no effect. Every operation of the server that returns an error returns the server it was given, so
  that no write is applied in part. A configuration request that is refused, by the decoder of the request, by the endpoint, which checks the patched
  block first, or by the register map after the endpoint has adopted it, leaves both the register map and the
  configuration of the endpoint as they were, provided that this was valid; for each of the ten endpoint types that take such requests.\<close>

theorem rejected_operations_change_nothing:
  "unchanged_on_error s (ClaimRoot s rq) \<and> unchanged_on_error s (AdvanceToHWLocked s) \<and> unchanged_on_error s (AdvanceToFullyConfigured s) \<and>
   unchanged_on_error s (DemoteToUnconfigured s now rq) \<and> unchanged_on_error s (AddEndpoint s rq bus t) \<and> unchanged_on_error s (SetPinAssignment s rq a) \<and>
   unchanged_on_error s (SetStreamLimits s rq l) \<and> unchanged_on_error s (SetQueueConfig s rq q) \<and> unchanged_on_error s (WriteFunctional s rq bus data) \<and>
   unchanged_on_error s (WriteFunctionalAt s rq bus start data) \<and> unchanged_on_error s (WriteEP0 s rq data) \<and>
   unchanged_on_error s (ClaimConfiguration s now rq) \<and> unchanged_on_error s (ReleaseConfigurationClaim s now rq) \<and>
   unchanged_on_refusal GConfig_Validate gcfg gpio_encodeConfigBlock gpio_adoptConfigBlock s gpioEp bus rq req \<and>
   unchanged_on_refusal PwmConfig_Validate pwm_cfg pwm_encodeConfigBlock pwm_adoptConfigBlock s pwmEp bus rq req \<and>
   unchanged_on_refusal I2cConfig_Validate i2c_cfg i2c_encodeConfigBlock i2c_adoptConfigBlock s i2cEp bus rq req \<and>
   unchanged_on_refusal LinConfig_Validate lin_cfg lin_encodeConfigBlock lin_adoptConfigBlock s linEp bus rq req \<and>
   unchanged_on_refusal SpiConfig_Validate spi_cfg spi_encodeConfigBlock spi_adoptConfigBlock s spiEp bus rq req \<and>
   unchanged_on_refusal UartConfig_Validate uart_cfg uart_encodeConfigBlock uart_adoptConfigBlock s uartEp bus rq req \<and>
   unchanged_on_refusal AdcConfig_Validate adc_cfg adc_encodeConfigBlock adc_adoptConfigBlock s adcEp bus rq req \<and>
   unchanged_on_refusal CanConfig_Validate can_cfg can_encodeConfigBlock can_adoptConfigBlock s canEp bus rq req \<and>
   unchanged_on_refusal MdioConfig_Validate mdio_cfg mdio_encodeConfigBlock mdio_adoptConfigBlock s mdioEp bus rq req \<and>
   unchanged_on_refusal IseledConfig_Validate iseled_cfg iseled_encodeConfigBlock iseled_adoptConfigBlock s iseledEp bus rq req"
  by (intro conjI server_rejections endpoint_refusals)

end
